(* ===== verification/Gamnet_Prelude.thy ===== *)
theory Gamnet_Prelude
  imports Main "HOL-Library.Word"
begin

text \<open>
  Shared vocabulary of the development: the fixed-width integer types, byte strings, the
  outcome of a C++ call (a value, a thrown \<open>Gamnet::Exception\<close>, or undefined behaviour), the
  little-endian memory image of an integer, \<open>memcpy\<close> into an array, and the two generic
  interfaces used by several components: a transition system with an invariant, and a codec.
\<close>

section \<open>Types\<close>

type_synonym u8 = "8 word"
type_synonym u16 = "16 word"
type_synonym u32 = "32 word"
type_synonym u64 = "64 word"
type_synonym bytes = "u8 list"

text \<open>The result of running a piece of C++: \<open>Ret\<close> for a normal return, \<open>Throw\<close> for an
  exception with the error code it carries, \<open>Undef\<close> for undefined behaviour.\<close>

datatype 'a outcome = Ret 'a | Throw int | Undef

fun bind_outcome :: "'a outcome \<Rightarrow> ('a \<Rightarrow> 'b outcome) \<Rightarrow> 'b outcome" where
  "bind_outcome (Ret x) f = f x"
| "bind_outcome (Throw e) f = Throw e"
| "bind_outcome Undef f = Undef"

lemma bind_outcome_Ret_iff:
  "bind_outcome m f = Ret y \<longleftrightarrow> (\<exists>x. m = Ret x \<and> f x = Ret y)"
  by (cases m) auto

lemma bind_outcome_RetE:
  assumes "bind_outcome m f = Ret y"
  obtains x where "m = Ret x" "f x = Ret y"
  using assms by (cases m) simp_all

lemma bind_outcome_RetE2:
  assumes "bind_outcome m (\<lambda>(a, b). f a b) = Ret y"
  obtains a b where "m = Ret (a, b)" "f a b = Ret y"
  using assms by (cases m) (auto split: prod.splits)

lemma case_load_eq_Some:
  "(case x of None \<Rightarrow> None | Some (a, r) \<Rightarrow> f a r) = Some y \<longleftrightarrow> (\<exists>a r. x = Some (a, r) \<and> f a r = Some y)"
  by (auto split: option.splits)

text \<open>The enumeration \<open>ErrorCode\<close> of \<^verbatim>\<open>Gamnet/Library/Exception.h\<close>; an exception carries such a code as
  an \<open>int\<close>.\<close>

definition ConnectFailError :: int where "ConnectFailError = 1"
definition ConnectTimeoutError :: int where "ConnectTimeoutError = 10"
definition InvalidArgumentError :: int where "InvalidArgumentError = 20"
definition InvalidSessionTokenError :: int where "InvalidSessionTokenError = 21"
definition InvalidSessionError :: int where "InvalidSessionError = 22"
definition InvalidArrayRangeError :: int where "InvalidArrayRangeError = 30"
definition InvalidKeyError :: int where "InvalidKeyError = 40"
definition InvalidAddressError :: int where "InvalidAddressError = 41"
definition NullPointerError :: int where "NullPointerError = 60"
definition MessageFormatError :: int where "MessageFormatError = 70"

text \<open>Facts about the memory operations that component proofs feed to \<open>simp\<close>.\<close>

named_theorems mem_simps

section \<open>Memory images\<close>

text \<open>\<open>overwrite off src dst\<close> is the array \<open>dst\<close> after \<open>memcpy(dst + off, src, |src|)\<close>; it is
  used only where \<open>off + |src| \<le> |dst|\<close>.\<close>

definition overwrite :: "nat \<Rightarrow> 'a list \<Rightarrow> 'a list \<Rightarrow> 'a list" where
  "overwrite off src dst = take off dst @ src @ drop (off + length src) dst"

lemma length_overwrite [simp, mem_simps]:
  "off + length src \<le> length dst \<Longrightarrow> length (overwrite off src dst) = length dst"
  by (simp add: overwrite_def)

lemma overwrite_Nil [simp]: "overwrite off [] dst = dst"
  by (simp add: overwrite_def)

lemma take_overwrite_before [mem_simps]:
  "n \<le> off \<Longrightarrow> off \<le> length dst \<Longrightarrow> take n (overwrite off src dst) = take n dst"
  by (simp add: overwrite_def)

lemma take_overwrite_through [mem_simps]:
  "off \<le> length dst \<Longrightarrow> take (off + length src) (overwrite off src dst) = take off dst @ src"
  by (simp add: overwrite_def)

lemma drop_overwrite_after [mem_simps]:
  "off + length src \<le> length dst \<Longrightarrow> off + length src \<le> n \<Longrightarrow>
     drop n (overwrite off src dst) = drop n dst"
  by (simp add: overwrite_def)

text \<open>\<open>slice off n xs\<close>: the \<open>n\<close> elements starting at \<open>off\<close>.\<close>

definition slice_of :: "nat \<Rightarrow> nat \<Rightarrow> 'a list \<Rightarrow> 'a list" where
  "slice_of off n xs = take n (drop off xs)"

lemma length_slice_of [simp, mem_simps]:
  "off + n \<le> length xs \<Longrightarrow> length (slice_of off n xs) = n"
  by (simp add: slice_of_def)

lemma slice_of_overwrite_hit [mem_simps]:
  "off \<le> length dst \<Longrightarrow> slice_of off (length src) (overwrite off src dst) = src"
  by (simp add: slice_of_def overwrite_def)

lemma slice_of_overwrite_before [mem_simps]:
  "i + n \<le> off \<Longrightarrow> off \<le> length dst \<Longrightarrow>
     slice_of i n (overwrite off src dst) = slice_of i n dst"
  by (simp add: slice_of_def overwrite_def drop_take)

lemma slice_of_overwrite_after [mem_simps]:
  "off + length src \<le> i \<Longrightarrow> off + length src \<le> length dst \<Longrightarrow>
     slice_of i n (overwrite off src dst) = slice_of i n dst"
  by (simp add: slice_of_def overwrite_def)

section \<open>Little-endian integers\<close>

text \<open>The bytes of an \<open>n\<close>-byte unsigned integer in memory order on the little-endian machines the
  code runs on (it stores integers by casting pointers), and the value of such bytes.\<close>

fun le_bytes :: "nat \<Rightarrow> nat \<Rightarrow> bytes" where
  "le_bytes 0 v = []"
| "le_bytes (Suc n) v = of_nat (v mod 256) # le_bytes n (v div 256)"

fun le_val :: "bytes \<Rightarrow> nat" where
  "le_val [] = 0"
| "le_val (b # bs) = unat b + 256 * le_val bs"

lemma length_le_bytes [simp, mem_simps]: "length (le_bytes n v) = n"
  by (induction n arbitrary: v) auto

lemma le_bytes_numeral [simp]:
  "le_bytes (numeral k) v = of_nat (v mod 256) # le_bytes (pred_numeral k) (v div 256)"
  by (simp only: numeral_eq_Suc [of k] le_bytes.simps)

lemma unat_u8_less: "unat (b :: u8) < 256"
proof -
  have "unat b < 2 ^ LENGTH(8)" by (rule unsigned_less)
  then show ?thesis by simp
qed

lemma unat_of_nat_byte: "unat (of_nat (v mod 256) :: u8) = v mod 256"
  by (simp add: unat_of_nat)

lemma le_val_le_bytes [simp, mem_simps]: "le_val (le_bytes n v) = v mod 256 ^ n"
proof (induction n arbitrary: v)
  case 0
  then show ?case by simp
next
  case (Suc n)
  have "le_val (le_bytes (Suc n) v) = v mod 256 + 256 * (v div 256 mod 256 ^ n)"
    by (simp add: Suc.IH unat_of_nat)
  also have "\<dots> = v mod (256 * 256 ^ n)"
    by (simp add: mod_mult2_eq)
  finally show ?case by simp
qed

lemma le_val_less: "le_val bs < 256 ^ length bs"
proof (induction bs)
  case Nil
  then show ?case by simp
next
  case (Cons b bs)
  have "unat b < 256" by (rule unat_u8_less)
  moreover have "256 * Suc (le_val bs) \<le> 256 * 256 ^ length bs"
    using Cons by (intro mult_le_mono2) simp
  ultimately show ?case by simp
qed

lemma le_bytes_le_val [simp]: "le_bytes (length bs) (le_val bs) = bs"
proof (induction bs)
  case Nil
  then show ?case by simp
next
  case (Cons b bs)
  have "unat b < 256" by (rule unat_u8_less)
  with Cons show ?case by simp
qed

text \<open>A word stored by \<open>*(uintN_t*)p = w\<close> and read back by \<open>*(uintN_t*)p\<close>.\<close>

definition put_word :: "'a::len word \<Rightarrow> bytes" where
  "put_word w = le_bytes (LENGTH('a) div 8) (unat w)"

definition get_word :: "bytes \<Rightarrow> 'a::len word" where
  "get_word bs = of_nat (le_val bs)"

lemma unat_of_nat_u16: "unat (of_nat n :: u16) = n mod 2 ^ 16"
  by (simp add: unat_of_nat)
lemma unat_of_nat_u32: "unat (of_nat n :: u32) = n mod 2 ^ 32"
  by (simp add: unat_of_nat)

lemma length_put_u16 [simp, mem_simps]: "length (put_word (w :: u16)) = 2"
  by (simp add: put_word_def)
lemma length_put_u32 [simp, mem_simps]: "length (put_word (w :: u32)) = 4"
  by (simp add: put_word_def)
lemma length_put_u64 [simp, mem_simps]: "length (put_word (w :: u64)) = 8"
  by (simp add: put_word_def)

lemma get_put_word:
  assumes "LENGTH('a::len) = 8 * n"
  shows "get_word (put_word (w :: 'a word)) = w"
proof -
  have "(2::nat) ^ LENGTH('a) = 256 ^ n"
    using assms by (simp add: power_mult)
  moreover have "unat w < 2 ^ LENGTH('a)" by (rule unsigned_less)
  ultimately have "unat w < 256 ^ n" by simp
  then show ?thesis using assms by (simp add: get_word_def put_word_def)
qed

lemma get_put_u16 [simp, mem_simps]: "get_word (put_word (w :: u16)) = w"
  by (rule get_put_word [where n = 2]) simp
lemma get_put_u32 [simp, mem_simps]: "get_word (put_word (w :: u32)) = w"
  by (rule get_put_word [where n = 4]) simp
lemma get_put_u64 [simp, mem_simps]: "get_word (put_word (w :: u64)) = w"
  by (rule get_put_word [where n = 8]) simp

section \<open>Text\<close>

text \<open>Numbers as the string stream of \<open>Format\<close> and \<open>Concat\<close> (\<^verbatim>\<open>Gamnet/Library/String.h\<close>) prints them.\<close>

fun dec_digits :: "nat \<Rightarrow> string" where
  "dec_digits n = (if n < 10 then [''0123456789'' ! n] else dec_digits (n div 10) @ [''0123456789'' ! (n mod 10)])"

declare dec_digits.simps [simp del]

definition string_bytes :: "string \<Rightarrow> bytes" where
  "string_bytes s = map of_char s"

definition dec_int :: "int \<Rightarrow> string" where
  "dec_int i = (if i < 0 then CHR ''-'' # dec_digits (nat (- i)) else dec_digits (nat i))"

text \<open>What \<open>isspace\<close> and \<open>isdigit\<close> accept, and \<open>atoi\<close> of a text whose number fits an \<open>int\<close>.\<close>

definition is_space :: "char \<Rightarrow> bool" where
  "is_space c \<longleftrightarrow> c \<in> set [CHR '' '', CHR 0x09, CHR 0x0A, CHR 0x0B, CHR 0x0C, CHR 0x0D]"

definition is_digit :: "char \<Rightarrow> bool" where
  "is_digit c \<longleftrightarrow> c \<in> set ''0123456789''"

definition digits_value :: "string \<Rightarrow> nat" where
  "digits_value s = foldl (\<lambda>n c. n * 10 + (of_char c - 48)) 0 (takeWhile is_digit s)"

definition atoi :: "string \<Rightarrow> int" where
  "atoi s = (case s of
     [] \<Rightarrow> 0
   | c # r \<Rightarrow> if c = CHR ''-'' then - int (digits_value r)
       else if c = CHR ''+'' then int (digits_value r) else int (digits_value s))"

lemma digit_less_10: "d < 10 \<Longrightarrow> d \<in> {0, 1, 2, 3, 4, 5, 6, 7, 8, 9::nat}"
  by auto

lemma digit_char:
  "d < 10 \<Longrightarrow> is_digit (''0123456789'' ! d) \<and> of_char (''0123456789'' ! d) = 48 + d \<and> \<not> is_space (''0123456789'' ! d)"
  by (drule digit_less_10) (auto simp: is_digit_def is_space_def)

lemma dec_digits_digits: "c \<in> set (dec_digits n) \<Longrightarrow> is_digit c \<and> \<not> is_space c"
proof (induction n rule: dec_digits.induct)
  case (1 n)
  then show ?case by (subst (asm) (2) dec_digits.simps) (auto split: if_splits simp: digit_char)
qed

lemma fold_dec_digits: "foldl (\<lambda>n c. n * 10 + (of_char c - 48)) 0 (dec_digits n) = (n :: nat)"
proof (induction n rule: dec_digits.induct)
  case (1 n)
  then show ?case by (cases "n < 10") (simp_all add: dec_digits.simps [of n] digit_char)
qed

lemma digits_value_dec: "digits_value (dec_digits n) = n"
proof -
  have "takeWhile is_digit (dec_digits n) = dec_digits n" using dec_digits_digits by simp
  then show ?thesis unfolding digits_value_def by (simp only: fold_dec_digits)
qed

lemma dec_digits_not_empty [simp]: "dec_digits n \<noteq> []"
  by (simp add: dec_digits.simps)

lemma atoi_dec [simp]: "atoi (dec_digits n) = int n"
proof (cases "dec_digits n")
  case (Cons c r)
  then have "is_digit c" using dec_digits_digits [of c n] by simp
  then have "c \<noteq> CHR ''-''" "c \<noteq> CHR ''+''" by (auto simp: is_digit_def)
  then show ?thesis using Cons digits_value_dec [of n] by (simp add: atoi_def)
qed simp

section \<open>Interface: a transition system with an inductive invariant\<close>

locale invariant_system =
  fixes init :: "'s \<Rightarrow> bool"
    and step :: "'s \<Rightarrow> 's \<Rightarrow> bool"
    and inv :: "'s \<Rightarrow> bool"
  assumes inv_init: "init s \<Longrightarrow> inv s"
    and inv_step: "inv s \<Longrightarrow> step s t \<Longrightarrow> inv t"
begin

lemma inv_steps: "step\<^sup>*\<^sup>* s t \<Longrightarrow> inv s \<Longrightarrow> inv t"
  by (induction rule: rtranclp_induct) (auto intro: inv_step)

lemma inv_reachable: "init s \<Longrightarrow> step\<^sup>*\<^sup>* s t \<Longrightarrow> inv t"
  by (blast intro: inv_steps inv_init)

end

section \<open>Interface: a codec\<close>

text \<open>What a message type of the interface compiler promises: \<open>store\<close> writes exactly \<open>size\<close>
  bytes, and \<open>load\<close> reads a stored message back and leaves the rest of the input.\<close>

locale codec =
  fixes valid :: "'m \<Rightarrow> bool"
    and size_of :: "'m \<Rightarrow> nat"
    and store :: "'m \<Rightarrow> bytes"
    and load :: "bytes \<Rightarrow> ('m \<times> bytes) option"
  assumes length_store: "length (store m) = size_of m"
    and load_store: "valid m \<Longrightarrow> load (store m @ rest) = Some (m, rest)"
begin

lemma load_store_exact: "valid m \<Longrightarrow> load (store m) = Some (m, [])"
  using load_store [of m "[]"] by simp

lemma store_inj: "valid m \<Longrightarrow> valid m' \<Longrightarrow> store m = store m' \<Longrightarrow> m = m'"
  by (metis load_store_exact option.inject prod.inject)

text \<open>Stored messages are prefix-free: no stored message is a proper prefix of another.\<close>

lemma store_prefix_free:
  "valid m \<Longrightarrow> valid m' \<Longrightarrow> store m @ r = store m' @ r' \<Longrightarrow> m = m' \<and> r = r'"
  by (metis load_store option.inject prod.inject)

end

text \<open>A codec whose \<open>load\<close> looks only at what it consumes: more input behind changes nothing. Such a
  codec refuses every proper prefix of a stored message.\<close>

locale stream_codec = codec +
  assumes load_extend: "load bs = Some (m, r) \<Longrightarrow> load (bs @ more) = Some (m, r @ more)"
begin

lemma load_truncated:
  assumes "valid m" and "n < size_of m"
  shows "load (take n (store m)) = None"
proof (cases "load (take n (store m))")
  case (Some mr)
  then obtain m' r where "load (take n (store m)) = Some (m', r)" by (cases mr) auto
  then have "load (take n (store m) @ drop n (store m)) = Some (m', r @ drop n (store m))"
    by (rule load_extend)
  then have "drop n (store m) = []" using load_store_exact [OF assms(1)] by auto
  then have "size_of m \<le> n" using length_store [of m] by simp
  with assms(2) show ?thesis by simp
qed simp

end

end
