(* ===== verification/Object_Pool.thy ===== *)
theory Object_Pool
  imports Gamnet_Prelude
begin

text \<open>
  The object pool of \<^verbatim>\<open>Gamnet/Library/Pool.h\<close>. Objects are pointers (type \<open>'a\<close>); the pool keeps the
  free ones in a deque used as a stack and counts how many it ever constructed. An object
  leaves the pool inside a \<open>shared_ptr\<close> whose deleter calls \<open>Restitute\<close>, so the system
  below also records which objects are outstanding. Every public operation takes the lock
  for its whole body and is one step.
\<close>

section \<open>State and operations\<close>

record 'a pool =
  lstObjectPtr :: "'a list"
  cur_size :: nat
  max_size :: nat

text \<open>What calling the object factory does: it returns a new object, returns \<open>NULL\<close> (the
  database pool's factory does when the connection fails), or throws.\<close>

datatype 'a factory_result = Made 'a | MadeNull | FactoryThrows int

definition new_pool :: "nat \<Rightarrow> 'a pool" where
  "new_pool nSize = \<lparr>lstObjectPtr = [], cur_size = 0, max_size = nSize\<rparr>"

text \<open>\<open>Create\<close>. The first argument is what \<open>factory_()\<close> does if it is called; the second is the
  initialisation policy's effect on the pointer's object, applied by the caller's store.\<close>

fun pool_Create :: "'a factory_result \<Rightarrow> 'a pool \<Rightarrow> 'a option outcome \<times> 'a pool" where
  "pool_Create made p =
     (if lstObjectPtr p = [] \<and> cur_size p \<ge> max_size p then (Ret None, p)
      else case lstObjectPtr p of
        [] \<Rightarrow> (let p' = p\<lparr>cur_size := cur_size p + 1\<rparr> in
                case made of
                  Made x \<Rightarrow> (Ret (Some x), p')
                | MadeNull \<Rightarrow> (Ret None, p')
                | FactoryThrows e \<Rightarrow> (Throw e, p'))
      | x # xs \<Rightarrow> (Ret (Some x), p\<lparr>lstObjectPtr := xs\<rparr>))"

declare pool_Create.simps [simp del]

definition pool_Restitute :: "'a option \<Rightarrow> 'a pool \<Rightarrow> 'a pool" where
  "pool_Restitute ptr p =
     (case ptr of None \<Rightarrow> p | Some x \<Rightarrow> p\<lparr>lstObjectPtr := x # lstObjectPtr p\<rparr>)"

text \<open>\<open>size_t\<close> arithmetic is modulo \<open>2^64\<close>: the subtraction wraps when the capacity was lowered
  below the number of constructed objects.\<close>

definition pool_Available :: "'a pool \<Rightarrow> nat" where
  "pool_Available p = nat ((int (length (lstObjectPtr p)) + (int (max_size p) - int (cur_size p))) mod 2 ^ 64)"

definition pool_Size :: "'a pool \<Rightarrow> nat" where
  "pool_Size p = cur_size p"

definition pool_Capacity :: "'a pool \<Rightarrow> nat" where
  "pool_Capacity p = max_size p"

text \<open>The setter takes an \<open>int\<close>, converted to \<open>size_t\<close>.\<close>

definition pool_set_Capacity :: "int \<Rightarrow> 'a pool \<Rightarrow> 'a pool" where
  "pool_set_Capacity capacity p = p\<lparr>max_size := nat (capacity mod 2 ^ 64)\<rparr>"

section \<open>The pool and its clients as a system\<close>

text \<open>\<open>live\<close> are the objects held by clients, \<open>lost\<close> counts the slots used up by a factory that
  returned \<open>NULL\<close> or threw.\<close>

record 'a pool_sys =
  pl :: "'a pool"
  live :: "'a list"
  lost :: nat

definition pool_init :: "nat \<Rightarrow> 'a pool_sys \<Rightarrow> bool" where
  "pool_init n s \<longleftrightarrow> s = \<lparr>pl = new_pool n, live = [], lost = 0\<rparr>"

inductive pool_step :: "'a pool_sys \<Rightarrow> 'a pool_sys \<Rightarrow> bool" where
  create_ok:
    "x \<notin> set (lstObjectPtr (pl s)) \<union> set (live s) \<Longrightarrow>
     pool_Create (Made x) (pl s) = (Ret (Some y), p') \<Longrightarrow>
     pool_step s (s\<lparr>pl := p', live := y # live s\<rparr>)"
| create_none:
    "pool_Create (Made x) (pl s) = (Ret None, p') \<Longrightarrow> pool_step s (s\<lparr>pl := p'\<rparr>)"
| create_bad_factory:
    "made \<in> {MadeNull} \<union> range FactoryThrows \<Longrightarrow> lstObjectPtr (pl s) = [] \<Longrightarrow>
     cur_size (pl s) < max_size (pl s) \<Longrightarrow>
     pool_Create made (pl s) = (r, p') \<Longrightarrow> pool_step s (s\<lparr>pl := p', lost := lost s + 1\<rparr>)"
| release:
    "y \<in> set (live s) \<Longrightarrow>
     pool_step s (s\<lparr>pl := pool_Restitute (Some y) (pl s), live := remove1 y (live s)\<rparr>)"

text \<open>The pool's accounting: every constructed object is free, held by exactly one client, or
  lost, and no more than the capacity was ever constructed.\<close>

definition pool_inv :: "nat \<Rightarrow> 'a pool_sys \<Rightarrow> bool" where
  "pool_inv n s \<longleftrightarrow>
     max_size (pl s) = n \<and>
     cur_size (pl s) \<le> n \<and>
     cur_size (pl s) = length (lstObjectPtr (pl s)) + length (live s) + lost s \<and>
     distinct (lstObjectPtr (pl s) @ live s)"

section \<open>Behaviour of the operations\<close>

lemma pool_Create_exhausted:
  "lstObjectPtr p = [] \<Longrightarrow> max_size p \<le> cur_size p \<Longrightarrow> pool_Create made p = (Ret None, p)"
  by (simp add: pool_Create.simps)

lemma pool_Create_reuse:
  "lstObjectPtr p = x # xs \<Longrightarrow> pool_Create made p = (Ret (Some x), p\<lparr>lstObjectPtr := xs\<rparr>)"
  by (simp add: pool_Create.simps)

lemma pool_Create_made:
  "lstObjectPtr p = [] \<Longrightarrow> cur_size p < max_size p \<Longrightarrow>
     pool_Create (Made x) p = (Ret (Some x), p\<lparr>cur_size := cur_size p + 1\<rparr>)"
  by (simp add: pool_Create.simps)

lemmas pool_Create_cases = pool_Create_exhausted pool_Create_reuse pool_Create_made

lemma pool_Create_Made_None:
  "pool_Create (Made x) p = (Ret None, p') \<longleftrightarrow>
     lstObjectPtr p = [] \<and> max_size p \<le> cur_size p \<and> p' = p"
  by (auto simp: pool_Create.simps split: list.splits)

lemma pool_Create_Made_Some:
  "pool_Create (Made x) p = (Ret (Some y), p') \<longleftrightarrow>
     (lstObjectPtr p = [] \<and> cur_size p < max_size p \<and> y = x \<and> p' = p\<lparr>cur_size := cur_size p + 1\<rparr>) \<or>
     (\<exists>xs. lstObjectPtr p = y # xs \<and> p' = p\<lparr>lstObjectPtr := xs\<rparr>)"
  by (auto simp: pool_Create.simps Let_def split: list.splits)

lemma pool_Create_bad:
  "made \<in> {MadeNull} \<union> range FactoryThrows \<Longrightarrow> lstObjectPtr p = [] \<Longrightarrow> cur_size p < max_size p \<Longrightarrow>
     snd (pool_Create made p) = p\<lparr>cur_size := cur_size p + 1\<rparr>"
  by (auto simp: pool_Create.simps Let_def)

lemma pool_inv_init: "pool_init n s \<Longrightarrow> pool_inv n s"
  by (simp add: pool_init_def pool_inv_def new_pool_def)

lemma pool_inv_step:
  assumes "pool_inv n s" and "pool_step s t"
  shows "pool_inv n t"
  using assms(2,1)
proof cases
  case (create_ok x y p')
  with assms(1) show ?thesis
    by (auto simp: pool_Create_Made_Some pool_inv_def)
next
  case (create_none x p')
  with assms(1) show ?thesis by (auto simp: pool_Create_Made_None pool_inv_def)
next
  case (create_bad_factory made r p')
  then have "p' = (pl s)\<lparr>cur_size := cur_size (pl s) + 1\<rparr>"
    using pool_Create_bad [of made "pl s"] by simp
  with create_bad_factory assms(1) show ?thesis by (auto simp: pool_inv_def)
next
  case (release y)
  then have "length (live s) > 0" by auto
  with release assms(1) show ?thesis
    by (auto simp: pool_inv_def pool_Restitute_def length_remove1 dest: notin_set_remove1)
qed

interpretation object_pool: invariant_system "pool_init n" pool_step "pool_inv n" for n
  by unfold_locales (auto intro: pool_inv_init pool_inv_step)

text \<open>In every state the invariant allows, a request fails only when every slot is in use.\<close>

lemma pool_Create_None_iff:
  assumes "pool_inv n s"
  shows "fst (pool_Create (Made x) (pl s)) = Ret None \<longleftrightarrow> length (live s) + lost s = n"
  using assms
  by (auto simp: pool_inv_def pool_Create.simps Let_def split: list.splits)

lemma pool_Available_eq:
  assumes "pool_inv n s" and "n < 2 ^ 64"
  shows "pool_Available (pl s) = n - (length (live s) + lost s)"
  using assms by (simp add: pool_inv_def pool_Available_def)

section \<open>Properties\<close>

text \<open>C11: Starting from an empty pool of capacity \<open>n\<close>, however clients create and release objects
  (and whatever the factory does), no object is ever free and handed out at once or handed out
  twice, at most \<open>n\<close> are handed out, and \<open>Create\<close> refuses exactly when the \<open>n\<close> slots are all
  held by clients or lost to a failed factory.\<close>

theorem pool_exclusive_and_bounded:
  assumes "pool_init n s" and "pool_step\<^sup>*\<^sup>* s t"
  shows "distinct (lstObjectPtr (pl t) @ live t) \<and> length (live t) \<le> n \<and>
    (fst (pool_Create (Made x) (pl t)) = Ret None \<longleftrightarrow> length (live t) + lost t = n)"
proof -
  have inv: "pool_inv n t" using assms by (rule object_pool.inv_reachable)
  then show ?thesis using pool_Create_None_iff [OF inv] by (auto simp: pool_inv_def)
qed

lemma pool_exclusive_and_bounded_witness:
  "pool_init 1 \<lparr>pl = new_pool 1, live = [], lost = 0\<rparr> \<and>
   pool_step\<^sup>*\<^sup>* \<lparr>pl = new_pool 1, live = [], lost = 0\<rparr> \<lparr>pl = (new_pool 1)\<lparr>cur_size := 1\<rparr>, live = [7::nat], lost = 0\<rparr> \<and>
   fst (pool_Create (Made (8::nat)) ((new_pool 1)\<lparr>cur_size := 1\<rparr>)) = Ret None"
proof -
  have i: "pool_init 1 \<lparr>pl = new_pool 1, live = [], lost = 0\<rparr>" by (simp add: pool_init_def)
  have "pool_step \<lparr>pl = new_pool 1, live = [], lost = 0\<rparr>
    (\<lparr>pl = new_pool 1, live = [], lost = 0\<rparr>\<lparr>pl := (new_pool 1)\<lparr>cur_size := 1\<rparr>, live := [7::nat]\<rparr>)"
    using pool_step.create_ok [of 7 "\<lparr>pl = new_pool 1, live = [], lost = 0\<rparr>" 7 "(new_pool 1)\<lparr>cur_size := 1\<rparr>"]
    by (simp add: pool_Create.simps new_pool_def)
  then have st: "pool_step\<^sup>*\<^sup>* \<lparr>pl = new_pool 1, live = [], lost = 0\<rparr>
    \<lparr>pl = (new_pool 1)\<lparr>cur_size := 1\<rparr>, live = [7::nat], lost = 0\<rparr>"
    by (simp add: r_into_rtranclp)
  show ?thesis using i st pool_exclusive_and_bounded [OF i st, of 8] by simp
qed

end
