(* ===== verification/Byte_Buffer.thy ===== *)
theory Byte_Buffer
  imports Gamnet_Prelude
begin

text \<open>
  \<^verbatim>\<open>Gamnet/Library/Buffer.h\<close> and \<^verbatim>\<open>Buffer.cpp\<close>: a byte array with a read and a write cursor. Sizes
  are \<open>nat\<close>; the code's \<open>size_t\<close> subtractions are exact because the invariant keeps
  \<open>readCursor \<le> writeCursor \<le> bufSize\<close>. The copies that C++ leaves undefined (a \<open>memcpy\<close>
  whose ranges overlap, or one that writes past the allocation) are \<open>Undef\<close>.
  The abstract content of a buffer is the byte sequence between the two cursors; the
  locale \<open>byte_queue\<close> states what the receive paths rely on.
\<close>

section \<open>State and operations\<close>

record buffer =
  writeCursor :: nat
  readCursor :: nat
  bufSize :: nat
  bdata :: bytes

definition Buffer_MAX_SIZE :: nat where
  "Buffer_MAX_SIZE = 0xffff"

text \<open>\<^verbatim>\<open>ErrorCode::BufferOverflowError\<close>.\<close>

definition BufferOverflowError :: int where
  "BufferOverflowError = 100"

definition new_buffer :: "nat \<Rightarrow> buffer" where
  "new_buffer sz = \<lparr>writeCursor = 0, readCursor = 0, bufSize = sz, bdata = replicate sz 0\<rparr>"

definition buf_Size :: "buffer \<Rightarrow> nat" where
  "buf_Size b = writeCursor b - readCursor b"

definition buf_Available :: "buffer \<Rightarrow> nat" where
  "buf_Available b = bufSize b - (writeCursor b - readCursor b)"

definition buf_Capacity :: "buffer \<Rightarrow> nat" where
  "buf_Capacity b = bufSize b"

definition buf_Clear :: "buffer \<Rightarrow> buffer" where
  "buf_Clear b = b\<lparr>writeCursor := 0, readCursor := 0\<rparr>"

text \<open>The bytes \<open>ReadPtr()\<close> points at, \<open>n\<close> of them.\<close>

definition buf_read :: "nat \<Rightarrow> buffer \<Rightarrow> bytes" where
  "buf_read n b = slice_of (readCursor b) n (bdata b)"

text \<open>\<open>RemoveReadBuffer\<close>: the \<open>memcpy\<close> to the front of the array is undefined when source and
  destination overlap, that is when more bytes are kept than were removed.\<close>

definition buf_RemoveReadBuffer :: "buffer \<Rightarrow> buffer outcome" where
  "buf_RemoveReadBuffer b =
     (if readCursor b = 0 then Ret b
      else if 0 < writeCursor b - readCursor b \<and> writeCursor b - readCursor b > readCursor b then Undef
      else Ret (b\<lparr>bdata := overwrite 0 (slice_of (readCursor b) (writeCursor b - readCursor b) (bdata b)) (bdata b),
                  writeCursor := writeCursor b - readCursor b, readCursor := 0\<rparr>))"

definition buf_Append :: "bytes \<Rightarrow> buffer \<Rightarrow> buffer outcome" where
  "buf_Append buf b =
     (if length buf = 0 then Ret b
      else if buf_Available b < length buf then Throw BufferOverflowError
      else bind_outcome (if length buf > bufSize b - writeCursor b then buf_RemoveReadBuffer b else Ret b)
        (\<lambda>b. Ret (b\<lparr>bdata := overwrite (writeCursor b) buf (bdata b),
                    writeCursor := writeCursor b + length buf\<rparr>)))"

definition buf_Remove :: "u16 \<Rightarrow> buffer \<Rightarrow> buffer" where
  "buf_Remove sz b =
     (let r = readCursor b + unat sz;
          r = (if r > writeCursor b then writeCursor b else r)
      in if r = writeCursor b then b\<lparr>readCursor := 0, writeCursor := 0\<rparr> else b\<lparr>readCursor := r\<rparr>)"

text \<open>\<open>WritePtr\<close> returns the offset it points at, or \<open>NULL\<close> for a full buffer.\<close>

definition buf_WritePtr :: "buffer \<Rightarrow> (nat option \<times> buffer) outcome" where
  "buf_WritePtr b = bind_outcome (buf_RemoveReadBuffer b)
     (\<lambda>b. Ret (if writeCursor b \<ge> bufSize b then None else Some (writeCursor b), b))"

text \<open>\<open>Resize\<close> allocates \<open>sz\<close> zero bytes and copies the unread ones: a smaller \<open>sz\<close> than the
  unread bytes writes past the new array.\<close>

definition buf_Resize :: "nat \<Rightarrow> buffer \<Rightarrow> buffer outcome" where
  "buf_Resize sz b =
     (if buf_Size b > sz then Undef
      else Ret (b\<lparr>bdata := overwrite 0 (slice_of (readCursor b) (buf_Size b) (bdata b)) (replicate sz 0),
                  bufSize := sz, writeCursor := writeCursor b - readCursor b, readCursor := 0\<rparr>))"

definition buf_Copy :: "buffer \<Rightarrow> buffer \<Rightarrow> buffer outcome" where
  "buf_Copy src b =
     (let b = b\<lparr>readCursor := 0, writeCursor := 0\<rparr>
      in bind_outcome (if buf_Available b < buf_Size src then buf_Resize (buf_Size src) b else Ret b)
           (\<lambda>b. Ret (b\<lparr>bdata := overwrite 0 (buf_read (buf_Size src) src) (bdata b),
                       writeCursor := writeCursor b + buf_Size src\<rparr>)))"

definition buf_Swap :: "buffer \<Rightarrow> buffer \<Rightarrow> buffer \<times> buffer" where
  "buf_Swap lhs rhs =
     (lhs\<lparr>bdata := bdata rhs, writeCursor := writeCursor rhs, readCursor := readCursor rhs, bufSize := bufSize rhs\<rparr>,
      rhs\<lparr>bdata := bdata lhs, writeCursor := writeCursor lhs, readCursor := readCursor lhs, bufSize := bufSize lhs\<rparr>)"

section \<open>Invariant and abstract content\<close>

definition buf_inv :: "buffer \<Rightarrow> bool" where
  "buf_inv b \<longleftrightarrow> readCursor b \<le> writeCursor b \<and> writeCursor b \<le> bufSize b \<and> length (bdata b) = bufSize b"

definition buf_content :: "buffer \<Rightarrow> bytes" where
  "buf_content b = slice_of (readCursor b) (writeCursor b - readCursor b) (bdata b)"

text \<open>A buffer whose unread bytes start at the front of the array.\<close>

definition buf_aligned :: "buffer \<Rightarrow> bool" where
  "buf_aligned b \<longleftrightarrow> buf_inv b \<and> readCursor b = 0"

lemma length_buf_content [simp]: "buf_inv b \<Longrightarrow> length (buf_content b) = buf_Size b"
  by (auto simp: buf_content_def buf_inv_def buf_Size_def slice_of_def)

lemma buf_read_Size [simp]: "buf_read (buf_Size b) b = buf_content b"
  by (simp add: buf_read_def buf_content_def buf_Size_def)

lemma buf_content_aligned: "buf_aligned b \<Longrightarrow> buf_content b = take (writeCursor b) (bdata b)"
  by (simp add: buf_content_def buf_aligned_def slice_of_def)

lemma buf_Available_Size: "buf_inv b \<Longrightarrow> buf_Available b + buf_Size b = buf_Capacity b"
  by (auto simp: buf_Available_def buf_Size_def buf_Capacity_def buf_inv_def)

lemma new_buffer_aligned [simp]: "buf_aligned (new_buffer n)"
  by (simp add: new_buffer_def buf_aligned_def buf_inv_def)

lemma new_buffer_content [simp]: "buf_content (new_buffer n) = []"
  by (simp add: new_buffer_def buf_content_def slice_of_def)

lemma buf_Clear_aligned [simp]: "buf_inv b \<Longrightarrow> buf_aligned (buf_Clear b)"
  by (simp add: buf_Clear_def buf_aligned_def buf_inv_def)

lemma buf_Clear_content [simp]: "buf_content (buf_Clear b) = []"
  by (simp add: buf_Clear_def buf_content_def slice_of_def)

lemma buf_Remove_inv: "buf_inv b \<Longrightarrow> buf_inv (buf_Remove n b)"
  by (auto simp: buf_Remove_def buf_inv_def Let_def)

lemma buf_Remove_content: "buf_inv b \<Longrightarrow> buf_content (buf_Remove n b) = drop (unat n) (buf_content b)"
  by (auto simp: buf_Remove_def buf_inv_def buf_content_def slice_of_def Let_def drop_take add.commute)

lemma buf_Remove_all: "buf_inv b \<Longrightarrow> buf_Size b \<le> unat n \<Longrightarrow> buf_aligned (buf_Remove n b)"
  by (auto simp: buf_Remove_def buf_inv_def buf_aligned_def buf_Size_def Let_def)

lemma buf_Remove_Capacity [simp]: "buf_Capacity (buf_Remove n b) = buf_Capacity b"
  by (simp add: buf_Remove_def buf_Capacity_def Let_def)

text \<open>Compacting keeps the content, and is undefined exactly when more is kept than removed.\<close>

lemma buf_RemoveReadBuffer_Undef_iff:
  "buf_RemoveReadBuffer b = Undef \<longleftrightarrow> 0 < readCursor b \<and> readCursor b < buf_Size b"
  by (auto simp: buf_RemoveReadBuffer_def buf_Size_def)

lemma buf_RemoveReadBuffer_Ret:
  assumes "buf_inv b" and "readCursor b = 0 \<or> buf_Size b \<le> readCursor b"
  obtains b' where "buf_RemoveReadBuffer b = Ret b'" "buf_aligned b'" "buf_content b' = buf_content b"
    "writeCursor b' = buf_Size b" "bufSize b' = bufSize b"
proof (cases "readCursor b = 0")
  case True
  with assms(1) show ?thesis
    by (intro that [of b]) (simp_all add: buf_RemoveReadBuffer_def buf_aligned_def buf_Size_def)
next
  case False
  define b' where "b' = b\<lparr>bdata := overwrite 0 (buf_content b) (bdata b),
    writeCursor := buf_Size b, readCursor := 0\<rparr>"
  have len: "length (buf_content b) = buf_Size b" using assms(1) by simp
  have "buf_Size b \<le> length (bdata b)" using assms(1) by (auto simp: buf_inv_def buf_Size_def)
  then have al: "buf_aligned b'"
    using assms(1) len by (simp add: b'_def buf_aligned_def buf_inv_def)
  have "buf_content b' = buf_content b"
    unfolding buf_content_aligned [OF al] using len by (simp add: b'_def overwrite_def)
  moreover have "buf_RemoveReadBuffer b = Ret b'"
    using False assms(2) by (auto simp: buf_RemoveReadBuffer_def b'_def buf_content_def buf_Size_def)
  ultimately show ?thesis using al by (intro that [of b']) (simp_all add: b'_def)
qed

text \<open>Storing bytes at the write cursor extends the content.\<close>

lemma buf_store_at_write:
  assumes "buf_inv b" and "writeCursor b + length xs \<le> bufSize b"
  defines "b' \<equiv> b\<lparr>bdata := overwrite (writeCursor b) xs (bdata b), writeCursor := writeCursor b + length xs\<rparr>"
  shows "buf_inv b'" and "buf_content b' = buf_content b @ xs"
proof -
  show "buf_inv b'" using assms by (auto simp: buf_inv_def)
  have "take (writeCursor b + length xs) (bdata b') = take (writeCursor b) (bdata b) @ xs"
    using assms by (simp add: buf_inv_def take_overwrite_through)
  moreover have "buf_content b' = drop (readCursor b) (take (writeCursor b + length xs) (bdata b'))"
    by (simp add: b'_def buf_content_def slice_of_def drop_take)
  moreover have "buf_content b = drop (readCursor b) (take (writeCursor b) (bdata b))"
    by (simp add: buf_content_def slice_of_def drop_take)
  ultimately show "buf_content b' = buf_content b @ xs"
    using assms by (auto simp: buf_inv_def)
qed

lemma buf_Append_Throw_iff:
  "buf_Append xs b = Throw e \<longleftrightarrow> xs \<noteq> [] \<and> buf_Available b < length xs \<and> e = BufferOverflowError"
  by (auto simp: buf_Append_def buf_RemoveReadBuffer_def)

lemma buf_Append_Undef_iff:
  "buf_Append xs b = Undef \<longleftrightarrow>
     xs \<noteq> [] \<and> length xs \<le> buf_Available b \<and> bufSize b - writeCursor b < length xs \<and>
     0 < readCursor b \<and> readCursor b < buf_Size b"
  by (auto simp: buf_Append_def buf_RemoveReadBuffer_def buf_Size_def)

lemma buf_Append_Ret:
  assumes inv: "buf_inv b" and room: "length xs \<le> buf_Available b"
    and no_overlap: "length xs \<le> bufSize b - writeCursor b \<or> readCursor b = 0 \<or> buf_Size b \<le> readCursor b"
  obtains b' where "buf_Append xs b = Ret b'" "buf_inv b'" "buf_content b' = buf_content b @ xs"
    "bufSize b' = bufSize b" "readCursor b' \<le> readCursor b"
proof (cases "xs = []")
  case True
  then show ?thesis using inv that [of b] by (simp add: buf_Append_def)
next
  case False
  show ?thesis
  proof (cases "length xs > bufSize b - writeCursor b")
    case True
    then have "readCursor b = 0 \<or> buf_Size b \<le> readCursor b" using no_overlap by auto
    with inv obtain b1 where b1: "buf_RemoveReadBuffer b = Ret b1" "buf_aligned b1"
      "buf_content b1 = buf_content b" "writeCursor b1 = buf_Size b" "bufSize b1 = bufSize b"
      by (rule buf_RemoveReadBuffer_Ret)
    have "writeCursor b1 + length xs \<le> bufSize b1"
      using inv room b1 buf_Available_Size [OF inv] by (simp add: buf_Capacity_def)
    with b1 False True room show ?thesis
      using that buf_store_at_write [of b1 xs] by (auto simp: buf_Append_def buf_aligned_def)
  next
    case fits: False
    then have "writeCursor b + length xs \<le> bufSize b" using inv unfolding buf_inv_def by linarith
    with inv room False fits show ?thesis
      using that buf_store_at_write [of b xs] by (auto simp: buf_Append_def)
  qed
qed

lemma buf_Resize_Ret:
  assumes "buf_inv b" and "buf_Size b \<le> sz"
  obtains b' where "buf_Resize sz b = Ret b'" "buf_aligned b'" "buf_content b' = buf_content b"
    "bufSize b' = sz"
proof -
  define b' where "b' = b\<lparr>bdata := overwrite 0 (buf_content b) (replicate sz 0),
    bufSize := sz, writeCursor := buf_Size b, readCursor := 0\<rparr>"
  have len: "length (buf_content b) = buf_Size b" using assms(1) by simp
  have "buf_Resize sz b = Ret b'"
    using assms(2) by (simp add: buf_Resize_def b'_def buf_content_def buf_Size_def)
  moreover have al: "buf_aligned b'"
    using assms(2) len by (simp add: b'_def buf_aligned_def buf_inv_def)
  moreover have "buf_content b' = buf_content b"
    unfolding buf_content_aligned [OF al] using len by (simp add: b'_def overwrite_def)
  moreover have "bufSize b' = sz" by (simp add: b'_def)
  ultimately show ?thesis by (rule that)
qed

section \<open>Interface: a byte queue\<close>

text \<open>What the receive paths of the server rely on: appending to an aligned queue with room
  extends its content, appending without room throws, removing drops bytes from the front, and
  a queue emptied by removal is aligned again.\<close>

locale byte_queue =
  fixes content :: "'q \<Rightarrow> bytes"
    and inv :: "'q \<Rightarrow> bool"
    and aligned :: "'q \<Rightarrow> bool"
    and capacity :: "'q \<Rightarrow> nat"
    and append :: "bytes \<Rightarrow> 'q \<Rightarrow> 'q outcome"
    and remove :: "u16 \<Rightarrow> 'q \<Rightarrow> 'q"
    and empty :: "'q"
  assumes aligned_empty: "aligned empty"
    and content_empty: "content empty = []"
    and aligned_inv: "aligned q \<Longrightarrow> inv q"
    and append_room: "aligned q \<Longrightarrow> length (content q) + length xs \<le> capacity q \<Longrightarrow>
      \<exists>q'. append xs q = Ret q' \<and> aligned q' \<and> content q' = content q @ xs \<and> capacity q' = capacity q"
    and append_full: "inv q \<Longrightarrow> capacity q < length (content q) + length xs \<Longrightarrow> xs \<noteq> [] \<Longrightarrow>
      append xs q = Throw BufferOverflowError"
    and inv_remove: "inv q \<Longrightarrow> inv (remove n q)"
    and content_remove: "inv q \<Longrightarrow> content (remove n q) = drop (unat n) (content q)"
    and capacity_remove: "capacity (remove n q) = capacity q"
    and remove_all: "inv q \<Longrightarrow> length (content q) \<le> unat n \<Longrightarrow> aligned (remove n q)"
begin

text \<open>Moving what is left after a removal into a fresh queue: the result is aligned and holds
  exactly the bytes that were not removed.\<close>

lemma carry_over:
  assumes "aligned q" and "length (content q) \<le> capacity empty"
  obtains q' where "append (content (remove n q)) empty = Ret q'" "aligned q'"
    "content q' = drop (unat n) (content q)" "capacity q' = capacity empty"
proof -
  have c: "content (remove n q) = drop (unat n) (content q)"
    using assms(1) by (intro content_remove aligned_inv)
  then have "length (content (remove n q)) \<le> capacity empty" using assms(2) by simp
  then obtain q' where "append (content (remove n q)) empty = Ret q'" "aligned q'"
    "content q' = content empty @ content (remove n q)" "capacity q' = capacity empty"
    using append_room [OF aligned_empty, of "content (remove n q)"] content_empty by auto
  with c show ?thesis by (intro that [of q']) (simp_all add: content_empty)
qed

text \<open>Appending piecewise is appending the concatenation.\<close>

lemma append_pieces:
  assumes "aligned q" and "length (content q) + length xs + length ys \<le> capacity q"
  obtains q' q'' where "append xs q = Ret q'" "append ys q' = Ret q''" "aligned q''"
    "content q'' = content q @ xs @ ys" "capacity q'' = capacity q"
proof -
  have "length (content q) + length xs \<le> capacity q" using assms(2) by simp
  from append_room [OF assms(1) this] obtain q' where q': "append xs q = Ret q'" "aligned q'"
    "content q' = content q @ xs" "capacity q' = capacity q" by blast
  have "length (content q') + length ys \<le> capacity q'" using assms(2) q' by simp
  from append_room [OF q'(2) this] obtain q'' where "append ys q' = Ret q''" "aligned q''"
    "content q'' = content q' @ ys" "capacity q'' = capacity q'" by blast
  with q' show ?thesis by (intro that [of q' q'']) simp_all
qed

end

lemma buf_Append_aligned:
  assumes "buf_aligned b" and "length (buf_content b) + length xs \<le> buf_Capacity b"
  shows "\<exists>b'. buf_Append xs b = Ret b' \<and> buf_aligned b' \<and> buf_content b' = buf_content b @ xs \<and>
    buf_Capacity b' = buf_Capacity b"
proof -
  have inv: "buf_inv b" and r: "readCursor b = 0" using assms(1) by (auto simp: buf_aligned_def)
  have "length xs \<le> buf_Available b"
    using assms(2) inv buf_Available_Size [OF inv] by simp
  moreover have "length xs \<le> bufSize b - writeCursor b \<or> readCursor b = 0 \<or> buf_Size b \<le> readCursor b"
    using r by simp
  ultimately obtain b' where "buf_Append xs b = Ret b'" "buf_inv b'" "buf_content b' = buf_content b @ xs"
    "bufSize b' = bufSize b" "readCursor b' \<le> readCursor b"
    using inv by (metis buf_Append_Ret)
  with r show ?thesis by (auto simp: buf_aligned_def buf_Capacity_def)
qed

lemma buf_Append_full:
  assumes "buf_inv b" and "buf_Capacity b < length (buf_content b) + length xs" and "xs \<noteq> []"
  shows "buf_Append xs b = Throw BufferOverflowError"
  using assms buf_Available_Size [OF assms(1)] by (auto simp: buf_Append_def)

interpretation buffer_queue: byte_queue buf_content buf_inv buf_aligned buf_Capacity buf_Append buf_Remove
  "new_buffer n" for n
proof unfold_locales
  show "buf_aligned q \<Longrightarrow> buf_inv q" for q by (simp add: buf_aligned_def)
  show "buf_aligned q \<Longrightarrow> length (buf_content q) + length xs \<le> buf_Capacity q \<Longrightarrow>
    \<exists>q'. buf_Append xs q = Ret q' \<and> buf_aligned q' \<and> buf_content q' = buf_content q @ xs \<and>
      buf_Capacity q' = buf_Capacity q" for q xs
    by (rule buf_Append_aligned)
  show "buf_inv q \<Longrightarrow> length (buf_content q) \<le> unat n \<Longrightarrow> buf_aligned (buf_Remove n q)" for q n
    by (simp add: buf_Remove_all)
qed (simp_all add: buf_Append_full buf_Remove_inv buf_Remove_content)

section \<open>Properties\<close>

text \<open>On a buffer with sane cursors, \<open>Append\<close> has exactly three outcomes: it throws
  \<open>BufferOverflowError\<close> when the free space is smaller than the input; it runs into an overlapping
  \<open>memcpy\<close> when the tail space is too small and more bytes are unread than were consumed; and
  otherwise it returns a sane buffer of the same capacity whose content is the old content followed
  by the input.\<close>

theorem Append_outcome:
  assumes "buf_inv b"
  shows "case buf_Append xs b of
      Throw e \<Rightarrow> e = BufferOverflowError \<and> buf_Available b < length xs
    | Undef \<Rightarrow> length xs \<le> buf_Available b \<and> bufSize b - writeCursor b < length xs \<and>
        0 < readCursor b \<and> readCursor b < buf_Size b
    | Ret b' \<Rightarrow> length xs \<le> buf_Available b \<and> buf_inv b' \<and> buf_Capacity b' = buf_Capacity b \<and>
        buf_content b' = buf_content b @ xs"
proof (cases "buf_Append xs b")
  case (Ret b')
  then have ok: "\<not> buf_Append xs b = Throw BufferOverflowError" "buf_Append xs b \<noteq> Undef" by auto
  then have room: "length xs \<le> buf_Available b"
    by (metis buf_Append_Throw_iff le_zero_eq length_0_conv linorder_not_le nat_le_linear)
  have "length xs \<le> bufSize b - writeCursor b \<or> readCursor b = 0 \<or> buf_Size b \<le> readCursor b"
    using ok(2) room by (auto simp: buf_Append_Undef_iff)
  then obtain b'' where "buf_Append xs b = Ret b''" "buf_inv b''" "buf_content b'' = buf_content b @ xs"
    "bufSize b'' = bufSize b" "readCursor b'' \<le> readCursor b"
    using assms room by (metis buf_Append_Ret)
  with Ret room show ?thesis by (simp add: buf_Capacity_def)
next
  case (Throw e)
  then show ?thesis using buf_Append_Throw_iff [of xs b e] by simp
next
  case Undef
  then show ?thesis using buf_Append_Undef_iff [of xs b] by simp
qed

lemma Append_outcome_witness:
  "buf_inv (new_buffer 4) \<and> buf_Append [1, 2] (new_buffer 4) \<noteq> Undef"
proof -
  have h: "buf_inv (new_buffer 4)" by (simp add: buf_inv_def new_buffer_def)
  show ?thesis using h Append_outcome [OF h, of "[1, 2]"] by (auto simp: new_buffer_def)
qed

text \<open>Removing then appending reaches the undefined overlapping copy in a buffer that still has
  room: after three bytes went into a four byte buffer and one was consumed, appending two more is
  an overlapping \<open>memcpy\<close>.\<close>

theorem Append_overlap_reachable:
  "bind_outcome (buf_Append [1, 2, 3] (new_buffer 4)) (\<lambda>b. buf_Append [4, 5] (buf_Remove 1 b)) = Undef \<and>
   bind_outcome (buf_Append [1, 2, 3] (new_buffer 4)) (\<lambda>b. Ret (buf_Available (buf_Remove 1 b))) = Ret 2"
  by (simp add: buf_Append_def buf_Available_def buf_Remove_def new_buffer_def buf_RemoveReadBuffer_def)

text \<open>C4: \<open>Copy\<close> makes any sane buffer hold exactly the source's content, growing it when the
  source is larger than its capacity, and is never undefined.\<close>

theorem Copy_content:
  assumes "buf_inv b" and "buf_inv src"
  shows "\<exists>b'. buf_Copy src b = Ret b' \<and> buf_inv b' \<and> buf_content b' = buf_content src \<and>
    buf_Capacity b' = max (buf_Capacity b) (buf_Size src)"
proof -
  let ?b = "b\<lparr>readCursor := 0, writeCursor := 0\<rparr>"
  have b0: "buf_inv ?b" "buf_Size ?b = 0" "buf_Available ?b = bufSize b" "buf_content ?b = []"
    using assms(1) by (simp_all add: buf_inv_def buf_Size_def buf_Available_def buf_content_def slice_of_def)
  obtain b1 where b1: "(if buf_Available ?b < buf_Size src then buf_Resize (buf_Size src) ?b else Ret ?b) = Ret b1"
    "buf_inv b1" "writeCursor b1 = 0" "readCursor b1 = 0" "bufSize b1 = max (bufSize b) (buf_Size src)"
  proof (cases "buf_Available ?b < buf_Size src")
    case True
    then show ?thesis using that b0 by (auto simp: buf_Resize_def buf_Size_def buf_inv_def slice_of_def)
  next
    case False
    then show ?thesis using that [of ?b] b0 by simp
  qed
  have "writeCursor b1 + length (buf_content src) \<le> bufSize b1" using b1 assms(2) by simp
  from buf_store_at_write [OF b1(2) this] b1 assms(2) show ?thesis
    by (simp add: buf_Copy_def Let_def buf_Capacity_def buf_content_def [of b1] slice_of_def)
qed

lemma Copy_content_witness:
  "buf_inv (new_buffer 1) \<and> buf_inv (new_buffer 2\<lparr>writeCursor := 2\<rparr>) \<and>
   (\<exists>b'. buf_Copy (new_buffer 2\<lparr>writeCursor := 2\<rparr>) (new_buffer 1) = Ret b' \<and> buf_content b' = [0, 0])"
proof -
  have h: "buf_inv (new_buffer 1)" "buf_inv (new_buffer 2\<lparr>writeCursor := 2\<rparr>)"
    by (simp_all add: buf_inv_def new_buffer_def)
  have "buf_content (new_buffer 2\<lparr>writeCursor := 2\<rparr>) = [0, 0]"
    by (simp add: buf_content_def new_buffer_def slice_of_def numeral_2_eq_2)
  then show ?thesis using h Copy_content [OF h] by auto
qed

end
