(* ===== verification/Tcp_Packet.thy ===== *)
theory Tcp_Packet
  imports Byte_Buffer
begin

text \<open>
  \<^verbatim>\<open>Gamnet/Network/Tcp/Packet.h\<close> and \<^verbatim>\<open>Packet.cpp\<close>: a packet is a 65535 byte buffer whose first ten
  bytes are the header: a 16-bit total length, a 32-bit sequence number, a 32-bit message id,
  little-endian. The getters read at fixed offsets from the start of the array, not from the read
  cursor. Both \<open>Write\<close> functions compute the total length in 16 bits and compare that with the
  capacity before they copy the untruncated number of bytes.
\<close>

section \<open>Definitions\<close>

definition OFFSET_LENGTH :: nat where "OFFSET_LENGTH = 0"
definition OFFSET_MSGSEQ :: nat where "OFFSET_MSGSEQ = 2"
definition OFFSET_MSGID :: nat where "OFFSET_MSGID = 6"
definition HEADER_SIZE :: nat where "HEADER_SIZE = 10"

lemmas offsets = OFFSET_LENGTH_def OFFSET_MSGSEQ_def OFFSET_MSGID_def HEADER_SIZE_def

type_synonym packet = buffer

record pkt_header =
  hdr_length :: u16
  hdr_msg_id :: u32
  hdr_msg_seq :: u32

definition new_packet :: packet where
  "new_packet = new_buffer Buffer_MAX_SIZE"

text \<open>\<open>Packet::Init\<close>, applied by the packet pool to every packet it hands out: the cursors are
  reset, the bytes of the previous use stay.\<close>

definition pkt_Init :: "packet \<Rightarrow> packet" where
  "pkt_Init p = buf_Clear p"

definition pkt_GetLength :: "packet \<Rightarrow> u16" where
  "pkt_GetLength p = get_word (slice_of OFFSET_LENGTH 2 (bdata p))"

definition pkt_GetSEQ :: "packet \<Rightarrow> u32" where
  "pkt_GetSEQ p = get_word (slice_of OFFSET_MSGSEQ 4 (bdata p))"

definition pkt_GetID :: "packet \<Rightarrow> u32" where
  "pkt_GetID p = get_word (slice_of OFFSET_MSGID 4 (bdata p))"

text \<open>The three header stores and the body copy, at their offsets. Writing past the array is
  undefined.\<close>

definition pkt_store :: "u16 \<Rightarrow> u32 \<Rightarrow> u32 \<Rightarrow> bytes \<Rightarrow> packet \<Rightarrow> packet outcome" where
  "pkt_store total_length msg_seq msg_id body p =
     (if bufSize p < HEADER_SIZE + length body then Undef
      else Ret (p\<lparr>bdata := overwrite HEADER_SIZE body
                     (overwrite OFFSET_MSGID (put_word msg_id)
                       (overwrite OFFSET_MSGSEQ (put_word msg_seq)
                         (overwrite OFFSET_LENGTH (put_word total_length) (bdata p))))\<rparr>))"

text \<open>\<open>Write(const Header&, const char*, size_t)\<close>: the header's own length field is not used.\<close>

definition pkt_Write :: "pkt_header \<Rightarrow> bytes \<Rightarrow> packet \<Rightarrow> (bool \<times> packet) outcome" where
  "pkt_Write header buf p =
     (let p = buf_Clear p;
          total_length = (of_nat (length buf + HEADER_SIZE) :: u16)
      in if buf_Capacity p \<le> unat total_length then Ret (False, p)
         else bind_outcome
           (if buf_Available p mod 2 ^ 16 < unat total_length then buf_Resize (unat total_length) p else Ret p)
           (\<lambda>p. bind_outcome (pkt_store total_length (hdr_msg_seq header) (hdr_msg_id header) buf p)
             (\<lambda>p. Ret (True, p\<lparr>writeCursor := writeCursor p + unat total_length\<rparr>))))"

text \<open>\<open>Write<MSG>(msg_seq, msg)\<close>: \<open>msg_size\<close> is \<open>msg.Size()\<close>, \<open>stored\<close> the bytes \<open>msg.Store\<close> writes
  and \<open>ok\<close> its result.\<close>

definition pkt_Write_msg :: "u32 \<Rightarrow> nat \<Rightarrow> u32 \<Rightarrow> bytes \<Rightarrow> bool \<Rightarrow> packet \<Rightarrow> (bool \<times> packet) outcome" where
  "pkt_Write_msg msg_seq msg_size msg_id stored ok p =
     (let p = buf_Clear p;
          total_length = (of_nat (msg_size + HEADER_SIZE) :: u16)
      in if buf_Capacity p \<le> unat total_length then Ret (False, p)
         else bind_outcome
           (if buf_Available p mod 2 ^ 16 < unat total_length then buf_Resize (unat total_length) p else Ret p)
           (\<lambda>p. bind_outcome (pkt_store total_length msg_seq msg_id stored p)
             (\<lambda>p. if ok then Ret (True, p\<lparr>writeCursor := writeCursor p + unat total_length\<rparr>)
                  else Ret (False, p))))"

text \<open>\<open>Read\<close>: the body is the \<open>GetLength() - HEADER_SIZE\<close> bytes after the header. A length field
  below the header size makes the subtraction wrap to almost \<open>2^64\<close>, and the load then has no bound
  inside the array: \<open>Undef\<close>. \<open>load\<close> is the message's \<open>Load\<close>, which returns what it did not read.\<close>

definition pkt_Read :: "(bytes \<Rightarrow> ('m \<times> bytes) option) \<Rightarrow> packet \<Rightarrow> 'm option outcome" where
  "pkt_Read load p =
     (if unat (pkt_GetLength p) < HEADER_SIZE \<or> bufSize p < readCursor p + unat (pkt_GetLength p) then Undef
      else Ret (map_option fst
        (load (slice_of (readCursor p + HEADER_SIZE) (unat (pkt_GetLength p) - HEADER_SIZE) (bdata p)))))"

section \<open>The header of a stored packet\<close>

definition frame_header :: "u16 \<Rightarrow> u32 \<Rightarrow> u32 \<Rightarrow> bytes" where
  "frame_header len msg_seq msg_id = put_word len @ put_word msg_seq @ put_word msg_id"

lemma length_frame_header [simp]: "length (frame_header t s i) = 10"
  by (simp add: frame_header_def)

text \<open>The header fields of any array that starts with a frame header.\<close>

lemma header_of_frame:
  assumes "bdata p = frame_header t s i @ rest"
  shows "pkt_GetLength p = t" and "pkt_GetSEQ p = s" and "pkt_GetID p = i"
  using assms
  by (simp_all add: pkt_GetLength_def pkt_GetSEQ_def pkt_GetID_def offsets frame_header_def slice_of_def)

lemma pkt_store_Ret:
  assumes "length (bdata p) = bufSize p" and "HEADER_SIZE + length body \<le> bufSize p"
  shows "pkt_store t s i body p =
    Ret (p\<lparr>bdata := frame_header t s i @ body @ drop (HEADER_SIZE + length body) (bdata p)\<rparr>)"
  using assms
  by (simp add: pkt_store_def frame_header_def overwrite_def offsets add.commute)

lemma pkt_store_Undef: "bufSize p < HEADER_SIZE + length body \<Longrightarrow> pkt_store t s i body p = Undef"
  by (simp add: pkt_store_def)

text \<open>A packet of the usual capacity.\<close>

definition pkt_ok :: "packet \<Rightarrow> bool" where
  "pkt_ok p \<longleftrightarrow> buf_inv p \<and> bufSize p = Buffer_MAX_SIZE"

lemma pkt_ok_new [simp]: "pkt_ok new_packet"
  by (simp add: pkt_ok_def new_packet_def new_buffer_def buf_inv_def)

lemma pkt_ok_Init [simp]: "pkt_ok p \<Longrightarrow> pkt_ok (pkt_Init p) \<and> buf_aligned (pkt_Init p) \<and> buf_content (pkt_Init p) = []"
  by (auto simp: pkt_ok_def pkt_Init_def buf_Clear_def buf_inv_def buf_aligned_def buf_content_def slice_of_def)

text \<open>The packet that a successful write leaves: aligned, its content the header and the body.\<close>

definition written :: "u16 \<Rightarrow> u32 \<Rightarrow> u32 \<Rightarrow> bytes \<Rightarrow> packet \<Rightarrow> bool" where
  "written t s i body p \<longleftrightarrow> pkt_ok p \<and> buf_aligned p \<and> buf_content p = frame_header t s i @ body \<and>
     pkt_GetLength p = t \<and> pkt_GetSEQ p = s \<and> pkt_GetID p = i"

lemma pkt_Write_msg_eq_Write:
  "length stored = msg_size \<Longrightarrow>
   pkt_Write_msg s msg_size i stored True p = pkt_Write \<lparr>hdr_length = l, hdr_msg_id = i, hdr_msg_seq = s\<rparr> stored p"
  by (simp add: pkt_Write_msg_def pkt_Write_def Let_def)

lemma written_store:
  assumes "pkt_ok p" and "length body + HEADER_SIZE \<le> Buffer_MAX_SIZE"
  shows "written (of_nat (length body + HEADER_SIZE)) s i body
    ((buf_Clear p)\<lparr>bdata := frame_header (of_nat (length body + HEADER_SIZE)) s i @ body @ drop (HEADER_SIZE + length body) (bdata p),
      writeCursor := HEADER_SIZE + length body\<rparr>)" (is "written ?t s i body ?p")
proof -
  have al: "buf_aligned ?p"
    using assms by (simp add: pkt_ok_def buf_aligned_def buf_inv_def buf_Clear_def HEADER_SIZE_def)
  have "buf_content ?p = frame_header ?t s i @ body"
    unfolding buf_content_aligned [OF al] by (simp add: HEADER_SIZE_def)
  moreover have "bdata ?p = frame_header ?t s i @ body @ drop (HEADER_SIZE + length body) (bdata p)" by simp
  note header_of_frame [OF this]
  ultimately show ?thesis
    using assms al by (simp add: written_def pkt_ok_def buf_aligned_def buf_Clear_def)
qed

lemma pkt_Write_fits:
  assumes "pkt_ok p" and "length buf + HEADER_SIZE < Buffer_MAX_SIZE"
  obtains p' where "pkt_Write h buf p = Ret (True, p')"
    "written (of_nat (length buf + HEADER_SIZE)) (hdr_msg_seq h) (hdr_msg_id h) buf p'"
proof -
  let ?t = "of_nat (length buf + HEADER_SIZE) :: u16"
  have t: "unat ?t = length buf + HEADER_SIZE"
    using assms(2) unfolding unat_of_nat_u16 by (simp add: Buffer_MAX_SIZE_def)
  have p: "length (bdata (buf_Clear p)) = bufSize (buf_Clear p)" "bufSize (buf_Clear p) = Buffer_MAX_SIZE"
    "HEADER_SIZE + length buf \<le> bufSize (buf_Clear p)" "writeCursor (buf_Clear p) = 0"
    "bdata (buf_Clear p) = bdata p"
    using assms by (simp_all add: pkt_ok_def buf_inv_def buf_Clear_def)
  have cap: "buf_Capacity (buf_Clear p) = Buffer_MAX_SIZE" "buf_Available (buf_Clear p) = Buffer_MAX_SIZE"
    using p by (simp_all add: buf_Capacity_def buf_Available_def)
  have c: "\<not> Buffer_MAX_SIZE \<le> length buf + HEADER_SIZE"
    "\<not> Buffer_MAX_SIZE mod 2 ^ 16 < length buf + HEADER_SIZE"
    using assms(2) by (simp_all add: Buffer_MAX_SIZE_def)
  have w: "writeCursor (buf_Clear p\<lparr>bdata := d\<rparr>) + (length buf + HEADER_SIZE) = HEADER_SIZE + length buf" for d
    using p(4) by simp
  have "pkt_Write h buf p = Ret (True, (buf_Clear p)\<lparr>bdata := frame_header ?t (hdr_msg_seq h) (hdr_msg_id h) @ buf @
      drop (HEADER_SIZE + length buf) (bdata p), writeCursor := HEADER_SIZE + length buf\<rparr>)"
    unfolding pkt_Write_def Let_def cap t if_not_P [OF c(1)] if_not_P [OF c(2)] bind_outcome.simps
      pkt_store_Ret [OF p(1,3)] p(5) w ..
  then show ?thesis using that written_store [OF assms(1), of buf] assms(2) by simp
qed

lemma pkt_Write_too_large:
  assumes "pkt_ok p" and "Buffer_MAX_SIZE \<le> length buf + HEADER_SIZE"
  shows "pkt_Write h buf p =
    (if (length buf + HEADER_SIZE) mod 2 ^ 16 = Buffer_MAX_SIZE then Ret (False, buf_Clear p) else Undef)"
proof -
  let ?t = "of_nat (length buf + HEADER_SIZE) :: u16"
  have t: "unat ?t = (length buf + HEADER_SIZE) mod 2 ^ 16" by (rule unat_of_nat_u16)
  have lt: "(length buf + HEADER_SIZE) mod 2 ^ 16 \<le> Buffer_MAX_SIZE"
    using mod_less_divisor [of "2 ^ 16" "length buf + HEADER_SIZE"] by (simp add: Buffer_MAX_SIZE_def)
  have cap: "buf_Capacity (buf_Clear p) = Buffer_MAX_SIZE" "buf_Available (buf_Clear p) = Buffer_MAX_SIZE"
    using assms(1) by (simp_all add: pkt_ok_def buf_Clear_def buf_Capacity_def buf_Available_def)
  show ?thesis
  proof (cases "(length buf + HEADER_SIZE) mod 2 ^ 16 = Buffer_MAX_SIZE")
    case True
    then show ?thesis unfolding pkt_Write_def Let_def cap t by simp
  next
    case False
    then have "Buffer_MAX_SIZE \<noteq> length buf + HEADER_SIZE" by (auto simp: Buffer_MAX_SIZE_def)
    then have "pkt_store s q i buf (buf_Clear p) = Undef" for s q i
      using assms by (intro pkt_store_Undef) (simp add: pkt_ok_def buf_Clear_def)
    then show ?thesis unfolding pkt_Write_def Let_def cap t
      using False lt by (simp add: Buffer_MAX_SIZE_def)
  qed
qed

lemma pkt_Read_written:
  assumes "written t s i body p" and "unat t = length body + HEADER_SIZE"
  shows "pkt_Read load p = Ret (map_option fst (load body))"
proof -
  have al: "buf_aligned p" and c: "buf_content p = frame_header t s i @ body"
    and t: "pkt_GetLength p = t"
    using assms(1) by (auto simp: written_def)
  have tk: "take (writeCursor p) (bdata p) = frame_header t s i @ body"
    using c buf_content_aligned [OF al] by simp
  have le: "writeCursor p \<le> length (bdata p)" "bufSize p = length (bdata p)" "readCursor p = 0"
    using al by (auto simp: buf_aligned_def buf_inv_def)
  have "length (take (writeCursor p) (bdata p)) = 10 + length body"
    unfolding tk by simp
  then have w: "writeCursor p = 10 + length body" using le by simp
  have "drop 10 (take (10 + length body) (bdata p)) = body"
    using tk unfolding w by (simp only: drop_append) simp
  then have sl: "slice_of HEADER_SIZE (length body) (bdata p) = body"
    by (simp add: slice_of_def HEADER_SIZE_def drop_take)
  show ?thesis
    using le w t assms(2) sl by (simp add: pkt_Read_def HEADER_SIZE_def)
qed

section \<open>Messages in packets\<close>

text \<open>For any message type with a lawful codec: writing a message that fits into a packet and
  reading the packet gives the message back.\<close>

context codec
begin

lemma packet_roundtrip:
  assumes "valid m" and "pkt_ok p" and "size_of m + HEADER_SIZE < Buffer_MAX_SIZE"
  shows "\<exists>p'. pkt_Write_msg s (size_of m) i (store m) True p = Ret (True, p') \<and>
    written (of_nat (size_of m + HEADER_SIZE)) s i (store m) p' \<and> pkt_GetID p' = i \<and>
    pkt_Read load p' = Ret (Some m)"
proof -
  let ?h = "\<lparr>hdr_length = 0, hdr_msg_id = i, hdr_msg_seq = s\<rparr>"
  have len: "length (store m) + HEADER_SIZE < Buffer_MAX_SIZE" using assms(3) length_store by simp
  from pkt_Write_fits [OF assms(2) len, of ?h] obtain p' where p':
    "pkt_Write ?h (store m) p = Ret (True, p')"
    "written (of_nat (size_of m + HEADER_SIZE)) s i (store m) p'"
    by (auto simp: length_store)
  have "unat (of_nat (size_of m + HEADER_SIZE) :: u16) = length (store m) + HEADER_SIZE"
    unfolding unat_of_nat_u16 using len by (simp add: length_store Buffer_MAX_SIZE_def)
  then have "pkt_Read load p' = Ret (Some m)"
    using pkt_Read_written [OF p'(2), of load] load_store_exact [OF assms(1)] by (simp only: option.map fst_conv)
  moreover have "pkt_Write_msg s (size_of m) i (store m) True p = Ret (True, p')"
    using p'(1) by (simp add: pkt_Write_msg_eq_Write [where l = 0] length_store)
  moreover have "pkt_GetID p' = i" using p'(2) unfolding written_def by (elim conjE)
  ultimately show ?thesis using p'(2) by blast
qed

end

section \<open>Properties\<close>

text \<open>Writing a body of at most 65524 bytes into any pooled packet succeeds, and leaves an
  aligned packet whose content is the ten header bytes followed by the body; the header getters
  return the total length, the sequence number and the message id that were written.\<close>

theorem Write_frames_body:
  assumes "pkt_ok p" and "length buf + HEADER_SIZE < Buffer_MAX_SIZE"
  shows "\<exists>p'. pkt_Write h buf p = Ret (True, p') \<and> buf_aligned p' \<and>
    buf_content p' = frame_header (of_nat (length buf + HEADER_SIZE)) (hdr_msg_seq h) (hdr_msg_id h) @ buf \<and>
    unat (pkt_GetLength p') = length buf + HEADER_SIZE \<and>
    pkt_GetSEQ p' = hdr_msg_seq h \<and> pkt_GetID p' = hdr_msg_id h"
proof -
  obtain p' where p': "pkt_Write h buf p = Ret (True, p')"
    "written (of_nat (length buf + HEADER_SIZE)) (hdr_msg_seq h) (hdr_msg_id h) buf p'"
    using pkt_Write_fits [OF assms] .
  have "unat (of_nat (length buf + HEADER_SIZE) :: u16) = length buf + HEADER_SIZE"
    unfolding unat_of_nat_u16 using assms(2) by (simp add: Buffer_MAX_SIZE_def)
  with p' show ?thesis unfolding written_def by auto
qed

lemma Write_frames_body_witness:
  "pkt_ok new_packet \<and> length [1, 2, 3 :: u8] + HEADER_SIZE < Buffer_MAX_SIZE \<and>
   (\<exists>p'. pkt_Write \<lparr>hdr_length = 0, hdr_msg_id = 7, hdr_msg_seq = 5\<rparr> [1, 2, 3] new_packet = Ret (True, p') \<and>
     buf_content p' = [13, 0, 5, 0, 0, 0, 7, 0, 0, 0, 1, 2, 3])"
proof -
  have h: "length [1, 2, 3 :: u8] + HEADER_SIZE < Buffer_MAX_SIZE"
    by (simp add: HEADER_SIZE_def Buffer_MAX_SIZE_def)
  have "frame_header (of_nat (length [1, 2, 3 :: u8] + HEADER_SIZE)) 5 7 = [13, 0, 5, 0, 0, 0, 7, 0, 0, 0]"
    by (simp add: frame_header_def put_word_def HEADER_SIZE_def)
  then show ?thesis
    using h Write_frames_body [OF pkt_ok_new h, of "\<lparr>hdr_length = 0, hdr_msg_id = 7, hdr_msg_seq = 5\<rparr>"]
    by auto
qed

text \<open>A larger body is not always refused. With 65525 bytes or more the write returns false only
  when the 16-bit total is exactly 65535; in every other case the total has wrapped below the
  capacity, the check passes, and the copy of the body runs past the end of the packet.\<close>

theorem Write_oversized_body:
  assumes "pkt_ok p" and "Buffer_MAX_SIZE \<le> length buf + HEADER_SIZE"
  shows "pkt_Write h buf p =
    (if (length buf + HEADER_SIZE) mod 2 ^ 16 = Buffer_MAX_SIZE then Ret (False, buf_Clear p) else Undef)"
  using assms by (rule pkt_Write_too_large)

lemma Write_oversized_body_witness:
  "pkt_ok new_packet \<and> pkt_Write \<lparr>hdr_length = 0, hdr_msg_id = 7, hdr_msg_seq = 5\<rparr> (replicate 65526 0) new_packet = Undef"
proof -
  have "Buffer_MAX_SIZE \<le> length (replicate 65526 (0 :: u8)) + HEADER_SIZE"
    by (simp add: HEADER_SIZE_def Buffer_MAX_SIZE_def)
  from Write_oversized_body [OF pkt_ok_new this] show ?thesis
    by (simp add: HEADER_SIZE_def Buffer_MAX_SIZE_def)
qed

end
