(* ===== verification/Router_Messages.thy ===== *)
theory Router_Messages
  imports Tcp_Packet "HOL-Library.List_Lexorder" "HOL-Library.Product_Lexorder"
begin

text \<open>
  \<^verbatim>\<open>Gamnet/Network/Router/MsgRouter.h\<close>, the C++ the interface compiler generated from
  \<^verbatim>\<open>MsgRouter.idl\<close>: the router address, its order, and the five messages, each with \<open>Size\<close>,
  \<open>Store\<close> and \<open>Load\<close>. A \<open>std::string\<close> is its bytes; an enum and an \<open>int32_t\<close> are the 32 bits
  they are stored in. \<open>Store\<close> gives the bytes written through the cursor; \<open>Load\<close> takes the bytes
  left (their number is the code's \<open>nSize\<close>) and returns the value and what it did not consume, or
  \<open>None\<close> where the code returns false. Each message is an interpretation of the \<open>codec\<close> interface.
\<close>

section \<open>Primitive fields\<close>

definition store_word :: "'a::len word \<Rightarrow> bytes" where
  "store_word w = put_word w"

definition load_word :: "bytes \<Rightarrow> ('a::len word \<times> bytes) option" where
  "load_word bs = (let n = LENGTH('a) div 8
     in if n > length bs then None else Some (get_word (take n bs), drop n bs))"

text \<open>A string: the low four bytes of its \<open>size_t\<close> length, then its bytes.\<close>

definition store_string :: "bytes \<Rightarrow> bytes" where
  "store_string s = le_bytes 4 (length s) @ s"

definition load_string :: "bytes \<Rightarrow> (bytes \<times> bytes) option" where
  "load_string bs =
     (case (load_word bs :: (u32 \<times> bytes) option) of
        None \<Rightarrow> None
      | Some (len, rest) \<Rightarrow>
          if length rest < unat len then None else Some (take (unat len) rest, drop (unat len) rest))"

lemma load_store_word:
  assumes "LENGTH('a::len) = 8 * n"
  shows "load_word (store_word (w :: 'a word) @ rest) = Some (w, rest)"
proof -
  have "length (put_word w) = LENGTH('a) div 8" by (simp add: put_word_def)
  then show ?thesis using get_put_word [OF assms, of w] by (simp add: load_word_def store_word_def)
qed

lemma load_word_extend:
  "load_word bs = Some (w, r) \<Longrightarrow> load_word (bs @ ys) = Some (w, r @ ys)"
  by (auto simp: load_word_def Let_def split: if_splits)

interpretation codec_u32: stream_codec "\<lambda>_ :: u32. True" "\<lambda>_. 4" store_word load_word
  by unfold_locales
    (simp_all add: store_word_def load_store_word [of 4, unfolded store_word_def] load_word_extend)

interpretation codec_u64: stream_codec "\<lambda>_ :: u64. True" "\<lambda>_. 8" store_word load_word
  by unfold_locales
    (simp_all add: store_word_def load_store_word [of 8, unfolded store_word_def] load_word_extend)

interpretation codec_string: stream_codec "\<lambda>s. length s < 2 ^ 32" "\<lambda>s. 4 + length s" store_string load_string
proof unfold_locales
  fix s rest :: bytes
  assume s: "length s < 2 ^ 32"
  have "le_bytes 4 (length s) = store_word (of_nat (length s) :: u32)"
    using s by (simp add: store_word_def put_word_def unat_of_nat_u32 del: le_bytes_numeral)
  then have "load_word (le_bytes 4 (length s) @ s @ rest) = Some (of_nat (length s) :: u32, s @ rest)"
    using codec_u32.load_store [of "of_nat (length s)"] by simp
  then show "load_string (store_string s @ rest) = Some (s, rest)"
    using s by (simp add: load_string_def store_string_def unat_of_nat_u32 del: le_bytes_numeral)
next
  fix bs m r ys :: bytes
  assume "load_string bs = Some (m, r)"
  then obtain len rest where l: "load_word bs = Some (len :: u32, rest)" "\<not> length rest < unat len"
    "m = take (unat len) rest" "r = drop (unat len) rest"
    by (auto simp: load_string_def split: option.splits if_splits)
  from load_word_extend [OF l(1), of ys] l(2-)
  show "load_string (bs @ ys) = Some (m, r @ ys)" by (simp add: load_string_def)
qed (simp add: store_string_def)

section \<open>Cast type and address\<close>

text \<open>\<open>ROUTER_CAST_TYPE\<close>: its value is the 32 bits of the enum; \<open>(int)\<close> reads them signed.\<close>

type_synonym cast_type = u32

definition UNI_CAST :: cast_type where "UNI_CAST = 0"
definition MULTI_CAST :: cast_type where "MULTI_CAST = 1"
definition ANY_CAST :: cast_type where "ANY_CAST = 2"
definition CAST_MAX :: int where "CAST_MAX = 3"

definition ROUTER_CAST_TYPE_Store :: "cast_type \<Rightarrow> bytes" where
  "ROUTER_CAST_TYPE_Store c = store_word c"

definition ROUTER_CAST_TYPE_Load :: "bytes \<Rightarrow> (cast_type \<times> bytes) option" where
  "ROUTER_CAST_TYPE_Load bs = load_word bs"

definition ROUTER_CAST_TYPE_Size :: "cast_type \<Rightarrow> nat" where
  "ROUTER_CAST_TYPE_Size c = 4"

interpretation codec_cast_type: stream_codec "\<lambda>_. True" ROUTER_CAST_TYPE_Size ROUTER_CAST_TYPE_Store ROUTER_CAST_TYPE_Load
  by unfold_locales
    (simp_all add: ROUTER_CAST_TYPE_Size_def ROUTER_CAST_TYPE_Store_def ROUTER_CAST_TYPE_Load_def
      codec_u32.length_store codec_u32.load_store load_word_extend)

record address =
  service_name :: bytes
  cast_type :: cast_type
  addr_id :: u32
  addr_msg_seq :: u64

text \<open>The default constructor.\<close>

definition new_address :: address where
  "new_address = \<lparr>service_name = [], cast_type = UNI_CAST, addr_id = 0, addr_msg_seq = 0\<rparr>"

definition Address_Size :: "address \<Rightarrow> nat" where
  "Address_Size a = 4 + length (service_name a) + ROUTER_CAST_TYPE_Size (cast_type a) + 4 + 8"

definition Address_Store :: "address \<Rightarrow> bytes" where
  "Address_Store a = store_string (service_name a) @ ROUTER_CAST_TYPE_Store (cast_type a) @
     store_word (addr_id a) @ store_word (addr_msg_seq a)"

definition Address_Load :: "bytes \<Rightarrow> (address \<times> bytes) option" where
  "Address_Load bs =
     (case load_string bs of None \<Rightarrow> None | Some (name, bs) \<Rightarrow>
      (case ROUTER_CAST_TYPE_Load bs of None \<Rightarrow> None | Some (cast, bs) \<Rightarrow>
       (case load_word bs of None \<Rightarrow> None | Some (i, bs) \<Rightarrow>
        (case load_word bs of None \<Rightarrow> None | Some (sq, bs) \<Rightarrow>
          Some (\<lparr>service_name = name, cast_type = cast, addr_id = i, addr_msg_seq = sq\<rparr>, bs)))))"

definition Address_valid :: "address \<Rightarrow> bool" where
  "Address_valid a \<longleftrightarrow> length (service_name a) < 2 ^ 32"

lemmas field_codecs =
  codec_u32.load_store codec_u64.load_store codec_string.load_store codec_cast_type.load_store
  codec_u32.length_store codec_u64.length_store codec_string.length_store codec_cast_type.length_store

lemmas field_extends =
  load_word_extend codec_string.load_extend codec_cast_type.load_extend

interpretation codec_address: stream_codec Address_valid Address_Size Address_Store Address_Load
proof unfold_locales
  fix bs m r ys
  assume "Address_Load bs = Some (m, r)"
  then show "Address_Load (bs @ ys) = Some (m, r @ ys)"
    by (clarsimp simp: Address_Load_def case_load_eq_Some) (simp add: field_extends case_load_eq_Some)
qed (simp_all add: Address_Size_def Address_Store_def Address_Load_def Address_valid_def field_codecs)

section \<open>The five messages\<close>

definition SetAddress_Req_MSG_ID :: u32 where "SetAddress_Req_MSG_ID = 1"
definition SetAddress_Ans_MSG_ID :: u32 where "SetAddress_Ans_MSG_ID = 2"
definition SetAddress_Ntf_MSG_ID :: u32 where "SetAddress_Ntf_MSG_ID = 3"
definition SendMsg_Ntf_MSG_ID :: u32 where "SendMsg_Ntf_MSG_ID = 4"
definition HeartBeat_Ntf_MSG_ID :: u32 where "HeartBeat_Ntf_MSG_ID = 5"

record setaddress_req =
  local_address :: address

definition SetAddress_Req_Size :: "setaddress_req \<Rightarrow> nat" where
  "SetAddress_Req_Size m = Address_Size (local_address m)"

definition SetAddress_Req_Store :: "setaddress_req \<Rightarrow> bytes" where
  "SetAddress_Req_Store m = Address_Store (local_address m)"

definition SetAddress_Req_Load :: "bytes \<Rightarrow> (setaddress_req \<times> bytes) option" where
  "SetAddress_Req_Load bs =
     (case Address_Load bs of None \<Rightarrow> None | Some (a, bs) \<Rightarrow> Some (\<lparr>local_address = a\<rparr>, bs))"

record setaddress_ans =
  ans_error_code :: u32
  ans_remote_address :: address

definition SetAddress_Ans_Size :: "setaddress_ans \<Rightarrow> nat" where
  "SetAddress_Ans_Size m = 4 + Address_Size (ans_remote_address m)"

definition SetAddress_Ans_Store :: "setaddress_ans \<Rightarrow> bytes" where
  "SetAddress_Ans_Store m = store_word (ans_error_code m) @ Address_Store (ans_remote_address m)"

definition SetAddress_Ans_Load :: "bytes \<Rightarrow> (setaddress_ans \<times> bytes) option" where
  "SetAddress_Ans_Load bs =
     (case load_word bs of None \<Rightarrow> None | Some (e, bs) \<Rightarrow>
      (case Address_Load bs of None \<Rightarrow> None | Some (a, bs) \<Rightarrow>
        Some (\<lparr>ans_error_code = e, ans_remote_address = a\<rparr>, bs)))"

text \<open>\<open>SetAddress_Ntf\<close> and \<open>HeartBeat_Ntf\<close> have no fields.\<close>

definition SetAddress_Ntf_Size :: "unit \<Rightarrow> nat" where "SetAddress_Ntf_Size m = 0"
definition SetAddress_Ntf_Store :: "unit \<Rightarrow> bytes" where "SetAddress_Ntf_Store m = []"
definition SetAddress_Ntf_Load :: "bytes \<Rightarrow> (unit \<times> bytes) option" where
  "SetAddress_Ntf_Load bs = Some ((), bs)"

definition HeartBeat_Ntf_Size :: "unit \<Rightarrow> nat" where "HeartBeat_Ntf_Size m = 0"
definition HeartBeat_Ntf_Store :: "unit \<Rightarrow> bytes" where "HeartBeat_Ntf_Store m = []"
definition HeartBeat_Ntf_Load :: "bytes \<Rightarrow> (unit \<times> bytes) option" where
  "HeartBeat_Ntf_Load bs = Some ((), bs)"

record sendmsg_ntf =
  ntf_msg_seq :: u32
  ntf_buffer :: bytes

definition SendMsg_Ntf_Size :: "sendmsg_ntf \<Rightarrow> nat" where
  "SendMsg_Ntf_Size m = 4 + (4 + length (ntf_buffer m))"

definition SendMsg_Ntf_Store :: "sendmsg_ntf \<Rightarrow> bytes" where
  "SendMsg_Ntf_Store m = store_word (ntf_msg_seq m) @ store_string (ntf_buffer m)"

definition SendMsg_Ntf_Load :: "bytes \<Rightarrow> (sendmsg_ntf \<times> bytes) option" where
  "SendMsg_Ntf_Load bs =
     (case load_word bs of None \<Rightarrow> None | Some (sq, bs) \<Rightarrow>
      (case load_string bs of None \<Rightarrow> None | Some (buf, bs) \<Rightarrow>
        Some (\<lparr>ntf_msg_seq = sq, ntf_buffer = buf\<rparr>, bs)))"

text \<open>The \<open>std::vector<char>\<close> forms, the same text in every generated struct: \<open>Store\<close> grows the
  vector if it is too small and writes to its front; \<open>Load\<close> of an empty vector succeeds and leaves
  the object as it was.\<close>

definition vector_Store :: "nat \<Rightarrow> bytes \<Rightarrow> bytes \<Rightarrow> bytes" where
  "vector_Store sz stored buf =
     (if sz = 0 then buf
      else let buf = (if sz > length buf then buf @ replicate (sz - length buf) 0 else buf)
           in overwrite 0 stored buf)"

definition vector_Load :: "(bytes \<Rightarrow> ('m \<times> bytes) option) \<Rightarrow> 'm \<Rightarrow> bytes \<Rightarrow> 'm option" where
  "vector_Load load obj buf =
     (if length buf = 0 then Some obj else map_option fst (load buf))"

lemmas message_codecs = field_codecs codec_address.length_store codec_address.load_store

lemmas message_extends = field_extends codec_address.load_extend

interpretation codec_setaddress_req: stream_codec "\<lambda>m. Address_valid (local_address m)"
  SetAddress_Req_Size SetAddress_Req_Store SetAddress_Req_Load
proof unfold_locales
  fix bs m r ys
  assume "SetAddress_Req_Load bs = Some (m, r)"
  then show "SetAddress_Req_Load (bs @ ys) = Some (m, r @ ys)"
    by (clarsimp simp: SetAddress_Req_Load_def case_load_eq_Some) (simp add: message_extends case_load_eq_Some)
qed (simp_all add: SetAddress_Req_Size_def SetAddress_Req_Store_def SetAddress_Req_Load_def message_codecs)

interpretation codec_setaddress_ans: stream_codec "\<lambda>m. Address_valid (ans_remote_address m)"
  SetAddress_Ans_Size SetAddress_Ans_Store SetAddress_Ans_Load
proof unfold_locales
  fix bs m r ys
  assume "SetAddress_Ans_Load bs = Some (m, r)"
  then show "SetAddress_Ans_Load (bs @ ys) = Some (m, r @ ys)"
    by (clarsimp simp: SetAddress_Ans_Load_def case_load_eq_Some) (simp add: message_extends case_load_eq_Some)
qed (simp_all add: SetAddress_Ans_Size_def SetAddress_Ans_Store_def SetAddress_Ans_Load_def message_codecs)

interpretation codec_setaddress_ntf: stream_codec "\<lambda>_. True" SetAddress_Ntf_Size SetAddress_Ntf_Store SetAddress_Ntf_Load
  by unfold_locales (simp_all add: SetAddress_Ntf_Size_def SetAddress_Ntf_Store_def SetAddress_Ntf_Load_def)

interpretation codec_heartbeat_ntf: stream_codec "\<lambda>_. True" HeartBeat_Ntf_Size HeartBeat_Ntf_Store HeartBeat_Ntf_Load
  by unfold_locales (simp_all add: HeartBeat_Ntf_Size_def HeartBeat_Ntf_Store_def HeartBeat_Ntf_Load_def)

interpretation codec_sendmsg_ntf: stream_codec "\<lambda>m. length (ntf_buffer m) < 2 ^ 32"
  SendMsg_Ntf_Size SendMsg_Ntf_Store SendMsg_Ntf_Load
proof unfold_locales
  fix bs m r ys
  assume "SendMsg_Ntf_Load bs = Some (m, r)"
  then show "SendMsg_Ntf_Load (bs @ ys) = Some (m, r @ ys)"
    by (clarsimp simp: SendMsg_Ntf_Load_def case_load_eq_Some) (simp add: message_extends case_load_eq_Some)
qed (simp_all add: SendMsg_Ntf_Size_def SendMsg_Ntf_Store_def SendMsg_Ntf_Load_def message_codecs)

lemma vector_Store_front:
  "length stored = sz \<Longrightarrow> 0 < sz \<Longrightarrow> take sz (vector_Store sz stored buf) = stored"
  by (auto simp: vector_Store_def Let_def overwrite_def)

section \<open>The order on addresses\<close>

text \<open>\<open>std::string\<close>'s \<open>operator<\<close>.\<close>

fun string_less :: "bytes \<Rightarrow> bytes \<Rightarrow> bool" where
  "string_less xs [] = False"
| "string_less [] (y # ys) = True"
| "string_less (x # xs) (y # ys) = (if x < y then True else if y < x then False else string_less xs ys)"

definition address_less :: "address \<Rightarrow> address \<Rightarrow> bool" where
  "address_less lhs rhs =
     (if addr_id lhs < addr_id rhs then True
      else if addr_id lhs = addr_id rhs then
        (if string_less (service_name lhs) (service_name rhs) then True
         else if service_name lhs = service_name rhs then sint (cast_type lhs) < sint (cast_type rhs)
         else False)
      else False)"

definition address_eq :: "address \<Rightarrow> address \<Rightarrow> bool" where
  "address_eq lhs rhs =
     (if service_name lhs \<noteq> service_name rhs \<or> sint (cast_type lhs) \<noteq> sint (cast_type rhs) \<or>
         addr_id lhs \<noteq> addr_id rhs then False else True)"

definition address_neq :: "address \<Rightarrow> address \<Rightarrow> bool" where
  "address_neq lhs rhs =
     (if service_name lhs \<noteq> service_name rhs \<or> sint (cast_type lhs) \<noteq> sint (cast_type rhs) \<or>
         addr_id lhs \<noteq> addr_id rhs then True else False)"

text \<open>The key the comparisons look at: every field but the sequence number.\<close>

datatype route_key = RouteKey (rk_id: u32) (rk_name: bytes) (rk_cast: u32)

definition address_key :: "address \<Rightarrow> route_key" where
  "address_key a = RouteKey (addr_id a) (service_name a) (cast_type a)"

definition rk_tuple :: "route_key \<Rightarrow> u32 \<times> bytes \<times> int" where
  "rk_tuple k = (rk_id k, rk_name k, sint (rk_cast k))"

lemma sint_inject [simp]: "sint a = sint b \<longleftrightarrow> a = b" for a b :: "'a::len word"
  by (auto intro: signed_word_eqI)

lemma rk_tuple_inj: "rk_tuple k = rk_tuple l \<longleftrightarrow> k = l"
  by (cases k; cases l) (auto simp: rk_tuple_def)

instantiation route_key :: linorder
begin

definition less_eq_route_key :: "route_key \<Rightarrow> route_key \<Rightarrow> bool" where
  "less_eq_route_key k l \<longleftrightarrow> rk_tuple k \<le> rk_tuple l"

definition less_route_key :: "route_key \<Rightarrow> route_key \<Rightarrow> bool" where
  "less_route_key k l \<longleftrightarrow> rk_tuple k < rk_tuple l"

instance
  by standard (auto simp: less_eq_route_key_def less_route_key_def order.strict_iff_order
      rk_tuple_inj [symmetric])

end

lemma string_less_lexord: "string_less xs ys \<longleftrightarrow> xs < ys"
  by (induction xs ys rule: string_less.induct) (auto simp: neq_Nil_conv)

lemma address_eq_key: "address_eq a b \<longleftrightarrow> address_key a = address_key b"
  by (auto simp: address_eq_def address_key_def)

lemma address_less_key: "address_less a b \<longleftrightarrow> address_key a < address_key b"
  by (auto simp: address_less_def less_route_key_def rk_tuple_def address_key_def string_less_lexord
      less_prod_def less_eq_prod_def)

section \<open>Properties\<close>

text \<open>Storing a router address or any of the five router messages writes exactly the number of
  bytes that \<open>Size\<close> announces, and loading those bytes, whatever follows them, gives the original
  value and consumes exactly them (strings shorter than \<open>2^32\<close> bytes, the range of their length
  field).\<close>

theorem router_messages_roundtrip:
  assumes "Address_valid a" and "length (ntf_buffer n) < 2 ^ 32"
  shows "let req = \<lparr>local_address = a\<rparr>; ans = \<lparr>ans_error_code = e, ans_remote_address = a\<rparr> in
    Address_Load (Address_Store a @ rest) = Some (a, rest) \<and>
      length (Address_Store a) = Address_Size a \<and>
    SetAddress_Req_Load (SetAddress_Req_Store req @ rest) = Some (req, rest) \<and>
      length (SetAddress_Req_Store req) = SetAddress_Req_Size req \<and>
    SetAddress_Ans_Load (SetAddress_Ans_Store ans @ rest) = Some (ans, rest) \<and>
      length (SetAddress_Ans_Store ans) = SetAddress_Ans_Size ans \<and>
    SetAddress_Ntf_Load (SetAddress_Ntf_Store () @ rest) = Some ((), rest) \<and>
      length (SetAddress_Ntf_Store ()) = SetAddress_Ntf_Size () \<and>
    SendMsg_Ntf_Load (SendMsg_Ntf_Store n @ rest) = Some (n, rest) \<and>
      length (SendMsg_Ntf_Store n) = SendMsg_Ntf_Size n \<and>
    HeartBeat_Ntf_Load (HeartBeat_Ntf_Store () @ rest) = Some ((), rest) \<and>
      length (HeartBeat_Ntf_Store ()) = HeartBeat_Ntf_Size ()"
  using assms
  by (simp add: Let_def codec_address.load_store codec_address.length_store
      codec_setaddress_req.load_store codec_setaddress_req.length_store
      codec_setaddress_ans.load_store codec_setaddress_ans.length_store
      codec_setaddress_ntf.load_store codec_setaddress_ntf.length_store
      codec_sendmsg_ntf.load_store codec_sendmsg_ntf.length_store
      codec_heartbeat_ntf.load_store codec_heartbeat_ntf.length_store)

lemma router_messages_roundtrip_witness:
  "Address_valid \<lparr>service_name = [71, 65], cast_type = 2, addr_id = 9, addr_msg_seq = 1\<rparr> \<and>
   Address_Load (Address_Store \<lparr>service_name = [71, 65], cast_type = 2, addr_id = 9, addr_msg_seq = 1\<rparr> @ [5]) =
     Some (\<lparr>service_name = [71, 65], cast_type = 2, addr_id = 9, addr_msg_seq = 1\<rparr>, [5])"
proof -
  have v: "Address_valid \<lparr>service_name = [71, 65], cast_type = 2, addr_id = 9, addr_msg_seq = 1\<rparr>"
    by (simp add: Address_valid_def)
  have n: "length (ntf_buffer \<lparr>ntf_msg_seq = 0, ntf_buffer = [1]\<rparr>) < 2 ^ 32" by simp
  show ?thesis using v router_messages_roundtrip [OF v n, where rest = "[5]"] unfolding Let_def by blast
qed

text \<open>A truncated router message is refused: loading any proper prefix of a stored address,
  address request, address answer or forwarded message returns false.\<close>

theorem router_messages_truncated:
  assumes "Address_valid a" and "length (ntf_buffer n) < 2 ^ 32"
  shows "(\<forall>k < Address_Size a. Address_Load (take k (Address_Store a)) = None) \<and>
    (\<forall>k < SetAddress_Req_Size \<lparr>local_address = a\<rparr>.
       SetAddress_Req_Load (take k (SetAddress_Req_Store \<lparr>local_address = a\<rparr>)) = None) \<and>
    (\<forall>k < SetAddress_Ans_Size \<lparr>ans_error_code = e, ans_remote_address = a\<rparr>.
       SetAddress_Ans_Load (take k (SetAddress_Ans_Store \<lparr>ans_error_code = e, ans_remote_address = a\<rparr>)) = None) \<and>
    (\<forall>k < SendMsg_Ntf_Size n. SendMsg_Ntf_Load (take k (SendMsg_Ntf_Store n)) = None)"
  using assms
  by (simp add: codec_address.load_truncated codec_setaddress_req.load_truncated
      codec_setaddress_ans.load_truncated codec_sendmsg_ntf.load_truncated)

lemma router_messages_truncated_witness:
  "Address_valid new_address \<and> Address_Load (take 19 (Address_Store new_address)) = None"
proof -
  have v: "Address_valid new_address" by (simp add: Address_valid_def new_address_def)
  have n: "length (ntf_buffer \<lparr>ntf_msg_seq = 0, ntf_buffer = []\<rparr>) < 2 ^ 32" by simp
  have "19 < Address_Size new_address"
    by (simp add: Address_Size_def ROUTER_CAST_TYPE_Size_def new_address_def)
  then show ?thesis using v router_messages_truncated [OF v n] by blast
qed

text \<open>A router message survives the trip through a packet: when an address answer fits, writing
  it with \<open>Packet::Write\<close> succeeds and \<open>Packet::Load\<close> of that packet returns the same message; the
  same holds for a forwarded message.\<close>

theorem router_message_through_packet:
  assumes "pkt_ok p" and "Address_valid a" and "length (ntf_buffer n) < 2 ^ 32"
    and "SetAddress_Ans_Size \<lparr>ans_error_code = e, ans_remote_address = a\<rparr> + HEADER_SIZE < Buffer_MAX_SIZE"
    and "SendMsg_Ntf_Size n + HEADER_SIZE < Buffer_MAX_SIZE"
  shows "let ans = \<lparr>ans_error_code = e, ans_remote_address = a\<rparr> in
    (\<exists>p'. pkt_Write_msg sq (SetAddress_Ans_Size ans) SetAddress_Ans_MSG_ID (SetAddress_Ans_Store ans) True p =
        Ret (True, p') \<and>
      pkt_GetID p' = SetAddress_Ans_MSG_ID \<and> pkt_Read SetAddress_Ans_Load p' = Ret (Some ans)) \<and>
    (\<exists>p'. pkt_Write_msg sq (SendMsg_Ntf_Size n) SendMsg_Ntf_MSG_ID (SendMsg_Ntf_Store n) True p = Ret (True, p') \<and>
      pkt_GetID p' = SendMsg_Ntf_MSG_ID \<and> pkt_Read SendMsg_Ntf_Load p' = Ret (Some n))"
proof -
  have "Address_valid (ans_remote_address \<lparr>ans_error_code = e, ans_remote_address = a\<rparr>)"
    using assms(2) by simp
  from codec_setaddress_ans.packet_roundtrip [OF this assms(1,4)]
    codec_sendmsg_ntf.packet_roundtrip [OF assms(3,1,5)]
  show ?thesis unfolding Let_def by blast
qed

lemma router_message_through_packet_witness:
  "pkt_ok new_packet \<and> (\<exists>p'. pkt_Write_msg 0 (SendMsg_Ntf_Size \<lparr>ntf_msg_seq = 3, ntf_buffer = [1, 2]\<rparr>) SendMsg_Ntf_MSG_ID
     (SendMsg_Ntf_Store \<lparr>ntf_msg_seq = 3, ntf_buffer = [1, 2]\<rparr>) True new_packet = Ret (True, p') \<and>
     pkt_Read SendMsg_Ntf_Load p' = Ret (Some \<lparr>ntf_msg_seq = 3, ntf_buffer = [1, 2]\<rparr>))"
proof -
  have v: "Address_valid new_address" by (simp add: Address_valid_def new_address_def)
  have n: "length (ntf_buffer \<lparr>ntf_msg_seq = 3, ntf_buffer = [1, 2]\<rparr>) < 2 ^ 32" by simp
  have "SetAddress_Ans_Size \<lparr>ans_error_code = 0, ans_remote_address = new_address\<rparr> + HEADER_SIZE < Buffer_MAX_SIZE"
    "SendMsg_Ntf_Size \<lparr>ntf_msg_seq = 3, ntf_buffer = [1, 2]\<rparr> + HEADER_SIZE < Buffer_MAX_SIZE"
    by (simp_all add: SetAddress_Ans_Size_def SendMsg_Ntf_Size_def Address_Size_def ROUTER_CAST_TYPE_Size_def
        new_address_def HEADER_SIZE_def Buffer_MAX_SIZE_def)
  from router_message_through_packet [OF pkt_ok_new v n this] show ?thesis using pkt_ok_new unfolding Let_def by blast
qed

text \<open>The order that keys the routing table is a strict total order up to the comparison
  \<open>operator==\<close>: irreflexive, transitive, and two addresses neither of which is less are equal in
  service name, cast type and id (their sequence numbers are ignored); \<open>operator!=\<close> is its negation.\<close>

theorem address_order:
  "\<not> address_less a a \<and>
   (address_less a b \<and> address_less b c \<longrightarrow> address_less a c) \<and>
   (\<not> address_less a b \<and> \<not> address_less b a \<longleftrightarrow> address_eq a b) \<and>
   (address_eq a b \<longleftrightarrow> service_name a = service_name b \<and> cast_type a = cast_type b \<and> addr_id a = addr_id b) \<and>
   (address_neq a b \<longleftrightarrow> \<not> address_eq a b)"
proof -
  have "address_neq a b \<longleftrightarrow> \<not> address_eq a b" by (simp add: address_neq_def address_eq_def)
  moreover have "address_eq a b \<longleftrightarrow> service_name a = service_name b \<and> cast_type a = cast_type b \<and> addr_id a = addr_id b"
    by (simp add: address_eq_def)
  moreover have "\<not> address_less a b \<and> \<not> address_less b a \<longleftrightarrow> address_eq a b"
    by (auto simp: address_less_key address_eq_key)
  moreover have "\<not> address_less a a" "address_less a b \<and> address_less b c \<longrightarrow> address_less a c"
    by (auto simp: address_less_key)
  ultimately show ?thesis by blast
qed

lemma address_order_witness:
  "address_less new_address (new_address\<lparr>addr_id := 1\<rparr>) \<and>
   address_less (new_address\<lparr>addr_id := 1\<rparr>) (new_address\<lparr>addr_id := 1, service_name := [65]\<rparr>) \<and>
   address_less new_address (new_address\<lparr>addr_id := 1, service_name := [65]\<rparr>)"
proof -
  have "address_less new_address (new_address\<lparr>addr_id := 1\<rparr>)"
    "address_less (new_address\<lparr>addr_id := 1\<rparr>) (new_address\<lparr>addr_id := 1, service_name := [65]\<rparr>)"
    by (simp_all add: address_less_def new_address_def)
  then show ?thesis
    using address_order [of new_address "new_address\<lparr>addr_id := 1\<rparr>" "new_address\<lparr>addr_id := 1, service_name := [65]\<rparr>"]
    by blast
qed

end
