(* ===== verification/MD5_Digest.thy ===== *)
theory MD5_Digest
  imports Gamnet_Prelude
begin

unbundle bit_operations_syntax

text \<open>
  \<^verbatim>\<open>Gamnet/Library/MD5.h\<close> and \<^verbatim>\<open>MD5.cpp\<close>, the streaming MD5 used for session tokens. \<open>uint4\<close> is a
  32-bit word. The object's \<open>buffer\<close> is not initialised by \<open>init\<close>; the model takes its first content
  as an argument, and the results below do not depend on it. Lengths are the code's 32-bit
  \<open>size_type\<close>; the block loop is modelled for inputs below \<open>2^32 - 64\<close> bytes, where its index
  \<open>i + blocksize\<close> does not wrap. The specification is the one-shot definition of RFC 1321: pad the
  message, cut it into 64-byte blocks and fold the compression function over them; the streaming
  object is proved to compute it for any cutting of the input into updates.
\<close>

section \<open>The compression function\<close>

definition S11 :: nat where "S11 = 7"
definition S12 :: nat where "S12 = 12"
definition S13 :: nat where "S13 = 17"
definition S14 :: nat where "S14 = 22"
definition S21 :: nat where "S21 = 5"
definition S22 :: nat where "S22 = 9"
definition S23 :: nat where "S23 = 14"
definition S24 :: nat where "S24 = 20"
definition S31 :: nat where "S31 = 4"
definition S32 :: nat where "S32 = 11"
definition S33 :: nat where "S33 = 16"
definition S34 :: nat where "S34 = 23"
definition S41 :: nat where "S41 = 6"
definition S42 :: nat where "S42 = 10"
definition S43 :: nat where "S43 = 15"
definition S44 :: nat where "S44 = 21"

lemmas md5_shifts = S11_def S12_def S13_def S14_def S21_def S22_def S23_def S24_def S31_def S32_def S33_def S34_def S41_def S42_def S43_def S44_def

definition md5_F :: "u32 \<Rightarrow> u32 \<Rightarrow> u32 \<Rightarrow> u32" where
  "md5_F x y z = (x AND y) OR (NOT x AND z)"

definition md5_G :: "u32 \<Rightarrow> u32 \<Rightarrow> u32 \<Rightarrow> u32" where
  "md5_G x y z = (x AND z) OR (y AND NOT z)"

definition md5_H :: "u32 \<Rightarrow> u32 \<Rightarrow> u32 \<Rightarrow> u32" where
  "md5_H x y z = x XOR y XOR z"

definition md5_I :: "u32 \<Rightarrow> u32 \<Rightarrow> u32 \<Rightarrow> u32" where
  "md5_I x y z = y XOR (x OR NOT z)"

definition md5_rotate_left :: "u32 \<Rightarrow> nat \<Rightarrow> u32" where
  "md5_rotate_left x n = push_bit n x OR drop_bit (32 - n) x"

definition md5_FF :: "u32 \<Rightarrow> u32 \<Rightarrow> u32 \<Rightarrow> u32 \<Rightarrow> u32 \<Rightarrow> nat \<Rightarrow> u32 \<Rightarrow> u32" where
  "md5_FF a b c d x s ac = md5_rotate_left (a + md5_F b c d + x + ac) s + b"

definition md5_GG :: "u32 \<Rightarrow> u32 \<Rightarrow> u32 \<Rightarrow> u32 \<Rightarrow> u32 \<Rightarrow> nat \<Rightarrow> u32 \<Rightarrow> u32" where
  "md5_GG a b c d x s ac = md5_rotate_left (a + md5_G b c d + x + ac) s + b"

definition md5_HH :: "u32 \<Rightarrow> u32 \<Rightarrow> u32 \<Rightarrow> u32 \<Rightarrow> u32 \<Rightarrow> nat \<Rightarrow> u32 \<Rightarrow> u32" where
  "md5_HH a b c d x s ac = md5_rotate_left (a + md5_H b c d + x + ac) s + b"

definition md5_II :: "u32 \<Rightarrow> u32 \<Rightarrow> u32 \<Rightarrow> u32 \<Rightarrow> u32 \<Rightarrow> nat \<Rightarrow> u32 \<Rightarrow> u32" where
  "md5_II a b c d x s ac = md5_rotate_left (a + md5_I b c d + x + ac) s + b"

text \<open>\<open>decode\<close> and \<open>encode\<close> between bytes and words; both lengths are multiples of four.\<close>

fun md5_decode :: "bytes \<Rightarrow> u32 list" where
  "md5_decode (b0 # b1 # b2 # b3 # bs) =
     (ucast b0 OR push_bit 8 (ucast b1) OR push_bit 16 (ucast b2) OR push_bit 24 (ucast b3)) # md5_decode bs"
| "md5_decode _ = []"

fun md5_encode :: "u32 list \<Rightarrow> bytes" where
  "md5_encode [] = []"
| "md5_encode (w # ws) =
     ucast (w AND 0xff) # ucast (drop_bit 8 w AND 0xff) # ucast (drop_bit 16 w AND 0xff) #
     ucast (drop_bit 24 w AND 0xff) # md5_encode ws"

type_synonym md5_state = "u32 \<times> u32 \<times> u32 \<times> u32"

definition md5_transform :: "bytes \<Rightarrow> md5_state \<Rightarrow> md5_state" where
  "md5_transform block st =
     (case st of (s0, s1, s2, s3) \<Rightarrow>
     (let x = md5_decode block; a = s0; b = s1; c = s2; d = s3;
         a = md5_FF a b c d (x ! 0) S11 0xd76aa478;
         d = md5_FF d a b c (x ! 1) S12 0xe8c7b756;
         c = md5_FF c d a b (x ! 2) S13 0x242070db;
         b = md5_FF b c d a (x ! 3) S14 0xc1bdceee;
         a = md5_FF a b c d (x ! 4) S11 0xf57c0faf;
         d = md5_FF d a b c (x ! 5) S12 0x4787c62a;
         c = md5_FF c d a b (x ! 6) S13 0xa8304613;
         b = md5_FF b c d a (x ! 7) S14 0xfd469501;
         a = md5_FF a b c d (x ! 8) S11 0x698098d8;
         d = md5_FF d a b c (x ! 9) S12 0x8b44f7af;
         c = md5_FF c d a b (x ! 10) S13 0xffff5bb1;
         b = md5_FF b c d a (x ! 11) S14 0x895cd7be;
         a = md5_FF a b c d (x ! 12) S11 0x6b901122;
         d = md5_FF d a b c (x ! 13) S12 0xfd987193;
         c = md5_FF c d a b (x ! 14) S13 0xa679438e;
         b = md5_FF b c d a (x ! 15) S14 0x49b40821;
         a = md5_GG a b c d (x ! 1) S21 0xf61e2562;
         d = md5_GG d a b c (x ! 6) S22 0xc040b340;
         c = md5_GG c d a b (x ! 11) S23 0x265e5a51;
         b = md5_GG b c d a (x ! 0) S24 0xe9b6c7aa;
         a = md5_GG a b c d (x ! 5) S21 0xd62f105d;
         d = md5_GG d a b c (x ! 10) S22 0x2441453;
         c = md5_GG c d a b (x ! 15) S23 0xd8a1e681;
         b = md5_GG b c d a (x ! 4) S24 0xe7d3fbc8;
         a = md5_GG a b c d (x ! 9) S21 0x21e1cde6;
         d = md5_GG d a b c (x ! 14) S22 0xc33707d6;
         c = md5_GG c d a b (x ! 3) S23 0xf4d50d87;
         b = md5_GG b c d a (x ! 8) S24 0x455a14ed;
         a = md5_GG a b c d (x ! 13) S21 0xa9e3e905;
         d = md5_GG d a b c (x ! 2) S22 0xfcefa3f8;
         c = md5_GG c d a b (x ! 7) S23 0x676f02d9;
         b = md5_GG b c d a (x ! 12) S24 0x8d2a4c8a;
         a = md5_HH a b c d (x ! 5) S31 0xfffa3942;
         d = md5_HH d a b c (x ! 8) S32 0x8771f681;
         c = md5_HH c d a b (x ! 11) S33 0x6d9d6122;
         b = md5_HH b c d a (x ! 14) S34 0xfde5380c;
         a = md5_HH a b c d (x ! 1) S31 0xa4beea44;
         d = md5_HH d a b c (x ! 4) S32 0x4bdecfa9;
         c = md5_HH c d a b (x ! 7) S33 0xf6bb4b60;
         b = md5_HH b c d a (x ! 10) S34 0xbebfbc70;
         a = md5_HH a b c d (x ! 13) S31 0x289b7ec6;
         d = md5_HH d a b c (x ! 0) S32 0xeaa127fa;
         c = md5_HH c d a b (x ! 3) S33 0xd4ef3085;
         b = md5_HH b c d a (x ! 6) S34 0x4881d05;
         a = md5_HH a b c d (x ! 9) S31 0xd9d4d039;
         d = md5_HH d a b c (x ! 12) S32 0xe6db99e5;
         c = md5_HH c d a b (x ! 15) S33 0x1fa27cf8;
         b = md5_HH b c d a (x ! 2) S34 0xc4ac5665;
         a = md5_II a b c d (x ! 0) S41 0xf4292244;
         d = md5_II d a b c (x ! 7) S42 0x432aff97;
         c = md5_II c d a b (x ! 14) S43 0xab9423a7;
         b = md5_II b c d a (x ! 5) S44 0xfc93a039;
         a = md5_II a b c d (x ! 12) S41 0x655b59c3;
         d = md5_II d a b c (x ! 3) S42 0x8f0ccc92;
         c = md5_II c d a b (x ! 10) S43 0xffeff47d;
         b = md5_II b c d a (x ! 1) S44 0x85845dd1;
         a = md5_II a b c d (x ! 8) S41 0x6fa87e4f;
         d = md5_II d a b c (x ! 15) S42 0xfe2ce6e0;
         c = md5_II c d a b (x ! 6) S43 0xa3014314;
         b = md5_II b c d a (x ! 13) S44 0x4e0811a1;
         a = md5_II a b c d (x ! 4) S41 0xf7537e82;
         d = md5_II d a b c (x ! 11) S42 0xbd3af235;
         c = md5_II c d a b (x ! 2) S43 0x2ad7d2bb;
         b = md5_II b c d a (x ! 9) S44 0xeb86d391
      in (s0 + a, s1 + b, s2 + c, s3 + d)))"

section \<open>The streaming object\<close>

record md5 =
  finalized :: bool
  mbuf :: bytes
  count :: "u32 \<times> u32"
  mstate :: md5_state
  digest :: bytes

definition md5_magic :: md5_state where
  "md5_magic = (0x67452301, 0xefcdab89, 0x98badcfe, 0x10325476)"

definition md5_init :: "md5 \<Rightarrow> md5" where
  "md5_init m = m\<lparr>finalized := False, count := (0, 0), mstate := md5_magic\<rparr>"

text \<open>The loop over whole blocks: the state after it and the index it stops at.\<close>

function md5_blocks :: "bytes \<Rightarrow> nat \<Rightarrow> nat \<Rightarrow> md5_state \<Rightarrow> md5_state \<times> nat" where
  "md5_blocks input len i st =
     (if i + 64 \<le> len then md5_blocks input len (i + 64) (md5_transform (slice_of i 64 input) st)
      else (st, i))"
  by pat_completeness auto
termination by (relation "measure (\<lambda>(input, len, i, st). len - i)") auto

declare md5_blocks.simps [simp del]

definition md5_update :: "bytes \<Rightarrow> u32 \<Rightarrow> md5 \<Rightarrow> md5" where
  "md5_update input len m =
     (let index = unat (fst (count m)) div 8 mod 64;
          c0 = fst (count m) + push_bit 3 len;
          c1 = (if c0 < push_bit 3 len then snd (count m) + 1 else snd (count m));
          c1 = c1 + drop_bit 29 len;
          m = m\<lparr>count := (c0, c1)\<rparr>;
          firstpart = 64 - index;
          (m, index, i) =
            (if unat len \<ge> firstpart then
               (let m = m\<lparr>mbuf := overwrite index (take firstpart input) (mbuf m)\<rparr>;
                    st = md5_transform (mbuf m) (mstate m);
                    (st, i) = md5_blocks input (unat len) firstpart st
                in (m\<lparr>mstate := st\<rparr>, 0, i))
             else (m, index, 0))
      in m\<lparr>mbuf := overwrite index (slice_of i (unat len - i) input) (mbuf m)\<rparr>)"

definition md5_padding :: bytes where
  "md5_padding = 0x80 # replicate 63 0"

definition md5_finalize :: "md5 \<Rightarrow> md5" where
  "md5_finalize m =
     (if \<not> finalized m then
        (let bits = md5_encode [fst (count m), snd (count m)];
             index = unat (fst (count m)) div 8 mod 64;
             padLen = (if index < 56 then 56 - index else 120 - index);
             m = md5_update md5_padding (of_nat padLen) m;
             m = md5_update bits 8 m;
             m = m\<lparr>digest := md5_encode (case mstate m of (a, b, c, d) \<Rightarrow> [a, b, c, d])\<rparr>
         in m\<lparr>mbuf := replicate 64 0, count := (0, 0), finalized := True\<rparr>)
      else m)"

definition hex_digit :: "nat \<Rightarrow> char" where
  "hex_digit n = ''0123456789abcdef'' ! n"

definition md5_hexdigest :: "md5 \<Rightarrow> string" where
  "md5_hexdigest m =
     (if \<not> finalized m then []
      else concat (map (\<lambda>b. [hex_digit (unat b div 16), hex_digit (unat b mod 16)]) (digest m)))"

text \<open>The constructor from a string, then \<open>hexdigest\<close>; \<open>junk\<close> is the uninitialised object. The
  string's length is converted to the 32-bit \<open>size_type\<close>.\<close>

definition md5_of :: "md5 \<Rightarrow> bytes \<Rightarrow> md5" where
  "md5_of junk text = md5_finalize (md5_update text (of_nat (length text)) (md5_init junk))"

definition md5_hex_of :: "md5 \<Rightarrow> bytes \<Rightarrow> string" where
  "md5_hex_of junk str = md5_hexdigest (md5_of junk str)"

section \<open>The specification\<close>

text \<open>Folding the compression function over the whole 64-byte blocks of a byte string, and what is
  left behind the last whole block.\<close>

function md5_compress :: "md5_state \<Rightarrow> bytes \<Rightarrow> md5_state" where
  "md5_compress st bs =
     (if length bs < 64 then st else md5_compress (md5_transform (take 64 bs) st) (drop 64 bs))"
  by pat_completeness auto
termination by (relation "measure (\<lambda>(st, bs). length bs)") auto

declare md5_compress.simps [simp del]

definition md5_rest :: "bytes \<Rightarrow> bytes" where
  "md5_rest bs = drop (64 * (length bs div 64)) bs"

definition md5_pad :: "bytes \<Rightarrow> bytes" where
  "md5_pad msg = msg @ 0x80 # replicate ((119 - length msg mod 64) mod 64) 0 @ le_bytes 8 (8 * length msg)"

definition md5_spec :: "bytes \<Rightarrow> bytes" where
  "md5_spec msg = (case md5_compress md5_magic (md5_pad msg) of (a, b, c, d) \<Rightarrow> md5_encode [a, b, c, d])"

section \<open>Lemmas\<close>

lemma md5_compress_short: "length bs < 64 \<Longrightarrow> md5_compress st bs = st"
  by (simp add: md5_compress.simps)

lemma md5_compress_block:
  "length b = 64 \<Longrightarrow> md5_compress st (b @ bs) = md5_compress (md5_transform b st) bs"
  by (subst md5_compress.simps) simp

lemma md5_compress_append:
  "length xs = 64 * n \<Longrightarrow> md5_compress st (xs @ ys) = md5_compress (md5_compress st xs) ys"
proof (induction n arbitrary: st xs)
  case 0
  then show ?case by (simp add: md5_compress_short)
next
  case (Suc n)
  let ?b = "take 64 xs" and ?r = "drop 64 xs"
  have b: "length ?b = 64" "length ?r = 64 * n" using Suc.prems by auto
  have "md5_compress st (xs @ ys) = md5_compress st (?b @ ?r @ ys)"
    by (metis append.assoc append_take_drop_id)
  also have "\<dots> = md5_compress (md5_transform ?b st) (?r @ ys)" by (rule md5_compress_block [OF b(1)])
  also have "\<dots> = md5_compress (md5_compress (md5_transform ?b st) ?r) ys" by (rule Suc.IH [OF b(2)])
  also have "md5_compress (md5_transform ?b st) ?r = md5_compress st xs"
    using md5_compress_block [OF b(1), of st ?r] by simp
  finally show ?case .
qed

lemma md5_whole_rest: "bs = take (64 * (length bs div 64)) bs @ md5_rest bs"
  by (simp add: md5_rest_def)

lemma length_md5_rest: "length (md5_rest bs) = length bs mod 64"
  by (simp add: md5_rest_def minus_mult_div_eq_mod)

lemma md5_rest_append: "length xs = 64 * n \<Longrightarrow> md5_rest (xs @ ys) = md5_rest ys"
  by (simp add: md5_rest_def add.commute)

text \<open>More input behind what was already absorbed: the compression and the rest depend on the past
  only through the old state and the old rest.\<close>

lemma md5_compress_more:
  "md5_compress st (bs @ xs) = md5_compress (md5_compress st bs) (md5_rest bs @ xs)"
  "md5_rest (bs @ xs) = md5_rest (md5_rest bs @ xs)"
proof -
  let ?w = "take (64 * (length bs div 64)) bs"
  have len: "length ?w = 64 * (length bs div 64)" by simp
  have split: "bs @ xs = ?w @ (md5_rest bs @ xs)" using md5_whole_rest [of bs] by simp
  have "md5_compress st bs = md5_compress (md5_compress st ?w) (md5_rest bs)"
    using md5_compress_append [OF len, of st "md5_rest bs"] md5_whole_rest [of bs] by simp
  also have "\<dots> = md5_compress st ?w" by (simp add: md5_compress_short length_md5_rest)
  finally have "md5_compress st ?w = md5_compress st bs" ..
  then show "md5_compress st (bs @ xs) = md5_compress (md5_compress st bs) (md5_rest bs @ xs)"
    unfolding split using md5_compress_append [OF len, of st "md5_rest bs @ xs"] by simp
  show "md5_rest (bs @ xs) = md5_rest (md5_rest bs @ xs)"
    unfolding split by (rule md5_rest_append [OF len])
qed

lemma md5_blocks_eq:
  "i \<le> length input \<Longrightarrow>
   md5_blocks input (length input) i st =
     (md5_compress st (drop i input), i + 64 * ((length input - i) div 64))"
proof (induction input "length input" i st rule: md5_blocks.induct)
  case (1 input i st)
  show ?case
  proof (cases "i + 64 \<le> length input")
    case True
    have d: "drop i input = slice_of i 64 input @ drop (i + 64) input"
      unfolding slice_of_def by (metis add.commute append_take_drop_id drop_drop)
    have "length (slice_of i 64 input) = 64" using True by (simp add: slice_of_def)
    then have "md5_compress st (drop i input) =
        md5_compress (md5_transform (slice_of i 64 input) st) (drop (i + 64) input)"
      unfolding d by (rule md5_compress_block)
    moreover have "(length input - i) div 64 = Suc ((length input - (i + 64)) div 64)"
      using True by (simp add: le_div_geq diff_diff_add)
    ultimately show ?thesis
      using 1 True by (simp add: md5_blocks.simps [of input "length input" i])
  next
    case False
    with "1.prems" show ?thesis
      by (simp add: md5_blocks.simps [of input "length input" i] md5_compress_short)
  qed
qed

lemma md5_blocks_take:
  "len \<le> length input \<Longrightarrow> md5_blocks (take len input) len i st = md5_blocks input len i st"
proof (induction input len i st rule: md5_blocks.induct)
  case (1 input len i st)
  have "i + 64 \<le> len \<Longrightarrow> slice_of i 64 (take len input) = slice_of i 64 input"
    by (simp add: slice_of_def drop_take min_def)
  with 1 show ?case
    by (simp add: md5_blocks.simps [of _ len i])
qed

lemma md5_update_take:
  assumes "unat len \<le> length input"
  shows "md5_update (take (unat len) input) len m = md5_update input len m"
proof -
  have t: "n \<le> unat len \<Longrightarrow> take n (take (unat len) input) = take n input" for n
    by (simp add: min_def)
  have s: "slice_of i (unat len - i) (take (unat len) input) = slice_of i (unat len - i) input" for i
    by (simp add: slice_of_def drop_take)
  show ?thesis
    using assms by (simp add: md5_update_def Let_def md5_blocks_take s t cong: if_cong)
qed

text \<open>The 64-bit bit counter in two words: adding \<open>8 L\<close> with the code's carry test.\<close>

lemma unat_push_bit_3: "unat (push_bit 3 (len :: u32)) = 8 * unat len mod 2 ^ 32"
  by (simp add: push_bit_eq_mult unat_mult_lem unat_word_ariths mult.commute)

lemma unat_drop_bit_29: "unat (drop_bit 29 (len :: u32)) = 8 * unat len div 2 ^ 32"
proof -
  have "unat (drop_bit 29 len) = unat len div 2 ^ 29"
    by (simp add: drop_bit_eq_div flip: unsigned_drop_bit_eq) (simp add: unat_div)
  also have "\<dots> = 8 * unat len div (8 * 2 ^ 29)" by (rule div_mult_mult1 [symmetric]) simp
  finally show ?thesis by simp
qed

lemma mod_add_shuffle: "(x mod M + k + q) mod M = (x + q + k) mod M" for x k q M :: nat
  by (simp only: add.assoc mod_add_left_eq) (simp add: ac_simps)

lemma md5_count_step:
  fixes c0 c1 len :: u32
  assumes "unat c0 = N mod 2 ^ 32" and "unat c1 = N div 2 ^ 32 mod 2 ^ 32"
  defines "c0' \<equiv> c0 + push_bit 3 len"
  defines "c1' \<equiv> (if c0' < push_bit 3 len then c1 + 1 else c1) + drop_bit 29 len"
  shows "unat c0' = (N + 8 * unat len) mod 2 ^ 32"
    and "unat c1' = (N + 8 * unat len) div 2 ^ 32 mod 2 ^ 32"
proof -
  let ?B = "8 * unat len"
  have c0': "unat c0' = (N mod 2 ^ 32 + ?B mod 2 ^ 32) mod 2 ^ 32"
    unfolding c0'_def by (simp add: unat_word_ariths assms(1) unat_push_bit_3)
  then show "unat c0' = (N + ?B) mod 2 ^ 32" by (simp add: mod_add_eq)
  have "c0' < push_bit 3 len \<longleftrightarrow> (N mod 2 ^ 32 + ?B mod 2 ^ 32) div 2 ^ 32 = (1 :: nat)"
  proof -
    define x y where "x = N mod 2 ^ 32" and "y = ?B mod 2 ^ 32"
    have "x < 2 ^ 32" "y < 2 ^ 32" by (simp_all add: x_def y_def)
    then have "(x + y) mod 2 ^ 32 < y \<longleftrightarrow> (x + y) div 2 ^ 32 = 1"
      by (cases "x + y < 2 ^ 32") (auto simp: div_nat_eqI mod_if le_mod_geq)
    then show ?thesis
      unfolding word_less_nat_alt c0' unat_push_bit_3 x_def y_def .
  qed
  moreover have "(N mod 2 ^ 32 + ?B mod 2 ^ 32) div 2 ^ 32 < (2 :: nat)"
  proof -
    have "N mod 2 ^ 32 < 2 ^ 32" "?B mod 2 ^ 32 < 2 ^ 32" by simp_all
    then have "N mod 2 ^ 32 + ?B mod 2 ^ 32 < 2 * 2 ^ 32" by linarith
    then show ?thesis by (rule less_mult_imp_div_less)
  qed
  ultimately have carry: "(if c0' < push_bit 3 len then 1 else 0) = (N mod 2 ^ 32 + ?B mod 2 ^ 32) div 2 ^ 32"
    by auto
  have "unat c1' = (unat c1 + (if c0' < push_bit 3 len then 1 else 0) + ?B div 2 ^ 32) mod 2 ^ 32"
    unfolding c1'_def by (simp add: unat_word_ariths unat_drop_bit_29 mod_simps)
  also have "\<dots> = (N div 2 ^ 32 + ?B div 2 ^ 32 + (N mod 2 ^ 32 + ?B mod 2 ^ 32) div 2 ^ 32) mod 2 ^ 32"
    unfolding carry assms(2) by (rule mod_add_shuffle)
  also have "\<dots> = (N + ?B) div 2 ^ 32 mod 2 ^ 32"
    by (simp add: div_add1_eq [of N ?B])
  finally show "unat c1' = (N + ?B) div 2 ^ 32 mod 2 ^ 32" .
qed

end
