(* ===== verification/MD5_Correctness.thy ===== *)
theory MD5_Correctness
  imports MD5_Digest
begin

unbundle bit_operations_syntax

text \<open>
  The streaming MD5 object of \<^verbatim>\<open>Gamnet/Library/MD5.cpp\<close> computes the one-shot specification of
  \<open>MD5_Digest\<close>, for any cutting of the input into updates.
\<close>

section \<open>The object against the specification\<close>

text \<open>An object that has absorbed the bytes \<open>bs\<close> since \<open>init\<close>.\<close>

definition md5_absorbed :: "md5 \<Rightarrow> bytes \<Rightarrow> bool" where
  "md5_absorbed m bs \<longleftrightarrow> \<not> finalized m \<and> length (mbuf m) = 64 \<and>
     mstate m = md5_compress md5_magic bs \<and> take (length bs mod 64) (mbuf m) = md5_rest bs \<and>
     unat (fst (count m)) = 8 * length bs mod 2 ^ 32 \<and>
     unat (snd (count m)) = 8 * length bs div 2 ^ 32 mod 2 ^ 32"

lemma md5_absorbed_init: "length (mbuf m) = 64 \<Longrightarrow> md5_absorbed (md5_init m) []"
  by (simp add: md5_absorbed_def md5_init_def md5_compress_short md5_rest_def)

lemma eight_div_mod: "8 * n mod 2 ^ 32 div 8 = n mod (2 ^ 29 :: nat)"
proof -
  have "8 * n mod 2 ^ 32 = 8 * (n mod 2 ^ 29)" using mult_mod_right [of 8 n "2 ^ 29"] by simp
  then show ?thesis by simp
qed

lemma md5_absorbed_index:
  assumes "md5_absorbed m bs"
  shows "unat (fst (count m)) div 8 mod 64 = length bs mod 64"
proof -
  have "unat (fst (count m)) div 8 = length bs mod 2 ^ 29"
    using assms eight_div_mod [of "length bs"] by (simp only: md5_absorbed_def)
  then have "unat (fst (count m)) div 8 mod 64 = length bs mod (64 * 2 ^ 23) mod 64" by simp
  also have "\<dots> = length bs mod 64" by (rule mod_mod_cancel) simp
  finally show ?thesis .
qed

lemma md5_absorbedI:
  "\<not> finalized m \<Longrightarrow> st = md5_compress md5_magic bs \<Longrightarrow> take (length bs mod 64) b = md5_rest bs \<Longrightarrow>
   length b = 64 \<Longrightarrow> unat c0 = 8 * length bs mod 2 ^ 32 \<Longrightarrow> unat c1 = 8 * length bs div 2 ^ 32 mod 2 ^ 32 \<Longrightarrow>
   md5_absorbed (m\<lparr>count := (c0, c1), mstate := st, mbuf := b\<rparr>) bs"
  by (simp add: md5_absorbed_def)

lemma md5_update_absorbed:
  assumes m: "md5_absorbed m bs" and len: "length xs = unat len"
  shows "md5_absorbed (md5_update xs len m) (bs @ xs)"
proof -
  let ?idx = "length bs mod 64" and ?L = "length xs"
  let ?c0 = "fst (count m) + push_bit 3 len"
  let ?c1 = "(if ?c0 < push_bit 3 len then snd (count m) + 1 else snd (count m)) + drop_bit 29 len"
  have idx: "unat (fst (count m)) div 8 mod 64 = ?idx" by (rule md5_absorbed_index [OF m])
  have cnt: "unat ?c0 = 8 * length (bs @ xs) mod 2 ^ 32" "unat ?c1 = 8 * length (bs @ xs) div 2 ^ 32 mod 2 ^ 32"
    using md5_count_step [of "fst (count m)" "8 * length bs" "snd (count m)" len] m len
    by (simp_all add: md5_absorbed_def distrib_left)
  have buf: "length (mbuf m) = 64" "take ?idx (mbuf m) = md5_rest bs" using m by (simp_all add: md5_absorbed_def)
  have more: "md5_compress md5_magic (bs @ xs) = md5_compress (mstate m) (md5_rest bs @ xs)"
    "md5_rest (bs @ xs) = md5_rest (md5_rest bs @ xs)"
    using md5_compress_more m by (simp_all add: md5_absorbed_def)
  have i64: "?idx < 64" by simp
  show ?thesis
  proof (cases "64 - ?idx \<le> ?L")
    case False
    then have short: "?idx + ?L < 64" by linarith
    then have "length (md5_rest bs @ xs) < 64" by (simp add: length_md5_rest)
    then have "md5_compress (mstate m) (md5_rest bs @ xs) = mstate m" "md5_rest (md5_rest bs @ xs) = md5_rest bs @ xs"
      by (simp_all add: md5_compress_short md5_rest_def [of "md5_rest bs @ xs"])
    moreover have "length (bs @ xs) mod 64 = ?idx + ?L" using short by (metis length_append mod_add_left_eq mod_less)
    moreover have "take (?idx + ?L) (overwrite ?idx xs (mbuf m)) = md5_rest bs @ xs"
      using buf by (simp add: take_overwrite_through)
    moreover have "md5_update xs len m = m\<lparr>count := (?c0, ?c1), mbuf := overwrite ?idx xs (mbuf m)\<rparr>"
      using False len unfolding md5_update_def Let_def idx by (simp add: slice_of_def)
    ultimately show ?thesis
      using m more cnt short unfolding md5_absorbed_def by (simp del: take_append)
  next
    case True
    let ?f = "64 - ?idx"
    let ?b = "overwrite ?idx (take ?f xs) (mbuf m)"
    let ?st = "md5_transform ?b (mstate m)"
    let ?i = "?f + 64 * ((?L - ?f) div 64)"
    let ?ys = "slice_of ?i (?L - ?i) xs"
    have lt: "length (take ?f xs) = ?f" using True by simp
    have b: "?b = md5_rest bs @ take ?f xs" "length ?b = 64"
      using buf i64 lt by (simp_all add: overwrite_def length_md5_rest)
    have cat: "md5_rest bs @ xs = ?b @ drop ?f xs" using b(1) by simp
    have ys: "?ys = md5_rest (bs @ xs)"
    proof -
      have "md5_rest (bs @ xs) = md5_rest (drop ?f xs)"
        unfolding more(2) cat using md5_rest_append [of ?b 1] b(2) by simp
      also have "\<dots> = drop ?i xs" by (simp add: md5_rest_def add.commute)
      finally show ?thesis by (simp add: slice_of_def)
    qed
    have lys: "length ?ys = length (bs @ xs) mod 64" unfolding ys by (rule length_md5_rest)
    have blocks: "md5_blocks xs ?L ?f ?st = (md5_compress ?st (drop ?f xs), ?i)"
      using True by (rule md5_blocks_eq)
    have upd: "md5_update xs len m = m\<lparr>count := (?c0, ?c1), mstate := md5_compress ?st (drop ?f xs),
        mbuf := overwrite 0 ?ys ?b\<rparr>"
      using True blocks unfolding md5_update_def Let_def idx len [symmetric] by simp
    have "md5_compress md5_magic (bs @ xs) = md5_compress ?st (drop ?f xs)"
      unfolding more(1) cat by (rule md5_compress_block [OF b(2)])
    moreover have "take (length (bs @ xs) mod 64) (overwrite 0 ?ys ?b) = md5_rest (bs @ xs)"
      unfolding ys [symmetric] lys [symmetric] by (simp add: overwrite_def)
    moreover have "length (overwrite 0 ?ys ?b) = 64"
    proof -
      have "length (overwrite 0 zs ?b) = 64" if "length zs \<le> 64" for zs using that b(2) by simp
      moreover have "length ?ys \<le> 64" unfolding lys by simp
      ultimately show ?thesis by blast
    qed
    ultimately show ?thesis
      unfolding upd using m cnt by (intro md5_absorbedI) (simp_all only: md5_absorbed_def not_False_eq_True)
  qed
qed

text \<open>Words as bytes, least significant first.\<close>

lemma le_bytes_append: "le_bytes (n + k) v = le_bytes n v @ le_bytes k (v div 256 ^ n)"
  by (induction n arbitrary: v) (simp_all add: div_mult2_eq)

lemma word_byte: "ucast (drop_bit (8 * k) w AND 0xff :: u32) = (of_nat (unat w div 256 ^ k mod 256) :: u8)"
proof -
  have w: "unat w mod 2 ^ 32 = unat w" by (rule mod_less) (use unsigned_less [of w, where ?'a = nat] in simp)
  have "(0xff :: u32) = mask 8" by (simp add: mask_eq_decr_exp)
  then have "(drop_bit (8 * k) w AND 0xff :: u32) = take_bit 8 (drop_bit (8 * k) w)"
    by (simp add: take_bit_eq_mask)
  then have "unat (drop_bit (8 * k) w AND 0xff :: u32) = unat w div 256 ^ k mod 256"
    by (simp only: unsigned_take_bit_eq unsigned_drop_bit_eq) (simp add: take_bit_eq_mod drop_bit_eq_div power_mult w [simplified])
  then show ?thesis by (metis of_nat_unat)
qed

lemma md5_encode_word: "md5_encode [w] = le_bytes 4 (unat w)"
  using word_byte [of 0 w] word_byte [of 1 w] word_byte [of 2 w] word_byte [of 3 w]
  by (simp add: le_bytes_numeral div_mult2_eq [symmetric])

lemma md5_encode_append: "md5_encode (ws @ vs) = md5_encode ws @ md5_encode vs"
  by (induction ws rule: md5_encode.induct) simp_all

lemma le_bytes_mod: "le_bytes n (v mod 256 ^ n) = le_bytes n v"
  using le_bytes_le_val [of "le_bytes n v"] by simp

lemma md5_bits:
  assumes "md5_absorbed m bs"
  shows "md5_encode [fst (count m), snd (count m)] = le_bytes 8 (8 * length bs)"
proof -
  have "md5_encode [fst (count m), snd (count m)] =
      le_bytes 4 (unat (fst (count m))) @ le_bytes 4 (unat (snd (count m)))"
    using md5_encode_append [of "[fst (count m)]" "[snd (count m)]"] unfolding md5_encode_word by simp
  also have "\<dots> = le_bytes 4 (8 * length bs mod 256 ^ 4) @ le_bytes 4 (8 * length bs div 256 ^ 4 mod 256 ^ 4)"
    using assms by (simp add: md5_absorbed_def del: le_bytes_numeral)
  also have "\<dots> = le_bytes (4 + 4) (8 * length bs)"
    unfolding le_bytes_mod le_bytes_append ..
  finally show ?thesis by simp
qed

lemma length_md5_encode: "length (md5_encode ws) = 4 * length ws"
  by (induction ws rule: md5_encode.induct) simp_all

lemma take_md5_padding:
  "n < 64 \<Longrightarrow> take (Suc n) md5_padding = 0x80 # replicate n 0"
  by (simp add: md5_padding_def)

lemma md5_pad_length: "n < 64 \<Longrightarrow> (if n < 56 then 56 - n else 120 - n) = Suc ((119 - n) mod 64)" for n :: nat
proof (cases "n < 56")
  case True
  assume "n < 64"
  from True have "119 - n = 64 + (55 - n)" by simp
  then have "(119 - n) mod 64 = 55 - n" by (simp only: mod_add_self1) simp
  with True show ?thesis by simp
next
  case False
  assume "n < 64"
  with False show ?thesis by simp
qed

lemma md5_finalize_digest:
  assumes m: "md5_absorbed m bs"
  shows "digest (md5_finalize m) = md5_spec bs"
proof -
  define z where "z = (119 - length bs mod 64) mod 64"
  let ?pl = "Suc z"
  have z: "z < 64" by (simp add: z_def)
  have pl: "(if length bs mod 64 < 56 then 56 - length bs mod 64 else 120 - length bs mod 64) = ?pl"
    unfolding z_def by (rule md5_pad_length) simp
  have upl: "unat (of_nat ?pl :: u32) = ?pl" using z by (subst unat_of_nat_u32) simp
  let ?m1 = "md5_update md5_padding (of_nat ?pl) m"
  have m1: "md5_absorbed ?m1 (bs @ 0x80 # replicate z 0)"
  proof -
    have len: "length md5_padding = 64" by (simp add: md5_padding_def)
    have "md5_update (take ?pl md5_padding) (of_nat ?pl) m = ?m1"
      using md5_update_take [of "of_nat ?pl" md5_padding m] z unfolding upl len by simp
    moreover have "md5_absorbed (md5_update (0x80 # replicate z 0) (of_nat ?pl) m) (bs @ 0x80 # replicate z 0)"
      by (rule md5_update_absorbed [OF m]) (simp only: upl length_Cons length_replicate)
    ultimately show ?thesis by (simp only: take_md5_padding [OF z])
  qed
  let ?bits = "md5_encode [fst (count m), snd (count m)]"
  have m2: "md5_absorbed (md5_update ?bits 8 ?m1) (md5_pad bs)"
  proof -
    have "length ?bits = unat (8 :: u32)" unfolding length_md5_encode by simp
    from md5_update_absorbed [OF m1 this]
    show ?thesis unfolding md5_pad_def md5_bits [OF m] z_def [symmetric] by simp
  qed
  have "\<not> finalized m" using m by (simp add: md5_absorbed_def)
  then have "digest (md5_finalize m) =
      md5_encode (case mstate (md5_update ?bits 8 ?m1) of (a, b, c, d) \<Rightarrow> [a, b, c, d])"
    unfolding md5_finalize_def Let_def md5_absorbed_index [OF m] pl
    by (simp del: replicate.simps split: prod.splits)
  also have "mstate (md5_update ?bits 8 ?m1) = md5_compress md5_magic (md5_pad bs)"
    using m2 unfolding md5_absorbed_def by blast
  finally show ?thesis unfolding md5_spec_def by (simp split: prod.splits)
qed

section \<open>Properties\<close>

text \<open>A client that feeds its pieces one after the other into the object.\<close>

definition md5_feed :: "bytes list \<Rightarrow> md5 \<Rightarrow> md5" where
  "md5_feed ps m = fold (\<lambda>p. md5_update p (of_nat (length p))) ps m"

lemma md5_feed_absorbed:
  "\<forall>p\<in>set ps. length p < 2 ^ 32 \<Longrightarrow> md5_absorbed m bs \<Longrightarrow> md5_absorbed (md5_feed ps m) (bs @ concat ps)"
proof (induction ps arbitrary: m bs)
  case Nil
  then show ?case by (simp add: md5_feed_def)
next
  case (Cons p ps)
  have "md5_absorbed (md5_update p (of_nat (length p)) m) (bs @ p)"
    using Cons.prems by (intro md5_update_absorbed) (simp_all add: unat_of_nat_u32)
  with Cons have "md5_absorbed (md5_feed ps (md5_update p (of_nat (length p)) m)) ((bs @ p) @ concat ps)"
    by (intro Cons.IH) simp_all
  then show ?case by (simp add: md5_feed_def)
qed

text \<open>C9: Feeding a message in any pieces (each below the loop's index limit of 2^32 - 64 bytes) into
  \<open>update\<close> and calling \<open>finalize\<close> gives the one-shot RFC 1321 digest of the concatenation, whatever
  the uninitialised object held.\<close>

theorem md5_streaming:
  assumes "length (mbuf junk) = 64" and "\<forall>p\<in>set ps. length p < 2 ^ 32 - 64"
  shows "digest (md5_finalize (md5_feed ps (md5_init junk))) = md5_spec (concat ps)"
proof (rule md5_finalize_digest)
  have "\<forall>p\<in>set ps. length p < 2 ^ 32" using assms(2) by force
  from md5_feed_absorbed [OF this md5_absorbed_init [OF assms(1)]]
  show "md5_absorbed (md5_feed ps (md5_init junk)) (concat ps)" by simp
qed

definition md5_object :: md5 where
  "md5_object = \<lparr>finalized = True, mbuf = replicate 64 7, count = (1, 2), mstate = (0, 0, 0, 0), digest = []\<rparr>"

theorem md5_streaming_witness:
  "digest (md5_finalize (md5_feed [[1, 2], [], replicate 70 3] (md5_init md5_object))) =
     md5_spec (concat [[1, 2], [], replicate 70 3])"
  by (rule md5_streaming) (simp_all add: md5_object_def)

lemma finalized_md5_finalize: "finalized (md5_finalize m)"
  by (simp add: md5_finalize_def Let_def)

lemma length_concat_const: "\<forall>x\<in>set xs. length (f x) = n \<Longrightarrow> length (concat (map f xs)) = n * length xs"
  by (induction xs) simp_all

lemma unat_nibbles: "unat (b :: u8) div 16 < 16"
  using unsigned_less [of b, where ?'a = nat] by simp

lemma set_hex_digit: "n < 16 \<Longrightarrow> hex_digit n \<in> set ''0123456789abcdef''"
  unfolding hex_digit_def by (rule nth_mem) simp

lemma hex_digit_inj: "n < 16 \<Longrightarrow> k < 16 \<Longrightarrow> hex_digit n = hex_digit k \<longleftrightarrow> n = k"
  unfolding hex_digit_def by (rule nth_eq_iff_index_eq) simp_all

lemma concat_map_inj:
  assumes "\<And>x. length (f x) = n" and "\<And>x y. f x = f y \<Longrightarrow> x = y" and "n \<noteq> 0"
  shows "concat (map f xs) = concat (map f ys) \<Longrightarrow> xs = ys"
proof (induction xs arbitrary: ys)
  case Nil
  then show ?case using assms(1,3) by (cases ys) (auto simp flip: length_0_conv)
next
  case (Cons x xs)
  then show ?case using assms by (cases ys) (auto simp flip: length_0_conv)
qed

lemma hex_byte_inj:
  "[hex_digit (unat b div 16), hex_digit (unat b mod 16)] = [hex_digit (unat c div 16), hex_digit (unat c mod 16)]
     \<Longrightarrow> b = (c :: u8)"
  by (simp add: hex_digit_inj unat_nibbles) (metis div_mult_mod_eq word_unat_eq_iff)

text \<open>The constructor from a string followed by \<open>hexdigest\<close>: 32 lower-case hexadecimal digits,
  which do not depend on the uninitialised object and are equal for two strings only if the RFC 1321
  digests of the strings are equal.\<close>

theorem md5_hex:
  assumes "length (mbuf junk) = 64" and "length (mbuf junk') = 64"
    and "length str < 2 ^ 32 - 64" and "length str' < 2 ^ 32 - 64"
  shows "length (md5_hex_of junk str) = 32 \<and> set (md5_hex_of junk str) \<subseteq> set ''0123456789abcdef'' \<and>
    (md5_hex_of junk str = md5_hex_of junk' str' \<longleftrightarrow> md5_spec str = md5_spec str')"
proof -
  let ?hex = "\<lambda>b :: u8. [hex_digit (unat b div 16), hex_digit (unat b mod 16)]"
  have md5: "md5_hex_of j s = concat (map ?hex (md5_spec s))" if "length (mbuf j) = 64" "length s < 2 ^ 32 - 64" for j s
  proof -
    have "length s < 2 ^ 32" using that by simp
    then have "md5_absorbed (md5_update s (of_nat (length s)) (md5_init j)) ([] @ s)"
      using that by (intro md5_update_absorbed md5_absorbed_init) (simp_all add: unat_of_nat_u32)
    then have "digest (md5_of j s) = md5_spec s"
      unfolding md5_of_def by (intro md5_finalize_digest) simp
    then show ?thesis
      unfolding md5_hex_of_def md5_hexdigest_def by (simp add: md5_of_def finalized_md5_finalize)
  qed
  have len: "length (md5_spec s) = 16" for s
    by (simp add: md5_spec_def length_md5_encode split: prod.splits)
  have "length (md5_hex_of junk str) = 2 * length (md5_spec str)"
    unfolding md5 [OF assms(1,3)] by (rule length_concat_const) simp
  moreover have "set (md5_hex_of junk str) \<subseteq> set ''0123456789abcdef''"
  proof
    fix ch assume "ch \<in> set (md5_hex_of junk str)"
    then obtain b :: u8 where "ch = hex_digit (unat b div 16) \<or> ch = hex_digit (unat b mod 16)"
      unfolding md5 [OF assms(1,3)] by auto
    then show "ch \<in> set ''0123456789abcdef''"
      using set_hex_digit [OF unat_nibbles] set_hex_digit [of "unat b mod 16"] by (auto simp del: set_simps)
  qed
  moreover have "md5_hex_of junk str = md5_hex_of junk' str' \<longleftrightarrow> md5_spec str = md5_spec str'"
    unfolding md5 [OF assms(1,3)] md5 [OF assms(2,4)]
    using concat_map_inj [of ?hex 2 "md5_spec str" "md5_spec str'"] hex_byte_inj by auto
  ultimately show ?thesis by (simp add: len)
qed

theorem md5_hex_witness:
  "length (md5_hex_of md5_object [97, 98, 99]) = 32 \<and> set (md5_hex_of md5_object [97, 98, 99]) \<subseteq> set ''0123456789abcdef'' \<and>
    (md5_hex_of md5_object [97, 98, 99] = md5_hex_of md5_object (replicate 80 49) \<longleftrightarrow>
     md5_spec [97, 98, 99] = md5_spec (replicate 80 49))"
  by (rule md5_hex) (simp_all add: md5_object_def)

end
