(* ===== verification/Base64.thy ===== *)
theory Base64
  imports Gamnet_Prelude
begin

unbundle bit_operations_syntax

text \<open>
  \<^verbatim>\<open>Gamnet/Library/Base64.cpp\<close>. A byte is an \<open>unsigned char\<close>; the encoded text is a string. Arithmetic
  is done in \<open>int\<close> and stored in an \<open>unsigned char\<close> by the code, which for the shifts and sums below
  is the arithmetic of 8-bit words. The two loops collect a group of three (four) characters and
  flush it; the model keeps the group as the list of the characters collected. Strings are shorter
  than \<open>2^31\<close>, the range of the decoder's \<open>int in_len\<close>.
\<close>

section \<open>The code\<close>

definition base64_chars :: string where
  "base64_chars = ''ABCDEFGHIJKLMNOPQRSTUVWXYZabcdefghijklmnopqrstuvwxyz0123456789+/''"

text \<open>\<open>isalnum\<close> in the C locale.\<close>

definition is_alnum :: "char \<Rightarrow> bool" where
  "is_alnum ch \<longleftrightarrow> (let n = of_char ch :: nat in
     48 \<le> n \<and> n \<le> 57 \<or> 65 \<le> n \<and> n \<le> 90 \<or> 97 \<le> n \<and> n \<le> 122)"

definition is_base64 :: "char \<Rightarrow> bool" where
  "is_base64 ch \<longleftrightarrow> is_alnum ch \<or> ch = CHR ''+'' \<or> ch = CHR ''/''"

definition base64_quad :: "u8 \<Rightarrow> u8 \<Rightarrow> u8 \<Rightarrow> u8 list" where
  "base64_quad a b c =
     [drop_bit 2 (a AND 0xfc),
      push_bit 4 (a AND 0x03) + drop_bit 4 (b AND 0xf0),
      push_bit 2 (b AND 0x0f) + drop_bit 6 (c AND 0xc0),
      c AND 0x3f]"

definition base64_char :: "u8 \<Rightarrow> char" where
  "base64_char w = base64_chars ! unat w"

text \<open>The loop over the input: \<open>g\<close> holds \<open>char_array_3[0..i)\<close>, \<open>ret\<close> the text so far.\<close>

fun base64_enc_loop :: "bytes \<Rightarrow> bytes \<Rightarrow> string \<Rightarrow> bytes \<times> string" where
  "base64_enc_loop [] g ret = (g, ret)"
| "base64_enc_loop (x # xs) g ret =
     (let g = g @ [x] in
      if length g = 3 then base64_enc_loop xs [] (ret @ map base64_char (base64_quad (g ! 0) (g ! 1) (g ! 2)))
      else base64_enc_loop xs g ret)"

definition Base64Encode :: "bytes \<Rightarrow> string" where
  "Base64Encode bs =
     (if bs = [] then []
      else (let (g, ret) = base64_enc_loop bs [] [] in
            if length g \<noteq> 0 then
              (let i = length g; g = g @ replicate (3 - i) 0
               in ret @ map base64_char (take (i + 1) (base64_quad (g ! 0) (g ! 1) (g ! 2))) @
                    replicate (3 - i) CHR ''='')
            else ret))"

text \<open>\<open>base64_chars.find\<close> stored in an \<open>unsigned char\<close>: \<open>npos\<close> becomes 255.\<close>

fun index_of :: "'a \<Rightarrow> 'a list \<Rightarrow> nat option" where
  "index_of y [] = None"
| "index_of y (x # xs) = (if x = y then Some 0 else map_option Suc (index_of y xs))"

definition base64_find :: "char \<Rightarrow> u8" where
  "base64_find ch = (case index_of ch base64_chars of Some i \<Rightarrow> of_nat i | None \<Rightarrow> of_nat (2 ^ 64 - 1))"

definition base64_triple :: "u8 \<Rightarrow> u8 \<Rightarrow> u8 \<Rightarrow> u8 \<Rightarrow> u8 list" where
  "base64_triple a b c d =
     [push_bit 2 a + drop_bit 4 (b AND 0x30),
      push_bit 4 (b AND 0xf) + drop_bit 2 (c AND 0x3c),
      push_bit 6 (c AND 0x3) + d]"

fun base64_dec_loop :: "string \<Rightarrow> string \<Rightarrow> bytes \<Rightarrow> string \<times> bytes" where
  "base64_dec_loop [] g ret = (g, ret)"
| "base64_dec_loop (x # xs) g ret =
     (if x \<noteq> CHR ''='' \<and> is_base64 x then
        (let g = g @ [x] in
         if length g = 4 then
           (let w = map base64_find g
            in base64_dec_loop xs [] (ret @ base64_triple (w ! 0) (w ! 1) (w ! 2) (w ! 3)))
         else base64_dec_loop xs g ret)
      else (g, ret))"

definition Base64Decode :: "string \<Rightarrow> bytes" where
  "Base64Decode str =
     (if str = [] then []
      else (let (g, ret) = base64_dec_loop str [] [] in
            if length g \<noteq> 0 then
              (let i = length g; w = map base64_find (g @ replicate (4 - i) (CHR 0x00))
               in ret @ take (i - 1) (base64_triple (w ! 0) (w ! 1) (w ! 2) (w ! 3)))
            else ret))"

section \<open>Lemmas\<close>

lemma less_8_cases: "n < 8 \<longleftrightarrow> n = 0 \<or> n = 1 \<or> n = 2 \<or> n = 3 \<or> n = 4 \<or> n = 5 \<or> n = 6 \<or> n = (7 :: nat)"
  by auto

lemma base64_fields:
  fixes x :: u8
  shows "unat (drop_bit 2 (x AND 0xfc)) = unat x div 4"
    and "unat (push_bit 4 (x AND 0x03)) = 16 * (unat x mod 4)"
    and "unat (drop_bit 4 (x AND 0xf0)) = unat x div 16"
    and "unat (push_bit 2 (x AND 0x0f)) = 4 * (unat x mod 16)"
    and "unat (drop_bit 6 (x AND 0xc0)) = unat x div 64"
    and "unat (x AND 0x3f) = unat x mod 64"
    and "unat (drop_bit 4 (x AND 0x30)) = unat x div 16 mod 4"
    and "unat (push_bit 4 (x AND 0x0f)) = 16 * (unat x mod 16)"
    and "unat (drop_bit 2 (x AND 0x3c)) = unat x div 4 mod 16"
    and "unat (push_bit 6 (x AND 0x03)) = 64 * (unat x mod 4)"
proof -
  have ux: "unat x < 256" using unsigned_less [of x, where ?'a = nat] by simp
  have tk: "unat (take_bit k y) = unat y mod 2 ^ k" for k and y :: u8
    by (simp only: unsigned_take_bit_eq) (simp add: take_bit_eq_mod)
  have dr: "unat (drop_bit k y) = unat y div 2 ^ k" for k and y :: u8
    using unsigned_less [of y, where ?'a = nat] by (simp only: unsigned_drop_bit_eq) (simp add: drop_bit_eq_div take_bit_eq_mod)
  have pu: "unat (push_bit k y) = 2 ^ k * unat y mod 256" for k and y :: u8
    by (simp only: unsigned_push_bit_eq) (simp add: push_bit_eq_mult take_bit_eq_mod mult.commute)
  have eqs: "drop_bit 2 (x AND 0xfc) = drop_bit 2 x" "x AND 0x03 = take_bit 2 x"
    "drop_bit 4 (x AND 0xf0) = drop_bit 4 x" "x AND 0x0f = take_bit 4 x"
    "drop_bit 6 (x AND 0xc0) = drop_bit 6 x" "x AND 0x3f = take_bit 6 x"
    "drop_bit 4 (x AND 0x30) = take_bit 2 (drop_bit 4 x)" "drop_bit 2 (x AND 0x3c) = take_bit 4 (drop_bit 2 x)"
    by (rule bit_word_eqI; auto simp: bit_simps less_8_cases dest: bit_imp_le_length)+
  show "unat (drop_bit 2 (x AND 0xfc)) = unat x div 4" by (simp only: eqs dr) simp
  show "unat (push_bit 4 (x AND 0x03)) = 16 * (unat x mod 4)" by (simp only: eqs pu tk) simp
  show "unat (drop_bit 4 (x AND 0xf0)) = unat x div 16" by (simp only: eqs dr) simp
  show "unat (push_bit 2 (x AND 0x0f)) = 4 * (unat x mod 16)" by (simp only: eqs pu tk) simp
  show "unat (drop_bit 6 (x AND 0xc0)) = unat x div 64" by (simp only: eqs dr) simp
  show "unat (x AND 0x3f) = unat x mod 64" by (simp add: eqs tk)
  show "unat (drop_bit 4 (x AND 0x30)) = unat x div 16 mod 4" by (simp only: eqs tk dr) simp
  show "unat (push_bit 4 (x AND 0x0f)) = 16 * (unat x mod 16)" by (simp only: eqs pu tk) simp
  show "unat (drop_bit 2 (x AND 0x3c)) = unat x div 4 mod 16" by (simp only: eqs tk dr) simp
  show "unat (push_bit 6 (x AND 0x03)) = 64 * (unat x mod 4)" by (simp only: eqs pu tk) simp
qed

lemma base64_shift: "unat (push_bit 2 (x :: u8)) = 4 * (unat x mod 64)"
proof -
  have "unat (push_bit 2 x) = 4 * unat x mod (4 * 64)"
    by (simp only: unsigned_push_bit_eq) (simp add: push_bit_eq_mult take_bit_eq_mod mult.commute)
  then show ?thesis by (simp only: mult_mod_right)
qed

lemma unat_add_u8: "unat (x + y :: u8) = (unat x + unat y) mod 256"
  by (simp add: unat_word_ariths)

lemma unat_u8: "unat (a :: u8) < 256"
  using unsigned_less [of a, where ?'a = nat] by simp

lemma sextet_parts:
  fixes x b c :: nat
  shows "b < 256 \<Longrightarrow> (16 * x + b div 16) div 16 = x" "b < 256 \<Longrightarrow> (16 * x + b div 16) mod 16 = b div 16"
    and "c < 256 \<Longrightarrow> (4 * x + c div 64) div 4 = x" "c < 256 \<Longrightarrow> (4 * x + c div 64) mod 4 = c div 64"
    and "b < 256 \<Longrightarrow> x < 4 \<Longrightarrow> 16 * x + b div 16 < 64" "c < 256 \<Longrightarrow> x < 16 \<Longrightarrow> 4 * x + c div 64 < 64"
    and "x < 256 \<Longrightarrow> x div 4 < 64" "b < 256 \<Longrightarrow> b div 16 < 16" "c < 256 \<Longrightarrow> c div 64 < 4"
proof -
  have d: "b div 16 < 16" if "b < 256" for b :: nat using that by (simp add: div_less_iff_less_mult)
  have e: "c div 64 < 4" if "c < 256" for c :: nat using that by (simp add: div_less_iff_less_mult)
  show "b < 256 \<Longrightarrow> (16 * x + b div 16) div 16 = x" "b < 256 \<Longrightarrow> (16 * x + b div 16) mod 16 = b div 16"
    using d by simp_all
  show "c < 256 \<Longrightarrow> (4 * x + c div 64) div 4 = x" "c < 256 \<Longrightarrow> (4 * x + c div 64) mod 4 = c div 64"
    using e by simp_all
  show "b < 256 \<Longrightarrow> b div 16 < 16" "c < 256 \<Longrightarrow> c div 64 < 4" by (fact d e)+
  show "b < 256 \<Longrightarrow> x < 4 \<Longrightarrow> 16 * x + b div 16 < 64" using d [of b] by linarith
  show "c < 256 \<Longrightarrow> x < 16 \<Longrightarrow> 4 * x + c div 64 < 64" using e [of c] by linarith
  show "x < 256 \<Longrightarrow> x div 4 < 64" by (simp add: div_less_iff_less_mult)
qed

lemma quad_values:
  "map unat (base64_quad a b c) =
     [unat a div 4, 16 * (unat a mod 4) + unat b div 16, 4 * (unat b mod 16) + unat c div 64, unat c mod 64]"
proof -
  have "16 * (unat a mod 4) + unat b div 16 < 64" "4 * (unat b mod 16) + unat c div 64 < 64"
    by (simp_all only: sextet_parts unat_u8 mod_less_divisor zero_less_numeral)
  then show ?thesis unfolding base64_quad_def list.map base64_fields unat_add_u8 by simp
qed

lemma quad_less_64: "w \<in> set (base64_quad a b c) \<Longrightarrow> unat w < 64"
proof -
  assume "w \<in> set (base64_quad a b c)"
  then have "unat w \<in> set (map unat (base64_quad a b c))" by simp
  then have "unat w \<in> {unat a div 4, 16 * (unat a mod 4) + unat b div 16,
      4 * (unat b mod 16) + unat c div 64, unat c mod 64}" unfolding quad_values by simp
  then show "unat w < 64"
    by (elim insertE emptyE) (simp_all add: sextet_parts unat_u8)
qed

lemma quad_nth_less: "k < 4 \<Longrightarrow> unat (base64_quad a b c ! k) < 64"
proof -
  assume "k < 4"
  then have "k < length (base64_quad a b c)" unfolding base64_quad_def by simp
  from nth_mem [OF this] show ?thesis by (rule quad_less_64)
qed

lemma triple_quad:
  "base64_triple (base64_quad a b c ! 0) (base64_quad a b c ! 1) (base64_quad a b c ! 2) (base64_quad a b c ! 3) = [a, b, c]"
proof -
  have v: "unat (base64_quad a b c ! 0) = unat a div 4"
    "unat (base64_quad a b c ! 1) = 16 * (unat a mod 4) + unat b div 16"
    "unat (base64_quad a b c ! 2) = 4 * (unat b mod 16) + unat c div 64"
    "unat (base64_quad a b c ! 3) = unat c mod 64"
    using quad_values [of a b c] unfolding base64_quad_def by simp_all
  have "4 * (unat a div 4) + unat a mod 4 = unat a" "16 * (unat b div 16) + unat b mod 16 = unat b"
    "64 * (unat c div 64) + unat c mod 64 = unat c" by simp_all
  then show ?thesis
    unfolding base64_triple_def word_unat_eq_iff list.inject base64_fields base64_shift unat_add_u8 v
    by (simp add: sextet_parts unat_u8 add.commute)
qed

lemma index_of_nth: "distinct xs \<Longrightarrow> i < length xs \<Longrightarrow> index_of (xs ! i) xs = Some i"
proof (induction xs arbitrary: i)
  case (Cons x xs)
  then show ?case by (cases i) auto
qed simp

lemma distinct_base64_chars: "distinct base64_chars" and length_base64_chars: "length base64_chars = 64"
  by (simp_all add: base64_chars_def)

lemma find_char: "unat w < 64 \<Longrightarrow> base64_find (base64_char w) = w"
  by (simp add: base64_find_def base64_char_def index_of_nth distinct_base64_chars length_base64_chars)

lemma base64_chars_ok: "ch \<in> set base64_chars \<Longrightarrow> is_base64 ch \<and> ch \<noteq> CHR ''=''"
proof -
  have "list_all (\<lambda>ch. is_base64 ch \<and> ch \<noteq> CHR ''='') base64_chars" by code_simp
  then show "ch \<in> set base64_chars \<Longrightarrow> is_base64 ch \<and> ch \<noteq> CHR ''=''" by (simp add: list_all_iff)
qed

lemma base64_char_ok: "unat w < 64 \<Longrightarrow> is_base64 (base64_char w) \<and> base64_char w \<noteq> CHR ''=''"
  unfolding base64_char_def by (intro base64_chars_ok nth_mem) (simp add: length_base64_chars)

text \<open>The loops group by group.\<close>

lemma enc_loop_triple:
  "base64_enc_loop (a # b # c # xs) [] ret = base64_enc_loop xs [] (ret @ map base64_char (base64_quad a b c))"
  by simp

lemma enc_loop_ret:
  "base64_enc_loop xs g (r @ ret) = map_prod id ((@) r) (base64_enc_loop xs g ret)"
  by (induction xs g ret rule: base64_enc_loop.induct) (simp_all add: Let_def)

fun base64_sextets :: "nat \<Rightarrow> string" where
  "base64_sextets n = map (\<lambda>k. base64_chars ! (n div 64 ^ k mod 64)) [3, 2, 1, 0]"

text \<open>RFC 4648: each three bytes are a 24-bit number written in four digits of base 64; a last group of
  one or two bytes is padded with zero bits and \<open>=\<close>.\<close>

fun base64_spec :: "bytes \<Rightarrow> string" where
  "base64_spec [] = []"
| "base64_spec [a] = take 2 (base64_sextets (65536 * unat a)) @ ''==''"
| "base64_spec [a, b] = take 3 (base64_sextets (65536 * unat a + 256 * unat b)) @ ''=''"
| "base64_spec (a # b # c # xs) = base64_sextets (65536 * unat a + 256 * unat b + unat c) @ base64_spec xs"

lemma base64_digits:
  assumes "P < 64" "Q < 64" "R < 64" "S < (64 :: nat)"
  defines "n \<equiv> 64 * (64 * (64 * P + Q) + R) + S"
  shows "n div 64 ^ 3 mod 64 = P" "n div 64 ^ 2 mod 64 = Q" "n div 64 ^ 1 mod 64 = R" "n div 64 ^ 0 mod 64 = S"
proof -
  have g: "(64 * x + y) div 64 = x" "(64 * x + y) mod 64 = y" if "y < 64" for x y :: nat
    using that by simp_all
  have d: "n div 64 = 64 * (64 * P + Q) + R" "n mod 64 = S" unfolding n_def by (rule g [OF assms(4)])+
  have e: "(64 * (64 * P + Q) + R) div 64 = 64 * P + Q" "(64 * (64 * P + Q) + R) mod 64 = R"
    "(64 * P + Q) div 64 = P" "(64 * P + Q) mod 64 = Q" by (rule g [OF assms(3)] g [OF assms(2)])+
  show "n div 64 ^ 3 mod 64 = P"
    using e assms by (simp only: numeral_3_eq_3 power_Suc power_0 mult_1_right div_mult2_eq d) simp
  show "n div 64 ^ 2 mod 64 = Q"
    using e by (simp only: power2_eq_square div_mult2_eq d)
  show "n div 64 ^ 1 mod 64 = R" "n div 64 ^ 0 mod 64 = S" using d e by simp_all
qed

lemma sextets_quad: "map base64_char (base64_quad a b c) = base64_sextets (65536 * unat a + 256 * unat b + unat c)"
proof -
  let ?P = "unat a div 4" and ?Q = "16 * (unat a mod 4) + unat b div 16"
    and ?R = "4 * (unat b mod 16) + unat c div 64" and ?S = "unat c mod 64"
  have lt: "?P < 64" "?Q < 64" "?R < 64" "?S < 64" by (simp_all add: sextet_parts unat_u8)
  have "4 * (unat a div 4) + unat a mod 4 = unat a" "16 * (unat b div 16) + unat b mod 16 = unat b"
    "64 * (unat c div 64) + unat c mod 64 = unat c" by simp_all
  moreover have "65536 * a + 256 * b + c = 64 * (64 * (64 * p + (16 * q + r)) + (4 * s + t)) + u"
    if "4 * p + q = a" "16 * r + s = b" "64 * t + u = c" for a b c p q r s t u :: nat
    by (simp add: that [symmetric])
  ultimately have "65536 * unat a + 256 * unat b + unat c = 64 * (64 * (64 * ?P + ?Q) + ?R) + ?S" by blast
  moreover have m: "map base64_char (base64_quad a b c) = map ((!) base64_chars) (map unat (base64_quad a b c))"
    by (simp add: base64_char_def)
  ultimately show ?thesis
    unfolding m quad_values base64_sextets.simps by (simp only: list.map base64_digits [OF lt])
qed

lemma enc_loop_spec:
  "base64_spec bs = (let (g, ret) = base64_enc_loop bs [] [] in ret @ base64_spec g) \<and>
   length (fst (base64_enc_loop bs [] [])) < 3"
proof (induction bs rule: base64_spec.induct)
  case (4 a b c xs)
  have "base64_enc_loop (a # b # c # xs) [] [] =
      map_prod id ((@) (map base64_char (base64_quad a b c))) (base64_enc_loop xs [] [])"
    using enc_loop_ret [of xs "[]" "map base64_char (base64_quad a b c)" "[]"] unfolding enc_loop_triple by simp
  with 4 show ?case
    by (simp add: sextets_quad case_prod_unfold Let_def del: base64_enc_loop.simps base64_sextets.simps)
qed simp_all

lemma Base64Encode_spec: "Base64Encode bs = base64_spec bs"
proof (cases "bs = []")
  case False
  obtain g ret where e: "base64_enc_loop bs [] [] = (g, ret)" by fastforce
  from enc_loop_spec [of bs] e have spec: "base64_spec bs = ret @ base64_spec g" "length g < 3" by simp_all
  consider "g = []" | a where "g = [a]" | a b where "g = [a, b]"
  proof (cases g)
    case (Cons a g')
    then show thesis using that spec(2) by (cases g') auto
  qed
  then show ?thesis
  proof cases
    case 1
    with False spec(1) show ?thesis by (simp add: Base64Encode_def e)
  next
    case (2 a)
    have "Base64Encode bs = ret @ take 2 (map base64_char (base64_quad a 0 0)) @ ''==''"
      using False by (simp add: Base64Encode_def e 2 take_map numeral_2_eq_2)
    then show ?thesis unfolding sextets_quad spec(1) 2 by (simp del: base64_sextets.simps)
  next
    case (3 a b)
    have "Base64Encode bs = ret @ take 3 (map base64_char (base64_quad a b 0)) @ ''=''"
      using False by (simp add: Base64Encode_def e 3 take_map numeral_2_eq_2 numeral_3_eq_3)
    then show ?thesis unfolding sextets_quad spec(1) 3 by (simp del: base64_sextets.simps)
  qed
qed (simp add: Base64Encode_def)

text \<open>Decoding.\<close>

lemma dec_loop_ret:
  "base64_dec_loop xs g (r @ ret) = map_prod id ((@) r) (base64_dec_loop xs g ret)"
  by (induction xs g ret rule: base64_dec_loop.induct) (simp_all add: Let_def)

lemma dec_loop_quad:
  "base64_dec_loop (map base64_char (base64_quad a b c) @ xs) [] ret = base64_dec_loop xs [] (ret @ [a, b, c])"
proof -
  let ?q = "base64_quad a b c"
  have q: "?q = [?q ! 0, ?q ! 1, ?q ! 2, ?q ! 3]" unfolding base64_quad_def by simp
  have lt: "unat (?q ! 0) < 64" "unat (?q ! 1) < 64" "unat (?q ! 2) < 64" "unat (?q ! 3) < 64"
    by (rule quad_nth_less; simp)+
  have "base64_dec_loop (map base64_char [?q ! 0, ?q ! 1, ?q ! 2, ?q ! 3] @ xs) [] ret =
      base64_dec_loop xs [] (ret @ base64_triple (?q ! 0) (?q ! 1) (?q ! 2) (?q ! 3))"
    using lt by (simp add: base64_char_ok find_char)
  then show ?thesis unfolding q [symmetric] triple_quad .
qed

definition base64_dec_tail :: "string \<times> bytes \<Rightarrow> bytes" where
  "base64_dec_tail r = (case r of (g, ret) \<Rightarrow>
     if length g \<noteq> 0 then
       (let i = length g; w = map base64_find (g @ replicate (4 - i) (CHR 0x00))
        in ret @ take (i - 1) (base64_triple (w ! 0) (w ! 1) (w ! 2) (w ! 3)))
     else ret)"

lemma Base64Decode_tail: "Base64Decode str = base64_dec_tail (base64_dec_loop str [] [])"
  by (simp add: Base64Decode_def base64_dec_tail_def)

lemma dec_tail_ret: "base64_dec_tail (map_prod id ((@) r) p) = r @ base64_dec_tail p"
  by (cases p) (simp add: base64_dec_tail_def Let_def)

lemma triple_take:
  "take 1 (base64_triple a b c d) = take 1 (base64_triple a b c' d')"
  "take 2 (base64_triple a b c d) = take 2 (base64_triple a b c d')"
  unfolding base64_triple_def by simp_all

lemma decode_spec: "Base64Decode (base64_spec bs) = bs"
proof (induction bs rule: base64_spec.induct)
  case (2 a)
  let ?q = "base64_quad a 0 0"
  have q: "take 2 ?q = [?q ! 0, ?q ! 1]" unfolding base64_quad_def by simp
  have lt: "unat (?q ! 0) < 64" "unat (?q ! 1) < 64" by (rule quad_nth_less; simp)+
  have "base64_spec [a] = map base64_char [?q ! 0, ?q ! 1] @ ''==''"
    unfolding q [symmetric] take_map [symmetric] sextets_quad by (simp del: base64_sextets.simps)
  then have "Base64Decode (base64_spec [a]) =
      take 1 (base64_triple (?q ! 0) (?q ! 1) (base64_find (CHR 0x00)) (base64_find (CHR 0x00)))"
    using lt by (simp add: Base64Decode_tail base64_dec_tail_def base64_char_ok find_char numeral_2_eq_2)
  also have "\<dots> = take 1 (base64_triple (?q ! 0) (?q ! 1) (?q ! 2) (?q ! 3))" by (rule triple_take)
  finally show ?case unfolding triple_quad by simp
next
  case (3 a b)
  let ?q = "base64_quad a b 0"
  have q: "take 3 ?q = [?q ! 0, ?q ! 1, ?q ! 2]" unfolding base64_quad_def by simp
  have lt: "unat (?q ! 0) < 64" "unat (?q ! 1) < 64" "unat (?q ! 2) < 64"
    by (rule quad_nth_less; simp)+
  have "base64_spec [a, b] = map base64_char [?q ! 0, ?q ! 1, ?q ! 2] @ ''=''"
    unfolding q [symmetric] take_map [symmetric] sextets_quad by (simp del: base64_sextets.simps)
  then have "Base64Decode (base64_spec [a, b]) =
      take 2 (base64_triple (?q ! 0) (?q ! 1) (?q ! 2) (base64_find (CHR 0x00)))"
    using lt by (simp add: Base64Decode_tail base64_dec_tail_def base64_char_ok find_char del: base64_spec.simps flip: numeral_2_eq_2)
  also have "\<dots> = take 2 (base64_triple (?q ! 0) (?q ! 1) (?q ! 2) (?q ! 3))" by (rule triple_take)
  finally show ?case unfolding triple_quad by simp
next
  case (4 a b c xs)
  have "base64_dec_loop (base64_spec (a # b # c # xs)) [] [] = base64_dec_loop (base64_spec xs) [] [a, b, c]"
    using dec_loop_quad [of a b c "base64_spec xs" "[]"] by (simp add: sextets_quad del: base64_sextets.simps)
  also have "\<dots> = map_prod id ((@) [a, b, c]) (base64_dec_loop (base64_spec xs) [] [])"
    using dec_loop_ret [of _ _ "[a, b, c]" "[]"] by simp
  finally show ?case using 4 by (simp only: Base64Decode_tail dec_tail_ret) simp
qed (simp add: Base64Decode_def)

lemma dec_loop_stop:
  "\<not> (ch \<noteq> CHR ''='' \<and> is_base64 ch) \<Longrightarrow> base64_dec_loop (xs @ ch # ys) g ret = base64_dec_loop xs g ret"
  by (induction xs g ret rule: base64_dec_loop.induct) (auto simp: Let_def)

lemma length_dec_loop:
  "\<forall>ch\<in>set xs. is_base64 ch \<and> ch \<noteq> CHR ''='' \<Longrightarrow> length g < 4 \<Longrightarrow>
   base64_dec_loop xs g ret = (g', ret') \<Longrightarrow>
   length g' = (length g + length xs) mod 4 \<and> length ret' = length ret + 3 * ((length g + length xs) div 4)"
proof (induction xs g ret rule: base64_dec_loop.induct)
  case (2 x xs g ret)
  show ?case
  proof (cases "length (g @ [x]) = 4")
    case True
    then have "length g = 3" by simp
    moreover have "(4 + length xs) div 4 = Suc (length xs div 4)" by simp
    ultimately show ?thesis using 2 True by (simp add: Let_def base64_triple_def)
  next
    case False
    with 2 show ?thesis by (simp add: Let_def)
  qed
qed simp

lemma bits_to_bytes: "3 * (n div 4) + (n mod 4 - 1) = 6 * n div (8 :: nat)"
proof -
  define q r where "q = n div 4" and "r = n mod 4"
  have n: "n = 4 * q + r" and r: "r < 4" by (simp_all add: q_def r_def)
  have "6 * n div 8 = (6 * r + 3 * q * 8) div 8" unfolding n by (simp add: algebra_simps)
  also have "\<dots> = 3 * q + 6 * r div 8" by simp
  also have "6 * r div 8 = r - 1"
  proof -
    consider "r = 0" | "r = 1" | "r = 2" | "r = 3" using r by linarith
    then show ?thesis by cases simp_all
  qed
  finally show ?thesis by (simp add: q_def r_def)
qed

section \<open>Properties\<close>

text \<open>C26: \<open>Base64Encode\<close> with its group loop computes the RFC 4648 encoding: each group of three bytes as
  a 24-bit number in four base-64 digits, the last group padded.\<close>

theorem Base64Encode_rfc: "Base64Encode bs = base64_spec bs"
  by (rule Base64Encode_spec)

text \<open>Decoding an encoded byte string gives it back, whatever its length modulo three.\<close>

theorem Base64_roundtrip:
  "Base64Decode (Base64Encode bs) = bs"
  unfolding Base64Encode_spec by (rule decode_spec)

text \<open>The decoder stops at the first character outside the alphabet, and a text of \<open>n\<close> alphabet
  characters gives \<open>6 n div 8\<close> bytes: a dangling character of an incomplete group is dropped and the
  \<open>npos\<close> of the fill characters never reaches the output's length.\<close>

theorem Base64Decode_stops:
  assumes "\<forall>ch\<in>set str. is_base64 ch" and "\<not> is_base64 stop"
  shows "Base64Decode (str @ stop # rest) = Base64Decode str \<and> length (Base64Decode str) = 6 * length str div 8"
proof
  show "Base64Decode (str @ stop # rest) = Base64Decode str"
    using assms(2) by (simp add: Base64Decode_tail dec_loop_stop)
  obtain g ret where e: "base64_dec_loop str [] [] = (g, ret)" by fastforce
  have "\<forall>ch\<in>set str. is_base64 ch \<and> ch \<noteq> CHR ''=''"
    using assms(1) by (auto simp: is_base64_def is_alnum_def)
  from length_dec_loop [OF this _ e] have "length g = length str mod 4" "length ret = 3 * (length str div 4)" by simp_all
  then have "length (Base64Decode str) = 3 * (length str div 4) + (length str mod 4 - 1)"
    by (auto simp: Base64Decode_tail e base64_dec_tail_def Let_def base64_triple_def min_def)
  also have "\<dots> = 6 * length str div 8" by (rule bits_to_bytes)
  finally show "length (Base64Decode str) = 6 * length str div 8" .
qed

theorem Base64Decode_stops_witness:
  "Base64Decode (''aGVsbG8'' @ CHR ''='' # ''junk'') = Base64Decode ''aGVsbG8'' \<and>
   length (Base64Decode ''aGVsbG8'') = 6 * length ''aGVsbG8'' div 8"
  by (rule Base64Decode_stops) (simp_all add: is_base64_def is_alnum_def)

end
