(* ===== verification/Handler_Dispatch.thy ===== *)
theory Handler_Dispatch
  imports Object_Pool Tcp_Packet
begin

text \<open>
  From a message id to the handler object and the function to call:
  \<^verbatim>\<open>Gamnet/Network/HandlerContainer.cpp\<close> (handlers bound to a session, each found once),
  \<^verbatim>\<open>HandlerFactory.h\<close> (the three ways of getting a handler) and the TCP dispatcher of
  \<^verbatim>\<open>Gamnet/Network/Tcp/Dispatcher.h\<close>. Handler objects are pointers of a type \<open>'h\<close>, the rest of the server
  is a state \<open>'w\<close>. The call statistics that exist only in debug builds are left out.
\<close>

section \<open>Interface: a table whose entries are taken once\<close>

locale one_shot_table =
  fixes contents :: "'t \<Rightarrow> 'k \<Rightarrow> 'v option"
    and add :: "'k \<Rightarrow> 'v \<Rightarrow> 't \<Rightarrow> 't"
    and take_out :: "'k \<Rightarrow> 't \<Rightarrow> 'v option \<times> 't"
  assumes take_result: "fst (take_out k t) = contents t k"
    and take_contents: "contents (snd (take_out k t)) = (contents t)(k := None)"
    and add_fresh: "contents t k = None \<Longrightarrow> contents (add k v t) = (contents t)(k := Some v)"
begin

text \<open>The answers to a sequence of requests.\<close>

fun answers :: "'k list \<Rightarrow> 't \<Rightarrow> 'v option list" where
  "answers [] t = []"
| "answers (k # ks) t = fst (take_out k t) # answers ks (snd (take_out k t))"

lemma answers_absent: "contents t k = None \<Longrightarrow> \<forall>i<length ks. ks ! i = k \<longrightarrow> answers ks t ! i = None"
proof (induction ks arbitrary: t)
  case (Cons x ks)
  have "contents (snd (take_out x t)) k = None" using Cons.prems by (simp add: take_contents)
  from Cons.IH [OF this] Cons.prems show ?case
    by (auto simp: take_result nth_Cons split: nat.splits)
qed simp

text \<open>An entry is delivered to the first request for its key and to no later one.\<close>

lemma answers_once:
  "contents t k = Some v \<Longrightarrow>
   \<forall>i<length ks. ks ! i = k \<longrightarrow> answers ks t ! i = (if k \<in> set (take i ks) then None else Some v)"
proof (induction ks arbitrary: t)
  case (Cons x ks)
  show ?case
  proof (cases "x = k")
    case True
    then have "contents (snd (take_out x t)) k = None" by (simp add: take_contents)
    from answers_absent [OF this, of ks] True Cons.prems show ?thesis
      by (auto simp: take_result nth_Cons split: nat.splits)
  next
    case False
    then have "contents (snd (take_out x t)) k = Some v" using Cons.prems by (simp add: take_contents)
    from Cons.IH [OF this] False show ?thesis
      by (auto simp: take_result nth_Cons split: nat.splits)
  qed
qed simp

lemma added_once:
  "contents t k = None \<Longrightarrow> i < length ks \<Longrightarrow> ks ! i = k \<Longrightarrow>
   answers ks (add k v t) ! i = (if k \<in> set (take i ks) then None else Some v)"
  using answers_once [of "add k v t" k v ks] by (simp add: add_fresh)

end

section \<open>The handler container\<close>

type_synonym 'h container = "u32 \<Rightarrow> 'h option"

definition container_Init :: "'h container \<Rightarrow> 'h container" where
  "container_Init c = Map.empty"

definition container_Find :: "u32 \<Rightarrow> 'h container \<Rightarrow> 'h option \<times> 'h container" where
  "container_Find msg_id c =
     (case c msg_id of None \<Rightarrow> (None, c) | Some handler \<Rightarrow> (Some handler, c(msg_id := None)))"

definition container_Register :: "u32 \<Rightarrow> 'h \<Rightarrow> 'h container \<Rightarrow> 'h container" where
  "container_Register msg_seq handler c = c(msg_seq := Some handler)"

text \<open>\<open>IHandler::BindMessage<MSG>\<close> registers the handler itself under the message's id.\<close>

definition BindMessage :: "u32 \<Rightarrow> 'h \<Rightarrow> 'h container \<Rightarrow> 'h container" where
  "BindMessage msg_id self c = container_Register msg_id self c"

interpretation container: one_shot_table "\<lambda>c. c" container_Register container_Find
  by unfold_locales (auto simp: container_Find_def container_Register_def split: option.splits)

section \<open>Handler factories\<close>

datatype factory_type = HANDLER_FACTORY_CREATE | HANDLER_FACTORY_STATIC | HANDLER_FACTORY_FIND

datatype 'h handler_factory = HandlerCreate "'h pool" | HandlerStatic 'h | HandlerFind

definition new_HandlerCreate :: "'h handler_factory" where
  "new_HandlerCreate = HandlerCreate (new_pool 65535)"

fun GetFactoryType :: "'h handler_factory \<Rightarrow> factory_type" where
  "GetFactoryType (HandlerCreate _) = HANDLER_FACTORY_CREATE"
| "GetFactoryType (HandlerStatic _) = HANDLER_FACTORY_STATIC"
| "GetFactoryType HandlerFind = HANDLER_FACTORY_FIND"

text \<open>\<open>GetHandler\<close>; \<open>fresh\<close> is the object that a pool with no free one constructs.\<close>

fun GetHandler :: "'h \<Rightarrow> 'h handler_factory \<Rightarrow> 'h container option \<Rightarrow> u32
    \<Rightarrow> 'h option \<times> 'h handler_factory \<times> 'h container option" where
  "GetHandler fresh (HandlerCreate p) c msg_seq =
     (case pool_Create (Made fresh) p of
        (Ret h, p') \<Rightarrow> (h, HandlerCreate p', c)
      | (_, p') \<Rightarrow> (None, HandlerCreate p', c))"
| "GetHandler fresh (HandlerStatic h) c msg_seq = (Some h, HandlerStatic h, c)"
| "GetHandler fresh HandlerFind None msg_seq = (None, HandlerFind, None)"
| "GetHandler fresh HandlerFind (Some c) msg_seq =
     (case container_Find msg_seq c of (h, c') \<Rightarrow> (h, HandlerFind, Some c'))"

section \<open>The TCP dispatcher\<close>

text \<open>A registered function acts on the session's container and the server, and may end with an
  exception (its code).\<close>

record ('h, 'w) handler_function =
  hf_factory :: "'h handler_factory"
  hf_function :: "'h \<Rightarrow> packet \<Rightarrow> 'h container \<times> 'w \<Rightarrow> ('h container \<times> 'w) \<times> int option"

record ('h, 'w) tcp_dispatch =
  mapHandlerFunction :: "u32 \<Rightarrow> ('h, 'w) handler_function option"
  handler_container :: "'h container"
  td_world :: 'w

definition tcp_RegisterHandler ::
  "u32 \<Rightarrow> ('h, 'w) handler_function \<Rightarrow> (u32 \<Rightarrow> ('h, 'w) handler_function option)
     \<Rightarrow> (u32 \<Rightarrow> ('h, 'w) handler_function option) outcome" where
  "tcp_RegisterHandler msg_id handlerFunction m =
     (case m msg_id of None \<Rightarrow> Ret (m(msg_id := Some handlerFunction)) | Some _ \<Rightarrow> Throw 0)"

text \<open>\<open>Dispatcher::OnRecvMsg\<close>; \<open>on_error\<close> is \<open>session->link->OnError\<close>. An exception of the handler is
  caught: what the handler did before stays.\<close>

definition tcp_Dispatcher_OnRecvMsg ::
  "(int \<Rightarrow> 'w \<Rightarrow> 'w) \<Rightarrow> 'h \<Rightarrow> packet \<Rightarrow> ('h, 'w) tcp_dispatch \<Rightarrow> ('h, 'w) tcp_dispatch" where
  "tcp_Dispatcher_OnRecvMsg on_error fresh packet d =
     (let msg_id = pkt_GetID packet in
      case mapHandlerFunction d msg_id of
        None \<Rightarrow> d\<lparr>td_world := on_error NullPointerError (td_world d)\<rparr>
      | Some hf \<Rightarrow>
          (case GetHandler fresh (hf_factory hf) (Some (handler_container d)) msg_id of
             (handler, factory, container) \<Rightarrow>
               (let d = d\<lparr>mapHandlerFunction := (mapHandlerFunction d)(msg_id := Some (hf\<lparr>hf_factory := factory\<rparr>)),
                          handler_container := the container\<rparr>
                in case handler of
                     None \<Rightarrow> d\<lparr>td_world := on_error NullPointerError (td_world d)\<rparr>
                   | Some h \<Rightarrow>
                       (case hf_function hf h packet (handler_container d, td_world d) of
                          ((c, w), _) \<Rightarrow> d\<lparr>handler_container := c, td_world := w\<rparr>))))"

section \<open>The dispatcher over time\<close>

inductive dispatch_step :: "('h, 'w) tcp_dispatch \<Rightarrow> ('h, 'w) tcp_dispatch \<Rightarrow> bool" where
  registers: "tcp_RegisterHandler k hf (mapHandlerFunction d) = Ret m \<Longrightarrow>
    dispatch_step d (d\<lparr>mapHandlerFunction := m\<rparr>)"
| receives: "dispatch_step d (tcp_Dispatcher_OnRecvMsg on_error fresh p d)"

text \<open>An id stays registered with the function it was registered with, and its factory keeps its type.\<close>

definition registered :: "u32 \<Rightarrow> ('h, 'w) handler_function \<Rightarrow> ('h, 'w) tcp_dispatch \<Rightarrow> bool" where
  "registered k hf d \<longleftrightarrow> (\<exists>f. mapHandlerFunction d k = Some (hf\<lparr>hf_factory := f\<rparr>) \<and>
     GetFactoryType f = GetFactoryType (hf_factory hf) \<and>
     (\<forall>h. hf_factory hf = HandlerStatic h \<longrightarrow> f = HandlerStatic h))"

lemma GetHandler_type:
  "GetFactoryType (fst (snd (GetHandler fresh f c k))) = GetFactoryType f"
  "f = HandlerStatic h \<Longrightarrow> fst (snd (GetHandler fresh f c k)) = f"
  by (cases "(fresh, f, c, k)" rule: GetHandler.cases; simp split: prod.splits outcome.splits)+

lemma OnRecvMsg_table:
  "mapHandlerFunction (tcp_Dispatcher_OnRecvMsg on_error fresh p d) =
     (case mapHandlerFunction d (pkt_GetID p) of
        None \<Rightarrow> mapHandlerFunction d
      | Some hf \<Rightarrow> (mapHandlerFunction d)(pkt_GetID p :=
          Some (hf\<lparr>hf_factory := fst (snd (GetHandler fresh (hf_factory hf) (Some (handler_container d)) (pkt_GetID p)))\<rparr>)))"
  by (simp add: tcp_Dispatcher_OnRecvMsg_def Let_def split: option.splits prod.splits)

lemma registered_step:
  assumes "registered k hf d" and "dispatch_step d d'"
  shows "registered k hf d'"
  using assms(2)
proof cases
  case (registers k' hf' m)
  with assms(1) show ?thesis by (auto simp: registered_def tcp_RegisterHandler_def split: option.splits)
next
  case (receives on_error fresh p)
  obtain f where f: "mapHandlerFunction d k = Some (hf\<lparr>hf_factory := f\<rparr>)"
    "GetFactoryType f = GetFactoryType (hf_factory hf)" "\<forall>h. hf_factory hf = HandlerStatic h \<longrightarrow> f = HandlerStatic h"
    using assms(1) unfolding registered_def by blast
  show ?thesis
  proof (cases "pkt_GetID p = k")
    case True
    let ?f = "fst (snd (GetHandler fresh f (Some (handler_container d)) k))"
    have "mapHandlerFunction d' k = Some (hf\<lparr>hf_factory := ?f\<rparr>)"
      using f(1) True by (simp add: receives OnRecvMsg_table)
    moreover have "GetFactoryType ?f = GetFactoryType (hf_factory hf)" using f(2) by (simp add: GetHandler_type)
    moreover have "\<forall>h. hf_factory hf = HandlerStatic h \<longrightarrow> ?f = HandlerStatic h" using f(3) by (simp add: GetHandler_type)
    ultimately show ?thesis unfolding registered_def by blast
  next
    case False
    then have "mapHandlerFunction d' k = mapHandlerFunction d k"
      by (simp add: receives OnRecvMsg_table split: option.splits)
    with assms(1) show ?thesis by (simp add: registered_def)
  qed
qed

interpretation dispatcher: invariant_system "registered k hf" dispatch_step "registered k hf" for k hf
  by unfold_locales (auto intro: registered_step)

section \<open>Properties\<close>

text \<open>A handler bound to a session for a message id is handed to the first later request for that id
  and to no other: among any sequence of requests, exactly the first one for the id gets it.\<close>

theorem bound_handler_found_once:
  assumes "c msg_id = None" and "i < length ids" and "ids ! i = msg_id"
  shows "container.answers ids (BindMessage msg_id h c) ! i = (if msg_id \<in> set (take i ids) then None else Some h)"
  unfolding BindMessage_def using assms by (rule container.added_once)

lemma bound_handler_found_once_witness:
  "container.answers [7, 3, 3] (BindMessage 3 ''h'' Map.empty) ! 2 = None"
  using bound_handler_found_once [of Map.empty 3 2 "[7, 3, 3]" "''h''"] by simp

text \<open>Once a message id is registered, whatever is registered or received afterwards, a second
  registration of it throws, its function and the kind of its factory never change, and a static handler
  stays the same object.\<close>

theorem registered_forever:
  assumes "tcp_RegisterHandler k hf (mapHandlerFunction d) = Ret m" and "dispatch_step\<^sup>*\<^sup>* (d\<lparr>mapHandlerFunction := m\<rparr>) d'"
  shows "tcp_RegisterHandler k hf' (mapHandlerFunction d') = Throw 0 \<and>
    (\<exists>f. mapHandlerFunction d' k = Some (hf\<lparr>hf_factory := f\<rparr>) \<and>
       GetFactoryType f = GetFactoryType (hf_factory hf) \<and>
       (\<forall>h. hf_factory hf = HandlerStatic h \<longrightarrow> f = HandlerStatic h))"
proof -
  have "mapHandlerFunction (d\<lparr>mapHandlerFunction := m\<rparr>) k = Some (hf\<lparr>hf_factory := hf_factory hf\<rparr>)"
    using assms(1) by (auto simp: tcp_RegisterHandler_def split: option.splits)
  then have "registered k hf (d\<lparr>mapHandlerFunction := m\<rparr>)"
    unfolding registered_def by (intro exI [of _ "hf_factory hf"]) simp
  from dispatcher.inv_reachable [OF this assms(2)] obtain f where
    "mapHandlerFunction d' k = Some (hf\<lparr>hf_factory := f\<rparr>)" "GetFactoryType f = GetFactoryType (hf_factory hf)"
    "\<forall>h. hf_factory hf = HandlerStatic h \<longrightarrow> f = HandlerStatic h" unfolding registered_def by blast
  then show ?thesis by (intro conjI exI [of _ f]) (simp_all add: tcp_RegisterHandler_def)
qed

definition echo_handler :: "(nat, nat) handler_function" where
  "echo_handler = \<lparr>hf_factory = HandlerStatic 5, hf_function = (\<lambda>h p (c, w). ((c, w + h), None))\<rparr>"

lemma registered_forever_witness:
  "tcp_RegisterHandler 0 echo_handler
     (mapHandlerFunction (tcp_Dispatcher_OnRecvMsg (\<lambda>_ w. w) 0 new_packet
       \<lparr>mapHandlerFunction = Map.empty(0 := Some echo_handler), handler_container = Map.empty, td_world = 2\<rparr>)) = Throw 0"
proof -
  let ?d = "\<lparr>mapHandlerFunction = Map.empty, handler_container = Map.empty, td_world = 2\<rparr>"
  have r: "tcp_RegisterHandler 0 echo_handler (mapHandlerFunction ?d) = Ret (Map.empty(0 := Some echo_handler))"
    by (simp add: tcp_RegisterHandler_def)
  have "dispatch_step\<^sup>*\<^sup>* (?d\<lparr>mapHandlerFunction := Map.empty(0 := Some echo_handler)\<rparr>)
      (tcp_Dispatcher_OnRecvMsg (\<lambda>_ w. w) 0 new_packet (?d\<lparr>mapHandlerFunction := Map.empty(0 := Some echo_handler)\<rparr>))"
    by (rule r_into_rtranclp) (rule dispatch_step.receives)
  from registered_forever [OF r this] show ?thesis by simp
qed

text \<open>The answer to a request: when the id is served by a find factory and a handler is bound, the
  first message with the id calls the function with that handler and its container entry gone; if that
  call binds no new handler, a second such message closes the link with \<open>NullPointerError\<close> and calls
  nothing.\<close>

theorem late_answer_closes_link:
  assumes "pkt_GetID p = k" and "pkt_GetID q = k"
    and "mapHandlerFunction d k = Some hf" and "hf_factory hf = HandlerFind" and "handler_container d k = Some h"
    and "hf_function hf h p ((handler_container d)(k := None), td_world d) = ((c, w), thrown)" and "c k = None"
  shows "tcp_Dispatcher_OnRecvMsg on_error fresh q (tcp_Dispatcher_OnRecvMsg on_error fresh p d) =
    d\<lparr>handler_container := c, td_world := on_error NullPointerError w\<rparr>"
proof -
  have tab: "(mapHandlerFunction d)(k := Some (hf\<lparr>hf_factory := HandlerFind\<rparr>)) = mapHandlerFunction d"
    using assms(3,4) by (auto simp flip: assms(4))
  have "tcp_Dispatcher_OnRecvMsg on_error fresh p d = d\<lparr>handler_container := c, td_world := w\<rparr>"
    using assms(1,3-6) tab by (simp add: tcp_Dispatcher_OnRecvMsg_def Let_def container_Find_def)
  then show ?thesis
    using assms(2-4,7) tab by (simp add: tcp_Dispatcher_OnRecvMsg_def Let_def container_Find_def)
qed

lemma late_answer_closes_link_witness:
  "td_world (tcp_Dispatcher_OnRecvMsg (\<lambda>e w. w + nat e) 0 new_packet
     (tcp_Dispatcher_OnRecvMsg (\<lambda>e w. w + nat e) 0 new_packet
       \<lparr>mapHandlerFunction = Map.empty(pkt_GetID new_packet := Some (echo_handler\<lparr>hf_factory := HandlerFind\<rparr>)),
        handler_container = Map.empty(pkt_GetID new_packet := Some 5), td_world = 2\<rparr>)) = 67"
  using late_answer_closes_link [of new_packet "pkt_GetID new_packet" new_packet
      "\<lparr>mapHandlerFunction = Map.empty(pkt_GetID new_packet := Some (echo_handler\<lparr>hf_factory := HandlerFind\<rparr>)),
        handler_container = Map.empty(pkt_GetID new_packet := Some 5), td_world = 2\<rparr>"
      "echo_handler\<lparr>hf_factory := HandlerFind\<rparr>" 5 Map.empty 7 None "\<lambda>e w. w + nat e" 0]
  by (simp add: echo_handler_def NullPointerError_def)

end
