(* ===== verification/Tcp_Framing.thy ===== *)
theory Tcp_Framing
  imports Tcp_Packet
begin

text \<open>
  The receive path of a TCP session, \<open>LinkManager<SESSION_T>::OnRecvMsg\<close> in
  \<^verbatim>\<open>Gamnet/Network/Tcp/LinkManager.h\<close>: received bytes are appended to the session's packet, and as
  long as a complete frame is in front it is dispatched and removed, what is left moving into a
  fresh packet. The rest of the server is a state \<open>'w\<close> that the loop hands to the dispatcher, to
  \<open>link->OnError\<close>, and to the packet pool. The specification cuts the byte stream into frames,
  without buffers; the loop is proved to implement it whatever the segmentation of the stream.
\<close>

section \<open>The loop\<close>

text \<open>What the loop calls. \<open>rx_create w\<close> is what the packet pool would hand out now (\<open>Packet::Create\<close>
  returns \<open>NULL\<close> when the pool is exhausted; \<open>Packet::Init\<close> has still to be applied).
  \<open>rx_dispatch\<close> is \<open>Dispatcher::OnRecvMsg\<close>, which lets no exception out. \<open>rx_error\<close> is
  \<open>link->OnError\<close>.\<close>

record 'w rx_env =
  rx_create :: "'w \<Rightarrow> packet option"
  rx_dispatch :: "packet \<Rightarrow> 'w \<Rightarrow> 'w"
  rx_error :: "int \<Rightarrow> 'w \<Rightarrow> 'w"

text \<open>The members of \<open>Tcp::Session\<close> that the receive path uses.\<close>

record tcp_session =
  ses_recv_packet :: packet
  ses_msg_seq :: u32

text \<open>Linux \<open>errno\<close> values.\<close>

definition EOVERFLOW :: int where "EOVERFLOW = 75"
definition EINVAL :: int where "EINVAL = 22"

lemma buf_Remove_Size: "0 < buf_Size b \<Longrightarrow> 0 < unat n \<Longrightarrow> buf_Size (buf_Remove n b) < buf_Size b"
  by (auto simp: buf_Remove_def buf_Size_def Let_def)

lemma buf_Append_Init_Size: "buf_Append xs (pkt_Init p) = Ret q \<Longrightarrow> buf_Size q = length xs"
  by (auto simp: buf_Append_def buf_Available_def pkt_Init_def buf_Clear_def buf_Size_def split: if_splits)

text \<open>One pass of the \<open>while\<close>, its condition included: \<open>Some True\<close> when it ended through
  \<open>link->OnError\<close>, \<open>Some False\<close> when it ended otherwise, \<open>None\<close> when it goes on.\<close>

definition rx_step :: "'w rx_env \<Rightarrow> 'w \<Rightarrow> tcp_session \<Rightarrow> (bool option \<times> 'w \<times> tcp_session) outcome" where
  "rx_step env w s =
     (if HEADER_SIZE \<le> buf_Size (ses_recv_packet s) then
        (let totalLength = pkt_GetLength (ses_recv_packet s) in
         if HEADER_SIZE > unat totalLength then Ret (Some True, rx_error env EOVERFLOW w, s)
         else if unat totalLength \<ge> buf_Capacity (ses_recv_packet s) then Ret (Some True, rx_error env EOVERFLOW w, s)
         else if unat totalLength > buf_Size (ses_recv_packet s) mod 2 ^ 16 then Ret (Some False, w, s)
         else
           (let msg_seq = pkt_GetSEQ (ses_recv_packet s);
                (w, s) = (if msg_seq > ses_msg_seq s
                          then (rx_dispatch env (ses_recv_packet s) w, s\<lparr>ses_msg_seq := msg_seq\<rparr>)
                          else (w, s));
                s = s\<lparr>ses_recv_packet := buf_Remove totalLength (ses_recv_packet s)\<rparr>
            in if 0 < buf_Size (ses_recv_packet s) then
                 (case rx_create env w of
                    None \<Rightarrow> Ret (Some True, rx_error env EOVERFLOW w, s)
                  | Some p \<Rightarrow>
                      bind_outcome
                        (buf_Append (buf_read (buf_Size (ses_recv_packet s)) (ses_recv_packet s)) (pkt_Init p))
                        (\<lambda>p. Ret (None, w, s\<lparr>ses_recv_packet := p\<rparr>)))
               else Ret (None, w, s)))
      else Ret (Some False, w, s))"

lemma rx_step_Size:
  assumes "rx_step env w s = Ret (None, w', s')"
  shows "buf_Size (ses_recv_packet s') < buf_Size (ses_recv_packet s)"
proof -
  let ?q = "buf_Remove (pkt_GetLength (ses_recv_packet s)) (ses_recv_packet s)"
  have lt: "HEADER_SIZE \<le> buf_Size (ses_recv_packet s) \<Longrightarrow> HEADER_SIZE \<le> unat (pkt_GetLength (ses_recv_packet s)) \<Longrightarrow>
      buf_Size ?q < buf_Size (ses_recv_packet s)"
    by (rule buf_Remove_Size) (simp_all add: HEADER_SIZE_def)
  have le: "length (buf_read (buf_Size ?q) ?q) \<le> buf_Size ?q" by (simp add: buf_read_def slice_of_def)
  show ?thesis
    using assms lt le
    by (auto simp: rx_step_def Let_def bind_outcome_Ret_iff dest!: buf_Append_Init_Size
        split: if_splits option.splits prod.splits)
qed

function rx_loop :: "'w rx_env \<Rightarrow> 'w \<Rightarrow> tcp_session \<Rightarrow> (bool \<times> 'w \<times> tcp_session) outcome" where
  "rx_loop env w s =
     (case rx_step env w s of
        Ret (None, w, s) \<Rightarrow> rx_loop env w s
      | Ret (Some failed, w, s) \<Rightarrow> Ret (failed, w, s)
      | Throw e \<Rightarrow> Throw e
      | Undef \<Rightarrow> Undef)"
  by pat_completeness auto
termination
  by (relation "measure (\<lambda>(env, w, s). buf_Size (ses_recv_packet s))") (auto dest: rx_step_Size)

declare rx_loop.simps [simp del]

text \<open>\<open>OnRecvMsg\<close> for a link with a session: the bytes of the read buffer are appended first.\<close>

definition tcp_OnRecvMsg :: "'w rx_env \<Rightarrow> bytes \<Rightarrow> 'w \<Rightarrow> tcp_session \<Rightarrow> (bool \<times> 'w \<times> tcp_session) outcome" where
  "tcp_OnRecvMsg env buffer w s =
     bind_outcome (buf_Append buffer (ses_recv_packet s)) (\<lambda>p. rx_loop env w (s\<lparr>ses_recv_packet := p\<rparr>))"

text \<open>The link reads chunk after chunk until the socket is closed by an error.\<close>

fun tcp_receive :: "'w rx_env \<Rightarrow> bytes list \<Rightarrow> 'w \<Rightarrow> tcp_session \<Rightarrow> (bool \<times> 'w \<times> tcp_session) outcome" where
  "tcp_receive env [] w s = Ret (False, w, s)"
| "tcp_receive env (c # cs) w s =
     bind_outcome (tcp_OnRecvMsg env c w s)
       (\<lambda>(failed, w, s). if failed then Ret (True, w, s) else tcp_receive env cs w s)"

section \<open>Specification: cutting a byte stream into frames\<close>

datatype frame_parse = Incomplete | Malformed | Frame bytes bytes

definition next_frame :: "bytes \<Rightarrow> frame_parse" where
  "next_frame bs =
     (if length bs < HEADER_SIZE then Incomplete
      else (let n = unat (get_word (take 2 bs) :: u16) in
            if n < HEADER_SIZE \<or> Buffer_MAX_SIZE \<le> n then Malformed
            else if length bs < n then Incomplete
            else Frame (take n bs) (drop n bs)))"

definition frame_seq :: "bytes \<Rightarrow> u32" where
  "frame_seq f = get_word (slice_of OFFSET_MSGSEQ 4 f)"

definition frame_id :: "bytes \<Rightarrow> u32" where
  "frame_id f = get_word (slice_of OFFSET_MSGID 4 f)"

definition frame_body :: "bytes \<Rightarrow> bytes" where
  "frame_body f = drop HEADER_SIZE f"

lemma next_frame_Frame:
  assumes "next_frame bs = Frame f r"
  shows "bs = f @ r" and "HEADER_SIZE \<le> length f" and "length f < Buffer_MAX_SIZE" and "length r < length bs"
  using assms by (auto simp: next_frame_def Let_def HEADER_SIZE_def split: if_splits)

lemma next_frame_len: "next_frame bs = Frame f r \<Longrightarrow> unat (get_word (take 2 bs) :: u16) = length f"
  by (auto simp: next_frame_def Let_def split: if_splits)

lemma next_frame_prefix:
  assumes "next_frame f = Frame f []" and "n < length f"
  shows "next_frame (take n f) = Incomplete"
proof (cases "n < HEADER_SIZE")
  case True
  then have "length (take n f) < HEADER_SIZE" by simp
  then show ?thesis by (simp only: next_frame_def if_True)
next
  case False
  then have "take 2 (take n f) = take 2 f" by (simp add: HEADER_SIZE_def min_def)
  with False assms next_frame_len [OF assms(1)] next_frame_Frame [OF assms(1)] show ?thesis
    by (auto simp: next_frame_def Let_def)
qed

text \<open>Handling a stream: each complete frame whose sequence number is above the last one goes to
  \<open>handle\<close>.\<close>

function spec_stream ::
  "(bytes \<Rightarrow> 'w \<Rightarrow> 'w) \<Rightarrow> (int \<Rightarrow> 'w \<Rightarrow> 'w) \<Rightarrow> bytes \<Rightarrow> 'w \<Rightarrow> u32 \<Rightarrow> bool \<times> 'w \<times> u32 \<times> bytes" where
  "spec_stream handle err bs w seq =
     (case next_frame bs of
        Incomplete \<Rightarrow> (False, w, seq, bs)
      | Malformed \<Rightarrow> (True, err EOVERFLOW w, seq, bs)
      | Frame f r \<Rightarrow> (if frame_seq f > seq then spec_stream handle err r (handle f w) (frame_seq f)
                     else spec_stream handle err r w seq))"
  by pat_completeness auto
termination
  by (relation "measure (\<lambda>(handle, err, bs, w, seq). length bs)") (auto dest: next_frame_Frame)

declare spec_stream.simps [simp del]

lemma next_frame_more:
  "next_frame bs = Frame f r \<Longrightarrow> next_frame (bs @ xs) = Frame f (r @ xs)"
  "next_frame bs = Malformed \<Longrightarrow> next_frame (bs @ xs) = Malformed"
  by (auto simp: next_frame_def Let_def HEADER_SIZE_def split: if_splits)

text \<open>Handling a stream in two parts.\<close>

lemma spec_stream_append:
  "spec_stream handle err (bs @ xs) w seq =
     (case spec_stream handle err bs w seq of
        (failed, w', seq', rest) \<Rightarrow>
          if failed then (True, w', seq', rest @ xs) else spec_stream handle err (rest @ xs) w' seq')"
proof (induction handle err bs w seq rule: spec_stream.induct)
  case (1 handle err bs w seq)
  show ?case
  proof (cases "next_frame bs")
    case Incomplete
    then show ?thesis by (simp add: spec_stream.simps [of handle err bs])
  next
    case Malformed
    then show ?thesis
      using next_frame_more(2) by (simp add: spec_stream.simps [of handle err bs] spec_stream.simps [of handle err "bs @ xs"])
  next
    case (Frame f r)
    then show ?thesis
      using 1 next_frame_more(1) [OF Frame, of xs]
      by (simp add: spec_stream.simps [of handle err bs] spec_stream.simps [of handle err "bs @ xs"])
  qed
qed

text \<open>The frames of a stream, and those of them that a session with last sequence number \<open>seq\<close> handles.\<close>

function frames_of :: "bytes \<Rightarrow> bytes list" where
  "frames_of bs = (case next_frame bs of Frame f r \<Rightarrow> f # frames_of r | _ \<Rightarrow> [])"
  by pat_completeness auto
termination by (relation "measure length") (auto dest: next_frame_Frame)

declare frames_of.simps [simp del]

fun rising :: "u32 \<Rightarrow> bytes list \<Rightarrow> bytes list" where
  "rising seq [] = []"
| "rising seq (f # fs) = (if frame_seq f > seq then f # rising (frame_seq f) fs else rising seq fs)"

lemma rising_sorted: "sorted_wrt (<) (seq # map frame_seq (rising seq fs))"
proof (induction seq fs rule: rising.induct)
  case (2 seq f fs)
  show ?case
  proof (cases "frame_seq f > seq")
    case True
    with 2(1) have "\<forall>x\<in>set (map frame_seq (rising (frame_seq f) fs)). seq < x"
      by (auto dest: less_trans)
    with True 2(1) show ?thesis by simp
  qed (use 2 in simp)
qed simp

lemma rising_append: "rising seq (fs @ gs) = rising seq fs @ rising (last (seq # map frame_seq (rising seq fs))) gs"
  by (induction seq fs rule: rising.induct) auto

lemma rising_none: "\<forall>f\<in>set fs. frame_seq f \<le> seq \<Longrightarrow> rising seq fs = []"
  by (induction fs) auto

lemma rising_all: "sorted_wrt (<) (seq # map frame_seq fs) \<Longrightarrow> rising seq fs = fs"
  by (induction fs arbitrary: seq) auto

lemma spec_stream_frames:
  "spec_stream handle err bs w seq = (failed, w', seq', rest) \<Longrightarrow>
     w' = (if failed then err EOVERFLOW else id) (fold handle (rising seq (frames_of bs)) w) \<and>
     seq' = last (seq # map frame_seq (rising seq (frames_of bs))) \<and>
     bs = concat (frames_of bs) @ rest \<and> (failed \<longleftrightarrow> next_frame rest = Malformed)"
proof (induction handle err bs w seq rule: spec_stream.induct)
  case (1 handle err bs w seq)
  show ?case
  proof (cases "next_frame bs")
    case (Frame f r)
    have fr: "frames_of bs = f # frames_of r" using Frame by (simp add: frames_of.simps [of bs])
    have "spec_stream handle err bs w seq = (if frame_seq f > seq
        then spec_stream handle err r (handle f w) (frame_seq f) else spec_stream handle err r w seq)"
      using Frame by (simp add: spec_stream.simps [of handle err bs])
    with 1 Frame have main: "w' = (if failed then err EOVERFLOW else id) (fold handle (rising seq (f # frames_of r)) w) \<and>
        seq' = last (seq # map frame_seq (rising seq (f # frames_of r))) \<and>
        r = concat (frames_of r) @ rest \<and> (failed \<longleftrightarrow> next_frame rest = Malformed)"
      by (simp split: if_splits)
    then have "bs = concat (f # frames_of r) @ rest"
      by (metis append.assoc concat.simps(2) next_frame_Frame(1) [OF Frame])
    with main show ?thesis unfolding fr by blast
  next
    case Incomplete
    then have "frames_of bs = []" by (simp add: frames_of.simps [of bs])
    with 1(3) Incomplete show ?thesis by (simp add: spec_stream.simps [of handle err bs])
  next
    case Malformed
    then have "frames_of bs = []" by (simp add: frames_of.simps [of bs])
    with 1(3) Malformed show ?thesis by (simp add: spec_stream.simps [of handle err bs])
  qed
qed

section \<open>Refinement\<close>

definition session_ok :: "tcp_session \<Rightarrow> bool" where
  "session_ok s \<longleftrightarrow> pkt_ok (ses_recv_packet s) \<and> buf_aligned (ses_recv_packet s)"

abbreviation ses_content :: "tcp_session \<Rightarrow> bytes" where
  "ses_content s \<equiv> buf_content (ses_recv_packet s)"

text \<open>What the loop needs of the rest of the server: the packet pool has packets, and the dispatcher
  looks at the first frame of the packet only.\<close>

locale frame_handler =
  fixes env :: "'w rx_env" and handle :: "bytes \<Rightarrow> 'w \<Rightarrow> 'w"
  assumes create_ok: "\<exists>p. rx_create env w = Some p \<and> pkt_ok p"
    and dispatch_frame: "pkt_ok p \<Longrightarrow> buf_aligned p \<Longrightarrow> next_frame (buf_content p) = Frame f r \<Longrightarrow>
      rx_dispatch env p w = handle f w"

text \<open>The packet getters read the first frame.\<close>

lemma getters_frame:
  assumes "session_ok s" and "HEADER_SIZE \<le> buf_Size (ses_recv_packet s)"
  shows "pkt_GetLength (ses_recv_packet s) = get_word (take 2 (ses_content s))"
    and "pkt_GetSEQ (ses_recv_packet s) = get_word (slice_of OFFSET_MSGSEQ 4 (ses_content s))"
    and "pkt_GetID (ses_recv_packet s) = get_word (slice_of OFFSET_MSGID 4 (ses_content s))"
proof -
  let ?p = "ses_recv_packet s"
  have c: "buf_content ?p = take (writeCursor ?p) (bdata ?p)" "10 \<le> writeCursor ?p"
    using assms by (auto simp: session_ok_def buf_content_aligned buf_aligned_def buf_Size_def HEADER_SIZE_def)
  then show "pkt_GetLength ?p = get_word (take 2 (ses_content s))"
    "pkt_GetSEQ ?p = get_word (slice_of OFFSET_MSGSEQ 4 (ses_content s))"
    "pkt_GetID ?p = get_word (slice_of OFFSET_MSGID 4 (ses_content s))"
    by (simp_all add: pkt_GetLength_def pkt_GetSEQ_def pkt_GetID_def offsets slice_of_def min_def drop_take)
qed

lemma session_ok_Size: "session_ok s \<Longrightarrow> buf_Size (ses_recv_packet s) = length (ses_content s) \<and>
    length (ses_content s) \<le> Buffer_MAX_SIZE \<and> buf_Capacity (ses_recv_packet s) = Buffer_MAX_SIZE"
  by (auto simp: session_ok_def pkt_ok_def buf_Capacity_def buf_inv_def buf_Size_def)

text \<open>A packet whose content is \<open>bs\<close>, as a receive loop keeps it.\<close>

definition carries :: "packet \<Rightarrow> bytes \<Rightarrow> bool" where
  "carries p bs \<longleftrightarrow> pkt_ok p \<and> buf_aligned p \<and> buf_content p = bs"

lemma carries_facts:
  assumes "carries p bs"
  shows "buf_Size p = length bs" "buf_Capacity p = Buffer_MAX_SIZE" "length bs \<le> Buffer_MAX_SIZE" "buf_inv p"
    "HEADER_SIZE \<le> length bs \<Longrightarrow> pkt_GetLength p = get_word (take 2 bs)"
proof -
  define s where "s = \<lparr>ses_recv_packet = p, ses_msg_seq = 0\<rparr>"
  have s: "session_ok s" "ses_recv_packet s = p" "ses_content s = bs" using assms by (simp_all add: s_def session_ok_def carries_def)
  from session_ok_Size [OF s(1)] show sz: "buf_Size p = length bs" "buf_Capacity p = Buffer_MAX_SIZE" "length bs \<le> Buffer_MAX_SIZE"
    using s by simp_all
  show "buf_inv p" using assms by (simp add: carries_def buf_aligned_def)
  show "HEADER_SIZE \<le> length bs \<Longrightarrow> pkt_GetLength p = get_word (take 2 bs)"
    using getters_frame(1) [OF s(1)] s sz by simp
qed

lemma carries_clear: "pkt_ok p \<Longrightarrow> carries (buf_Clear p) []"
  using pkt_ok_Init [of p] by (simp add: carries_def pkt_Init_def)

lemma carries_append: "carries p bs \<Longrightarrow> length bs + length xs \<le> Buffer_MAX_SIZE \<Longrightarrow> \<exists>p'. buf_Append xs p = Ret p' \<and> carries p' (bs @ xs)"
proof -
  assume c: "carries p bs" and len: "length bs + length xs \<le> Buffer_MAX_SIZE"
  then have "buf_aligned p" "length (buf_content p) + length xs \<le> buf_Capacity p"
    using carries_facts(2) [OF c] by (simp_all add: carries_def)
  from buf_Append_aligned [OF this] c show ?thesis
    by (auto simp: carries_def pkt_ok_def buf_aligned_def buf_Capacity_def)
qed

lemma carries_moved: "pkt_ok p \<Longrightarrow> length r \<le> Buffer_MAX_SIZE \<Longrightarrow> \<exists>p'. buf_Append r (pkt_Init p) = Ret p' \<and> carries p' r"
  using carries_append [of "pkt_Init p" "[]" r] carries_clear [of p] by (simp add: pkt_Init_def)

text \<open>The first frame is removed.\<close>

lemma carries_frame:
  assumes c: "carries p bs" and fr: "next_frame bs = Frame f r"
  shows "HEADER_SIZE \<le> length bs" "unat (pkt_GetLength p) = length f" "pkt_ok (buf_Remove (pkt_GetLength p) p)"
    "buf_Size (buf_Remove (pkt_GetLength p) p) = length r" "buf_read (length r) (buf_Remove (pkt_GetLength p) p) = r"
    "length r \<le> Buffer_MAX_SIZE"
proof -
  note facts = carries_facts [OF c] and nf = next_frame_Frame [OF fr]
  let ?q = "buf_Remove (pkt_GetLength p) p"
  show hs: "HEADER_SIZE \<le> length bs" using nf by simp
  show len: "unat (pkt_GetLength p) = length f" using facts(5) [OF hs] next_frame_len [OF fr] by simp
  have q: "buf_content ?q = r" "buf_inv ?q"
    using buf_Remove_content [OF facts(4), of "pkt_GetLength p"] buf_Remove_inv [OF facts(4)] len nf(1) c
    by (simp_all add: carries_def)
  have "bufSize ?q = Buffer_MAX_SIZE" using buf_Remove_Capacity [of "pkt_GetLength p" p] facts(2) by (simp add: buf_Capacity_def)
  with q(2) show "pkt_ok ?q" by (simp add: pkt_ok_def)
  show qs: "buf_Size ?q = length r" using length_buf_content [OF q(2)] q(1) by simp
  show "buf_read (length r) ?q = r" using buf_read_Size [of ?q] q(1) qs by simp
  show "length r \<le> Buffer_MAX_SIZE" using facts(3) nf(4) by simp
qed

lemma rx_step_stops:
  assumes "session_ok s"
  shows "next_frame (ses_content s) = Incomplete \<Longrightarrow> rx_step env w s = Ret (Some False, w, s)"
    and "next_frame (ses_content s) = Malformed \<Longrightarrow> rx_step env w s = Ret (Some True, rx_error env EOVERFLOW w, s)"
proof -
  have sz: "buf_Size (ses_recv_packet s) = length (ses_content s)" "length (ses_content s) < 2 ^ 16"
    "buf_Capacity (ses_recv_packet s) = Buffer_MAX_SIZE"
    using session_ok_Size [OF assms] by (auto simp: Buffer_MAX_SIZE_def)
  show "next_frame (ses_content s) = Incomplete \<Longrightarrow> rx_step env w s = Ret (Some False, w, s)"
    using sz getters_frame(1) [OF assms] by (auto simp: rx_step_def next_frame_def Let_def split: if_splits)
  show "next_frame (ses_content s) = Malformed \<Longrightarrow> rx_step env w s = Ret (Some True, rx_error env EOVERFLOW w, s)"
    using sz getters_frame(1) [OF assms] by (auto simp: rx_step_def next_frame_def Let_def split: if_splits)
qed

context frame_handler begin

lemma rx_step_frame:
  assumes ok: "session_ok s" and fr: "next_frame (ses_content s) = Frame f r"
  shows "\<exists>s'. rx_step env w s = Ret (None, if frame_seq f > ses_msg_seq s then handle f w else w, s') \<and>
    session_ok s' \<and> ses_content s' = r \<and>
    ses_msg_seq s' = (if frame_seq f > ses_msg_seq s then frame_seq f else ses_msg_seq s)"
proof -
  let ?p = "ses_recv_packet s" and ?n = "length f"
  have sz: "buf_Size ?p = length (ses_content s)" "length (ses_content s) < 2 ^ 16"
    "buf_Capacity ?p = Buffer_MAX_SIZE"
    using session_ok_Size [OF ok] by (auto simp: Buffer_MAX_SIZE_def)
  note c = next_frame_Frame [OF fr]
  have hs: "HEADER_SIZE \<le> buf_Size ?p" and fits: "length f \<le> length (ses_content s)"
    using sz(1) c by simp_all
  have len: "unat (pkt_GetLength ?p) = ?n"
    unfolding getters_frame(1) [OF ok hs] by (rule next_frame_len [OF fr])
  have sq: "pkt_GetSEQ ?p = frame_seq f"
    using c(2) unfolding getters_frame(2) [OF ok hs] c(1) frame_seq_def
    by (simp add: slice_of_def offsets)
  define w' where "w' = (if frame_seq f > ses_msg_seq s then handle f w else w)"
  define s1 where "s1 = (if frame_seq f > ses_msg_seq s then s\<lparr>ses_msg_seq := frame_seq f\<rparr> else s)"
  define q where "q = buf_Remove (pkt_GetLength ?p) ?p"
  have s1: "ses_recv_packet s1 = ?p" by (simp add: s1_def)
  have okp: "pkt_ok ?p" "buf_aligned ?p" using ok by (auto simp: session_ok_def)
  have inv: "buf_inv ?p" using okp by (simp add: pkt_ok_def)
  have qc: "buf_inv q" "buf_content q = r"
    using buf_Remove_content [OF inv, of "pkt_GetLength ?p"] buf_Remove_inv [OF inv] len c(1)
    by (simp_all add: q_def)
  then have qs: "buf_Size q = length r" using length_buf_content by metis
  have w': "(if frame_seq f > ses_msg_seq s then (rx_dispatch env ?p w, s\<lparr>ses_msg_seq := frame_seq f\<rparr>) else (w, s))
      = (w', s1)"
    using dispatch_frame [OF okp fr] by (simp add: w'_def s1_def)
  have step: "rx_step env w s =
     (if 0 < length r then (case rx_create env w' of None \<Rightarrow> Ret (Some True, rx_error env EOVERFLOW w', s1\<lparr>ses_recv_packet := q\<rparr>)
        | Some p \<Rightarrow> bind_outcome (buf_Append r (pkt_Init p)) (\<lambda>p. Ret (None, w', s1\<lparr>ses_recv_packet := p\<rparr>)))
      else Ret (None, w', s1\<lparr>ses_recv_packet := q\<rparr>))"
    unfolding rx_step_def Let_def len sq w' using hs c(2,3) sz fits
    by (simp add: s1 q_def [symmetric] qs qc buf_read_Size [of q, unfolded qs] cong: option.case_cong)
  have q_ok: "pkt_ok q" using okp qc(1) by (simp add: q_def pkt_ok_def buf_Remove_def Let_def)
  show ?thesis
  proof (cases "r = []")
    case True
    then have "buf_aligned q" unfolding q_def using len c(1) sz(1) by (intro buf_Remove_all inv) simp
    with True q_ok qc(2) step show ?thesis
      by (intro exI [of _ "s1\<lparr>ses_recv_packet := q\<rparr>"]) (simp add: session_ok_def w'_def s1_def)
  next
    case False
    obtain p where p: "rx_create env w' = Some p" "pkt_ok p" using create_ok by blast
    have "length (buf_content (pkt_Init p)) + length r \<le> buf_Capacity (pkt_Init p)"
      using pkt_ok_Init [OF p(2)] c(4) sz by (simp add: pkt_ok_def buf_Capacity_def Buffer_MAX_SIZE_def)
    then obtain p' where p': "buf_Append r (pkt_Init p) = Ret p'" "buf_aligned p'" "buf_content p' = r"
      "buf_Capacity p' = buf_Capacity (pkt_Init p)"
      using buf_Append_aligned [of "pkt_Init p" r] pkt_ok_Init [OF p(2)] by auto
    have "pkt_ok p'" using p' pkt_ok_Init [OF p(2)] by (auto simp: pkt_ok_def buf_Capacity_def buf_aligned_def)
    with False p p' step show ?thesis
      by (intro exI [of _ "s1\<lparr>ses_recv_packet := p'\<rparr>"]) (simp add: session_ok_def w'_def s1_def)
  qed
qed

lemma rx_loop_refines:
  "session_ok s \<Longrightarrow> \<exists>failed w' s'. rx_loop env w s = Ret (failed, w', s') \<and> session_ok s' \<and>
     spec_stream handle (rx_error env) (ses_content s) w (ses_msg_seq s) = (failed, w', ses_msg_seq s', ses_content s')"
proof (induction "length (ses_content s)" arbitrary: w s rule: less_induct)
  case less
  show ?case
  proof (cases "next_frame (ses_content s)")
    case Incomplete
    then show ?thesis
      using rx_step_stops(1) [OF less(2), of env w] less(2)
      by (auto simp add: rx_loop.simps [of env w s] spec_stream.simps [of _ _ "ses_content s"])
  next
    case Malformed
    then show ?thesis
      using rx_step_stops(2) [OF less(2), of env w] less(2)
      by (auto simp add: rx_loop.simps [of env w s] spec_stream.simps [of _ _ "ses_content s"])
  next
    case (Frame f r)
    from rx_step_frame [OF less(2) Frame, of w] obtain s' where s':
      "rx_step env w s = Ret (None, if frame_seq f > ses_msg_seq s then handle f w else w, s')"
      "session_ok s'" "ses_content s' = r"
      "ses_msg_seq s' = (if frame_seq f > ses_msg_seq s then frame_seq f else ses_msg_seq s)" by blast
    have "length (ses_content s') < length (ses_content s)" using next_frame_Frame(4) [OF Frame] s'(3) by simp
    from less(1) [OF this s'(2), of "if frame_seq f > ses_msg_seq s then handle f w else w"] s' Frame
    show ?thesis
      by (cases "frame_seq f > ses_msg_seq s")
        (simp_all add: rx_loop.simps [of env w s] spec_stream.simps [of _ _ "ses_content s"])
  qed
qed

text \<open>One call of \<open>OnRecvMsg\<close>: it throws when the bytes do not fit behind what is left over, and
  otherwise does what the specification does.\<close>

lemma OnRecvMsg_refines:
  assumes "session_ok s" and "length (ses_content s) + length c \<le> Buffer_MAX_SIZE"
  shows "\<exists>failed w' s'. tcp_OnRecvMsg env c w s = Ret (failed, w', s') \<and> session_ok s' \<and>
     spec_stream handle (rx_error env) (ses_content s @ c) w (ses_msg_seq s) = (failed, w', ses_msg_seq s', ses_content s')"
proof -
  have ok: "buf_aligned (ses_recv_packet s)" "pkt_ok (ses_recv_packet s)" using assms(1) by (auto simp: session_ok_def)
  from buf_Append_aligned [OF ok(1), of c] assms(2) session_ok_Size [OF assms(1)]
  obtain p where p: "buf_Append c (ses_recv_packet s) = Ret p" "buf_aligned p" "buf_content p = ses_content s @ c"
    "buf_Capacity p = Buffer_MAX_SIZE" by auto
  have "session_ok (s\<lparr>ses_recv_packet := p\<rparr>)"
    using p by (auto simp: session_ok_def pkt_ok_def buf_Capacity_def buf_aligned_def)
  from rx_loop_refines [OF this, of w] p show ?thesis by (simp add: tcp_OnRecvMsg_def)
qed

end

lemma OnRecvMsg_overflow:
  assumes "session_ok s" and "Buffer_MAX_SIZE < length (ses_content s) + length c" and "c \<noteq> []"
  shows "tcp_OnRecvMsg env c w s = Throw BufferOverflowError"
proof -
  have "buf_inv (ses_recv_packet s)" using assms(1) by (simp add: session_ok_def buf_aligned_def)
  from buf_Append_full [OF this _ assms(3)] assms(2) session_ok_Size [OF assms(1)]
  show ?thesis by (simp add: tcp_OnRecvMsg_def)
qed

text \<open>What is left of a stream behind its last complete frame, and when no chunk of a segmentation
  meets more left-over bytes than the 65535 byte packet can take with it.\<close>

function unframed :: "bytes \<Rightarrow> bytes" where
  "unframed bs = (case next_frame bs of Frame f r \<Rightarrow> unframed r | _ \<Rightarrow> bs)"
  by pat_completeness auto
termination by (relation "measure length") (auto dest: next_frame_Frame)

declare unframed.simps [simp del]

fun chunks_fit :: "bytes \<Rightarrow> bytes list \<Rightarrow> bool" where
  "chunks_fit rest [] \<longleftrightarrow> True"
| "chunks_fit rest (c # cs) \<longleftrightarrow> length rest + length c \<le> Buffer_MAX_SIZE \<and>
     (next_frame (unframed (rest @ c)) = Malformed \<or> chunks_fit (unframed (rest @ c)) cs)"

lemma spec_stream_unframed: "spec_stream handle err bs w seq = (failed, w', seq', rest) \<Longrightarrow> rest = unframed bs"
proof (induction handle err bs w seq rule: spec_stream.induct)
  case (1 handle err bs w seq)
  have "unframed bs = (case next_frame bs of Frame f r \<Rightarrow> unframed r | _ \<Rightarrow> bs)" by (rule unframed.simps)
  with 1 show ?case
    by (cases "next_frame bs") (simp_all add: spec_stream.simps [of handle err bs] split: if_splits)
qed

lemma unframed_complete: "next_frame (unframed bs) \<noteq> Frame f r"
proof (induction bs rule: unframed.induct)
  case (1 bs)
  then show ?case by (cases "next_frame bs") (simp_all add: unframed.simps [of bs])
qed

lemma unframed_append:
  "next_frame (unframed bs) \<noteq> Malformed \<Longrightarrow> unframed (bs @ xs) = unframed (unframed bs @ xs)"
proof (induction bs rule: unframed.induct)
  case (1 bs)
  then show ?case
    using next_frame_more(1) [of bs _ _ xs]
    by (cases "next_frame bs") (auto simp: unframed.simps [of bs] unframed.simps [of "bs @ xs"])
qed

context frame_handler begin

lemma tcp_receive_refines:
  "session_ok s \<Longrightarrow> next_frame (ses_content s) = Incomplete \<Longrightarrow> chunks_fit (ses_content s) cs \<Longrightarrow>
   \<exists>failed w' s' rest. tcp_receive env cs w s = Ret (failed, w', s') \<and> session_ok s' \<and>
     spec_stream handle (rx_error env) (ses_content s @ concat cs) w (ses_msg_seq s) = (failed, w', ses_msg_seq s', rest) \<and>
     (\<not> failed \<longrightarrow> ses_content s' = rest)"
proof (induction cs arbitrary: w s)
  case Nil
  then show ?case by (auto simp: spec_stream.simps [of _ _ "ses_content s"])
next
  case (Cons c cs)
  let ?spec = "spec_stream handle (rx_error env)"
  have "length (ses_content s) + length c \<le> Buffer_MAX_SIZE" using Cons.prems(3) by simp
  from OnRecvMsg_refines [OF Cons.prems(1) this, of w] obtain failed w1 s1 where s1:
    "tcp_OnRecvMsg env c w s = Ret (failed, w1, s1)" "session_ok s1"
    "?spec (ses_content s @ c) w (ses_msg_seq s) = (failed, w1, ses_msg_seq s1, ses_content s1)" by blast
  have un: "ses_content s1 = unframed (ses_content s @ c)" by (rule spec_stream_unframed [OF s1(3)])
  have fm: "failed \<longleftrightarrow> next_frame (ses_content s1) = Malformed" using spec_stream_frames [OF s1(3)] by simp
  have split: "?spec (ses_content s @ concat (c # cs)) w (ses_msg_seq s) =
      (if failed then (True, w1, ses_msg_seq s1, ses_content s1 @ concat cs)
       else ?spec (ses_content s1 @ concat cs) w1 (ses_msg_seq s1))"
    using spec_stream_append [of handle "rx_error env" "ses_content s @ c" "concat cs"] s1(3) by simp
  show ?case
  proof (cases failed)
    case True
    then show ?thesis using s1 split by auto
  next
    case False
    then have "next_frame (ses_content s1) = Incomplete"
      using fm un unframed_complete by (cases "next_frame (ses_content s1)") auto
    moreover have "chunks_fit (ses_content s1) cs" using Cons.prems(3) False fm un by simp
    ultimately show ?thesis using Cons.IH [OF s1(2), of w1] False s1(1) split by simp
  qed
qed

end

text \<open>A stream made of whole frames.\<close>

lemma frames_of_concat:
  "\<forall>f\<in>set fs. next_frame f = Frame f [] \<Longrightarrow> frames_of (concat fs) = fs \<and> unframed (concat fs) = []"
proof (induction fs)
  case Nil
  have "next_frame [] = Incomplete" by (simp add: next_frame_def HEADER_SIZE_def)
  then show ?case by (simp add: frames_of.simps unframed.simps)
next
  case (Cons f fs)
  then have "next_frame (f @ concat fs) = Frame f (concat fs)" using next_frame_more(1) [of f f "[]" "concat fs"] by simp
  with Cons show ?case by (simp add: frames_of.simps [of "f @ concat fs"] unframed.simps [of "f @ concat fs"])
qed

section \<open>Properties\<close>


text \<open>The log environment of the witnesses: the handler notes the sequence number and the id.\<close>

definition log_env :: "(u32 \<times> u32) list rx_env" where
  "log_env = \<lparr>rx_create = (\<lambda>_. Some new_packet), rx_dispatch = (\<lambda>p w. w @ [(pkt_GetSEQ p, pkt_GetID p)]),
     rx_error = (\<lambda>_ w. w)\<rparr>"

definition log_frame :: "bytes \<Rightarrow> (u32 \<times> u32) list \<Rightarrow> (u32 \<times> u32) list" where
  "log_frame f w = w @ [(frame_seq f, frame_id f)]"

definition new_session :: tcp_session where
  "new_session = \<lparr>ses_recv_packet = new_packet, ses_msg_seq = 0\<rparr>"

text \<open>A frame made of a header and a body.\<close>

lemma header_parts:
  "frame_seq (frame_header t n i @ body) = n" "frame_id (frame_header t n i @ body) = i"
  "frame_body (frame_header t n i @ body) = body"
  by (simp_all add: frame_seq_def frame_id_def frame_body_def frame_header_def slice_of_def offsets)

lemma header_frame:
  assumes "length body + HEADER_SIZE < Buffer_MAX_SIZE"
  shows "next_frame (frame_header (of_nat (length body + HEADER_SIZE)) n i @ body) =
      Frame (frame_header (of_nat (length body + HEADER_SIZE)) n i @ body) []"
proof -
  have "unat (of_nat (length body + HEADER_SIZE) :: u16) = length body + HEADER_SIZE"
    using assms unfolding unat_of_nat_u16 by (simp add: Buffer_MAX_SIZE_def)
  then show ?thesis using assms by (simp add: next_frame_def frame_header_def HEADER_SIZE_def Let_def)
qed

lemma frame_getters:
  assumes "pkt_ok p" and "buf_aligned p" and "next_frame (buf_content p) = Frame f r"
  shows "pkt_GetSEQ p = frame_seq f" and "pkt_GetID p = frame_id f"
proof -
  define s where "s = \<lparr>ses_recv_packet = p, ses_msg_seq = 0\<rparr>"
  have s: "session_ok s" "ses_recv_packet s = p" using assms by (simp_all add: s_def session_ok_def)
  note f = next_frame_Frame [OF assms(3)]
  have "HEADER_SIZE \<le> buf_Size (ses_recv_packet s)" using session_ok_Size [OF s(1)] f s(2) by simp
  note g = getters_frame(2,3) [OF s(1) this, unfolded s(2) f(1)]
  show "pkt_GetSEQ p = frame_seq f" "pkt_GetID p = frame_id f"
    using f(2) g by (simp_all add: frame_seq_def frame_id_def slice_of_def offsets)
qed

lemma frame_handler_log: "frame_handler log_env log_frame"
  by unfold_locales (simp_all add: log_env_def log_frame_def frame_getters)

lemma log_env_error: "rx_error log_env e w = w"
  by (simp add: log_env_def)

lemma new_session_ok: "session_ok new_session" "ses_content new_session = []" "ses_msg_seq new_session = 0"
  by (simp_all add: new_session_def session_ok_def new_packet_def pkt_ok_new [unfolded new_packet_def])




text \<open>Legal frames can kill the receive path: if one read ends inside a frame and the next read
  brings its rest together with so much of the following frames that both do not fit into the packet
  at once, \<open>OnRecvMsg\<close> throws out of the asynchronous read handler, although every frame is shorter than
  a packet.\<close>

theorem OnRecvMsg_throws_on_legal_stream:
  assumes "frame_handler env handle" and "session_ok s" and "ses_content s = []"
    and "next_frame f = Frame f []" and "n < length f" and "Buffer_MAX_SIZE < length f + length x"
  shows "tcp_receive env [take n f, drop n f @ x] w s = Throw BufferOverflowError"
proof -
  note f = next_frame_Frame [OF assms(4)]
  have "length (ses_content s) + length (take n f) \<le> Buffer_MAX_SIZE" using assms(3,5) f(3) by simp
  from frame_handler.OnRecvMsg_refines [OF assms(1,2) this, of w] assms(3) obtain failed w' s' where r:
    "tcp_OnRecvMsg env (take n f) w s = Ret (failed, w', s')" "session_ok s'"
    "spec_stream handle (rx_error env) (take n f) w (ses_msg_seq s) = (failed, w', ses_msg_seq s', ses_content s')"
    by auto
  have "next_frame (take n f) = Incomplete" using assms(4,5) by (rule next_frame_prefix)
  then have "\<not> failed" "ses_content s' = take n f" using r(3) by (auto simp: spec_stream.simps [of _ _ "take n f"])
  moreover have "tcp_OnRecvMsg env (drop n f @ x) w' s' = Throw BufferOverflowError"
    using r(2) calculation(2) assms(5,6) by (intro OnRecvMsg_overflow) auto
  ultimately show ?thesis using r(1) by simp
qed

definition long_frame :: bytes where
  "long_frame = [96, 234] @ replicate 59998 0"

lemma OnRecvMsg_throws_on_legal_stream_witness:
  "tcp_receive log_env [take 30000 long_frame, drop 30000 long_frame @ take 10000 long_frame] [] new_session
     = Throw BufferOverflowError"
proof (rule OnRecvMsg_throws_on_legal_stream)
  have len: "length long_frame = 60000" unfolding long_frame_def length_append length_replicate by simp
  have "take 2 long_frame = [96, 234]" by (simp add: long_frame_def)
  then show "next_frame long_frame = Frame long_frame []"
    by (simp add: next_frame_def len HEADER_SIZE_def Buffer_MAX_SIZE_def get_word_def)
  show "30000 < length long_frame" "Buffer_MAX_SIZE < length long_frame + length (take 10000 long_frame)"
    by (simp_all add: len Buffer_MAX_SIZE_def)
qed (fact frame_handler_log new_session_ok)+

text \<open>What a reconnecting client relies on. It sent frames with rising sequence numbers, the server
  handled those up to its \<open>msg_seq\<close>, and the client sends again from some frame it already sent before
  that: the server handles exactly the frames it has not seen, however the network cuts them.\<close>

theorem resend_handles_rest:
  assumes "frame_handler env handle" and "session_ok s" and "ses_content s = []"
    and "\<forall>f\<in>set fs. next_frame f = Frame f []" and "sorted_wrt (<) (map frame_seq fs)"
    and "\<forall>f\<in>set (take k fs). frame_seq f \<le> ses_msg_seq s" and "\<forall>f\<in>set (drop k fs). ses_msg_seq s < frame_seq f"
    and "j \<le> k" and "concat cs = concat (drop j fs)" and "chunks_fit [] cs"
  shows "\<exists>s'. tcp_receive env cs w s = Ret (False, fold handle (drop k fs) w, s') \<and> ses_content s' = []"
proof -
  let ?gs = "drop j fs"
  have nf: "next_frame [] = Incomplete" by (simp add: next_frame_def HEADER_SIZE_def)
  have gs: "frames_of (concat ?gs) = ?gs" "unframed (concat ?gs) = []"
    using frames_of_concat [of ?gs] assms(4) by (auto dest: in_set_dropD)
  have split: "?gs = take (k - j) ?gs @ drop k fs" 
    using append_take_drop_id [of "k - j" ?gs] assms(8) by (simp only: drop_drop le_add_diff_inverse2)
  have old: "\<forall>f\<in>set (take (k - j) ?gs). frame_seq f \<le> ses_msg_seq s"
    using assms(6,8) by (auto simp: take_drop dest: in_set_dropD)
  have "sorted_wrt (<) (ses_msg_seq s # map frame_seq (drop k fs))"
    using assms(5,7) sorted_wrt_drop [of "(<)" "map frame_seq fs" k] by (simp add: drop_map)
  then have "rising (ses_msg_seq s) ?gs = drop k fs"
    by (subst split, subst rising_append) (simp add: rising_none [OF old] rising_all)
  note handled = this
  have nf': "next_frame (ses_content s) = Incomplete" "chunks_fit (ses_content s) cs" "ses_content s @ concat cs = concat ?gs"
    using nf assms(3,9,10) by simp_all
  from frame_handler.tcp_receive_refines [OF assms(1,2) nf'(1,2), of w] obtain failed w' s' rest where r:
    "tcp_receive env cs w s = Ret (failed, w', s')"
    "spec_stream handle (rx_error env) (concat ?gs) w (ses_msg_seq s) = (failed, w', ses_msg_seq s', rest)"
    "\<not> failed \<longrightarrow> ses_content s' = rest" unfolding nf'(3) by blast
  have "rest = []" using spec_stream_unframed [OF r(2)] gs(2) by simp
  moreover from this have "\<not> failed" using spec_stream_frames [OF r(2)] nf by simp
  moreover from this have "w' = fold handle (drop k fs) w"
    using spec_stream_frames [OF r(2)] unfolding gs(1) handled by simp
  ultimately show ?thesis using r by auto
qed

lemma resend_handles_rest_witness:
  "\<exists>s'. tcp_receive log_env [frame_header 10 3 7 @ frame_header 10 4 7 @ [10], [0, 5, 0, 0, 0, 9, 0, 0, 0]] []
      \<lparr>ses_recv_packet = new_packet, ses_msg_seq = 4\<rparr> = Ret (False, [(5, 9)], s') \<and> ses_content s' = []"
proof -
  let ?s = "\<lparr>ses_recv_packet = new_packet, ses_msg_seq = 4\<rparr>"
  let ?fs = "[frame_header 10 2 7, frame_header 10 3 7, frame_header 10 4 7, frame_header 10 5 9]"
  let ?cs = "[frame_header 10 3 7 @ frame_header 10 4 7 @ [10], [0, 5, 0, 0, 0, 9, 0, 0, 0]]"
  have h: "frame_header 10 2 7 = [10, 0, 2, 0, 0, 0, 7, 0, 0, 0]" "frame_header 10 3 7 = [10, 0, 3, 0, 0, 0, 7, 0, 0, 0]"
    "frame_header 10 4 7 = [10, 0, 4, 0, 0, 0, 7, 0, 0, 0]" "frame_header 10 5 9 = [10, 0, 5, 0, 0, 0, 9, 0, 0, 0]"
    by (simp_all add: frame_header_def put_word_def)
  note ev = h next_frame_def get_word_def HEADER_SIZE_def Buffer_MAX_SIZE_def frame_seq_def frame_id_def offsets slice_of_def
  have s: "session_ok ?s" "ses_content ?s = []"
    using new_session_ok by (simp_all add: session_ok_def new_session_def)
  have nf: "\<forall>f\<in>set ?fs. next_frame f = Frame f []" by (simp add: ev)
  have fit: "chunks_fit [] ?cs" by (simp add: ev unframed.simps)
  have "\<exists>s'. tcp_receive log_env ?cs [] ?s = Ret (False, fold log_frame (drop 3 ?fs) [], s') \<and> ses_content s' = []"
    by (rule resend_handles_rest [where j = 1, OF frame_handler_log s nf _ _ _ _ _ fit]) (simp_all add: ev)
  then show ?thesis by (simp add: log_frame_def ev)
qed

end
