(* ===== verification/Tcp_Messages.thy ===== *)
theory Tcp_Messages
  imports Handler_Dispatch Tcp_Framing
begin

text \<open>
  The receive path and the dispatcher together: a server whose message ids are registered with static
  handlers that read the packet with \<open>Packet::Read\<close> is a frame handler in the sense of \<open>Tcp_Framing\<close>, so a
  byte stream becomes the sequence of handler calls on the bodies of its frames.
\<close>

text \<open>A handler that does \<open>f\<close> with the body of its message, and nothing when the packet cannot be read.\<close>

definition reading_handler :: "(bytes \<Rightarrow> 'w \<Rightarrow> 'w) \<Rightarrow> (unit, 'w) handler_function" where
  "reading_handler f = \<lparr>hf_factory = HandlerStatic (), hf_function = (\<lambda>h p (c, w).
     ((c, case pkt_Read (\<lambda>body. Some (body, [])) p of Ret (Some body) \<Rightarrow> f body w | _ \<Rightarrow> w), None))\<rparr>"

type_synonym 'w handlers = "u32 \<Rightarrow> (bytes \<Rightarrow> 'w \<Rightarrow> 'w) option"

definition dispatcher_of :: "'w handlers \<Rightarrow> 'w \<Rightarrow> (unit, 'w) tcp_dispatch" where
  "dispatcher_of hs w = \<lparr>mapHandlerFunction = (\<lambda>k. map_option reading_handler (hs k)), handler_container = Map.empty, td_world = w\<rparr>"

definition dispatch_env :: "(int \<Rightarrow> 'w \<Rightarrow> 'w) \<Rightarrow> 'w handlers \<Rightarrow> 'w rx_env" where
  "dispatch_env on_error hs = \<lparr>rx_create = (\<lambda>_. Some new_packet),
     rx_dispatch = (\<lambda>p w. td_world (tcp_Dispatcher_OnRecvMsg on_error () p (dispatcher_of hs w))), rx_error = on_error\<rparr>"

text \<open>What one frame does.\<close>

definition call_handler :: "(int \<Rightarrow> 'w \<Rightarrow> 'w) \<Rightarrow> 'w handlers \<Rightarrow> bytes \<Rightarrow> 'w \<Rightarrow> 'w" where
  "call_handler on_error hs f w =
     (case hs (frame_id f) of None \<Rightarrow> on_error NullPointerError w | Some h \<Rightarrow> h (frame_body f) w)"

lemma pkt_Read_frame:
  assumes "pkt_ok p" and "buf_aligned p" and "next_frame (buf_content p) = Frame f r"
  shows "pkt_Read load p = Ret (map_option fst (load (frame_body f)))"
proof -
  define s where "s = \<lparr>ses_recv_packet = p, ses_msg_seq = 0\<rparr>"
  have s: "session_ok s" "ses_recv_packet s = p" using assms by (simp_all add: s_def session_ok_def)
  note c = next_frame_Frame [OF assms(3)]
  have "HEADER_SIZE \<le> buf_Size (ses_recv_packet s)" using session_ok_Size [OF s(1)] c s(2) by simp
  from getters_frame(1) [OF s(1) this] have len: "unat (pkt_GetLength p) = length f"
    using next_frame_len [OF assms(3)] s(2) by simp
  have al: "readCursor p = 0" "writeCursor p \<le> length (bdata p)" "bufSize p = length (bdata p)"
    using assms(2) by (auto simp: buf_aligned_def buf_inv_def)
  have d: "take (writeCursor p) (bdata p) = f @ r" using buf_content_aligned [OF assms(2)] c(1) by simp
  then have "length (take (writeCursor p) (bdata p)) = length (f @ r)" by simp
  then have w: "writeCursor p = length f + length r" using al(2) by simp
  have "take (length f) (bdata p) = take (length f) (take (writeCursor p) (bdata p))" using w by simp
  then have "take (length f) (bdata p) = f" by (simp add: d)
  then have "slice_of HEADER_SIZE (length f - HEADER_SIZE) (bdata p) = frame_body f"
    using c(2) by (simp add: slice_of_def frame_body_def take_drop)
  moreover have "\<not> bufSize p < readCursor p + unat (pkt_GetLength p)" using al w len by simp
  ultimately show ?thesis using c(2) by (simp add: pkt_Read_def len al(1))
qed

interpretation dispatched: frame_handler "dispatch_env on_error hs" "call_handler on_error hs" for on_error hs
proof (unfold_locales, goal_cases)
  case 1
  show ?case by (simp add: dispatch_env_def)
next
  case (2 p f r w)
  then show ?case
    by (simp add: dispatch_env_def tcp_Dispatcher_OnRecvMsg_def dispatcher_of_def call_handler_def reading_handler_def
        frame_getters(2) pkt_Read_frame Let_def split: option.split)
qed



end
