(* ===== verification/Link_Queue.thy ===== *)
theory Link_Queue
  imports Byte_Buffer
begin

text \<open>
  The sending half of \<^verbatim>\<open>Gamnet/Network/Link.cpp\<close>. \<open>AsyncSend\<close> queues a buffer and starts a write only
  when the queue was empty; the completion of a write removes the front buffer and starts the next
  one. Everything runs on the link's strand, so each is one step. The socket is the list of bytes it has
  accepted; \<open>async_write\<close> completes with all bytes of its buffer or with an error after some of them, as
  Boost.Asio documents. A queued buffer is represented by the bytes between its cursors.
\<close>

section \<open>The send queue\<close>

text \<open>\<open>outstanding\<close> are the writes that were started and have not completed; \<open>sent\<close> records every
  buffer ever handed to \<open>AsyncSend\<close>.\<close>

record link_out =
  send_buffers :: "bytes list"
  outstanding :: "bytes list"
  wire :: bytes
  link_open :: bool
  sent :: "bytes list"

text \<open>What \<open>Link::Init\<close> leaves on a fresh connection.\<close>

definition link_out_Init :: link_out where
  "link_out_Init = \<lparr>send_buffers = [], outstanding = [], wire = [], link_open = True, sent = []\<rparr>"

definition FlushSend :: "link_out \<Rightarrow> link_out" where
  "FlushSend l =
     (if send_buffers l \<noteq> [] then l\<lparr>outstanding := outstanding l @ [hd (send_buffers l)]\<rparr> else l)"

text \<open>The closure that \<open>AsyncSend\<close> runs on the strand.\<close>

definition AsyncSend :: "bytes \<Rightarrow> link_out \<Rightarrow> link_out" where
  "AsyncSend buffer l =
     (let needFlush = (send_buffers l = []);
          l = l\<lparr>send_buffers := send_buffers l @ [buffer], sent := sent l @ [buffer]\<rparr>
      in if needFlush then FlushSend l else l)"

text \<open>\<open>AsyncSend(const char*, int)\<close> copies into a buffer of the pool first: nothing is queued when the
  pool is exhausted, and the copy throws when the bytes do not fit.\<close>

definition AsyncSend_copy :: "buffer option \<Rightarrow> bytes \<Rightarrow> link_out \<Rightarrow> link_out outcome" where
  "AsyncSend_copy created buf l =
     (case created of
        None \<Rightarrow> Ret l
      | Some b \<Rightarrow> bind_outcome (buf_Append buf (buf_Clear b)) (\<lambda>b. Ret (AsyncSend (buf_content b) l)))"

text \<open>The completion handler of the write that was started first: \<open>None\<close> is success, \<open>Some n\<close> an
  error after \<open>n\<close> bytes, on which \<open>OnError\<close> closes the socket.\<close>

definition write_done :: "nat option \<Rightarrow> link_out \<Rightarrow> link_out" where
  "write_done ec l =
     (let b = hd (outstanding l); l = l\<lparr>outstanding := tl (outstanding l)\<rparr> in
      case ec of
        Some n \<Rightarrow> l\<lparr>wire := wire l @ take n b, link_open := False\<rparr>
      | None \<Rightarrow> FlushSend (l\<lparr>wire := wire l @ b, send_buffers := tl (send_buffers l)\<rparr>))"

inductive link_step :: "link_out \<Rightarrow> link_out \<Rightarrow> bool" where
  send: "link_step l (AsyncSend b l)"
| completes: "outstanding l \<noteq> [] \<Longrightarrow> link_step l (write_done ec l)"

text \<open>While the link is open, a write of the front buffer is outstanding exactly when the queue is not
  empty. After an error nothing is outstanding and the queue is never empty again, so that no later
  \<open>AsyncSend\<close> starts a write.\<close>

definition link_inv :: "link_out \<Rightarrow> bool" where
  "link_inv l \<longleftrightarrow>
     (if link_open l
      then outstanding l = take 1 (send_buffers l) \<and> wire l @ concat (send_buffers l) = concat (sent l)
      else outstanding l = [] \<and> send_buffers l \<noteq> [] \<and> (\<exists>rest. wire l @ rest = concat (sent l)))"

lemma link_inv_Init: "l = link_out_Init \<Longrightarrow> link_inv l"
  by (simp add: link_inv_def link_out_Init_def)

lemma link_inv_AsyncSend: "link_inv l \<Longrightarrow> link_inv (AsyncSend b l)"
proof (cases "link_open l")
  case True
  then show "link_inv l \<Longrightarrow> link_inv (AsyncSend b l)"
    by (cases "send_buffers l") (simp_all add: link_inv_def AsyncSend_def FlushSend_def Let_def flip: append_assoc)
next
  case False
  assume "link_inv l"
  with False obtain rest where "send_buffers l \<noteq> []" "outstanding l = []" "wire l @ rest = concat (sent l)"
    by (auto simp: link_inv_def)
  moreover from this have "\<exists>rest. wire l @ rest = concat (sent l) @ b" by (metis append_assoc)
  ultimately show "link_inv (AsyncSend b l)"
    using False by (auto simp: link_inv_def AsyncSend_def Let_def)
qed

lemma link_inv_write_done:
  assumes "link_inv l" and "outstanding l \<noteq> []"
  shows "link_inv (write_done ec l)"
proof -
  have op: "link_open l" using assms by (auto simp: link_inv_def split: if_splits)
  with assms obtain b bs where b: "send_buffers l = b # bs" "outstanding l = [b]"
    by (cases "send_buffers l") (auto simp: link_inv_def)
  have w: "wire l @ b @ concat bs = concat (sent l)" using assms(1) op b by (simp add: link_inv_def)
  show ?thesis
  proof (cases ec)
    case None
    then show ?thesis using b op w by (cases bs) (simp_all add: write_done_def link_inv_def FlushSend_def Let_def)
  next
    case (Some n)
    have "wire l @ take n b @ (drop n b @ concat bs) = concat (sent l)" using w by (simp flip: append_assoc)
    then show ?thesis using b op Some by (auto simp: write_done_def link_inv_def Let_def)
  qed
qed

lemma link_inv_step: "link_inv l \<Longrightarrow> link_step l l' \<Longrightarrow> link_inv l'"
  by (elim link_step.cases) (auto intro: link_inv_AsyncSend link_inv_write_done)

interpretation link_queue: invariant_system "\<lambda>l. l = link_out_Init" link_step link_inv
  by unfold_locales (auto intro: link_inv_Init link_inv_step)

text \<open>Completing writes drains an open queue.\<close>

lemma drain:
  "link_inv l \<Longrightarrow> link_open l \<Longrightarrow>
   (write_done None ^^ length (send_buffers l)) l = l\<lparr>send_buffers := [], outstanding := [], wire := concat (sent l)\<rparr>"
proof (induction "length (send_buffers l)" arbitrary: l)
  case 0
  then show ?case by (simp add: link_inv_def)
next
  case (Suc n)
  then obtain b bs where b: "send_buffers l = b # bs" "outstanding l = [b]"
    by (cases "send_buffers l") (auto simp: link_inv_def)
  let ?l = "write_done None l"
  have l: "send_buffers ?l = bs" "link_open ?l" "sent ?l = sent l" "link_inv ?l"
    using b Suc.prems link_inv_write_done [of l None] by (simp_all add: write_done_def FlushSend_def Let_def)
  have "(write_done None ^^ length (send_buffers l)) l = (write_done None ^^ length bs) ?l"
    by (simp add: b funpow_swap1)
  also have "\<dots> = ?l\<lparr>send_buffers := [], outstanding := [], wire := concat (sent l)\<rparr>"
    using Suc(1) [of ?l] l Suc(2) b by simp
  also have "\<dots> = l\<lparr>send_buffers := [], outstanding := [], wire := concat (sent l)\<rparr>"
    by (simp add: write_done_def FlushSend_def Let_def)
  finally show ?case .
qed

section \<open>Synchronous sending\<close>

text \<open>What one \<open>boost::asio::write\<close> does: a number of bytes without error, an error code, or a thrown
  \<open>system_error\<close>.\<close>

datatype write_result = Wrote nat | WriteError | WriteThrows

text \<open>\<open>SyncSend(const char*, int)\<close> over a socket state \<open>'s\<close>. The result is \<open>-1\<close> on any failure.\<close>

function SyncSend :: "('s \<Rightarrow> bytes \<Rightarrow> write_result \<times> 's) \<Rightarrow> bytes \<Rightarrow> nat \<Rightarrow> 's \<Rightarrow> int \<times> 's" where
  "SyncSend wr buf totalSentBytes s =
     (if length buf > totalSentBytes then
        (case wr s (drop totalSentBytes buf) of
           (Wrote sentBytes, s) \<Rightarrow>
             (if sentBytes = 0 then (- 1, s) else SyncSend wr buf (totalSentBytes + sentBytes) s)
         | (_, s) \<Rightarrow> (- 1, s))
      else (int totalSentBytes, s))"
  by pat_completeness auto
termination by (relation "measure (\<lambda>(wr, buf, n, s). length buf - n)") auto

declare SyncSend.simps [simp del]

text \<open>\<open>SyncSend(const std::shared_ptr<Buffer>&)\<close> removes what was transferred.\<close>

definition SyncSend_buffer :: "('s \<Rightarrow> bytes \<Rightarrow> write_result \<times> 's) \<Rightarrow> buffer \<Rightarrow> 's \<Rightarrow> int \<times> buffer \<times> 's" where
  "SyncSend_buffer wr b s =
     (case SyncSend wr (buf_read (buf_Size b) b) 0 s of
        (n, s) \<Rightarrow> (n, if 0 < n then buf_Remove (of_int n) b else b, s))"

text \<open>A socket that keeps its promise: it takes a prefix of what it is given and says how long it is; on
  a failure it may have taken a prefix too.\<close>

definition socket_ok :: "('s \<Rightarrow> bytes) \<Rightarrow> ('s \<Rightarrow> bytes \<Rightarrow> write_result \<times> 's) \<Rightarrow> bool" where
  "socket_ok out wr \<longleftrightarrow> (\<forall>s xs r s'. wr s xs = (r, s') \<longrightarrow>
     (case r of Wrote n \<Rightarrow> n \<le> length xs \<and> out s' = out s @ take n xs
      | _ \<Rightarrow> \<exists>n. out s' = out s @ take n xs))"

lemma SyncSend_out:
  "socket_ok out wr \<Longrightarrow> n \<le> length buf \<Longrightarrow> SyncSend wr buf n s = (r, s') \<Longrightarrow>
   (r = int (length buf) \<and> out s' = out s @ drop n buf) \<or> (r = - 1 \<and> (\<exists>k. out s' = out s @ take k (drop n buf)))"
proof (induction wr buf n s rule: SyncSend.induct)
  case (1 wr buf n s)
  show ?case
  proof (cases "length buf > n")
    case False
    then have "SyncSend wr buf n s = (int n, s)" by (simp add: SyncSend.simps [of wr buf n])
    with 1(3,4) False show ?thesis by simp
  next
    case True
    obtain res s1 where w: "wr s (drop n buf) = (res, s1)" by fastforce
    have ok: "case res of Wrote k \<Rightarrow> k \<le> length (drop n buf) \<and> out s1 = out s @ take k (drop n buf)
        | _ \<Rightarrow> \<exists>k. out s1 = out s @ take k (drop n buf)"
      using 1(2) w unfolding socket_ok_def by blast
    show ?thesis
    proof (cases "\<exists>k. res = Wrote k \<and> k \<noteq> 0")
      case False
      with w ok True 1(4) have "r = - 1" "s' = s1" and "\<exists>k. out s1 = out s @ take k (drop n buf)"
        by (auto simp: SyncSend.simps [of wr buf n] split: write_result.splits if_splits)
      then show ?thesis by blast
    next
      case more: True
      then obtain k where k: "res = Wrote k" "k \<noteq> 0" by blast
      with ok have out: "n + k \<le> length buf" "out s1 = out s @ take k (drop n buf)" using True by auto
      have "SyncSend wr buf (n + k) s1 = (r, s')"
        using 1(4) w k True by (simp add: SyncSend.simps [of wr buf n])
      from 1(1) [OF True w [symmetric] k(1) k(2) 1(2) out(1) this]
      show ?thesis
      proof
        assume *: "r = int (length buf) \<and> out s' = out s1 @ drop (n + k) buf"
        have "take k (drop n buf) @ drop (n + k) buf = drop n buf" by (metis add.commute append_take_drop_id drop_drop)
        with * show ?thesis by (simp add: out(2))
      next
        assume "r = - 1 \<and> (\<exists>j. out s' = out s1 @ take j (drop (n + k) buf))"
        then obtain j where j: "r = - 1" "out s' = out s @ take k (drop n buf) @ take j (drop k (drop n buf))"
          by (auto simp: out(2) add.commute)
        have "take k (drop n buf) @ take j (drop k (drop n buf)) = take (k + j) (drop n buf)" by (rule take_add [symmetric])
        with j have "r = - 1" "out s' = out s @ take (k + j) (drop n buf)" by simp_all
        then show ?thesis by blast
      qed
    qed
  qed
qed

section \<open>Properties\<close>

text \<open>C12: On every run of a link from its initialisation, with any interleaving of \<open>AsyncSend\<close> calls and
  write completions: at most one write is outstanding; the bytes on the wire are a prefix of the buffers
  in the order they were sent; and while the link is open the completions of the queued writes put every
  byte that was sent on the wire.\<close>

theorem AsyncSend_fifo:
  assumes "link_step\<^sup>*\<^sup>* link_out_Init l"
  shows "length (outstanding l) \<le> 1 \<and> (\<exists>rest. wire l @ rest = concat (sent l)) \<and>
    (link_open l \<longrightarrow> wire ((write_done None ^^ length (send_buffers l)) l) = concat (sent l))"
proof -
  have inv: "link_inv l" by (rule link_queue.inv_reachable [OF refl assms])
  then have "length (outstanding l) \<le> 1" by (simp add: link_inv_def split: if_splits)
  moreover have "\<exists>rest. wire l @ rest = concat (sent l)" using inv by (auto simp: link_inv_def split: if_splits)
  ultimately show ?thesis using drain [OF inv] by simp
qed

lemma AsyncSend_fifo_witness:
  "link_step\<^sup>*\<^sup>* link_out_Init (write_done None (AsyncSend [3] (AsyncSend [1, 2] link_out_Init))) \<and>
   wire (write_done None (write_done None (AsyncSend [3] (AsyncSend [1, 2] link_out_Init)))) = [1, 2, 3]"
proof -
  let ?l2 = "AsyncSend [3] (AsyncSend [1, 2] link_out_Init)"
  have "outstanding ?l2 \<noteq> []" by (simp add: AsyncSend_def FlushSend_def link_out_Init_def)
  then have "link_step ?l2 (write_done None ?l2)" by (rule link_step.completes)
  moreover have "link_step link_out_Init (AsyncSend [1, 2] link_out_Init)" "link_step (AsyncSend [1, 2] link_out_Init) ?l2"
    by (rule link_step.send)+
  ultimately have r: "link_step\<^sup>*\<^sup>* link_out_Init (write_done None ?l2)" by simp
  from AsyncSend_fifo [OF r] r show ?thesis
    by (simp add: AsyncSend_def FlushSend_def link_out_Init_def write_done_def)
qed

text \<open>C29: \<open>SyncSend\<close> over a socket that takes prefixes: the loop ends, and it returns either the length of
  the data, all of which was then written in order, or \<open>-1\<close>, after a prefix of it.\<close>

theorem SyncSend_all_or_error:
  assumes "socket_ok out wr" and "SyncSend wr buf 0 s = (r, s')"
  shows "(r = int (length buf) \<and> out s' = out s @ buf) \<or> (r = - 1 \<and> (\<exists>k. out s' = out s @ take k buf))"
  using SyncSend_out [OF assms(1) le0 assms(2)] by simp

text \<open>A socket that takes two bytes at a time.\<close>

definition two_byte_socket :: "bytes \<Rightarrow> bytes \<Rightarrow> write_result \<times> bytes" where
  "two_byte_socket s xs = (Wrote (min 2 (length xs)), s @ take 2 xs)"

lemma SyncSend_all_or_error_witness:
  "SyncSend two_byte_socket [1, 2, 3] 0 [] = (3, [1, 2, 3]) \<and>
   ((3 :: int) = int (length [1 :: u8, 2, 3]) \<and> [1 :: u8, 2, 3] = [] @ [1, 2, 3] \<or>
    (3 :: int) = - 1 \<and> (\<exists>k. [1 :: u8, 2, 3] = [] @ take k [1, 2, 3]))"
proof -
  have ok: "socket_ok (\<lambda>s. s) two_byte_socket"
    by (auto simp: socket_ok_def two_byte_socket_def min_def)
  have run: "SyncSend two_byte_socket [1, 2, 3] 0 [] = (3, [1, 2, 3])"
    by (simp add: SyncSend.simps two_byte_socket_def)
  from SyncSend_all_or_error [OF ok run] run show ?thesis by simp
qed

end
