(* ===== verification/Std_Map.thy ===== *)
theory Std_Map
  imports Gamnet_Prelude
begin

text \<open>
  \<open>std::map\<close> as the code uses it: the entries in ascending key order. \<open>insert\<close> does not replace an
  existing entry and tells whether it inserted; \<open>operator[]\<close> and iteration with \<open>erase(itr++)\<close> are
  given as well. \<open>map_ok\<close> is the class invariant; \<open>map_of\<close> is the abstract map.
\<close>

type_synonym ('k, 'v) std_map = "('k \<times> 'v) list"

definition map_ok :: "('k :: linorder, 'v) std_map \<Rightarrow> bool" where
  "map_ok m \<longleftrightarrow> sorted_wrt (<) (map fst m)"

definition std_find :: "'k \<Rightarrow> ('k, 'v) std_map \<Rightarrow> 'v option" where
  "std_find k m = map_of m k"

text \<open>Storing under a key, in order; \<open>m[k] = v\<close>.\<close>

fun std_put :: "'k :: linorder \<Rightarrow> 'v \<Rightarrow> ('k, 'v) std_map \<Rightarrow> ('k, 'v) std_map" where
  "std_put k v [] = [(k, v)]"
| "std_put k v ((k', v') # m) =
     (if k < k' then (k, v) # (k', v') # m
      else if k = k' then (k, v) # m
      else (k', v') # std_put k v m)"

definition std_insert :: "'k :: linorder \<Rightarrow> 'v \<Rightarrow> ('k, 'v) std_map \<Rightarrow> bool \<times> ('k, 'v) std_map" where
  "std_insert k v m = (case std_find k m of None \<Rightarrow> (True, std_put k v m) | Some _ \<Rightarrow> (False, m))"

definition std_erase :: "'k \<Rightarrow> ('k, 'v) std_map \<Rightarrow> ('k, 'v) std_map" where
  "std_erase k m = filter (\<lambda>e. fst e \<noteq> k) m"

text \<open>The loop \<open>for(itr = begin(); itr != end();) if(P) erase(itr++); else ++itr;\<close>: what it keeps, and
  what it erased, in order.\<close>

fun std_sweep :: "('k \<times> 'v \<Rightarrow> bool) \<Rightarrow> ('k, 'v) std_map \<Rightarrow> ('k, 'v) std_map \<times> ('k \<times> 'v) list" where
  "std_sweep P [] = ([], [])"
| "std_sweep P (e # m) =
     (case std_sweep P m of (kept, erased) \<Rightarrow> if P e then (kept, e # erased) else (e # kept, erased))"

section \<open>Laws\<close>

named_theorems map_simps

lemma map_ok_Nil [simp, map_simps]: "map_ok []"
  by (simp add: map_ok_def)

lemma std_find_Nil [simp, map_simps]: "std_find k [] = None"
  by (simp add: std_find_def)

lemma keys_std_put [simp]: "fst ` set (std_put k v m) = insert k (fst ` set m)"
  by (induction k v m rule: std_put.induct) auto

lemma map_ok_put [simp, map_simps]: "map_ok m \<Longrightarrow> map_ok (std_put k v m)"
proof (induction k v m rule: std_put.induct)
  case (2 k v k' v' m)
  have "\<forall>x\<in>set (map fst (std_put k v m)). x = k \<or> x \<in> set (map fst m)"
    using keys_std_put [of k v m] by simp
  with 2 show ?case by (auto simp: map_ok_def dest: less_trans)
qed (simp add: map_ok_def)

lemma std_find_put [simp, map_simps]:
  "map_ok m \<Longrightarrow> std_find k' (std_put k v m) = (if k' = k then Some v else std_find k' m)"
  by (induction k v m rule: std_put.induct) (auto simp: std_find_def map_ok_def)

lemma map_ok_erase [simp, map_simps]: "map_ok m \<Longrightarrow> map_ok (std_erase k m)"
  unfolding map_ok_def std_erase_def by (induction m) auto

lemma std_find_erase [simp, map_simps]:
  "std_find k' (std_erase k m) = (if k' = k then None else std_find k' m)"
  unfolding std_find_def std_erase_def by (induction m) auto

lemma map_ok_insert [simp, map_simps]: "map_ok m \<Longrightarrow> map_ok (snd (std_insert k v m))"
  by (auto simp: std_insert_def split: option.splits)

lemma fst_std_insert [simp, map_simps]: "fst (std_insert k v m) \<longleftrightarrow> std_find k m = None"
  by (auto simp: std_insert_def split: option.splits)

lemma std_find_insert [simp, map_simps]:
  "map_ok m \<Longrightarrow> std_find k' (snd (std_insert k v m)) =
     (if k' = k \<and> std_find k m = None then Some v else std_find k' m)"
  by (auto simp: std_insert_def split: option.splits)

lemma std_sweep_filter: "std_sweep P m = (filter (\<lambda>e. \<not> P e) m, filter P m)"
  by (induction m) auto

lemma std_find_iff: "map_ok m \<Longrightarrow> std_find k m = Some v \<longleftrightarrow> (k, v) \<in> set m"
proof -
  assume "map_ok m"
  then have "distinct (map fst m)" unfolding map_ok_def strict_sorted_iff by blast
  then show ?thesis unfolding std_find_def by (rule map_of_eq_Some_iff)
qed

lemma std_find_None: "std_find k m = None \<longleftrightarrow> k \<notin> fst ` set m"
  by (simp add: std_find_def map_of_eq_None_iff)

lemma map_ok_filter [simp, map_simps]: "map_ok m \<Longrightarrow> map_ok (filter P m)"
  unfolding map_ok_def by (induction m) auto

lemma std_find_filter:
  "map_ok m \<Longrightarrow> std_find k (filter P m) = (case std_find k m of Some v \<Rightarrow> if P (k, v) then Some v else None | None \<Rightarrow> None)"
proof -
  assume ok: "map_ok m"
  show ?thesis
  proof (cases "std_find k m")
    case None
    then have "std_find k (filter P m) = None" unfolding std_find_None by auto
    with None show ?thesis by simp
  next
    case (Some v)
    then have e: "(k, w) \<in> set m \<longleftrightarrow> w = v" for w using std_find_iff [OF ok, of k w] by auto
    show ?thesis
    proof (cases "P (k, v)")
      case True
      then have "std_find k (filter P m) = Some v" using ok e by (simp add: std_find_iff)
      with Some True show ?thesis by simp
    next
      case False
      then have "std_find k (filter P m) = None" using e unfolding std_find_None by auto
      with Some False show ?thesis by simp
    qed
  qed
qed

text \<open>Putting an entry into a map that has none under its key adds it.\<close>

lemma set_std_put: "map_ok m \<Longrightarrow> set (std_put k v m) = insert (k, v) {e \<in> set m. fst e \<noteq> k}"
  by (induction k v m rule: std_put.induct) (auto simp: map_ok_def)

lemma length_std_put: "map_ok m \<Longrightarrow> length (std_put k v m) = (if std_find k m = None then Suc (length m) else length m)"
  by (induction k v m rule: std_put.induct) (auto simp: map_ok_def std_find_def map_of_eq_None_iff)

end
