(* ===== verification/Link_Manager.thy ===== *)
theory Link_Manager
  imports Object_Pool Std_Map
begin

text \<open>
  \<^verbatim>\<open>Gamnet/Network/LinkManager.cpp\<close> and the parts of \<^verbatim>\<open>Link.cpp\<close> it drives: accepting connections from
  a bounded pool of links, the table of links by key, closing, and the sweep of idle links. A link is a
  pointer (\<open>nat\<close>), its members are in a store. The model also records which links have been handed out
  and are still referenced (\<open>lm_live\<close>), how many were ever created, and which links the sweep has
  told to close (\<open>lm_closing\<close>); the code does not have these variables. The application's
  \<open>OnAccept\<close>, \<open>OnConnect\<close> and session callbacks are not part of this theory.
\<close>

section \<open>State\<close>

record link_obj =
  link_key :: u32
  link_expire :: int
  link_managed :: bool
  link_sock_open :: bool

record linkman =
  lm_links :: "(u64, nat) std_map"
  lm_pool :: "nat pool"
  lm_acceptable :: bool
  lm_keepalive :: u32
  lm_next_key :: u64
  lm_accepting :: "nat list"
  lm_objs :: "nat \<Rightarrow> link_obj"
  lm_live :: "nat list"
  lm_created :: nat
  lm_closing :: "nat list"

text \<open>\<open>Link::Init\<close>: the socket is left as it is.\<close>

definition link_Init :: "int \<Rightarrow> link_obj \<Rightarrow> link_obj" where
  "link_Init now l = l\<lparr>link_key := 0, link_expire := now, link_managed := False\<rparr>"

section \<open>Operations\<close>

definition lm_set :: "nat \<Rightarrow> (link_obj \<Rightarrow> link_obj) \<Rightarrow> linkman \<Rightarrow> linkman" where
  "lm_set l f m = m\<lparr>lm_objs := (lm_objs m)(l := f (lm_objs m l))\<rparr>"

text \<open>\<open>Create\<close>; \<open>fresh\<close> is the object the pool would construct. The 64-bit counter is stored in the
  link's 32-bit key.\<close>

definition lm_Create :: "int \<Rightarrow> nat \<Rightarrow> linkman \<Rightarrow> nat option \<times> linkman" where
  "lm_Create now fresh m =
     (case pool_Create (Made fresh) (lm_pool m) of
        (Ret (Some l), p) \<Rightarrow>
          (let key = lm_next_key m + 1;
               m = m\<lparr>lm_pool := p, lm_next_key := key, lm_live := l # lm_live m, lm_created := lm_created m + 1\<rparr>
           in (Some l, lm_set l (\<lambda>o'. (link_Init now o')\<lparr>link_key := ucast key\<rparr>) m))
      | (_, p) \<Rightarrow> (None, m\<lparr>lm_pool := p\<rparr>))"

definition lm_Add :: "u64 \<Rightarrow> nat \<Rightarrow> linkman \<Rightarrow> bool \<times> linkman" where
  "lm_Add key l m = (case std_insert key l (lm_links m) of (ok, ls) \<Rightarrow> (ok, m\<lparr>lm_links := ls\<rparr>))"

definition lm_Remove :: "u64 \<Rightarrow> linkman \<Rightarrow> linkman" where
  "lm_Remove key m = (if key = 0 then m else m\<lparr>lm_links := std_erase key (lm_links m)\<rparr>)"

definition lm_Find :: "u64 \<Rightarrow> linkman \<Rightarrow> nat option" where
  "lm_Find key m = std_find key (lm_links m)"

definition lm_Size :: "linkman \<Rightarrow> nat" where
  "lm_Size m = length (lm_links m)"

text \<open>\<open>Link::AttachManager\<close> with this manager (\<open>True\<close>) or \<open>NULL\<close>, run on the link's strand.\<close>

definition AttachManager :: "bool \<Rightarrow> nat \<Rightarrow> linkman \<Rightarrow> linkman" where
  "AttachManager to l m =
     (let m = (if link_managed (lm_objs m l) then lm_Remove (ucast (link_key (lm_objs m l))) m else m);
          m = lm_set l (\<lambda>o'. o'\<lparr>link_managed := to\<rparr>) m
      in if to then snd (lm_Add (ucast (link_key (lm_objs m l))) l m) else m)"

definition lm_Accept :: "int \<Rightarrow> nat \<Rightarrow> linkman \<Rightarrow> linkman" where
  "lm_Accept now fresh m =
     (case lm_Create now fresh m of
        (None, m) \<Rightarrow> m\<lparr>lm_acceptable := False\<rparr>
      | (Some l, m) \<Rightarrow> m\<lparr>lm_accepting := lm_accepting m @ [l]\<rparr>)"

text \<open>The completion of \<open>async_accept\<close>: an error, an exception of the socket calls, or a connection, which
  is attached to the manager. In every case the manager accepts again.\<close>

datatype accept_result = AcceptOk | AcceptThrows | AcceptError

definition lm_Callback_Accept :: "accept_result \<Rightarrow> int \<Rightarrow> nat \<Rightarrow> nat \<Rightarrow> linkman \<Rightarrow> linkman" where
  "lm_Callback_Accept res now fresh l m =
     (let m = m\<lparr>lm_accepting := remove1 l (lm_accepting m)\<rparr>;
          m = (case res of
                 AcceptError \<Rightarrow> m
               | AcceptThrows \<Rightarrow> lm_set l (\<lambda>o'. o'\<lparr>link_sock_open := True\<rparr>) m
               | AcceptOk \<Rightarrow> AttachManager True l (lm_set l (\<lambda>o'. o'\<lparr>link_sock_open := True, link_expire := now\<rparr>) m))
      in lm_Accept now fresh m)"

text \<open>\<open>OnClose\<close>: a manager that ran out of links accepts again if the pool has a free one now.\<close>

definition lm_OnClose :: "int \<Rightarrow> nat \<Rightarrow> linkman \<Rightarrow> linkman" where
  "lm_OnClose now fresh m =
     (if \<not> lm_acceptable m then
        (if 0 < pool_Available (lm_pool m) then lm_Accept now fresh (m\<lparr>lm_acceptable := True\<rparr>) else m)
      else m)"

definition link_OnError :: "int \<Rightarrow> nat \<Rightarrow> nat \<Rightarrow> linkman \<Rightarrow> linkman" where
  "link_OnError now fresh l m =
     (if \<not> link_sock_open (lm_objs m l) then m
      else (let m = (if link_managed (lm_objs m l) then lm_OnClose now fresh m else m);
                m = AttachManager False l m
            in lm_set l (\<lambda>o'. o'\<lparr>link_sock_open := False\<rparr>) m))"

text \<open>The timer callback of \<open>Listen\<close>: idle links leave the table and are told to close; \<open>OnError\<close> runs on
  each one's strand, at once or later.\<close>

definition link_idle :: "int \<Rightarrow> linkman \<Rightarrow> nat \<Rightarrow> bool" where
  "link_idle now m l \<longleftrightarrow> link_expire (lm_objs m l) + uint (lm_keepalive m) < now"

definition lm_sweep :: "int \<Rightarrow> linkman \<Rightarrow> linkman" where
  "lm_sweep now m =
     (case std_sweep (\<lambda>e. link_idle now m (snd e)) (lm_links m) of
        (kept, erased) \<Rightarrow> m\<lparr>lm_links := kept, lm_closing := lm_closing m @ map snd erased\<rparr>)"

definition new_linkman :: linkman where
  "new_linkman = \<lparr>lm_links = [], lm_pool = new_pool 65535, lm_acceptable = True, lm_keepalive = 0, lm_next_key = 0,
     lm_accepting = [], lm_objs = (\<lambda>_. \<lparr>link_key = 0, link_expire = 0, link_managed = False, link_sock_open = False\<rparr>),
     lm_live = [], lm_created = 0, lm_closing = []\<rparr>"

text \<open>\<open>Listen\<close> (the acceptor's socket calls are not modelled): the timer is set for a positive keep-alive
  time, the pool gets its capacity, the first accept is started.\<close>

definition lm_Listen :: "int \<Rightarrow> int \<Rightarrow> int \<Rightarrow> nat \<Rightarrow> linkman \<Rightarrow> linkman" where
  "lm_Listen max_session keep_alive_sec now fresh m =
     (let m = (if 0 < keep_alive_sec then m\<lparr>lm_keepalive := of_int keep_alive_sec\<rparr> else m)
      in lm_Accept now fresh (m\<lparr>lm_pool := pool_set_Capacity max_session (lm_pool m)\<rparr>))"

section \<open>Runs\<close>

text \<open>A fresh object is one the pool has never handed out. A link returns to the pool when its last
  reference is gone: it is not being accepted and not in the table, and its handlers have finished.\<close>

definition lm_fresh :: "nat \<Rightarrow> linkman \<Rightarrow> bool" where
  "lm_fresh x m \<longleftrightarrow> x \<notin> set (lstObjectPtr (lm_pool m)) \<union> set (lm_live m)"

inductive lm_step :: "linkman \<Rightarrow> linkman \<Rightarrow> bool" where
  accepted: "l \<in> set (lm_accepting m) \<Longrightarrow> lm_fresh x m \<Longrightarrow> lm_step m (lm_Callback_Accept res now x l m)"
| error: "l \<in> set (lm_live m) \<Longrightarrow> l \<notin> set (lm_accepting m) \<Longrightarrow> lm_fresh x m \<Longrightarrow> lm_step m (link_OnError now x l m)"
| received: "l \<in> set (lm_live m) \<Longrightarrow> lm_step m (lm_set l (\<lambda>o'. o'\<lparr>link_expire := now\<rparr>) m)"
| sweeps: "lm_step m (lm_sweep now m)"
| released: "l \<in> set (lm_live m) \<Longrightarrow> l \<notin> set (lm_accepting m) \<Longrightarrow> l \<notin> snd ` set (lm_links m) \<Longrightarrow>
    lm_step m (m\<lparr>lm_pool := pool_Restitute (Some l) (lm_pool m), lm_live := remove1 l (lm_live m)\<rparr>)"

section \<open>Invariant\<close>

definition lm_sys :: "linkman \<Rightarrow> nat pool_sys" where
  "lm_sys m = \<lparr>pl = lm_pool m, live = lm_live m, lost = 0\<rparr>"

text \<open>The table maps a key to a live, attached link with that key; the keys of live links are the
  distinct numbers the counter gave them. Beyond \<open>2^32\<close> created links the 32-bit keys repeat and none
  of this is promised.\<close>

definition links_ok :: "linkman \<Rightarrow> bool" where
  "links_ok m \<longleftrightarrow> map_ok (lm_links m) \<and>
     (\<forall>(k, l)\<in>set (lm_links m). l \<in> set (lm_live m) \<and> link_managed (lm_objs m l) \<and> k = ucast (link_key (lm_objs m l))) \<and>
     (\<forall>l\<in>set (lm_accepting m). \<not> link_managed (lm_objs m l)) \<and>
     (\<forall>l\<in>set (lm_live m). 0 < unat (link_key (lm_objs m l)) \<and> unat (link_key (lm_objs m l)) \<le> lm_created m) \<and>
     inj_on (\<lambda>l. link_key (lm_objs m l)) (set (lm_live m)) \<and>
     lm_next_key m = of_nat (lm_created m)"

definition lm_core :: "nat \<Rightarrow> linkman \<Rightarrow> bool" where
  "lm_core n m \<longleftrightarrow> pool_inv n (lm_sys m) \<and> set (lm_accepting m) \<subseteq> set (lm_live m) \<and>
     (lm_created m < 2 ^ 32 \<longrightarrow> links_ok m)"

text \<open>The manager waits for exactly one connection unless it ran out of links.\<close>

definition lm_waiting :: "linkman \<Rightarrow> bool" where
  "lm_waiting m \<longleftrightarrow> length (lm_accepting m) \<le> 1 \<and> (lm_accepting m = [] \<longleftrightarrow> \<not> lm_acceptable m)"

lemma lm_set_simps [simp]:
  "lm_links (lm_set l f m) = lm_links m" "lm_pool (lm_set l f m) = lm_pool m"
  "lm_acceptable (lm_set l f m) = lm_acceptable m" "lm_keepalive (lm_set l f m) = lm_keepalive m"
  "lm_next_key (lm_set l f m) = lm_next_key m" "lm_accepting (lm_set l f m) = lm_accepting m"
  "lm_live (lm_set l f m) = lm_live m" "lm_created (lm_set l f m) = lm_created m"
  "lm_closing (lm_set l f m) = lm_closing m" "lm_objs (lm_set l f m) = (lm_objs m)(l := f (lm_objs m l))"
  "lm_sys (lm_set l f m) = lm_sys m"
  by (simp_all add: lm_set_def lm_sys_def)

text \<open>Changing members other than the key and the manager.\<close>

lemma links_ok_cong:
  assumes "\<And>l. link_key (lm_objs m' l) = link_key (lm_objs m l)"
    and "\<And>l. link_managed (lm_objs m' l) = link_managed (lm_objs m l)"
    and "lm_links m' = lm_links m" "lm_accepting m' = lm_accepting m" "lm_live m' = lm_live m"
    "lm_created m' = lm_created m" "lm_next_key m' = lm_next_key m"
  shows "links_ok m' = links_ok m"
  unfolding links_ok_def assms ..

lemma lm_core_set:
  assumes "lm_core n m" and "\<And>o'. link_key (f o') = link_key o' \<and> link_managed (f o') = link_managed o'"
  shows "lm_core n (lm_set l f m)"
proof -
  have "links_ok (lm_set l f m) = links_ok m"
    by (rule links_ok_cong) (simp_all add: assms(2))
  with assms(1) show ?thesis by (simp add: lm_core_def)
qed

lemma lm_Create_cases:
  assumes "pool_inv n (lm_sys m)" and "lm_fresh x m"
  obtains "lm_Create now x m = (None, m)" "length (lm_live m) = n"
  | l p where "lm_Create now x m = (Some l, lm_set l (\<lambda>o'. (link_Init now o')\<lparr>link_key := ucast (lm_next_key m + 1)\<rparr>)
        (m\<lparr>lm_pool := p, lm_next_key := lm_next_key m + 1, lm_live := l # lm_live m, lm_created := lm_created m + 1\<rparr>))"
      "l \<notin> set (lm_live m)" "pool_inv n \<lparr>pl = p, live = l # lm_live m, lost = 0\<rparr>" "length (lm_live m) < n"
proof -
  have inv: "pool_inv n \<lparr>pl = lm_pool m, live = lm_live m, lost = 0\<rparr>" using assms(1) by (simp add: lm_sys_def)
  obtain r p where c: "pool_Create (Made x) (lm_pool m) = (r, p)" by fastforce
  then consider "r = Ret None" | y where "r = Ret (Some y)"
    by (auto simp: pool_Create.simps Let_def split: if_splits list.splits)
  then show thesis
  proof cases
    case 1
    with c have "p = lm_pool m" by (simp add: pool_Create_Made_None)
    moreover have "length (lm_live m) = n"
      using pool_Create_None_iff [OF inv, of x] c 1 by simp
    ultimately show thesis using that(1) c 1 by (simp add: lm_Create_def)
  next
    case (2 y)
    have "pool_step \<lparr>pl = lm_pool m, live = lm_live m, lost = 0\<rparr> (\<lparr>pl = lm_pool m, live = lm_live m, lost = 0\<rparr>
        \<lparr>pl := p, live := y # lm_live m\<rparr>)"
      using pool_step.create_ok [of x "\<lparr>pl = lm_pool m, live = lm_live m, lost = 0\<rparr>" y p] assms(2) c 2
      by (simp add: lm_fresh_def)
    from pool_inv_step [OF inv this] have inv': "pool_inv n \<lparr>pl = p, live = y # lm_live m, lost = 0\<rparr>" by simp
    then have "y \<notin> set (lm_live m)" "length (lm_live m) < n" by (auto simp: pool_inv_def)
    with inv' c 2 show thesis using that(2) by (simp add: lm_Create_def Let_def)
  qed
qed

lemma links_ok_Create:
  fixes now p
  assumes "links_ok m" and "lm_created m + 1 < 2 ^ 32" and "l \<notin> set (lm_live m)"
  defines "m' \<equiv> lm_set l (\<lambda>o'. (link_Init now o')\<lparr>link_key := ucast (lm_next_key m + 1)\<rparr>)
        (m\<lparr>lm_pool := p, lm_next_key := lm_next_key m + 1, lm_live := l # lm_live m, lm_created := lm_created m + 1\<rparr>)"
  shows "links_ok m'"
proof -
  have "unat (ucast (of_nat N :: u64) :: u32) = N" if "N < 2 ^ 32" for N
    using that by (simp add: unsigned_ucast_eq unat_of_nat take_bit_nat_def)
  from this [of "Suc (lm_created m)"] have "unat (ucast (of_nat (Suc (lm_created m)) :: u64) :: u32) = Suc (lm_created m)"
    using assms(2) by (simp only: Suc_eq_plus1)
  note N = this
  have nk: "lm_next_key m + 1 = of_nat (Suc (lm_created m))" using assms(1) by (simp add: links_ok_def)
  have k: "unat (ucast (lm_next_key m + 1) :: u32) = Suc (lm_created m)" unfolding nk by (rule N)
  have new: "link_key (lm_objs m l') \<noteq> ucast (lm_next_key m + 1)" if "l' \<in> set (lm_live m)" for l'
  proof -
    have "unat (link_key (lm_objs m l')) \<le> lm_created m" using assms(1) that by (simp add: links_ok_def)
    then have "unat (link_key (lm_objs m l')) \<noteq> unat (ucast (lm_next_key m + 1) :: u32)" unfolding k by simp
    then show ?thesis by metis
  qed
  have obj: "lm_objs m' l' = (if l' = l then (link_Init now (lm_objs m l))\<lparr>link_key := ucast (lm_next_key m + 1)\<rparr> else lm_objs m l')"
    for l' by (simp add: m'_def)
  have fields: "lm_links m' = lm_links m" "lm_accepting m' = lm_accepting m" "lm_live m' = l # lm_live m"
    "lm_created m' = Suc (lm_created m)" "lm_next_key m' = of_nat (Suc (lm_created m))"
    using assms(1) by (simp_all add: m'_def links_ok_def)
  have un: "\<not> link_managed (link_Init now (lm_objs m l))" by (simp add: link_Init_def)
  show ?thesis
    unfolding links_ok_def fields
  proof (intro conjI)
    show "map_ok (lm_links m)" using assms(1) by (simp add: links_ok_def)
    show "\<forall>(k, l')\<in>set (lm_links m). l' \<in> set (l # lm_live m) \<and> link_managed (lm_objs m' l') \<and> k = ucast (link_key (lm_objs m' l'))"
      using assms(1,3) by (auto simp: links_ok_def obj)
    show "\<forall>l'\<in>set (lm_accepting m). \<not> link_managed (lm_objs m' l')"
      using assms(1) un by (auto simp: links_ok_def obj)
    show "\<forall>l'\<in>set (l # lm_live m). 0 < unat (link_key (lm_objs m' l')) \<and> unat (link_key (lm_objs m' l')) \<le> Suc (lm_created m)"
      using assms(1) k by (auto simp: links_ok_def obj)
    show "inj_on (\<lambda>l'. link_key (lm_objs m' l')) (set (l # lm_live m))"
    proof (rule inj_onI)
      fix a b
      assume ab: "a \<in> set (l # lm_live m)" "b \<in> set (l # lm_live m)"
        "link_key (lm_objs m' a) = link_key (lm_objs m' b)"
      have inj: "inj_on (\<lambda>l'. link_key (lm_objs m l')) (set (lm_live m))" using assms(1) by (simp add: links_ok_def)
      show "a = b"
      proof (cases "a = l \<or> b = l")
        case True
        then show ?thesis using ab new [of a] new [of b] unfolding obj by (auto split: if_splits)
      next
        case False
        then show ?thesis using ab inj_onD [OF inj, of a b] unfolding obj by simp
      qed
    qed
  qed simp
qed

lemma lm_Create_core:
  assumes core: "lm_core n m" and x: "lm_fresh x m" and c: "lm_Create now x m = (Some l, m')"
  shows "lm_core n m'" and "lm_live m' = l # lm_live m" and "lm_accepting m' = lm_accepting m"
    and "lm_acceptable m' = lm_acceptable m" and "\<not> link_managed (lm_objs m' l)"
proof -
  have inv: "pool_inv n (lm_sys m)" using core by (simp add: lm_core_def)
  obtain p where m': "m' = lm_set l (\<lambda>o'. (link_Init now o')\<lparr>link_key := ucast (lm_next_key m + 1)\<rparr>)
        (m\<lparr>lm_pool := p, lm_next_key := lm_next_key m + 1, lm_live := l # lm_live m, lm_created := lm_created m + 1\<rparr>)"
    and l: "l \<notin> set (lm_live m)" "pool_inv n \<lparr>pl = p, live = l # lm_live m, lost = 0\<rparr>"
    using lm_Create_cases [OF inv x, of now] c by auto
  show "lm_live m' = l # lm_live m" "lm_accepting m' = lm_accepting m" "lm_acceptable m' = lm_acceptable m"
    "\<not> link_managed (lm_objs m' l)" by (simp_all add: m' link_Init_def)
  have "lm_created m' < 2 ^ 32 \<Longrightarrow> links_ok m'"
    using core l(1) unfolding m' by (intro links_ok_Create) (simp_all add: lm_core_def)
  then show "lm_core n m'" using core l(2) by (auto simp: lm_core_def m' lm_sys_def)
qed

lemma lm_Create_None: "pool_inv n (lm_sys m) \<Longrightarrow> lm_fresh x m \<Longrightarrow> lm_Create now x m = (None, m') \<Longrightarrow>
    m' = m \<and> length (lm_live m) = n"
  by (rule lm_Create_cases [of n m x now]) auto

lemma lm_Accept_core:
  assumes core: "lm_core n m" and x: "lm_fresh x m" and w: "lm_accepting m = []" "lm_acceptable m"
  shows "lm_core n (lm_Accept now x m) \<and> lm_waiting (lm_Accept now x m) \<and>
    (lm_acceptable (lm_Accept now x m) \<longleftrightarrow> length (lm_live m) < n)"
proof (cases "lm_Create now x m")
  case (Pair r m')
  have inv: "pool_inv n (lm_sys m)" using core by (simp add: lm_core_def)
  show ?thesis
  proof (cases r)
    case None
    with Pair have m': "m' = m" "length (lm_live m) = n" using lm_Create_None [OF inv x] by auto
    have "lm_core n (m\<lparr>lm_acceptable := False\<rparr>)"
      using core by (simp add: lm_core_def lm_sys_def links_ok_def)
    with None Pair m' w show ?thesis by (simp add: lm_Accept_def lm_waiting_def)
  next
    case (Some l)
    note c = lm_Create_core [OF core x Pair [unfolded Some]]
    have "links_ok m' \<Longrightarrow> links_ok (m'\<lparr>lm_accepting := [l]\<rparr>)"
      using c(5) by (simp add: links_ok_def)
    then have "lm_core n (m'\<lparr>lm_accepting := [l]\<rparr>)"
      using c(1,2) by (simp add: lm_core_def lm_sys_def)
    moreover have "length (lm_live m) < n" using lm_Create_cases [OF inv x, of now] Pair Some by auto
    ultimately show ?thesis using Some Pair w c(3,4) by (simp add: lm_Accept_def lm_waiting_def)
  qed
qed

lemma unat_key: "unat (ucast (k :: u32) :: u64) = unat k"
proof -
  have "unat k < 2 ^ 32" using unsigned_less [of k, where ?'a = nat] by simp
  then show ?thesis by (simp add: unsigned_ucast_eq take_bit_nat_def)
qed

lemma lm_core_attach:
  assumes core: "lm_core n m" and l: "l \<in> set (lm_live m)" "l \<notin> set (lm_accepting m)" "to \<longrightarrow> \<not> link_managed (lm_objs m l)"
  shows "lm_core n (AttachManager to l m)"
proof -
  let ?k = "ucast (link_key (lm_objs m l)) :: u64"
  have fields: "lm_sys (AttachManager to l m) = lm_sys m" "lm_accepting (AttachManager to l m) = lm_accepting m"
    "lm_live (AttachManager to l m) = lm_live m" "lm_created (AttachManager to l m) = lm_created m"
    "lm_next_key (AttachManager to l m) = lm_next_key m"
    "lm_objs (AttachManager to l m) = (lm_objs m)(l := (lm_objs m l)\<lparr>link_managed := to\<rparr>)"
    by (auto simp: AttachManager_def Let_def lm_Add_def lm_Remove_def lm_sys_def split: prod.splits)
  have "links_ok (AttachManager to l m)" if ok: "links_ok m"
  proof -
    have "unat (link_key (lm_objs m l)) \<noteq> 0" using ok l(1) by (auto simp: links_ok_def)
    then have k0: "?k \<noteq> 0" using unat_key [of "link_key (lm_objs m l)"] by auto
    have links: "lm_links (AttachManager to l m) =
        (let ls = (if link_managed (lm_objs m l) then std_erase ?k (lm_links m) else lm_links m)
         in if to then snd (std_insert ?k l ls) else ls)"
      using k0 by (auto simp: AttachManager_def Let_def lm_Add_def lm_Remove_def split: prod.splits)
    let ?ls = "lm_links (AttachManager to l m)"
    have ls: "map_ok ?ls" using ok by (auto simp: links Let_def links_ok_def)
    have old: "l' \<in> set (lm_live m) \<and> link_managed (lm_objs m l') \<and> k = ucast (link_key (lm_objs m l'))"
      if "(k, l') \<in> set (lm_links m)" for k l' using ok that by (auto simp: links_ok_def)
    have entry: "l' \<in> set (lm_live m) \<and> (l' = l \<longrightarrow> to) \<and> (l' \<noteq> l \<longrightarrow> link_managed (lm_objs m l')) \<and>
        k = ucast (link_key (lm_objs m l'))" if e: "(k, l') \<in> set ?ls" for k l'
    proof (cases "(k, l') \<in> set (lm_links m) \<and> (link_managed (lm_objs m l) \<longrightarrow> k \<noteq> ?k)")
      case True
      then have "l' \<noteq> l" using old by blast
      with True old show ?thesis by blast
    next
      case False
      have "to \<and> k = ?k \<and> l' = l"
      proof (cases to)
        case True
        then have "\<not> link_managed (lm_objs m l)" using l(3) by simp
        moreover from this True e have "(k, l') \<in> set (snd (std_insert ?k l (lm_links m)))" unfolding links by simp
        moreover have "map_ok (lm_links m)" using ok by (simp add: links_ok_def)
        ultimately show ?thesis
          using True False by (auto simp: std_insert_def set_std_put split: option.splits)
      next
        case no: False
        from e have "(k, l') \<in> set (if link_managed (lm_objs m l) then std_erase ?k (lm_links m) else lm_links m)"
          using no unfolding links by (simp add: Let_def)
        with False show ?thesis by (auto simp: std_erase_def split: if_splits)
      qed
      then show ?thesis using l(1) by simp
    qed
    have obj: "lm_objs (AttachManager to l m) l' = (if l' = l then (lm_objs m l)\<lparr>link_managed := to\<rparr> else lm_objs m l')"
      for l' by (simp add: fields)
    show ?thesis
      unfolding links_ok_def fields(2-5)
    proof (intro conjI)
      show "\<forall>(k, l')\<in>set ?ls. l' \<in> set (lm_live m) \<and> link_managed (lm_objs (AttachManager to l m) l') \<and>
          k = ucast (link_key (lm_objs (AttachManager to l m) l'))"
        using entry by (auto simp: obj)
      show "\<forall>l'\<in>set (lm_accepting m). \<not> link_managed (lm_objs (AttachManager to l m) l')"
        using ok l(2) by (auto simp: links_ok_def obj)
      show "\<forall>l'\<in>set (lm_live m). 0 < unat (link_key (lm_objs (AttachManager to l m) l')) \<and>
          unat (link_key (lm_objs (AttachManager to l m) l')) \<le> lm_created m"
        using ok by (auto simp: links_ok_def obj)
      have "link_key (lm_objs (AttachManager to l m) l') = link_key (lm_objs m l')" for l' by (simp add: obj)
      then show "inj_on (\<lambda>l'. link_key (lm_objs (AttachManager to l m) l')) (set (lm_live m))"
        using ok by (simp add: links_ok_def)
    qed (use ls ok in \<open>simp_all add: links_ok_def\<close>)
  qed
  with core fields show ?thesis by (simp add: lm_core_def)
qed

lemma lm_OnClose_core:
  assumes core: "lm_core n m" and w: "lm_waiting m" and x: "lm_fresh x m" and n: "n < 2 ^ 64"
  shows "lm_core n (lm_OnClose now x m) \<and> lm_waiting (lm_OnClose now x m) \<and>
    (lm_acceptable (lm_OnClose now x m) \<longleftrightarrow> lm_acceptable m \<or> length (lm_live m) < n)"
proof (cases "lm_acceptable m")
  case True
  with core w show ?thesis by (simp add: lm_OnClose_def)
next
  case False
  have "pool_inv n (lm_sys m)" using core by (simp add: lm_core_def)
  from pool_Available_eq [OF this n] have av: "0 < pool_Available (lm_pool m) \<longleftrightarrow> length (lm_live m) < n"
    by (simp add: lm_sys_def)
  have "lm_core n (m\<lparr>lm_acceptable := True\<rparr>)" using core by (simp add: lm_core_def lm_sys_def links_ok_def)
  from lm_Accept_core [OF this, of x now] False w x av core show ?thesis
    by (auto simp: lm_OnClose_def lm_waiting_def lm_fresh_def)
qed

text \<open>What accepting does not touch.\<close>

lemma lm_Create_frame:
  "lm_links (snd (lm_Create now x m)) = lm_links m \<and>
   (\<forall>l\<in>set (lm_live m). pool_inv n (lm_sys m) \<and> lm_fresh x m \<longrightarrow>
      lm_objs (snd (lm_Create now x m)) l = lm_objs m l \<and> l \<in> set (lm_live (snd (lm_Create now x m))))"
proof (intro conjI ballI impI)
  show "lm_links (snd (lm_Create now x m)) = lm_links m"
    by (simp add: lm_Create_def Let_def split: prod.splits outcome.splits option.splits)
  fix l assume l: "l \<in> set (lm_live m)" and i: "pool_inv n (lm_sys m) \<and> lm_fresh x m"
  from i have "pool_inv n (lm_sys m)" "lm_fresh x m" by auto
  then show "lm_objs (snd (lm_Create now x m)) l = lm_objs m l" "l \<in> set (lm_live (snd (lm_Create now x m)))"
    using l by (rule_tac lm_Create_cases [of n m x now]; auto)+
qed

lemma lm_OnClose_frame:
  assumes "pool_inv n (lm_sys m)" and "lm_fresh x m" and "l \<in> set (lm_live m)"
  shows "lm_objs (lm_OnClose now x m) l = lm_objs m l" and "l \<in> set (lm_live (lm_OnClose now x m))"
    and "lm_links (lm_OnClose now x m) = lm_links m"
    and "l \<notin> set (lm_accepting m) \<Longrightarrow> l \<notin> set (lm_accepting (lm_OnClose now x m))"
proof -
  let ?m = "m\<lparr>lm_acceptable := True\<rparr>"
  have i: "pool_inv n (lm_sys ?m)" "lm_fresh x ?m" "l \<in> set (lm_live ?m)"
    using assms by (simp_all add: lm_sys_def lm_fresh_def)
  note f = lm_Create_frame [of now x ?m n]
  show "lm_objs (lm_OnClose now x m) l = lm_objs m l" "l \<in> set (lm_live (lm_OnClose now x m))"
    "lm_links (lm_OnClose now x m) = lm_links m"
    using i f assms(3) by (auto simp: lm_OnClose_def lm_Accept_def split: prod.splits option.splits)
  show "l \<notin> set (lm_accepting m) \<Longrightarrow> l \<notin> set (lm_accepting (lm_OnClose now x m))"
    using assms(3) by (rule_tac lm_Create_cases [OF i(1,2), of now])
      (auto simp: lm_OnClose_def lm_Accept_def)
qed

lemma link_OnError_core:
  assumes core: "lm_core n m" and w: "lm_waiting m" and x: "lm_fresh x m" and n: "n < 2 ^ 64"
    and l: "l \<in> set (lm_live m)" "l \<notin> set (lm_accepting m)"
  shows "lm_core n (link_OnError now x l m) \<and> lm_waiting (link_OnError now x l m) \<and>
    (lm_acceptable (link_OnError now x l m) \<longleftrightarrow> lm_acceptable m \<or>
      link_sock_open (lm_objs m l) \<and> link_managed (lm_objs m l) \<and> length (lm_live m) < n)"
proof (cases "link_sock_open (lm_objs m l)")
  case True
  define m1 where "m1 = (if link_managed (lm_objs m l) then lm_OnClose now x m else m)"
  have inv: "pool_inv n (lm_sys m)" using core by (simp add: lm_core_def)
  have m1: "lm_core n m1" "lm_waiting m1" "l \<in> set (lm_live m1)" "l \<notin> set (lm_accepting m1)"
    "lm_acceptable m1 \<longleftrightarrow> lm_acceptable m \<or> link_managed (lm_objs m l) \<and> length (lm_live m) < n"
    using lm_OnClose_core [OF core w x n, of now] lm_OnClose_frame [OF inv x l(1), of now] core w l
    by (auto simp: m1_def)
  let ?m2 = "AttachManager False l m1"
  have "lm_core n ?m2" using m1 by (intro lm_core_attach) simp_all
  then have "lm_core n (lm_set l (\<lambda>o'. o'\<lparr>link_sock_open := False\<rparr>) ?m2)" by (rule lm_core_set) simp
  moreover have "lm_waiting ?m2 = lm_waiting m1" "lm_acceptable ?m2 = lm_acceptable m1"
    by (simp_all add: lm_waiting_def AttachManager_def Let_def lm_Remove_def)
  moreover have "link_OnError now x l m = lm_set l (\<lambda>o'. o'\<lparr>link_sock_open := False\<rparr>) ?m2"
    using True by (simp add: link_OnError_def m1_def Let_def)
  ultimately show ?thesis using m1 True by (simp add: lm_waiting_def)
next
  case False
  with core w show ?thesis by (simp add: link_OnError_def)
qed

lemma lm_Callback_Accept_core:
  assumes core: "lm_core n m" and w: "lm_waiting m" and x: "lm_fresh x m" and l: "l \<in> set (lm_accepting m)"
  shows "lm_core n (lm_Callback_Accept res now x l m) \<and> lm_waiting (lm_Callback_Accept res now x l m) \<and>
    (lm_acceptable (lm_Callback_Accept res now x l m) \<longleftrightarrow> length (lm_live m) < n)"
proof -
  let ?m1 = "m\<lparr>lm_accepting := remove1 l (lm_accepting m)\<rparr>"
  have acc: "lm_accepting m = [l]" "lm_acceptable m"
    using w l by (cases "lm_accepting m"; auto simp: lm_waiting_def)+
  have un: "lm_created m < 2 ^ 32 \<Longrightarrow> \<not> link_managed (lm_objs m l)"
    using core l by (auto simp: lm_core_def links_ok_def)
  have live: "l \<in> set (lm_live m)" using core l by (auto simp: lm_core_def)
  have m1: "lm_core n ?m1" using core acc by (simp add: lm_core_def lm_sys_def links_ok_def)
  define m2 where "m2 = (case res of AcceptError \<Rightarrow> ?m1
    | AcceptThrows \<Rightarrow> lm_set l (\<lambda>o'. o'\<lparr>link_sock_open := True\<rparr>) ?m1
    | AcceptOk \<Rightarrow> AttachManager True l (lm_set l (\<lambda>o'. o'\<lparr>link_sock_open := True, link_expire := now\<rparr>) ?m1))"
  have fr: "lm_accepting m2 = []" "lm_acceptable m2" "lm_fresh x m2" "lm_sys m2 = lm_sys m" "lm_created m2 = lm_created m"
    "lm_live m2 = lm_live m"
    using acc x by (auto simp: m2_def AttachManager_def Let_def lm_Add_def lm_Remove_def lm_sys_def lm_fresh_def
        split: accept_result.splits prod.splits)
  have "lm_core n m2"
  proof (cases "lm_created m < 2 ^ 32")
    case True
    show ?thesis
    proof (cases res)
      case AcceptOk
      have "lm_core n (lm_set l (\<lambda>o'. o'\<lparr>link_sock_open := True, link_expire := now\<rparr>) ?m1)"
        using m1 by (rule lm_core_set) simp
      then show ?thesis
        using AcceptOk un [OF True] live acc by (simp add: m2_def) (rule lm_core_attach; simp)
    next
      case AcceptThrows
      then show ?thesis using lm_core_set [OF m1, of "\<lambda>o'. o'\<lparr>link_sock_open := True\<rparr>"] by (simp add: m2_def)
    qed (simp add: m2_def m1)
  next
    case False
    with core fr show ?thesis by (simp add: lm_core_def)
  qed
  from lm_Accept_core [OF this fr(3) fr(1,2), of now] fr(6) show ?thesis
    by (simp add: lm_Callback_Accept_def Let_def m2_def)
qed

lemma lm_sweep_core:
  assumes "lm_core n m" and "lm_waiting m"
  shows "lm_core n (lm_sweep now m) \<and> lm_waiting (lm_sweep now m)"
proof -
  have "links_ok m \<Longrightarrow> links_ok (lm_sweep now m)"
    by (simp add: links_ok_def lm_sweep_def std_sweep_filter)
  then show ?thesis
    using assms by (simp add: lm_core_def lm_waiting_def lm_sys_def lm_sweep_def std_sweep_filter)
qed

lemma lm_release_core:
  assumes core: "lm_core n m" and w: "lm_waiting m"
    and l: "l \<in> set (lm_live m)" "l \<notin> set (lm_accepting m)" "l \<notin> snd ` set (lm_links m)"
  defines "m' \<equiv> m\<lparr>lm_pool := pool_Restitute (Some l) (lm_pool m), lm_live := remove1 l (lm_live m)\<rparr>"
  shows "lm_core n m' \<and> lm_waiting m'"
proof -
  have inv: "pool_inv n (lm_sys m)" using core by (simp add: lm_core_def)
  have "pool_step (lm_sys m) (lm_sys m')"
    using pool_step.release [of l "lm_sys m"] l(1) by (simp add: lm_sys_def m'_def)
  then have inv': "pool_inv n (lm_sys m')" using inv by (blast intro: pool_inv_step)
  have d: "set (remove1 l (lm_live m)) = set (lm_live m) - {l}" using inv by (simp add: pool_inv_def lm_sys_def)
  have "links_ok m'" if ok: "links_ok m"
    unfolding links_ok_def
  proof (intro conjI)
    show "inj_on (\<lambda>l. link_key (lm_objs m' l)) (set (lm_live m'))"
      using ok by (auto simp: links_ok_def m'_def d intro: inj_on_subset)
  qed (use ok l(3) in \<open>force simp: links_ok_def m'_def d\<close>)+
  then show ?thesis
    using core w inv' l d by (auto simp: lm_core_def lm_waiting_def m'_def)
qed

lemma lm_step_core:
  assumes "lm_core n m \<and> lm_waiting m" and "n < 2 ^ 64" and "lm_step m m'"
  shows "lm_core n m' \<and> lm_waiting m'"
  using assms(3)
proof cases
  case (accepted l x res now)
  then show ?thesis using assms(1) lm_Callback_Accept_core by blast
next
  case (error l x now)
  then show ?thesis using assms(1,2) link_OnError_core by blast
next
  case (received l now)
  have "lm_core n m'" unfolding received(1) using assms(1) by (intro lm_core_set) simp_all
  then show ?thesis using assms(1) by (simp add: received(1) lm_waiting_def)
next
  case (sweeps now)
  then show ?thesis using assms(1) lm_sweep_core by blast
next
  case (released l)
  then show ?thesis using assms(1) lm_release_core by blast
qed

lemma lm_Listen_core:
  assumes "0 \<le> max_session" and "max_session < 2 ^ 31"
  shows "lm_core (nat max_session) (lm_Listen max_session keep now x new_linkman) \<and>
    lm_waiting (lm_Listen max_session keep now x new_linkman)"
proof -
  define m where "m = (let m = (if 0 < keep then new_linkman\<lparr>lm_keepalive := of_int keep\<rparr> else new_linkman)
    in m\<lparr>lm_pool := pool_set_Capacity max_session (lm_pool m)\<rparr>)"
  have "lm_core (nat max_session) m" "lm_fresh x m" "lm_accepting m = []" "lm_acceptable m"
    using assms by (auto simp: m_def new_linkman_def lm_core_def lm_sys_def links_ok_def pool_inv_def new_pool_def
        pool_set_Capacity_def lm_fresh_def Let_def)
  from lm_Accept_core [OF this, of now] show ?thesis
    by (auto simp: lm_Listen_def m_def Let_def)
qed

interpretation link_manager: invariant_system "\<lambda>m. lm_core n m \<and> lm_waiting m \<and> n < 2 ^ 64" lm_step
  "\<lambda>m. lm_core n m \<and> lm_waiting m \<and> n < 2 ^ 64" for n
  by unfold_locales (use lm_step_core in blast)+

lemma lm_run_core:
  assumes "0 \<le> max_session" and "max_session < 2 ^ 31"
    and "lm_step\<^sup>*\<^sup>* (lm_Listen max_session keep now x new_linkman) m"
  shows "lm_core (nat max_session) m" and "lm_waiting m"
  using link_manager.inv_reachable [OF _ assms(3), of "nat max_session"] lm_Listen_core [OF assms(1,2)] assms(2)
  by auto

section \<open>Properties\<close>


lemmas lm_defs = lm_Listen_def lm_Accept_def lm_Create_def lm_Callback_Accept_def AttachManager_def lm_Add_def
  lm_Remove_def lm_set_def link_OnError_def lm_OnClose_def link_Init_def new_linkman_def new_pool_def
  pool_set_Capacity_def pool_Create.simps pool_Available_def std_insert_def std_erase_def std_find_def

definition one_link :: linkman where
  "one_link = lm_Callback_Accept AcceptOk 5 8 7 (lm_Listen 2 0 1 7 new_linkman)"

lemma one_link_run: "lm_step\<^sup>*\<^sup>* (lm_Listen 2 0 1 7 new_linkman) one_link"
  unfolding one_link_def
  by (rule r_into_rtranclp, rule lm_step.accepted) (simp_all add: lm_defs lm_fresh_def)


text \<open>When a listener that ran out of links loses one, it starts to accept again exactly if some other
  link was already back in the pool: the closing link itself is still referenced by the handler that
  closes it and does not count.\<close>

theorem OnClose_resumes_accept:
  assumes "0 \<le> max_session" and "max_session < 2 ^ 31"
    and "lm_step\<^sup>*\<^sup>* (lm_Listen max_session keep now0 x0 new_linkman) m" and "\<not> lm_acceptable m"
    and "l \<in> set (lm_live m)" and "link_sock_open (lm_objs m l)" and "link_managed (lm_objs m l)" and "lm_fresh x m"
  shows "lm_accepting (link_OnError now x l m) \<noteq> [] \<longleftrightarrow> length (lm_live m) < nat max_session"
proof -
  note inv = lm_run_core [OF assms(1-3)]
  have acc: "lm_accepting m = []" using inv(2) assms(4) by (simp add: lm_waiting_def)
  have "nat max_session < 2 ^ 64" using assms(1,2) by simp
  from link_OnError_core [OF inv assms(8) this assms(5), of now] acc assms(4,6,7)
  show ?thesis by (simp add: lm_waiting_def)
qed

definition full_link :: linkman where
  "full_link = lm_Callback_Accept AcceptOk 5 9 8 one_link"

lemma OnClose_resumes_accept_witness:
  "\<not> lm_acceptable full_link \<and> lm_accepting (link_OnError 6 9 8 full_link) = []"
proof -
  have "lm_step one_link full_link"
    unfolding full_link_def by (rule lm_step.accepted) (simp_all add: one_link_def lm_defs lm_fresh_def Let_def)
  with one_link_run have run: "lm_step\<^sup>*\<^sup>* (lm_Listen 2 0 1 7 new_linkman) full_link" by simp
  have e: "\<not> lm_acceptable full_link" "8 \<in> set (lm_live full_link)" "link_sock_open (lm_objs full_link 8)"
    "link_managed (lm_objs full_link 8)" "lm_fresh 9 full_link" "length (lm_live full_link) = 2"
    by (simp_all add: full_link_def one_link_def lm_defs lm_fresh_def Let_def)
  from OnClose_resumes_accept [OF _ _ run e(1-5), of 6] e show ?thesis by simp
qed

text \<open>A listener for one session accepts once in its life: from its first connection on, whatever
  happens (the client disconnecting, its link returning to the pool), no accept is ever outstanding.\<close>

theorem single_session_listener_stalls:
  assumes "lm_accepting (lm_Listen 1 keep now0 x0 new_linkman) = [l]" and "lm_fresh x (lm_Listen 1 keep now0 x0 new_linkman)"
    and "lm_step\<^sup>*\<^sup>* (lm_Callback_Accept AcceptOk now x l (lm_Listen 1 keep now0 x0 new_linkman)) m"
  shows "lm_accepting m = [] \<and> \<not> lm_acceptable m"
proof -
  let ?m0 = "lm_Listen 1 keep now0 x0 new_linkman"
  let ?I = "\<lambda>m. lm_core 1 m \<and> lm_waiting m \<and> \<not> lm_acceptable m"
  have m0: "lm_core 1 ?m0" "lm_waiting ?m0" using lm_Listen_core [of 1 keep now0 x0] by simp_all
  note m1 = lm_Callback_Accept_core [OF m0 assms(2), of l AcceptOk now]
  have "l \<in> set (lm_live ?m0)" using m0(1) assms(1) by (auto simp: lm_core_def)
  then have "\<not> length (lm_live ?m0) < 1" by auto
  then have "?I (lm_Callback_Accept AcceptOk now x l ?m0)" using m1 assms(1) by simp
  with assms(3) have "?I m"
  proof (induction rule: rtranclp_induct)
    case (step a b)
    from step.IH [OF step.prems] have I: "lm_core 1 a" "lm_waiting a" "\<not> lm_acceptable a" by auto
    then have "lm_accepting a = []" by (simp add: lm_waiting_def)
    with step.hyps(2) I have "\<not> lm_acceptable b"
    proof (cases rule: lm_step.cases)
      case (error l x now)
      then have "length (lm_live a) \<noteq> 0" by auto
      with error I link_OnError_core [OF I(1,2) error(4) _ error(2,3), of now] show ?thesis by simp
    qed (auto simp: lm_sweep_def std_sweep_filter)
    with lm_step_core [of 1 a b] I step.hyps(2) show ?case by simp
  qed
  then show ?thesis by (simp add: lm_waiting_def)
qed

definition single_listener :: linkman where
  "single_listener = lm_Callback_Accept AcceptOk 5 8 7 (lm_Listen 1 0 1 7 new_linkman)"

definition single_after_close :: linkman where
  "single_after_close = (let m = link_OnError 6 9 7 single_listener
     in m\<lparr>lm_pool := pool_Restitute (Some 7) (lm_pool m), lm_live := remove1 7 (lm_live m)\<rparr>)"

lemma single_session_listener_stalls_witness:
  "pool_Available (lm_pool single_after_close) = 1 \<and> lm_live single_after_close = [] \<and>
   lm_accepting single_after_close = [] \<and> \<not> lm_acceptable single_after_close"
proof -
  let ?m = "link_OnError 6 9 7 single_listener"
  have "lm_step single_listener ?m"
    by (rule lm_step.error) (simp_all add: single_listener_def lm_defs lm_fresh_def Let_def)
  moreover have "lm_step ?m single_after_close"
    unfolding single_after_close_def Let_def
    by (rule lm_step.released) (simp_all add: single_listener_def lm_defs lm_fresh_def Let_def)
  ultimately have run: "lm_step\<^sup>*\<^sup>* (lm_Callback_Accept AcceptOk 5 8 7 (lm_Listen 1 0 1 7 new_linkman)) single_after_close"
    by (simp add: single_listener_def)
  have e: "lm_accepting (lm_Listen 1 0 1 7 new_linkman) = [7]" "lm_fresh 8 (lm_Listen 1 0 1 7 new_linkman)"
    by (simp_all add: lm_defs lm_fresh_def Let_def)
  have "pool_Available (lm_pool single_after_close) = 1 \<and> lm_live single_after_close = []"
    by (simp add: single_after_close_def single_listener_def lm_defs pool_Restitute_def Let_def)
  with single_session_listener_stalls [OF e run] show ?thesis by simp
qed

text \<open>The sweep removes from the table exactly the links that have been silent longer than the
  keep-alive time, and tells exactly those, in key order, to close.\<close>

theorem sweep_closes_idle_links:
  assumes "map_ok (lm_links m)"
  shows "lm_Find k (lm_sweep now m) =
      (case lm_Find k m of Some l \<Rightarrow> if link_expire (lm_objs m l) + uint (lm_keepalive m) < now then None else Some l
       | None \<Rightarrow> None) \<and>
    lm_closing (lm_sweep now m) = lm_closing m @
      filter (\<lambda>l. link_expire (lm_objs m l) + uint (lm_keepalive m) < now) (map snd (lm_links m))"
  using assms by (auto simp: lm_Find_def lm_sweep_def std_sweep_filter std_find_filter link_idle_def filter_map comp_def
      split: option.splits)

lemma sweep_closes_idle_links_witness:
  "lm_Find 1 (lm_sweep 100 one_link) = None \<and> lm_closing (lm_sweep 100 one_link) = [7] \<and>
   lm_Find 1 (lm_sweep 5 one_link) = Some 7"
proof -
  have ok: "map_ok (lm_links one_link)" by (simp add: one_link_def lm_defs map_ok_def Let_def)
  have e: "lm_Find 1 one_link = Some 7" "link_expire (lm_objs one_link 7) = 5" "lm_keepalive one_link = 0"
    "lm_closing one_link = []" "lm_links one_link = [(1, 7)]"
    by (simp_all add: one_link_def lm_defs lm_Find_def Let_def)
  show ?thesis
    using sweep_closes_idle_links [OF ok, of 1 100] sweep_closes_idle_links [OF ok, of 1 5] e by simp
qed

end
