(* ===== verification/Session_Table.thy ===== *)
theory Session_Table
  imports Std_Map Handler_Dispatch
begin

text \<open>
  The two tables of sessions: \<open>SessionManager\<close> of \<^verbatim>\<open>Gamnet/Network/Session.cpp\<close>, which keeps sessions over
  disconnections until they are idle for too long, and \<open>AnswerWatingSessionManager\<close> of
  \<^verbatim>\<open>Gamnet/Network/Router/Session.h\<close>, which keeps the sessions that wait for the answer to a routed
  message. A session is a pointer (\<open>nat\<close>); the members the tables look at are in a store, and the calls of
  \<open>OnDestroy\<close> are recorded.
\<close>

section \<open>SessionManager\<close>

record session_obj =
  so_link :: "nat option"
  so_expire :: int

record session_manager =
  sm_keepalive :: u32
  sm_sessions :: "(u32, nat) std_map"
  sm_objs :: "nat \<Rightarrow> session_obj"
  sm_destroyed :: "nat list"

definition new_session_manager :: session_manager where
  "new_session_manager = \<lparr>sm_keepalive = 0, sm_sessions = [], sm_objs = (\<lambda>_. \<lparr>so_link = None, so_expire = 0\<rparr>), sm_destroyed = []\<rparr>"

text \<open>\<open>Init\<close> starts the timer unless the time is zero; the result is whether it is running.\<close>

definition sm_Init :: "int \<Rightarrow> session_manager \<Rightarrow> bool \<times> session_manager" where
  "sm_Init keepAliveSeconds m =
     (if keepAliveSeconds = 0 then (False, m) else (True, m\<lparr>sm_keepalive := of_int keepAliveSeconds\<rparr>))"

text \<open>\<open>Add\<close>: the message logged for a duplicate key reads \<open>session->link->link_key\<close>, which is undefined for a
  session without link.\<close>

definition sm_Add :: "int \<Rightarrow> u32 \<Rightarrow> nat \<Rightarrow> session_manager \<Rightarrow> (bool \<times> session_manager) outcome" where
  "sm_Add now key s m =
     (case std_insert key s (sm_sessions m) of
        (False, _) \<Rightarrow> (if so_link (sm_objs m s) = None then Undef else Ret (False, m))
      | (True, ss) \<Rightarrow> Ret (True, m\<lparr>sm_sessions := ss,
            sm_objs := (sm_objs m)(s := (sm_objs m s)\<lparr>so_expire := now\<rparr>)\<rparr>))"

definition sm_Remove :: "u32 \<Rightarrow> session_manager \<Rightarrow> session_manager" where
  "sm_Remove key m =
     (case std_find key (sm_sessions m) of
        None \<Rightarrow> m
      | Some s \<Rightarrow> m\<lparr>sm_sessions := std_erase key (sm_sessions m), sm_destroyed := sm_destroyed m @ [s]\<rparr>)"

definition sm_Find :: "u32 \<Rightarrow> session_manager \<Rightarrow> nat option" where
  "sm_Find key m = std_find key (sm_sessions m)"

definition sm_Size :: "session_manager \<Rightarrow> nat" where
  "sm_Size m = length (sm_sessions m)"

text \<open>The timer: sessions without a link that are silent for too long leave the table, then
  \<open>OnDestroy\<close> is called for each.\<close>

definition session_idle :: "int \<Rightarrow> session_manager \<Rightarrow> nat \<Rightarrow> bool" where
  "session_idle now m s \<longleftrightarrow> so_link (sm_objs m s) = None \<and> so_expire (sm_objs m s) + uint (sm_keepalive m) < now"

definition sm_sweep :: "int \<Rightarrow> session_manager \<Rightarrow> session_manager" where
  "sm_sweep now m =
     (case std_sweep (\<lambda>e. session_idle now m (snd e)) (sm_sessions m) of
        (kept, erased) \<Rightarrow> m\<lparr>sm_sessions := kept, sm_destroyed := sm_destroyed m @ map snd erased\<rparr>)"

text \<open>Runs: a session is added under its own key and not again once it was destroyed; links attach and
  detach, messages arrive.\<close>

inductive sm_step :: "(nat \<Rightarrow> u32) \<Rightarrow> session_manager \<Rightarrow> session_manager \<Rightarrow> bool" for key_of where
  adds: "s \<notin> set (sm_destroyed m) \<Longrightarrow> sm_Add now (key_of s) s m = Ret (b, m') \<Longrightarrow> sm_step key_of m m'"
| removes: "sm_step key_of m (sm_Remove k m)"
| sweeps: "sm_step key_of m (sm_sweep now m)"
| changes: "sm_step key_of m (m\<lparr>sm_objs := (sm_objs m)(s := o')\<rparr>)"

definition sm_inv :: "(nat \<Rightarrow> u32) \<Rightarrow> session_manager \<Rightarrow> bool" where
  "sm_inv key_of m \<longleftrightarrow> map_ok (sm_sessions m) \<and> (\<forall>(k, s)\<in>set (sm_sessions m). k = key_of s) \<and>
     distinct (sm_destroyed m) \<and> set (sm_destroyed m) \<inter> snd ` set (sm_sessions m) = {}"

lemma sm_inv_new: "sm_inv key_of new_session_manager"
  by (simp add: sm_inv_def new_session_manager_def)

lemma distinct_values:
  assumes "sm_inv key_of m"
  shows "distinct (map snd (sm_sessions m))"
proof -
  have "distinct (map fst (sm_sessions m))" using assms by (simp add: sm_inv_def map_ok_def strict_sorted_iff)
  then have d: "distinct (sm_sessions m)" by (simp add: distinct_map)
  have k: "fst e = key_of (snd e)" if "e \<in> set (sm_sessions m)" for e
    using assms that by (auto simp: sm_inv_def)
  have "inj_on snd (set (sm_sessions m))"
    by (rule inj_onI) (simp add: prod_eq_iff k)
  with d show ?thesis by (simp add: distinct_map)
qed

lemma sm_inv_Remove: "sm_inv key_of m \<Longrightarrow> sm_inv key_of (sm_Remove k m)"
proof -
  assume inv: "sm_inv key_of m"
  show ?thesis
  proof (cases "std_find k (sm_sessions m)")
    case None
    with inv show ?thesis by (simp add: sm_Remove_def)
  next
    case (Some s)
    then have e: "(k, s) \<in> set (sm_sessions m)" using inv by (simp add: sm_inv_def std_find_iff)
    have key: "k' = key_of s'" if "(k', s') \<in> set (sm_sessions m)" for k' s'
      using inv that by (auto simp: sm_inv_def)
    have "k' = k" if "(k', s) \<in> set (sm_sessions m)" for k' using key [OF e] key [OF that] by simp
    then have "s \<notin> snd ` set (std_erase k (sm_sessions m))" by (auto simp: std_erase_def)
    moreover have "snd ` set (std_erase k (sm_sessions m)) \<subseteq> snd ` set (sm_sessions m)" by (auto simp: std_erase_def)
    moreover have "s \<notin> set (sm_destroyed m)" using inv e by (force simp: sm_inv_def)
    ultimately show ?thesis using inv Some
      by (auto simp: sm_inv_def sm_Remove_def std_erase_def)
  qed
qed

lemma sm_inv_sweep: "sm_inv key_of m \<Longrightarrow> sm_inv key_of (sm_sweep now m)"
proof -
  assume inv: "sm_inv key_of m"
  let ?P = "\<lambda>e. session_idle now m (snd e)"
  have d: "distinct (map snd (sm_sessions m))" using inv by (rule distinct_values)
  have "distinct (map snd (filter ?P (sm_sessions m)))" using d by (rule distinct_map_filter)
  moreover have "snd ` set (filter ?P (sm_sessions m)) \<inter> snd ` set (filter (\<lambda>e. \<not> ?P e) (sm_sessions m)) = {}"
    by auto
  ultimately show ?thesis
    using inv by (auto simp: sm_inv_def sm_sweep_def std_sweep_filter)
qed

lemma sm_inv_Add:
  assumes inv: "sm_inv key_of m" and s: "s \<notin> set (sm_destroyed m)" and a: "sm_Add now (key_of s) s m = Ret (b, m')"
  shows "sm_inv key_of m'"
proof (cases "std_find (key_of s) (sm_sessions m)")
  case None
  with a have "m' = m\<lparr>sm_sessions := std_put (key_of s) s (sm_sessions m),
      sm_objs := (sm_objs m)(s := (sm_objs m s)\<lparr>so_expire := now\<rparr>)\<rparr>"
    by (simp add: sm_Add_def std_insert_def)
  moreover have "set (std_put (key_of s) s (sm_sessions m)) = insert (key_of s, s) {e \<in> set (sm_sessions m). fst e \<noteq> key_of s}"
    using inv by (intro set_std_put) (simp add: sm_inv_def)
  ultimately show ?thesis using inv s by (auto simp: sm_inv_def)
next
  case (Some s')
  with a have "m' = m" by (auto simp: sm_Add_def std_insert_def split: if_splits)
  with inv show ?thesis by simp
qed

lemma sm_inv_step: "sm_inv key_of m \<Longrightarrow> sm_step key_of m m' \<Longrightarrow> sm_inv key_of m'"
proof (erule sm_step.cases)
  show "sm_inv key_of m \<Longrightarrow> m = ma \<Longrightarrow> m' = ma\<lparr>sm_objs := (sm_objs ma)(s := o')\<rparr> \<Longrightarrow> sm_inv key_of m'" for ma s o'
    by (simp add: sm_inv_def)
qed (auto intro: sm_inv_Remove sm_inv_sweep sm_inv_Add)

interpretation session_manager: invariant_system "\<lambda>m. m = new_session_manager" "sm_step key_of" "sm_inv key_of" for key_of
  by unfold_locales (auto intro: sm_inv_new sm_inv_step)

section \<open>AnswerWatingSessionManager\<close>

text \<open>Entries carry the time they were added; the sweep removes those older than five seconds.\<close>

type_synonym waiting_sessions = "(u64, int \<times> nat) std_map"

definition ws_AddSession :: "int \<Rightarrow> u64 \<Rightarrow> nat \<Rightarrow> waiting_sessions \<Rightarrow> bool \<times> waiting_sessions" where
  "ws_AddSession now msg_seq s m = std_insert msg_seq (now, s) m"

definition ws_FindSession :: "u64 \<Rightarrow> waiting_sessions \<Rightarrow> nat option \<times> waiting_sessions" where
  "ws_FindSession msg_seq m =
     (case std_find msg_seq m of None \<Rightarrow> (None, m) | Some (_, s) \<Rightarrow> (Some s, std_erase msg_seq m))"

definition ws_Clear :: "waiting_sessions \<Rightarrow> waiting_sessions" where
  "ws_Clear m = []"

definition ws_sweep :: "int \<Rightarrow> waiting_sessions \<Rightarrow> waiting_sessions" where
  "ws_sweep now m = fst (std_sweep (\<lambda>e. fst (snd e) + 5 < now) m)"

lemma ws_ok [simp]: "map_ok m \<Longrightarrow> map_ok (snd (ws_AddSession now k s m))" "map_ok m \<Longrightarrow> map_ok (snd (ws_FindSession k m))"
  "map_ok (ws_Clear m)" "map_ok m \<Longrightarrow> map_ok (ws_sweep now m)"
  by (auto simp: ws_AddSession_def ws_FindSession_def ws_Clear_def ws_sweep_def std_sweep_filter split: option.splits)

lemma std_find_put_absent: "std_find k m = None \<Longrightarrow> std_find k' (std_put k v m) = (if k' = k then Some v else std_find k' m)"
  by (induction k v m rule: std_put.induct) (auto simp: std_find_def split: if_splits)

interpretation waiting: one_shot_table "\<lambda>m k. map_option snd (std_find k m)" "\<lambda>k s m. snd (ws_AddSession now k s m)" ws_FindSession
  for now
  by unfold_locales (auto simp: ws_FindSession_def ws_AddSession_def std_insert_def std_find_put_absent fun_eq_iff
      split: option.splits)

section \<open>Properties\<close>

text \<open>C15: On every run of the session manager no session is destroyed twice, a session in the table was
  not destroyed and is listed under its own key only; and the timer destroys exactly the sessions of the
  table that have no link and were silent for longer than the keep-alive time.\<close>

theorem sessions_destroyed_once:
  assumes "(sm_step key_of)\<^sup>*\<^sup>* new_session_manager m"
  shows "distinct (sm_destroyed m) \<and> distinct (map snd (sm_sessions m)) \<and>
    (\<forall>k s. sm_Find k m = Some s \<longrightarrow> k = key_of s \<and> s \<notin> set (sm_destroyed m) \<and>
       sm_Find k (sm_sweep now m) = (if session_idle now m s then None else Some s) \<and>
       (s \<in> set (sm_destroyed (sm_sweep now m)) \<longleftrightarrow> session_idle now m s))"
proof -
  have inv: "sm_inv key_of m" by (rule session_manager.inv_reachable [OF refl assms])
  then have ok: "map_ok (sm_sessions m)" by (simp add: sm_inv_def)
  have "k = key_of s \<and> s \<notin> set (sm_destroyed m) \<and>
       sm_Find k (sm_sweep now m) = (if session_idle now m s then None else Some s) \<and>
       (s \<in> set (sm_destroyed (sm_sweep now m)) \<longleftrightarrow> session_idle now m s)" if f: "sm_Find k m = Some s" for k s
  proof -
    have e: "(k, s) \<in> set (sm_sessions m)" using f ok by (simp add: sm_Find_def std_find_iff)
    have "s \<in> snd ` set (sm_sessions m)" using e by force
    then have "k = key_of s" "s \<notin> set (sm_destroyed m)" using inv e by (auto simp: sm_inv_def)
    moreover have "sm_Find k (sm_sweep now m) = (if session_idle now m s then None else Some s)"
      using f ok by (simp add: sm_Find_def sm_sweep_def std_sweep_filter std_find_filter)
    ultimately show ?thesis using e by (auto simp: sm_sweep_def std_sweep_filter image_iff)
  qed
  with inv show ?thesis by (simp add: sm_inv_def distinct_values [OF inv])
qed

definition session_demo :: session_manager where
  "session_demo = new_session_manager\<lparr>sm_sessions := [(5, 1)],
     sm_objs := (\<lambda>_. \<lparr>so_link = None, so_expire = 0\<rparr>)(1 := \<lparr>so_link = None, so_expire = 100\<rparr>)\<rparr>"

lemma sessions_destroyed_once_witness:
  "sm_Find 5 session_demo = Some 1 \<and> sm_Find 5 (sm_sweep 101 session_demo) = None \<and> sm_destroyed (sm_sweep 101 session_demo) = [1]"
proof -
  have "sm_Add 100 5 1 new_session_manager = Ret (True, session_demo)"
    by (simp add: session_demo_def sm_Add_def new_session_manager_def std_insert_def)
  then have "(sm_step (\<lambda>s. 5))\<^sup>*\<^sup>* new_session_manager session_demo"
    by (intro r_into_rtranclp sm_step.adds) (auto simp: new_session_manager_def)
  from sessions_destroyed_once [OF this, of 101]
  have all: "\<forall>k s. sm_Find k session_demo = Some s \<longrightarrow> k = 5 \<and> s \<notin> set (sm_destroyed session_demo) \<and>
       sm_Find k (sm_sweep 101 session_demo) = (if session_idle 101 session_demo s then None else Some s) \<and>
       (s \<in> set (sm_destroyed (sm_sweep 101 session_demo)) \<longleftrightarrow> session_idle 101 session_demo s)"
    by blast
  have d: "sm_Find 5 session_demo = Some 1" "session_idle 101 session_demo 1"
    by (simp_all add: session_demo_def sm_Find_def std_find_def session_idle_def new_session_manager_def)
  moreover have "sm_destroyed (sm_sweep 101 session_demo) = [1]"
    using d(2) by (simp add: sm_sweep_def) (simp add: session_demo_def new_session_manager_def)
  ultimately show ?thesis using all [rule_format, OF d(1)] by simp
qed

text \<open>The answer to a routed message: a session registered under a fresh sequence number is handed to
  the first answer with that number and to no later one, and once it has waited longer than five seconds
  no answer finds it any more.\<close>

theorem waiting_session_once:
  assumes "std_find seq m = None" and "map_ok m" and "i < length seqs" and "seqs ! i = seq" and "now + 5 < later"
  shows "waiting.answers seqs (snd (ws_AddSession now seq s m)) ! i = (if seq \<in> set (take i seqs) then None else Some s) \<and>
    fst (ws_FindSession seq (ws_sweep later (snd (ws_AddSession now seq s m)))) = None"
proof -
  have "std_find seq (snd (ws_AddSession now seq s m)) = Some (now, s)" "map_ok (snd (ws_AddSession now seq s m))"
    using assms(1,2) by (simp_all add: ws_AddSession_def)
  then have "std_find seq (ws_sweep later (snd (ws_AddSession now seq s m))) = None"
    using assms(5) by (simp add: ws_sweep_def std_sweep_filter std_find_filter)
  then have "fst (ws_FindSession seq (ws_sweep later (snd (ws_AddSession now seq s m)))) = None"
    by (simp add: ws_FindSession_def)
  moreover have "waiting.answers seqs (snd (ws_AddSession now seq s m)) ! i = (if seq \<in> set (take i seqs) then None else Some s)"
    using assms(1,3,4) by (intro waiting.added_once) simp_all
  ultimately show ?thesis by simp
qed

lemma waiting_session_once_witness:
  "waiting.answers [9, 7, 7] (snd (ws_AddSession 100 7 3 [(9, 90, 4)])) ! 1 = Some 3 \<and>
   fst (ws_FindSession 7 (ws_sweep 106 (snd (ws_AddSession 100 7 3 [(9, 90, 4)])))) = None"
  using waiting_session_once [of 7 "[(9, 90, 4)]" 1 "[9, 7, 7]" 100 106 3] by (simp add: std_find_def map_ok_def)

end
