(* ===== verification/Tcp_Server.thy ===== *)
theory Tcp_Server
  imports Session_Table Tcp_Framing MD5_Digest
begin

text \<open>
  The TCP server over its links: \<^verbatim>\<open>Gamnet/Network/Tcp/LinkManager.h\<close> (\<open>OnAccept\<close>, \<open>OnClose\<close>, \<open>OnRecvMsg\<close>
  and the three built-in handlers), \<^verbatim>\<open>Tcp/Session.cpp\<close>, \<^verbatim>\<open>Tcp/Tcp.h\<close>, the sends of \<^verbatim>\<open>Network/Session.cpp\<close> and
  \<open>Link::AttachSession\<close>. Links, sessions and packets are pointers into stores, because two sessions can share
  a packet and a link and a session refer to each other. The session table is the one of \<open>Session_Table\<close>,
  which also holds each session's \<open>link\<close> and \<open>expire_time\<close>.

  The JSON library is a parameter: what \<open>Reader::parse\<close>, \<open>asUInt\<close> and \<open>asString\<close> give (\<open>None\<close> where they
  fail or throw) and what \<open>StyledWriter\<close> writes. So are the packet that the n-th \<open>Packet::Create\<close> takes out
  of the pool, with whatever bytes its last user left, and the set of message ids the application registered; calls into the application and bytes handed to a link are
  recorded as events.
\<close>

section \<open>State\<close>

datatype jvalue = JInt int | JUInt u32 | JString string

type_synonym janswer = "(string \<times> jvalue) list"

record 'r tcp_env =
  env_parse :: "bytes \<Rightarrow> 'r option"
  env_asUInt :: "'r \<Rightarrow> string \<Rightarrow> u32 option"
  env_asString :: "'r \<Rightarrow> string \<Rightarrow> string option"
  env_write :: "janswer \<Rightarrow> bytes"
  env_packet :: "nat \<Rightarrow> packet option"
  env_registered :: "u32 \<Rightarrow> bool"
  env_md5 :: md5

datatype srv_event = EvAccept nat | EvClose nat int | EvSend nat bytes | EvHandle nat bytes

record tcp_ses =
  ts_key :: u32
  ts_token :: string
  ts_msg_seq :: u32
  ts_packet :: "nat option"

record tcp_server =
  sv_link_session :: "nat \<Rightarrow> nat option"
  sv_open :: "nat \<Rightarrow> bool"
  sv_ses :: "nat \<Rightarrow> tcp_ses"
  sv_packets :: "nat \<Rightarrow> packet"
  sv_next_packet :: nat
  sv_pool :: "nat pool"
  sv_key :: u32
  sv_mgr :: session_manager
  sv_tasks :: "(nat \<times> nat option) list"
  sv_events :: "srv_event list"

abbreviation ses_link :: "tcp_server \<Rightarrow> nat \<Rightarrow> nat option" where
  "ses_link m s \<equiv> so_link (sm_objs (sv_mgr m) s)"

abbreviation ses_packet :: "tcp_server \<Rightarrow> nat \<Rightarrow> nat option" where
  "ses_packet m s \<equiv> ts_packet (sv_ses m s)"

definition new_tcp_server :: tcp_server where
  "new_tcp_server = \<lparr>sv_link_session = (\<lambda>_. None), sv_open = (\<lambda>_. False),
     sv_ses = (\<lambda>_. \<lparr>ts_key = 0, ts_token = [], ts_msg_seq = 0, ts_packet = None\<rparr>),
     sv_packets = (\<lambda>_. new_packet), sv_next_packet = 0, sv_pool = new_pool 65535, sv_key = 0,
     sv_mgr = new_session_manager, sv_tasks = [], sv_events = []\<rparr>"

section \<open>Members of the stores\<close>

definition sv_event :: "srv_event \<Rightarrow> tcp_server \<Rightarrow> tcp_server" where
  "sv_event e m = m\<lparr>sv_events := sv_events m @ [e]\<rparr>"

definition sv_set_ses :: "nat \<Rightarrow> (tcp_ses \<Rightarrow> tcp_ses) \<Rightarrow> tcp_server \<Rightarrow> tcp_server" where
  "sv_set_ses s f m = m\<lparr>sv_ses := (sv_ses m)(s := f (sv_ses m s))\<rparr>"

definition sv_set_obj :: "nat \<Rightarrow> (session_obj \<Rightarrow> session_obj) \<Rightarrow> tcp_server \<Rightarrow> tcp_server" where
  "sv_set_obj s f m = m\<lparr>sv_mgr := (sv_mgr m)\<lparr>sm_objs := (sm_objs (sv_mgr m))(s := f (sm_objs (sv_mgr m) s))\<rparr>\<rparr>"

text \<open>\<open>Packet::Create\<close>: the packets are numbered in the order they are asked for.\<close>

definition Packet_Create :: "'r tcp_env \<Rightarrow> tcp_server \<Rightarrow> nat option \<times> tcp_server" where
  "Packet_Create env m =
     (let n = sv_next_packet m; m = m\<lparr>sv_next_packet := n + 1\<rparr>
      in case env_packet env n of
           None \<Rightarrow> (None, m)
         | Some p \<Rightarrow> (Some n, m\<lparr>sv_packets := (sv_packets m)(n := pkt_Init p)\<rparr>))"

section \<open>Session tokens\<close>

text \<open>\<open>time(NULL)\<close> and the random number are arguments.\<close>

definition GenerateSessionToken :: "md5 \<Rightarrow> u32 \<Rightarrow> nat \<Rightarrow> nat \<Rightarrow> string" where
  "GenerateSessionToken junk session_key now rnd =
     md5_hex_of junk (string_bytes (dec_digits (unat session_key) @ dec_digits now @ dec_digits rnd))"

section \<open>Links and sessions\<close>

text \<open>The body that \<open>AttachSession\<close> runs on the link's strand: at once when the strand is free or the
  caller is on it, later when another thread is in it.\<close>

definition attach :: "nat \<Rightarrow> nat option \<Rightarrow> tcp_server \<Rightarrow> tcp_server" where
  "attach l session m =
     (let m = (case sv_link_session m l of
                 None \<Rightarrow> m
               | Some s \<Rightarrow> sv_set_obj s (\<lambda>x. x\<lparr>so_link := None\<rparr>) m);
          m = m\<lparr>sv_link_session := (sv_link_session m)(l := session)\<rparr>
      in case session of
           None \<Rightarrow> m
         | Some s \<Rightarrow> sv_set_obj s (\<lambda>x. x\<lparr>so_link := Some l\<rparr>) m)"

definition AttachSession :: "bool \<Rightarrow> nat \<Rightarrow> nat option \<Rightarrow> tcp_server \<Rightarrow> tcp_server" where
  "AttachSession inline l session m =
     (if inline then attach l session m else m\<lparr>sv_tasks := sv_tasks m @ [(l, session)]\<rparr>)"

definition tcp_OnClose :: "nat \<Rightarrow> int \<Rightarrow> tcp_server \<Rightarrow> tcp_server" where
  "tcp_OnClose l reason m =
     (case sv_link_session m l of
        None \<Rightarrow> m
      | Some s \<Rightarrow> AttachSession True l None (sv_event (EvClose s reason) m))"

text \<open>\<open>Link::OnError\<close> with this manager; the accepting side of \<open>OnClose\<close> and the table of links are in
  \<open>Link_Manager\<close>.\<close>

definition tcp_OnError :: "nat \<Rightarrow> int \<Rightarrow> tcp_server \<Rightarrow> tcp_server" where
  "tcp_OnError l reason m =
     (if \<not> sv_open m l then m
      else (let m = tcp_OnClose l reason m in m\<lparr>sv_open := (sv_open m)(l := False)\<rparr>))"

text \<open>\<open>Session::Init\<close>, applied by the session pool.\<close>

definition tcp_ses_Init :: "nat \<Rightarrow> tcp_server \<Rightarrow> tcp_server" where
  "tcp_ses_Init s m =
     sv_set_obj s (\<lambda>x. x\<lparr>so_expire := 0, so_link := None\<rparr>) (sv_set_ses s (\<lambda>x. x\<lparr>ts_key := 0, ts_token := []\<rparr>) m)"

definition tcp_OnAccept :: "'r tcp_env \<Rightarrow> nat \<Rightarrow> nat \<Rightarrow> tcp_server \<Rightarrow> tcp_server" where
  "tcp_OnAccept env fresh l m =
     (case pool_Create (Made fresh) (sv_pool m) of
        (Ret (Some s), p) \<Rightarrow>
          (let m = tcp_ses_Init s (m\<lparr>sv_pool := p\<rparr>);
               m = m\<lparr>sv_key := sv_key m + 1\<rparr>;
               (packet, m) = Packet_Create env m;
               m = sv_set_ses s (\<lambda>x. x\<lparr>ts_key := sv_key m, ts_packet := packet, ts_msg_seq := 0\<rparr>) m
           in AttachSession True l (Some s) m)
      | (_, p) \<Rightarrow> tcp_OnError l EINVAL (m\<lparr>sv_pool := p\<rparr>))"

section \<open>Sending\<close>

text \<open>\<open>Network::Session::AsyncSend\<close> hands the bytes to the session's link, if it has one.\<close>

definition ses_AsyncSend :: "nat \<Rightarrow> bytes \<Rightarrow> tcp_server \<Rightarrow> tcp_server" where
  "ses_AsyncSend s data m = (case ses_link m s of None \<Rightarrow> m | Some l \<Rightarrow> sv_event (EvSend l data) m)"

text \<open>\<open>Network::Session::SyncSend\<close>, over the send loop of the session's link.\<close>

definition ses_SyncSend :: "(nat \<Rightarrow> bytes \<Rightarrow> int) \<Rightarrow> nat \<Rightarrow> bytes \<Rightarrow> tcp_server \<Rightarrow> int" where
  "ses_SyncSend link_SyncSend s data m = (case ses_link m s of None \<Rightarrow> - 1 | Some l \<Rightarrow> link_SyncSend l data)"

text \<open>Building an answer packet: the text with its terminating zero. The result of \<open>Packet::Write\<close> is not
  looked at; \<open>None\<close> is a failed \<open>Packet::Create\<close>.\<close>

definition answer_packet :: "'r tcp_env \<Rightarrow> u32 \<Rightarrow> u32 \<Rightarrow> janswer \<Rightarrow> tcp_server \<Rightarrow> (bytes option \<times> tcp_server) outcome" where
  "answer_packet env msg_id msg_seq json m =
     (let str = env_write env json;
          header = \<lparr>hdr_length = of_nat (HEADER_SIZE + length str + 1), hdr_msg_id = msg_id, hdr_msg_seq = msg_seq\<rparr>
      in case Packet_Create env m of
           (None, m) \<Rightarrow> Ret (None, m)
         | (Some p, m) \<Rightarrow>
             bind_outcome (pkt_Write header (str @ [0]) (sv_packets m p))
               (\<lambda>(_, q). Ret (Some (buf_content q), m\<lparr>sv_packets := (sv_packets m)(p := q)\<rparr>)))"

definition tcp_Send_json :: "'r tcp_env \<Rightarrow> nat \<Rightarrow> u32 \<Rightarrow> janswer \<Rightarrow> tcp_server \<Rightarrow> tcp_server outcome" where
  "tcp_Send_json env s msg_id json m =
     bind_outcome (answer_packet env msg_id (ts_msg_seq (sv_ses m s)) json m)
       (\<lambda>(data, m). Ret (case data of None \<Rightarrow> m | Some xs \<Rightarrow> ses_AsyncSend s xs m))"

text \<open>\<open>Tcp::SendMsg\<close> of a message with id \<open>msg_id\<close> that stores itself as \<open>stored\<close>.\<close>

definition tcp_SendMsg :: "'r tcp_env \<Rightarrow> nat \<Rightarrow> u32 \<Rightarrow> nat \<Rightarrow> bytes \<Rightarrow> bool \<Rightarrow> tcp_server \<Rightarrow> (bool \<times> tcp_server) outcome" where
  "tcp_SendMsg env s msg_id msg_size stored ok m =
     (case Packet_Create env m of
        (None, m) \<Rightarrow> Ret (False, m)
      | (Some p, m) \<Rightarrow>
          bind_outcome (pkt_Write_msg (ts_msg_seq (sv_ses m s)) msg_size msg_id stored ok (sv_packets m p))
            (\<lambda>(written, q). let m = m\<lparr>sv_packets := (sv_packets m)(p := q)\<rparr>
               in if written then Ret (True, ses_AsyncSend s (buf_content q) m) else Ret (False, m)))"

section \<open>The built-in handlers\<close>

definition MsgID_Connect :: u32 where "MsgID_Connect = 1"
definition MsgID_Reconnect :: u32 where "MsgID_Reconnect = 2"
definition MsgID_HeartBeat :: u32 where "MsgID_HeartBeat = 3"

text \<open>Every handler logs \<open>session->link->link_key\<close>, which is undefined for a session without link.\<close>

definition Recv_Connect_Req :: "'r tcp_env \<Rightarrow> nat \<Rightarrow> nat \<Rightarrow> nat \<Rightarrow> tcp_server \<Rightarrow> tcp_server outcome" where
  "Recv_Connect_Req env now rnd s m =
     (if ses_link m s = None then Undef
      else
        (let key = ts_key (sv_ses m s);
             m = sv_set_ses s (\<lambda>x. x\<lparr>ts_token := GenerateSessionToken (env_md5 env) key now rnd\<rparr>) m;
             ans = [(''error_code'', JInt 0), (''session_key'', JUInt key), (''session_token'', JString (ts_token (sv_ses m s)))]
         in bind_outcome (sm_Add (int now) key s (sv_mgr m))
              (\<lambda>(_, mgr). bind_outcome (tcp_Send_json env s MsgID_Connect ans (m\<lparr>sv_mgr := mgr\<rparr>))
                (\<lambda>m. Ret (sv_event (EvAccept s) m)))))"

text \<open>The request text: as many bytes as the packet holds, from behind the header on, so the last ten are
  not part of the packet.\<close>

definition reconnect_text :: "packet \<Rightarrow> bytes outcome" where
  "reconnect_text p =
     (if bufSize p < readCursor p + HEADER_SIZE + buf_Size p then Undef
      else Ret (slice_of (readCursor p + HEADER_SIZE) (buf_Size p) (bdata p)))"

text \<open>What the \<open>try\<close> block decides: the other session, an error code, or an exception of the JSON library,
  which leaves the handler.\<close>

datatype reconnect_decision = Takeover nat | Refuse int | JsonThrows

definition reconnect_decide :: "'r tcp_env \<Rightarrow> bytes \<Rightarrow> tcp_server \<Rightarrow> reconnect_decision" where
  "reconnect_decide env json m =
     (case env_parse env json of
        None \<Rightarrow> Refuse MessageFormatError
      | Some req \<Rightarrow>
          (case (env_asUInt env req ''session_key'', env_asString env req ''session_token'') of
             (Some session_key, Some session_token) \<Rightarrow>
               (case sm_Find session_key (sv_mgr m) of
                  None \<Rightarrow> Refuse ConnectTimeoutError
                | Some other \<Rightarrow>
                    if ts_token (sv_ses m other) \<noteq> session_token then Refuse InvalidSessionTokenError else Takeover other)
           | _ \<Rightarrow> JsonThrows))"

text \<open>\<open>inline\<close> tells whether the strand of the other session's link is free. The own link's strand is the
  one the handler runs on.\<close>

definition reconnect_takeover ::
  "'r tcp_env \<Rightarrow> nat \<Rightarrow> nat \<Rightarrow> bool \<Rightarrow> nat \<Rightarrow> nat \<Rightarrow> nat \<Rightarrow> tcp_server \<Rightarrow> tcp_server" where
  "reconnect_takeover env now rnd inline l s other m =
     (let m = (case ses_link m other of
                 None \<Rightarrow> m
               | Some l' \<Rightarrow> AttachSession (inline \<or> l' = l) l' None m);
          m = sv_set_ses other (\<lambda>x. x\<lparr>ts_packet := ts_packet (sv_ses m s),
                ts_token := GenerateSessionToken (env_md5 env) (ts_key x) now rnd\<rparr>) m
      in AttachSession True l (Some other) m)"

definition Recv_Reconnect_Req ::
  "'r tcp_env \<Rightarrow> nat \<Rightarrow> nat \<Rightarrow> bool \<Rightarrow> nat \<Rightarrow> nat \<Rightarrow> tcp_server \<Rightarrow> tcp_server outcome" where
  "Recv_Reconnect_Req env now rnd inline s p m =
     bind_outcome (reconnect_text (sv_packets m p)) (\<lambda>json.
       case (reconnect_decide env json m, ses_link m s) of
         (JsonThrows, _) \<Rightarrow> Ret m
       | (_, None) \<Rightarrow> Undef
       | (decision, Some l) \<Rightarrow>
           (let (m, ans) =
              (case decision of
                 Takeover other \<Rightarrow>
                   (let m = reconnect_takeover env now rnd inline l s other m
                    in (m, [(''error_code'', JInt 0), (''msg_seq'', JUInt (ts_msg_seq (sv_ses m other))),
                            (''session_key'', JUInt (ts_key (sv_ses m other))),
                            (''session_token'', JString (ts_token (sv_ses m other)))]))
               | Refuse e \<Rightarrow> (AttachSession True l None m, [(''error_code'', JInt e)])
               | JsonThrows \<Rightarrow> (m, []))
            in bind_outcome (answer_packet env MsgID_Reconnect (ts_msg_seq (sv_ses m s)) ans m)
                 (\<lambda>(data, m). Ret (case data of None \<Rightarrow> m | Some xs \<Rightarrow> sv_event (EvSend l xs) m))))"

definition Recv_HeartBeat_Req :: "'r tcp_env \<Rightarrow> nat \<Rightarrow> tcp_server \<Rightarrow> tcp_server outcome" where
  "Recv_HeartBeat_Req env s m =
     (if ses_link m s = None then Undef
      else tcp_Send_json env s MsgID_HeartBeat
        [(''error_code'', JInt 0), (''msg_seq'', JUInt (ts_msg_seq (sv_ses m s)))] m)"

section \<open>Receiving\<close>

text \<open>The dispatcher with the handlers that \<open>Listen\<close> registers. An unregistered id closes the session's
  link.\<close>

definition srv_dispatch :: "'r tcp_env \<Rightarrow> nat \<Rightarrow> nat \<Rightarrow> bool \<Rightarrow> nat \<Rightarrow> nat \<Rightarrow> tcp_server \<Rightarrow> tcp_server outcome" where
  "srv_dispatch env now rnd inline s p m =
     (let msg_id = pkt_GetID (sv_packets m p) in
      if msg_id = MsgID_Connect then Recv_Connect_Req env now rnd s m
      else if msg_id = MsgID_Reconnect then Recv_Reconnect_Req env now rnd inline s p m
      else if msg_id = MsgID_HeartBeat then Recv_HeartBeat_Req env s m
      else if env_registered env msg_id then
        Ret (sv_event (EvHandle s (buf_read (unat (pkt_GetLength (sv_packets m p))) (sv_packets m p))) m)
      else (case ses_link m s of None \<Rightarrow> Undef | Some l \<Rightarrow> Ret (tcp_OnError l NullPointerError m)))"

text \<open>The loop of \<open>OnRecvMsg\<close>, for the session the link had when the bytes arrived. Its packet is a pointer
  that another session may hold as well. First the part that dispatches a complete message.\<close>

definition srv_rx_msg ::
  "'r tcp_env \<Rightarrow> nat \<Rightarrow> nat \<Rightarrow> bool \<Rightarrow> nat \<Rightarrow> nat \<Rightarrow> tcp_server \<Rightarrow> tcp_server outcome" where
  "srv_rx_msg env now rnd inline s p m =
     (let msg_seq = pkt_GetSEQ (sv_packets m p)
      in if msg_seq > ts_msg_seq (sv_ses m s)
         then bind_outcome (srv_dispatch env now rnd inline s p m)
                (\<lambda>m. Ret (sv_set_ses s (\<lambda>x. x\<lparr>ts_msg_seq := msg_seq\<rparr>) m))
         else Ret m)"

text \<open>Then the message is removed, and what is left moves into a new packet; \<open>True\<close> when the loop ends.\<close>

definition srv_rx_rest :: "'r tcp_env \<Rightarrow> u16 \<Rightarrow> nat \<Rightarrow> nat \<Rightarrow> tcp_server \<Rightarrow> (bool \<times> tcp_server) outcome" where
  "srv_rx_rest env totalLength l s m =
     (case ses_packet m s of
        None \<Rightarrow> Undef
      | Some p \<Rightarrow>
          (let q = buf_Remove totalLength (sv_packets m p);
               m = m\<lparr>sv_packets := (sv_packets m)(p := q)\<rparr>
           in if 0 < buf_Size q then
                (case Packet_Create env m of
                   (None, m) \<Rightarrow> Ret (True, tcp_OnError l EOVERFLOW m)
                 | (Some n, m) \<Rightarrow>
                     bind_outcome (buf_Append (buf_read (buf_Size q) q) (sv_packets m n))
                       (\<lambda>q'. Ret (False, sv_set_ses s (\<lambda>x. x\<lparr>ts_packet := Some n\<rparr>)
                          (m\<lparr>sv_packets := (sv_packets m)(n := q')\<rparr>))))
              else Ret (False, m)))"

definition srv_rx_step ::
  "'r tcp_env \<Rightarrow> nat \<Rightarrow> nat \<Rightarrow> bool \<Rightarrow> nat \<Rightarrow> nat \<Rightarrow> tcp_server \<Rightarrow> (bool \<times> tcp_server) outcome" where
  "srv_rx_step env now rnd inline l s m =
     (case ses_packet m s of
        None \<Rightarrow> Undef
      | Some p \<Rightarrow>
          (if buf_Size (sv_packets m p) < HEADER_SIZE then Ret (True, m)
           else
             (let totalLength = pkt_GetLength (sv_packets m p) in
              if HEADER_SIZE > unat totalLength \<or> unat totalLength \<ge> buf_Capacity (sv_packets m p)
              then Ret (True, tcp_OnError l EOVERFLOW m)
              else if unat totalLength > buf_Size (sv_packets m p) mod 2 ^ 16 then Ret (True, m)
              else bind_outcome (srv_rx_msg env now rnd inline s p m) (srv_rx_rest env totalLength l s))))"

text \<open>The loop with a bound on its passes, and whether it came to its end within it.\<close>

fun srv_rx_loop ::
  "nat \<Rightarrow> 'r tcp_env \<Rightarrow> nat \<Rightarrow> nat \<Rightarrow> bool \<Rightarrow> nat \<Rightarrow> nat \<Rightarrow> tcp_server \<Rightarrow> (bool \<times> tcp_server) outcome" where
  "srv_rx_loop 0 env now rnd inline l s m = Ret (False, m)"
| "srv_rx_loop (Suc fuel) env now rnd inline l s m =
     bind_outcome (srv_rx_step env now rnd inline l s m)
       (\<lambda>(ended, m). if ended then Ret (True, m) else srv_rx_loop fuel env now rnd inline l s m)"

text \<open>Every pass removes at least the ten bytes of a header, so the packet's size plus one is enough.\<close>

definition srv_OnRecvMsg ::
  "'r tcp_env \<Rightarrow> nat \<Rightarrow> nat \<Rightarrow> bool \<Rightarrow> nat \<Rightarrow> bytes \<Rightarrow> tcp_server \<Rightarrow> (bool \<times> tcp_server) outcome" where
  "srv_OnRecvMsg env now rnd inline l buffer m =
     (case sv_link_session m l of
        None \<Rightarrow> Ret (True, tcp_OnError l EINVAL m)
      | Some s \<Rightarrow>
          (let m = sv_set_obj s (\<lambda>x. x\<lparr>so_expire := int now\<rparr>) m
           in case ses_packet m s of
                None \<Rightarrow> Undef
              | Some p \<Rightarrow>
                  bind_outcome (buf_Append buffer (sv_packets m p)) (\<lambda>q.
                    srv_rx_loop (Suc (buf_Size q)) env now rnd inline l s (m\<lparr>sv_packets := (sv_packets m)(p := q)\<rparr>))))"

definition tcp_FindSession :: "u32 \<Rightarrow> tcp_server \<Rightarrow> nat option" where
  "tcp_FindSession session_key m = sm_Find session_key (sv_mgr m)"

definition tcp_Listen :: "int \<Rightarrow> int \<Rightarrow> tcp_server \<Rightarrow> tcp_server" where
  "tcp_Listen max_session keepAliveTime m =
     m\<lparr>sv_pool := pool_set_Capacity max_session (sv_pool m), sv_mgr := snd (sm_Init keepAliveTime (sv_mgr m))\<rparr>"

section \<open>Invariant\<close>

text \<open>A link's session and a session's link name each other, only open links have sessions, pooled
  sessions are unlinked and not in the table, and packets were created.\<close>

definition srv_bound :: "tcp_server \<Rightarrow> bool" where
  "srv_bound m \<longleftrightarrow> (\<forall>l s. sv_link_session m l = Some s \<longleftrightarrow> ses_link m s = Some l)"

definition srv_inv :: "tcp_server \<Rightarrow> bool" where
  "srv_inv m \<longleftrightarrow> srv_bound m \<and> (\<forall>l. sv_link_session m l \<noteq> None \<longrightarrow> sv_open m l) \<and>
     distinct (lstObjectPtr (sv_pool m)) \<and> (\<forall>s\<in>set (lstObjectPtr (sv_pool m)). ses_link m s = None) \<and>
     snd ` set (sm_sessions (sv_mgr m)) \<inter> set (lstObjectPtr (sv_pool m)) = {} \<and>
     (\<forall>s p. ses_packet m s = Some p \<longrightarrow> p < sv_next_packet m) \<and> sv_tasks m = []"

lemma srv_inv_link:
  assumes "srv_inv m" and "ses_link m s = Some l"
  shows "sv_link_session m l = Some s" and "sv_open m l"
proof -
  have b: "\<forall>l s. (sv_link_session m l = Some s) = (ses_link m s = Some l)" and o: "\<forall>l. sv_link_session m l \<noteq> None \<longrightarrow> sv_open m l"
    using assms(1) unfolding srv_inv_def srv_bound_def by blast+
  show "sv_link_session m l = Some s" using b assms(2) by blast
  with o show "sv_open m l" by simp
qed

lemma srv_inv_pool: "srv_inv m \<Longrightarrow> s \<in> set (lstObjectPtr (sv_pool m)) \<Longrightarrow> ses_link m s = None"
  unfolding srv_inv_def by (elim conjE) (erule bspec)

lemma srv_inv_table: "srv_inv m \<Longrightarrow> snd ` set (sm_sessions (sv_mgr m)) \<inter> set (lstObjectPtr (sv_pool m)) = {}"
  unfolding srv_inv_def by (elim conjE)

lemma srv_inv_mgr:
  assumes "srv_inv m" and "\<And>t. so_link (sm_objs mgr t) = ses_link m t"
    and "snd ` set (sm_sessions mgr) \<inter> set (lstObjectPtr (sv_pool m)) = {}"
  shows "srv_inv (m\<lparr>sv_mgr := mgr\<rparr>)"
  using assms unfolding srv_inv_def srv_bound_def by simp

lemma sv_simps [simp]:
  "sv_link_session (sv_event e m) = sv_link_session m" "sv_open (sv_event e m) = sv_open m" "sv_ses (sv_event e m) = sv_ses m"
  "sv_packets (sv_event e m) = sv_packets m" "sv_next_packet (sv_event e m) = sv_next_packet m" "sv_pool (sv_event e m) = sv_pool m"
  "sv_mgr (sv_event e m) = sv_mgr m" "sv_tasks (sv_event e m) = sv_tasks m" "sv_events (sv_event e m) = sv_events m @ [e]"
  "sv_link_session (sv_set_ses s f m) = sv_link_session m" "sv_open (sv_set_ses s f m) = sv_open m"
  "sv_ses (sv_set_ses s f m) = (sv_ses m)(s := f (sv_ses m s))" "sv_packets (sv_set_ses s f m) = sv_packets m"
  "sv_next_packet (sv_set_ses s f m) = sv_next_packet m" "sv_pool (sv_set_ses s f m) = sv_pool m"
  "sv_mgr (sv_set_ses s f m) = sv_mgr m" "sv_tasks (sv_set_ses s f m) = sv_tasks m" "sv_events (sv_set_ses s f m) = sv_events m"
  "sv_link_session (sv_set_obj s g m) = sv_link_session m" "sv_open (sv_set_obj s g m) = sv_open m" "sv_ses (sv_set_obj s g m) = sv_ses m"
  "sv_packets (sv_set_obj s g m) = sv_packets m" "sv_next_packet (sv_set_obj s g m) = sv_next_packet m"
  "sv_pool (sv_set_obj s g m) = sv_pool m" "sv_tasks (sv_set_obj s g m) = sv_tasks m" "sv_events (sv_set_obj s g m) = sv_events m"
  "sm_sessions (sv_mgr (sv_set_obj s g m)) = sm_sessions (sv_mgr m)"
  "sm_objs (sv_mgr (sv_set_obj s g m)) = (sm_objs (sv_mgr m))(s := g (sm_objs (sv_mgr m) s))"
  by (simp_all add: sv_event_def sv_set_ses_def sv_set_obj_def)

lemma attach_simps [simp]:
  "sv_open (attach l so m) = sv_open m" "sv_ses (attach l so m) = sv_ses m" "sv_packets (attach l so m) = sv_packets m"
  "sv_next_packet (attach l so m) = sv_next_packet m" "sv_pool (attach l so m) = sv_pool m" "sv_tasks (attach l so m) = sv_tasks m"
  "sm_sessions (sv_mgr (attach l so m)) = sm_sessions (sv_mgr m)" "sv_events (attach l so m) = sv_events m"
  "sv_link_session (attach l so m) = (sv_link_session m)(l := so)"
  by (simp_all add: attach_def Let_def split: option.splits)

lemma ses_link_attach:
  "ses_link (attach l so m) s = (if so = Some s then Some l else if sv_link_session m l = Some s then None else ses_link m s)"
  by (auto simp: attach_def Let_def split: option.splits)

text \<open>Attaching a session that is on no other link keeps the binding.\<close>

lemma attach_bound:
  assumes "srv_bound m" and "\<And>s. so = Some s \<Longrightarrow> ses_link m s = None \<or> ses_link m s = Some l"
  shows "srv_bound (attach l so m)"
  using assms by (force simp: srv_bound_def ses_link_attach split: if_splits)

lemma srv_inv_attach:
  assumes "srv_inv m" and "\<And>s. so = Some s \<Longrightarrow> (ses_link m s = None \<or> ses_link m s = Some l) \<and>
      s \<notin> set (lstObjectPtr (sv_pool m)) \<and> sv_open m l"
  shows "srv_inv (attach l so m)"
proof -
  have "srv_bound (attach l so m)" using assms by (intro attach_bound) (auto simp: srv_inv_def)
  with assms show ?thesis by (auto simp: srv_inv_def ses_link_attach)
qed

text \<open>Only packets that did not exist before and events change.\<close>

definition sv_quiet :: "tcp_server \<Rightarrow> tcp_server \<Rightarrow> bool" where
  "sv_quiet m m' \<longleftrightarrow> sv_link_session m' = sv_link_session m \<and> sv_open m' = sv_open m \<and> sv_ses m' = sv_ses m \<and>
     sv_pool m' = sv_pool m \<and> sv_mgr m' = sv_mgr m \<and> sv_tasks m' = sv_tasks m \<and>
     sv_next_packet m \<le> sv_next_packet m' \<and> (\<forall>p < sv_next_packet m. sv_packets m' p = sv_packets m p)"

lemma sv_quiet_event [simp]: "sv_quiet m (sv_event e m') = sv_quiet m m'"
  by (simp add: sv_quiet_def)

lemma srv_inv_quiet: "srv_inv m \<Longrightarrow> sv_quiet m m' \<Longrightarrow> srv_inv m'"
proof -
  assume inv: "srv_inv m" and q: "sv_quiet m m'"
  have "p < sv_next_packet m'" if "ses_packet m' s = Some p" for s p
  proof -
    have "p < sv_next_packet m" using inv q that by (simp add: srv_inv_def sv_quiet_def)
    then show ?thesis using q by (simp add: sv_quiet_def)
  qed
  with inv q show ?thesis unfolding srv_inv_def srv_bound_def sv_quiet_def by simp
qed

lemma srv_inv_close:
  assumes "srv_inv m" and "sv_link_session m l = None"
  shows "srv_inv (m\<lparr>sv_open := (sv_open m)(l := False)\<rparr>)"
proof -
  have "l' \<noteq> l" if "sv_link_session m l' \<noteq> None" for l' using that assms(2) by auto
  with assms show ?thesis unfolding srv_inv_def srv_bound_def by simp
qed

lemma Packet_Create_quiet: "Packet_Create env m = (po, m') \<Longrightarrow> sv_quiet m m' \<and> (\<forall>n. po = Some n \<longrightarrow> n = sv_next_packet m)"
  by (auto simp: Packet_Create_def sv_quiet_def Let_def split: option.splits)

lemma answer_packet_quiet: "answer_packet env i q json m = Ret (data, m') \<Longrightarrow> sv_quiet m m'"
  by (auto simp: answer_packet_def Let_def bind_outcome_Ret_iff Packet_Create_def sv_quiet_def split: option.splits)

lemma tcp_Send_json_quiet: "tcp_Send_json env s i json m = Ret m' \<Longrightarrow> sv_quiet m m'"
proof -
  assume "tcp_Send_json env s i json m = Ret m'"
  then obtain data m1 where "answer_packet env i (ts_msg_seq (sv_ses m s)) json m = Ret (data, m1)"
    and m': "m' = (case data of None \<Rightarrow> m1 | Some xs \<Rightarrow> ses_AsyncSend s xs m1)"
    unfolding tcp_Send_json_def bind_outcome_Ret_iff by auto
  from answer_packet_quiet [OF this(1)] show ?thesis
    by (auto simp: m' ses_AsyncSend_def split: option.splits)
qed

text \<open>What a handler does not touch: the packet of the session it runs for, and existing packets.\<close>

definition sv_keeps :: "nat \<Rightarrow> tcp_server \<Rightarrow> tcp_server \<Rightarrow> bool" where
  "sv_keeps s m m' \<longleftrightarrow> srv_inv m' \<and> ses_packet m' s = ses_packet m s \<and> sv_next_packet m \<le> sv_next_packet m' \<and>
     (\<forall>p < sv_next_packet m. sv_packets m' p = sv_packets m p)"

lemma sv_keeps_quiet: "sv_keeps s m m' \<Longrightarrow> sv_quiet m' m'' \<Longrightarrow> sv_keeps s m m''"
  using srv_inv_quiet [of m' m''] by (auto simp: sv_keeps_def sv_quiet_def)

lemma sv_keeps_refl: "srv_inv m \<Longrightarrow> sv_keeps s m m"
  by (simp add: sv_keeps_def)

lemma OnError_keeps:
  assumes inv: "srv_inv m"
  shows "sv_keeps s m (tcp_OnError l reason m)"
proof (cases "sv_open m l")
  case True
  have e: "srv_inv (sv_event e m)" for e using inv by (auto simp: srv_inv_def srv_bound_def)
  have a: "srv_inv (attach l None (sv_event e m))" for e by (rule srv_inv_attach [OF e]) simp
  have "srv_inv (tcp_OnError l reason m)"
  proof (cases "sv_link_session m l")
    case None
    with srv_inv_close [OF inv] True show ?thesis by (simp add: tcp_OnError_def tcp_OnClose_def Let_def)
  next
    case (Some s)
    with srv_inv_close [OF a [of "EvClose s reason"], of l] True show ?thesis
      by (simp add: tcp_OnError_def tcp_OnClose_def AttachSession_def Let_def)
  qed
  with True show ?thesis
    by (auto simp: sv_keeps_def tcp_OnError_def tcp_OnClose_def AttachSession_def Let_def split: option.splits)
next
  case False
  with inv show ?thesis by (simp add: tcp_OnError_def sv_keeps_refl)
qed

lemma sm_Add_Ret:
  "sm_Add now key s m = Ret (b, m') \<Longrightarrow>
     snd ` set (sm_sessions m') \<subseteq> insert s (snd ` set (sm_sessions m)) \<and> (\<forall>t. so_link (sm_objs m' t) = so_link (sm_objs m t))"
proof -
  assume a: "sm_Add now key s m = Ret (b, m')"
  have "set (std_put key s ss) \<subseteq> insert (key, s) (set ss)" for ss
    by (induction key s ss rule: std_put.induct) auto
  then have sub: "snd ` set (std_put key s ss) \<subseteq> insert s (snd ` set ss)" for ss by force
  show ?thesis
  proof (cases "std_find key (sm_sessions m)")
    case None
    with a have "m' = m\<lparr>sm_sessions := std_put key s (sm_sessions m),
        sm_objs := (sm_objs m)(s := (sm_objs m s)\<lparr>so_expire := now\<rparr>)\<rparr>"
      by (simp add: sm_Add_def std_insert_def)
    then show ?thesis using sub by simp
  next
    case (Some s')
    with a show ?thesis by (auto simp: sm_Add_def std_insert_def split: if_splits)
  qed
qed

lemma Connect_keeps:
  assumes inv: "srv_inv m" and r: "Recv_Connect_Req env now rnd s m = Ret m'"
  shows "sv_keeps s m m'"
proof -
  define m1 where "m1 = sv_set_ses s (\<lambda>x. x\<lparr>ts_token := GenerateSessionToken (env_md5 env) (ts_key (sv_ses m s)) now rnd\<rparr>) m"
  have k1: "sv_keeps s m m1" using inv by (auto simp: m1_def sv_keeps_def srv_inv_def srv_bound_def)
  define ans where "ans = [(''error_code'', JInt 0), (''session_key'', JUInt (ts_key (sv_ses m s))),
    (''session_token'', JString (ts_token (sv_ses m1 s)))]"
  have link: "ses_link m s \<noteq> None" using r by (cases "ses_link m s") (simp_all add: Recv_Connect_Req_def)
  have "bind_outcome (sm_Add (int now) (ts_key (sv_ses m s)) s (sv_mgr m))
      (\<lambda>(_, mgr). bind_outcome (tcp_Send_json env s MsgID_Connect ans (m1\<lparr>sv_mgr := mgr\<rparr>))
        (\<lambda>m. Ret (sv_event (EvAccept s) m))) = Ret m'"
    using r link by (simp add: Recv_Connect_Req_def Let_def m1_def ans_def)
  then obtain b mgr where a: "sm_Add (int now) (ts_key (sv_ses m s)) s (sv_mgr m) = Ret (b, mgr)"
    and "bind_outcome (tcp_Send_json env s MsgID_Connect ans (m1\<lparr>sv_mgr := mgr\<rparr>)) (\<lambda>m. Ret (sv_event (EvAccept s) m)) = Ret m'"
    by (rule bind_outcome_RetE2)
  from this(2) obtain m2 where m2: "tcp_Send_json env s MsgID_Connect ans (m1\<lparr>sv_mgr := mgr\<rparr>) = Ret m2"
    and m': "m' = sv_event (EvAccept s) m2"
    by (rule bind_outcome_RetE) simp
  have "s \<notin> set (lstObjectPtr (sv_pool m))"
  proof
    assume "s \<in> set (lstObjectPtr (sv_pool m))"
    from srv_inv_pool [OF inv this] link show False by simp
  qed
  then have "snd ` set (sm_sessions mgr) \<inter> set (lstObjectPtr (sv_pool m1)) = {}"
    using sm_Add_Ret [OF a, THEN conjunct1] srv_inv_table [OF inv] unfolding m1_def sv_simps by blast
  then have "srv_inv (m1\<lparr>sv_mgr := mgr\<rparr>)"
    using k1 sm_Add_Ret [OF a] by (intro srv_inv_mgr) (simp_all add: sv_keeps_def m1_def)
  with k1 have "sv_keeps s m (m1\<lparr>sv_mgr := mgr\<rparr>)" by (simp add: sv_keeps_def)
  from sv_keeps_quiet [OF this tcp_Send_json_quiet [OF m2]] have "sv_keeps s m m2" .
  moreover have "sv_quiet m2 m'" by (simp add: m' sv_quiet_def)
  ultimately show ?thesis by (rule sv_keeps_quiet)
qed

lemma HeartBeat_keeps: "srv_inv m \<Longrightarrow> Recv_HeartBeat_Req env s m = Ret m' \<Longrightarrow> sv_keeps s m m'"
  by (rule sv_keeps_quiet [OF sv_keeps_refl tcp_Send_json_quiet]) (auto simp: Recv_HeartBeat_Req_def split: if_splits)

lemma sm_Find_table: "sm_Find k mgr = Some s \<Longrightarrow> s \<in> snd ` set (sm_sessions mgr)"
  by (auto simp: sm_Find_def std_find_def dest: map_of_SomeD intro: image_eqI [where x = "(k, s)"])

lemma reconnect_decide_Takeover:
  "reconnect_decide env json m = Takeover other \<longleftrightarrow>
   (\<exists>req key. env_parse env json = Some req \<and> env_asUInt env req ''session_key'' = Some key \<and>
      env_asString env req ''session_token'' = Some (ts_token (sv_ses m other)) \<and> sm_Find key (sv_mgr m) = Some other)"
  by (auto simp: reconnect_decide_def split: option.splits if_splits)

lemma takeover_keeps:
  assumes inv: "srv_inv m" and s: "ses_link m s = Some l" and other: "other \<in> snd ` set (sm_sessions (sv_mgr m))"
  shows "sv_keeps s m (reconnect_takeover env now rnd True l s other m)"
proof -
  define m1 where "m1 = (case ses_link m other of None \<Rightarrow> m | Some l' \<Rightarrow> attach l' None m)"
  note l = srv_inv_link [OF inv s]
  have m1: "srv_inv m1" "ses_link m1 other = None" "sv_ses m1 = sv_ses m" "sv_open m1 = sv_open m" "sv_pool m1 = sv_pool m"
    "sv_packets m1 = sv_packets m" "sv_next_packet m1 = sv_next_packet m"
    using inv srv_inv_attach [OF inv, of None]
    by (auto simp: m1_def ses_link_attach srv_inv_def srv_bound_def split: option.splits)
  define m2 where "m2 = sv_set_ses other (\<lambda>x. x\<lparr>ts_packet := ts_packet (sv_ses m1 s),
    ts_token := GenerateSessionToken (env_md5 env) (ts_key x) now rnd\<rparr>) m1"
  have p: "p < sv_next_packet m1" if "ses_packet m1 t = Some p" for t p using m1(1) that by (simp add: srv_inv_def)
  have m2: "srv_inv m2" using m1(1) p by (auto simp: m2_def srv_inv_def srv_bound_def)
  have "other \<notin> set (lstObjectPtr (sv_pool m2))" using inv other m1(5) by (auto simp: m2_def srv_inv_def)
  then have "srv_inv (attach l (Some other) m2)"
    using m1(2,4) l by (intro srv_inv_attach [OF m2]) (simp add: m2_def)
  moreover have "reconnect_takeover env now rnd True l s other m = attach l (Some other) m2"
    by (simp add: reconnect_takeover_def m2_def m1_def AttachSession_def Let_def cong: option.case_cong)
  ultimately show ?thesis using m1(3,6,7) by (simp add: sv_keeps_def m2_def)
qed

lemma Reconnect_keeps:
  assumes inv: "srv_inv m" and r: "Recv_Reconnect_Req env now rnd True s p m = Ret m'"
  shows "sv_keeps s m m'"
proof -
  obtain json where json: "reconnect_text (sv_packets m p) = Ret json"
    using r by (cases "reconnect_text (sv_packets m p)") (simp_all add: Recv_Reconnect_Req_def)
  show ?thesis
  proof (cases "reconnect_decide env json m = JsonThrows")
    case True
    with r json have "m' = m" by (simp add: Recv_Reconnect_Req_def)
    with inv show ?thesis by (simp add: sv_keeps_refl)
  next
    case False
    with r json obtain l where l: "ses_link m s = Some l"
      by (cases "ses_link m s"; cases "reconnect_decide env json m") (simp_all add: Recv_Reconnect_Req_def)
    have answer: "sv_keeps s m m'"
      if k: "sv_keeps s m m1" and a: "bind_outcome (answer_packet env i q ans m1)
        (\<lambda>(data, m). Ret (case data of None \<Rightarrow> m | Some xs \<Rightarrow> sv_event (EvSend l xs) m)) = Ret m'" for m1 i q ans
    proof -
      obtain data m2 where a2: "answer_packet env i q ans m1 = Ret (data, m2)"
        and m': "m' = (case data of None \<Rightarrow> m2 | Some xs \<Rightarrow> sv_event (EvSend l xs) m2)"
        using a unfolding bind_outcome_Ret_iff by auto
      have "sv_quiet m1 m'" using answer_packet_quiet [OF a2] by (simp add: m' split: option.splits)
      with k show ?thesis by (rule sv_keeps_quiet)
    qed
    show ?thesis
    proof (cases "reconnect_decide env json m")
      case (Takeover other)
      then have "sv_keeps s m (reconnect_takeover env now rnd True l s other m)"
        unfolding reconnect_decide_Takeover by (elim exE conjE) (intro takeover_keeps inv l sm_Find_table)
      from answer [OF this] show ?thesis using r json l Takeover by (simp add: Recv_Reconnect_Req_def Let_def)
    next
      case (Refuse e)
      have "sv_keeps s m (attach l None m)" using srv_inv_attach [OF inv, of None l] by (simp add: sv_keeps_def)
      from answer [OF this] show ?thesis
        using r json l Refuse by (simp add: Recv_Reconnect_Req_def AttachSession_def Let_def)
    qed (use False in simp)
  qed
qed

lemma dispatch_keeps:
  assumes inv: "srv_inv m" and r: "srv_dispatch env now rnd True s p m = Ret m'"
  shows "sv_keeps s m m'"
proof -
  have q: "sv_keeps s m (sv_event e m)" for e using sv_keeps_quiet [OF sv_keeps_refl [OF inv]] by (simp add: sv_quiet_def)
  show ?thesis
    using r Connect_keeps [OF inv] Reconnect_keeps [OF inv] HeartBeat_keeps [OF inv] OnError_keeps [OF inv] q
    by (auto simp: srv_dispatch_def Let_def split: if_splits option.splits)
qed

lemma rx_msg_keeps:
  assumes inv: "srv_inv m" and r: "srv_rx_msg env now rnd True s p m = Ret m'"
  shows "sv_keeps s m m'"
proof (cases "pkt_GetSEQ (sv_packets m p) > ts_msg_seq (sv_ses m s)")
  case True
  with r obtain m1 where d: "srv_dispatch env now rnd True s p m = Ret m1"
    and m': "m' = sv_set_ses s (\<lambda>x. x\<lparr>ts_msg_seq := pkt_GetSEQ (sv_packets m p)\<rparr>) m1"
    by (auto simp: srv_rx_msg_def Let_def elim: bind_outcome_RetE)
  have k: "sv_keeps s m m1" using inv d by (rule dispatch_keeps)
  then have inv1: "srv_inv m1" by (simp add: sv_keeps_def)
  have "srv_inv m'" using inv1 by (auto simp: m' srv_inv_def srv_bound_def)
  with k show ?thesis by (simp add: m' sv_keeps_def)
next
  case False
  with inv r show ?thesis by (simp add: srv_rx_msg_def sv_keeps_refl)
qed

lemma srv_inv_packets: "srv_inv (m\<lparr>sv_packets := ps\<rparr>) = srv_inv m"
  by (simp add: srv_inv_def srv_bound_def)

lemma srv_inv_ses_packet: "srv_inv m \<Longrightarrow> n < sv_next_packet m \<Longrightarrow> srv_inv (sv_set_ses s (\<lambda>x. x\<lparr>ts_packet := Some n\<rparr>) m)"
  unfolding srv_inv_def srv_bound_def by simp

lemma srv_inv_Create: "srv_inv m \<Longrightarrow> Packet_Create env m = (po, m') \<Longrightarrow> srv_inv m'"
  using Packet_Create_quiet srv_inv_quiet by metis

text \<open>One pass keeps the invariant, and if the loop goes on the session's packet has become smaller.\<close>

lemma rx_rest_inv:
  assumes inv: "srv_inv m" and p: "ses_packet m s = Some p" and r: "srv_rx_rest env n l s m = Ret (ended, m')"
  shows "srv_inv m' \<and> (\<not> ended \<longrightarrow> (\<exists>p'. ses_packet m' s = Some p' \<and> buf_Size (sv_packets m' p') \<le> buf_Size (buf_Remove n (sv_packets m p))))"
proof -
  define q where "q = buf_Remove n (sv_packets m p)"
  define m1 where "m1 = m\<lparr>sv_packets := (sv_packets m)(p := q)\<rparr>"
  have inv1: "srv_inv m1" using inv by (simp add: m1_def srv_inv_packets)
  obtain po m2 where c: "Packet_Create env m1 = (po, m2)" by fastforce
  have inv2: "srv_inv m2" using srv_inv_Create [OF inv1 c] .
  show ?thesis
  proof (cases "0 < buf_Size q")
    case False
    then have "ended = False" "m' = m1" using r p by (simp_all add: srv_rx_rest_def Let_def q_def [symmetric] m1_def [symmetric])
    with inv1 p show ?thesis by (simp add: m1_def q_def)
  next
    case pos: True
    show ?thesis
    proof (cases po)
      case None
      then have "ended = True" "m' = tcp_OnError l EOVERFLOW m2"
        using r p pos c by (simp_all add: srv_rx_rest_def Let_def q_def [symmetric] m1_def [symmetric])
      with OnError_keeps [OF inv2] show ?thesis by (simp add: sv_keeps_def)
    next
      case (Some k)
      have "bind_outcome (buf_Append (buf_read (buf_Size q) q) (sv_packets m2 k))
          (\<lambda>q'. Ret (False, sv_set_ses s (\<lambda>x. x\<lparr>ts_packet := Some k\<rparr>) (m2\<lparr>sv_packets := (sv_packets m2)(k := q')\<rparr>))) = Ret (ended, m')"
        using r p pos c Some by (simp add: srv_rx_rest_def Let_def q_def [symmetric] m1_def [symmetric])
      then obtain q' where q': "buf_Append (buf_read (buf_Size q) q) (sv_packets m2 k) = Ret q'"
        and m': "ended = False" "m' = sv_set_ses s (\<lambda>x. x\<lparr>ts_packet := Some k\<rparr>) (m2\<lparr>sv_packets := (sv_packets m2)(k := q')\<rparr>)"
        by (rule bind_outcome_RetE) auto
      have k: "k < sv_next_packet m2" and pk: "\<exists>p0. sv_packets m2 k = pkt_Init p0"
        using c Some by (auto simp: Packet_Create_def Let_def split: option.splits)
      have "srv_inv m'" using srv_inv_ses_packet [of "m2\<lparr>sv_packets := (sv_packets m2)(k := q')\<rparr>" k s] inv2 k
        by (simp add: m' srv_inv_packets)
      moreover have "buf_Size q' \<le> buf_Size q"
      proof -
        from pk obtain p0 where "sv_packets m2 k = pkt_Init p0" ..
        then have "buf_Size q' = length (buf_read (buf_Size q) q)" using buf_Append_Init_Size q' by simp
        then show ?thesis by (simp add: buf_read_def slice_of_def)
      qed
      ultimately show ?thesis by (simp add: m' q_def)
    qed
  qed
qed

lemma rx_step_inv:
  assumes inv: "srv_inv m" and p: "ses_packet m s = Some p" and r: "srv_rx_step env now rnd True l s m = Ret (ended, m')"
  shows "srv_inv m' \<and> (\<not> ended \<longrightarrow> (\<exists>p'. ses_packet m' s = Some p' \<and> buf_Size (sv_packets m' p') < buf_Size (sv_packets m p)))"
proof -
  let ?n = "pkt_GetLength (sv_packets m p)"
  have pn: "p < sv_next_packet m" using inv p unfolding srv_inv_def by blast
  have st: "srv_rx_step env now rnd True l s m =
     (if buf_Size (sv_packets m p) < HEADER_SIZE then Ret (True, m)
      else if HEADER_SIZE > unat ?n \<or> unat ?n \<ge> buf_Capacity (sv_packets m p) then Ret (True, tcp_OnError l EOVERFLOW m)
      else if unat ?n > buf_Size (sv_packets m p) mod 2 ^ 16 then Ret (True, m)
      else bind_outcome (srv_rx_msg env now rnd True s p m) (srv_rx_rest env ?n l s))"
    unfolding srv_rx_step_def p option.case Let_def ..
  show ?thesis
  proof (cases "buf_Size (sv_packets m p) < HEADER_SIZE \<or> HEADER_SIZE > unat ?n \<or> unat ?n \<ge> buf_Capacity (sv_packets m p)
      \<or> unat ?n > buf_Size (sv_packets m p) mod 2 ^ 16")
    case True
    then have "ended" "m' = m \<or> m' = tcp_OnError l EOVERFLOW m" using r unfolding st by (simp_all split: if_split_asm)
    with inv OnError_keeps [OF inv] show ?thesis by (auto simp: sv_keeps_def)
  next
    case False
    then have "bind_outcome (srv_rx_msg env now rnd True s p m) (srv_rx_rest env ?n l s) = Ret (ended, m')"
      using r unfolding st by (simp split: if_split_asm)
    then obtain m1 where m1: "srv_rx_msg env now rnd True s p m = Ret m1" "srv_rx_rest env ?n l s m1 = Ret (ended, m')"
      by (rule bind_outcome_RetE)
    have k: "sv_keeps s m m1" using inv m1(1) by (rule rx_msg_keeps)
    then have k': "srv_inv m1" "ses_packet m1 s = Some p" "sv_packets m1 p = sv_packets m p"
      using p pn by (simp_all add: sv_keeps_def)
    have "buf_Size (buf_Remove ?n (sv_packets m p)) < buf_Size (sv_packets m p)"
      using False by (intro buf_Remove_Size) (simp_all add: HEADER_SIZE_def)
    with rx_rest_inv [OF k'(1,2) m1(2)] k'(3) show ?thesis by (auto intro: order.strict_trans1)
  qed
qed

lemma rx_loop_inv:
  "srv_inv m \<Longrightarrow> ses_packet m s = Some p \<Longrightarrow> buf_Size (sv_packets m p) < fuel \<Longrightarrow>
   srv_rx_loop fuel env now rnd True l s m = Ret (ended, m') \<Longrightarrow> ended \<and> srv_inv m'"
proof (induction fuel arbitrary: m p)
  case (Suc fuel)
  from Suc.prems(4) obtain b m1 where st: "srv_rx_step env now rnd True l s m = Ret (b, m1)"
    and go: "(if b then Ret (True, m1) else srv_rx_loop fuel env now rnd True l s m1) = Ret (ended, m')"
    unfolding srv_rx_loop.simps by (rule bind_outcome_RetE2)
  note i = rx_step_inv [OF Suc.prems(1,2) st]
  show ?case
  proof (cases b)
    case True
    with go i show ?thesis by auto
  next
    case False
    with i obtain p' where p': "ses_packet m1 s = Some p'" "buf_Size (sv_packets m1 p') < buf_Size (sv_packets m p)"
      by blast
    have "buf_Size (sv_packets m1 p') < fuel" using p'(2) Suc.prems(3) by simp
    from Suc.IH [OF _ p'(1) this] i go False show ?thesis by simp
  qed
qed simp

lemma OnRecvMsg_inv:
  assumes inv: "srv_inv m" and r: "srv_OnRecvMsg env now rnd True l chunk m = Ret (ended, m')"
  shows "ended \<and> srv_inv m'"
proof (cases "sv_link_session m l")
  case None
  with r OnError_keeps [OF inv] show ?thesis by (auto simp: srv_OnRecvMsg_def sv_keeps_def)
next
  case (Some s)
  define m1 where "m1 = sv_set_obj s (\<lambda>x. x\<lparr>so_expire := int now\<rparr>) m"
  have inv1: "srv_inv m1" using inv by (auto simp: m1_def srv_inv_def srv_bound_def)
  show ?thesis
  proof (cases "ses_packet m s")
    case None
    with Some r show ?thesis by (simp add: srv_OnRecvMsg_def Let_def)
  next
    case p: (Some p)
    then have "bind_outcome (buf_Append chunk (sv_packets m p)) (\<lambda>q. srv_rx_loop (Suc (buf_Size q)) env now rnd True l s
        (m1\<lparr>sv_packets := (sv_packets m1)(p := q)\<rparr>)) = Ret (ended, m')"
      using r Some by (simp add: srv_OnRecvMsg_def Let_def m1_def)
    then obtain q where "srv_rx_loop (Suc (buf_Size q)) env now rnd True l s (m1\<lparr>sv_packets := (sv_packets m1)(p := q)\<rparr>) = Ret (ended, m')"
      by (rule bind_outcome_RetE)
    note run = this
    let ?m = "m1\<lparr>sv_packets := (sv_packets m1)(p := q)\<rparr>"
    have "srv_inv ?m" "ses_packet ?m s = Some p" "buf_Size (sv_packets ?m p) < Suc (buf_Size q)"
      using inv1 p by (simp_all add: srv_inv_packets m1_def)
    from rx_loop_inv [OF this run] show ?thesis .
  qed
qed

section \<open>Runs\<close>

text \<open>A session returns to the pool when nothing refers to it any more. All strands are free when
  \<open>AttachSession\<close> is called.\<close>

inductive srv_step :: "'r tcp_env \<Rightarrow> tcp_server \<Rightarrow> tcp_server \<Rightarrow> bool" for env where
  accepts: "\<not> sv_open m l \<Longrightarrow> ses_link m x = None \<Longrightarrow> x \<notin> set (lstObjectPtr (sv_pool m)) \<union> snd ` set (sm_sessions (sv_mgr m)) \<Longrightarrow>
    srv_step env m (tcp_OnAccept env x l (m\<lparr>sv_open := (sv_open m)(l := True)\<rparr>))"
| receives: "srv_OnRecvMsg env now rnd True l chunk m = Ret (ended, m') \<Longrightarrow> srv_step env m m'"
| errors: "srv_step env m (tcp_OnError l reason m)"
| sweeps: "srv_step env m (m\<lparr>sv_mgr := sm_sweep now (sv_mgr m)\<rparr>)"
| releases: "ses_link m s = None \<Longrightarrow> s \<notin> set (lstObjectPtr (sv_pool m)) \<union> snd ` set (sm_sessions (sv_mgr m)) \<Longrightarrow>
    srv_step env m (m\<lparr>sv_pool := pool_Restitute (Some s) (sv_pool m)\<rparr>)"

lemma srv_inv_new: "srv_inv (tcp_Listen n k new_tcp_server)"
  by (simp add: srv_inv_def srv_bound_def tcp_Listen_def new_tcp_server_def new_session_manager_def sm_Init_def
      pool_set_Capacity_def new_pool_def)

lemma OnAccept_inv:
  assumes inv: "srv_inv m" and l: "\<not> sv_open m l" and x: "ses_link m x = None"
    "x \<notin> set (lstObjectPtr (sv_pool m)) \<union> snd ` set (sm_sessions (sv_mgr m))"
  shows "srv_inv (tcp_OnAccept env x l (m\<lparr>sv_open := (sv_open m)(l := True)\<rparr>))"
proof -
  define m0 where "m0 = m\<lparr>sv_open := (sv_open m)(l := True)\<rparr>"
  have inv0: "srv_inv m0" using inv unfolding m0_def srv_inv_def srv_bound_def by simp
  obtain r p where c: "pool_Create (Made x) (sv_pool m) = (r, p)" by fastforce
  show ?thesis
  proof (cases "\<exists>s. r = Ret (Some s)")
    case False
    then have "p = sv_pool m" "tcp_OnAccept env x l m0 = tcp_OnError l EINVAL (m0\<lparr>sv_pool := p\<rparr>)"
      using c by (auto simp: tcp_OnAccept_def m0_def pool_Create.simps Let_def split: outcome.splits option.splits if_splits list.splits)
    with OnError_keeps [OF inv0] show ?thesis by (simp add: m0_def sv_keeps_def)
  next
    case True
    then obtain s where s: "r = Ret (Some s)" by blast
    define m1 where "m1 = tcp_ses_Init s (m0\<lparr>sv_pool := p\<rparr>)"
    have "(s = x \<and> lstObjectPtr p = []) \<or> lstObjectPtr (sv_pool m) = s # lstObjectPtr p"
      using c s by (auto simp: pool_Create_Made_Some)
    then have sp: "ses_link m s = None" "s \<notin> set (lstObjectPtr p)" "set (lstObjectPtr p) \<subseteq> set (lstObjectPtr (sv_pool m))"
      "distinct (lstObjectPtr p)" "s \<notin> snd ` set (sm_sessions (sv_mgr m))"
      using x srv_inv_pool [OF inv] srv_inv_table [OF inv] inv unfolding srv_inv_def by auto
    have link: "ses_link m1 t = ses_link m t" for t using sp(1) by (simp add: m1_def tcp_ses_Init_def m0_def)
    have eqs: "sv_link_session m1 = sv_link_session m0" "sv_open m1 = sv_open m0" "sv_next_packet m1 = sv_next_packet m0"
      "sv_tasks m1 = sv_tasks m0" "sm_sessions (sv_mgr m1) = sm_sessions (sv_mgr m)" "sv_pool m1 = p"
      "ses_packet m1 t = ses_packet m t" for t
      by (simp_all add: m1_def tcp_ses_Init_def m0_def)
    have inv1: "srv_inv m1"
      using inv0 sp link unfolding srv_inv_def srv_bound_def eqs by (auto simp: m0_def)
    define m2 where "m2 = m1\<lparr>sv_key := sv_key m1 + 1\<rparr>"
    obtain po m3 where pc: "Packet_Create env m2 = (po, m3)" by fastforce
    have inv2: "srv_inv m2" using inv1 unfolding m2_def srv_inv_def srv_bound_def by simp
    have inv3: "srv_inv m3" using inv2 pc by (rule srv_inv_Create)
    define m4 where "m4 = sv_set_ses s (\<lambda>x. x\<lparr>ts_key := sv_key m3, ts_packet := po, ts_msg_seq := 0\<rparr>) m3"
    have po: "po = Some n \<Longrightarrow> n < sv_next_packet m3" for n
      using pc by (auto simp: Packet_Create_def Let_def split: option.splits)
    have inv4: "srv_inv m4" using inv3 po unfolding m4_def srv_inv_def srv_bound_def by simp
    have q: "sv_quiet m2 m3" using Packet_Create_quiet [OF pc] by simp
    have "ses_link m4 s = None" "sv_pool m4 = p" "sv_open m4 l"
      using q sp(1) link by (simp_all add: m4_def sv_quiet_def m2_def eqs m0_def)
    then have "srv_inv (attach l (Some s) m4)" using sp(2) by (intro srv_inv_attach [OF inv4]) simp
    moreover have "tcp_OnAccept env x l m0 = attach l (Some s) m4"
      using c s pc by (simp add: tcp_OnAccept_def m0_def [symmetric] m1_def m2_def m4_def AttachSession_def Let_def)
        (simp add: m0_def m1_def m2_def m4_def AttachSession_def)
    ultimately show ?thesis by (simp add: m0_def)
  qed
qed

lemma srv_inv_step:
  assumes inv: "srv_inv m" and st: "srv_step env m m'"
  shows "srv_inv m'"
  using st
proof cases
  case (accepts l x)
  with OnAccept_inv [OF inv] show ?thesis by simp
next
  case (receives now rnd l chunk ended)
  from OnRecvMsg_inv [OF inv this] show ?thesis by simp
next
  case (errors l reason)
  with OnError_keeps [OF inv, of undefined] show ?thesis by (simp add: sv_keeps_def)
next
  case (sweeps now)
  have "snd ` set (sm_sessions (sm_sweep now (sv_mgr m))) \<subseteq> snd ` set (sm_sessions (sv_mgr m))"
    by (auto simp: sm_sweep_def std_sweep_filter)
  with srv_inv_table [OF inv]
  have "snd ` set (sm_sessions (sm_sweep now (sv_mgr m))) \<inter> set (lstObjectPtr (sv_pool m)) = {}" by blast
  moreover have "so_link (sm_objs (sm_sweep now (sv_mgr m)) t) = ses_link m t" for t
    by (simp add: sm_sweep_def std_sweep_filter)
  ultimately show ?thesis using srv_inv_mgr [OF inv, of "sm_sweep now (sv_mgr m)"] sweeps by simp
next
  case (releases s)
  then show ?thesis using inv unfolding srv_inv_def srv_bound_def by (simp add: pool_Restitute_def)
qed

interpretation tcp_server: invariant_system "\<lambda>m. \<exists>n k. m = tcp_Listen n k new_tcp_server" "srv_step env" srv_inv for env
  by unfold_locales (auto intro: srv_inv_new srv_inv_step)

section \<open>A reconnecting client\<close>

text \<open>What \<open>Recv_Reconnect_Req\<close> does to links and sessions once its text is read.\<close>

lemma Reconnect_effect:
  assumes l: "ses_link m s = Some l" and json: "reconnect_text (sv_packets m p) = Ret json"
    and r: "Recv_Reconnect_Req env now rnd inline s p m = Ret m'"
  shows "case reconnect_decide env json m of
      JsonThrows \<Rightarrow> m' = m
    | Refuse e \<Rightarrow> sv_quiet (attach l None m) m'
    | Takeover other \<Rightarrow> sv_quiet (reconnect_takeover env now rnd inline l s other m) m'"
proof -
  have answer: "sv_quiet m1 m'"
    if a: "bind_outcome (answer_packet env i q ans m1)
      (\<lambda>(data, m). Ret (case data of None \<Rightarrow> m | Some xs \<Rightarrow> sv_event (EvSend l xs) m)) = Ret m'" for m1 i q ans
  proof -
    obtain data m2 where a2: "answer_packet env i q ans m1 = Ret (data, m2)"
      and m': "m' = (case data of None \<Rightarrow> m2 | Some xs \<Rightarrow> sv_event (EvSend l xs) m2)"
      using a by (rule bind_outcome_RetE2) simp
    show ?thesis using answer_packet_quiet [OF a2] by (simp add: m' split: option.splits)
  qed
  show ?thesis
    using r json l answer
    by (cases "reconnect_decide env json m") (simp_all add: Recv_Reconnect_Req_def AttachSession_def Let_def)
qed

lemma answer_packet_returns:
  assumes "\<And>n. \<exists>q. env_packet env n = Some q \<and> pkt_ok q" and "\<And>ans. length (env_write env ans) + 1 + HEADER_SIZE < Buffer_MAX_SIZE"
  shows "\<exists>data m'. answer_packet env i q ans m = Ret (data, m')"
proof -
  obtain p where p: "env_packet env (sv_next_packet m) = Some p" "pkt_ok p" using assms(1) by blast
  have "length (env_write env ans @ [0]) + HEADER_SIZE < Buffer_MAX_SIZE" using assms(2) [of ans] by simp
  from pkt_Write_fits [OF pkt_ok_Init [OF p(2), THEN conjunct1] this] obtain p' where
    "pkt_Write \<lparr>hdr_length = of_nat (HEADER_SIZE + length (env_write env ans) + 1), hdr_msg_id = i, hdr_msg_seq = q\<rparr>
      (env_write env ans @ [0]) (pkt_Init p) = Ret (True, p')" by blast
  with p(1) show ?thesis by (simp add: answer_packet_def Packet_Create_def Let_def)
qed

lemma Reconnect_returns:
  assumes "\<And>n. \<exists>q. env_packet env n = Some q \<and> pkt_ok q" and "\<And>ans. length (env_write env ans) + 1 + HEADER_SIZE < Buffer_MAX_SIZE"
    and "ses_link m s = Some l" and "reconnect_text (sv_packets m p) = Ret json" and "reconnect_decide env json m = Takeover other"
  shows "\<exists>m'. Recv_Reconnect_Req env now rnd inline s p m = Ret m'"
proof -
  have "\<exists>data m'. answer_packet env i q ans m1 = Ret (data, m')" for i q ans m1
    using answer_packet_returns assms(1,2) by blast
  then obtain data m' where "answer_packet env MsgID_Reconnect (ts_msg_seq (sv_ses (reconnect_takeover env now rnd inline l s other m) s))
      [(''error_code'', JInt 0), (''msg_seq'', JUInt (ts_msg_seq (sv_ses (reconnect_takeover env now rnd inline l s other m) other))),
       (''session_key'', JUInt (ts_key (sv_ses (reconnect_takeover env now rnd inline l s other m) other))),
       (''session_token'', JString (ts_token (sv_ses (reconnect_takeover env now rnd inline l s other m) other)))]
      (reconnect_takeover env now rnd inline l s other m) = Ret (data, m')" by metis
  with assms(3-5) show ?thesis by (simp add: Recv_Reconnect_Req_def Let_def)
qed

lemma takeover_effect:
  "sv_link_session (reconnect_takeover env now rnd True l s other m) l = Some other"
  "sv_ses (reconnect_takeover env now rnd True l s other m) = (sv_ses m)(other := (sv_ses m other)\<lparr>ts_packet := ses_packet m s,
     ts_token := GenerateSessionToken (env_md5 env) (ts_key (sv_ses m other)) now rnd\<rparr>)"
  "sv_packets (reconnect_takeover env now rnd True l s other m) = sv_packets m"
  "sv_next_packet (reconnect_takeover env now rnd True l s other m) = sv_next_packet m"
  by (simp_all add: reconnect_takeover_def AttachSession_def Let_def split: option.splits)

section \<open>Properties\<close>

text \<open>C6: On every run of the server whose strands are free when sessions are attached, a link's session
  and a session's link always name each other, closed links have no session, pooled sessions are unlinked
  and not in the session table, and every call of \<open>OnRecvMsg\<close> that returns has ended its loop regularly
  within one pass per received byte.\<close>

theorem links_sessions_bound:
  assumes "(srv_step env)\<^sup>*\<^sup>* (tcp_Listen n k new_tcp_server) m"
  shows "(sv_link_session m l = Some s \<longleftrightarrow> ses_link m s = Some l) \<and> (\<not> sv_open m l \<longrightarrow> sv_link_session m l = None) \<and>
    (s \<in> set (lstObjectPtr (sv_pool m)) \<longrightarrow> ses_link m s = None \<and> tcp_FindSession key m \<noteq> Some s) \<and>
    (srv_OnRecvMsg env now rnd True l chunk m = Ret (ended, m') \<longrightarrow> ended)"
proof -
  have inv: "srv_inv m" using assms by (intro tcp_server.inv_reachable) blast+
  have "tcp_FindSession key m \<noteq> Some s" if "s \<in> set (lstObjectPtr (sv_pool m))"
    using srv_inv_table [OF inv] that sm_Find_table [of key "sv_mgr m" s] unfolding tcp_FindSession_def by blast
  moreover have "sv_link_session m l = Some s \<longleftrightarrow> ses_link m s = Some l" "\<not> sv_open m l \<longrightarrow> sv_link_session m l = None"
    using inv unfolding srv_inv_def srv_bound_def by blast+
  ultimately show ?thesis using OnRecvMsg_inv [OF inv] srv_inv_pool [OF inv] by blast
qed

definition silent_env :: "unit tcp_env" where
  "silent_env = \<lparr>env_parse = (\<lambda>_. Some ()), env_asUInt = (\<lambda>_ _. Some 5), env_asString = (\<lambda>_ _. Some ''t''),
     env_write = (\<lambda>_. []), env_packet = (\<lambda>_. None), env_registered = (\<lambda>_. False), env_md5 = undefined\<rparr>"

lemma links_sessions_bound_witness:
  "let m = tcp_OnAccept silent_env 7 1 ((tcp_Listen 10 0 new_tcp_server)\<lparr>sv_open := (\<lambda>_. False)(1 := True)\<rparr>)
   in sv_link_session m 1 = Some 7 \<and> ses_link m 7 = Some 1"
proof -
  let ?init = "tcp_Listen 10 0 new_tcp_server"
  let ?m = "tcp_OnAccept silent_env 7 1 (?init\<lparr>sv_open := (\<lambda>_. False)(1 := True)\<rparr>)"
  have o: "sv_open ?init = (\<lambda>_. False)" by (simp add: tcp_Listen_def new_tcp_server_def)
  have "srv_step silent_env ?init (tcp_OnAccept silent_env 7 1 (?init\<lparr>sv_open := (sv_open ?init)(1 := True)\<rparr>))"
    by (rule srv_step.accepts)
      (simp_all add: tcp_Listen_def new_tcp_server_def new_session_manager_def sm_Init_def pool_set_Capacity_def new_pool_def)
  then have run: "(srv_step silent_env)\<^sup>*\<^sup>* ?init ?m" unfolding o by (rule r_into_rtranclp)
  have "sv_link_session ?m 1 = Some 7"
    by (simp add: tcp_OnAccept_def pool_Create.simps tcp_Listen_def pool_set_Capacity_def new_tcp_server_def new_pool_def
        Let_def AttachSession_def split: prod.splits)
  with links_sessions_bound [OF run, of 1 7] show ?thesis by (simp add: Let_def)
qed

text \<open>C7: A session is taken over only with its own token. Whatever a client sends as a reconnect request
  on its link: when the request is refused, the link loses its session and no session changes; when it is
  accepted, the request named the session by its key and showed its current token, the link and this
  session are attached to each other and to nothing else, the token is replaced, the packet under assembly
  is handed over, and everything else of all sessions, the received sequence number included, stays.\<close>

theorem reconnect_needs_token:
  assumes inv: "srv_inv m" and l: "ses_link m s = Some l" and json: "reconnect_text (sv_packets m p) = Ret json"
    and r: "Recv_Reconnect_Req env now rnd True s p m = Ret m'"
  shows "case reconnect_decide env json m of
      JsonThrows \<Rightarrow> m' = m
    | Refuse e \<Rightarrow> sv_ses m' = sv_ses m \<and> sv_link_session m' = (sv_link_session m)(l := None)
    | Takeover other \<Rightarrow>
        (\<exists>req key. env_parse env json = Some req \<and> env_asUInt env req ''session_key'' = Some key \<and>
           env_asString env req ''session_token'' = Some (ts_token (sv_ses m other)) \<and> tcp_FindSession key m = Some other) \<and>
        (\<forall>l'. sv_link_session m' l' = Some other \<longleftrightarrow> l' = l) \<and> ses_link m' other = Some l \<and>
        sv_ses m' = (sv_ses m)(other := (sv_ses m other)\<lparr>ts_packet := ses_packet m s,
          ts_token := GenerateSessionToken (env_md5 env) (ts_key (sv_ses m other)) now rnd\<rparr>)"
proof -
  note eff = Reconnect_effect [OF l json r]
  show ?thesis
  proof (cases "reconnect_decide env json m")
    case (Takeover other)
    then have q: "sv_quiet (reconnect_takeover env now rnd True l s other m) m'" using eff by simp
    have b: "\<forall>l s. (sv_link_session m' l = Some s) = (ses_link m' s = Some l)"
      using Reconnect_keeps [OF inv r] unfolding sv_keeps_def srv_inv_def srv_bound_def by blast
    have "sv_link_session m' l = Some other" using q takeover_effect(1) by (simp add: sv_quiet_def)
    with b have o: "ses_link m' other = Some l" by blast
    then have "\<forall>l'. sv_link_session m' l' = Some other \<longleftrightarrow> l' = l" using b by auto
    moreover have "sv_ses m' = sv_ses (reconnect_takeover env now rnd True l s other m)" using q by (simp add: sv_quiet_def)
    moreover have "\<exists>req key. env_parse env json = Some req \<and> env_asUInt env req ''session_key'' = Some key \<and>
           env_asString env req ''session_token'' = Some (ts_token (sv_ses m other)) \<and> tcp_FindSession key m = Some other"
      using Takeover unfolding reconnect_decide_Takeover tcp_FindSession_def .
    ultimately show ?thesis unfolding Takeover reconnect_decision.case takeover_effect(2) using o by blast
  qed (use eff in \<open>simp_all add: sv_quiet_def\<close>)
qed

text \<open>Link 1 with session 10, which is in the table, and link 2 with the new session 20.\<close>

definition server_demo :: tcp_server where
  "server_demo = new_tcp_server\<lparr>sv_open := (\<lambda>l. l = 1 \<or> l = 2), sv_link_session := [1 \<mapsto> 10, 2 \<mapsto> 20], sv_next_packet := 1,
     sv_ses := (\<lambda>_. \<lparr>ts_key = 5, ts_token = ''t'', ts_msg_seq = 0, ts_packet = Some 0\<rparr>),
     sv_mgr := new_session_manager\<lparr>sm_sessions := [(5, 10)],
       sm_objs := (\<lambda>s. \<lparr>so_link = (if s = 10 then Some 1 else if s = 20 then Some 2 else None), so_expire = 0\<rparr>)\<rparr>\<rparr>"

lemma server_demo_facts:
  "srv_inv server_demo" "ses_link server_demo 20 = Some 2" "ses_link server_demo 10 = Some 1" "sv_tasks server_demo = []"
  "sv_link_session server_demo 1 = Some 10" "sv_packets server_demo 0 = new_packet" "ses_packet server_demo s = Some 0"
  "ts_msg_seq (sv_ses server_demo s) = 0" "reconnect_text new_packet = Ret []"
  by (auto simp: srv_inv_def srv_bound_def server_demo_def new_tcp_server_def new_session_manager_def new_pool_def
      reconnect_text_def new_packet_def new_buffer_def buf_Size_def HEADER_SIZE_def Buffer_MAX_SIZE_def slice_of_def)

lemma server_demo_decide:
  "env_parse env json = Some () \<Longrightarrow> env_asUInt env () ''session_key'' = Some 5 \<Longrightarrow> env_asString env () ''session_token'' = Some ''t'' \<Longrightarrow>
   reconnect_decide env json server_demo = Takeover 10"
  by (simp add: reconnect_decide_def sm_Find_def std_find_def server_demo_def)

lemma reconnect_needs_token_witness:
  "\<exists>m'. Recv_Reconnect_Req silent_env 0 0 True 20 0 server_demo = Ret m' \<and> ses_link m' 10 = Some 2 \<and>
     (\<forall>l. sv_link_session m' l = Some 10 \<longleftrightarrow> l = 2)"
proof -
  have d: "reconnect_decide silent_env [] server_demo = Takeover 10"
    by (rule server_demo_decide) (simp_all add: silent_env_def)
  have none: "answer_packet silent_env i q ans m = Ret (None, snd (Packet_Create silent_env m))" for i q ans m
    by (simp add: answer_packet_def Packet_Create_def silent_env_def Let_def)
  obtain m' where m': "Recv_Reconnect_Req silent_env 0 0 True 20 0 server_demo = Ret m'"
    using d none server_demo_facts by (simp add: Recv_Reconnect_Req_def Let_def)
  have "reconnect_text (sv_packets server_demo 0) = Ret []" using server_demo_facts by simp
  from reconnect_needs_token [OF server_demo_facts(1,2) this m'] d m' show ?thesis by auto
qed

text \<open>Running the oldest waiting \<open>AttachSession\<close>.\<close>

definition sv_run_task :: "tcp_server \<Rightarrow> tcp_server" where
  "sv_run_task m = (case sv_tasks m of [] \<Rightarrow> m | (l, so) # ts \<Rightarrow> attach l so (m\<lparr>sv_tasks := ts\<rparr>))"

text \<open>The race of the reconnect: when the strand of the session's previous link is busy, its
  \<open>AttachSession(NULL)\<close> runs after the session was attached to the new link. The new link then still has
  the session, but the session has no link: whatever it sends is dropped.\<close>

theorem deferred_detach_orphans_session:
  fixes env :: "'r tcp_env" and now rnd s :: nat
  assumes "ses_link m other = Some l'" and "sv_link_session m l' = Some other" and "l' \<noteq> l" and "sv_tasks m = []"
  defines "m' \<equiv> sv_run_task (reconnect_takeover env now rnd False l s other m)"
  shows "sv_link_session m' l = Some other \<and> ses_link m' other = None \<and> ses_AsyncSend other data m' = m' \<and> sv_tasks m' = []"
proof -
  let ?t = "reconnect_takeover env now rnd False l s other m"
  have t: "sv_tasks ?t = [(l', None)]" "sv_link_session ?t l = Some other" "sv_link_session ?t l' = Some other"
    using assms(1-4) by (simp_all add: reconnect_takeover_def AttachSession_def Let_def)
  have "m' = attach l' None (?t\<lparr>sv_tasks := []\<rparr>)" unfolding m'_def sv_run_task_def t(1) by simp
  then show ?thesis using t assms(3) by (simp add: ses_link_attach ses_AsyncSend_def)
qed

lemma deferred_detach_orphans_session_witness:
  "let m' = sv_run_task (reconnect_takeover silent_env 0 0 False 2 20 10 server_demo)
   in sv_link_session m' 2 = Some 10 \<and> ses_link m' 10 = None"
  using deferred_detach_orphans_session [OF server_demo_facts(3,5) _ server_demo_facts(4), of 2 silent_env 0 0 20]
  by (simp add: Let_def)

text \<open>Messages sent right behind a reconnect request are kept twice. After the pass that handles the
  request the loop goes on with the old session, which got a packet of its own with the rest of the input,
  while the taken-over session's packet still holds the same rest: what follows is dispatched to the old
  session now, and to the taken-over session when the next bytes arrive on the link.\<close>

theorem reconnect_duplicates_rest:
  assumes inv: "srv_inv m" and l: "ses_link m s = Some l" and p: "ses_packet m s = Some p"
    and ok: "pkt_ok (sv_packets m p)" "buf_aligned (sv_packets m p)"
    and fr: "next_frame (buf_content (sv_packets m p)) = Frame f r" "r \<noteq> []"
    and req: "frame_id f = MsgID_Reconnect" "frame_seq f > ts_msg_seq (sv_ses m s)"
    and room: "length (buf_content (sv_packets m p)) + HEADER_SIZE \<le> Buffer_MAX_SIZE"
    and dec: "\<And>json. reconnect_decide env json m = Takeover other" and other: "other \<noteq> s"
    and env: "\<And>n. \<exists>q. env_packet env n = Some q \<and> pkt_ok q" "\<And>ans. length (env_write env ans) + 1 + HEADER_SIZE < Buffer_MAX_SIZE"
  shows "\<exists>m' p'. srv_rx_step env now rnd True l s m = Ret (False, m') \<and> sv_link_session m' l = Some other \<and>
    ses_packet m' other = Some p \<and> ses_packet m' s = Some p' \<and> p' \<noteq> p \<and>
    buf_content (sv_packets m' p) = r \<and> buf_content (sv_packets m' p') = r"
proof -
  let ?P = "sv_packets m p" and ?s = "\<lparr>ses_recv_packet = sv_packets m p, ses_msg_seq = 0\<rparr>"
  let ?n = "pkt_GetLength ?P"
  have sok: "session_ok ?s" using ok by (simp add: session_ok_def)
  have sz: "buf_Size ?P = length (buf_content ?P)" "buf_Capacity ?P = Buffer_MAX_SIZE" "length (buf_content ?P) < 2 ^ 16"
    using session_ok_Size [OF sok] by (auto simp: Buffer_MAX_SIZE_def)
  note c = next_frame_Frame [OF fr(1)]
  have hs: "HEADER_SIZE \<le> buf_Size (ses_recv_packet ?s)" using sz(1) c by simp
  note g = getters_frame [OF sok hs]
  have len: "unat ?n = length f" using g(1) next_frame_len [OF fr(1)] by simp
  have sq: "pkt_GetSEQ ?P = frame_seq f" "pkt_GetID ?P = frame_id f"
  proof -
    have "pkt_GetSEQ ?P = get_word (slice_of OFFSET_MSGSEQ 4 (f @ r))" "pkt_GetID ?P = get_word (slice_of OFFSET_MSGID 4 (f @ r))"
      using g(2,3) c(1) by simp_all
    then show "pkt_GetSEQ ?P = frame_seq f" "pkt_GetID ?P = frame_id f"
      using c(2) by (simp_all add: frame_seq_def frame_id_def slice_of_def offsets)
  qed
  have "readCursor ?P = 0" "bufSize ?P = Buffer_MAX_SIZE" using ok sz(2) by (simp_all add: buf_aligned_def buf_Capacity_def)
  then have "\<not> bufSize ?P < readCursor ?P + HEADER_SIZE + buf_Size ?P" using room sz(1) by simp
  then obtain json where json: "reconnect_text ?P = Ret json" unfolding reconnect_text_def by simp
  obtain m1 where m1: "Recv_Reconnect_Req env now rnd True s p m = Ret m1"
    using Reconnect_returns [OF env l json dec] by blast
  have q: "sv_quiet (reconnect_takeover env now rnd True l s other m) m1"
    using Reconnect_effect [OF l json m1] dec by simp
  have disp: "srv_dispatch env now rnd True s p m = Ret m1"
    using sq(2) req(1) m1 by (simp add: srv_dispatch_def MsgID_Reconnect_def MsgID_Connect_def)
  define m2 where "m2 = sv_set_ses s (\<lambda>x. x\<lparr>ts_msg_seq := frame_seq f\<rparr>) m1"
  have msg: "srv_rx_msg env now rnd True s p m = Ret m2"
    using disp sq(1) req(2) by (simp add: srv_rx_msg_def m2_def)
  have pn: "p < sv_next_packet m" using inv p unfolding srv_inv_def by blast
  have m2: "sv_packets m2 p = ?P" "ses_packet m2 s = Some p" "ses_packet m2 other = Some p" "sv_link_session m2 l = Some other"
    "p < sv_next_packet m2"
    using q pn p other by (simp_all add: m2_def sv_quiet_def takeover_effect)
  define Q where "Q = buf_Remove ?n ?P"
  have inv_P: "buf_inv ?P" using ok by (simp add: pkt_ok_def)
  have Q: "buf_content Q = r" "buf_inv Q"
    using buf_Remove_content [OF inv_P, of ?n] buf_Remove_inv [OF inv_P] len c(1) by (simp_all add: Q_def)
  then have QS: "buf_Size Q = length r" using length_buf_content by force
  then have QR: "buf_read (length r) Q = r" using buf_read_Size [of Q] Q(1) by simp
  obtain q0 where q0: "env_packet env (sv_next_packet m2) = Some q0" "pkt_ok q0" using env(1) by blast
  have "length (buf_content (pkt_Init q0)) + length r \<le> buf_Capacity (pkt_Init q0)"
    using pkt_ok_Init [OF q0(2)] c(4) sz by (simp add: pkt_ok_def buf_Capacity_def Buffer_MAX_SIZE_def)
  then obtain q1 where q1: "buf_Append r (pkt_Init q0) = Ret q1" "buf_content q1 = r"
    using buf_Append_aligned [of "pkt_Init q0" r] pkt_ok_Init [OF q0(2)] by auto
  define m3 where "m3 = sv_set_ses s (\<lambda>x. x\<lparr>ts_packet := Some (sv_next_packet m2)\<rparr>)
    (m2\<lparr>sv_next_packet := sv_next_packet m2 + 1, sv_packets := (sv_packets m2)(p := Q, sv_next_packet m2 := q1)\<rparr>)"
  have "srv_rx_rest env ?n l s m2 = Ret (False, m3)"
    unfolding srv_rx_rest_def m2(1,2) option.case Let_def Q_def [symmetric] QS QR
    using fr(2) q0(1) q1(1) by (simp add: Packet_Create_def Let_def m3_def)
  moreover have "srv_rx_step env now rnd True l s m = bind_outcome (srv_rx_msg env now rnd True s p m) (srv_rx_rest env ?n l s)"
    unfolding srv_rx_step_def p option.case Let_def using hs len c sz by (simp add: Buffer_MAX_SIZE_def)
  ultimately have "srv_rx_step env now rnd True l s m = Ret (False, m3)" using msg by simp
  moreover have "sv_link_session m3 l = Some other" "ses_packet m3 other = Some p" "ses_packet m3 s = Some (sv_next_packet m2)"
    "sv_next_packet m2 \<noteq> p" "buf_content (sv_packets m3 p) = r" "buf_content (sv_packets m3 (sv_next_packet m2)) = r"
    using m2 other Q(1) q1(2) by (simp_all add: m3_def)
  ultimately show ?thesis by blast
qed

text \<open>The demonstration server with a reconnect request and one more byte in the packet of session 20.\<close>

definition reconnect_input :: bytes where
  "reconnect_input = frame_header 10 1 2"

definition talking_env :: "unit tcp_env" where
  "talking_env = silent_env\<lparr>env_packet := (\<lambda>_. Some new_packet)\<rparr>"

lemma reconnect_duplicates_rest_witness:
  "\<exists>q m' p'. srv_rx_step talking_env 0 0 True 2 20 (server_demo\<lparr>sv_packets := (\<lambda>_. q)\<rparr>) = Ret (False, m') \<and>
     buf_content q = reconnect_input @ [9] \<and> ses_packet m' 10 = Some 0 \<and> ses_packet m' 20 = Some p' \<and> p' \<noteq> 0 \<and>
     buf_content (sv_packets m' 0) = [9] \<and> buf_content (sv_packets m' p') = [9]"
proof -
  have inp: "reconnect_input = [10, 0, 1, 0, 0, 0, 2, 0, 0, 0]" by (simp add: reconnect_input_def frame_header_def put_word_def)
  have new: "buf_aligned new_packet" "buf_content new_packet = []" "buf_Capacity new_packet = Buffer_MAX_SIZE"
    unfolding new_packet_def by (simp_all only: new_buffer_aligned new_buffer_content) (simp add: buf_Capacity_def new_buffer_def)
  obtain q where q: "buf_aligned q" "buf_content q = reconnect_input @ [9]" "buf_Capacity q = Buffer_MAX_SIZE"
    using buf_Append_aligned [OF new(1), of "reconnect_input @ [9]"] new by (auto simp: inp Buffer_MAX_SIZE_def)
  let ?m = "server_demo\<lparr>sv_packets := (\<lambda>_. q)\<rparr>"
  have m: "srv_inv ?m" "ses_link ?m 20 = Some 2" "ses_packet ?m 20 = Some 0" "sv_packets ?m 0 = q" "ts_msg_seq (sv_ses ?m 20) = 0"
    using server_demo_facts by (simp_all add: srv_inv_packets)
  have qok: "pkt_ok (sv_packets ?m 0)" "buf_aligned (sv_packets ?m 0)"
    using q by (simp_all add: pkt_ok_def buf_aligned_def buf_Capacity_def)
  have fr: "next_frame (buf_content (sv_packets ?m 0)) = Frame reconnect_input [9]"
    using q(2) by (simp add: inp next_frame_def HEADER_SIZE_def get_word_def Buffer_MAX_SIZE_def)
  have ids: "frame_id reconnect_input = MsgID_Reconnect" "frame_seq reconnect_input = 1"
    by (simp_all add: inp frame_id_def frame_seq_def slice_of_def offsets get_word_def MsgID_Reconnect_def)
  have "reconnect_decide talking_env json ?m = Takeover 10" for json
    by (simp add: reconnect_decide_def talking_env_def silent_env_def sm_Find_def std_find_def server_demo_def)
  moreover have "\<exists>q. env_packet talking_env n = Some q \<and> pkt_ok q" "length (env_write talking_env ans) + 1 + HEADER_SIZE < Buffer_MAX_SIZE" for n ans
    by (simp_all add: talking_env_def silent_env_def HEADER_SIZE_def Buffer_MAX_SIZE_def)
  moreover have "length (buf_content (sv_packets ?m 0)) + HEADER_SIZE \<le> Buffer_MAX_SIZE"
    using q(2) by (simp add: inp HEADER_SIZE_def Buffer_MAX_SIZE_def)
  ultimately have "\<exists>m' p'. srv_rx_step talking_env 0 0 True 2 20 ?m = Ret (False, m') \<and> sv_link_session m' 2 = Some 10 \<and>
    ses_packet m' 10 = Some 0 \<and> ses_packet m' 20 = Some p' \<and> p' \<noteq> 0 \<and>
    buf_content (sv_packets m' 0) = [9] \<and> buf_content (sv_packets m' p') = [9]"
    by (intro reconnect_duplicates_rest [OF m(1-3) qok fr _ ids(1)]) (simp_all add: ids server_demo_facts)
  with q(2) show ?thesis by blast
qed

end
