(* ===== verification/Router_Caster.thy ===== *)
theory Router_Caster
  imports Router_Messages Session_Table
begin

text \<open>
  \<^verbatim>\<open>Gamnet/Network/Router/RouterCaster.cpp\<close>: the three routing tables (one session per address; all sessions
  of a service; the sessions of a service in turn) and the caster that keeps them together. A router
  session is a pointer; a list may also hold null pointers, which \<open>remove_if\<close> leaves behind. Sent bytes
  are recorded. The tables are only looked up, never iterated, so they are maps; addresses are compared
  by \<open>address_key\<close> (theorem \<open>address_order\<close>). The remote address that the log messages print is left out.
\<close>

section \<open>State\<close>

record router_session =
  rs_address :: address
  rs_waiting :: waiting_sessions

record caster =
  rc_uni :: "route_key \<Rightarrow> nat option"
  rc_multi :: "bytes \<Rightarrow> nat option list option"
  rc_any :: "bytes \<Rightarrow> (int \<times> nat option list) option"
  rc_msg_seq :: u32
  rc_ses :: "nat \<Rightarrow> router_session"
  rc_sent :: "(nat \<times> bytes) list"

definition new_caster :: caster where
  "new_caster = \<lparr>rc_uni = Map.empty, rc_multi = Map.empty, rc_any = Map.empty, rc_msg_seq = 1,
     rc_ses = (\<lambda>_. \<lparr>rs_address = new_address, rs_waiting = []\<rparr>), rc_sent = []\<rparr>"

section \<open>std::remove_if and erase of one element\<close>

text \<open>The kept elements move to the front. Behind them stay the removed ones, and null pointers where an
  element was moved away.\<close>

definition std_remove_if :: "('a \<Rightarrow> bool) \<Rightarrow> 'a option list \<Rightarrow> 'a option list \<times> 'a option list" where
  "std_remove_if P xs =
     (let kept = filter (\<lambda>x. \<not> P (the x)) xs
      in (kept, map (\<lambda>x. if P (the x) then x else None) (drop (length kept) xs)))"

text \<open>\<open>lst.erase(remove_if(...))\<close> erases one element, the first behind the kept ones. It is undefined when
  there is none. The predicate reads every element.\<close>

definition erase_remove_if :: "('a \<Rightarrow> bool) \<Rightarrow> 'a option list \<Rightarrow> 'a option list outcome" where
  "erase_remove_if P xs =
     (if None \<in> set xs then Undef
      else case std_remove_if P xs of
        (kept, []) \<Rightarrow> Undef
      | (kept, x # rest) \<Rightarrow> Ret (kept @ rest))"

section \<open>Sending to a router session\<close>

text \<open>A session that waits for the answer is put into the router session's table; \<open>Session::Send\<close> then hands
  the bytes to the link.\<close>

definition rs_Send :: "int \<Rightarrow> u64 \<Rightarrow> nat option \<Rightarrow> bytes \<Rightarrow> nat \<Rightarrow> caster \<Rightarrow> caster" where
  "rs_Send now msg_seq network_session buf s c =
     (let c = (case network_session of
                 None \<Rightarrow> c
               | Some ns \<Rightarrow> c\<lparr>rc_ses := (rc_ses c)(s := (rc_ses c s)
                   \<lparr>rs_waiting := snd (ws_AddSession now msg_seq ns (rs_waiting (rc_ses c s)))\<rparr>)\<rparr>)
      in c\<lparr>rc_sent := rc_sent c @ [(s, buf)]\<rparr>)"

section \<open>RouterCasterImpl_Uni\<close>

definition uni_Register :: "address \<Rightarrow> nat \<Rightarrow> caster \<Rightarrow> bool \<times> caster" where
  "uni_Register addr s c =
     (case rc_uni c (address_key addr) of
        Some _ \<Rightarrow> (False, c)
      | None \<Rightarrow> (True, c\<lparr>rc_uni := (rc_uni c)(address_key addr := Some s)\<rparr>))"

definition uni_Find :: "address \<Rightarrow> caster \<Rightarrow> nat option" where
  "uni_Find addr c = rc_uni c (address_key addr)"

definition uni_Send :: "int \<Rightarrow> u64 \<Rightarrow> nat option \<Rightarrow> address \<Rightarrow> bytes \<Rightarrow> caster \<Rightarrow> (bool \<times> caster) outcome" where
  "uni_Send now msg_seq ns addr buf c =
     (case uni_Find addr c of
        None \<Rightarrow> Ret (False, c)
      | Some s \<Rightarrow> Ret (True, rs_Send now msg_seq ns buf s c))"

definition uni_Unregister :: "address \<Rightarrow> caster \<Rightarrow> bool \<times> caster" where
  "uni_Unregister addr c =
     (case rc_uni c (address_key addr) of
        None \<Rightarrow> (False, c)
      | Some _ \<Rightarrow> (True, c\<lparr>rc_uni := (rc_uni c)(address_key addr := None)\<rparr>))"

section \<open>RouterCasterImpl_Multi\<close>

text \<open>The loop over the service's sessions: \<open>Ret True\<close> when one has the address already. A null pointer is
  dereferenced.\<close>

fun address_listed :: "caster \<Rightarrow> address \<Rightarrow> nat option list \<Rightarrow> bool outcome" where
  "address_listed c addr [] = Ret False"
| "address_listed c addr (None # xs) = Undef"
| "address_listed c addr (Some s # xs) =
     (if address_eq addr (rs_address (rc_ses c s)) then Ret True else address_listed c addr xs)"

definition multi_list :: "bytes \<Rightarrow> caster \<Rightarrow> nat option list" where
  "multi_list name c = (case rc_multi c name of None \<Rightarrow> [] | Some xs \<Rightarrow> xs)"

text \<open>\<open>operator[]\<close> makes an empty list for a new service.\<close>

definition multi_Register :: "address \<Rightarrow> nat \<Rightarrow> caster \<Rightarrow> (bool \<times> caster) outcome" where
  "multi_Register addr s c =
     (let name = service_name addr; xs = multi_list name c;
          c = c\<lparr>rc_multi := (rc_multi c)(name := Some xs)\<rparr>
      in bind_outcome (address_listed c addr xs) (\<lambda>listed.
           Ret (if listed then (False, c) else (True, c\<lparr>rc_multi := (rc_multi c)(name := Some (xs @ [Some s]))\<rparr>))))"

fun multi_send_all :: "int \<Rightarrow> u64 \<Rightarrow> nat option \<Rightarrow> bytes \<Rightarrow> nat option list \<Rightarrow> caster \<Rightarrow> caster outcome" where
  "multi_send_all now msg_seq ns buf [] c = Ret c"
| "multi_send_all now msg_seq ns buf (None # xs) c = Undef"
| "multi_send_all now msg_seq ns buf (Some s # xs) c = multi_send_all now msg_seq ns buf xs (rs_Send now msg_seq ns buf s c)"

definition multi_Send :: "int \<Rightarrow> u64 \<Rightarrow> nat option \<Rightarrow> address \<Rightarrow> bytes \<Rightarrow> caster \<Rightarrow> (bool \<times> caster) outcome" where
  "multi_Send now msg_seq ns addr buf c =
     (case rc_multi c (service_name addr) of
        None \<Rightarrow> Ret (False, c)
      | Some xs \<Rightarrow> bind_outcome (multi_send_all now msg_seq ns buf xs c) (\<lambda>c. Ret (True, c)))"

definition same_id :: "caster \<Rightarrow> address \<Rightarrow> nat \<Rightarrow> bool" where
  "same_id c addr s \<longleftrightarrow> addr_id addr = addr_id (rs_address (rc_ses c s))"

definition multi_Unregister :: "address \<Rightarrow> caster \<Rightarrow> (bool \<times> caster) outcome" where
  "multi_Unregister addr c =
     (case rc_multi c (service_name addr) of
        None \<Rightarrow> Ret (False, c)
      | Some xs \<Rightarrow> bind_outcome (erase_remove_if (same_id c addr) xs)
          (\<lambda>xs. Ret (True, c\<lparr>rc_multi := (rc_multi c)(service_name addr := Some xs)\<rparr>)))"

section \<open>RouterCasterImpl_Any\<close>

definition any_entry :: "bytes \<Rightarrow> caster \<Rightarrow> int \<times> nat option list" where
  "any_entry name c = (case rc_any c name of None \<Rightarrow> (0, []) | Some e \<Rightarrow> e)"

definition any_Register :: "address \<Rightarrow> nat \<Rightarrow> caster \<Rightarrow> (bool \<times> caster) outcome" where
  "any_Register addr s c =
     (let name = service_name addr; (first, xs) = any_entry name c;
          c = c\<lparr>rc_any := (rc_any c)(name := Some (first, xs))\<rparr>
      in bind_outcome (address_listed c addr xs) (\<lambda>listed.
           Ret (if listed then (False, c)
                else (True, c\<lparr>rc_any := (rc_any c)(name := Some (int (length xs), xs @ [Some s]))\<rparr>))))"

text \<open>\<open>arrSession[first++ % size]\<close>: the counter is an \<open>int\<close>, whose increment overflows at the end of its range;
  the remainder is taken of its value as \<open>size_t\<close>.\<close>

definition any_Send :: "int \<Rightarrow> u64 \<Rightarrow> nat option \<Rightarrow> address \<Rightarrow> bytes \<Rightarrow> caster \<Rightarrow> (bool \<times> caster) outcome" where
  "any_Send now msg_seq ns addr buf c =
     (case rc_any c (service_name addr) of
        None \<Rightarrow> Ret (False, c)
      | Some (first, xs) \<Rightarrow>
          if length xs = 0 then Ret (False, c)
          else if first = 2 ^ 31 - 1 then Undef
          else (case xs ! (nat (first mod 2 ^ 64) mod length xs) of
                  None \<Rightarrow> Undef
                | Some s \<Rightarrow> Ret (True, rs_Send now msg_seq ns buf s
                    (c\<lparr>rc_any := (rc_any c)(service_name addr := Some (first + 1, xs))\<rparr>))))"

definition any_Unregister :: "address \<Rightarrow> caster \<Rightarrow> (bool \<times> caster) outcome" where
  "any_Unregister addr c =
     (case rc_any c (service_name addr) of
        None \<Rightarrow> Ret (False, c)
      | Some (first, xs) \<Rightarrow> bind_outcome (erase_remove_if (same_id c addr) xs)
          (\<lambda>xs. Ret (True, c\<lparr>rc_any := (rc_any c)(service_name addr := Some (first, xs))\<rparr>)))"

section \<open>RouterCaster\<close>

text \<open>The loops over the three tables stop at the first that refuses.\<close>

definition rc_Register :: "address \<Rightarrow> nat \<Rightarrow> caster \<Rightarrow> (bool \<times> caster) outcome" where
  "rc_Register addr s c =
     (case uni_Register addr s c of
        (False, c) \<Rightarrow> Ret (False, c)
      | (True, c) \<Rightarrow> bind_outcome (multi_Register addr s c) (\<lambda>(ok, c).
          if \<not> ok then Ret (False, c)
          else bind_outcome (any_Register addr s c) (\<lambda>(ok, c).
            if \<not> ok then Ret (False, c)
            else Ret (True, c\<lparr>rc_ses := (rc_ses c)(s := (rc_ses c s)\<lparr>rs_address := addr\<rparr>)\<rparr>))))"

definition rc_Unregister :: "address \<Rightarrow> caster \<Rightarrow> (bool \<times> caster) outcome" where
  "rc_Unregister addr c =
     (case uni_Unregister addr c of
        (False, c) \<Rightarrow> Ret (False, c)
      | (True, c) \<Rightarrow> bind_outcome (multi_Unregister addr c) (\<lambda>(ok, c).
          if \<not> ok then Ret (False, c) else any_Unregister addr c))"

definition rc_Find :: "address \<Rightarrow> caster \<Rightarrow> nat option" where
  "rc_Find addr c = uni_Find addr c"

text \<open>\<open>SendMsg\<close> wraps the bytes into a \<open>MsgRouter_SendMsg_Ntf\<close>. \<open>created\<close> is what \<open>Packet::Create\<close> gives. The
  cast type is checked against the upper bound only.\<close>

definition rc_SendMsg ::
  "int \<Rightarrow> packet option \<Rightarrow> nat option \<Rightarrow> address \<Rightarrow> bytes \<Rightarrow> caster \<Rightarrow> (bool \<times> caster) outcome" where
  "rc_SendMsg now created ns addr buf c =
     (let (seq, c) = (if ns = None then (ucast (addr_msg_seq addr), c)
                      else (rc_msg_seq c, c\<lparr>rc_msg_seq := rc_msg_seq c + 1\<rparr>));
          ntf = \<lparr>ntf_msg_seq = seq, ntf_buffer = buf\<rparr>
      in case created of
           None \<Rightarrow> Ret (False, c)
         | Some p \<Rightarrow>
             bind_outcome (pkt_Write_msg 0 (SendMsg_Ntf_Size ntf) SendMsg_Ntf_MSG_ID (SendMsg_Ntf_Store ntf) True p)
               (\<lambda>(written, p).
                  if \<not> written then Ret (False, c)
                  else if CAST_MAX \<le> sint (cast_type addr) then Ret (False, c)
                  else if cast_type addr = UNI_CAST then uni_Send now (ucast seq) ns addr (buf_content p) c
                  else if cast_type addr = MULTI_CAST then multi_Send now (ucast seq) ns addr (buf_content p) c
                  else if cast_type addr = ANY_CAST then any_Send now (ucast seq) ns addr (buf_content p) c
                  else Undef))"

section \<open>Invariant\<close>

text \<open>The sessions registered for a service.\<close>

definition members :: "bytes \<Rightarrow> caster \<Rightarrow> nat option set" where
  "members n c = {Some s | s k. rc_uni c k = Some s \<and> rk_name k = n}"

definition unregistered :: "nat \<Rightarrow> caster \<Rightarrow> bool" where
  "unregistered s c \<longleftrightarrow> (\<forall>k. rc_uni c k \<noteq> Some s)"

text \<open>The tables hold the same sessions, each once and under its own address, which is a uni-cast one.\<close>

definition caster_ok :: "caster \<Rightarrow> bool" where
  "caster_ok c \<longleftrightarrow> (\<forall>k s. rc_uni c k = Some s \<longrightarrow> address_key (rs_address (rc_ses c s)) = k \<and> rk_cast k = UNI_CAST) \<and>
     (\<forall>n. distinct (multi_list n c) \<and> set (multi_list n c) = members n c) \<and>
     (\<forall>n. distinct (snd (any_entry n c)) \<and> set (snd (any_entry n c)) = members n c)"

text \<open>What keeps it: the tables and the addresses.\<close>

definition same_routes :: "caster \<Rightarrow> caster \<Rightarrow> bool" where
  "same_routes c c' \<longleftrightarrow> rc_uni c' = rc_uni c \<and> (\<forall>n. multi_list n c' = multi_list n c \<and> snd (any_entry n c') = snd (any_entry n c)) \<and>
     (\<forall>s. rs_address (rc_ses c' s) = rs_address (rc_ses c s))"

lemma same_routes_refl [simp]: "same_routes c c"
  by (simp add: same_routes_def)

lemma same_routes_trans: "same_routes c c' \<Longrightarrow> same_routes c' c'' \<Longrightarrow> same_routes c c''"
  by (simp add: same_routes_def)

lemma caster_ok_routes: "caster_ok c \<Longrightarrow> same_routes c c' \<Longrightarrow> caster_ok c'"
  unfolding caster_ok_def members_def same_routes_def by simp

lemma members_no_null: "None \<notin> members n c"
  by (auto simp: members_def)

lemma caster_ok_lists:
  assumes "caster_ok c"
  shows "distinct (multi_list n c)" "set (multi_list n c) = members n c"
    "distinct (snd (any_entry n c))" "set (snd (any_entry n c)) = members n c"
  using assms unfolding caster_ok_def by blast+

lemma caster_ok_key:
  assumes "caster_ok c" and "rc_uni c k = Some s"
  shows "address_key (rs_address (rc_ses c s)) = k" "rk_cast k = UNI_CAST"
  using assms unfolding caster_ok_def by blast+

text \<open>A session in a list of a service whose address has this key, or this number, is the one registered for
  it.\<close>

lemma member_key:
  assumes "caster_ok c" and "Some t \<in> members n c"
  shows "rc_uni c (address_key (rs_address (rc_ses c t))) = Some t" "service_name (rs_address (rc_ses c t)) = n"
    "cast_type (rs_address (rc_ses c t)) = UNI_CAST"
proof -
  from assms(2) obtain k where k: "rc_uni c k = Some t" "rk_name k = n" by (auto simp: members_def)
  note a = caster_ok_key [OF assms(1) k(1)]
  show "rc_uni c (address_key (rs_address (rc_ses c t))) = Some t" using a(1) k(1) by simp
  show "service_name (rs_address (rc_ses c t)) = n" "cast_type (rs_address (rc_ses c t)) = UNI_CAST"
    using a k(2) by (auto simp: address_key_def)
qed

lemma address_listed_eq:
  "None \<notin> set xs \<Longrightarrow> address_listed c addr xs = Ret (\<exists>s. Some s \<in> set xs \<and> address_eq addr (rs_address (rc_ses c s)))"
  by (induction c addr xs rule: address_listed.induct) auto

lemma filter_out_one: "distinct xs \<Longrightarrow> x \<in> set xs \<Longrightarrow> length (filter (\<lambda>y. y \<noteq> x) xs) = length xs - 1"
proof -
  assume "distinct xs" "x \<in> set xs"
  then have "remove1 x xs = filter (\<lambda>y. y \<noteq> x) xs" by (simp add: distinct_remove1_removeAll removeAll_filter_not_eq eq_commute)
  with \<open>x \<in> set xs\<close> show ?thesis by (metis length_remove1)
qed

lemma erase_remove_one:
  assumes "distinct xs" and "None \<notin> set xs" and "Some s \<in> set xs" and "\<And>t. Some t \<in> set xs \<Longrightarrow> P t \<longleftrightarrow> t = s"
  shows "erase_remove_if P xs = Ret (filter (\<lambda>x. x \<noteq> Some s) xs)"
proof -
  have "filter (\<lambda>x. \<not> P (the x)) xs = filter (\<lambda>x. x \<noteq> Some s) xs"
    using assms(2,4) by (intro filter_cong refl) (metis option.collapse option.sel)
  moreover have "length (drop (length xs - 1) xs) = Suc 0"
    using assms(3) by (cases xs) auto
  then obtain y where "drop (length xs - 1) xs = [y]" unfolding length_Suc_conv by auto
  ultimately show ?thesis
    using assms(2) filter_out_one [OF assms(1,3)] by (simp add: erase_remove_if_def std_remove_if_def Let_def)
qed

section \<open>Registering and unregistering\<close>

lemma rc_Register_known: "rc_uni c (address_key a) \<noteq> None \<Longrightarrow> rc_Register a s c = Ret (False, c)"
  by (auto simp: rc_Register_def uni_Register_def split: option.split)

lemma address_listed_cong: "rc_ses c' = rc_ses c \<Longrightarrow> address_listed c' addr xs = address_listed c addr xs"
  by (induction c addr xs rule: address_listed.induct) auto

lemma address_listed_tables [simp]:
  "address_listed (c\<lparr>rc_multi := m\<rparr>) addr xs = address_listed c addr xs"
  "address_listed (c\<lparr>rc_any := a\<rparr>) addr xs = address_listed c addr xs"
  by (rule address_listed_cong; simp)+

lemma multi_Register_new:
  assumes "address_listed c a (multi_list (service_name a) c) = Ret False"
  shows "multi_Register a s c = Ret (True, c\<lparr>rc_multi := (rc_multi c)(service_name a := Some (multi_list (service_name a) c @ [Some s]))\<rparr>)"
  using assms by (simp add: multi_Register_def Let_def)

lemma any_Register_new:
  assumes "address_listed c a (snd (any_entry (service_name a) c)) = Ret False"
  shows "any_Register a s c = Ret (True, c\<lparr>rc_any := (rc_any c)(service_name a :=
    Some (int (length (snd (any_entry (service_name a) c))), snd (any_entry (service_name a) c) @ [Some s]))\<rparr>)"
  using assms by (cases "any_entry (service_name a) c") (simp add: any_Register_def Let_def)

lemma rc_Register_new:
  assumes ok: "caster_ok c" and new: "rc_uni c (address_key a) = None"
  shows "rc_Register a s c = Ret (True, c\<lparr>rc_uni := (rc_uni c)(address_key a := Some s),
     rc_multi := (rc_multi c)(service_name a := Some (multi_list (service_name a) c @ [Some s])),
     rc_any := (rc_any c)(service_name a := Some (int (length (snd (any_entry (service_name a) c))), snd (any_entry (service_name a) c) @ [Some s])),
     rc_ses := (rc_ses c)(s := (rc_ses c s)\<lparr>rs_address := a\<rparr>)\<rparr>)"
proof -
  let ?n = "service_name a"
  have "\<not> (\<exists>t. Some t \<in> members ?n c \<and> address_eq a (rs_address (rc_ses c t)))"
    using member_key(1) [OF ok] new unfolding address_eq_key by fastforce
  then have l: "address_listed c a (multi_list ?n c) = Ret False" "address_listed c a (snd (any_entry ?n c)) = Ret False"
    using caster_ok_lists [OF ok] members_no_null by (simp_all add: address_listed_eq)
  define c1 where "c1 = c\<lparr>rc_uni := (rc_uni c)(address_key a := Some s)\<rparr>"
  have c1: "uni_Register a s c = (True, c1)" using new by (simp add: uni_Register_def c1_def)
  define c2 where "c2 = c1\<lparr>rc_multi := (rc_multi c1)(?n := Some (multi_list ?n c1 @ [Some s]))\<rparr>"
  have eq: "multi_list ?n c1 = multi_list ?n c" "any_entry ?n c2 = any_entry ?n c" "rc_ses c1 = rc_ses c" "rc_ses c2 = rc_ses c"
    by (simp_all add: c1_def c2_def multi_list_def any_entry_def)
  have c2: "multi_Register a s c1 = Ret (True, c2)"
    unfolding c2_def using l(1) by (intro multi_Register_new) (simp add: eq(1) address_listed_cong [OF eq(3)])
  have "any_Register a s c2 = Ret (True, c2\<lparr>rc_any := (rc_any c2)(?n := Some (int (length (snd (any_entry ?n c2))), snd (any_entry ?n c2) @ [Some s]))\<rparr>)"
    using l(2) by (intro any_Register_new) (simp add: eq(2) address_listed_cong [OF eq(4)])
  with c1 c2 show ?thesis by (simp add: rc_Register_def eq) (simp add: c2_def c1_def multi_list_def)
qed

lemma rc_Register_ok:
  assumes ok: "caster_ok c" and new: "rc_uni c (address_key a) = None" and s: "unregistered s c" and cast: "cast_type a = UNI_CAST"
    and c': "rc_Register a s c = Ret (b, c')"
  shows "caster_ok c'"
proof -
  let ?n = "service_name a"
  from c' rc_Register_new [OF ok new, of s] have c': "c' = c\<lparr>rc_uni := (rc_uni c)(address_key a := Some s),
     rc_multi := (rc_multi c)(?n := Some (multi_list ?n c @ [Some s])),
     rc_any := (rc_any c)(?n := Some (int (length (snd (any_entry ?n c))), snd (any_entry ?n c) @ [Some s])),
     rc_ses := (rc_ses c)(s := (rc_ses c s)\<lparr>rs_address := a\<rparr>)\<rparr>" by simp
  have lists: "multi_list n c' = (if n = ?n then multi_list n c @ [Some s] else multi_list n c)"
    "snd (any_entry n c') = (if n = ?n then snd (any_entry n c) @ [Some s] else snd (any_entry n c))" for n
    by (simp_all add: c' multi_list_def any_entry_def)
  have mem: "members n c' = (if n = ?n then insert (Some s) (members n c) else members n c)" for n
  proof -
    have "rc_uni c' k = Some t \<longleftrightarrow> k = address_key a \<and> t = s \<or> rc_uni c k = Some t" for k t using new by (auto simp: c')
    moreover have "rk_name (address_key a) = ?n" by (simp add: address_key_def)
    ultimately show ?thesis unfolding members_def by auto
  qed
  have out: "Some s \<notin> members n c" for n using s by (auto simp: members_def unregistered_def)
  have keys: "address_key (rs_address (rc_ses c' t)) = k \<and> rk_cast k = UNI_CAST" if "rc_uni c' k = Some t" for k t
  proof (cases "k = address_key a")
    case True
    with that have "t = s" by (simp add: c')
    with True cast show ?thesis by (simp add: c' address_key_def)
  next
    case False
    then have u: "rc_uni c k = Some t" using that by (simp add: c')
    then have "t \<noteq> s" using s by (auto simp: unregistered_def)
    with caster_ok_key [OF ok u] show ?thesis by (simp add: c')
  qed
  show ?thesis unfolding caster_ok_def lists mem using keys caster_ok_lists [OF ok] out by auto
qed

lemma rc_Unregister_known:
  assumes ok: "caster_ok c" and s: "rc_uni c (address_key a) = Some s"
  defines "drop_s \<equiv> filter (\<lambda>x. x \<noteq> Some s)"
  shows "\<exists>c'. rc_Unregister a c = Ret (True, c') \<and> rc_uni c' = (rc_uni c)(address_key a := None) \<and> rc_ses c' = rc_ses c \<and>
    (\<forall>n. multi_list n c' = (if n = service_name a then drop_s (multi_list n c) else multi_list n c)) \<and>
    (\<forall>n. snd (any_entry n c') = (if n = service_name a then drop_s (snd (any_entry n c)) else snd (any_entry n c)))"
proof -
  let ?n = "service_name a"
  note key = caster_ok_key [OF ok s]
  have m: "Some s \<in> members ?n c" using s by (auto simp: members_def address_key_def)
  have one: "same_id c a t \<longleftrightarrow> t = s" if "Some t \<in> members ?n c" for t
  proof
    assume "same_id c a t"
    with member_key [OF ok that] key(2) have "rc_uni c (address_key a) = Some t"
      by (simp add: same_id_def address_key_def)
    with s show "t = s" by simp
  next
    assume "t = s"
    with key(1) show "same_id c a t" by (simp add: same_id_def address_key_def)
  qed
  have erase: "erase_remove_if (same_id c a) (multi_list ?n c) = Ret (drop_s (multi_list ?n c))"
    "erase_remove_if (same_id c a) (snd (any_entry ?n c)) = Ret (drop_s (snd (any_entry ?n c)))"
    unfolding drop_s_def using caster_ok_lists [OF ok, of ?n] members_no_null m one
    by (intro erase_remove_one; simp)+
  have ne: "multi_list ?n c \<noteq> []" "snd (any_entry ?n c) \<noteq> []" using m caster_ok_lists(2,4) [OF ok, of ?n] by auto
  have some: "rc_multi c ?n = Some (multi_list ?n c)" using ne(1) by (cases "rc_multi c ?n") (simp_all add: multi_list_def)
  obtain f where f: "rc_any c ?n = Some (f, snd (any_entry ?n c))"
    using ne(2) by (cases "rc_any c ?n") (auto simp: any_entry_def)
  define c1 where "c1 = c\<lparr>rc_uni := (rc_uni c)(address_key a := None), rc_multi := (rc_multi c)(?n := Some (drop_s (multi_list ?n c)))\<rparr>"
  define c2 where "c2 = c1\<lparr>rc_any := (rc_any c)(?n := Some (f, drop_s (snd (any_entry ?n c))))\<rparr>"
  have same: "same_id (c\<lparr>rc_uni := u\<rparr>) a = same_id c a" "same_id c1 a = same_id c a" for u
    by (simp_all add: same_id_def fun_eq_iff c1_def)
  have "multi_Unregister a (c\<lparr>rc_uni := (rc_uni c)(address_key a := None)\<rparr>) = Ret (True, c1)"
    unfolding multi_Unregister_def same using some erase(1) by (simp add: c1_def)
  moreover have "any_Unregister a c1 = Ret (True, c2)"
    unfolding any_Unregister_def same using f erase(2) by (simp add: c1_def c2_def)
  ultimately have "rc_Unregister a c = Ret (True, c2)"
    using s by (simp add: rc_Unregister_def uni_Unregister_def)
  moreover have "multi_list n c2 = (if n = ?n then drop_s (multi_list n c) else multi_list n c)"
    "snd (any_entry n c2) = (if n = ?n then drop_s (snd (any_entry n c)) else snd (any_entry n c))" for n
    by (simp_all add: c2_def c1_def multi_list_def any_entry_def)
  ultimately show ?thesis by (intro exI [of _ c2]) (simp add: c2_def c1_def)
qed

lemma rc_Unregister_ok:
  assumes ok: "caster_ok c" and c': "rc_Unregister a c = Ret (b, c')"
  shows "caster_ok c'"
proof (cases "rc_uni c (address_key a)")
  case None
  with c' have "c' = c" by (simp add: rc_Unregister_def uni_Unregister_def)
  with ok show ?thesis by simp
next
  case (Some s)
  let ?n = "service_name a"
  from rc_Unregister_known [OF ok Some] c' have uni: "rc_uni c' = (rc_uni c)(address_key a := None)"
    and ses: "rc_ses c' = rc_ses c"
    and lists: "multi_list n c' = (if n = ?n then filter (\<lambda>x. x \<noteq> Some s) (multi_list n c) else multi_list n c)"
      "snd (any_entry n c') = (if n = ?n then filter (\<lambda>x. x \<noteq> Some s) (snd (any_entry n c)) else snd (any_entry n c))" for n
    by auto
  have s_key: "rc_uni c k = Some s \<longleftrightarrow> k = address_key a" for k
    using caster_ok_key(1) [OF ok] Some by metis
  have uni': "rc_uni c' k = Some t \<longleftrightarrow> rc_uni c k = Some t \<and> t \<noteq> s" for k t using s_key [of k] Some by (auto simp: uni)
  have "Some s \<notin> members n c" if "n \<noteq> ?n" for n using that s_key by (auto simp: members_def address_key_def)
  moreover have "members n c' = members n c - {Some s}" for n unfolding members_def uni' by auto
  ultimately have "set (multi_list n c') = members n c'" "set (snd (any_entry n c')) = members n c'" for n
    using caster_ok_lists(2,4) [OF ok, of n] by (auto simp: lists)
  moreover have "distinct (multi_list n c')" "distinct (snd (any_entry n c'))" for n
    using caster_ok_lists(1,3) [OF ok, of n] unfolding lists by auto
  moreover have "address_key (rs_address (rc_ses c' t)) = k \<and> rk_cast k = UNI_CAST" if "rc_uni c' k = Some t" for k t
    using caster_ok_key [OF ok] that by (simp add: ses uni')
  ultimately show ?thesis unfolding caster_ok_def by blast
qed

section \<open>Sending\<close>

lemma rs_Send_routes [simp]: "same_routes c (rs_Send now q ns buf s c)"
  by (auto simp: rs_Send_def same_routes_def multi_list_def any_entry_def Let_def split: option.split)

lemma multi_send_all_routes: "multi_send_all now q ns buf xs c = Ret c' \<Longrightarrow> same_routes c c'"
proof (induction now q ns buf xs c rule: multi_send_all.induct)
  case (3 now q ns buf s xs c)
  then have "same_routes (rs_Send now q ns buf s c) c'" by simp
  with rs_Send_routes show ?case by (rule same_routes_trans)
qed simp_all

lemma any_Send_routes: "any_Send now q ns a buf c = Ret (b, c') \<Longrightarrow> same_routes c c'"
proof -
  assume r: "any_Send now q ns a buf c = Ret (b, c')"
  have m: "same_routes c (c\<lparr>rc_any := (rc_any c)(service_name a := Some (f', xs))\<rparr>)" if "rc_any c (service_name a) = Some (f, xs)" for f f' xs
    using that by (auto simp: same_routes_def multi_list_def any_entry_def)
  show ?thesis
    using r by (auto simp: any_Send_def intro: same_routes_trans [OF m rs_Send_routes] split: option.splits if_splits)
qed

lemma rc_SendMsg_routes: "rc_SendMsg now created ns a buf c = Ret (b, c') \<Longrightarrow> same_routes c c'"
proof -
  assume r: "rc_SendMsg now created ns a buf c = Ret (b, c')"
  define c1 where "c1 = (if ns = None then c else c\<lparr>rc_msg_seq := rc_msg_seq c + 1\<rparr>)"
  have c1: "same_routes c c1" by (simp add: c1_def same_routes_def multi_list_def any_entry_def)
  define seq where "seq = (if ns = None then ucast (addr_msg_seq a) else rc_msg_seq c)"
  have p: "(if ns = None then (ucast (addr_msg_seq a), c) else (rc_msg_seq c, c\<lparr>rc_msg_seq := rc_msg_seq c + 1\<rparr>)) = (seq, c1)"
    by (simp add: seq_def c1_def)
  have sends: "uni_Send now q ns a x c1 = Ret (b, c') \<Longrightarrow> same_routes c1 c'" "multi_Send now q ns a x c1 = Ret (b, c') \<Longrightarrow> same_routes c1 c'"
    "any_Send now q ns a x c1 = Ret (b, c') \<Longrightarrow> same_routes c1 c'" for q x
    by (auto simp: uni_Send_def multi_Send_def bind_outcome_Ret_iff any_Send_routes multi_send_all_routes split: option.splits)
  have "same_routes c1 c'"
    using r unfolding rc_SendMsg_def p Let_def prod.case
    by (auto simp: sends split: option.splits if_splits elim!: bind_outcome_RetE2)
  with c1 show ?thesis by (rule same_routes_trans)
qed

section \<open>Runs\<close>

text \<open>Router sessions with uni-cast addresses, each registered when it is not registered yet; an address is
  set by a peer only before that.\<close>

inductive rc_step :: "caster \<Rightarrow> caster \<Rightarrow> bool" where
  registers: "cast_type a = UNI_CAST \<Longrightarrow> unregistered s c \<Longrightarrow> rc_Register a s c = Ret (b, c') \<Longrightarrow> rc_step c c'"
| addressed: "unregistered s c \<Longrightarrow> rc_step c (c\<lparr>rc_ses := (rc_ses c)(s := (rc_ses c s)\<lparr>rs_address := a\<rparr>)\<rparr>)"
| unregisters: "rc_Unregister a c = Ret (b, c') \<Longrightarrow> rc_step c c'"
| sends: "rc_SendMsg now created ns a buf c = Ret (b, c') \<Longrightarrow> rc_step c c'"
| waiting: "rc_step c (c\<lparr>rc_ses := (rc_ses c)(s := (rc_ses c s)\<lparr>rs_waiting := w\<rparr>)\<rparr>)"

lemma caster_ok_new: "caster_ok new_caster"
  by (simp add: caster_ok_def new_caster_def members_def multi_list_def any_entry_def)

lemma caster_ok_step: "caster_ok c \<Longrightarrow> rc_step c c' \<Longrightarrow> caster_ok c'"
proof (erule rc_step.cases)
  fix a s d b d'
  assume ok: "caster_ok c" and r: "c = d" "c' = d'" "cast_type a = UNI_CAST" "unregistered s d" "rc_Register a s d = Ret (b, d')"
  show "caster_ok c'"
  proof (cases "rc_uni d (address_key a)")
    case None
    from rc_Register_ok [OF ok [unfolded r(1)] None r(4,3,5)] show ?thesis by (simp add: r(2))
  next
    case (Some t)
    with rc_Register_known [of d a s] r(5) ok r(1,2) show ?thesis by simp
  qed
next
  fix s d a
  assume ok: "caster_ok c" and r: "c = d" "c' = d\<lparr>rc_ses := (rc_ses d)(s := (rc_ses d s)\<lparr>rs_address := a\<rparr>)\<rparr>" "unregistered s d"
  have "members n c' = members n c" "multi_list n c' = multi_list n c" "any_entry n c' = any_entry n c" for n
    by (simp_all add: r members_def multi_list_def any_entry_def)
  moreover have "address_key (rs_address (rc_ses c' t)) = k \<and> rk_cast k = UNI_CAST" if "rc_uni c' k = Some t" for k t
    using caster_ok_key [OF ok, of k t] r(3) that by (auto simp: r(1,2) unregistered_def)
  ultimately show "caster_ok c'" using ok unfolding caster_ok_def by simp
next
  fix d s w
  assume "caster_ok c" "c = d" "c' = d\<lparr>rc_ses := (rc_ses d)(s := (rc_ses d s)\<lparr>rs_waiting := w\<rparr>)\<rparr>"
  then show "caster_ok c'" by (auto elim!: caster_ok_routes simp: same_routes_def multi_list_def any_entry_def)
qed (auto intro: rc_Unregister_ok caster_ok_routes rc_SendMsg_routes)

interpretation caster: invariant_system "\<lambda>c. c = new_caster" rc_step caster_ok
  by unfold_locales (auto intro: caster_ok_new caster_ok_step)

section \<open>Round robin\<close>

text \<open>A sequence of any-cast sends.\<close>

fun any_Send_all :: "address \<Rightarrow> (int \<times> u64 \<times> nat option \<times> bytes) list \<Rightarrow> caster \<Rightarrow> caster outcome" where
  "any_Send_all a [] c = Ret c"
| "any_Send_all a ((now, q, ns, buf) # ms) c =
     bind_outcome (any_Send now q ns a buf c) (\<lambda>(_, c). any_Send_all a ms c)"

lemma any_Send_next:
  assumes "rc_any c (service_name a) = Some (int first, map Some xs)" and "xs \<noteq> []" and "first < 2 ^ 31 - 1"
  shows "\<exists>c'. any_Send now q ns a buf c = Ret (True, c') \<and> rc_any c' (service_name a) = Some (int (Suc first), map Some xs) \<and>
    rc_sent c' = rc_sent c @ [(xs ! (first mod length xs), buf)]"
proof -
  have "int first mod 2 ^ 64 = int first" using assms(3) by simp
  then have i: "nat (int first mod 2 ^ 64) = first" by simp
  have "int first \<noteq> 2 ^ 31 - 1" using assms(3) by auto
  with assms show ?thesis unfolding any_Send_def i by (auto simp: rs_Send_def Let_def split: option.split)
qed

lemma any_Send_all_sent:
  assumes "xs \<noteq> []" and "first + length ms < 2 ^ 31" and "rc_any c (service_name a) = Some (int first, map Some xs)"
  shows "\<exists>c'. any_Send_all a ms c = Ret c' \<and>
    rc_sent c' = rc_sent c @ map (\<lambda>i. (xs ! ((first + i) mod length xs), snd (snd (snd (ms ! i))))) [0..<length ms]"
  using assms(2,3)
proof (induction ms arbitrary: first c)
  case (Cons m ms)
  obtain now q ns buf where m: "m = (now, q, ns, buf)" by (cases m) auto
  have "first < 2 ^ 31 - 1" using Cons.prems(1) by simp
  from any_Send_next [OF Cons.prems(2) assms(1) this] obtain c1 where c1:
    "any_Send now q ns a buf c = Ret (True, c1)" "rc_any c1 (service_name a) = Some (int (Suc first), map Some xs)"
    "rc_sent c1 = rc_sent c @ [(xs ! (first mod length xs), buf)]" by blast
  have "Suc first + length ms < 2 ^ 31" using Cons.prems(1) by simp
  from Cons.IH [OF this c1(2)] obtain c' where c': "any_Send_all a ms c1 = Ret c'"
    "rc_sent c' = rc_sent c1 @ map (\<lambda>i. (xs ! ((Suc first + i) mod length xs), snd (snd (snd (ms ! i))))) [0..<length ms]" by blast
  have "map (\<lambda>i. (xs ! ((first + i) mod length xs), snd (snd (snd ((m # ms) ! i))))) [0..<length (m # ms)] =
    (xs ! (first mod length xs), buf) # map (\<lambda>i. (xs ! ((Suc first + i) mod length xs), snd (snd (snd (ms ! i))))) [0..<length ms]"
    by (simp add: m upt_conv_Cons map_Suc_upt [symmetric] del: upt_Suc)
  with c1 c' show ?case by (simp add: m)
qed simp

section \<open>Properties\<close>



text \<open>Addresses of one service that differ in the cast type only share their number, and unregistering one
  then damages the lists: of three sessions, two of them with the same number, the unregistered one and
  the other with its number are gone, a null pointer is left, and the next multi-cast to the service
  dereferences it.\<close>

theorem two_cast_types_leave_null:
  fixes i j :: u32 and name :: bytes
  assumes "i \<noteq> j"
  defines "a \<equiv> \<lparr>service_name = name, cast_type = UNI_CAST, addr_id = i, addr_msg_seq = 0\<rparr>"
  shows "\<exists>c1 c2 c3 c4. rc_Register a 1 new_caster = Ret (True, c1) \<and> rc_Register (a\<lparr>cast_type := MULTI_CAST\<rparr>) 2 c1 = Ret (True, c2) \<and>
    rc_Register (a\<lparr>addr_id := j\<rparr>) 3 c2 = Ret (True, c3) \<and> rc_Unregister a c3 = Ret (True, c4) \<and>
    multi_list name c4 = [Some 3, None] \<and> multi_Send now q ns a buf c4 = Undef"
  using assms(1)
  by (simp add: a_def rc_Register_def uni_Register_def multi_Register_def any_Register_def multi_list_def any_entry_def new_caster_def
      address_key_def address_eq_def UNI_CAST_def MULTI_CAST_def Let_def rc_Unregister_def uni_Unregister_def multi_Unregister_def
      any_Unregister_def erase_remove_if_def std_remove_if_def same_id_def multi_Send_def)

lemma two_cast_types_leave_null_witness:
  "\<exists>c1 c2 c3 c4. rc_Register \<lparr>service_name = [7], cast_type = UNI_CAST, addr_id = 1, addr_msg_seq = 0\<rparr> 1 new_caster = Ret (True, c1) \<and>
    rc_Register \<lparr>service_name = [7], cast_type = MULTI_CAST, addr_id = 1, addr_msg_seq = 0\<rparr> 2 c1 = Ret (True, c2) \<and>
    rc_Register \<lparr>service_name = [7], cast_type = UNI_CAST, addr_id = 5, addr_msg_seq = 0\<rparr> 3 c2 = Ret (True, c3) \<and>
    rc_Unregister \<lparr>service_name = [7], cast_type = UNI_CAST, addr_id = 1, addr_msg_seq = 0\<rparr> c3 = Ret (True, c4) \<and>
    multi_list [7] c4 = [Some 3, None]"
  using two_cast_types_leave_null [of 1 5 "[7]" 0 0 None "[]"] by auto

text \<open>Any-cast messages go to the sessions of the service in turn: of consecutive messages the i-th goes to
  the i-th session after the counter, and as many messages as there are sessions reach every session once.\<close>

theorem any_round_robin:
  assumes "xs \<noteq> []" and "first + length ms < 2 ^ 31" and "rc_any c (service_name a) = Some (int first, map Some xs)"
  shows "\<exists>c' ts. any_Send_all a ms c = Ret c' \<and> rc_sent c' = rc_sent c @ zip ts (map (\<lambda>(now, q, ns, buf). buf) ms) \<and>
    length ts = length ms \<and> (\<forall>i<length ms. ts ! i = xs ! ((first + i) mod length xs)) \<and>
    (length ms = length xs \<longrightarrow> ts = rotate first xs)"
proof -
  from any_Send_all_sent [OF assms] obtain c' where c': "any_Send_all a ms c = Ret c'"
    "rc_sent c' = rc_sent c @ map (\<lambda>i. (xs ! ((first + i) mod length xs), snd (snd (snd (ms ! i))))) [0..<length ms]" by blast
  let ?ts = "map (\<lambda>i. xs ! ((first + i) mod length xs)) [0..<length ms]"
  have "map (\<lambda>i. (xs ! ((first + i) mod length xs), snd (snd (snd (ms ! i))))) [0..<length ms] =
      zip ?ts (map (\<lambda>(now, q, ns, buf). buf) ms)"
    by (rule nth_equalityI) (auto split: prod.split)
  moreover have "length ms = length xs \<longrightarrow> ?ts = rotate first xs"
    by (auto intro!: nth_equalityI simp: nth_rotate)
  ultimately show ?thesis using c' by (intro exI [of _ c'] exI [of _ ?ts]) simp
qed

lemma any_round_robin_witness:
  "\<exists>c' ts. any_Send_all new_address [(0, 0, None, [1]), (0, 0, None, [2])]
     (new_caster\<lparr>rc_any := (\<lambda>_. Some (1, [Some 10, Some 20]))\<rparr>) = Ret c' \<and> rc_sent c' = [(20, [1]), (10, [2])]"
proof -
  let ?c = "new_caster\<lparr>rc_any := (\<lambda>_. Some (1, [Some 10, Some (20 :: nat)]))\<rparr>"
  have "rc_any ?c (service_name new_address) = Some (int 1, map Some [10, 20])" by simp
  from any_round_robin [OF _ _ this, of "[(0, 0, None, [1]), (0, 0, None, [2])]"] obtain c' ts where
    r: "any_Send_all new_address [(0, 0, None, [1]), (0, 0, None, [2])] ?c = Ret c'"
      "rc_sent c' = rc_sent ?c @ zip ts [[1], [2]]" "ts = rotate 1 [10, 20]" by auto
  then show ?thesis by (simp add: new_caster_def)
qed

end
