(* ===== verification/Router_Server.thy ===== *)
theory Router_Server
  imports Router_Caster Tcp_Messages
begin

text \<open>
  The router: \<^verbatim>\<open>Gamnet/Network/Router/LinkManager.cpp\<close> (connections between servers and their receive loop),
  \<^verbatim>\<open>RouterHandler.cpp\<close> (the address exchange and routed messages), \<^verbatim>\<open>Session.cpp\<close>, \<^verbatim>\<open>Dispatcher.h\<close> (routed
  messages to handlers) and \<^verbatim>\<open>Router.h\<close>. Router sessions, links and the network sessions of clients are
  pointers. \<open>'h\<close> is the type of the application's handler objects and \<open>'w\<close> its state. Bytes handed to a
  link and calls of the router callbacks are recorded. Packets that \<open>Packet::Create\<close> returns are arguments
  (\<open>created\<close>).
\<close>

section \<open>State\<close>

datatype router_event = RtSend nat bytes | RtAccept address | RtConnect nat address | RtClose nat address

record ('h, 'w) router_function =
  rf_factory :: "'h handler_factory"
  rf_function :: "'h \<Rightarrow> address \<Rightarrow> packet \<Rightarrow> 'w \<Rightarrow> 'w \<times> int option"

record ('h, 'w) router =
  rt_caster :: caster
  rt_local :: address
  rt_link_session :: "nat \<Rightarrow> nat option"
  rt_link :: "nat \<Rightarrow> nat option"
  rt_seq :: "nat \<Rightarrow> u32"
  rt_key :: "nat \<Rightarrow> u32"
  rt_next_key :: u32
  rt_open :: "nat \<Rightarrow> bool"
  rt_sessions :: "(u32, nat) std_map"
  rt_table :: "u32 \<Rightarrow> ('h, 'w) router_function option"
  rt_containers :: "nat \<Rightarrow> 'h container"
  rt_net_link :: "nat \<Rightarrow> nat option"
  rt_world :: 'w
  rt_events :: "router_event list"

definition rt_event :: "router_event \<Rightarrow> ('h, 'w) router \<Rightarrow> ('h, 'w) router" where
  "rt_event e m = m\<lparr>rt_events := rt_events m @ [e]\<rparr>"

definition rt_address :: "('h, 'w) router \<Rightarrow> nat \<Rightarrow> address" where
  "rt_address m s = rs_address (rc_ses (rt_caster m) s)"

definition rt_set_address :: "nat \<Rightarrow> address \<Rightarrow> ('h, 'w) router \<Rightarrow> ('h, 'w) router" where
  "rt_set_address s a m = m\<lparr>rt_caster := (rt_caster m)\<lparr>rc_ses := (rc_ses (rt_caster m))
     (s := (rc_ses (rt_caster m) s)\<lparr>rs_address := a\<rparr>)\<rparr>\<rparr>"

definition rt_clear_waiting :: "nat \<Rightarrow> ('h, 'w) router \<Rightarrow> ('h, 'w) router" where
  "rt_clear_waiting s m = m\<lparr>rt_caster := (rt_caster m)\<lparr>rc_ses := (rc_ses (rt_caster m))
     (s := (rc_ses (rt_caster m) s)\<lparr>rs_waiting := ws_Clear (rs_waiting (rc_ses (rt_caster m) s))\<rparr>)\<rparr>\<rparr>"

text \<open>\<open>Tcp::SendMsg\<close> on a router session, of a message with its id, size and stored bytes.\<close>

definition rt_SendMsg :: "packet option \<Rightarrow> nat \<Rightarrow> u32 \<Rightarrow> nat \<Rightarrow> bytes \<Rightarrow> ('h, 'w) router \<Rightarrow> (bool \<times> ('h, 'w) router) outcome" where
  "rt_SendMsg created s msg_id msg_size stored m =
     (case created of
        None \<Rightarrow> Ret (False, m)
      | Some p \<Rightarrow> bind_outcome (pkt_Write_msg (rt_seq m s) msg_size msg_id stored True p) (\<lambda>(written, p).
          Ret (if \<not> written then (False, m)
               else (True, case rt_link m s of None \<Rightarrow> m | Some l \<Rightarrow> rt_event (RtSend l (buf_content p)) m))))"

section \<open>Closing\<close>

text \<open>\<open>Session::OnClose\<close>: a session that has an address unregisters it.\<close>

definition rs_OnClose :: "nat \<Rightarrow> ('h, 'w) router \<Rightarrow> ('h, 'w) router outcome" where
  "rs_OnClose s m =
     bind_outcome
       (if service_name (rt_address m s) \<noteq> [] then
          bind_outcome (rc_Unregister (rt_address m s) (rt_caster m))
            (\<lambda>(_, c). Ret ((rt_event (RtClose s (rt_address m s)) m)\<lparr>rt_caster := c\<rparr>))
        else Ret m)
       (\<lambda>m. Ret (rt_clear_waiting s m))"

definition rt_OnClose :: "nat \<Rightarrow> int \<Rightarrow> ('h, 'w) router \<Rightarrow> ('h, 'w) router outcome" where
  "rt_OnClose l reason m =
     (case rt_link_session m l of
        None \<Rightarrow> Ret m
      | Some s \<Rightarrow> bind_outcome (rs_OnClose s m) (\<lambda>m.
          Ret (m\<lparr>rt_sessions := std_erase (rt_key m s) (rt_sessions m),
                 rt_link := (rt_link m)(s := None), rt_link_session := (rt_link_session m)(l := None)\<rparr>)))"

definition rt_OnError :: "nat \<Rightarrow> int \<Rightarrow> ('h, 'w) router \<Rightarrow> ('h, 'w) router outcome" where
  "rt_OnError l reason m =
     (if \<not> rt_open m l then Ret m
      else bind_outcome (rt_OnClose l reason m) (\<lambda>m. Ret (m\<lparr>rt_open := (rt_open m)(l := False)\<rparr>)))"

section \<open>Accepting and connecting\<close>

text \<open>\<open>OnAccept\<close> and \<open>Connect\<close> for the session \<open>s\<close> that the session pool gives; without one they throw.\<close>

definition rt_attach :: "nat \<Rightarrow> nat \<Rightarrow> ('h, 'w) router \<Rightarrow> ('h, 'w) router" where
  "rt_attach l s m = m\<lparr>rt_link_session := (rt_link_session m)(l := Some s), rt_link := (rt_link m)(s := Some l)\<rparr>"

definition rt_new_session :: "nat \<Rightarrow> nat \<Rightarrow> ('h, 'w) router \<Rightarrow> ('h, 'w) router" where
  "rt_new_session l s m = rt_attach l s
     (m\<lparr>rt_next_key := rt_next_key m + 1, rt_key := (rt_key m)(s := rt_next_key m + 1)\<rparr>)"

definition rt_OnAccept :: "nat \<Rightarrow> nat option \<Rightarrow> ('h, 'w) router \<Rightarrow> ('h, 'w) router outcome" where
  "rt_OnAccept l created_session m =
     (case created_session of
        None \<Rightarrow> Throw NullPointerError
      | Some s \<Rightarrow>
          (let m = (rt_new_session l s m)\<lparr>rt_seq := (rt_seq m)(s := 0)\<rparr>
           in Ret (m\<lparr>rt_sessions := snd (std_insert (rt_key m s) s (rt_sessions m))\<rparr>)))"

definition rt_Connect :: "nat option \<Rightarrow> nat option \<Rightarrow> ('h, 'w) router \<Rightarrow> ('h, 'w) router outcome" where
  "rt_Connect created_link created_session m =
     (case (created_link, created_session) of
        (Some l, Some s) \<Rightarrow> Ret (rt_new_session l s m)
      | _ \<Rightarrow> Throw NullPointerError)"

text \<open>\<open>Session::OnConnect\<close> sends the own address.\<close>

definition rs_OnConnect :: "packet option \<Rightarrow> nat \<Rightarrow> ('h, 'w) router \<Rightarrow> ('h, 'w) router outcome" where
  "rs_OnConnect created s m =
     (let m = rt_clear_waiting s m; req = \<lparr>local_address = rt_local m\<rparr>
      in bind_outcome (rt_SendMsg created s SetAddress_Req_MSG_ID (SetAddress_Req_Size req) (SetAddress_Req_Store req) m)
           (\<lambda>(_, m). Ret m))"

definition rt_OnConnect :: "packet option \<Rightarrow> nat \<Rightarrow> ('h, 'w) router \<Rightarrow> ('h, 'w) router outcome" where
  "rt_OnConnect created l m =
     (case rt_link_session m l of
        None \<Rightarrow> rt_OnError l InvalidSessionError m
      | Some s \<Rightarrow> rs_OnConnect created s (m\<lparr>rt_sessions := snd (std_insert (rt_key m s) s (rt_sessions m))\<rparr>))"

text \<open>\<open>Listen\<close>: the local address gets the service's name and the host's address as its number.\<close>

definition rt_Listen :: "bytes \<Rightarrow> u32 \<Rightarrow> ('h, 'w) router \<Rightarrow> ('h, 'w) router outcome" where
  "rt_Listen service ip m =
     (let m = m\<lparr>rt_local := (rt_local m)\<lparr>service_name := service, cast_type := UNI_CAST, addr_id := ip\<rparr>\<rparr>
      in if addr_id (rt_local m) = 0 then Throw InvalidAddressError else Ret m)"

text \<open>The timer of \<open>Listen\<close>: one heartbeat packet to every link.\<close>

definition rt_heartbeat :: "packet option \<Rightarrow> nat list \<Rightarrow> ('h, 'w) router \<Rightarrow> ('h, 'w) router outcome" where
  "rt_heartbeat created links m =
     (case created of
        None \<Rightarrow> Ret m
      | Some p \<Rightarrow> bind_outcome (pkt_Write_msg 0 (HeartBeat_Ntf_Size ()) HeartBeat_Ntf_MSG_ID (HeartBeat_Ntf_Store ()) True p)
          (\<lambda>(_, p). Ret (fold (\<lambda>l. rt_event (RtSend l (buf_content p))) links m)))"

section \<open>Routed messages\<close>

text \<open>\<open>Router::Dispatcher\<close>. The answer to a routed request is handled on the strand of the client's link.\<close>

definition rt_RegisterHandler :: "u32 \<Rightarrow> ('h, 'w) router_function \<Rightarrow> ('h, 'w) router \<Rightarrow> ('h, 'w) router outcome" where
  "rt_RegisterHandler msg_id hf m =
     (case rt_table m msg_id of None \<Rightarrow> Ret (m\<lparr>rt_table := (rt_table m)(msg_id := Some hf)\<rparr>) | Some _ \<Rightarrow> Throw 0)"

definition rt_call :: "'h option \<Rightarrow> ('h, 'w) router_function \<Rightarrow> address \<Rightarrow> packet \<Rightarrow> ('h, 'w) router \<Rightarrow> ('h, 'w) router" where
  "rt_call handler hf from packet m =
     (case handler of None \<Rightarrow> m | Some h \<Rightarrow> m\<lparr>rt_world := fst (rf_function hf h from packet (rt_world m))\<rparr>)"

definition rt_Dispatcher_OnRecvMsg :: "'h \<Rightarrow> address \<Rightarrow> packet \<Rightarrow> ('h, 'w) router \<Rightarrow> ('h, 'w) router outcome" where
  "rt_Dispatcher_OnRecvMsg fresh from packet m =
     (let msg_id = pkt_GetID packet in
      case rt_table m msg_id of
        None \<Rightarrow> Ret m
      | Some hf \<Rightarrow>
          if cast_type from = UNI_CAST \<and> GetFactoryType (rf_factory hf) = HANDLER_FACTORY_FIND then
            (case rc_Find from (rt_caster m) of
               None \<Rightarrow> Ret m
             | Some rs \<Rightarrow>
                 (let c = rt_caster m; (found, w) = ws_FindSession (addr_msg_seq from) (rs_waiting (rc_ses c rs));
                      m = m\<lparr>rt_caster := c\<lparr>rc_ses := (rc_ses c)(rs := (rc_ses c rs)\<lparr>rs_waiting := w\<rparr>)\<rparr>\<rparr>
                  in case found of
                       None \<Rightarrow> Ret m
                     | Some ns \<Rightarrow>
                         if rt_net_link m ns = None then Undef
                         else (case GetHandler fresh (rf_factory hf) (Some (rt_containers m ns)) msg_id of
                                 (handler, _, cont) \<Rightarrow>
                                   Ret (rt_call handler hf from packet
                                     (m\<lparr>rt_containers := (rt_containers m)(ns := the cont)\<rparr>)))))
          else (case GetHandler fresh (rf_factory hf) None msg_id of
                  (handler, factory, _) \<Rightarrow>
                    Ret (rt_call handler hf from packet (m\<lparr>rt_table := (rt_table m)(msg_id := Some (hf\<lparr>rf_factory := factory\<rparr>))\<rparr>))))"

text \<open>\<open>Router::SendMsg\<close>: the message is packed, and the packet routed inside a second one.\<close>

definition router_SendMsg ::
  "int \<Rightarrow> packet option \<Rightarrow> packet option \<Rightarrow> (nat \<times> u32) option \<Rightarrow> address \<Rightarrow> u32 \<Rightarrow> nat \<Rightarrow> bytes \<Rightarrow> caster \<Rightarrow> (bool \<times> caster) outcome" where
  "router_SendMsg now created created2 session addr msg_id msg_size stored c =
     (case created of
        None \<Rightarrow> Ret (False, c)
      | Some p \<Rightarrow>
          (let msg_seq = (case session of None \<Rightarrow> 0 | Some (_, q) \<Rightarrow> q)
           in bind_outcome (pkt_Write_msg msg_seq msg_size msg_id stored True p) (\<lambda>(written, p).
                if \<not> written then Ret (False, c)
                else rc_SendMsg now created2 (map_option fst session) addr (buf_content p) c)))"

section \<open>RouterHandler\<close>

definition Recv_SetAddress_Req :: "packet option \<Rightarrow> nat \<Rightarrow> packet \<Rightarrow> ('h, 'w) router \<Rightarrow> ('h, 'w) router outcome" where
  "Recv_SetAddress_Req created s packet m =
     bind_outcome (pkt_Read SetAddress_Req_Load packet) (\<lambda>loaded.
       let (m, ans) =
         (case loaded of
            None \<Rightarrow> (m, \<lparr>ans_error_code = of_int MessageFormatError, ans_remote_address = new_address\<rparr>)
          | Some req \<Rightarrow>
              if address_eq (rt_local m) (local_address req)
              then (m, \<lparr>ans_error_code = of_int InvalidAddressError, ans_remote_address = new_address\<rparr>)
              else (rt_set_address s (local_address req) m, \<lparr>ans_error_code = 0, ans_remote_address = rt_local m\<rparr>))
       in bind_outcome (rt_SendMsg created s SetAddress_Ans_MSG_ID (SetAddress_Ans_Size ans) (SetAddress_Ans_Store ans) m)
            (\<lambda>(_, m). Ret m))"

definition Recv_SetAddress_Ans :: "packet option \<Rightarrow> nat \<Rightarrow> packet \<Rightarrow> ('h, 'w) router \<Rightarrow> ('h, 'w) router outcome" where
  "Recv_SetAddress_Ans created s packet m =
     bind_outcome (pkt_Read SetAddress_Ans_Load packet) (\<lambda>loaded.
       case loaded of
         None \<Rightarrow> Ret m
       | Some ans \<Rightarrow>
           if ans_error_code ans \<noteq> 0 then
             (case rt_link m s of None \<Rightarrow> Undef | Some l \<Rightarrow> rt_OnError l (uint (ans_error_code ans)) m)
           else bind_outcome (rc_Register (ans_remote_address ans) s (rt_caster m)) (\<lambda>(_, c).
             let m = m\<lparr>rt_caster := c\<rparr>
             in if address_neq (rt_local m) (ans_remote_address ans) then
                  bind_outcome (rt_SendMsg created s SetAddress_Ntf_MSG_ID (SetAddress_Ntf_Size ()) (SetAddress_Ntf_Store ()) m)
                    (\<lambda>(_, m). Ret (rt_event (RtConnect s (rt_address m s)) m))
                else Ret m))"

definition Recv_SetAddress_Ntf :: "nat \<Rightarrow> packet \<Rightarrow> ('h, 'w) router \<Rightarrow> ('h, 'w) router outcome" where
  "Recv_SetAddress_Ntf s packet m =
     bind_outcome (pkt_Read SetAddress_Ntf_Load packet) (\<lambda>loaded.
       case loaded of
         None \<Rightarrow> Ret m
       | Some _ \<Rightarrow> bind_outcome (rc_Register (rt_address m s) s (rt_caster m)) (\<lambda>(_, c).
           let m = m\<lparr>rt_caster := c\<rparr> in Ret (rt_event (RtAccept (rt_address m s)) m)))"

text \<open>The packet for the inner message is used without a check that it was created.\<close>

definition Recv_SendMsg_Ntf :: "'h \<Rightarrow> packet option \<Rightarrow> nat \<Rightarrow> packet \<Rightarrow> ('h, 'w) router \<Rightarrow> ('h, 'w) router outcome" where
  "Recv_SendMsg_Ntf fresh created s packet m =
     bind_outcome (pkt_Read SendMsg_Ntf_Load packet) (\<lambda>loaded.
       case loaded of
         None \<Rightarrow> Ret m
       | Some ntf \<Rightarrow>
           if rc_Find (rt_address m s) (rt_caster m) = None then Ret m
           else (case created of
                   None \<Rightarrow> Undef
                 | Some p \<Rightarrow> bind_outcome (buf_Append (ntf_buffer ntf) (buf_Clear p)) (\<lambda>p.
                     rt_Dispatcher_OnRecvMsg fresh ((rt_address m s)\<lparr>addr_msg_seq := ucast (ntf_msg_seq ntf)\<rparr>) p m)))"

definition Recv_HeartBeat_Ntf :: "nat \<Rightarrow> packet \<Rightarrow> ('h, 'w) router \<Rightarrow> ('h, 'w) router outcome" where
  "Recv_HeartBeat_Ntf s packet m = Ret m"

section \<open>Receiving\<close>

text \<open>The loop of \<open>Router::LinkManager::OnRecvMsg\<close> is the one of the TCP server without the test of the
  sequence number.\<close>

definition router_rx_step :: "'s rx_env \<Rightarrow> 's \<Rightarrow> packet \<Rightarrow> (bool option \<times> 's \<times> packet) outcome" where
  "router_rx_step env w p =
     (if HEADER_SIZE \<le> buf_Size p then
        (let totalLength = pkt_GetLength p in
         if HEADER_SIZE > unat totalLength then Ret (Some True, rx_error env EOVERFLOW w, p)
         else if unat totalLength \<ge> buf_Capacity p then Ret (Some True, rx_error env EOVERFLOW w, p)
         else if unat totalLength > buf_Size p mod 2 ^ 16 then Ret (Some False, w, p)
         else
           (let w = rx_dispatch env p w;
                p = buf_Remove totalLength p
            in if 0 < buf_Size p then
                 (case rx_create env w of
                    None \<Rightarrow> Ret (Some True, rx_error env EOVERFLOW w, p)
                  | Some p' \<Rightarrow> bind_outcome (buf_Append (buf_read (buf_Size p) p) (pkt_Init p')) (\<lambda>p'. Ret (None, w, p')))
               else Ret (None, w, buf_Clear p)))
      else Ret (Some False, w, p))"

text \<open>The loop; every pass removes at least a header, so the packet's size plus one passes are enough.\<close>

fun router_rx_loop :: "nat \<Rightarrow> 's rx_env \<Rightarrow> 's \<Rightarrow> packet \<Rightarrow> (bool option \<times> 's \<times> packet) outcome" where
  "router_rx_loop 0 env w p = Ret (None, w, p)"
| "router_rx_loop (Suc n) env w p =
     bind_outcome (router_rx_step env w p)
       (\<lambda>(ended, w, p). if ended = None then router_rx_loop n env w p else Ret (ended, w, p))"

definition router_OnRecvMsg :: "'s rx_env \<Rightarrow> bytes \<Rightarrow> 's \<Rightarrow> packet \<Rightarrow> (bool option \<times> 's \<times> packet) outcome" where
  "router_OnRecvMsg env buffer w p =
     bind_outcome (buf_Append buffer p) (\<lambda>p. router_rx_loop (Suc (buf_Size p)) env w p)"

section \<open>The receive loop handles every frame\<close>

lemma router_step_stops:
  assumes "carries p bs"
  shows "next_frame bs = Incomplete \<Longrightarrow> router_rx_step env w p = Ret (Some False, w, p)"
    and "next_frame bs = Malformed \<Longrightarrow> router_rx_step env w p = Ret (Some True, rx_error env EOVERFLOW w, p)"
  using carries_facts [OF assms]
  by (auto simp: router_rx_step_def next_frame_def Let_def Buffer_MAX_SIZE_def split: if_splits)

context frame_handler begin

lemma router_step_frame:
  assumes c: "carries p bs" and fr: "next_frame bs = Frame f r"
  shows "\<exists>p'. router_rx_step env w p = Ret (None, handle f w, p') \<and> carries p' r"
proof -
  note facts = carries_facts [OF c] and nf = next_frame_Frame [OF fr]
  define q where "q = buf_Remove (pkt_GetLength p) p"
  note rest = carries_frame [OF c fr, folded q_def]
  have "rx_dispatch env p w = handle f w" using dispatch_frame c fr by (simp add: carries_def)
  then have step: "router_rx_step env w p =
     (if 0 < length r then (case rx_create env (handle f w) of None \<Rightarrow> Ret (Some True, rx_error env EOVERFLOW (handle f w), q)
        | Some p' \<Rightarrow> bind_outcome (buf_Append r (pkt_Init p')) (\<lambda>p'. Ret (None, handle f w, p')))
      else Ret (None, handle f w, buf_Clear q))"
    unfolding router_rx_step_def Let_def rest(2,4,5) q_def [symmetric] using facts(1-3) nf rest(1)
    by (simp add: Buffer_MAX_SIZE_def cong: option.case_cong)
  show ?thesis
  proof (cases "r = []")
    case True
    with step carries_clear [OF rest(3)] show ?thesis by simp
  next
    case False
    obtain p0 where p0: "rx_create env (handle f w) = Some p0" "pkt_ok p0" using create_ok by blast
    from carries_moved [OF p0(2) rest(6)] obtain p' where "buf_Append r (pkt_Init p0) = Ret p'" "carries p' r" by auto
    with False p0 step show ?thesis by simp
  qed
qed

lemma router_loop_refines:
  "carries p bs \<Longrightarrow> length bs < n \<Longrightarrow>
   \<exists>p'. router_rx_loop n env w p = Ret (Some (next_frame (unframed bs) = Malformed),
     (if next_frame (unframed bs) = Malformed then rx_error env EOVERFLOW else id) (fold handle (frames_of bs) w), p') \<and> carries p' (unframed bs)"
proof (induction n arbitrary: p bs w)
  case (Suc n)
  show ?case
  proof (cases "next_frame bs")
    case Incomplete
    with router_step_stops(1) [OF Suc.prems(1), of env w] Suc.prems(1) show ?thesis
      by (simp add: frames_of.simps [of bs] unframed.simps [of bs])
  next
    case Malformed
    with router_step_stops(2) [OF Suc.prems(1), of env w] Suc.prems(1) show ?thesis
      by (simp add: frames_of.simps [of bs] unframed.simps [of bs])
  next
    case (Frame f r)
    from router_step_frame [OF Suc.prems(1) Frame, of w] obtain p1 where p1:
      "router_rx_step env w p = Ret (None, handle f w, p1)" "carries p1 r" by blast
    have "length r < n" using next_frame_Frame(4) [OF Frame] Suc.prems(2) by simp
    from Suc.IH [OF p1(2) this, of "handle f w"] p1(1) Frame show ?thesis
      by (simp add: frames_of.simps [of bs] unframed.simps [of bs])
  qed
qed simp

end

section \<open>Sending and reading messages\<close>

lemma written_content:
  assumes "carries q (frame_header t s i @ body)"
  shows "written t s i body q"
proof -
  have al: "buf_aligned q" and ok: "pkt_ok q" and c: "buf_content q = frame_header t s i @ body"
    using assms by (simp_all add: carries_def)
  have "take (writeCursor q) (bdata q) = frame_header t s i @ body" using buf_content_aligned [OF al] c by simp
  then have "bdata q = frame_header t s i @ (body @ drop (writeCursor q) (bdata q))"
    by (metis append.assoc append_take_drop_id)
  from header_of_frame [OF this] show ?thesis using al ok c by (simp add: written_def)
qed

lemma rt_SendMsg_sent:
  assumes "rt_link m s = Some l" and "pkt_ok p" and "length stored = sz" and "sz + HEADER_SIZE < Buffer_MAX_SIZE"
  shows "\<exists>bs. rt_SendMsg (Some p) s i sz stored m = Ret (True, rt_event (RtSend l bs) m) \<and>
    (\<forall>q. carries q bs \<longrightarrow> (\<forall>load :: bytes \<Rightarrow> ('m \<times> bytes) option. pkt_Read load q = Ret (map_option fst (load stored))))"
proof -
  let ?h = "\<lparr>hdr_length = 0, hdr_msg_id = i, hdr_msg_seq = rt_seq m s\<rparr>"
  have len: "length stored + HEADER_SIZE < Buffer_MAX_SIZE" using assms(3,4) by simp
  from pkt_Write_fits [OF assms(2) len, of ?h] obtain p' where p': "pkt_Write ?h stored p = Ret (True, p')"
    "written (of_nat (length stored + HEADER_SIZE)) (rt_seq m s) i stored p'" by auto
  have send: "rt_SendMsg (Some p) s i sz stored m = Ret (True, rt_event (RtSend l (buf_content p')) m)"
    using p'(1) assms(1,3) by (simp add: rt_SendMsg_def pkt_Write_msg_eq_Write [where l = 0])
  have t: "unat (of_nat (length stored + HEADER_SIZE) :: u16) = length stored + HEADER_SIZE"
    unfolding unat_of_nat_u16 using len by (simp add: Buffer_MAX_SIZE_def)
  have "pkt_Read load q = Ret (map_option fst (load stored))" if "carries q (buf_content p')" for q and load :: "bytes \<Rightarrow> ('m \<times> bytes) option"
  proof -
    have "buf_content p' = frame_header (of_nat (length stored + HEADER_SIZE)) (rt_seq m s) i @ stored"
      using p'(2) by (simp add: written_def)
    with that have "written (of_nat (length stored + HEADER_SIZE)) (rt_seq m s) i stored q" by (intro written_content) simp
    from pkt_Read_written [OF this t] show ?thesis .
  qed
  with send show ?thesis by blast
qed

lemma rt_event_simps [simp]:
  "rt_caster (rt_event e m) = rt_caster m" "rt_local (rt_event e m) = rt_local m" "rt_link_session (rt_event e m) = rt_link_session m"
  "rt_link (rt_event e m) = rt_link m" "rt_open (rt_event e m) = rt_open m" "rt_events (rt_event e m) = rt_events m @ [e]"
  "rt_address (rt_event e m) s = rt_address m s"
  by (simp_all add: rt_event_def rt_address_def)

lemma rt_SendMsg_frame: "rt_SendMsg created s i sz stored m = Ret (b, m') \<Longrightarrow> m' = m \<or> (\<exists>e. m' = rt_event e m)"
  by (auto simp: rt_SendMsg_def bind_outcome_Ret_iff split: option.splits if_splits)

section \<open>Properties\<close>



text \<open>C25: The address exchange of two servers. When \<open>A\<close> has connected to \<open>B\<close> and the packets they send arrive, \<open>B\<close>
  answers the request with its address, \<open>A\<close> registers \<open>B\<close> and notifies it, and \<open>B\<close> registers \<open>A\<close>: in the end
  each finds the other's session under the other's address, and each side's callback was called once.\<close>

theorem handshake_registers_both:
  assumes ok: "caster_ok (rt_caster A)" "caster_ok (rt_caster B)"
    and valid: "Address_valid (rt_local A)" "Address_valid (rt_local B)" "\<not> address_eq (rt_local A) (rt_local B)"
    and small: "Address_Size (rt_local A) + 4 + HEADER_SIZE < Buffer_MAX_SIZE" "Address_Size (rt_local B) + 4 + HEADER_SIZE < Buffer_MAX_SIZE"
    and free: "rc_Find (rt_local B) (rt_caster A) = None" "rc_Find (rt_local A) (rt_caster B) = None"
    and fresh: "unregistered sB (rt_caster B)"
    and links: "rt_link A sA = Some lA" "rt_link B sB = Some lB"
    and packets: "pkt_ok p1" "pkt_ok p2" "pkt_ok p3"
  shows "\<exists>A1 bs1. rs_OnConnect (Some p1) sA A = Ret A1 \<and> rt_events A1 = rt_events A @ [RtSend lA bs1] \<and>
   (\<forall>q1. carries q1 bs1 \<longrightarrow> (\<exists>B1 bs2. Recv_SetAddress_Req (Some p2) sB q1 B = Ret B1 \<and> rt_events B1 = rt_events B @ [RtSend lB bs2] \<and>
    (\<forall>q2. carries q2 bs2 \<longrightarrow> (\<exists>A2 bs3. Recv_SetAddress_Ans (Some p3) sA q2 A1 = Ret A2 \<and>
       rt_events A2 = rt_events A1 @ [RtSend lA bs3, RtConnect sA (rt_local B)] \<and> rc_Find (rt_local B) (rt_caster A2) = Some sA \<and>
     (\<forall>q3. carries q3 bs3 \<longrightarrow> (\<exists>B2. Recv_SetAddress_Ntf sB q3 B1 = Ret B2 \<and>
       rt_events B2 = rt_events B1 @ [RtAccept (rt_local A)] \<and> rc_Find (rt_local A) (rt_caster B2) = Some sB))))))"
proof -
  let ?req = "\<lparr>local_address = rt_local A\<rparr>" and ?ans = "\<lparr>ans_error_code = 0, ans_remote_address = rt_local B\<rparr>"
  define A0 where "A0 = rt_clear_waiting sA A"
  have A0: "rt_link A0 sA = Some lA" "rt_local A0 = rt_local A" "rt_events A0 = rt_events A" "rc_uni (rt_caster A0) = rc_uni (rt_caster A)"
    "same_routes (rt_caster A) (rt_caster A0)"
    using links by (simp_all add: A0_def rt_clear_waiting_def same_routes_def multi_list_def any_entry_def)
  have "length (SetAddress_Req_Store ?req) = SetAddress_Req_Size ?req" "SetAddress_Req_Size ?req + HEADER_SIZE < Buffer_MAX_SIZE"
    using codec_setaddress_req.length_store small by (auto simp: SetAddress_Req_Size_def)
  from rt_SendMsg_sent [OF A0(1) packets(1) this] obtain bs1 where
    bs1: "rt_SendMsg (Some p1) sA SetAddress_Req_MSG_ID (SetAddress_Req_Size ?req) (SetAddress_Req_Store ?req) A0 = Ret (True, rt_event (RtSend lA bs1) A0)"
    "\<forall>q. carries q bs1 \<longrightarrow> (\<forall>load :: bytes \<Rightarrow> (setaddress_req \<times> bytes) option. pkt_Read load q = Ret (map_option fst (load (SetAddress_Req_Store ?req))))"
    by blast
  define A1 where "A1 = rt_event (RtSend lA bs1) A0"
  have step1: "rs_OnConnect (Some p1) sA A = Ret A1"
    using bs1(1) A0(2) by (simp add: rs_OnConnect_def A0_def [symmetric] A1_def Let_def)
  have req: "pkt_Read SetAddress_Req_Load q = Ret (Some ?req)" if "carries q bs1" for q
    using bs1(2) that codec_setaddress_req.load_store_exact [of ?req] valid by simp
  define B0 where "B0 = rt_set_address sB (rt_local A) B"
  have B0: "rt_link B0 sB = Some lB" "rt_events B0 = rt_events B" "rc_uni (rt_caster B0) = rc_uni (rt_caster B)" "rt_address B0 sB = rt_local A"
    using links by (simp_all add: B0_def rt_set_address_def rt_address_def)
  have "length (SetAddress_Ans_Store ?ans) = SetAddress_Ans_Size ?ans" "SetAddress_Ans_Size ?ans + HEADER_SIZE < Buffer_MAX_SIZE"
    using codec_setaddress_ans.length_store small by (auto simp: SetAddress_Ans_Size_def)
  from rt_SendMsg_sent [OF B0(1) packets(2) this] obtain bs2 where
    bs2: "rt_SendMsg (Some p2) sB SetAddress_Ans_MSG_ID (SetAddress_Ans_Size ?ans) (SetAddress_Ans_Store ?ans) B0 = Ret (True, rt_event (RtSend lB bs2) B0)"
    "\<forall>q. carries q bs2 \<longrightarrow> (\<forall>load :: bytes \<Rightarrow> (setaddress_ans \<times> bytes) option. pkt_Read load q = Ret (map_option fst (load (SetAddress_Ans_Store ?ans))))"
    by blast
  define B1 where "B1 = rt_event (RtSend lB bs2) B0"
  have "\<not> address_eq (rt_local B) (rt_local A)" using valid(3) unfolding address_eq_key by metis
  then have step2: "Recv_SetAddress_Req (Some p2) sB q1 B = Ret B1" if "carries q1 bs1" for q1
    using req [OF that] bs2(1) by (simp add: Recv_SetAddress_Req_def B0_def [symmetric] B1_def Let_def)
  have ans: "pkt_Read SetAddress_Ans_Load q = Ret (Some ?ans)" if "carries q bs2" for q
    using bs2(2) that codec_setaddress_ans.load_store_exact [of ?ans] valid by simp
  have okA: "caster_ok (rt_caster A1)" using caster_ok_routes [OF ok(1) A0(5)] by (simp add: A1_def)
  have newA: "rc_uni (rt_caster A1) (address_key (rt_local B)) = None" using free(1) A0(4) by (simp add: A1_def rc_Find_def uni_Find_def)
  obtain cA where cA: "rc_Register (rt_local B) sA (rt_caster A1) = Ret (True, cA)" "rc_Find (rt_local B) cA = Some sA"
    "rs_address (rc_ses cA sA) = rt_local B"
    using rc_Register_new [OF okA newA, of sA] by (simp add: rc_Find_def uni_Find_def)
  define A1' where "A1' = A1\<lparr>rt_caster := cA\<rparr>"
  have "rt_link A1' sA = Some lA" using A0(1) by (simp add: A1'_def A1_def)
  from rt_SendMsg_sent [OF this packets(3), of "SetAddress_Ntf_Store ()" "SetAddress_Ntf_Size ()" SetAddress_Ntf_MSG_ID] obtain bs3 where
    bs3: "rt_SendMsg (Some p3) sA SetAddress_Ntf_MSG_ID (SetAddress_Ntf_Size ()) (SetAddress_Ntf_Store ()) A1' = Ret (True, rt_event (RtSend lA bs3) A1')"
    "\<forall>q. carries q bs3 \<longrightarrow> (\<forall>load :: bytes \<Rightarrow> (unit \<times> bytes) option. pkt_Read load q = Ret (map_option fst (load (SetAddress_Ntf_Store ()))))"
    by (auto simp: SetAddress_Ntf_Store_def SetAddress_Ntf_Size_def HEADER_SIZE_def Buffer_MAX_SIZE_def)
  define A2 where "A2 = rt_event (RtConnect sA (rt_local B)) (rt_event (RtSend lA bs3) A1')"
  have "address_neq (rt_local A1') (rt_local B)" using valid(3) A0(2) by (auto simp: address_neq_def address_eq_def A1'_def A1_def)
  then have step3: "Recv_SetAddress_Ans (Some p3) sA q2 A1 = Ret A2" if "carries q2 bs2" for q2
    using ans [OF that] cA bs3(1) by (simp add: Recv_SetAddress_Ans_def A1'_def [symmetric] Let_def A2_def) (simp add: A1'_def rt_address_def)
  have "rc_step (rt_caster B) (rt_caster B0)"
    unfolding B0_def rt_set_address_def using rc_step.addressed [OF fresh, of "rt_local A"] by simp
  then have okB: "caster_ok (rt_caster B1)" using caster_ok_step [OF ok(2)] by (simp add: B1_def)
  have newB: "rc_uni (rt_caster B1) (address_key (rt_local A)) = None"
    using free(2) B0(3) by (simp add: B1_def rc_Find_def uni_Find_def)
  obtain cB where cB: "rc_Register (rt_local A) sB (rt_caster B1) = Ret (True, cB)" "rc_Find (rt_local A) cB = Some sB"
    "rs_address (rc_ses cB sB) = rt_local A"
    using rc_Register_new [OF okB newB, of sB] by (simp add: rc_Find_def uni_Find_def)
  define B2 where "B2 = rt_event (RtAccept (rt_local A)) (B1\<lparr>rt_caster := cB\<rparr>)"
  have "pkt_Read SetAddress_Ntf_Load q = Ret (Some ())" if "carries q bs3" for q
    using bs3(2) that by (simp add: SetAddress_Ntf_Load_def)
  then have step4: "Recv_SetAddress_Ntf sB q3 B1 = Ret B2" if "carries q3 bs3" for q3
    using that cB B0(4) by (simp add: Recv_SetAddress_Ntf_def Let_def B2_def) (simp add: B1_def rt_address_def)
  have events: "rt_events A1 = rt_events A @ [RtSend lA bs1]" "rt_events B1 = rt_events B @ [RtSend lB bs2]"
    "rt_events A2 = rt_events A1 @ [RtSend lA bs3, RtConnect sA (rt_local B)]" "rt_events B2 = rt_events B1 @ [RtAccept (rt_local A)]"
    using A0(3) B0(2) by (simp_all add: A1_def B1_def A2_def A1'_def B2_def)
  have found: "rc_Find (rt_local B) (rt_caster A2) = Some sA" "rc_Find (rt_local A) (rt_caster B2) = Some sB"
    using cA(2) cB(2) by (simp_all add: A2_def A1'_def B2_def)
  show ?thesis using step1 step2 step3 step4 events found by blast
qed

definition router_demo :: "bytes \<Rightarrow> (unit, unit) router" where
  "router_demo name = \<lparr>rt_caster = new_caster, rt_local = \<lparr>service_name = name, cast_type = UNI_CAST, addr_id = 1, addr_msg_seq = 0\<rparr>,
     rt_link_session = [1 \<mapsto> 2], rt_link = [2 \<mapsto> 1], rt_seq = (\<lambda>_. 0), rt_key = (\<lambda>_. 0), rt_next_key = 0, rt_open = (\<lambda>_. True),
     rt_sessions = [], rt_table = Map.empty, rt_containers = (\<lambda>_. Map.empty), rt_net_link = Map.empty, rt_world = (), rt_events = []\<rparr>"

lemma handshake_registers_both_witness:
  "\<exists>A1 bs1. rs_OnConnect (Some new_packet) 2 (router_demo [65]) = Ret A1 \<and> rt_events A1 = [RtSend 1 bs1] \<and>
   (\<forall>q1. carries q1 bs1 \<longrightarrow> (\<exists>B1 bs2. Recv_SetAddress_Req (Some new_packet) 2 q1 (router_demo [66]) = Ret B1 \<and> rt_events B1 = [RtSend 1 bs2]))"
proof -
  have "rt_caster (router_demo n) = new_caster" "rt_link (router_demo n) 2 = Some 1" "rt_events (router_demo n) = []"
    "rt_local (router_demo n) = \<lparr>service_name = n, cast_type = UNI_CAST, addr_id = 1, addr_msg_seq = 0\<rparr>" for n
    by (simp_all add: router_demo_def)
  note d = this
  have "unregistered 2 new_caster" "rc_Find a new_caster = None" for a
    by (simp_all add: unregistered_def new_caster_def rc_Find_def uni_Find_def)
  note c = caster_ok_new this
  let ?A = "router_demo [65]" and ?B = "router_demo [66]"
  have "caster_ok (rt_caster ?A)" "caster_ok (rt_caster ?B)" "Address_valid (rt_local ?A)" "Address_valid (rt_local ?B)"
    "\<not> address_eq (rt_local ?A) (rt_local ?B)" "Address_Size (rt_local ?A) + 4 + HEADER_SIZE < Buffer_MAX_SIZE"
    "Address_Size (rt_local ?B) + 4 + HEADER_SIZE < Buffer_MAX_SIZE" "rc_Find (rt_local ?B) (rt_caster ?A) = None"
    "rc_Find (rt_local ?A) (rt_caster ?B) = None" "unregistered 2 (rt_caster ?B)"
    unfolding d using c
    by (simp_all add: Address_valid_def address_eq_def Address_Size_def ROUTER_CAST_TYPE_Size_def HEADER_SIZE_def Buffer_MAX_SIZE_def)
  from handshake_registers_both [OF this d(2,2) pkt_ok_new pkt_ok_new pkt_ok_new] obtain A1 bs1 where
    A1: "rs_OnConnect (Some new_packet) 2 ?A = Ret A1" "rt_events A1 = rt_events ?A @ [RtSend 1 bs1]" and
    B1: "\<forall>q1. carries q1 bs1 \<longrightarrow> (\<exists>B1 bs2. Recv_SetAddress_Req (Some new_packet) 2 q1 ?B = Ret B1 \<and> rt_events B1 = rt_events ?B @ [RtSend 1 bs2])"
    by blast
  show ?thesis
    using A1 B1 by (intro exI [of _ A1] exI [of _ bs1]) (simp add: d(3))
qed

text \<open>Any connected peer can take another server's route away. A peer that merely claims the address under
  which another session is registered, and whose link then closes, unregisters the other session: messages to
  the address are no longer routed, although the other server is still connected.\<close>

theorem claimed_address_unregisters:
  assumes ok: "caster_ok (rt_caster m)" and reg: "rc_Find a (rt_caster m) = Some s1" and other: "unregistered s2 (rt_caster m)"
    and name: "service_name a \<noteq> []" "\<not> address_eq (rt_local m) a"
    and link: "rt_link_session m l = Some s2" "rt_link m s1 = Some l1"
    and claim: "pkt_Read SetAddress_Req_Load q = Ret (Some \<lparr>local_address = a\<rparr>)" "Recv_SetAddress_Req created s2 q m = Ret m1"
  shows "\<exists>m2. rt_OnClose l reason m1 = Ret m2 \<and> rc_Find a (rt_caster m2) = None \<and> rt_link m2 s1 = Some l1 \<and>
    uni_Send now sq ns a buf (rt_caster m2) = Ret (False, rt_caster m2)"
proof -
  define m0 where "m0 = rt_set_address s2 a m"
  obtain b where sent: "rt_SendMsg created s2 SetAddress_Ans_MSG_ID (SetAddress_Ans_Size \<lparr>ans_error_code = 0, ans_remote_address = rt_local m\<rparr>)
      (SetAddress_Ans_Store \<lparr>ans_error_code = 0, ans_remote_address = rt_local m\<rparr>) m0 = Ret (b, m1)"
    using claim name(2) by (auto simp: Recv_SetAddress_Req_def m0_def [symmetric] Let_def elim: bind_outcome_RetE2)
  from rt_SendMsg_frame [OF sent] have m1: "rt_caster m1 = rt_caster m0" "rt_link_session m1 = rt_link_session m0" "rt_link m1 = rt_link m0"
    by auto
  have m0: "rt_link_session m0 l = Some s2" "rt_link m0 s1 = Some l1" "rt_address m1 s2 = a" "rc_uni (rt_caster m1) = rc_uni (rt_caster m)"
    using link m1 by (simp_all add: m0_def rt_set_address_def rt_address_def)
  have "rc_step (rt_caster m) (rt_caster m1)"
    unfolding m1 m0_def rt_set_address_def using rc_step.addressed [OF other, of a] by simp
  then have ok1: "caster_ok (rt_caster m1)" using caster_ok_step [OF ok] by blast
  have s1: "rc_uni (rt_caster m1) (address_key a) = Some s1" using reg m0(4) by (simp add: rc_Find_def uni_Find_def)
  from rc_Unregister_known [OF ok1 this] obtain c where c: "rc_Unregister a (rt_caster m1) = Ret (True, c)"
    "rc_uni c = (rc_uni (rt_caster m1))(address_key a := None)" by blast
  have "s1 \<noteq> s2" using other reg by (auto simp: unregistered_def rc_Find_def uni_Find_def)
  define m2 where "m2 = rt_clear_waiting s2 ((rt_event (RtClose s2 a) m1)\<lparr>rt_caster := c\<rparr>)"
  have "rs_OnClose s2 m1 = Ret m2" using c(1) m0(3) name(1) by (simp add: rs_OnClose_def m2_def)
  moreover have "rt_link m2 = rt_link m0" "rc_uni (rt_caster m2) (address_key a) = None"
    using m1 c(2) by (simp_all add: m2_def rt_clear_waiting_def)
  ultimately show ?thesis using m0(1,2) m1(2) \<open>s1 \<noteq> s2\<close>
    by (simp add: rt_OnClose_def rc_Find_def uni_Find_def uni_Send_def)
qed

lemma claimed_address_unregisters_witness:
  "\<exists>m c q m2. rc_Register (rt_local (router_demo [66])) 7 new_caster = Ret (True, c) \<and> m = (router_demo [65])\<lparr>rt_caster := c, rt_link := [7 \<mapsto> 3, 2 \<mapsto> 1]\<rparr> \<and>
     rc_Find (rt_local (router_demo [66])) (rt_caster m) = Some 7 \<and> Recv_SetAddress_Req None 2 q m = Ret (rt_set_address 2 (rt_local (router_demo [66])) m) \<and>
     rt_OnClose 1 0 (rt_set_address 2 (rt_local (router_demo [66])) m) = Ret m2 \<and> rc_Find (rt_local (router_demo [66])) (rt_caster m2) = None"
proof -
  define a where "a = rt_local (router_demo [66])"
  have a: "service_name a = [66]" "cast_type a = UNI_CAST" "Address_valid a" by (simp_all add: a_def router_demo_def Address_valid_def)
  have free: "rc_uni new_caster (address_key a) = None" "unregistered 7 new_caster" by (simp_all add: new_caster_def unregistered_def)
  obtain c where c: "rc_Register a 7 new_caster = Ret (True, c)" "rc_uni c = [address_key a \<mapsto> 7]"
    using rc_Register_new [OF caster_ok_new free(1), of 7] by (simp add: new_caster_def)
  have ok: "caster_ok c" using rc_Register_ok [OF caster_ok_new free a(2) c(1)] .
  let ?req = "\<lparr>local_address = a\<rparr>"
  let ?m = "(router_demo [65])\<lparr>rt_caster := c, rt_link := [7 \<mapsto> 3, 2 \<mapsto> 1]\<rparr>"
  have "length (SetAddress_Req_Store ?req) = SetAddress_Req_Size ?req" "SetAddress_Req_Size ?req + HEADER_SIZE < Buffer_MAX_SIZE"
    using codec_setaddress_req.length_store
    by (simp_all add: SetAddress_Req_Size_def Address_Size_def a ROUTER_CAST_TYPE_Size_def HEADER_SIZE_def Buffer_MAX_SIZE_def)
  from codec_setaddress_req.packet_roundtrip [of ?req, OF _ pkt_ok_new this(2)] a(3)
  obtain q where q: "pkt_Read SetAddress_Req_Load q = Ret (Some ?req)" by auto
  have ne: "\<not> address_eq (rt_local ?m) a" by (simp add: a_def router_demo_def address_eq_def)
  have m: "rt_caster ?m = c" "rt_link_session ?m 1 = Some 2" "rt_link ?m 7 = Some 3" by (simp_all add: router_demo_def)
  have claim: "Recv_SetAddress_Req None 2 q ?m = Ret (rt_set_address 2 a ?m)"
    using q ne by (simp add: Recv_SetAddress_Req_def rt_SendMsg_def Let_def)
  have "caster_ok (rt_caster ?m)" "rc_Find a (rt_caster ?m) = Some 7" "unregistered 2 (rt_caster ?m)" "service_name a \<noteq> []"
    using ok c(2) a(1) m(1) by (simp_all add: rc_Find_def uni_Find_def unregistered_def)
  note pre = this
  from claimed_address_unregisters [OF pre ne m(2,3) q claim] obtain m2 where
    m2: "rt_OnClose 1 0 (rt_set_address 2 a ?m) = Ret m2" "rc_Find a (rt_caster m2) = None" by blast
  show ?thesis unfolding a_def [symmetric]
    by (rule exI [of _ ?m], rule exI [of _ c], rule exI [of _ q], rule exI [of _ m2]) (intro conjI c(1) refl pre(2) claim m2)
qed

end
