(* ===== verification/Http_Server.thy ===== *)
theory Http_Server
  imports Handler_Dispatch Std_Map "HOL-Library.List_Lexorder"
begin

text \<open>
  The HTTP server, \<^verbatim>\<open>Gamnet/Network/Http/\<close>: parsing the parameters of a request (\<open>Request.cpp\<close>), the request
  line (\<open>LinkManager.cpp\<close>), the dispatcher by path (\<open>Dispatcher.cpp\<close>) and the response text (\<open>Session.cpp\<close>,
  \<open>Response.cpp\<close>). Strings are byte lists; \<open>None\<close> stands for \<open>npos\<close>. \<open>curl_easy_unescape\<close> is a parameter,
  \<open>None\<close> where it returns a null pointer.
\<close>

section \<open>Strings\<close>

fun str_find :: "u8 \<Rightarrow> bytes \<Rightarrow> nat option" where
  "str_find c [] = None"
| "str_find c (x # xs) = (if x = c then Some 0 else map_option Suc (str_find c xs))"

text \<open>\<open>substr(from, to - from)\<close>, whose second argument is a \<open>size_t\<close>: when \<open>to\<close> is \<open>npos\<close> or before \<open>from\<close>, it is
  so large that the rest of the string is taken.\<close>

definition str_between :: "nat \<Rightarrow> nat option \<Rightarrow> bytes \<Rightarrow> bytes" where
  "str_between from to s =
     (case to of None \<Rightarrow> drop from s | Some e \<Rightarrow> if e < from then drop from s else take (e - from) (drop from s))"

abbreviation EQ :: u8 where "EQ \<equiv> 61"
abbreviation AMP :: u8 where "AMP \<equiv> 38"
abbreviation CR :: u8 where "CR \<equiv> 13"
abbreviation LF :: u8 where "LF \<equiv> 10"
abbreviation SPACE :: u8 where "SPACE \<equiv> 32"
abbreviation SLASH :: u8 where "SLASH \<equiv> 47"
abbreviation QUERY :: u8 where "QUERY \<equiv> 63"

lemma str_find_Some: "str_find c xs = Some i \<Longrightarrow> i < length xs \<and> xs ! i = c \<and> c \<notin> set (take i xs)"
  by (induction xs arbitrary: i) (auto split: if_splits)

lemma str_find_absent [simp]: "c \<notin> set xs \<Longrightarrow> str_find c xs = None"
  by (induction xs) auto

lemma str_find_first [simp]: "c \<notin> set xs \<Longrightarrow> str_find c (xs @ c # ys) = Some (length xs)"
  by (induction xs) auto

lemma str_between_whole [simp]: "str_between 0 None s = s"
  by (simp add: str_between_def)

lemma str_between_split [simp]: "str_between (length a) (Some (length a + length b)) (a @ b @ c) = b"
  by (simp add: str_between_def)

lemma str_between_take [simp]: "str_between 0 (Some n) s = take n s"
  by (simp add: str_between_def)

section \<open>Request\<close>

type_synonym request = "(bytes, bytes) std_map"

text \<open>The constructor's loop: up to the first \<open>=\<close> the name, from there to the first \<open>&\<close> the value.\<close>

function request_loop :: "bytes \<Rightarrow> request \<Rightarrow> request" where
  "request_loop param params =
     (if length param = 0 then params
      else case str_find EQ param of
        None \<Rightarrow> params
      | Some equal_pos \<Rightarrow>
          (let delim_pos = (case str_find AMP param of None \<Rightarrow> length param | Some d \<Rightarrow> d);
               name = take equal_pos param;
               value = str_between (equal_pos + 1) (Some delim_pos) param;
               params = snd (std_insert name value params)
           in if delim_pos \<ge> length param then params else request_loop (drop (delim_pos + 1) param) params))"
  by pat_completeness auto
termination by (relation "measure (length \<circ> fst)") auto

declare request_loop.simps [simp del]

definition new_Request :: "bytes \<Rightarrow> request" where
  "new_Request param_string = request_loop param_string []"

definition request_at :: "request \<Rightarrow> bytes \<Rightarrow> bytes outcome" where
  "request_at params name = (case std_find name params of None \<Rightarrow> Throw InvalidKeyError | Some v \<Rightarrow> Ret v)"

section \<open>Response\<close>

record response =
  error_code :: int
  context_text :: bytes

type_synonym error_table = "(int, string) std_map"

definition InitErrorCode :: error_table where
  "InitErrorCode = [(100, ''Continue''), (101, ''Switching Protocols''), (200, ''OK''), (201, ''Created''), (202, ''Accepted''),
     (203, ''Non-Authoritative Information (since HTTP/1.1)''), (204, ''No Content''), (205, ''Reset Content''),
     (401, ''Unauthorized''), (402, ''Payment Required''), (403, ''Forbidden''), (404, ''Not Found''), (405, ''Method Not Allowed'')]"

text \<open>\<open>mapErrorCode[code]\<close> puts an empty text into the table for an unknown code.\<close>

definition GetErrorStr :: "int \<Rightarrow> error_table \<Rightarrow> string \<times> error_table" where
  "GetErrorStr code m = (case std_find code m of Some s \<Rightarrow> (s, m) | None \<Rightarrow> ([], std_put code [] m))"

section \<open>Server\<close>

record ('h, 'w) http_function =
  ht_factory :: "'h handler_factory"
  ht_function :: "'h \<Rightarrow> request \<Rightarrow> 'w \<Rightarrow> 'w \<times> response list"

record ('h, 'w) http_server =
  hs_table :: "bytes \<Rightarrow> ('h, 'w) http_function option"
  hs_errors :: error_table
  hs_sent :: "(nat \<times> bytes) list"
  hs_closed :: "nat list"
  hs_world :: 'w

text \<open>The text of \<open>Session::Send\<close>.\<close>

definition response_text :: "string \<Rightarrow> response \<Rightarrow> bytes" where
  "response_text err res =
     string_bytes (''HTTP/1.1 '' @ dec_int (error_code res) @ '' '' @ err) @ [CR, LF] @ [CR, LF] @ context_text res @ [CR, LF, CR, LF]"

text \<open>The text is copied into a buffer of the pool (\<open>created\<close>); without a buffer it is dropped. The result is the
  length of the text.\<close>

definition http_Send :: "buffer option \<Rightarrow> nat \<Rightarrow> response \<Rightarrow> ('h, 'w) http_server \<Rightarrow> (int \<times> ('h, 'w) http_server) outcome" where
  "http_Send created l res m =
     (let (err, errors) = GetErrorStr (error_code res) (hs_errors m);
          text = response_text err res; m = m\<lparr>hs_errors := errors\<rparr>
      in case created of
           None \<Rightarrow> Ret (int (length text), m)
         | Some b \<Rightarrow> bind_outcome (buf_Append text b)
             (\<lambda>b. Ret (int (length text), m\<lparr>hs_sent := hs_sent m @ [(l, buf_content b)]\<rparr>)))"

definition http_SendMsg :: "buffer option \<Rightarrow> nat \<Rightarrow> response \<Rightarrow> ('h, 'w) http_server \<Rightarrow> (bool \<times> ('h, 'w) http_server) outcome" where
  "http_SendMsg created l res m = bind_outcome (http_Send created l res m) (\<lambda>(n, m). Ret (0 \<le> n, m))"

text \<open>The responses of a handler, until one throws.\<close>

fun http_send_all :: "buffer option \<Rightarrow> nat \<Rightarrow> response list \<Rightarrow> ('h, 'w) http_server \<Rightarrow> ('h, 'w) http_server outcome" where
  "http_send_all created l [] m = Ret m"
| "http_send_all created l (r # rs) m =
     (case http_Send created l r m of Ret (_, m) \<Rightarrow> http_send_all created l rs m | Throw _ \<Rightarrow> Ret m | Undef \<Rightarrow> Undef)"

definition http_RegisterHandler :: "bytes \<Rightarrow> ('h, 'w) http_function \<Rightarrow> ('h, 'w) http_server \<Rightarrow> ('h, 'w) http_server outcome" where
  "http_RegisterHandler uri hf m =
     (case hs_table m uri of None \<Rightarrow> Ret (m\<lparr>hs_table := (hs_table m)(uri := Some hf)\<rparr>) | Some _ \<Rightarrow> Throw 0)"

definition not_found :: response where
  "not_found = \<lparr>error_code = 404, context_text = string_bytes ''404 Not found''\<rparr>"

definition http_Dispatcher_OnRecvMsg ::
  "buffer option \<Rightarrow> 'h \<Rightarrow> nat \<Rightarrow> bytes \<Rightarrow> request \<Rightarrow> ('h, 'w) http_server \<Rightarrow> ('h, 'w) http_server outcome" where
  "http_Dispatcher_OnRecvMsg created fresh l uri req m =
     (case hs_table m uri of
        None \<Rightarrow> bind_outcome (http_Send created l not_found m) (\<lambda>(_, m). Ret m)
      | Some hf \<Rightarrow>
          (case GetHandler fresh (ht_factory hf) (Some Map.empty) 0 of
             (handler, factory, _) \<Rightarrow>
               (let m = m\<lparr>hs_table := (hs_table m)(uri := Some (hf\<lparr>ht_factory := factory\<rparr>))\<rparr>
                in case handler of
                     None \<Rightarrow> bind_outcome (http_Send created l not_found m) (\<lambda>(_, m). Ret m)
                   | Some h \<Rightarrow>
                       (case ht_function hf h req (hs_world m) of
                          (w, rs) \<Rightarrow> http_send_all created l rs (m\<lparr>hs_world := w\<rparr>)))))"

text \<open>The search for the end of the first line; it looks at the byte behind a carriage return even when this was
  the last one received.\<close>

fun crlf_scan :: "buffer \<Rightarrow> nat \<Rightarrow> nat \<Rightarrow> nat option outcome" where
  "crlf_scan b 0 i = Ret None"
| "crlf_scan b (Suc n) i =
     (if bdata b ! (readCursor b + i) = CR then
        (if length (bdata b) \<le> readCursor b + i + 1 then Undef
         else if bdata b ! (readCursor b + i + 1) = LF then Ret (Some i) else crlf_scan b n (i + 1))
      else crlf_scan b n (i + 1))"

text \<open>The path and the parameter text of the request line, which still ends with the carriage return.\<close>

definition request_line :: "bytes \<Rightarrow> bytes \<times> bytes option" where
  "request_line request =
     (let init_line = str_between 0 (str_find LF request) request;
          uri = (case str_find SLASH init_line of None \<Rightarrow> init_line | Some i \<Rightarrow> drop (i + 1) init_line);
          param_start = str_find QUERY uri;
          param_end = str_find SPACE uri;
          uri_end = (if param_start = None then param_end else param_start)
      in (str_between 0 uri_end uri, map_option (\<lambda>s. str_between (s + 1) param_end uri) param_start))"

text \<open>\<open>c_str()\<close>: the text up to its first zero byte.\<close>

definition c_str :: "bytes \<Rightarrow> bytes" where
  "c_str s = takeWhile (\<lambda>c. c \<noteq> 0) s"

definition http_OnRecvMsg ::
  "(bytes \<Rightarrow> bytes option) \<Rightarrow> buffer option \<Rightarrow> 'h \<Rightarrow> nat \<Rightarrow> buffer \<Rightarrow> ('h, 'w) http_server \<Rightarrow> ('h, 'w) http_server outcome" where
  "http_OnRecvMsg unescape created fresh l buffer m =
     bind_outcome (crlf_scan buffer (buf_Size buffer) 0) (\<lambda>found.
       case found of
         None \<Rightarrow> Ret m
       | Some read_ptr \<Rightarrow>
           (case request_line (buf_read (read_ptr + 1) buffer) of
              (uri, param) \<Rightarrow>
                bind_outcome
                  (case param of
                     None \<Rightarrow> Ret []
                   | Some text \<Rightarrow> (case unescape (c_str text) of None \<Rightarrow> Undef | Some plain_text \<Rightarrow> Ret (c_str plain_text)))
                  (\<lambda>param. bind_outcome (http_Dispatcher_OnRecvMsg created fresh l uri (new_Request param) m)
                     (\<lambda>m. Ret (m\<lparr>hs_closed := hs_closed m @ [l]\<rparr>)))))"

text \<open>The reads of a link: after each one the buffer is cleared, whatever \<open>OnRecvMsg\<close> did with it.\<close>

fun http_receive ::
  "(bytes \<Rightarrow> bytes option) \<Rightarrow> buffer option \<Rightarrow> 'h \<Rightarrow> nat \<Rightarrow> bytes list \<Rightarrow> buffer \<Rightarrow> ('h, 'w) http_server
     \<Rightarrow> (buffer \<times> ('h, 'w) http_server) outcome" where
  "http_receive unescape created fresh l [] b m = Ret (b, m)"
| "http_receive unescape created fresh l (c # cs) b m =
     bind_outcome (buf_Append c b) (\<lambda>b. bind_outcome (http_OnRecvMsg unescape created fresh l b m) (\<lambda>m.
       if l \<in> set (hs_closed m) then Ret (b, m) else http_receive unescape created fresh l cs (buf_Clear b) m))"

section \<open>The parameters of a request\<close>

text \<open>The text \<^verbatim>\<open>n1=v1&n2=v2\<close> of a list of parameters.\<close>

fun query_text :: "(bytes \<times> bytes) list \<Rightarrow> bytes" where
  "query_text [] = []"
| "query_text [(n, v)] = n @ EQ # v"
| "query_text ((n, v) # ps) = n @ EQ # v @ AMP # query_text ps"

definition query_ok :: "(bytes \<times> bytes) list \<Rightarrow> bool" where
  "query_ok ps \<longleftrightarrow> (\<forall>(n, v)\<in>set ps. EQ \<notin> set n \<and> AMP \<notin> set n \<and> AMP \<notin> set v)"

lemma request_loop_last:
  assumes "EQ \<notin> set n" and "AMP \<notin> set n" and "AMP \<notin> set v"
  shows "request_loop (n @ EQ # v) acc = snd (std_insert n v acc)"
  using assms by (subst request_loop.simps) (simp add: Let_def str_between_def)

lemma request_loop_more:
  assumes "EQ \<notin> set n" and "AMP \<notin> set n" and "AMP \<notin> set v"
  shows "request_loop (n @ EQ # v @ AMP # rest) acc = request_loop rest (snd (std_insert n v acc))"
proof -
  have "str_find AMP (n @ EQ # v @ AMP # rest) = Some (length n + Suc (length v))"
    using assms str_find_first [of AMP "n @ EQ # v" rest] by simp
  with assms show ?thesis by (subst request_loop.simps) (simp add: Let_def str_between_def)
qed

lemma request_loop_query:
  "query_ok ps \<Longrightarrow> map_ok acc \<Longrightarrow>
   std_find k (request_loop (query_text ps) acc) = (case std_find k acc of None \<Rightarrow> map_of ps k | Some w \<Rightarrow> Some w)"
proof (induction ps arbitrary: acc rule: query_text.induct)
  case 1
  show ?case by (subst request_loop.simps) (simp split: option.splits)
next
  case (2 n v)
  then show ?case by (cases "std_find k acc"; cases "k = n") (simp_all add: query_ok_def request_loop_last)
next
  case (3 n v p ps)
  have ok: "query_ok (p # ps)" using "3.prems"(1) by (simp add: query_ok_def)
  have "request_loop (query_text ((n, v) # p # ps)) acc = request_loop (query_text (p # ps)) (snd (std_insert n v acc))"
    using "3.prems"(1) by (simp add: query_ok_def request_loop_more)
  also have "std_find k \<dots> = (case std_find k (snd (std_insert n v acc)) of None \<Rightarrow> map_of (p # ps) k | Some w \<Rightarrow> Some w)"
    by (rule "3.IH" [OF ok map_ok_insert [OF "3.prems"(2)]])
  finally show ?case using "3.prems"(2) by (cases "std_find k acc"; cases "k = n") simp_all
qed

text \<open>C16: a request reads back every parameter of a well-formed parameter text; where a name occurs twice the first
  value is kept, and a name that is absent is an \<open>InvalidKeyError\<close>.\<close>

theorem request_reads_parameters:
  assumes "query_ok ps"
  shows "request_at (new_Request (query_text ps)) name =
    (case map_of ps name of None \<Rightarrow> Throw InvalidKeyError | Some value \<Rightarrow> Ret value)"
  by (simp add: request_at_def new_Request_def request_loop_query [OF assms])

theorem request_reads_parameters_witness:
  "request_at (new_Request (string_bytes ''id=7&name=a&id=9'')) (string_bytes ''id'') = Ret (string_bytes ''7'')"
proof -
  let ?ps = "[(string_bytes ''id'', string_bytes ''7''), (string_bytes ''name'', string_bytes ''a''),
    (string_bytes ''id'', string_bytes ''9'')]"
  have "query_text ?ps = string_bytes ''id=7&name=a&id=9''" by (simp add: string_bytes_def)
  moreover have "query_ok ?ps" by (simp add: query_ok_def string_bytes_def)
  ultimately show ?thesis using request_reads_parameters [of ?ps "string_bytes ''id''"] by simp
qed

section \<open>From a request to its answer\<close>

text \<open>The request line \<^verbatim>\<open>GET /path?parameters HTTP/1.1\<close>, and one without parameters.\<close>

definition request_head :: "bytes \<Rightarrow> bytes \<Rightarrow> bytes option \<Rightarrow> bytes \<Rightarrow> bytes" where
  "request_head mth path param version =
     mth @ SLASH # path @ (case param of None \<Rightarrow> [] | Some p \<Rightarrow> QUERY # p) @ SPACE # version"

definition head_ok :: "bytes \<Rightarrow> bytes \<Rightarrow> bytes option \<Rightarrow> bytes \<Rightarrow> bool" where
  "head_ok mth path param version \<longleftrightarrow>
     SLASH \<notin> set mth \<and> QUERY \<notin> set path \<and> SPACE \<notin> set path \<and> QUERY \<notin> set version
     \<and> (\<forall>p. param = Some p \<longrightarrow> SPACE \<notin> set p)
     \<and> CR \<notin> set (request_head mth path param version) \<and> LF \<notin> set (request_head mth path param version)"

lemma request_line_head:
  assumes "head_ok mth path param version"
  shows "request_line (request_head mth path param version @ [CR]) = (path, param)"
proof -
  let ?init = "request_head mth path param version @ [CR]"
  let ?uri = "path @ (case param of None \<Rightarrow> [] | Some p \<Rightarrow> QUERY # p) @ SPACE # version @ [CR]"
  have init: "str_find LF ?init = None" using assms by (simp add: head_ok_def)
  have slash: "str_find SLASH ?init = Some (length mth)"
    using assms str_find_first [of SLASH mth ?uri] by (simp add: request_head_def head_ok_def)
  have uri: "drop (length mth + 1) ?init = ?uri" by (simp add: request_head_def)
  show ?thesis
  proof (cases param)
    case None
    have "str_find QUERY ?uri = None" and "str_find SPACE ?uri = Some (length path)"
      using assms None by (simp_all add: head_ok_def)
    then show ?thesis unfolding request_line_def Let_def init str_between_whole slash using None uri by simp
  next
    case (Some p)
    have q: "str_find QUERY ?uri = Some (length path)" using assms Some by (simp add: head_ok_def)
    have "str_find SPACE ?uri = Some (length path + Suc (length p))"
      using assms Some str_find_first [of SPACE "path @ QUERY # p" "version @ [CR]"] by (simp add: head_ok_def)
    with q show ?thesis unfolding request_line_def Let_def init str_between_whole slash using Some uri
      by (simp add: str_between_def)
  qed
qed

lemma crlf_scan_found:
  assumes "\<And>j. i \<le> j \<Longrightarrow> j < k \<Longrightarrow> bdata b ! (readCursor b + j) \<noteq> CR"
    and "bdata b ! (readCursor b + k) = CR" and "bdata b ! (readCursor b + k + 1) = LF"
    and "readCursor b + k + 1 < length (bdata b)" and "i \<le> k" and "k < i + n"
  shows "crlf_scan b n i = Ret (Some k)"
  using assms(1, 5, 6)
proof (induction n arbitrary: i)
  case (Suc n)
  then show ?case using assms(2-4) by (cases "i = k") auto
qed simp

lemma crlf_scan_none:
  "\<forall>j<n. bdata b ! (readCursor b + i + j) \<noteq> CR \<Longrightarrow> crlf_scan b n i = Ret None"
proof (induction n arbitrary: i)
  case (Suc n)
  have "\<forall>j<n. bdata b ! (readCursor b + (i + 1) + j) \<noteq> CR"
    using Suc.prems by (auto dest: spec [of _ "Suc _"])
  from Suc.IH [OF this] Suc.prems show ?case by (auto dest: spec [of _ 0])
qed simp

lemma content_nth: "buf_inv b \<Longrightarrow> i < buf_Size b \<Longrightarrow> bdata b ! (readCursor b + i) = buf_content b ! i"
  by (simp add: buf_content_def slice_of_def buf_Size_def buf_inv_def)

lemma crlf_scan_line:
  assumes "buf_inv b" and "buf_content b = xs @ CR # LF # rest" and "CR \<notin> set xs"
  shows "crlf_scan b (buf_Size b) 0 = Ret (Some (length xs))"
proof (rule crlf_scan_found)
  have size: "buf_Size b = length xs + Suc (Suc (length rest))"
    using length_buf_content [OF assms(1)] assms(2) by simp
  then show "length xs < 0 + buf_Size b" by simp
  show "bdata b ! (readCursor b + length xs) = CR" and "bdata b ! (readCursor b + length xs + 1) = LF"
    using content_nth [OF assms(1), of "length xs"] content_nth [OF assms(1), of "length xs + 1"] size assms(2)
    by (simp_all add: nth_append)
  show "readCursor b + length xs + 1 < length (bdata b)"
    using size assms(1) unfolding buf_Size_def buf_inv_def by linarith
  show "bdata b ! (readCursor b + j) \<noteq> CR" if "j < length xs" for j
  proof -
    have "bdata b ! (readCursor b + j) = xs ! j"
      using content_nth [OF assms(1), of j] size that assms(2) by (simp add: nth_append)
    then show ?thesis using nth_mem [OF that] assms(3) by auto
  qed
qed simp

lemma buf_read_prefix:
  assumes "buf_inv b" and "buf_content b = xs @ ys"
  shows "buf_read (length xs) b = xs"
proof -
  have "length xs \<le> buf_Size b" using length_buf_content [OF assms(1)] assms(2) by simp
  then have "buf_read (length xs) b = take (length xs) (buf_content b)"
    by (simp add: buf_read_def buf_content_def slice_of_def buf_Size_def take_take)
  then show ?thesis using assms(2) by simp
qed

lemma c_str_id: "0 \<notin> set s \<Longrightarrow> c_str s = s"
  unfolding c_str_def by (rule takeWhile_eq_all_conv [THEN iffD2]) auto

text \<open>The parameter text after \<open>curl_easy_unescape\<close>.\<close>

definition unescapes :: "(bytes \<Rightarrow> bytes option) \<Rightarrow> bytes option \<Rightarrow> bytes \<Rightarrow> bool" where
  "unescapes unescape param plain \<longleftrightarrow>
     (case param of None \<Rightarrow> plain = [] | Some p \<Rightarrow> 0 \<notin> set p \<and> 0 \<notin> set plain \<and> unescape p = Some plain)"

lemma http_OnRecvMsg_line:
  assumes "buf_inv b" and "buf_content b = line @ CR # LF # rest" and "CR \<notin> set line"
    and line: "request_line (line @ [CR]) = (path, param)" and "unescapes unescape param plain"
  shows "http_OnRecvMsg unescape created fresh l b m =
    bind_outcome (http_Dispatcher_OnRecvMsg created fresh l path (new_Request plain) m) (\<lambda>m. Ret (m\<lparr>hs_closed := hs_closed m @ [l]\<rparr>))"
proof -
  have "buf_content b = (line @ [CR]) @ LF # rest" using assms(2) by simp
  from buf_read_prefix [OF assms(1) this] have read: "buf_read (length line + 1) b = line @ [CR]" by simp
  have param: "(case param of None \<Rightarrow> Ret []
      | Some text \<Rightarrow> (case unescape (c_str text) of None \<Rightarrow> Undef | Some plain_text \<Rightarrow> Ret (c_str plain_text))) = Ret plain"
    using assms(5) by (auto simp: unescapes_def c_str_id split: option.splits)
  show ?thesis unfolding http_OnRecvMsg_def crlf_scan_line [OF assms(1-3)] bind_outcome.simps option.case read line
    prod.case param ..
qed

lemma http_OnRecvMsg_head:
  assumes "buf_inv b" and "buf_content b = request_head mth path param version @ CR # LF # rest"
    and "head_ok mth path param version" and "unescapes unescape param plain"
  shows "http_OnRecvMsg unescape created fresh l b m =
    bind_outcome (http_Dispatcher_OnRecvMsg created fresh l path (new_Request plain) m) (\<lambda>m. Ret (m\<lparr>hs_closed := hs_closed m @ [l]\<rparr>))"
  using assms(1, 2) _ request_line_head [OF assms(3)] assms(4)
  by (rule http_OnRecvMsg_line) (use assms(3) in \<open>simp add: head_ok_def\<close>)

lemma http_Send_Ret:
  assumes "buf_aligned b" and "buf_content b = []" and "GetErrorStr (error_code res) (hs_errors m) = (err, errors)"
    and "length (response_text err res) \<le> buf_Capacity b"
  shows "http_Send (Some b) l res m =
    Ret (int (length (response_text err res)), m\<lparr>hs_errors := errors, hs_sent := hs_sent m @ [(l, response_text err res)]\<rparr>)"
proof -
  obtain b' where "buf_Append (response_text err res) b = Ret b'" "buf_content b' = response_text err res"
    using buf_Append_aligned [of b "response_text err res"] assms by auto
  then show ?thesis using assms(3) by (simp add: http_Send_def Let_def)
qed

text \<open>C27: a complete request line for a registered path reaches the handler of that path with the unescaped parameters;
  its response goes out as the status line, an empty line and the text, and the link is closed.\<close>

theorem http_request_answered:
  assumes "buf_inv b" and "buf_content b = request_head mth path param version @ CR # LF # rest"
    and "head_ok mth path param version" and "unescapes unescape param plain"
    and "hs_table m path = Some hf" and "GetHandler fresh (ht_factory hf) (Some Map.empty) 0 = (Some h, factory, c)"
    and "ht_function hf h (new_Request plain) (hs_world m) = (w, [res])"
    and "GetErrorStr (error_code res) (hs_errors m) = (err, errors)"
    and "buf_aligned out" and "buf_content out = []" and "length (response_text err res) \<le> buf_Capacity out"
  shows "\<exists>m'. http_OnRecvMsg unescape (Some out) fresh l b m = Ret m' \<and> hs_world m' = w
    \<and> hs_sent m' = hs_sent m @ [(l, response_text err res)] \<and> hs_closed m' = hs_closed m @ [l]"
proof -
  let ?m = "m\<lparr>hs_table := (hs_table m)(path := Some (hf\<lparr>ht_factory := factory\<rparr>)), hs_world := w\<rparr>"
  have "http_Send (Some out) l res ?m =
    Ret (int (length (response_text err res)), ?m\<lparr>hs_errors := errors, hs_sent := hs_sent m @ [(l, response_text err res)]\<rparr>)"
    using http_Send_Ret [of out res ?m err errors l] assms(8-11) by simp
  then show ?thesis unfolding http_OnRecvMsg_head [OF assms(1-4)] http_Dispatcher_OnRecvMsg_def
    using assms(5-7) by simp
qed

text \<open>A path without a handler gets the 404 response.\<close>

lemma http_unknown_path:
  assumes "buf_inv b" and "buf_content b = line @ CR # LF # rest" and "CR \<notin> set line"
    and "request_line (line @ [CR]) = (path, param)" and "unescapes unescape param plain"
    and "hs_table m path = None" and "GetErrorStr 404 (hs_errors m) = (err, errors)"
    and "buf_aligned out" and "buf_content out = []" and "length (response_text err not_found) \<le> buf_Capacity out"
  shows "http_OnRecvMsg unescape (Some out) fresh l b m =
    Ret (m\<lparr>hs_errors := errors, hs_sent := hs_sent m @ [(l, response_text err not_found)], hs_closed := hs_closed m @ [l]\<rparr>)"
proof -
  have "error_code not_found = 404" by (simp add: not_found_def)
  then show ?thesis using http_Send_Ret [of out not_found m err errors l] assms(6-10)
    unfolding http_OnRecvMsg_line [OF assms(1-5)] http_Dispatcher_OnRecvMsg_def by simp
qed

text \<open>A request line that arrives in two reads: the first is forgotten, and the second is taken for a request line of
  its own, whose path starts behind the slash of \<^verbatim>\<open>HTTP/1.1\<close>.\<close>

lemma request_line_no_space:
  assumes "SLASH \<notin> set pre" and "LF \<notin> set pre" and "QUERY \<notin> set tl'" and "SPACE \<notin> set tl'" and "LF \<notin> set tl'"
  shows "request_line (pre @ SLASH # tl') = (tl', None)"
  using assms by (simp add: request_line_def Let_def)

definition http_1_1 :: bytes where
  "http_1_1 = string_bytes ''1.1''"

definition http_name :: bytes where
  "http_name = string_bytes '' HTTP''"

lemma http_OnRecvMsg_no_CR:
  assumes "buf_inv b" and "CR \<notin> set (buf_content b)"
  shows "http_OnRecvMsg unescape created fresh l b m = Ret m"
proof -
  have "bdata b ! (readCursor b + 0 + j) \<noteq> CR" if "j < buf_Size b" for j
    using content_nth [OF assms(1) that] nth_mem length_buf_content [OF assms(1)] that assms(2) by (metis add.right_neutral)
  then have "crlf_scan b (buf_Size b) 0 = Ret None" by (intro crlf_scan_none allI impI)
  then show ?thesis by (simp add: http_OnRecvMsg_def)
qed

text \<open>A request line split over two reads behind its slash is answered with 404 whatever is registered for its
  path, and no handler runs.\<close>

theorem split_request_line_answered_404:
  assumes "buf_aligned b" and "buf_content b = []" and "CR \<notin> set c" and "length c \<le> buf_Capacity b"
    and "SLASH \<notin> set p" and "LF \<notin> set p" and "CR \<notin> set p"
    and "length (p @ http_name @ SLASH # http_1_1 @ [CR, LF]) \<le> buf_Capacity b"
    and "hs_table m (http_1_1 @ [CR]) = None" and "l \<notin> set (hs_closed m)" and "GetErrorStr 404 (hs_errors m) = (err, errors)"
    and "buf_aligned out" and "buf_content out = []" and "length (response_text err not_found) \<le> buf_Capacity out"
  shows "\<exists>b' m'. http_receive unescape (Some out) fresh l [c, p @ http_name @ SLASH # http_1_1 @ [CR, LF]] b m = Ret (b', m')
    \<and> hs_world m' = hs_world m \<and> hs_sent m' = hs_sent m @ [(l, response_text err not_found)] \<and> hs_closed m' = hs_closed m @ [l]"
proof -
  let ?c = "p @ http_name @ SLASH # http_1_1 @ [CR, LF]" and ?line = "(p @ http_name) @ SLASH # http_1_1"
  obtain b1 where b1: "buf_Append c b = Ret b1" "buf_aligned b1" "buf_content b1 = c" "buf_Capacity b1 = buf_Capacity b"
    using buf_Append_aligned [OF assms(1), of c] assms(2, 4) by auto
  then have inv1: "buf_inv b1" by (simp add: buf_aligned_def)
  have "buf_Capacity (buf_Clear b1) = buf_Capacity b" using b1(4) by (simp add: buf_Capacity_def buf_Clear_def)
  then obtain b2 where b2: "buf_Append ?c (buf_Clear b1) = Ret b2" "buf_aligned b2" "buf_content b2 = ?c"
    using buf_Append_aligned [of "buf_Clear b1" ?c] inv1 assms(8) by auto
  have first: "http_OnRecvMsg unescape (Some out) fresh l b1 m = Ret m"
    using b1(3) assms(3) inv1 by (intro http_OnRecvMsg_no_CR) simp_all
  have "http_OnRecvMsg unescape (Some out) fresh l b2 m =
    Ret (m\<lparr>hs_errors := errors, hs_sent := hs_sent m @ [(l, response_text err not_found)], hs_closed := hs_closed m @ [l]\<rparr>)"
  proof (rule http_unknown_path)
    show "buf_inv b2" using b2(2) by (simp add: buf_aligned_def)
    show "buf_content b2 = ?line @ CR # LF # []" using b2(3) by simp
    show "CR \<notin> set ?line" using assms(7) by (simp add: http_name_def http_1_1_def string_bytes_def)
    have "request_line ((p @ http_name) @ SLASH # (http_1_1 @ [CR])) = (http_1_1 @ [CR], None)"
      using assms(5, 6) by (intro request_line_no_space) (auto simp: http_name_def http_1_1_def string_bytes_def)
    then show "request_line (?line @ [CR]) = (http_1_1 @ [CR], None)" by simp
    show "unescapes unescape None []" by (simp add: unescapes_def)
  qed (use assms in simp_all)
  then show ?thesis using b1(1) b2(1) first assms(10) by simp
qed

text \<open>A read that fills the buffer and ends with a carriage return makes the search read behind the array.\<close>

lemma http_scan_reads_past_the_array:
  assumes "buf_inv b" and "buf_content b = xs @ [CR]" and "CR \<notin> set xs" and "writeCursor b = bufSize b"
  shows "http_OnRecvMsg unescape created fresh l b m = Undef"
proof -
  have size: "buf_Size b = length xs + 1" using length_buf_content [OF assms(1)] assms(2) by simp
  have full: "length (bdata b) \<le> readCursor b + length xs + 1"
    using size assms(1, 4) unfolding buf_Size_def buf_inv_def by linarith
  have "crlf_scan b n i = Undef" if "i + n = length xs + 1" and "0 < n" for n i
    using that
  proof (induction n arbitrary: i)
    case (Suc n)
    have cr: "bdata b ! (readCursor b + i) = (xs @ [CR]) ! i"
      using content_nth [OF assms(1), of i] assms(2) size Suc.prems by simp
    show ?case
    proof (cases n)
      case 0
      then show ?thesis using cr full Suc.prems by (simp add: nth_append)
    next
      case (Suc k)
      with Suc.prems have "i < length xs" by simp
      then have "bdata b ! (readCursor b + i) \<noteq> CR" using cr assms(3) nth_mem by (metis nth_append)
      then show ?thesis using Suc.IH [of "i + 1"] Suc.prems Suc by simp
    qed
  qed simp
  from this [of 0 "length xs + 1"] have "crlf_scan b (buf_Size b) 0 = Undef"
    using size by (simp del: crlf_scan.simps)
  then show ?thesis by (simp add: http_OnRecvMsg_def)
qed

section \<open>Witnesses\<close>

definition received :: "bytes \<Rightarrow> buffer" where
  "received bs = \<lparr>writeCursor = length bs, readCursor = 0, bufSize = length bs, bdata = bs\<rparr>"

lemma received_inv: "buf_inv (received bs)"
  and received_content: "buf_content (received bs) = bs"
  by (simp_all add: received_def buf_inv_def buf_content_def slice_of_def)

definition demo_server :: "(nat, nat) http_server" where
  "demo_server = \<lparr>hs_table = [string_bytes ''hello'' \<mapsto>
       \<lparr>ht_factory = HandlerStatic 7, ht_function = (\<lambda>h req w. (w + h, [\<lparr>error_code = 200, context_text = string_bytes ''hi''\<rparr>]))\<rparr>],
     hs_errors = InitErrorCode, hs_sent = [], hs_closed = [], hs_world = 0\<rparr>"

theorem http_request_answered_witness:
  "\<exists>m'. http_OnRecvMsg Some (Some (new_buffer 100)) 0 5
       (received (string_bytes ''GET /hello?id=7 HTTP/1.1'' @ [CR, LF])) demo_server = Ret m' \<and> hs_world m' = 7
     \<and> hs_sent m' = [(5, string_bytes ''HTTP/1.1 200 OK'' @ [CR, LF, CR, LF] @ string_bytes ''hi'' @ [CR, LF, CR, LF])]
     \<and> hs_closed m' = [5]"
proof -
  let ?param = "Some (string_bytes ''id=7'')" and ?res = "\<lparr>error_code = 200, context_text = string_bytes ''hi''\<rparr>"
  let ?head = "request_head (string_bytes ''GET '') (string_bytes ''hello'') ?param (string_bytes ''HTTP/1.1'')"
  have head: "string_bytes ''GET /hello?id=7 HTTP/1.1'' @ [CR, LF] = ?head @ CR # LF # []"
    by (simp add: request_head_def string_bytes_def)
  have content: "buf_content (received (string_bytes ''GET /hello?id=7 HTTP/1.1'' @ [CR, LF])) = ?head @ CR # LF # []"
    unfolding received_content by (rule head)
  have ok: "head_ok (string_bytes ''GET '') (string_bytes ''hello'') ?param (string_bytes ''HTTP/1.1'')"
    by (simp add: head_ok_def request_head_def string_bytes_def)
  have unescape: "unescapes Some ?param (string_bytes ''id=7'')" by (simp add: unescapes_def string_bytes_def)
  have answer: "response_text ''OK'' ?res =
    string_bytes ''HTTP/1.1 200 OK'' @ [CR, LF, CR, LF] @ string_bytes ''hi'' @ [CR, LF, CR, LF]"
    by (simp add: response_text_def string_bytes_def dec_int_def dec_digits.simps)
  show ?thesis
    using http_request_answered [OF received_inv content ok unescape, of demo_server _ 0 7 _ _ 7 ?res "''OK''" InitErrorCode "new_buffer 100" 5]
    by (simp add: demo_server_def answer GetErrorStr_def InitErrorCode_def std_find_def buf_Capacity_def) 
      (simp add: new_buffer_def string_bytes_def)
qed

theorem split_request_line_answered_404_witness:
  "\<exists>b' m'. http_receive Some (Some (new_buffer 100)) 0 5
       [string_bytes ''GET /he'', string_bytes ''llo HTTP/1.1'' @ [CR, LF]] (new_buffer 100) demo_server = Ret (b', m')
     \<and> hs_world m' = 0 \<and> map fst (hs_sent m') = [5] \<and> hs_closed m' = [5]"
proof -
  have text2: "string_bytes ''llo HTTP/1.1'' @ [CR, LF] = string_bytes ''llo'' @ http_name @ SLASH # http_1_1 @ [CR, LF]"
    by (simp add: http_name_def http_1_1_def string_bytes_def)
  have "\<exists>b' m'. http_receive Some (Some (new_buffer 100)) 0 5
       [string_bytes ''GET /he'', string_bytes ''llo'' @ http_name @ SLASH # http_1_1 @ [CR, LF]] (new_buffer 100) demo_server = Ret (b', m')
     \<and> hs_world m' = hs_world demo_server \<and> hs_sent m' = hs_sent demo_server @ [(5, response_text ''Not Found'' not_found)]
     \<and> hs_closed m' = hs_closed demo_server @ [5]"
    by (rule split_request_line_answered_404 [where errors = InitErrorCode])
      (simp_all add: demo_server_def string_bytes_def http_name_def http_1_1_def buf_Capacity_def GetErrorStr_def InitErrorCode_def
        std_find_def response_text_def not_found_def dec_int_def dec_digits.simps, simp_all add: new_buffer_def)
  then show ?thesis unfolding text2 by (auto simp: demo_server_def)
qed

end
