(* ===== verification/Http_Client.thy ===== *)
theory Http_Client
  imports Std_Map "HOL-Library.List_Lexorder"
begin

text \<open>
  \<^verbatim>\<open>Gamnet/Network/Http/HttpClient.cpp\<close> and \<^verbatim>\<open>HttpClient.h\<close>: requests over a curl handle. The curl library is a
  parameter, the record \<open>curl\<close>: what \<open>curl_easy_setopt\<close> returns for an option, what \<open>curl_easy_perform\<close> does under
  the options set so far (its result and the calls of the write function it makes) and what \<open>curl_easy_getinfo\<close>
  reports. The options of a handle stay set until they are set again, so the handle is the list of the options
  set. The loop of \<open>HttpRequest\<close> need not end: \<open>None\<close> is a call that does not return.
\<close>

section \<open>The curl interface\<close>

datatype curl_option =
    HTTPHEADER "bytes list" | CONNECTTIMEOUT int | NOSIGNAL int | URL bytes | WRITEDATA | WRITEFUNCTION
  | FOLLOWLOCATION int | POSTFIELDS bytes | POSTFIELDSIZE nat | CUSTOMREQUEST bytes | SSL_VERIFYPEER bool

text \<open>A call of the write function: the number of bytes it is given, and the memory from its pointer on.\<close>

record curl_write =
  cw_size :: nat
  cw_memory :: bytes

record 'w curl =
  curl_setopt :: "curl_option \<Rightarrow> 'w \<Rightarrow> int \<times> 'w"
  curl_perform :: "curl_option list \<Rightarrow> 'w \<Rightarrow> int \<times> curl_write list \<times> 'w"
  curl_getinfo :: "'w \<Rightarrow> int \<times> int \<times> 'w"

definition CURLE_OK :: int where "CURLE_OK = 0"

record http_client =
  host :: bytes
  mapHeader :: "(bytes, bytes) std_map"
  resData :: bytes
  curl_handle :: "curl_option list option"

text \<open>The constructor; \<open>handle\<close> tells whether \<open>curl_easy_init\<close> returned one.\<close>

definition new_HttpClient :: "bool \<Rightarrow> bytes \<Rightarrow> http_client" where
  "new_HttpClient handle h = \<lparr>host = h, mapHeader = [], resData = [], curl_handle = (if handle then Some [] else None)\<rparr>"

definition SetHeader :: "bytes \<Rightarrow> bytes \<Rightarrow> http_client \<Rightarrow> http_client" where
  "SetHeader name value c = c\<lparr>mapHeader := std_put name value (mapHeader c)\<rparr>"

text \<open>An option is kept by the handle when setting it succeeds.\<close>

definition client_setopt :: "'w curl \<Rightarrow> curl_option \<Rightarrow> http_client \<Rightarrow> 'w \<Rightarrow> int \<times> http_client \<times> 'w" where
  "client_setopt curl opt c w =
     (case curl_setopt curl opt w of (code, w) \<Rightarrow>
        (code, if code = CURLE_OK then c\<lparr>curl_handle := map_option (\<lambda>os. os @ [opt]) (curl_handle c)\<rparr> else c, w))"

text \<open>\<open>Callback\<close>: \<open>resData_ += (const char*)ptr\<close> appends up to the first zero byte behind the pointer, whatever the
  size is.\<close>

definition client_Callback :: "curl_write \<Rightarrow> http_client \<Rightarrow> (nat \<times> http_client) outcome" where
  "client_Callback wr c =
     (if 0 \<in> set (cw_memory wr)
      then Ret (cw_size wr, c\<lparr>resData := resData c @ takeWhile (\<lambda>x. x \<noteq> 0) (cw_memory wr)\<rparr>) else Undef)"

fun client_writes :: "curl_write list \<Rightarrow> http_client \<Rightarrow> http_client outcome" where
  "client_writes [] c = Ret c"
| "client_writes (wr # ws) c = bind_outcome (client_Callback wr c) (\<lambda>(_, c). client_writes ws c)"

section \<open>HttpRequest\<close>

definition header_lines :: "http_client \<Rightarrow> bytes list" where
  "header_lines c = map (\<lambda>(name, value). name @ string_bytes '': '' @ value) (mapHeader c)"

definition request_url :: "bytes \<Rightarrow> http_client \<Rightarrow> bytes" where
  "request_url path c = host c @ (if path \<noteq> [] then string_bytes ''/'' @ path else [])"

text \<open>The options in the order they are set, each with the code of the exception when it fails (\<open>None\<close> for the code
  that curl returned).\<close>

definition request_options :: "bytes \<Rightarrow> http_client \<Rightarrow> (curl_option \<times> int option) list" where
  "request_options path c =
     [(HTTPHEADER (header_lines c), None), (CONNECTTIMEOUT 5, Some 500), (NOSIGNAL 1, Some 500),
      (URL (request_url path c), Some 500), (WRITEDATA, Some 500), (WRITEFUNCTION, Some 500)]"

fun set_options :: "'w curl \<Rightarrow> (curl_option \<times> int option) list \<Rightarrow> http_client \<Rightarrow> 'w \<Rightarrow> int option \<times> http_client \<times> 'w" where
  "set_options curl [] c w = (None, c, w)"
| "set_options curl ((opt, e) # os) c w =
     (case client_setopt curl opt c w of (code, c, w) \<Rightarrow>
        if code \<noteq> CURLE_OK then (Some (case e of None \<Rightarrow> code | Some k \<Rightarrow> k), c, w) else set_options curl os c w)"

text \<open>\<open>while(true)\<close>: perform, and again for a 3xx answer. The result is the http code, or the code of the exception,
  which the code treats alike.\<close>

partial_function (option) perform_loop ::
  "'w curl \<Rightarrow> http_client \<Rightarrow> 'w \<Rightarrow> (int \<times> http_client \<times> 'w) outcome option" where
  "perform_loop curl c w =
     (let (code, writes, w) = curl_perform curl (the (curl_handle c)) w in
      case client_writes writes c of
        Ret c \<Rightarrow>
          if code \<noteq> CURLE_OK then Some (Ret (500, c, w))
          else (let (code, httpCode, w) = curl_getinfo curl w in
            if code \<noteq> CURLE_OK then Some (Ret (500, c, w))
            else if httpCode div 100 = 3
              then (let (_, c, w) = client_setopt curl (FOLLOWLOCATION 1) c w in perform_loop curl c w)
            else Some (Ret (httpCode, c, w)))
      | Throw e \<Rightarrow> Some (Throw e)
      | Undef \<Rightarrow> Some Undef)"

lemmas perform_loop_induct = perform_loop.raw_induct [rotated, consumes 1, case_names step]

definition HttpRequest :: "'w curl \<Rightarrow> bytes \<Rightarrow> http_client \<Rightarrow> 'w \<Rightarrow> (int \<times> http_client \<times> 'w) outcome option" where
  "HttpRequest curl path c w =
     (if curl_handle c = None then Some (Ret (500, c, w))
      else case set_options curl (request_options path c) c w of
        (Some e, c, w) \<Rightarrow> Some (Ret (e, c, w))
      | (None, c, w) \<Rightarrow> perform_loop curl c w)"

section \<open>The requests\<close>

text \<open>A C string argument; \<open>None\<close> is the null pointer, and both it and the empty string are skipped.\<close>

definition given :: "bytes option \<Rightarrow> bool" where
  "given s \<longleftrightarrow> s \<noteq> None \<and> 0 < length (the s)"

type_synonym 'w response_callback = "int \<Rightarrow> bytes \<Rightarrow> 'w \<Rightarrow> 'w"

text \<open>The end that all four share: perform the request and pass its code and \<open>resData_\<close> on.\<close>

definition finish_request ::
  "'w curl \<Rightarrow> bytes \<Rightarrow> 'w response_callback \<Rightarrow> http_client \<Rightarrow> 'w \<Rightarrow> (bool \<times> http_client \<times> 'w) outcome option" where
  "finish_request curl path callback c w =
     (case HttpRequest curl path c w of
        None \<Rightarrow> None
      | Some (Ret (httpCode, c, w)) \<Rightarrow> Some (Ret (True, c, callback httpCode (resData c) w))
      | Some (Throw e) \<Rightarrow> Some (Ret (False, c, w))
      | Some Undef \<Rightarrow> Some Undef)"

text \<open>Path and parameters of a \<open>Get\<close>.\<close>

definition get_target :: "bytes option \<Rightarrow> bytes option \<Rightarrow> bytes" where
  "get_target path param =
     (let path_param = (if given path then the path else [])
      in if given param then path_param @ string_bytes ''?'' @ the param else path_param)"

definition client_Get ::
  "'w curl \<Rightarrow> bytes option \<Rightarrow> bytes option \<Rightarrow> 'w response_callback \<Rightarrow> http_client \<Rightarrow> 'w
     \<Rightarrow> (bool \<times> http_client \<times> 'w) outcome option" where
  "client_Get curl path param callback c w =
     (if curl_handle c = None then Some (Ret (False, c, w))
      else finish_request curl (get_target path param) callback c w)"

definition client_Post ::
  "'w curl \<Rightarrow> bytes option \<Rightarrow> bytes option \<Rightarrow> 'w response_callback \<Rightarrow> http_client \<Rightarrow> 'w
     \<Rightarrow> (bool \<times> http_client \<times> 'w) outcome option" where
  "client_Post curl path param callback c w =
     (if curl_handle c = None then Some (Ret (False, c, w))
      else case (if given param then client_setopt curl (POSTFIELDS (the param)) c w else (CURLE_OK, c, w)) of (code, c, w) \<Rightarrow>
        if code \<noteq> CURLE_OK then Some (Ret (False, c, w))
        else (case client_setopt curl (POSTFIELDSIZE (if given param then length (the param) else 0)) c w of (code, c, w) \<Rightarrow>
          if code \<noteq> CURLE_OK then Some (Ret (False, c, w))
          else finish_request curl (if given path then the path else []) callback c w))"

text \<open>\<open>Put\<close> and \<open>Delete\<close> differ in the method only, and do not look at the result of setting it.\<close>

definition client_custom ::
  "bytes \<Rightarrow> 'w curl \<Rightarrow> bytes option \<Rightarrow> bytes option \<Rightarrow> 'w response_callback \<Rightarrow> http_client \<Rightarrow> 'w
     \<Rightarrow> (bool \<times> http_client \<times> 'w) outcome option" where
  "client_custom mth curl path param callback c w =
     (if curl_handle c = None then Some (Ret (False, c, w))
      else case (if given param then client_setopt curl (POSTFIELDS (the param)) c w else (CURLE_OK, c, w)) of (code, c, w) \<Rightarrow>
        if code \<noteq> CURLE_OK then Some (Ret (False, c, w))
        else (case client_setopt curl (CUSTOMREQUEST mth) c w of (_, c, w) \<Rightarrow>
          finish_request curl (if given path then the path else []) callback c w))"

definition client_Put ::
  "'w curl \<Rightarrow> bytes option \<Rightarrow> bytes option \<Rightarrow> 'w response_callback \<Rightarrow> http_client \<Rightarrow> 'w
     \<Rightarrow> (bool \<times> http_client \<times> 'w) outcome option" where
  "client_Put = client_custom (string_bytes ''PUT'')"

definition client_Delete ::
  "'w curl \<Rightarrow> bytes option \<Rightarrow> bytes option \<Rightarrow> 'w response_callback \<Rightarrow> http_client \<Rightarrow> 'w
     \<Rightarrow> (bool \<times> http_client \<times> 'w) outcome option" where
  "client_Delete = client_custom (string_bytes ''DELETE'')"

definition UseSSLVerifier :: "'w curl \<Rightarrow> bool \<Rightarrow> http_client \<Rightarrow> 'w \<Rightarrow> (http_client \<times> 'w) outcome" where
  "UseSSLVerifier curl use c w =
     (case client_setopt curl (SSL_VERIFYPEER use) c w of (code, c, w) \<Rightarrow> if code \<noteq> CURLE_OK then Throw 500 else Ret (c, w))"

section \<open>Answers\<close>

definition write_text :: "curl_write \<Rightarrow> bytes" where
  "write_text wr = takeWhile (\<lambda>x. x \<noteq> 0) (cw_memory wr)"

definition terminated :: "curl_write list \<Rightarrow> bool" where
  "terminated ws \<longleftrightarrow> (\<forall>wr\<in>set ws. 0 \<in> set (cw_memory wr))"

lemma client_writes_text:
  "terminated ws \<Longrightarrow> client_writes ws c = Ret (c\<lparr>resData := resData c @ concat (map write_text ws)\<rparr>)"
proof (induction ws arbitrary: c)
  case (Cons wr ws)
  then have "0 \<in> set (cw_memory wr)" and "terminated ws" by (simp_all add: terminated_def)
  then show ?case using Cons.IH by (simp add: client_Callback_def write_text_def)
qed simp

text \<open>A curl that accepts every option.\<close>

definition accepting :: "'w curl \<Rightarrow> bool" where
  "accepting curl \<longleftrightarrow> (\<forall>opt w. curl_setopt curl opt w = (CURLE_OK, w))"

text \<open>The server answers from state \<open>w\<close>: after any redirections the last answer has the given code; the texts of all of
  them are passed to the write function.\<close>

inductive served :: "'w curl \<Rightarrow> 'w \<Rightarrow> bytes \<Rightarrow> int \<Rightarrow> 'w \<Rightarrow> bool" for curl :: "'w curl" where
  answer: "\<lbrakk>\<And>os. curl_perform curl os w = (CURLE_OK, ws, w1); terminated ws;
    curl_getinfo curl w1 = (CURLE_OK, code, w2); code div 100 \<noteq> 3\<rbrakk>
    \<Longrightarrow> served curl w (concat (map write_text ws)) code w2"
| redirect: "\<lbrakk>\<And>os. curl_perform curl os w = (CURLE_OK, ws, w1); terminated ws;
    curl_getinfo curl w1 = (CURLE_OK, code', w2); code' div 100 = 3; served curl w2 body code w3\<rbrakk>
    \<Longrightarrow> served curl w (concat (map write_text ws) @ body) code w3"

text \<open>What a call leaves of the client when it returns \<open>body\<close>: the text is appended, the handle has more options.\<close>

definition received_by :: "bytes \<Rightarrow> http_client \<Rightarrow> http_client \<Rightarrow> bool" where
  "received_by body c c' \<longleftrightarrow> resData c' = resData c @ body \<and> host c' = host c \<and> mapHeader c' = mapHeader c
     \<and> (\<exists>os. curl_handle c' = map_option (\<lambda>old. old @ os) (curl_handle c))"

lemma client_setopt_accepting:
  "accepting curl \<Longrightarrow> client_setopt curl opt c w = (CURLE_OK, c\<lparr>curl_handle := map_option (\<lambda>os. os @ [opt]) (curl_handle c)\<rparr>, w)"
  by (simp add: client_setopt_def accepting_def)

lemma set_options_accepting:
  "accepting curl \<Longrightarrow> set_options curl os c w = (None, c\<lparr>curl_handle := map_option (\<lambda>old. old @ map fst os) (curl_handle c)\<rparr>, w)"
proof (induction os arbitrary: c)
  case Nil
  then show ?case by (cases "curl_handle c") simp_all
next
  case (Cons o' os)
  then show ?case by (cases o') (simp add: client_setopt_accepting option.map_comp comp_def)
qed

lemma perform_loop_served:
  assumes "accepting curl" and "served curl w body code w'"
  shows "\<exists>c'. perform_loop curl c w = Some (Ret (code, c', w')) \<and> received_by body c c'"
  using assms(2)
proof (induction arbitrary: c rule: served.induct)
  case (answer w ws w1 code w2)
  let ?c = "c\<lparr>resData := resData c @ concat (map write_text ws)\<rparr>"
  have "perform_loop curl c w = Some (Ret (code, ?c, w2))"
    using answer by (subst perform_loop.simps) (simp add: client_writes_text)
  moreover have "received_by (concat (map write_text ws)) c ?c"
    by (auto simp: received_by_def option.map_ident intro: exI [of _ "[]"])
  ultimately show ?case by blast
next
  case (redirect w ws w1 code' w2 body code w3)
  let ?c = "c\<lparr>resData := resData c @ concat (map write_text ws), curl_handle := map_option (\<lambda>os. os @ [FOLLOWLOCATION 1]) (curl_handle c)\<rparr>"
  have "perform_loop curl c w = perform_loop curl ?c w2"
    using redirect.hyps assms(1) by (subst perform_loop.simps) (simp add: client_writes_text client_setopt_accepting)
  moreover obtain c' where "perform_loop curl ?c w2 = Some (Ret (code, c', w3))" and c': "received_by body ?c c'"
    using redirect.IH by blast
  moreover have "received_by (concat (map write_text ws) @ body) c c'"
    using c' by (auto simp: received_by_def option.map_comp comp_def)
  ultimately show ?case by auto
qed

lemma finish_request_served:
  assumes "accepting curl" and "served curl w body code w'" and "curl_handle c \<noteq> None"
  shows "\<exists>c'. finish_request curl path callback c w = Some (Ret (True, c', callback code (resData c @ body) w')) \<and> received_by body c c'"
proof -
  let ?c = "c\<lparr>curl_handle := map_option (\<lambda>old. old @ map fst (request_options path c)) (curl_handle c)\<rparr>"
  have "HttpRequest curl path c w = perform_loop curl ?c w"
    using assms(3) by (cases "curl_handle c") (simp_all add: HttpRequest_def set_options_accepting [OF assms(1)])
  moreover obtain c' where "perform_loop curl ?c w = Some (Ret (code, c', w'))" and c': "received_by body ?c c'"
    using perform_loop_served [OF assms(1, 2)] by blast
  moreover have "received_by body c c'" using c' by (auto simp: received_by_def option.map_comp comp_def)
  ultimately show ?thesis using c' by (auto simp: finish_request_def received_by_def)
qed

lemma received_by_handle: "received_by body c c' \<Longrightarrow> curl_handle c \<noteq> None \<Longrightarrow> curl_handle c' \<noteq> None"
  by (auto simp: received_by_def)

text \<open>A request returns the text it received, through any number of redirections, but the text of every earlier
  request of the client comes first, because \<open>resData_\<close> is never cleared.\<close>

theorem second_Get_delivers_both_texts:
  assumes "accepting curl" and "curl_handle c \<noteq> None" and "served curl w body code w1"
    and "served curl (callback code (resData c @ body) w1) body' code' w2"
  shows "\<exists>c1 c2. client_Get curl path param callback c w = Some (Ret (True, c1, callback code (resData c @ body) w1))
    \<and> client_Get curl path' param' callback c1 (callback code (resData c @ body) w1)
        = Some (Ret (True, c2, callback code' (resData c @ body @ body') w2))"
proof -
  have get: "client_Get curl path param callback c w = finish_request curl (get_target path param) callback c w"
    if "curl_handle c \<noteq> None" for path param c w
    using that by (auto simp: client_Get_def)
  obtain c1 where first: "client_Get curl path param callback c w = Some (Ret (True, c1, callback code (resData c @ body) w1))"
    and c1: "received_by body c c1"
    using get [OF assms(2)] finish_request_served [OF assms(1, 3, 2)] by metis
  obtain c2 where "client_Get curl path' param' callback c1 (callback code (resData c @ body) w1)
      = Some (Ret (True, c2, callback code' (resData c1 @ body') w2))"
    using get [OF received_by_handle [OF c1 assms(2)]]
      finish_request_served [OF assms(1, 4) received_by_handle [OF c1 assms(2)]] by metis
  with first c1 show ?thesis by (auto simp: received_by_def)
qed

text \<open>A server that always answers with a redirection keeps \<open>Get\<close> from returning.\<close>

theorem redirections_never_return:
  assumes "\<And>os w. curl_perform curl os w = (CURLE_OK, [], w)" and "\<And>w. curl_getinfo curl w = (CURLE_OK, 302, w)"
    and "accepting curl" and "curl_handle c \<noteq> None"
  shows "client_Get curl path param callback c w = None"
proof -
  have "cu \<noteq> curl" if "perform_loop cu c w = Some r" for cu c w r
    using that
  proof (induction rule: perform_loop_induct)
    case (step loop cu c w r)
    note hyp = step.IH and step = step.hyps
    show "cu \<noteq> curl"
    proof
      assume [simp]: "cu = curl"
      from step have "loop curl (c\<lparr>curl_handle := map_option (\<lambda>os. os @ [FOLLOWLOCATION 1]) (curl_handle c)\<rparr>) w = Some r"
        by (simp add: assms(1, 2) client_setopt_accepting [OF assms(3)])
      then have "curl \<noteq> curl" by (rule hyp)
      then show False by simp
    qed
  qed
  then have "perform_loop curl c w = None" for c w by (cases "perform_loop curl c w") auto
  then show ?thesis using assms(4)
    by (auto simp: client_Get_def finish_request_def HttpRequest_def set_options_accepting [OF assms(3)])
qed

section \<open>Options that stay\<close>

text \<open>The methods a client's handle was given, the last one being in force.\<close>

definition custom_requests :: "http_client \<Rightarrow> bytes list" where
  "custom_requests c = (case curl_handle c of None \<Rightarrow> [] | Some os \<Rightarrow> concat (map (\<lambda>opt. case opt of CUSTOMREQUEST m \<Rightarrow> [m] | _ \<Rightarrow> []) os))"

definition sets_no_method :: "curl_option \<Rightarrow> bool" where
  "sets_no_method opt \<longleftrightarrow> (case opt of CUSTOMREQUEST m \<Rightarrow> False | _ \<Rightarrow> True)"

lemma client_setopt_requests:
  "sets_no_method opt \<Longrightarrow> client_setopt curl opt c w = (code, c', w') \<Longrightarrow> custom_requests c' = custom_requests c"
  by (auto simp: client_setopt_def custom_requests_def sets_no_method_def split: prod.splits option.splits curl_option.splits if_splits)

lemma set_options_requests:
  "\<forall>(opt, e)\<in>set os. sets_no_method opt \<Longrightarrow> set_options curl os c w = (r, c', w') \<Longrightarrow> custom_requests c' = custom_requests c"
proof (induction curl os c w rule: set_options.induct)
  case (2 curl opt e os c w)
  obtain code c1 w1 where one: "client_setopt curl opt c w = (code, c1, w1)" by (cases "client_setopt curl opt c w") auto
  have "custom_requests c1 = custom_requests c" using client_setopt_requests [OF _ one] "2.prems"(1) by auto
  with "2.IH" [OF one [symmetric] refl] "2.prems" one show ?case by (auto split: if_splits)
qed simp

lemma client_writes_requests: "client_writes ws c = Ret c' \<Longrightarrow> custom_requests c' = custom_requests c"
proof (induction ws arbitrary: c)
  case (Cons wr ws)
  then obtain n c1 where one: "client_Callback wr c = Ret (n, c1)" and rest: "client_writes ws c1 = Ret c'"
    by (cases "client_Callback wr c") auto
  have "custom_requests c1 = custom_requests c"
    using one by (auto simp: client_Callback_def custom_requests_def split: if_splits)
  with Cons.IH [OF rest] show ?case by simp
qed simp

lemma perform_loop_requests:
  "perform_loop curl c w = Some r \<Longrightarrow> r = Ret (code, c', w') \<Longrightarrow> custom_requests c' = custom_requests c"
proof (induction arbitrary: code c' w' rule: perform_loop_induct)
  case (step loop curl c w r)
  then show ?case
    by (auto simp: sets_no_method_def split: prod.splits outcome.splits if_splits
      dest!: client_writes_requests dest: client_setopt_requests [rotated])
qed

lemma finish_request_requests:
  assumes "finish_request curl path callback c w = Some (Ret (ok, c', w'))"
  shows "custom_requests c' = custom_requests c"
proof (cases "curl_handle c")
  case None
  with assms show ?thesis by (simp add: finish_request_def HttpRequest_def)
next
  case (Some os)
  obtain r c1 w1 where set: "set_options curl (request_options path c) c w = (r, c1, w1)"
    by (cases "set_options curl (request_options path c) c w") auto
  have "\<forall>(opt, e)\<in>set (request_options path c). sets_no_method opt"
    by (simp add: request_options_def sets_no_method_def)
  from set_options_requests [OF this set] have "custom_requests c1 = custom_requests c" .
  with assms Some set show ?thesis
    by (auto simp: finish_request_def HttpRequest_def split: option.splits outcome.splits dest: perform_loop_requests)
qed

text \<open>The method of a \<open>Put\<close> stays set: a \<open>Get\<close> that follows sets no method of its own, so the last method its
  handle was given is still \<^verbatim>\<open>PUT\<close>.\<close>

theorem Put_method_sticks:
  assumes "accepting curl" and "client_Put curl path param callback c w = Some (Ret (True, c1, w1))"
    and "client_Get curl path' param' callback c1 w1 = Some (Ret (ok, c2, w2))"
  shows "custom_requests c2 = custom_requests c1 \<and> custom_requests c2 \<noteq> [] \<and> last (custom_requests c2) = string_bytes ''PUT''"
proof -
  obtain os where os: "curl_handle c = Some os"
    using assms(2) by (cases "curl_handle c") (simp_all add: client_Put_def client_custom_def)
  let ?c = "c\<lparr>curl_handle := Some (os @ (if given param then [POSTFIELDS (the param)] else []) @ [CUSTOMREQUEST (string_bytes ''PUT'')])\<rparr>"
  have "finish_request curl (if given path then the path else []) callback ?c w = Some (Ret (True, c1, w1))"
    using assms(2) os by (simp add: client_Put_def client_custom_def client_setopt_accepting [OF assms(1)] split: if_splits)
  then have "custom_requests c1 = custom_requests ?c" by (rule finish_request_requests)
  then have put: "custom_requests c1 \<noteq> [] \<and> last (custom_requests c1) = string_bytes ''PUT''"
    by (simp add: custom_requests_def)
  have "custom_requests c2 = custom_requests c1"
    using assms(3) finish_request_requests by (auto simp: client_Get_def split: if_splits)
  with put show ?thesis by simp
qed

text \<open>When the transfer fails \<open>Get\<close> still returns true, and its callback gets the code 500 and whatever text the
  client holds.\<close>

theorem failed_Get_reports_success:
  assumes "accepting curl" and "curl_handle c \<noteq> None" and "\<And>os. curl_perform curl os w = (code, ws, w1)"
    and "code \<noteq> CURLE_OK" and "terminated ws"
  shows "\<exists>c'. client_Get curl path param callback c w =
    Some (Ret (True, c', callback 500 (resData c @ concat (map write_text ws)) w1))"
proof -
  let ?path = "get_target path param"
  let ?c = "c\<lparr>curl_handle := map_option (\<lambda>old. old @ map fst (request_options ?path c)) (curl_handle c)\<rparr>"
  have "perform_loop curl ?c w = Some (Ret (500, ?c\<lparr>resData := resData c @ concat (map write_text ws)\<rparr>, w1))"
    using assms(3, 4) by (subst perform_loop.simps) (simp add: client_writes_text [OF assms(5)])
  then show ?thesis using assms(2)
    by (cases "curl_handle c") (simp_all add: client_Get_def finish_request_def HttpRequest_def set_options_accepting [OF assms(1)])
qed

section \<open>Witnesses\<close>

type_synonym calls = "(int \<times> bytes) list"

definition demo_curl :: "int \<Rightarrow> bytes \<Rightarrow> int \<Rightarrow> calls curl" where
  "demo_curl result answer code =
     \<lparr>curl_setopt = (\<lambda>opt w. (CURLE_OK, w)),
      curl_perform = (\<lambda>os w. (result, if answer = [] then [] else [\<lparr>cw_size = length answer, cw_memory = answer @ [0]\<rparr>], w)),
      curl_getinfo = (\<lambda>w. (CURLE_OK, code, w))\<rparr>"

definition log_call :: "calls response_callback" where
  "log_call code body w = w @ [(code, body)]"

lemma demo_accepting: "accepting (demo_curl result answer code)"
  by (simp add: accepting_def demo_curl_def)

lemma demo_served: "code div 100 \<noteq> 3 \<Longrightarrow> served (demo_curl CURLE_OK [104, 105] code) w [104, 105] code w"
  using served.answer [of "demo_curl CURLE_OK [104, 105] code" w "[\<lparr>cw_size = 2, cw_memory = [104, 105, 0]\<rparr>]" w code w]
  by (simp add: demo_curl_def terminated_def write_text_def)

lemma demo_client: "curl_handle (new_HttpClient True h) \<noteq> None" "resData (new_HttpClient True h) = []"
  by (simp_all add: new_HttpClient_def)

theorem second_Get_delivers_both_texts_witness:
  "\<exists>c1 c2. client_Get (demo_curl CURLE_OK [104, 105] 200) None None log_call (new_HttpClient True [97]) []
      = Some (Ret (True, c1, [(200, [104, 105])]))
    \<and> client_Get (demo_curl CURLE_OK [104, 105] 200) None None log_call c1 [(200, [104, 105])]
      = Some (Ret (True, c2, [(200, [104, 105]), (200, [104, 105, 104, 105])]))"
  using second_Get_delivers_both_texts [where path = None and param = None and path' = None and param' = None and callback = log_call
      and w = "[]" and code = 200 and code' = 200, OF demo_accepting demo_client(1) demo_served demo_served]
  by (simp add: demo_client(2) log_call_def)

theorem redirections_never_return_witness:
  "client_Get (demo_curl CURLE_OK [] 302) None None log_call (new_HttpClient True [97]) [] = None"
  by (rule redirections_never_return [OF _ _ demo_accepting demo_client(1)]) (simp_all add: demo_curl_def)

theorem Put_method_sticks_witness:
  "\<exists>c2. last (custom_requests c2) = string_bytes ''PUT''
    \<and> (\<exists>c1 w1 w2. client_Get (demo_curl CURLE_OK [104, 105] 200) None None log_call c1 w1 = Some (Ret (True, c2, w2)))"
proof -
  let ?curl = "demo_curl CURLE_OK [104, 105] 200" and ?put = "CUSTOMREQUEST (string_bytes ''PUT'')"
  let ?c = "(new_HttpClient True [97])\<lparr>curl_handle := Some [?put]\<rparr>"
  have "client_Put ?curl None None log_call (new_HttpClient True [97]) [] = finish_request ?curl [] log_call ?c []"
    by (simp add: client_Put_def client_custom_def given_def new_HttpClient_def client_setopt_accepting [OF demo_accepting] CURLE_OK_def)
  moreover obtain c1 where "finish_request ?curl [] log_call ?c [] = Some (Ret (True, c1, log_call 200 (resData ?c @ [104, 105]) []))"
      and c1: "received_by [104, 105] ?c c1"
    using finish_request_served [OF demo_accepting demo_served [of 200], of ?c "[]" log_call "[]"] by auto
  ultimately have put: "client_Put ?curl None None log_call (new_HttpClient True [97]) [] =
      Some (Ret (True, c1, log_call 200 (resData ?c @ [104, 105]) []))" by simp
  have handle: "curl_handle c1 \<noteq> None" using received_by_handle [OF c1] by simp
  then obtain c2 w2 where get: "client_Get ?curl None None log_call c1 (log_call 200 (resData ?c @ [104, 105]) []) = Some (Ret (True, c2, w2))"
    using finish_request_served [OF demo_accepting demo_served [of 200] handle] by (fastforce simp: client_Get_def)
  from Put_method_sticks [OF demo_accepting put get] get show ?thesis by blast
qed

theorem failed_Get_reports_success_witness:
  "\<exists>c'. client_Get (demo_curl 7 [] 200) None None log_call (new_HttpClient True [97]) [] = Some (Ret (True, c', [(500, [])]))"
proof -
  have "\<exists>c'. client_Get (demo_curl 7 [] 200) None None log_call (new_HttpClient True [97]) [] =
      Some (Ret (True, c', log_call 500 (resData (new_HttpClient True [97]) @ concat (map write_text [])) []))"
    by (rule failed_Get_reports_success [where code = 7, OF demo_accepting demo_client(1)])
      (simp_all add: demo_curl_def CURLE_OK_def terminated_def)
  then show ?thesis by (simp add: log_call_def demo_client(2))
qed

end
