(* ===== verification/Connection_Pool.thy ===== *)
theory Connection_Pool
  imports Object_Pool
begin

text \<open>
  The database connections of \<^verbatim>\<open>Gamnet/Database/ConnectionPool.h\<close>, one object pool for each database, and the
  transaction of \<^verbatim>\<open>Gamnet/Database/MySQL/Transaction.cpp\<close>. A connection is a pointer and the information it was
  connected with; what \<open>Connect\<close> of a connection and the server answer are arguments of the definitions.
\<close>

section \<open>State and operations\<close>

record 'i connection =
  cn_ptr :: nat
  cn_info :: 'i

record 'i conn_pool =
  cp_pools :: "int \<rightharpoonup> 'i connection pool"
  cp_infos :: "int \<rightharpoonup> 'i"

definition new_conn_pool :: "'i conn_pool" where
  "new_conn_pool = \<lparr>cp_pools = Map.empty, cp_infos = Map.empty\<rparr>"

text \<open>What \<open>CONNECTION_T::Connect\<close> does: it throws the code of an \<open>Inl\<close> or returns the value of an \<open>Inr\<close>.\<close>

type_synonym 'i connector = "'i \<Rightarrow> int + bool"

definition ConnectionFactory :: "nat \<Rightarrow> 'i connector \<Rightarrow> int \<Rightarrow> 'i conn_pool \<Rightarrow> 'i connection factory_result" where
  "ConnectionFactory ptr connect db_type cp =
     (case cp_infos cp db_type of
        None \<Rightarrow> FactoryThrows 0
      | Some info \<Rightarrow>
          (case connect info of
             Inl e \<Rightarrow> FactoryThrows e
           | Inr ok \<Rightarrow> if \<not> ok then MadeNull else Made \<lparr>cn_ptr = ptr, cn_info = info\<rparr>))"

text \<open>\<open>Create\<close> of the pool registered for a database.\<close>

definition cp_create ::
  "nat \<Rightarrow> 'i connector \<Rightarrow> int \<Rightarrow> 'i connection pool \<Rightarrow> 'i conn_pool \<Rightarrow> 'i connection option outcome \<times> 'i conn_pool" where
  "cp_create ptr connect db_type p cp =
     (let (r, p) = pool_Create (ConnectionFactory ptr connect db_type cp) p
      in (r, cp\<lparr>cp_pools := (cp_pools cp)(db_type \<mapsto> p)\<rparr>))"

text \<open>The deleter of a connection's \<open>shared_ptr\<close>.\<close>

definition cp_release :: "int \<Rightarrow> 'i connection \<Rightarrow> 'i conn_pool \<Rightarrow> 'i conn_pool" where
  "cp_release db_type c cp = cp\<lparr>cp_pools := (cp_pools cp)(db_type := map_option (pool_Restitute (Some c)) (cp_pools cp db_type))\<rparr>"

definition cp_Connect :: "nat \<Rightarrow> 'i connector \<Rightarrow> int \<Rightarrow> 'i \<Rightarrow> 'i conn_pool \<Rightarrow> bool outcome \<times> 'i conn_pool" where
  "cp_Connect ptr connect db_type connInfo cp =
     (if cp_infos cp db_type \<noteq> None then (Ret False, cp)
      else
        let cp = cp\<lparr>cp_infos := (cp_infos cp)(db_type \<mapsto> connInfo)\<rparr> in
        if cp_pools cp db_type \<noteq> None then (Ret False, cp)
        else
          (case cp_create ptr connect db_type (new_pool 64) cp of
             (Ret None, cp) \<Rightarrow> (Ret False, cp)
           | (Ret (Some conn), cp) \<Rightarrow> (Ret True, cp_release db_type conn cp)
           | (Throw e, cp) \<Rightarrow> (Throw e, cp)
           | (Undef, cp) \<Rightarrow> (Undef, cp)))"

definition cp_GetConnection :: "nat \<Rightarrow> 'i connector \<Rightarrow> int \<Rightarrow> 'i conn_pool \<Rightarrow> 'i connection outcome \<times> 'i conn_pool" where
  "cp_GetConnection ptr connect db_type cp =
     (case cp_pools cp db_type of
        None \<Rightarrow> (Throw 0, cp)
      | Some p \<Rightarrow>
          (case cp_create ptr connect db_type p cp of
             (Ret None, cp) \<Rightarrow> (Throw 0, cp)
           | (Ret (Some conn), cp) \<Rightarrow> (Ret conn, cp)
           | (Throw e, cp) \<Rightarrow> (Throw e, cp)
           | (Undef, cp) \<Rightarrow> (Undef, cp)))"

text \<open>\<open>Execute\<close>: a result set keeps its connection; an exception of the query gives the connection back. \<open>answer\<close> is
  what the connection's \<open>Execute\<close> does.\<close>

definition cp_Execute ::
  "nat \<Rightarrow> 'i connector \<Rightarrow> ('i connection \<Rightarrow> string \<Rightarrow> 'r outcome) \<Rightarrow> int \<Rightarrow> string \<Rightarrow> 'i conn_pool \<Rightarrow>
   ('i connection \<times> 'r) outcome \<times> 'i conn_pool" where
  "cp_Execute ptr connect answer db_type query cp =
     (case cp_GetConnection ptr connect db_type cp of
        (Ret conn, cp) \<Rightarrow>
          (case answer conn query of
             Ret res \<Rightarrow> (Ret (conn, res), cp)
           | Throw e \<Rightarrow> (Throw e, cp_release db_type conn cp)
           | Undef \<Rightarrow> (Undef, cp))
      | (Throw e, cp) \<Rightarrow> (Throw e, cp)
      | (Undef, cp) \<Rightarrow> (Undef, cp))"

section \<open>Configuration files\<close>

text \<open>\<open>ReadXml\<close> of MySQL and of Redis connects to every database below \<open>server\<close>, given as tag, identifier and connection
  information; \<open>None\<close> stands for an attribute that is missing, for which the property tree throws an exception without
  a code, here 0. \<open>ptrs\<close> are the pointers \<open>new\<close> will return.\<close>

fun cp_ReadXml ::
  "string \<Rightarrow> 'i connector \<Rightarrow> (nat \<times> string \<times> (int \<times> 'i) option) list \<Rightarrow> 'i conn_pool \<Rightarrow> unit outcome \<times> 'i conn_pool" where
  "cp_ReadXml tag connect [] cp = (Ret (), cp)"
| "cp_ReadXml tag connect ((ptr, first, elmt) # elmts) cp =
     (if tag \<noteq> first then cp_ReadXml tag connect elmts cp
      else case elmt of
        None \<Rightarrow> (Throw 0, cp)
      | Some (db_id, info) \<Rightarrow>
          (case cp_Connect ptr connect db_id info cp of
             (Ret ok, cp) \<Rightarrow> if \<not> ok then (Throw ConnectFailError, cp) else cp_ReadXml tag connect elmts cp
           | (Throw e, cp) \<Rightarrow> (Throw e, cp)
           | (Undef, cp) \<Rightarrow> (Undef, cp)))"

definition mysql_ReadXml ::
  "'i connector \<Rightarrow> (nat \<times> string \<times> (int \<times> 'i) option) list \<Rightarrow> 'i conn_pool \<Rightarrow> unit outcome \<times> 'i conn_pool" where
  "mysql_ReadXml connect = cp_ReadXml ''database'' connect"

definition redis_ReadXml ::
  "'i connector \<Rightarrow> (nat \<times> string \<times> (int \<times> 'i) option) list \<Rightarrow> 'i conn_pool \<Rightarrow> unit outcome \<times> 'i conn_pool" where
  "redis_ReadXml connect = cp_ReadXml ''redis'' connect"

lemma cp_Connect_returns:
  assumes "cp_Connect ptr connect t info cp = (Ret True, cp')"
  shows "cp_infos cp t = None \<and> cp_infos cp' = (cp_infos cp)(t \<mapsto> info)"
  using assms
  by (auto simp: cp_Connect_def cp_create_def cp_release_def Let_def split: if_splits prod.splits outcome.splits option.splits)

text \<open>A configuration that is read to its end registers every database of its tag, each under an identifier of its own.\<close>

lemma ReadXml_registers:
  "cp_ReadXml tag connect elmts cp = (Ret (), cp') \<Longrightarrow>
   (\<forall>t. cp_infos cp t \<noteq> None \<longrightarrow> cp_infos cp' t = cp_infos cp t) \<and>
   (\<forall>ptr t info. (ptr, tag, Some (t, info)) \<in> set elmts \<longrightarrow> cp_infos cp t = None \<and> cp_infos cp' t = Some info)"
proof (induction tag connect elmts cp rule: cp_ReadXml.induct)
  case (2 tag connect ptr first elmt elmts cp)
  show ?case
  proof (cases "tag = first")
    case False
    then show ?thesis using 2 by auto
  next
    case True
    with 2(3) obtain t info cp1 where e: "elmt = Some (t, info)" "cp_Connect ptr connect t info cp = (Ret True, cp1)"
      and rest: "cp_ReadXml tag connect elmts cp1 = (Ret (), cp')"
      by (auto split: option.splits prod.splits outcome.splits if_splits)
    note one = cp_Connect_returns [OF e(2)]
    have ih: "(\<forall>t. cp_infos cp1 t \<noteq> None \<longrightarrow> cp_infos cp' t = cp_infos cp1 t) \<and>
      (\<forall>ptr t info. (ptr, tag, Some (t, info)) \<in> set elmts \<longrightarrow> cp_infos cp1 t = None \<and> cp_infos cp' t = Some info)"
      using 2(2) [OF _ e(1) refl e(2)[symmetric] refl _ rest] True by blast
    show ?thesis using ih one e(1) by (auto split: if_splits)
  qed
qed simp

section \<open>The connections and their users\<close>

text \<open>\<open>held\<close>: for each connection in use the database it was taken for.\<close>

record 'i db_sys =
  db_cp :: "'i conn_pool"
  held :: "(int \<times> 'i connection) list"

definition held_of :: "int \<Rightarrow> 'i db_sys \<Rightarrow> 'i connection list" where
  "held_of t s = map snd (filter (\<lambda>(u, c). u = t) (held s))"

definition db_init :: "'i db_sys \<Rightarrow> bool" where
  "db_init s \<longleftrightarrow> s = \<lparr>db_cp = new_conn_pool, held = []\<rparr>"

definition db_conns :: "int \<Rightarrow> 'i db_sys \<Rightarrow> 'i connection set" where
  "db_conns t s = (case cp_pools (db_cp s) t of None \<Rightarrow> {} | Some p \<Rightarrow> set (lstObjectPtr p)) \<union> set (held_of t s)"

text \<open>A pointer \<open>new\<close> returns is not the pointer of a connection that exists.\<close>

definition unused :: "nat \<Rightarrow> 'i db_sys \<Rightarrow> bool" where
  "unused ptr s \<longleftrightarrow> (\<forall>t. \<forall>c\<in>db_conns t s. cn_ptr c \<noteq> ptr)"

text \<open>The content of a result set does not matter here.\<close>

inductive db_step :: "'i db_sys \<Rightarrow> 'i db_sys \<Rightarrow> bool" where
  connect:
    "unused ptr s \<Longrightarrow> cp_Connect ptr connect t info (db_cp s) = (r, cp) \<Longrightarrow> db_step s (s\<lparr>db_cp := cp\<rparr>)"
| get:
    "unused ptr s \<Longrightarrow> cp_GetConnection ptr connect t (db_cp s) = (Ret c, cp) \<Longrightarrow>
     db_step s (s\<lparr>db_cp := cp, held := (t, c) # held s\<rparr>)"
| get_fails:
    "unused ptr s \<Longrightarrow> cp_GetConnection ptr connect t (db_cp s) = (Throw e, cp) \<Longrightarrow> db_step s (s\<lparr>db_cp := cp\<rparr>)"
| execute:
    "unused ptr s \<Longrightarrow> cp_Execute ptr connect answer t query (db_cp s) = (Ret (c, ()), cp) \<Longrightarrow>
     db_step s (s\<lparr>db_cp := cp, held := (t, c) # held s\<rparr>)"
| execute_fails:
    "unused ptr s \<Longrightarrow> cp_Execute ptr connect (answer :: _ \<Rightarrow> _ \<Rightarrow> unit outcome) t query (db_cp s) = (Throw e, cp) \<Longrightarrow> db_step s (s\<lparr>db_cp := cp\<rparr>)"
| drop_conn:
    "(t, c) \<in> set (held s) \<Longrightarrow>
     db_step s (s\<lparr>db_cp := cp_release t c (db_cp s), held := remove1 (t, c) (held s)\<rparr>)"

text \<open>Every database's pool keeps its accounts, and holds connections to that database only.\<close>

definition pool_ok :: "'i \<Rightarrow> 'i connection pool \<Rightarrow> 'i connection list \<Rightarrow> bool" where
  "pool_ok info p hs \<longleftrightarrow> (\<exists>k. pool_inv 64 \<lparr>pl = p, live = hs, lost = k\<rparr>) \<and>
     (\<forall>c\<in>set (lstObjectPtr p) \<union> set hs. cn_info c = info)"

definition db_ok :: "int \<Rightarrow> 'i db_sys \<Rightarrow> bool" where
  "db_ok t s \<longleftrightarrow>
     (case cp_pools (db_cp s) t of
        None \<Rightarrow> held_of t s = [] \<and> cp_infos (db_cp s) t = None
      | Some p \<Rightarrow> (\<exists>info. cp_infos (db_cp s) t = Some info \<and> pool_ok info p (held_of t s)))"

definition db_inv :: "'i db_sys \<Rightarrow> bool" where
  "db_inv s \<longleftrightarrow> (\<forall>t. db_ok t s) \<and>
     (\<forall>t u. \<forall>c\<in>db_conns t s. \<forall>d\<in>db_conns u s. cn_ptr c = cn_ptr d \<longrightarrow> t = u)"

section \<open>One pool\<close>

lemma pool_ok_new: "pool_ok info (new_pool 64) []"
  by (simp add: pool_ok_def pool_inv_def new_pool_def)

lemma pool_ok_create:
  assumes "pool_ok info p hs" and "\<forall>c\<in>set (lstObjectPtr p) \<union> set hs. cn_ptr c \<noteq> ptr"
    and "made \<in> {Made \<lparr>cn_ptr = ptr, cn_info = info\<rparr>, MadeNull} \<union> range FactoryThrows"
    and "pool_Create made p = (r, p')"
  defines "hs' \<equiv> case r of Ret (Some c) \<Rightarrow> c # hs | _ \<Rightarrow> hs"
  shows "pool_ok info p' hs'"
    and "set (lstObjectPtr p') \<union> set hs' \<subseteq> insert \<lparr>cn_ptr = ptr, cn_info = info\<rparr> (set (lstObjectPtr p) \<union> set hs)"
proof -
  let ?new = "\<lparr>cn_ptr = ptr, cn_info = info\<rparr>"
  obtain k where inv: "pool_inv 64 \<lparr>pl = p, live = hs, lost = k\<rparr>" and info: "\<forall>c\<in>set (lstObjectPtr p) \<union> set hs. cn_info c = info"
    using assms(1) by (auto simp: pool_ok_def)
  have new: "?new \<notin> set (lstObjectPtr p) \<union> set hs"
  proof
    assume "?new \<in> set (lstObjectPtr p) \<union> set hs"
    then have "cn_ptr ?new \<noteq> ptr" using assms(2) by blast
    then show False by simp
  qed
  have *: "(\<exists>k. pool_inv 64 \<lparr>pl = p', live = hs', lost = k\<rparr>) \<and>
      set (lstObjectPtr p') \<union> set hs' \<subseteq> insert ?new (set (lstObjectPtr p) \<union> set hs)"
  proof (cases "lstObjectPtr p")
    case Nil
    consider (full) "max_size p \<le> cur_size p" | (made) "cur_size p < max_size p" "made = Made ?new"
      | (bad) "cur_size p < max_size p" "made \<in> {MadeNull} \<union> range FactoryThrows"
      using assms(3) by fastforce
    then show ?thesis
    proof cases
      case full
      then have "r = Ret None" "p' = p" using assms(4) Nil by (simp_all add: pool_Create_exhausted)
      then show ?thesis using inv unfolding hs'_def by auto
    next
      case made
      then have "r = Ret (Some ?new)" "p' = p\<lparr>cur_size := cur_size p + 1\<rparr>" using assms(4) Nil by (simp_all add: pool_Create_made)
      moreover have "pool_inv 64 \<lparr>pl = p\<lparr>cur_size := cur_size p + 1\<rparr>, live = ?new # hs, lost = k\<rparr>"
        using inv made(1) new Nil by (simp add: pool_inv_def)
      ultimately show ?thesis using Nil unfolding hs'_def by auto
    next
      case bad
      then have "p' = p\<lparr>cur_size := cur_size p + 1\<rparr>" using assms(4) Nil pool_Create_bad [of made p] by simp
      moreover have "hs' = hs" using assms(4) bad Nil unfolding hs'_def by (auto simp: pool_Create.simps Let_def)
      moreover have "pool_inv 64 \<lparr>pl = p\<lparr>cur_size := cur_size p + 1\<rparr>, live = hs, lost = k + 1\<rparr>"
        using inv bad(1) by (simp add: pool_inv_def)
      ultimately show ?thesis by auto
    qed
  next
    case (Cons x xs)
    then have "r = Ret (Some x)" "p' = p\<lparr>lstObjectPtr := xs\<rparr>" using assms(4) by (simp_all add: pool_Create_reuse)
    moreover have "pool_inv 64 \<lparr>pl = p\<lparr>lstObjectPtr := xs\<rparr>, live = x # hs, lost = k\<rparr>"
      using inv Cons by (auto simp: pool_inv_def)
    ultimately show ?thesis using Cons unfolding hs'_def by auto
  qed
  then show "pool_ok info p' hs'" "set (lstObjectPtr p') \<union> set hs' \<subseteq> insert ?new (set (lstObjectPtr p) \<union> set hs)"
    using info unfolding pool_ok_def by fastforce+
qed

lemma pool_ok_release:
  assumes "pool_ok info p hs" and "c \<in> set hs"
  shows "pool_ok info (pool_Restitute (Some c) p) (remove1 c hs)"
    and "set (lstObjectPtr (pool_Restitute (Some c) p)) \<union> set (remove1 c hs) \<subseteq> set (lstObjectPtr p) \<union> set hs"
proof -
  obtain k where inv: "pool_inv 64 \<lparr>pl = p, live = hs, lost = k\<rparr>" using assms(1) by (auto simp: pool_ok_def)
  have "pool_step \<lparr>pl = p, live = hs, lost = k\<rparr> \<lparr>pl = pool_Restitute (Some c) p, live = remove1 c hs, lost = k\<rparr>"
    using pool_step.release [of c "\<lparr>pl = p, live = hs, lost = k\<rparr>"] assms(2) by simp
  then have "pool_inv 64 \<lparr>pl = pool_Restitute (Some c) p, live = remove1 c hs, lost = k\<rparr>" using inv by (rule pool_inv_step [rotated])
  moreover show sub: "set (lstObjectPtr (pool_Restitute (Some c) p)) \<union> set (remove1 c hs) \<subseteq> set (lstObjectPtr p) \<union> set hs"
    using assms(2) by (auto simp: pool_Restitute_def dest: notin_set_remove1)
  ultimately show "pool_ok info (pool_Restitute (Some c) p) (remove1 c hs)" using assms(1) unfolding pool_ok_def by blast
qed

section \<open>All pools\<close>

text \<open>A change of one database that brings in at most one unused pointer.\<close>

lemma db_inv_update:
  assumes "db_inv s" and "cp_pools (db_cp s') = (cp_pools (db_cp s))(t \<mapsto> p')"
    and "cp_infos (db_cp s') = (cp_infos (db_cp s))(t \<mapsto> info)"
    and "\<And>u. u \<noteq> t \<Longrightarrow> held_of u s' = held_of u s"
    and "pool_ok info p' (held_of t s')"
    and "set (lstObjectPtr p') \<union> set (held_of t s') \<subseteq> new \<union> db_conns t s" and "\<forall>c\<in>new. unused (cn_ptr c) s"
  shows "db_inv s'"
proof -
  have ok: "db_ok u s'" for u
  proof (cases "u = t")
    case False
    have "db_ok u s" using assms(1) by (simp add: db_inv_def)
    with False show ?thesis using assms(2,3) assms(4) [OF False] unfolding db_ok_def
      by (cases "cp_pools (db_cp s) u") simp_all
  qed (use assms(2,3,5) in \<open>simp add: db_ok_def\<close>)
  have other: "db_conns u s' = db_conns u s" if "u \<noteq> t" for u
    using that assms(2) assms(4) [OF that] by (simp add: db_conns_def)
  have own: "db_conns t s' \<subseteq> new \<union> db_conns t s" using assms(2,6) by (simp add: db_conns_def)
  have "u = v" if "c \<in> db_conns u s'" "d \<in> db_conns v s'" "cn_ptr c = cn_ptr d" for u v c d
  proof (rule ccontr)
    assume ne: "u \<noteq> v"
    have apart: "x \<in> db_conns t s \<Longrightarrow> y \<in> db_conns w s \<Longrightarrow> cn_ptr x = cn_ptr y \<Longrightarrow> t = w" for w x y
      using assms(1) unfolding db_inv_def by blast
    have fresh: "x \<in> new \<Longrightarrow> y \<in> db_conns w s \<Longrightarrow> cn_ptr x \<noteq> cn_ptr y" for w x y
      using assms(7) unfolding unused_def by fastforce
    have no: "x \<in> db_conns t s' \<Longrightarrow> w \<noteq> t \<Longrightarrow> y \<in> db_conns w s \<Longrightarrow> cn_ptr x \<noteq> cn_ptr y" for x y w
      using own apart [of x y w] fresh [of x y w] by blast
    consider "u = t" | "v = t" | "u \<noteq> t" "v \<noteq> t" by blast
    then show False
    proof cases
      case 1
      then show False using no [of c v d] that ne other [of v] by auto
    next
      case 2
      then show False using no [of d u c] that ne other [of u] by auto
    next
      case 3
      then show False using that ne assms(1) other [of u] other [of v] unfolding db_inv_def by blast
    qed
  qed
  with ok show ?thesis unfolding db_inv_def by blast
qed

lemma held_of_simps [simp]:
  "held_of t (s\<lparr>db_cp := cp\<rparr>) = held_of t s"
  "held_of t (s\<lparr>db_cp := cp, held := (u, c) # hs\<rparr>) = (if t = u then c # held_of t (s\<lparr>held := hs\<rparr>) else held_of t (s\<lparr>held := hs\<rparr>))"
  "held_of t (s\<lparr>db_cp := cp, held := hs\<rparr>) = held_of t (s\<lparr>held := hs\<rparr>)"
  "held_of t (s\<lparr>held := held s\<rparr>) = held_of t s"
  by (simp_all add: held_of_def)

lemma held_of_remove1: "(t, c) \<in> set (held s) \<Longrightarrow>
    held_of u (s\<lparr>held := remove1 (t, c) (held s)\<rparr>) = (if u = t then remove1 c (held_of u s) else held_of u s)"
proof -
  have "map snd (filter (\<lambda>(v, c). v = u) (remove1 (t, c) hs)) =
      (if u = t then remove1 c (map snd (filter (\<lambda>(v, c). v = u) hs)) else map snd (filter (\<lambda>(v, c). v = u) hs))" for hs
    by (induction hs) auto
  then show ?thesis by (simp add: held_of_def)
qed

lemma held_of_mem: "(t, c) \<in> set (held s) \<Longrightarrow> c \<in> set (held_of t s)"
  by (force simp: held_of_def)

lemma db_inv_init: "db_init s \<Longrightarrow> db_inv s"
  by (auto simp: db_init_def db_inv_def db_ok_def db_conns_def held_of_def new_conn_pool_def)

lemma db_inv_pool:
  assumes "db_inv s" and "cp_pools (db_cp s) t = Some p"
  shows "\<exists>info. cp_infos (db_cp s) t = Some info \<and> pool_ok info p (held_of t s)"
proof -
  have "db_ok t s" using assms(1) by (simp add: db_inv_def)
  then show ?thesis using assms(2) by (simp add: db_ok_def)
qed

lemma db_inv_create:
  assumes "db_inv s" and "unused ptr s" and "cp_pools (db_cp s) t = Some p"
    and "cp_create ptr connect t p (db_cp s) = (r, cp)"
  shows "db_inv (case r of Ret (Some c) \<Rightarrow> s\<lparr>db_cp := cp, held := (t, c) # held s\<rparr> | _ \<Rightarrow> s\<lparr>db_cp := cp\<rparr>)"
    (is "db_inv ?s'")
proof -
  obtain info where info: "cp_infos (db_cp s) t = Some info" and ok: "pool_ok info p (held_of t s)"
    using db_inv_pool [OF assms(1,3)] by blast
  obtain p' where p': "pool_Create (ConnectionFactory ptr connect t (db_cp s)) p = (r, p')"
      "cp = (db_cp s)\<lparr>cp_pools := (cp_pools (db_cp s))(t \<mapsto> p')\<rparr>"
    using assms(4) by (auto simp: cp_create_def split: prod.splits)
  let ?new = "\<lparr>cn_ptr = ptr, cn_info = info\<rparr>"
  have made: "ConnectionFactory ptr connect t (db_cp s) \<in> {Made ?new, MadeNull} \<union> range FactoryThrows"
    using info by (auto simp: ConnectionFactory_def split: sum.split)
  have conns: "db_conns t s = set (lstObjectPtr p) \<union> set (held_of t s)" using assms(3) by (simp add: db_conns_def)
  then have fresh: "\<forall>c\<in>set (lstObjectPtr p) \<union> set (held_of t s). cn_ptr c \<noteq> ptr" using assms(2) unfolding unused_def by metis
  note create = pool_ok_create [OF ok fresh made p'(1)]
  have held: "held_of t ?s' = (case r of Ret (Some c) \<Rightarrow> c # held_of t s | _ \<Rightarrow> held_of t s)"
    "u \<noteq> t \<Longrightarrow> held_of u ?s' = held_of u s" for u
    by (auto split: outcome.split option.split)
  show ?thesis
  proof (rule db_inv_update [OF assms(1), where t = t and p' = p' and info = info and new = "{?new}"])
    show "cp_pools (db_cp ?s') = (cp_pools (db_cp s))(t \<mapsto> p')" "cp_infos (db_cp ?s') = (cp_infos (db_cp s))(t \<mapsto> info)"
      using p'(2) info by (auto split: outcome.split option.split)
    show "held_of u ?s' = held_of u s" if "u \<noteq> t" for u using that by (rule held(2))
    show "pool_ok info p' (held_of t ?s')" using create(1) by (simp only: held(1))
    show "set (lstObjectPtr p') \<union> set (held_of t ?s') \<subseteq> {?new} \<union> db_conns t s"
      using create(2) unfolding held(1) conns by simp
    show "\<forall>c\<in>{?new}. unused (cn_ptr c) s" using assms(2) by simp
  qed
qed

lemma db_inv_get:
  assumes "db_inv s" and "unused ptr s" and "cp_GetConnection ptr connect t (db_cp s) = (r, cp)"
  shows "db_inv (case r of Ret c \<Rightarrow> s\<lparr>db_cp := cp, held := (t, c) # held s\<rparr> | _ \<Rightarrow> s\<lparr>db_cp := cp\<rparr>)"
proof (cases "cp_pools (db_cp s) t")
  case None
  then show ?thesis using assms(1,3) by (auto simp: cp_GetConnection_def)
next
  case (Some p)
  obtain r' cp' where c: "cp_create ptr connect t p (db_cp s) = (r', cp')" by (cases "cp_create ptr connect t p (db_cp s)")
  note inv = db_inv_create [OF assms(1,2) Some c]
  show ?thesis
  proof (cases r')
    case (Ret x)
    then show ?thesis using inv c Some assms(3) by (cases x) (auto simp: cp_GetConnection_def)
  qed (use inv c Some assms(3) in \<open>auto simp: cp_GetConnection_def\<close>)
qed

lemma db_inv_drop:
  assumes "db_inv s" and "(t, c) \<in> set (held s)"
  shows "db_inv (s\<lparr>db_cp := cp_release t c (db_cp s), held := remove1 (t, c) (held s)\<rparr>)" (is "db_inv ?s'")
proof (cases "cp_pools (db_cp s) t")
  case None
  moreover have "db_ok t s" using assms(1) by (simp add: db_inv_def)
  ultimately show ?thesis using held_of_mem [OF assms(2)] by (simp add: db_ok_def)
next
  case (Some p)
  obtain info where info: "cp_infos (db_cp s) t = Some info" and ok: "pool_ok info p (held_of t s)"
    using db_inv_pool [OF assms(1) Some] by blast
  note rel = pool_ok_release [OF ok held_of_mem [OF assms(2)]]
  have held: "held_of u ?s' = (if u = t then remove1 c (held_of u s) else held_of u s)" for u
    using held_of_remove1 [OF assms(2), of u] by simp
  show ?thesis
  proof (rule db_inv_update [OF assms(1), where t = t and p' = "pool_Restitute (Some c) p" and info = info and new = "{}"])
    show "cp_pools (db_cp ?s') = (cp_pools (db_cp s))(t \<mapsto> pool_Restitute (Some c) p)"
      "cp_infos (db_cp ?s') = (cp_infos (db_cp s))(t \<mapsto> info)"
      using Some info by (auto simp: cp_release_def)
    show "set (lstObjectPtr (pool_Restitute (Some c) p)) \<union> set (held_of t ?s') \<subseteq> {} \<union> db_conns t s"
      using rel(2) Some by (simp add: held [of t] db_conns_def del: held_of_simps)
  qed (use rel(1) held in auto)
qed

lemma db_inv_register:
  assumes "db_inv s" and "cp_infos (db_cp s) t = None"
  shows "db_inv (s\<lparr>db_cp := \<lparr>cp_pools = (cp_pools (db_cp s))(t \<mapsto> new_pool 64), cp_infos = (cp_infos (db_cp s))(t \<mapsto> info)\<rparr>\<rparr>)"
proof -
  have "db_ok t s" using assms(1) by (simp add: db_inv_def)
  then have "held_of t s = []" using assms(2) by (auto simp: db_ok_def split: option.splits)
  then show ?thesis
    by (intro db_inv_update [OF assms(1), where t = t and p' = "new_pool 64" and info = info and new = "{}"])
      (simp_all add: pool_ok_new, simp add: new_pool_def)
qed

text \<open>\<open>Connect\<close> is a registration, a request for a connection and its return.\<close>

lemma db_inv_connect:
  assumes "db_inv s" and "unused ptr s" and "cp_Connect ptr connect t info (db_cp s) = (r, cp)"
  shows "db_inv (s\<lparr>db_cp := cp\<rparr>)"
proof (cases "cp_infos (db_cp s) t")
  case None
  let ?cp = "\<lparr>cp_pools = (cp_pools (db_cp s))(t \<mapsto> new_pool 64), cp_infos = (cp_infos (db_cp s))(t \<mapsto> info)\<rparr>"
  let ?s = "s\<lparr>db_cp := ?cp\<rparr>"
  have pools: "cp_pools (db_cp s) t = None"
  proof -
    have "db_ok t s" using assms(1) by (simp add: db_inv_def)
    then show ?thesis using None by (auto simp: db_ok_def split: option.splits)
  qed
  have inv: "db_inv ?s" using assms(1) None by (rule db_inv_register)
  have "db_conns u ?s \<subseteq> db_conns u s" for u by (simp add: db_conns_def new_pool_def)
  then have unused: "unused ptr ?s" using assms(2) unfolding unused_def by blast
  obtain r' cp' where c: "cp_create ptr connect t (new_pool 64) ?cp = (r', cp')" by (cases "cp_create ptr connect t (new_pool 64) ?cp")
  have same: "cp_create ptr connect t (new_pool 64) ((db_cp s)\<lparr>cp_infos := (cp_infos (db_cp s))(t \<mapsto> info)\<rparr>) = (r', cp')"
    using c by (cases "db_cp s") (simp add: cp_create_def ConnectionFactory_def split: prod.splits)
  have created: "db_inv (case r' of Ret (Some c) \<Rightarrow> ?s\<lparr>db_cp := cp', held := (t, c) # held ?s\<rparr> | _ \<Rightarrow> ?s\<lparr>db_cp := cp'\<rparr>)"
    using db_inv_create [OF inv unused _ , of t "new_pool 64" connect r' cp'] c by simp
  show ?thesis
  proof (cases "\<exists>c. r' = Ret (Some c)")
    case True
    then obtain c where r': "r' = Ret (Some c)" by blast
    then have "cp = cp_release t c cp'" using assms(3) None pools same by (simp add: cp_Connect_def)
    moreover have "db_inv (?s\<lparr>db_cp := cp_release t c cp', held := remove1 (t, c) ((t, c) # held ?s)\<rparr>)"
      using db_inv_drop [of "?s\<lparr>db_cp := cp', held := (t, c) # held ?s\<rparr>" t c] created r' by simp
    ultimately show ?thesis by simp
  next
    case False
    then have "cp = cp'" using assms(3) None pools same by (auto simp: cp_Connect_def split: outcome.splits option.splits)
    moreover have "db_inv (?s\<lparr>db_cp := cp'\<rparr>)" using created False by (cases r') (auto split: option.splits)
    ultimately show ?thesis by simp
  qed
qed (use assms in \<open>cases s; auto simp: cp_Connect_def\<close>)

lemma db_inv_execute:
  assumes "db_inv s" and "unused ptr s" and "cp_Execute ptr connect answer t query (db_cp s) = (r, cp)" and "r \<noteq> Undef"
  shows "db_inv (case r of Ret (c, _) \<Rightarrow> s\<lparr>db_cp := cp, held := (t, c) # held s\<rparr> | _ \<Rightarrow> s\<lparr>db_cp := cp\<rparr>)"
proof -
  obtain g cp' where g: "cp_GetConnection ptr connect t (db_cp s) = (g, cp')" by (cases "cp_GetConnection ptr connect t (db_cp s)")
  note inv = db_inv_get [OF assms(1,2) g]
  show ?thesis
  proof (cases g)
    case (Ret c)
    then have "db_inv (s\<lparr>db_cp := cp_release t c cp', held := remove1 (t, c) ((t, c) # held s)\<rparr>)"
      using db_inv_drop [of "s\<lparr>db_cp := cp', held := (t, c) # held s\<rparr>" t c] inv by simp
    then show ?thesis using inv g Ret assms(3,4) by (cases "answer c query") (auto simp: cp_Execute_def)
  qed (use inv g assms(3,4) in \<open>auto simp: cp_Execute_def\<close>)
qed

lemma db_inv_step: "db_inv s \<Longrightarrow> db_step s s' \<Longrightarrow> db_inv s'"
  by (erule db_step.cases) (auto dest: db_inv_connect db_inv_get db_inv_execute intro: db_inv_drop)

interpretation connections: invariant_system db_init db_step db_inv
  by unfold_locales (auto intro: db_inv_init db_inv_step)

lemma distinct_parts: "\<forall>t. distinct (map snd (filter (\<lambda>(u, c). u = t) hs)) \<Longrightarrow> distinct hs"
proof (induction hs)
  case (Cons h hs)
  have "distinct (map snd (filter (\<lambda>(u, c). u = t) hs))" for t
    using Cons.prems [rule_format, of t] by (cases h) (simp split: if_splits)
  moreover have "h \<notin> set hs" using Cons.prems [rule_format, of "fst h"] by (cases h) force
  ultimately show ?case using Cons.IH by simp
qed simp

section \<open>Properties\<close>

text \<open>C13: however servers and clients of the pool behave, no connection is handed out twice, nor while it is free, none
  is taken for one database and belongs to another, and at most 64 connections to a database are in use.\<close>

theorem connections_exclusive:
  assumes "db_init s" and "db_step\<^sup>*\<^sup>* s u"
  shows "distinct (map (cn_ptr \<circ> snd) (held u)) \<and> length (held_of t u) \<le> 64 \<and>
    (\<forall>(t, c)\<in>set (held u). cp_infos (db_cp u) t = Some (cn_info c) \<and>
      (\<forall>p. cp_pools (db_cp u) t = Some p \<longrightarrow> c \<notin> set (lstObjectPtr p)))"
proof -
  have inv: "db_inv u" using assms by (rule connections.inv_reachable)
  have mem: "c \<in> db_conns t u" "c \<in> set (held_of t u)" if "(t, c) \<in> set (held u)" for t c
    using held_of_mem [OF that] by (simp_all add: db_conns_def)
  have pool: "\<exists>p info. cp_pools (db_cp u) t = Some p \<and> cp_infos (db_cp u) t = Some info \<and> pool_ok info p (held_of t u)"
    if "held_of t u \<noteq> []" for t
    using inv that unfolding db_inv_def db_ok_def by (auto split: option.splits dest: spec [of _ t])
  have bound: "distinct (held_of t u) \<and> length (held_of t u) \<le> 64" for t
    using pool [of t] by (cases "held_of t u = []") (auto simp: pool_ok_def pool_inv_def)
  have one: "cp_infos (db_cp u) t = Some (cn_info c) \<and> (\<forall>p. cp_pools (db_cp u) t = Some p \<longrightarrow> c \<notin> set (lstObjectPtr p))"
    if "(t, c) \<in> set (held u)" for t c
    using pool [of t] mem(2) [OF that] by (force simp: pool_ok_def pool_inv_def)
  have "inj_on (cn_ptr \<circ> snd) (set (held u))"
  proof (rule inj_onI, clarify)
    fix t c v d
    assume *: "(t, c) \<in> set (held u)" "(v, d) \<in> set (held u)" "(cn_ptr \<circ> snd) (t, c) = (cn_ptr \<circ> snd) (v, d)"
    then have "t = v" using inv mem(1) unfolding db_inv_def by (metis comp_apply snd_conv)
    then show "t = v \<and> c = d" using * one [of t c] one [of v d] by simp
  qed
  moreover have "distinct (held u)"
    using distinct_parts [of "held u"] bound by (simp add: held_of_def)
  ultimately have "distinct (map (cn_ptr \<circ> snd) (held u))" by (simp add: distinct_map)
  then show ?thesis using bound one by blast
qed

theorem connections_exclusive_witness:
  "let s = \<lparr>db_cp = new_conn_pool, held = []\<rparr>;
       cp = \<lparr>cp_pools = [1 \<mapsto> \<lparr>lstObjectPtr = [\<lparr>cn_ptr = 5, cn_info = ''db''\<rparr>], cur_size = 1, max_size = 64\<rparr>], cp_infos = [1 \<mapsto> ''db'']\<rparr>
   in db_init s \<and> db_step\<^sup>*\<^sup>* s (s\<lparr>db_cp := cp\<rparr>) \<and> length (held_of 1 (s\<lparr>db_cp := cp\<rparr>)) \<le> 64"
proof -
  let ?s = "\<lparr>db_cp = new_conn_pool, held = []\<rparr> :: string db_sys"
  let ?cp = "\<lparr>cp_pools = [1 \<mapsto> \<lparr>lstObjectPtr = [\<lparr>cn_ptr = 5, cn_info = ''db''\<rparr>], cur_size = 1, max_size = 64\<rparr>], cp_infos = [1 \<mapsto> ''db'']\<rparr>"
  have i: "db_init ?s" by (simp add: db_init_def)
  have "cp_Connect 5 (\<lambda>_. Inr True) 1 ''db'' new_conn_pool = (Ret True, ?cp)"
    by (simp add: cp_Connect_def new_conn_pool_def cp_create_def ConnectionFactory_def new_pool_def pool_Create.simps Let_def
        cp_release_def pool_Restitute_def)
  moreover have "unused 5 ?s" by (simp add: unused_def db_conns_def held_of_def new_conn_pool_def)
  ultimately have r: "db_step\<^sup>*\<^sup>* ?s (?s\<lparr>db_cp := ?cp\<rparr>)" using db_step.connect [of 5 ?s "\<lambda>_. Inr True" 1 "''db''" "Ret True" ?cp] by auto
  show ?thesis using i r connections_exclusive [OF i r, of 1] by (simp add: Let_def del: held_of_simps)
qed

primrec failed_attempts :: "nat \<Rightarrow> 'i connector \<Rightarrow> int \<Rightarrow> 'i conn_pool \<Rightarrow> 'i conn_pool" where
  "failed_attempts 0 connect t cp = cp"
| "failed_attempts (Suc n) connect t cp = failed_attempts n connect t (snd (cp_GetConnection 0 connect t cp))"

lemma failed_attempts_use_up:
  "cp_infos cp t = Some info \<Longrightarrow> connect info = Inr False \<Longrightarrow>
   cp_pools cp t = Some \<lparr>lstObjectPtr = [], cur_size = k, max_size = m\<rparr> \<Longrightarrow> k + n \<le> m \<Longrightarrow>
   cp_infos (failed_attempts n connect t cp) t = Some info \<and>
   cp_pools (failed_attempts n connect t cp) t = Some \<lparr>lstObjectPtr = [], cur_size = k + n, max_size = m\<rparr>"
proof (induction n arbitrary: cp k)
  case (Suc n)
  let ?cp = "snd (cp_GetConnection 0 connect t cp)"
  have "cp_infos ?cp t = Some info \<and> cp_pools ?cp t = Some \<lparr>lstObjectPtr = [], cur_size = Suc k, max_size = m\<rparr>"
    using Suc.prems by (simp add: cp_GetConnection_def cp_create_def ConnectionFactory_def pool_Create.simps Let_def)
  then show ?case using Suc.IH [of ?cp "Suc k"] Suc.prems by simp
qed simp

text \<open>A database that cannot be reached uses up its pool: after the failed test connection of \<open>Connect\<close> and 63 failed
  requests every further request fails and so does a new \<open>Connect\<close>, although no connection is in use and whether or
  not the database has come back.\<close>

theorem unreachable_database_lost_for_good:
  assumes "cp_infos cp t = None" and "cp_pools cp t = None" and "connect info = Inr False"
  shows "let cp' = failed_attempts 63 connect t (snd (cp_Connect ptr connect t info cp)) in
    \<forall>connect' info'. fst (cp_GetConnection ptr connect' t cp') = Throw 0 \<and> fst (cp_Connect ptr connect' t info' cp') = Ret False"
proof -
  let ?cp = "snd (cp_Connect ptr connect t info cp)"
  have "cp_infos ?cp t = Some info \<and> cp_pools ?cp t = Some \<lparr>lstObjectPtr = [], cur_size = 1, max_size = 64\<rparr>"
    using assms by (simp add: cp_Connect_def cp_create_def ConnectionFactory_def new_pool_def pool_Create.simps Let_def)
  then have "cp_infos (failed_attempts 63 connect t ?cp) t = Some info \<and>
      cp_pools (failed_attempts 63 connect t ?cp) t = Some \<lparr>lstObjectPtr = [], cur_size = 64, max_size = 64\<rparr>"
    using failed_attempts_use_up [of ?cp t info connect 1 64 63] assms(3) by simp
  then show ?thesis
    by (simp add: Let_def cp_GetConnection_def cp_create_def pool_Create.simps cp_Connect_def)
qed

theorem unreachable_database_lost_for_good_witness:
  "let cp' = failed_attempts 63 (\<lambda>_. Inr False) 1 (snd (cp_Connect 0 (\<lambda>_. Inr False) 1 ''db'' new_conn_pool))
   in fst (cp_GetConnection 0 (\<lambda>_. Inr True) 1 cp') = Throw 0"
  using unreachable_database_lost_for_good [of new_conn_pool 1 "\<lambda>_. Inr False" "''db''" 0] by (simp add: new_conn_pool_def Let_def)

section \<open>Transactions\<close>

text \<open>\<open>history\<close> is what was executed on which connection so far; the server's answer may depend on it.\<close>

type_synonym ('i, 'r) server = "('i connection \<times> string) list \<Rightarrow> 'i connection \<Rightarrow> string \<Rightarrow> 'r outcome"

record 'i transaction =
  tx_commit :: bool
  tx_connection :: "'i connection option"

record 'i tx_world =
  tw_pool :: "'i conn_pool"
  history :: "('i connection \<times> string) list"

definition tx_query :: "('i, 'r) server \<Rightarrow> 'i connection \<Rightarrow> string \<Rightarrow> 'i tx_world \<Rightarrow> 'r outcome \<times> 'i tx_world" where
  "tx_query answer c q w = (answer (history w) c q, w\<lparr>history := history w @ [(c, q)]\<rparr>)"

text \<open>The constructor; when it throws, the connection goes back and the destructor does not run.\<close>

definition new_transaction ::
  "nat \<Rightarrow> 'i connector \<Rightarrow> ('i, 'r) server \<Rightarrow> int \<Rightarrow> 'i tx_world \<Rightarrow> 'i transaction outcome \<times> 'i tx_world" where
  "new_transaction ptr connect answer db_type w =
     (case cp_GetConnection ptr connect db_type (tw_pool w) of
        (Ret c, cp) \<Rightarrow>
          (case tx_query answer c ''start transaction'' (w\<lparr>tw_pool := cp\<rparr>) of
             (Ret _, w) \<Rightarrow> (Ret \<lparr>tx_commit = False, tx_connection = Some c\<rparr>, w)
           | (Throw e, w) \<Rightarrow> (Throw e, w\<lparr>tw_pool := cp_release db_type c (tw_pool w)\<rparr>)
           | (Undef, w) \<Rightarrow> (Undef, w))
      | (Throw e, cp) \<Rightarrow> (Throw e, w\<lparr>tw_pool := cp\<rparr>)
      | (Undef, cp) \<Rightarrow> (Undef, w\<lparr>tw_pool := cp\<rparr>))"

definition tx_Execute :: "('i, 'r) server \<Rightarrow> string \<Rightarrow> 'i transaction \<Rightarrow> 'i tx_world \<Rightarrow> ('i connection \<times> 'r) outcome \<times> 'i tx_world" where
  "tx_Execute answer query tx w =
     (case tx_connection tx of
        None \<Rightarrow> (Undef, w)
      | Some c \<Rightarrow> (let (r, w) = tx_query answer c query w in (bind_outcome r (\<lambda>res. Ret (c, res)), w)))"

text \<open>\<open>Commit\<close> gives the connection up, which returns it to the pool when no result set keeps it (\<open>unshared\<close>).\<close>

definition tx_Commit :: "('i, 'r) server \<Rightarrow> int \<Rightarrow> bool \<Rightarrow> 'i transaction \<Rightarrow> 'i tx_world \<Rightarrow> unit outcome \<times> 'i transaction \<times> 'i tx_world" where
  "tx_Commit answer db_type unshared tx w =
     (case tx_connection tx of
        None \<Rightarrow> (Undef, tx, w)
      | Some c \<Rightarrow>
          (case tx_query answer c ''commit'' w of
             (Ret _, w) \<Rightarrow> (Ret (), \<lparr>tx_commit = True, tx_connection = None\<rparr>,
                            if unshared then w\<lparr>tw_pool := cp_release db_type c (tw_pool w)\<rparr> else w)
           | (Throw e, w) \<Rightarrow> (Throw e, tx, w)
           | (Undef, w) \<Rightarrow> (Undef, tx, w)))"

text \<open>The destructor. It is \<open>noexcept\<close>: a failed rollback ends the program (\<open>None\<close>).\<close>

definition tx_destroy :: "('i, 'r) server \<Rightarrow> int \<Rightarrow> bool \<Rightarrow> 'i transaction \<Rightarrow> 'i tx_world \<Rightarrow> 'i tx_world outcome option" where
  "tx_destroy answer db_type unshared tx w =
     (case tx_connection tx of
        None \<Rightarrow> Some (Ret w)
      | Some c \<Rightarrow>
          (let give_back = (\<lambda>w. if unshared then w\<lparr>tw_pool := cp_release db_type c (tw_pool w)\<rparr> else w) in
           if \<not> tx_commit tx then
             (case tx_query answer c ''rollback'' w of
                (Ret _, w) \<Rightarrow> Some (Ret (give_back w))
              | (Throw e, w) \<Rightarrow> None
              | (Undef, w) \<Rightarrow> Some Undef)
           else Some (Ret (give_back w))))"

section \<open>A transaction in a block\<close>

text \<open>The queries of a block whose result sets are dropped at once.\<close>

fun tx_queries :: "('i, 'r) server \<Rightarrow> string list \<Rightarrow> 'i transaction \<Rightarrow> 'i tx_world \<Rightarrow> unit outcome \<times> 'i tx_world" where
  "tx_queries answer [] tx w = (Ret (), w)"
| "tx_queries answer (q # qs) tx w =
     (case tx_Execute answer q tx w of
        (Ret _, w) \<Rightarrow> tx_queries answer qs tx w
      | (Throw e, w) \<Rightarrow> (Throw e, w)
      | (Undef, w) \<Rightarrow> (Undef, w))"

text \<open>\<open>{ Transaction tx(db_type); tx.Execute(...); ...; tx.Commit(); }\<close>; \<open>None\<close> is the end of the program.\<close>

definition transaction_block ::
  "nat \<Rightarrow> 'i connector \<Rightarrow> ('i, 'r) server \<Rightarrow> int \<Rightarrow> string list \<Rightarrow> 'i tx_world \<Rightarrow> (unit outcome \<times> 'i tx_world) option" where
  "transaction_block ptr connect answer db_type qs w =
     (let leave = (\<lambda>r tx w. case tx_destroy answer db_type True tx w of
                     None \<Rightarrow> None | Some (Ret w) \<Rightarrow> Some (r, w) | Some _ \<Rightarrow> Some (Undef, w)) in
      case new_transaction ptr connect answer db_type w of
        (Ret tx, w) \<Rightarrow>
          (case tx_queries answer qs tx w of
             (Ret _, w) \<Rightarrow> (let (r, tx, w) = tx_Commit answer db_type True tx w in leave r tx w)
           | (Throw e, w) \<Rightarrow> leave (Throw e) tx w
           | (Undef, w) \<Rightarrow> Some (Undef, w))
      | (Throw e, w) \<Rightarrow> Some (Throw e, w)
      | (Undef, w) \<Rightarrow> Some (Undef, w))"

definition committed :: "string list \<Rightarrow> string list" where
  "committed qs = ''start transaction'' # qs @ [''commit'']"

definition rolled_back :: "string list \<Rightarrow> string list set" where
  "rolled_back qs = {''start transaction'' # take k qs @ [''rollback''] | k. 0 < k \<and> k \<le> length qs} \<union> {committed qs @ [''rollback'']}"

definition returned :: "int \<Rightarrow> 'i connection \<Rightarrow> 'i conn_pool \<Rightarrow> bool" where
  "returned t c cp \<longleftrightarrow> (case cp_pools cp t of None \<Rightarrow> False | Some p \<Rightarrow> c \<in> set (lstObjectPtr p))"

lemma tx_queries_history:
  assumes "\<forall>h c q. answer h c q \<noteq> Undef" and "tx_connection tx = Some c" and "tx_queries answer qs tx w = (r, w')"
  shows "tw_pool w' = tw_pool w \<and> (case r of Ret _ \<Rightarrow> history w' = history w @ map (Pair c) qs
    | Throw e \<Rightarrow> \<exists>k. 0 < k \<and> k \<le> length qs \<and> history w' = history w @ map (Pair c) (take k qs)
    | Undef \<Rightarrow> False)"
  using assms(3)
proof (induction qs arbitrary: w)
  case (Cons q qs)
  let ?w = "w\<lparr>history := history w @ [(c, q)]\<rparr>"
  show ?case
  proof (cases "answer (history w) c q")
    case (Ret x)
    then have rest: "tx_queries answer qs tx ?w = (r, w')" using Cons.prems assms(2) by (simp add: tx_Execute_def tx_query_def)
    show ?thesis using Cons.IH [OF rest] by (cases r) (auto intro: exI [of _ "Suc _"])
  next
    case (Throw e)
    then have "r = Throw e \<and> w' = ?w" using Cons.prems assms(2) by (simp add: tx_Execute_def tx_query_def)
    then show ?thesis by (auto intro!: exI [of _ "Suc 0"])
  qed (use assms(1) in simp)
qed auto

lemma returned_release: "cp_pools cp t \<noteq> None \<Longrightarrow> returned t c (cp_release t c cp)"
  by (auto simp: returned_def cp_release_def pool_Restitute_def)

lemma GetConnection_pool: "cp_GetConnection ptr connect t cp = (Ret c, cp') \<Longrightarrow> cp_pools cp' t \<noteq> None"
  by (auto simp: cp_GetConnection_def cp_create_def split: option.splits prod.splits outcome.splits)

lemma destroy_rolls_back:
  assumes "\<forall>h c q. answer h c q \<noteq> Undef" and "tx_destroy answer t True \<lparr>tx_commit = False, tx_connection = Some c\<rparr> w = Some x"
    and "cp_pools (tw_pool w) t \<noteq> None"
  shows "\<exists>w'. x = Ret w' \<and> history w' = history w @ [(c, ''rollback'')] \<and> returned t c (tw_pool w')"
  using assms returned_release [OF assms(3)]
  by (cases "answer (history w) c ''rollback''") (auto simp: tx_destroy_def tx_query_def)

lemma commit_ends:
  assumes "\<forall>h c q. answer h c q \<noteq> Undef"
    and "tx_Commit answer t True \<lparr>tx_commit = False, tx_connection = Some c\<rparr> w = (r, tx, w')" and "cp_pools (tw_pool w) t \<noteq> None"
  shows "history w' = history w @ [(c, ''commit'')] \<and>
    (case r of Ret _ \<Rightarrow> tx = \<lparr>tx_commit = True, tx_connection = None\<rparr> \<and> returned t c (tw_pool w')
     | Throw e \<Rightarrow> tx = \<lparr>tx_commit = False, tx_connection = Some c\<rparr> \<and> cp_pools (tw_pool w') t \<noteq> None
     | Undef \<Rightarrow> False)"
  using assms returned_release [OF assms(3)]
  by (cases "answer (history w) c ''commit''") (auto simp: tx_Commit_def tx_query_def)

lemma new_transaction_starts:
  assumes "\<forall>h c q. answer h c q \<noteq> Undef" and "new_transaction ptr connect answer t w = (r, w')"
  shows "case r of
      Ret tx \<Rightarrow> \<exists>c. tx = \<lparr>tx_commit = False, tx_connection = Some c\<rparr> \<and> history w' = history w @ [(c, ''start transaction'')] \<and>
        cp_pools (tw_pool w') t \<noteq> None
    | Throw e \<Rightarrow> history w' = history w \<or> (\<exists>c. history w' = history w @ [(c, ''start transaction'')] \<and> returned t c (tw_pool w'))
    | Undef \<Rightarrow> fst (cp_GetConnection ptr connect t (tw_pool w)) = Undef"
proof -
  obtain g cp where g: "cp_GetConnection ptr connect t (tw_pool w) = (g, cp)" by (cases "cp_GetConnection ptr connect t (tw_pool w)")
  show ?thesis
  proof (cases g)
    case (Ret c)
    then have "cp_pools cp t \<noteq> None" using GetConnection_pool g by blast
    then show ?thesis using assms g Ret returned_release [of cp t c]
      by (cases "answer (history w) c ''start transaction''") (auto simp: new_transaction_def tx_query_def)
  qed (use assms g in \<open>auto simp: new_transaction_def\<close>)
qed

lemma GetConnection_defined: "fst (cp_GetConnection ptr connect t cp) \<noteq> Undef"
proof -
  have "fst (pool_Create made p) \<noteq> Undef" for made and p :: "'i connection pool"
    by (auto simp: pool_Create.simps Let_def split: list.split factory_result.split)
  then have "fst (cp_create ptr connect t p cp) \<noteq> Undef" for p by (simp add: cp_create_def split_beta)
  then show ?thesis by (auto simp: cp_GetConnection_def split_beta split: option.split outcome.split)
qed

text \<open>C14: the block of a transaction leaves its connection in the pool with the transaction closed: when it returns, exactly
  its queries were executed between \<open>start transaction\<close> and \<open>commit\<close>; when it throws, no connection was found, the
  start failed, or the queries up to the failed one were followed by a \<open>rollback\<close>.\<close>

theorem transaction_closed:
  assumes "\<forall>h c q. answer h c q \<noteq> Undef"
    and "transaction_block ptr connect answer t qs w = Some (r, w')"
  shows "(case r of
      Ret _ \<Rightarrow> \<exists>c. history w' = history w @ map (Pair c) (committed qs) \<and> returned t c (tw_pool w')
    | Throw e \<Rightarrow> history w' = history w \<or>
        (\<exists>c. (\<exists>ss\<in>insert [''start transaction''] (rolled_back qs). history w' = history w @ map (Pair c) ss) \<and> returned t c (tw_pool w'))
    | Undef \<Rightarrow> False)"
proof -
  let ?open = "\<lambda>c. \<lparr>tx_commit = False, tx_connection = Some c\<rparr>"
  obtain n w1 where n: "new_transaction ptr connect answer t w = (n, w1)" by (cases "new_transaction ptr connect answer t w")
  note start = new_transaction_starts [OF assms(1) n]
  show ?thesis
  proof (cases n)
    case (Ret tx)
    then obtain c where c: "n = Ret (?open c)" "history w1 = history w @ [(c, ''start transaction'')]" "cp_pools (tw_pool w1) t \<noteq> None"
      using start by auto
    obtain q w2 where q: "tx_queries answer qs (?open c) w1 = (q, w2)" by (cases "tx_queries answer qs (?open c) w1")
    note ran = tx_queries_history [OF assms(1) _ q, of c]
    show ?thesis
    proof (cases q)
      case (Ret x)
      obtain m tx' w3 where m: "tx_Commit answer t True (?open c) w2 = (m, tx', w3)" by (cases "tx_Commit answer t True (?open c) w2")
      have pool: "cp_pools (tw_pool w2) t \<noteq> None" using ran Ret c(3) by simp
      note fin = commit_ends [OF assms(1) m pool]
      have sent: "history w3 = history w @ map (Pair c) (committed qs)"
        using fin ran Ret c(2) by (simp add: committed_def)
      show ?thesis
      proof (cases m)
        case (Ret y)
        then have "r = Ret y \<and> w' = w3" using assms(2) n c(1) q m \<open>q = Ret x\<close> fin
          by (simp add: transaction_block_def tx_destroy_def)
        then show ?thesis using sent fin Ret by auto
      next
        case (Throw e)
        then obtain z where "tx_destroy answer t True (?open c) w3 = Some z" and z: "r = Throw e" "z = Ret w'"
          using assms(2) n c(1) q m Ret fin destroy_rolls_back [OF assms(1), of t c w3] 
          by (auto simp: transaction_block_def split: option.splits)
        then have "history w' = history w @ map (Pair c) (committed qs @ [''rollback'']) \<and> returned t c (tw_pool w')"
          using destroy_rolls_back [OF assms(1), of t c w3 z] fin Throw sent by simp
        then show ?thesis unfolding z(1) rolled_back_def by (auto intro!: exI [of _ c])
      qed (use fin in simp)
    next
      case (Throw e)
      then obtain k where k: "0 < k" "k \<le> length qs" "history w2 = history w1 @ map (Pair c) (take k qs)" and pool: "cp_pools (tw_pool w2) t \<noteq> None"
        using ran c(3) by auto
      obtain z where "tx_destroy answer t True (?open c) w2 = Some z" and z: "r = Throw e" "z = Ret w'"
        using assms(2) n c(1) q Throw pool destroy_rolls_back [OF assms(1), of t c w2]
        by (auto simp: transaction_block_def split: option.splits)
      then have "history w' = history w @ map (Pair c) (''start transaction'' # take k qs @ [''rollback'']) \<and> returned t c (tw_pool w')"
        using destroy_rolls_back [OF assms(1), of t c w2 z] pool c(2) k(3) by simp
      moreover have "''start transaction'' # take k qs @ [''rollback''] \<in> rolled_back qs"
        unfolding rolled_back_def using k(1,2) by blast
      ultimately show ?thesis unfolding z(1) outcome.case by blast
    qed (use ran in simp)
  next
    case (Throw e)
    then have "r = Throw e \<and> w' = w1" using assms(2) n by (simp add: transaction_block_def)
    then show ?thesis using start Throw by force
  qed (use start GetConnection_defined in auto)
qed

theorem transaction_closed_witness:
  "let c = \<lparr>cn_ptr = 5, cn_info = ''db''\<rparr>;
       cp = \<lparr>cp_pools = [1 \<mapsto> new_pool 64], cp_infos = [1 \<mapsto> ''db'']\<rparr>;
       answer = (\<lambda>h c q. if q = ''bad'' then Throw 7 else Ret ()) in
   case transaction_block 5 (\<lambda>_. Inr True) answer 1 [''a'', ''bad'', ''b''] \<lparr>tw_pool = cp, history = []\<rparr> of
     Some (Throw e, w) \<Rightarrow> history w = map (Pair c) [''start transaction'', ''a'', ''bad'', ''rollback''] \<and>
       (\<exists>c. returned 1 c (tw_pool w))
   | _ \<Rightarrow> False"
proof -
  let ?c = "\<lparr>cn_ptr = 5, cn_info = ''db''\<rparr>"
  let ?cp = "\<lparr>cp_pools = [1 \<mapsto> new_pool 64], cp_infos = [1 \<mapsto> ''db'']\<rparr>"
  let ?answer = "\<lambda>h c q. if q = ''bad'' then Throw 7 else Ret ()"
  have "\<exists>w. transaction_block 5 (\<lambda>_. Inr True) ?answer 1 [''a'', ''bad'', ''b''] \<lparr>tw_pool = ?cp, history = []\<rparr> = Some (Throw 7, w) \<and>
      history w = map (Pair ?c) [''start transaction'', ''a'', ''bad'', ''rollback'']"
    by (simp add: transaction_block_def new_transaction_def tx_query_def tx_Execute_def tx_destroy_def cp_GetConnection_def
        cp_create_def ConnectionFactory_def new_pool_def pool_Create.simps Let_def cp_release_def)
  then obtain w where w: "transaction_block 5 (\<lambda>_. Inr True) ?answer 1 [''a'', ''bad'', ''b''] \<lparr>tw_pool = ?cp, history = []\<rparr> = Some (Throw 7, w)"
      and h: "history w = map (Pair ?c) [''start transaction'', ''a'', ''bad'', ''rollback'']" by blast
  have "\<forall>(h :: (string connection \<times> string) list) c q. ?answer h c q \<noteq> Undef" by simp
  from transaction_closed [OF this w] have "\<exists>c. returned 1 c (tw_pool w)" using h by auto
  then show ?thesis unfolding Let_def w using h by simp
qed

end
