(* ===== verification/Redis_Client.thy ===== *)
theory Redis_Client
  imports Gamnet_Prelude
begin

text \<open>
  The Redis connection, \<^verbatim>\<open>Gamnet/Database/Redis/Connection.cpp\<close> and \<^verbatim>\<open>ResultSet.cpp\<close>: how a reply is read from the
  socket, cut into words, and turned into a result set. What one \<open>read_until\<close> returns is a segment: some text that
  contains the end of a line. The specification is the protocol itself: \<open>encode\<close> is what a server sends for a value.
\<close>

section \<open>Words\<close>

text \<open>\<open>istream_iterator<std::string>\<close> reads words separated by white space.\<close>

fun split_words :: "string \<Rightarrow> string \<Rightarrow> string list" where
  "split_words w [] = (if w = [] then [] else [w])"
| "split_words w (c # cs) =
     (if is_space c then (if w = [] then [] else [w]) @ split_words [] cs else split_words (w @ [c]) cs)"

section \<open>Result sets\<close>

record result_set =
  rs_values :: "string list"
  rs_error :: string

definition new_result_set :: result_set where
  "new_result_set = \<lparr>rs_values = [], rs_error = []\<rparr>"

definition rs_push :: "string \<Rightarrow> result_set \<Rightarrow> result_set" where
  "rs_push v rs = rs\<lparr>rs_values := rs_values rs @ [v]\<rparr>"

text \<open>\<open>ResultSet::operator[]\<close>.\<close>


definition rs_at :: "result_set \<Rightarrow> int \<Rightarrow> string outcome" where
  "rs_at rs index =
     (if 0 > index \<or> index \<ge> int (length (rs_values rs)) then Throw InvalidArrayRangeError
      else Ret (rs_values rs ! nat index))"

section \<open>Parsing\<close>

text \<open>The iterator is the list of tokens from its position on. Moving it to the end and reading there is undefined.\<close>

fun next_token :: "string list \<Rightarrow> string list outcome" where
  "next_token (t # u # ts) = Ret (u # ts)"
| "next_token _ = Undef"

fun parse_times ::
  "nat \<Rightarrow> (string list \<Rightarrow> result_set \<Rightarrow> (result_set \<times> string list) outcome) \<Rightarrow>
   string list \<Rightarrow> result_set \<Rightarrow> (result_set \<times> string list) outcome" where
  "parse_times 0 parse itr impl = Ret (impl, itr)"
| "parse_times (Suc n) parse itr impl =
     bind_outcome (next_token itr) (\<lambda>itr. bind_outcome (parse itr impl) (\<lambda>(impl, itr). parse_times n parse itr impl))"

text \<open>\<open>Connection::Parse\<close>. Every nested call starts behind the token of its caller, so that the number of tokens bounds
  the depth of the recursion.\<close>

fun Parse :: "nat \<Rightarrow> string list \<Rightarrow> result_set \<Rightarrow> (result_set \<times> string list) outcome" where
  "Parse 0 itr impl = Undef"
| "Parse (Suc depth) itr impl =
     (case itr of
        [] \<Rightarrow> Undef
      | token # rest \<Rightarrow>
          (let c = (case token of [] \<Rightarrow> CHR 0x00 | c # _ \<Rightarrow> c) in
           if c = CHR ''+'' then Ret (rs_push (tl token) impl, itr)
           else if c = CHR ''-'' then Ret (impl\<lparr>rs_error := token\<rparr>, itr)
           else if c = CHR '':'' then Ret (rs_push (tl token) impl, itr)
           else if c = CHR ''$'' then
             (if token = ''$-1'' then Ret (impl, itr)
              else bind_outcome (next_token itr) (\<lambda>itr. Ret (rs_push (hd itr) impl, itr)))
           else if c = CHR ''*'' then parse_times (nat (atoi (tl token))) (Parse depth) itr impl
           else Ret (impl\<lparr>rs_error := rs_error impl @ '' '' @ token\<rparr>, itr)))"

text \<open>The loop over the tokens in \<open>Execute\<close>.\<close>

fun parse_tokens :: "nat \<Rightarrow> string list \<Rightarrow> result_set \<Rightarrow> result_set outcome" where
  "parse_tokens n [] impl = Ret impl"
| "parse_tokens 0 (t # ts) impl = Undef"
| "parse_tokens (Suc n) (t # ts) impl =
     bind_outcome (Parse (length (t # ts)) (t # ts) impl) (\<lambda>(impl, itr). parse_tokens n (tl itr) impl)"

section \<open>Reading a reply\<close>

text \<open>One word; \<open>token\<close> is the last word of the segment before, which may go on in this one.\<close>

definition next_word :: "string \<Rightarrow> string list \<times> string \<Rightarrow> string list \<times> string" where
  "next_word w = (\<lambda>(tokens, token).
     let (tokens, token) = (if hd w \<in> set ''+-:$*'' \<and> token \<noteq> [] then (tokens @ [token], []) else (tokens, token))
     in (tokens @ [token @ w], []))"

text \<open>The loop of \<open>Execute\<close>: the tokens and the segments it leaves in the socket; \<open>None\<close> when the socket has no further
  segment (\<open>read_until\<close> waits or throws).\<close>

fun read_reply :: "string list \<Rightarrow> string list \<times> string \<Rightarrow> (string list \<times> string list) option" where
  "read_reply [] st = None"
| "read_reply (seg # segs) st =
     (let (tokens, token) = fold next_word (split_words [] seg) st in
      if tokens = [] then Some ([], segs)
      else if last seg = CHR 0x0A then Some (tokens, segs)
      else read_reply segs (butlast tokens, last tokens))"

text \<open>\<open>Connection::Execute\<close>: the result, the bytes sent, of which \<open>write_some\<close> takes the first \<open>accepted\<close>, and the
  segments left.\<close>

abbreviation CRLF :: string where "CRLF \<equiv> [CHR 0x0D, CHR 0x0A]"

definition redis_Execute ::
  "bool \<Rightarrow> nat \<Rightarrow> string \<Rightarrow> string list \<Rightarrow> result_set outcome option \<times> string \<times> string list" where
  "redis_Execute is_open accepted query segs =
     (if \<not> is_open then (Some (Throw ConnectFailError), [], segs)
      else
        let sent = take accepted (query @ CRLF) in
        case read_reply segs ([], []) of
          None \<Rightarrow> (None, sent, [])
        | Some (tokens, segs) \<Rightarrow> (Some (parse_tokens (length tokens) tokens new_result_set), sent, segs))"

section \<open>The protocol\<close>

datatype redis_value = RSimple string | RInteger int | RBulk string | RNil | RMulti "redis_value list"

fun tokens_of :: "redis_value \<Rightarrow> string list" where
  "tokens_of (RSimple s) = [CHR ''+'' # s]"
| "tokens_of (RInteger i) = [CHR '':'' # dec_int i]"
| "tokens_of (RBulk s) = [CHR ''$'' # dec_digits (length s), s]"
| "tokens_of RNil = [''$-1'']"
| "tokens_of (RMulti vs) = (CHR ''*'' # dec_digits (length vs)) # concat (map tokens_of vs)"

definition encode_lines :: "string list \<Rightarrow> string" where
  "encode_lines ls = concat (map (\<lambda>l. l @ CRLF) ls)"

definition encode :: "redis_value \<Rightarrow> string" where
  "encode v = encode_lines (tokens_of v)"

fun values_of :: "redis_value \<Rightarrow> string list" where
  "values_of (RSimple s) = [s]"
| "values_of (RInteger i) = [dec_int i]"
| "values_of (RBulk s) = [s]"
| "values_of RNil = []"
| "values_of (RMulti vs) = concat (map values_of vs)"

text \<open>Values of words: no blanks, and no empty bulk strings.\<close>

definition is_word :: "string \<Rightarrow> bool" where
  "is_word s \<longleftrightarrow> s \<noteq> [] \<and> (\<forall>c\<in>set s. \<not> is_space c)"

fun wordy :: "redis_value \<Rightarrow> bool" where
  "wordy (RSimple s) \<longleftrightarrow> (\<forall>c\<in>set s. \<not> is_space c)"
| "wordy (RInteger i) \<longleftrightarrow> True"
| "wordy (RBulk s) \<longleftrightarrow> is_word s"
| "wordy RNil \<longleftrightarrow> True"
| "wordy (RMulti vs) \<longleftrightarrow> (\<forall>v\<in>set vs. wordy v)"

section \<open>Tokens of a reply\<close>

lemma split_words_word: "\<forall>c\<in>set w. \<not> is_space c \<Longrightarrow> split_words u (w @ cs) = split_words (u @ w) cs"
  by (induction w arbitrary: u) simp_all

lemma split_words_lines: "\<forall>l\<in>set ls. is_word l \<Longrightarrow> split_words [] (encode_lines ls @ cs) = ls @ split_words [] cs"
  by (induction ls) (simp_all add: encode_lines_def is_word_def split_words_word, simp_all add: is_space_def)

lemma is_word_Cons [simp]: "is_word (c # s) \<longleftrightarrow> \<not> is_space c \<and> (\<forall>c\<in>set s. \<not> is_space c)"
  by (auto simp: is_word_def)

lemma no_spaces:
  "c \<in> set (dec_digits n) \<Longrightarrow> is_space c = False" "c \<in> set (dec_int i) \<Longrightarrow> is_space c = False"
  "is_space (CHR ''$'') = False" "is_space (CHR ''+'') = False" "is_space (CHR '':'') = False" "is_space (CHR ''*'') = False"
  "is_space (CHR ''-'') = False" "is_space (CHR ''1'') = False"
  using dec_digits_digits by (auto simp: dec_int_def is_space_def split: if_splits)

lemma tokens_words: "wordy v \<Longrightarrow> \<forall>t\<in>set (tokens_of v). is_word t"
  by (induction v) (auto simp: no_spaces)

lemma tokens_not_empty [simp]: "tokens_of v \<noteq> []"
  by (cases v) simp_all

lemma fold_next_word: "fold next_word ws (ts, []) = (ts @ ws, [])"
  by (induction ws arbitrary: ts) (simp_all add: next_word_def)

lemma read_lines:
  assumes "\<forall>l\<in>set ls. is_word l" and "ls \<noteq> []"
  shows "read_reply (encode_lines ls # segs) ([], []) = Some (ls, segs)"
proof -
  have "split_words [] (encode_lines ls) = ls" using split_words_lines [OF assms(1), of "[]"] by simp
  moreover have "last (encode_lines ls) = CHR 0x0A"
    using assms(2) by (induction ls rule: rev_induct) (simp_all add: encode_lines_def)
  ultimately show ?thesis using assms(2) by (simp add: fold_next_word)
qed

section \<open>Parsing a reply\<close>

definition add_values :: "string list \<Rightarrow> result_set \<Rightarrow> result_set" where
  "add_values vs impl = impl\<lparr>rs_values := rs_values impl @ vs\<rparr>"

lemma add_values_simps [simp]: "add_values [] impl = impl" "add_values ws (add_values vs impl) = add_values (vs @ ws) impl"
  "rs_push v impl = add_values [v] impl"
  by (simp_all add: add_values_def rs_push_def)

lemma no_minus [simp]: "dec_digits n \<noteq> CHR ''-'' # s"
proof
  assume "dec_digits n = CHR ''-'' # s"
  then show False using dec_digits_digits [of "CHR ''-''" n] by (simp add: is_digit_def)
qed

text \<open>A value is consumed up to its last token.\<close>

lemma Parse_value:
  "length (tokens_of v) \<le> depth \<Longrightarrow>
   \<exists>t. Parse depth (tokens_of v @ ts) impl = Ret (add_values (values_of v) impl, t # ts)"
proof (induction v arbitrary: depth ts impl)
  case (RMulti vs)
  obtain d where d: "depth = Suc d" using RMulti.prems by (cases depth) auto
  have "\<exists>t'. parse_times (length us) (Parse d) (t # concat (map tokens_of us) @ ts) impl =
      Ret (add_values (concat (map values_of us)) impl, t' # ts)"
    if "set us \<subseteq> set vs" "\<forall>u\<in>set us. length (tokens_of u) \<le> d" for us t impl
    using that
  proof (induction us arbitrary: t impl)
    case (Cons u us)
    let ?rest = "concat (map tokens_of us) @ ts"
    obtain t1 where t1: "Parse d (tokens_of u @ ?rest) impl = Ret (add_values (values_of u) impl, t1 # ?rest)"
      using RMulti.IH [of u d ?rest impl] Cons.prems by auto
    obtain t2 where "parse_times (length us) (Parse d) (t1 # ?rest) (add_values (values_of u) impl) =
        Ret (add_values (concat (map values_of us)) (add_values (values_of u) impl), t2 # ts)"
      using Cons.IH [of t1 "add_values (values_of u) impl"] Cons.prems by auto
    moreover have "next_token (t # tokens_of u @ ?rest) = Ret (tokens_of u @ ?rest)"
      by (cases "tokens_of u") simp_all
    ultimately show ?case using t1 by simp
  qed simp
  moreover have "\<forall>u\<in>set vs. length (tokens_of u) \<le> d"
    using RMulti.prems d member_le_sum_list [of _ "map (length \<circ> tokens_of) vs"]
    by (fastforce simp: length_concat comp_def)
  ultimately show ?case using d by simp
next
  case (RSimple s)
  then show ?case by (cases depth) simp_all
next
  case (RInteger i)
  then show ?case by (cases depth) simp_all
next
  case (RBulk s)
  then show ?case by (cases depth) (simp_all)
next
  case RNil
  then show ?case by (cases depth) simp_all
qed

lemma parse_tokens_value:
  "parse_tokens (length (tokens_of v)) (tokens_of v) impl = Ret (add_values (values_of v) impl)"
proof -
  obtain t where "Parse (length (tokens_of v)) (tokens_of v) impl = Ret (add_values (values_of v) impl, [t])"
    using Parse_value [of v "length (tokens_of v)" "[]" impl] by auto
  then show ?thesis by (cases "tokens_of v") simp_all
qed

text \<open>The beginning of a value runs into the end of the tokens.\<close>

lemma Parse_beginning:
  "tokens_of v = p @ q \<Longrightarrow> p \<noteq> [] \<Longrightarrow> q \<noteq> [] \<Longrightarrow> length p \<le> depth \<Longrightarrow> Parse depth p impl = Undef"
proof (induction v arbitrary: p q depth impl)
  case (RMulti vs)
  obtain d where d: "depth = Suc d" using RMulti.prems(2, 4) by (cases depth) auto
  obtain p' where p: "p = (CHR ''*'' # dec_digits (length vs)) # p'" and tail: "concat (map tokens_of vs) = p' @ q"
    using RMulti.prems(1, 2) by (cases p) auto
  have "parse_times (length us) (Parse d) (t # r) impl = Undef"
    if "set us \<subseteq> set vs" "concat (map tokens_of us) = r @ q" "length r \<le> d" for us t r impl
    using that
  proof (induction us arbitrary: t r impl)
    case Nil
    then show ?case using RMulti.prems(3) by simp
  next
    case (Cons u us)
    show ?case
    proof (cases r)
      case (Cons x xs)
      have u: "u \<in> set vs" using Cons.prems(1) by simp
      consider (whole) r' where "r = tokens_of u @ r'" "concat (map tokens_of us) = r' @ q"
        | (part) q' where "tokens_of u = r @ q'" "q' \<noteq> []"
        using Cons.prems(2) unfolding list.map concat.simps append_eq_append_conv2 by (metis append.right_neutral append_Nil)
      then show ?thesis
      proof cases
        case whole
        obtain t1 where "Parse d r impl = Ret (add_values (values_of u) impl, t1 # r')"
          using Parse_value [of u d r' impl] whole(1) Cons.prems(3) by auto
        moreover have "parse_times (length us) (Parse d) (t1 # r') (add_values (values_of u) impl) = Undef"
          using Cons.IH [OF _ whole(2)] Cons.prems(1, 3) whole(1) by simp
        ultimately show ?thesis using Cons by simp
      next
        case part
        have "Parse d r impl = Undef" using RMulti.IH [OF u part(1) _ part(2) Cons.prems(3)] Cons by simp
        then show ?thesis using Cons by simp
      qed
    qed simp
  qed
  then have "parse_times (length vs) (Parse d) p impl = Undef" using tail p d RMulti.prems(4) by simp
  then show ?case using d p by simp
next
  case (RBulk s)
  then have "p = [CHR ''$'' # dec_digits (length s)]" by (cases p; cases "tl p") auto
  then show ?case using RBulk.prems(4) by (cases depth) simp_all
qed (auto simp: append_eq_Cons_conv Cons_eq_append_conv)

section \<open>The depth of the recursion\<close>

lemma next_token_length: "next_token itr = Ret itr' \<Longrightarrow> length itr' < length itr"
  by (cases itr rule: next_token.cases) auto

lemma parse_times_shrinks:
  assumes "\<And>itr impl impl' itr'. f itr impl = Ret (impl', itr') \<Longrightarrow> length itr' \<le> length itr"
  shows "parse_times n f itr impl = Ret (impl', itr') \<Longrightarrow> length itr' \<le> length itr"
proof (induction n arbitrary: itr impl)
  case (Suc n)
  then obtain i where i: "next_token itr = Ret i"
      "bind_outcome (f i impl) (\<lambda>(impl, itr). parse_times n f itr impl) = Ret (impl', itr')"
    by (auto elim: bind_outcome_RetE)
  then obtain a b where "f i impl = Ret (a, b)" "parse_times n f b a = Ret (impl', itr')" by (auto elim: bind_outcome_RetE2)
  then show ?case using Suc.IH assms next_token_length [OF i(1)] by fastforce
qed simp

lemma Parse_shrinks: "Parse d itr impl = Ret (impl', itr') \<Longrightarrow> length itr' \<le> length itr"
proof (induction d arbitrary: itr impl impl' itr')
  case (Suc d)
  have times: "parse_times n (Parse d) itr impl = Ret (impl', itr') \<Longrightarrow> length itr' \<le> length itr" for n
    using Suc.IH by (rule parse_times_shrinks)
  show ?case
  proof (cases itr)
    case Nil
    then show ?thesis using Suc.prems by simp
  next
    case (Cons t ts)
    have after: "length i \<le> length (t # ts)" if "next_token (t # ts) = Ret i" for i
      using next_token_length [OF that] by simp
    have "parse_times n (Parse d) (t # ts) impl = Ret (impl', itr') \<Longrightarrow> length itr' \<le> length (t # ts)" for n
      using times Cons by simp
    then show ?thesis
      using Suc.prems after unfolding Cons
      by (simp add: Let_def del: list.size split: if_split_asm) (auto elim!: bind_outcome_RetE split: if_split_asm)
  qed
qed simp

lemma parse_times_cong:
  assumes "\<And>i impl. length i < m \<Longrightarrow> f i impl = g i impl"
    and "\<And>itr impl impl' itr'. f itr impl = Ret (impl', itr') \<Longrightarrow> length itr' \<le> length itr"
  shows "length itr \<le> m \<Longrightarrow> parse_times n f itr impl = parse_times n g itr impl"
proof (induction n arbitrary: itr impl)
  case (Suc n)
  show ?case
  proof (cases "next_token itr")
    case (Ret i)
    then have i: "length i < m" using next_token_length Suc.prems by fastforce
    then have same: "f i impl = g i impl" by (rule assms(1))
    have "bind_outcome (f i impl) (\<lambda>(impl, itr). parse_times n f itr impl) = bind_outcome (f i impl) (\<lambda>(impl, itr). parse_times n g itr impl)"
    proof (cases "f i impl")
      case (Ret x)
      then have "length (snd x) \<le> m" using assms(2) [of i impl "fst x" "snd x"] i by simp
      then show ?thesis using Ret Suc.IH by (cases x) simp
    qed simp_all
    then show ?thesis using Ret same by simp
  qed simp_all
qed simp

text \<open>As many levels as tokens are enough: more do not change the result.\<close>

lemma Parse_depth: "length itr \<le> d \<Longrightarrow> length itr \<le> e \<Longrightarrow> Parse d itr impl = Parse e itr impl"
proof (induction "length itr" arbitrary: itr d e impl rule: less_induct)
  case less
  show ?case
  proof (cases itr)
    case (Cons t ts)
    with less.prems obtain d' e' where de: "d = Suc d'" "e = Suc e'" by (cases d; cases e) auto
    have "parse_times n (Parse d') itr impl = parse_times n (Parse e') itr impl" for n
    proof (rule parse_times_cong [where m = "length itr"])
      show "Parse d' i impl = Parse e' i impl" if "length i < length itr" for i impl
        using less.hyps [OF that] that less.prems de by simp
      show "length itr' \<le> length itr" if "Parse d' itr impl = Ret (impl', itr')" for itr impl impl' itr'
        using that by (rule Parse_shrinks)
    qed simp
    then show ?thesis unfolding de Cons by (simp add: Let_def)
  qed (cases d; cases e; simp)
qed

section \<open>Properties\<close>

text \<open>C17: when the reply to a query arrives in one segment and its strings are words, the result set holds the values of
  the reply, nested ones in order, there is no error, and the next segment is left in the socket.\<close>

theorem redis_reply_parsed:
  assumes "wordy v"
  shows "redis_Execute True accepted query (encode v # segs) =
    (Some (Ret \<lparr>rs_values = values_of v, rs_error = []\<rparr>), take accepted (query @ CRLF), segs)"
  using read_lines [OF tokens_words [OF assms] tokens_not_empty, of segs] parse_tokens_value [of v new_result_set]
  by (simp add: redis_Execute_def encode_def add_values_def new_result_set_def)

theorem redis_reply_parsed_witness:
  "redis_Execute True 9 ''GET a'' [encode (RMulti [RBulk ''x'', RNil, RInteger (-3)])] =
    (Some (Ret \<lparr>rs_values = [''x'', ''-3''], rs_error = []\<rparr>), ''GET a'' @ CRLF, [])"
  using redis_reply_parsed [of "RMulti [RBulk ''x'', RNil, RInteger (-3)]" 9 "''GET a''" "[]"]
  by (simp add: is_word_def is_space_def dec_int_def dec_digits.simps)

text \<open>A reply that is cut at the end of a line, its rest arriving in a later segment, makes the code read behind the
  end of the list of tokens; the rest of the reply stays in the socket for the next query.\<close>

theorem cut_reply_reads_past_end:
  assumes "wordy v" and "tokens_of v = p @ q" and "p \<noteq> []" and "q \<noteq> []"
  shows "redis_Execute True accepted query (encode_lines p # encode_lines q # segs) =
    (Some Undef, take accepted (query @ CRLF), encode_lines q # segs)"
proof -
  have words: "\<forall>t\<in>set p. is_word t" using tokens_words [OF assms(1)] assms(2) by simp
  obtain x xs where p: "p = x # xs" using assms(3) by (cases p) auto
  have "Parse (length p) p new_result_set = Undef" by (rule Parse_beginning [OF assms(2-4)]) simp
  then show ?thesis using read_lines [OF words assms(3)] p by (simp add: redis_Execute_def)
qed

theorem cut_reply_reads_past_end_witness:
  "redis_Execute True 7 ''GET a'' [encode_lines [''$1''], encode_lines [''x''], ''+OK'' @ CRLF] =
    (Some Undef, ''GET a'' @ CRLF, [encode_lines [''x''], ''+OK'' @ CRLF])"
  using cut_reply_reads_past_end [of "RBulk ''x''" "[''$1'']" "[''x'']" 7 "''GET a''" "[''+OK'' @ CRLF]"]
  by (simp add: is_space_def dec_digits.simps)

text \<open>A string value with a blank in it comes back without what follows the blank, which is reported as an error.\<close>

theorem blank_splits_value:
  assumes "is_word a" and "is_word b" and "hd b \<notin> set ''+-:$*''"
  shows "redis_Execute True accepted query (encode (RBulk (a @ '' '' @ b)) # segs) =
    (Some (Ret \<lparr>rs_values = [a], rs_error = '' '' @ b\<rparr>), take accepted (query @ CRLF), segs)"
proof -
  let ?n = "CHR ''$'' # dec_digits (length (a @ '' '' @ b))"
  let ?ts = "[?n, a, b]"
  have words: "\<forall>t\<in>set [?n]. is_word t" by (simp add: no_spaces)
  have "encode (RBulk (a @ '' '' @ b)) = encode_lines [?n] @ a @ '' '' @ b @ CRLF" by (simp add: encode_def encode_lines_def)
  then have "split_words [] (encode (RBulk (a @ '' '' @ b))) = ?ts"
    using split_words_lines [OF words, of "a @ '' '' @ b @ CRLF"] assms(1, 2)
    by (simp add: split_words_word is_word_def is_space_def)
  moreover have "last (encode (RBulk (a @ '' '' @ b))) = CHR 0x0A" by (simp add: encode_def encode_lines_def)
  moreover have "fold next_word ?ts ([], []) = (?ts, [])" using fold_next_word [of ?ts "[]"] by simp
  ultimately have read: "read_reply (encode (RBulk (a @ '' '' @ b)) # segs) ([], []) = Some (?ts, segs)"
    unfolding read_reply.simps by (simp only: Let_def prod.case if_True list.distinct if_False refl)
  obtain c r where b: "b = c # r" using assms(2) by (cases b) (auto simp: is_word_def)
  have "parse_tokens (length ?ts) ?ts new_result_set = Ret \<lparr>rs_values = [a], rs_error = '' '' @ b\<rparr>"
    using assms(3) b by (simp add: numeral_eq_Suc new_result_set_def add_values_def)
  then show ?thesis using read by (simp add: redis_Execute_def)
qed

theorem blank_splits_value_witness:
  "redis_Execute True 7 ''GET a'' [encode (RBulk ''John Doe'')] =
    (Some (Ret \<lparr>rs_values = [''John''], rs_error = '' Doe''\<rparr>), ''GET a'' @ CRLF, [])"
  using blank_splits_value [of "''John''" "''Doe''" 7 "''GET a''" "[]"] by (simp add: is_word_def is_space_def)

end
