(* ===== verification/Mysql_Result.thy ===== *)
theory Mysql_Result
  imports Gamnet_Prelude
begin

text \<open>
  Queries and result sets of MySQL, \<^verbatim>\<open>Gamnet/Database/MySQL/Connection.cpp\<close> and \<^verbatim>\<open>ResultSet.cpp\<close>. The client library is
  a record of functions; what its manual says of them is \<open>documented\<close>. All iterators of a result set work on the one
  cursor inside its \<open>MYSQL_RES\<close>, which is therefore part of the state each operation returns.
\<close>

section \<open>The client library\<close>

text \<open>\<open>row_cells\<close> reads the array behind a \<open>MYSQL_ROW\<close>: a null pointer for an SQL NULL.\<close>

record ('res, 'row) mysql_api =
  mysql_data_seek :: "'res \<Rightarrow> nat \<Rightarrow> 'res"
  mysql_fetch_row :: "'res \<Rightarrow> 'row option \<times> 'res"
  mysql_num_rows :: "'res \<Rightarrow> nat"
  row_cells :: "'row \<Rightarrow> string option list"

text \<open>A stored result has rows and a cursor.\<close>

definition documented :: "('res, 'row) mysql_api \<Rightarrow> ('res \<Rightarrow> 'row list) \<Rightarrow> ('res \<Rightarrow> nat) \<Rightarrow> bool" where
  "documented api rows cursor \<longleftrightarrow>
     (\<forall>res. mysql_num_rows api res = length (rows res) \<and> (\<forall>r\<in>set (rows res). row_cells api r \<noteq> [])) \<and>
     (\<forall>res n. rows (mysql_data_seek api res n) = rows res \<and> cursor (mysql_data_seek api res n) = n) \<and>
     (\<forall>res. fst (mysql_fetch_row api res) = (if cursor res < length (rows res) then Some (rows res ! cursor res) else None) \<and>
        rows (snd (mysql_fetch_row api res)) = rows res \<and>
        (cursor res < length (rows res) \<longrightarrow> cursor (snd (mysql_fetch_row api res)) = Suc (cursor res)))"

text \<open>What the library answers about one query.\<close>

record 'res mysql_answer =
  mysql_real_query :: int
  mysql_errno :: int
  mysql_field_count :: nat
  mysql_store_result :: "'res option"
  mysql_fields :: "string list"
  mysql_affected_rows :: u64
  mysql_insert_id :: u64

section \<open>Queries\<close>

record 'res result_impl =
  mr_res :: "'res option"
  mr_affectedRowCount :: u32
  mr_lastInsertID :: u32
  mr_mapColumnName :: "string \<rightharpoonup> u16"

definition new_result_impl :: "'res result_impl" where
  "new_result_impl = \<lparr>mr_res = None, mr_affectedRowCount = 0, mr_lastInsertID = 0, mr_mapColumnName = Map.empty\<rparr>"

fun column_names :: "u32 \<Rightarrow> string list \<Rightarrow> (string \<rightharpoonup> u16) \<Rightarrow> (string \<rightharpoonup> u16)" where
  "column_names i [] m = m"
| "column_names i (name # names) m = column_names (i + 1) names (m(name \<mapsto> ucast i))"

definition mysql_Execute :: "(string \<Rightarrow> 'res mysql_answer) \<Rightarrow> string \<Rightarrow> 'res result_impl outcome" where
  "mysql_Execute server query =
     (let a = server query in
      if 0 \<noteq> mysql_real_query a then Throw (mysql_errno a)
      else if 0 < mysql_field_count a then
        (case mysql_store_result a of
           None \<Rightarrow> Throw (mysql_errno a)
         | Some res \<Rightarrow> Ret (new_result_impl\<lparr>mr_res := Some res, mr_mapColumnName := column_names 0 (mysql_fields a) Map.empty\<rparr>))
      else Ret (new_result_impl\<lparr>mr_affectedRowCount := ucast (mysql_affected_rows a), mr_lastInsertID := ucast (mysql_insert_id a)\<rparr>))"

section \<open>Result sets\<close>

text \<open>\<open>impl_\<close> of a result set may be null. The iterator's \<open>row_\<close> is \<open>Undef\<close> while it is not initialised.\<close>

type_synonym 'res result_state = "'res result_impl option"

record 'row row_iterator =
  it_impl :: bool
  it_row :: "'row option outcome"

definition GetAffectedRow :: "'res result_state \<Rightarrow> u32" where
  "GetAffectedRow s = (case s of None \<Rightarrow> 0 | Some impl \<Rightarrow> mr_affectedRowCount impl)"

definition GetRowCount :: "('res, 'row) mysql_api \<Rightarrow> 'res result_state \<Rightarrow> u32" where
  "GetRowCount api s = (case s of None \<Rightarrow> 0 | Some impl \<Rightarrow>
     (case mr_res impl of None \<Rightarrow> 0 | Some res \<Rightarrow> of_nat (mysql_num_rows api res)))"

definition GetLastInsertID :: "'res result_state \<Rightarrow> u32 outcome" where
  "GetLastInsertID s = (case s of None \<Rightarrow> Undef | Some impl \<Rightarrow> Ret (mr_lastInsertID impl))"

text \<open>\<open>begin\<close>; the first row counts as none when its first cell is a null pointer.\<close>

definition rs_begin :: "('res, 'row) mysql_api \<Rightarrow> 'res result_state \<Rightarrow> ('row row_iterator \<times> 'res result_state) outcome" where
  "rs_begin api s =
     (case s of
        None \<Rightarrow> Ret (\<lparr>it_impl = False, it_row = Undef\<rparr>, s)
      | Some impl \<Rightarrow>
          (case mr_res impl of
             None \<Rightarrow> Undef
           | Some res \<Rightarrow>
               (let (row, res) = mysql_fetch_row api (mysql_data_seek api res 0);
                    s = Some (impl\<lparr>mr_res := Some res\<rparr>) in
                case row of
                  None \<Rightarrow> Ret (\<lparr>it_impl = True, it_row = Ret None\<rparr>, s)
                | Some r \<Rightarrow>
                    (case row_cells api r of
                       [] \<Rightarrow> Undef
                     | None # _ \<Rightarrow> Ret (\<lparr>it_impl = True, it_row = Ret None\<rparr>, s)
                     | Some _ # _ \<Rightarrow> Ret (\<lparr>it_impl = True, it_row = Ret (Some r)\<rparr>, s)))))"

definition rs_end :: "'row row_iterator" where
  "rs_end = \<lparr>it_impl = False, it_row = Ret None\<rparr>"

text \<open>\<open>operator++\<close>.\<close>

definition it_next :: "('res, 'row) mysql_api \<Rightarrow> 'row row_iterator \<Rightarrow> 'res result_state \<Rightarrow> ('row row_iterator \<times> 'res result_state) outcome" where
  "it_next api itr s =
     (if \<not> it_impl itr then Ret (itr\<lparr>it_row := Ret None\<rparr>, s)
      else case s of
        None \<Rightarrow> Undef
      | Some impl \<Rightarrow>
          (case mr_res impl of
             None \<Rightarrow> Undef
           | Some res \<Rightarrow> (let (row, res) = mysql_fetch_row api res
                          in Ret (itr\<lparr>it_row := Ret row\<rparr>, Some (impl\<lparr>mr_res := Some res\<rparr>)))))"

definition it_differs :: "'row row_iterator \<Rightarrow> 'row row_iterator \<Rightarrow> bool outcome" where
  "it_differs a b = bind_outcome (it_row a) (\<lambda>r. bind_outcome (it_row b) (\<lambda>q. Ret (r \<noteq> q)))"


text \<open>\<open>operator[]\<close> of a result set.\<close>

definition row_at :: "('res, 'row) mysql_api \<Rightarrow> nat \<Rightarrow> 'res result_state \<Rightarrow> 'row row_iterator outcome \<times> 'res result_state" where
  "row_at api index s =
     (case s of
        None \<Rightarrow> (Throw NullPointerError, s)
      | Some impl \<Rightarrow>
          (case mr_res impl of
             None \<Rightarrow> (Throw NullPointerError, s)
           | Some res \<Rightarrow>
               if index \<ge> mysql_num_rows api res then (Throw InvalidArrayRangeError, s)
               else (let (row, res) = mysql_fetch_row api (mysql_data_seek api res index)
                     in (Ret \<lparr>it_impl = True, it_row = Ret row\<rparr>, Some (impl\<lparr>mr_res := Some res\<rparr>)))))"

text \<open>\<open>getString\<close>; a \<open>std::string\<close> of a null pointer is undefined.\<close>

definition getString :: "('res, 'row) mysql_api \<Rightarrow> string \<Rightarrow> 'row row_iterator \<Rightarrow> 'res result_state \<Rightarrow> string outcome" where
  "getString api column_name itr s =
     (if \<not> it_impl itr then Undef
      else case s of
        None \<Rightarrow> Undef
      | Some impl \<Rightarrow>
          (case mr_mapColumnName impl column_name of
             None \<Rightarrow> Throw InvalidKeyError
           | Some i \<Rightarrow> bind_outcome (it_row itr) (\<lambda>row.
               case row of
                 None \<Rightarrow> Throw NullPointerError
               | Some r \<Rightarrow> if unat i < length (row_cells api r)
                   then (case row_cells api r ! unat i of None \<Rightarrow> Undef | Some text \<Rightarrow> Ret text) else Undef)))"

text \<open>\<open>for (auto itr = rs.begin(); itr != rs.end(); itr++) visit(itr)\<close>: the rows visited; \<open>None\<close> when \<open>fuel\<close> turns are not
  enough.\<close>

fun visit_from ::
  "nat \<Rightarrow> ('res, 'row) mysql_api \<Rightarrow> 'row row_iterator \<Rightarrow> 'res result_state \<Rightarrow> 'row list outcome option" where
  "visit_from 0 api itr s = None"
| "visit_from (Suc fuel) api itr s =
     (case it_differs itr rs_end of
        Ret True \<Rightarrow>
          (case it_next api itr s of
             Ret (itr', s) \<Rightarrow>
               map_option (\<lambda>r. bind_outcome (it_row itr) (\<lambda>row. bind_outcome r (\<lambda>rows. Ret (the row # rows)))) (visit_from fuel api itr' s)
           | Throw e \<Rightarrow> Some (Throw e)
           | Undef \<Rightarrow> Some Undef)
      | Ret False \<Rightarrow> Some (Ret [])
      | Throw e \<Rightarrow> Some (Throw e)
      | Undef \<Rightarrow> Some Undef)"

definition visit_rows :: "nat \<Rightarrow> ('res, 'row) mysql_api \<Rightarrow> 'res result_state \<Rightarrow> 'row list outcome option" where
  "visit_rows fuel api s =
     (case rs_begin api s of Ret (itr, s) \<Rightarrow> visit_from fuel api itr s | Throw e \<Rightarrow> Some (Throw e) | Undef \<Rightarrow> Some Undef)"

section \<open>The destructor of a result\<close>

text \<open>Frees the result and the further results of a multi-statement query, of which the connection still holds
  \<open>pending\<close>; \<open>next_result\<close> gives the status and the result (there is none for a statement without rows). The number of
  results freed.\<close>

fun free_results :: "(int \<times> 'res option) list \<Rightarrow> nat" where
  "free_results [] = 0"
| "free_results ((status, res) # pending) =
     (if status = 0 then (if res \<noteq> None then 1 else 0) + free_results pending else 0)"

definition destroy_result_impl :: "'res result_impl \<Rightarrow> bool \<Rightarrow> (int \<times> 'res option) list \<Rightarrow> nat" where
  "destroy_result_impl impl mysql_more_results pending =
     (if mr_res impl \<noteq> None then 1 + (if mysql_more_results then free_results pending else 0) else 0)"

section \<open>Walking the rows\<close>

lemma documentedD:
  assumes "documented api rows cursor"
  shows "mysql_num_rows api res = length (rows res)" and "\<forall>r\<in>set (rows res). row_cells api r \<noteq> []"
    and "rows (mysql_data_seek api res n) = rows res" and "cursor (mysql_data_seek api res n) = n"
    and "cursor res < length (rows res) \<Longrightarrow> \<exists>res'. mysql_fetch_row api res = (Some (rows res ! cursor res), res') \<and> rows res' = rows res \<and> cursor res' = Suc (cursor res)"
    and "\<not> cursor res < length (rows res) \<Longrightarrow> \<exists>res'. mysql_fetch_row api res = (None, res')"
  using assms unfolding documented_def by (auto simp: prod_eq_iff)

lemma it_differs_end: "it_differs \<lparr>it_impl = b, it_row = Ret row\<rparr> rs_end = Ret (row \<noteq> None)"
  by (simp add: it_differs_def rs_end_def)

lemma visit_from_row:
  assumes "documented api rows cursor"
  shows "cursor res \<le> length (rows res) \<Longrightarrow> length (rows res) - cursor res + 1 < fuel \<Longrightarrow>
    visit_from fuel api \<lparr>it_impl = True, it_row = Ret (Some r)\<rparr> (Some (impl\<lparr>mr_res := Some res\<rparr>)) =
      Some (Ret (r # drop (cursor res) (rows res)))"
proof (induction "length (rows res) - cursor res" arbitrary: fuel r res)
  case 0
  obtain f where f: "fuel = Suc (Suc f)" using 0 by (cases fuel; cases "fuel - 1") auto
  obtain res' where "mysql_fetch_row api res = (None, res')" using documentedD(6) [OF assms, of res] 0 by auto
  then show ?case using 0 by (simp add: f it_differs_end it_next_def)
next
  case (Suc n)
  obtain f where f: "fuel = Suc f" using Suc.prems by (cases fuel) auto
  have more: "cursor res < length (rows res)" using Suc.hyps(2) by simp
  obtain res' where res': "mysql_fetch_row api res = (Some (rows res ! cursor res), res')" "rows res' = rows res" "cursor res' = Suc (cursor res)"
    using documentedD(5) [OF assms more] by blast
  have "visit_from f api \<lparr>it_impl = True, it_row = Ret (Some (rows res ! cursor res))\<rparr> (Some (impl\<lparr>mr_res := Some res'\<rparr>)) =
      Some (Ret (rows res ! cursor res # drop (Suc (cursor res)) (rows res)))"
    using Suc.hyps(1) [of res' f "rows res ! cursor res"] Suc.hyps(2) Suc.prems res' more f by simp
  then show ?case using res'(1) Cons_nth_drop_Suc [OF more] by (simp add: f it_differs_end it_next_def)
qed

section \<open>Properties\<close>

text \<open>The loop over a stored result visits its rows, each once and in their order, when the first cell of the first row
  is not NULL; the number of rows plus two turns are enough.\<close>

theorem rows_visited_in_order:
  assumes "documented api rows cursor" and "mr_res impl = Some res"
    and "rows res \<noteq> [] \<Longrightarrow> hd (row_cells api (hd (rows res))) \<noteq> None" and "fuel > length (rows res) + 1"
  shows "visit_rows fuel api (Some impl) = Some (Ret (rows res))"
proof -
  let ?res = "mysql_data_seek api res 0"
  note seek = documentedD(3,4) [OF assms(1), of res 0]
  obtain f where f: "fuel = Suc f" using assms(4) by (cases fuel) auto
  show ?thesis
  proof (cases "rows res")
    case Nil
    then obtain res' where "mysql_fetch_row api ?res = (None, res')" using documentedD(6) [OF assms(1), of ?res] seek by auto
    then show ?thesis using assms(2) Nil by (simp add: f visit_rows_def rs_begin_def it_differs_end)
  next
    case (Cons r rs)
    obtain res' where res': "mysql_fetch_row api ?res = (Some r, res')" "rows res' = rows res" "cursor res' = 1"
      using documentedD(5) [OF assms(1), of ?res] seek Cons by auto
    have "row_cells api r \<noteq> []" using documentedD(2) [OF assms(1), of res] Cons by simp
    then obtain c cs where "row_cells api r = Some c # cs" using assms(3) Cons by (cases "row_cells api r") auto
    then have "visit_rows fuel api (Some impl) = visit_from fuel api \<lparr>it_impl = True, it_row = Ret (Some r)\<rparr> (Some (impl\<lparr>mr_res := Some res'\<rparr>))"
      using res'(1) assms(2) by (simp add: visit_rows_def rs_begin_def)
    also have "\<dots> = Some (Ret (rows res))"
      using visit_from_row [OF assms(1), of res' fuel r impl] res' Cons assms(4) by simp
    finally show ?thesis .
  qed
qed

text \<open>The library of the witnesses, for one result: its state is the cursor.\<close>

definition list_api :: "string option list list \<Rightarrow> (nat, string option list) mysql_api" where
  "list_api rows = \<lparr>mysql_data_seek = (\<lambda>c n. n),
     mysql_fetch_row = (\<lambda>c. if c < length rows then (Some (rows ! c), Suc c) else (None, c)),
     mysql_num_rows = (\<lambda>c. length rows), row_cells = id\<rparr>"

lemma list_api_documented:
  assumes "\<forall>r\<in>set rows. r \<noteq> []"
  shows "documented (list_api rows) (\<lambda>c. rows) id"
  using assms by (auto simp: documented_def list_api_def)

theorem rows_visited_in_order_witness:
  "let rows = [[Some ''ann'', None], [None, Some ''bob'']] in
   visit_rows 9 (list_api rows) (Some (new_result_impl\<lparr>mr_res := Some 7\<rparr>)) = Some (Ret rows)"
  using rows_visited_in_order [OF list_api_documented, of "[[Some ''ann'', None], [None, Some ''bob'']]" "new_result_impl\<lparr>mr_res := Some 7\<rparr>" 7 9]
  by (simp add: Let_def list_api_def)

text \<open>When the first cell of the first row is NULL the loop visits nothing, however many rows there are.\<close>

theorem null_first_cell_hides_rows:
  assumes "documented api rows cursor" and "mr_res impl = Some res"
    and "rows res = r # rs" and "row_cells api r = None # cs"
  shows "visit_rows (Suc fuel) api (Some impl) = Some (Ret []) \<and> GetRowCount api (Some impl) = of_nat (Suc (length rs))"
proof -
  let ?res = "mysql_data_seek api res 0"
  obtain res' where "mysql_fetch_row api ?res = (Some r, res')"
    using documentedD(5) [OF assms(1), of ?res] documentedD(3,4) [OF assms(1), of res 0] assms(3) by auto
  then show ?thesis
    using assms(2-4) documentedD(1) [OF assms(1), of res] by (simp add: visit_rows_def rs_begin_def it_differs_end GetRowCount_def)
qed

theorem null_first_cell_hides_rows_witness:
  "let rows = [[None, Some ''ann''], [Some ''1'', Some ''bob'']] in
   visit_rows 9 (list_api rows) (Some (new_result_impl\<lparr>mr_res := Some 7\<rparr>)) = Some (Ret [])"
  using null_first_cell_hides_rows [OF list_api_documented, of "[[None, Some ''ann''], [Some ''1'', Some ''bob'']]" "new_result_impl\<lparr>mr_res := Some 7\<rparr>" 7
      "[None, Some ''ann'']" "[[Some ''1'', Some ''bob'']]" "[Some ''ann'']" 8]
  by (simp add: Let_def list_api_def)

text \<open>\<open>operator[]\<close> gives the row of its index or throws, and moves every iterator: whatever row an iterator was at,
  its next row is the one behind the index.\<close>

theorem index_moves_iterators:
  assumes "documented api rows cursor" and "mr_res impl = Some res" and "index < length (rows res)"
  shows "\<exists>s. row_at api index (Some impl) = (Ret \<lparr>it_impl = True, it_row = Ret (Some (rows res ! index))\<rparr>, s) \<and>
    (\<forall>itr. it_impl itr \<longrightarrow> (\<exists>itr' s'. it_next api itr s = Ret (itr', s') \<and>
       it_row itr' = Ret (if Suc index < length (rows res) then Some (rows res ! Suc index) else None)))"
proof -
  let ?res = "mysql_data_seek api res index"
  note seek = documentedD(3,4) [OF assms(1), of res index]
  obtain res' where res': "mysql_fetch_row api ?res = (Some (rows res ! index), res')" "rows res' = rows res" "cursor res' = Suc index"
    using documentedD(5) [OF assms(1), of ?res] seek assms(3) by auto
  obtain row res'' where "mysql_fetch_row api res' = (row, res'')"
      "row = (if Suc index < length (rows res) then Some (rows res ! Suc index) else None)"
    using documentedD(5,6) [OF assms(1), of res'] res'(2,3) by (cases "Suc index < length (rows res)") auto
  then show ?thesis
    using res'(1) assms(2,3) documentedD(1) [OF assms(1), of res] by (auto simp: row_at_def it_next_def)
qed

theorem index_moves_iterators_witness:
  "let rows = [[Some ''a''], [Some ''b''], [Some ''c'']]; impl = new_result_impl\<lparr>mr_res := Some 2\<rparr> in
   \<exists>s. row_at (list_api rows) 0 (Some impl) = (Ret \<lparr>it_impl = True, it_row = Ret (Some [Some ''a''])\<rparr>, s)"
  using index_moves_iterators [OF list_api_documented, of "[[Some ''a''], [Some ''b''], [Some ''c'']]" "new_result_impl\<lparr>mr_res := Some 2\<rparr>" 2 0]
  by (auto simp: Let_def)

section \<open>Columns\<close>

lemma column_names_absent: "n \<notin> set names \<Longrightarrow> column_names i names m n = m n"
  by (induction names arbitrary: i m) auto

lemma column_names_nth:
  "distinct names \<Longrightarrow> k < length names \<Longrightarrow> column_names i names m (names ! k) = Some (ucast (i + of_nat k))"
proof (induction names arbitrary: i m k)
  case (Cons name names)
  show ?case using Cons by (cases k) (simp_all add: column_names_absent algebra_simps)
qed simp

text \<open>After a query with rows, whose columns have different names, \<open>getString\<close> reads the cell of the named column of
  the iterator's row; an unknown name throws, and a cell that is NULL is undefined.\<close>

theorem getString_reads_column:
  assumes "mysql_real_query (server query) = 0" and "mysql_field_count (server query) \<noteq> 0"
    and "mysql_store_result (server query) = Some res" and "distinct (mysql_fields (server query))"
    and "length (mysql_fields (server query)) \<le> 2 ^ 16" and "length (row_cells api r) = length (mysql_fields (server query))"
  shows "\<exists>impl. mysql_Execute server query = Ret impl \<and>
    (\<forall>k < length (mysql_fields (server query)).
       getString api (mysql_fields (server query) ! k) \<lparr>it_impl = True, it_row = Ret (Some r)\<rparr> (Some impl) =
         (case row_cells api r ! k of None \<Rightarrow> Undef | Some text \<Rightarrow> Ret text)) \<and>
    (\<forall>name. name \<notin> set (mysql_fields (server query)) \<longrightarrow>
       getString api name \<lparr>it_impl = True, it_row = Ret (Some r)\<rparr> (Some impl) = Throw InvalidKeyError)"
proof -
  let ?names = "mysql_fields (server query)"
  let ?impl = "new_result_impl\<lparr>mr_res := Some res, mr_mapColumnName := column_names 0 ?names Map.empty\<rparr>"
  have "getString api (?names ! k) \<lparr>it_impl = True, it_row = Ret (Some r)\<rparr> (Some ?impl) =
      (case row_cells api r ! k of None \<Rightarrow> Undef | Some text \<Rightarrow> Ret text)" if k: "k < length ?names" for k
  proof -
    have "k < 2 ^ 16" using k assms(5) by simp
    then have "unat (ucast (of_nat k :: u32) :: u16) = k" by (simp add: unsigned_ucast_eq unat_of_nat take_bit_nat_eq_self)
    then show ?thesis using column_names_nth [OF assms(4) k, of 0 Map.empty] k assms(6) by (simp add: getString_def)
  qed
  moreover have "mysql_Execute server query = Ret ?impl" using assms(1-3) by (simp add: mysql_Execute_def)
  moreover have "getString api n \<lparr>it_impl = True, it_row = Ret (Some r)\<rparr> (Some ?impl) = Throw InvalidKeyError" if "n \<notin> set ?names" for n
    using column_names_absent [OF that, of 0 Map.empty] by (simp add: getString_def)
  ultimately show ?thesis by blast
qed

theorem getString_reads_column_witness:
  "let server = (\<lambda>q. \<lparr>mysql_real_query = 0, mysql_errno = 0, mysql_field_count = 2, mysql_store_result = Some 0,
         mysql_fields = [''id'', ''name''], mysql_affected_rows = 0, mysql_insert_id = 0\<rparr>) in
   \<exists>impl. mysql_Execute server ''select'' = Ret impl \<and>
     getString (list_api []) ''name'' \<lparr>it_impl = True, it_row = Ret (Some [Some ''1'', Some ''ann''])\<rparr> (Some impl) = Ret ''ann''"
proof -
  let ?server = "\<lambda>q. \<lparr>mysql_real_query = 0, mysql_errno = 0, mysql_field_count = 2, mysql_store_result = Some (0 :: nat),
         mysql_fields = [''id'', ''name''], mysql_affected_rows = 0, mysql_insert_id = 0\<rparr>"
  obtain impl where "mysql_Execute ?server ''select'' = Ret impl"
    "\<forall>k < length (mysql_fields (?server ''select'')).
       getString (list_api []) (mysql_fields (?server ''select'') ! k) \<lparr>it_impl = True, it_row = Ret (Some [Some ''1'', Some ''ann''])\<rparr> (Some impl) =
         (case row_cells (list_api []) [Some ''1'', Some ''ann''] ! k of None \<Rightarrow> Undef | Some text \<Rightarrow> Ret text)"
    using getString_reads_column [of ?server "''select''" 0 "list_api []" "[Some ''1'', Some ''ann'']"] by (auto simp: list_api_def)
  then show ?thesis unfolding Let_def by (intro exI [of _ impl]) (auto simp: list_api_def dest: spec [of _ 1])
qed

end
