(* ===== verification/Log_Writer.thy ===== *)
theory Log_Writer
  imports Gamnet_Prelude
begin

text \<open>
  The log, \<^verbatim>\<open>Gamnet/Log\<close>: levels with their outputs, the log file and its change to a new file every day and above a
  size. The file system is a map from names to texts and a set of directories; the clock is an argument.
\<close>

section \<open>Time and text\<close>

record tm =
  tm_year :: int
  tm_mon :: int
  tm_mday :: int
  tm_hour :: int
  tm_min :: int
  tm_sec :: int
  tm_yday :: int

text \<open>\<open>%0nd\<close> of a number that is not negative.\<close>

definition padded :: "nat \<Rightarrow> int \<Rightarrow> string" where
  "padded n i = replicate (n - length (dec_int i)) (CHR ''0'') @ dec_int i"

text \<open>\<open>snprintf\<close> into an array of \<open>n\<close> characters leaves at most \<open>n - 1\<close>.\<close>

definition day_text :: "tm \<Rightarrow> string" where
  "day_text now = take 9 (padded 4 (tm_year now + 1900) @ padded 2 (tm_mon now + 1) @ padded 2 (tm_mday now))"

definition second_text :: "tm \<Rightarrow> string" where
  "second_text now = take 19 (padded 4 (tm_year now + 1900) @ padded 2 (tm_mon now + 1) @ padded 2 (tm_mday now) @ ''_'' @
     padded 2 (tm_hour now) @ padded 2 (tm_min now) @ padded 2 (tm_sec now))"

definition time_text :: "tm \<Rightarrow> string" where
  "time_text now = take 21 (''['' @ padded 4 (tm_year now + 1900) @ ''-'' @ padded 2 (tm_mon now + 1) @ ''-'' @ padded 2 (tm_mday now) @
     '' '' @ padded 2 (tm_hour now) @ '':'' @ padded 2 (tm_min now) @ '':'' @ padded 2 (tm_sec now) @ '']'')"

text \<open>What a function of the system sees of a string.\<close>

definition c_str :: "string \<Rightarrow> string" where
  "c_str s = takeWhile (\<lambda>c. c \<noteq> CHR 0x00) s"

section \<open>Files\<close>

record file_system =
  fs_files :: "string \<rightharpoonup> string"
  fs_dirs :: "string set"

text \<open>The stream: the name of the open file, \<open>None\<close> when it is closed or its opening failed.\<close>

record log_file =
  lf_stream :: "string option"
  lf_prefix :: string
  lf_filename :: string
  lf_logPath :: string
  lf_today :: tm
  lf_filesize :: int

definition zero_tm :: tm where
  "zero_tm = \<lparr>tm_year = 0, tm_mon = 0, tm_mday = 0, tm_hour = 0, tm_min = 0, tm_sec = 0, tm_yday = 0\<rparr>"

definition new_log_file :: log_file where
  "new_log_file = \<lparr>lf_stream = None, lf_prefix = [], lf_filename = [], lf_logPath = [], lf_today = zero_tm, lf_filesize = 0\<rparr>"

text \<open>Opening for output at the end: creates the file when there is none, and fails for a directory.\<close>

definition open_append :: "string \<Rightarrow> file_system \<Rightarrow> string option \<times> file_system" where
  "open_append name fs =
     (if c_str name \<in> fs_dirs fs then (None, fs)
      else (Some (c_str name), fs\<lparr>fs_files := (fs_files fs)(c_str name \<mapsto> case fs_files fs (c_str name) of None \<Rightarrow> [] | Some t \<Rightarrow> t)\<rparr>))"

text \<open>\<open>file_size\<close>, stored in an \<open>int\<close>; it throws when there is no such file, for which the code takes the largest \<open>int\<close>.\<close>

definition size_of_file :: "string \<Rightarrow> file_system \<Rightarrow> int" where
  "size_of_file name fs =
     (case fs_files fs (c_str name) of None \<Rightarrow> 2 ^ 31 - 1 | Some t \<Rightarrow> sint (of_nat (length t) :: u32))"

definition switch_file :: "string \<Rightarrow> tm \<Rightarrow> log_file \<Rightarrow> file_system \<Rightarrow> log_file \<times> file_system" where
  "switch_file datebuf now f fs =
     (let name = lf_logPath f @ ''/'' @ lf_prefix f @ ''_'' @ datebuf @ ''.txt'';
          (stream, fs) = open_append name fs
      in (f\<lparr>lf_today := now, lf_filename := name, lf_stream := stream\<rparr>, fs))"

definition file_open :: "tm \<Rightarrow> log_file \<Rightarrow> file_system \<Rightarrow> log_file \<times> file_system" where
  "file_open now f fs =
     (let (f, fs) = (if tm_year (lf_today f) \<noteq> tm_year now \<or> tm_yday (lf_today f) \<noteq> tm_yday now
                     then switch_file (day_text now) now f fs else (f, fs))
      in if lf_filesize f < size_of_file (lf_filename f) fs then switch_file (second_text now) now f fs else (f, fs))"

section \<open>The logger\<close>

datatype log_level = LOG_LEVEL_MIN | LOG_LEVEL_DEV | LOG_LEVEL_INF | LOG_LEVEL_WRN | LOG_LEVEL_ERR

definition LOG_STDERR :: u32 where "LOG_STDERR = 0x00000001"
definition LOG_FILE :: u32 where "LOG_FILE = 0x00000010"
definition LOG_SYSLOG :: u32 where "LOG_SYSLOG = 0x00000100"

record logger =
  lg_Property :: "log_level \<Rightarrow> u32"
  lg_IsInit :: bool
  lg_file :: log_file

text \<open>A logger in static storage: its members start as zero.\<close>

definition new_logger :: logger where
  "new_logger = \<lparr>lg_Property = (\<lambda>_. 0), lg_IsInit = False, lg_file = new_log_file\<rparr>"

record log_output =
  std_err :: "string list"
  std_out :: "string list"
  lo_fs :: file_system

definition NotInitializedError :: int where "NotInitializedError = 50"
definition CreateDirectoryFailError :: int where "CreateDirectoryFailError = 90"

unbundle bit_operations_syntax

text \<open>The part of \<open>Write\<close> that prints on the console.\<close>

definition log_console :: "u32 \<Rightarrow> log_level \<Rightarrow> string \<Rightarrow> log_output \<Rightarrow> log_output" where
  "log_console flags level text w =
     (if flags AND LOG_STDERR \<noteq> 0
      then (if level = LOG_LEVEL_ERR then w\<lparr>std_err := std_err w @ [text]\<rparr> else w\<lparr>std_out := std_out w @ [text]\<rparr>)
      else w)"

lemma log_console_files [simp]: "lo_fs (log_console flags level text w) = lo_fs w"
  by (simp add: log_console_def)

definition log_Write :: "tm \<Rightarrow> log_level \<Rightarrow> string \<Rightarrow> logger \<Rightarrow> log_output \<Rightarrow> unit outcome \<times> logger \<times> log_output" where
  "log_Write now level s g w =
     (if lg_Property g level AND (LOG_STDERR OR LOG_FILE OR LOG_SYSLOG) = 0 then (Ret (), g, w)
      else if \<not> lg_IsInit g then (Throw NotInitializedError, g, w)
      else
        let text = time_text now @ '' '' @ c_str s @ [CHR 0x0A];
            w = log_console (lg_Property g level) level text w
        in if lg_Property g level AND LOG_FILE \<noteq> 0
           then let (f, fs) = file_open now (lg_file g) (lo_fs w);
                    fs = (case lf_stream f of None \<Rightarrow> fs
                          | Some name \<Rightarrow> fs\<lparr>fs_files := (fs_files fs)(name := map_option (\<lambda>t. t @ text) (fs_files fs name))\<rparr>)
                in (Ret (), g\<lparr>lg_file := f\<rparr>, w\<lparr>lo_fs := fs\<rparr>)
           else (Ret (), g, w))"

text \<open>\<open>Init\<close>: an overflow of the size is undefined. \<open>created\<close> is the result of \<open>create_directory\<close>.\<close>

definition log_Init :: "string \<Rightarrow> string \<Rightarrow> int \<Rightarrow> bool \<Rightarrow> logger \<Rightarrow> file_system \<Rightarrow> unit outcome \<times> logger \<times> file_system" where
  "log_Init path pre max_file_size created g fs =
     (let all = LOG_STDERR OR LOG_FILE;
          g = g\<lparr>lg_Property := (lg_Property g)(LOG_LEVEL_DEV := all, LOG_LEVEL_INF := all, LOG_LEVEL_WRN := all,
                LOG_LEVEL_ERR := all OR LOG_SYSLOG)\<rparr>;
          path = c_str path;
          size = (if max_file_size \<noteq> 0 then max_file_size * 1024 * 1024 else 1024 * 1204 * 10);
          dir = (if path \<noteq> [] \<and> last path = CHR ''/'' then butlast path @ [CHR 0x00] else path);
          g = g\<lparr>lg_file := (lg_file g)\<lparr>lf_logPath := dir, lf_prefix := c_str pre, lf_filesize := size\<rparr>\<rparr>
      in if size \<ge> 2 ^ 31 \<or> size < - (2 ^ 31) then (Undef, g, fs)
         else if c_str dir \<in> fs_dirs fs \<or> fs_files fs (c_str dir) \<noteq> None then (Ret (), g\<lparr>lg_IsInit := True\<rparr>, fs)
         else if \<not> created then (Throw CreateDirectoryFailError, g, fs)
         else (Ret (), g\<lparr>lg_IsInit := True\<rparr>, fs\<lparr>fs_dirs := insert (c_str dir) (fs_dirs fs)\<rparr>))"

definition SetLevelProperty :: "log_level \<Rightarrow> u32 \<Rightarrow> logger \<Rightarrow> unit outcome \<times> logger" where
  "SetLevelProperty level flag g =
     (if \<not> lg_IsInit g then (Throw NotInitializedError, g) else (Ret (), g\<lparr>lg_Property := (lg_Property g)(level := flag)\<rparr>))"

definition level_of :: "string \<Rightarrow> log_level" where
  "level_of first = (if first = ''dev'' then LOG_LEVEL_DEV else if first = ''inf'' then LOG_LEVEL_INF
     else if first = ''err'' then LOG_LEVEL_ERR else LOG_LEVEL_MIN)"

definition flags_of :: "string \<times> string \<times> string \<Rightarrow> u32" where
  "flags_of = (\<lambda>(console, file, sys). (if console = ''yes'' then LOG_STDERR else 0) OR (if file = ''yes'' then LOG_FILE else 0) OR
     (if sys = ''yes'' then LOG_SYSLOG else 0))"

text \<open>\<open>ReadXml\<close> behind \<open>Init\<close>: the elements below \<open>server.log\<close> with their attributes \<open>console\<close>, \<open>file\<close> and \<open>sys\<close>;
  \<open>None\<close> when one of them is missing, for which the property tree throws an exception without a code, here 0.\<close>

fun log_elements :: "(string \<times> (string \<times> string \<times> string) option) list \<Rightarrow> logger \<Rightarrow> unit outcome \<times> logger" where
  "log_elements [] g = (Ret (), g)"
| "log_elements ((first, attrs) # elmts) g =
     (if level_of first = LOG_LEVEL_MIN then log_elements elmts g
      else case attrs of
        None \<Rightarrow> (Throw 0, g)
      | Some a \<Rightarrow>
          (case SetLevelProperty (level_of first) (flags_of a) g of
             (Ret _, g) \<Rightarrow> log_elements elmts g
           | (Throw e, g) \<Rightarrow> (Throw e, g)
           | (Undef, g) \<Rightarrow> (Undef, g)))"

definition log_ReadXml ::
  "(string \<times> string \<times> int) option \<Rightarrow> bool \<Rightarrow> (string \<times> (string \<times> string \<times> string) option) list \<Rightarrow> logger \<Rightarrow> file_system \<Rightarrow>
   unit outcome \<times> logger \<times> file_system" where
  "log_ReadXml attrs created elmts g fs =
     (case attrs of
        None \<Rightarrow> (Throw 0, g, fs)
      | Some (path, pre, max_size) \<Rightarrow>
          (case log_Init path pre max_size created g fs of
             (Ret _, g, fs) \<Rightarrow> (let (r, g) = log_elements elmts g in (r, g, fs))
           | r \<Rightarrow> r))"

section \<open>One line\<close>

abbreviation line :: "tm \<Rightarrow> string \<Rightarrow> string" where
  "line now s \<equiv> time_text now @ '' '' @ c_str s @ [CHR 0x0A]"

definition content :: "string \<Rightarrow> file_system \<Rightarrow> string" where
  "content name fs = (case fs_files fs name of None \<Rightarrow> [] | Some t \<Rightarrow> t)"

text \<open>No directory has the name of a log file.\<close>

definition names_free :: "log_file \<Rightarrow> file_system \<Rightarrow> bool" where
  "names_free f fs \<longleftrightarrow> (\<forall>d. c_str (lf_logPath f @ ''/'' @ lf_prefix f @ ''_'' @ d @ ''.txt'') \<notin> fs_dirs fs)"

text \<open>The file is not open yet, or it is open and exists.\<close>

definition stream_ok :: "log_file \<Rightarrow> file_system \<Rightarrow> bool" where
  "stream_ok f fs \<longleftrightarrow> names_free f fs \<and>
     (case lf_stream f of None \<Rightarrow> lf_today f = zero_tm | Some name \<Rightarrow> fs_files fs name \<noteq> None)"

lemma switch_file_opens:
  assumes "names_free f fs" and "switch_file d now f fs = (f', fs')"
  shows "\<exists>name. lf_stream f' = Some name \<and> fs_files fs' name \<noteq> None \<and> names_free f' fs' \<and> (\<forall>n. content n fs' = content n fs) \<and>
    (\<forall>n. fs_files fs n \<noteq> None \<longrightarrow> fs_files fs' n \<noteq> None)"
  using assms
  by (auto simp: switch_file_def open_append_def names_free_def Let_def content_def split: option.splits)

lemma file_open_opens:
  assumes "stream_ok f fs" and "tm_year now > 0" and "file_open now f fs = (f', fs')"
  shows "\<exists>name. lf_stream f' = Some name \<and> fs_files fs' name \<noteq> None \<and> stream_ok f' fs' \<and> (\<forall>n. content n fs' = content n fs)"
proof -
  let ?day = "tm_year (lf_today f) \<noteq> tm_year now \<or> tm_yday (lf_today f) \<noteq> tm_yday now"
  obtain f1 fs1 where one: "(if ?day then switch_file (day_text now) now f fs else (f, fs)) = (f1, fs1)"
    by (cases "if ?day then switch_file (day_text now) now f fs else (f, fs)")
  have "\<exists>name. lf_stream f1 = Some name \<and> fs_files fs1 name \<noteq> None \<and> names_free f1 fs1 \<and> (\<forall>n. content n fs1 = content n fs)"
  proof (cases ?day)
    case True
    then show ?thesis using switch_file_opens [of f fs "day_text now" now f1 fs1] one assms(1) by (auto simp: stream_ok_def)
  next
    case False
    then have "lf_stream f \<noteq> None" using assms(1,2) by (auto simp: stream_ok_def zero_tm_def split: option.splits)
    then show ?thesis using False one assms(1) by (auto simp: stream_ok_def)
  qed
  moreover have "(f', fs') = (if lf_filesize f1 < size_of_file (lf_filename f1) fs1 then switch_file (second_text now) now f1 fs1 else (f1, fs1))"
    using assms(3) one by (simp add: file_open_def)
  ultimately show ?thesis
    using switch_file_opens [of f1 fs1 "second_text now" now f' fs']
    by (cases "lf_filesize f1 < size_of_file (lf_filename f1) fs1") (auto simp: stream_ok_def)
qed

lemma log_Write_line:
  assumes "stream_ok (lg_file g) (lo_fs w)" and "tm_year now > 0" and "lg_IsInit g" and "lg_Property g level AND LOG_FILE \<noteq> 0"
  shows "\<exists>g' w' name. log_Write now level s g w = (Ret (), g', w') \<and> stream_ok (lg_file g') (lo_fs w') \<and>
    lg_IsInit g' \<and> lg_Property g' = lg_Property g \<and>
    (\<forall>n. content n (lo_fs w') = content n (lo_fs w) @ (if n = name then line now s else []))"
proof -
  have any: "lg_Property g level AND (LOG_STDERR OR LOG_FILE OR LOG_SYSLOG) \<noteq> 0"
  proof
    assume "lg_Property g level AND (LOG_STDERR OR LOG_FILE OR LOG_SYSLOG) = 0"
    then have "(lg_Property g level AND (LOG_STDERR OR LOG_FILE OR LOG_SYSLOG)) AND LOG_FILE = 0" by simp
    moreover have "(LOG_STDERR OR LOG_FILE OR LOG_SYSLOG) AND LOG_FILE = LOG_FILE"
      by (simp add: LOG_STDERR_def LOG_FILE_def LOG_SYSLOG_def)
    ultimately show False using assms(4) by (simp add: and.assoc)
  qed
  let ?w1 = "log_console (lg_Property g level) level (line now s) w"
  obtain f fs where o: "file_open now (lg_file g) (lo_fs w) = (f, fs)" by (cases "file_open now (lg_file g) (lo_fs w)")
  obtain name t where n: "lf_stream f = Some name" "fs_files fs name = Some t" "stream_ok f fs" "\<forall>n. content n fs = content n (lo_fs w)"
    using file_open_opens [OF assms(1,2) o] by auto
  let ?fs = "fs\<lparr>fs_files := (fs_files fs)(name \<mapsto> t @ line now s)\<rparr>"
  have "log_Write now level s g w = (Ret (), g\<lparr>lg_file := f\<rparr>, ?w1\<lparr>lo_fs := ?fs\<rparr>)"
    using any assms(3,4) o n(1,2) by (simp add: log_Write_def Let_def)
  moreover have "stream_ok f ?fs" using n(1,3) by (auto simp: stream_ok_def names_free_def)
  moreover have "content k ?fs = content k (lo_fs w) @ (if k = name then line now s else [])" for k
    using n(2) n(4) [rule_format, of k] by (cases "k = name") (simp_all add: content_def)
  ultimately show ?thesis using assms(3) by (auto intro!: exI [of _ name])
qed

section \<open>Properties\<close>

fun log_run :: "(tm \<times> log_level \<times> string) list \<Rightarrow> logger \<Rightarrow> log_output \<Rightarrow> unit outcome \<times> logger \<times> log_output" where
  "log_run [] g w = (Ret (), g, w)"
| "log_run ((now, level, s) # ms) g w =
     (case log_Write now level s g w of (Ret _, g, w) \<Rightarrow> log_run ms g w | r \<Rightarrow> r)"

definition lines_of :: "string list \<Rightarrow> (tm \<times> log_level \<times> string) list \<Rightarrow> string \<Rightarrow> string" where
  "lines_of names ms n = concat (map (\<lambda>(name, now, level, s). if name = n then line now s else []) (zip names ms))"

text \<open>Once the log is initialised no line is lost, whatever the days, sizes and levels are: every message is appended,
  as one line, to one file, and nothing else happens to the files.\<close>

theorem log_keeps_lines:
  assumes "stream_ok (lg_file g) (lo_fs w)" and "lg_IsInit g"
    and "\<forall>(now, level, s)\<in>set ms. tm_year now > 0 \<and> lg_Property g level AND LOG_FILE \<noteq> 0"
  shows "\<exists>g' w' names. log_run ms g w = (Ret (), g', w') \<and> length names = length ms \<and>
    (\<forall>n. content n (lo_fs w') = content n (lo_fs w) @ lines_of names ms n)"
  using assms
proof (induction ms arbitrary: g w)
  case Nil
  then show ?case by (simp add: lines_of_def)
next
  case (Cons m ms)
  obtain now level s where m: "m = (now, level, s)" by (cases m)
  obtain g1 w1 name where one: "log_Write now level s g w = (Ret (), g1, w1)" "stream_ok (lg_file g1) (lo_fs w1)" "lg_IsInit g1"
      "lg_Property g1 = lg_Property g" "\<And>n. content n (lo_fs w1) = content n (lo_fs w) @ (if n = name then line now s else [])"
    using log_Write_line [of g w now level s] Cons.prems m by auto
  obtain g' w' names where rest: "log_run ms g1 w1 = (Ret (), g', w')" "length names = length ms"
      "\<And>n. content n (lo_fs w') = content n (lo_fs w1) @ lines_of names ms n"
    using Cons.IH [of g1 w1] Cons.prems one(2-4) by auto
  have "content n (lo_fs w') = content n (lo_fs w) @ lines_of (name # names) (m # ms) n" for n
    using one(5) rest(3) m by (simp add: lines_of_def)
  then show ?case using one(1) rest(1,2) m by (intro exI [of _ g'] exI [of _ w'] exI [of _ "name # names"]) simp
qed

theorem log_keeps_lines_witness:
  "let now = \<lparr>tm_year = 124, tm_mon = 0, tm_mday = 5, tm_hour = 7, tm_min = 8, tm_sec = 9, tm_yday = 4\<rparr>;
       g = \<lparr>lg_Property = (\<lambda>_. LOG_FILE), lg_IsInit = True, lg_file = new_log_file\<lparr>lf_logPath := ''log'', lf_prefix := ''a'', lf_filesize := 90\<rparr>\<rparr>;
       w = \<lparr>std_err = [], std_out = [], lo_fs = \<lparr>fs_files = Map.empty, fs_dirs = {''log''}\<rparr>\<rparr>
   in \<exists>g' w' names. log_run [(now, LOG_LEVEL_INF, ''one''), (now, LOG_LEVEL_ERR, ''two'')] g w = (Ret (), g', w') \<and>
        length (names :: string list) = 2"
proof -
  let ?now = "\<lparr>tm_year = 124, tm_mon = 0, tm_mday = 5, tm_hour = 7, tm_min = 8, tm_sec = 9, tm_yday = 4\<rparr>"
  let ?g = "\<lparr>lg_Property = (\<lambda>_. LOG_FILE), lg_IsInit = True, lg_file = new_log_file\<lparr>lf_logPath := ''log'', lf_prefix := ''a'', lf_filesize := 90\<rparr>\<rparr>"
  let ?w = "\<lparr>std_err = [], std_out = [], lo_fs = \<lparr>fs_files = Map.empty, fs_dirs = {''log''}\<rparr>\<rparr>"
  let ?ms = "[(?now, LOG_LEVEL_INF, ''one''), (?now, LOG_LEVEL_ERR, ''two'')]"
  have ok: "stream_ok (lg_file ?g) (lo_fs ?w)" by (simp add: stream_ok_def names_free_def c_str_def new_log_file_def)
  have init: "lg_IsInit ?g" by simp
  have flags: "\<forall>(now, level, s)\<in>set ?ms. tm_year now > 0 \<and> lg_Property ?g level AND LOG_FILE \<noteq> 0" by (simp add: LOG_FILE_def)
  from log_keeps_lines [OF ok init flags] show ?thesis
    unfolding Let_def by (elim exE conjE) (rule exI, rule exI, rule exI, rule conjI, assumption, erule trans, simp)
qed

section \<open>Paths that end with a slash\<close>

definition cut_path :: "string \<Rightarrow> log_file \<Rightarrow> file_system \<Rightarrow> bool" where
  "cut_path path f fs \<longleftrightarrow> lf_stream f = None \<and> lf_logPath f = path @ [CHR 0x00] \<and> path \<in> fs_dirs fs"

lemma c_str_cut: "CHR 0x00 \<notin> set path \<Longrightarrow> c_str (path @ CHR 0x00 # s) = path"
  by (induction path) (auto simp: c_str_def)

lemma switch_file_cut:
  assumes "cut_path path f fs" and "CHR 0x00 \<notin> set path"
  shows "\<exists>f'. switch_file d now f fs = (f', fs) \<and> cut_path path f' fs"
  using assms by (simp add: switch_file_def open_append_def cut_path_def c_str_cut Let_def)

lemma file_open_cut:
  assumes "cut_path path f fs" and "CHR 0x00 \<notin> set path"
  shows "\<exists>f'. file_open now f fs = (f', fs) \<and> cut_path path f' fs"
proof -
  obtain f1 where one: "(if tm_year (lf_today f) \<noteq> tm_year now \<or> tm_yday (lf_today f) \<noteq> tm_yday now
      then switch_file (day_text now) now f fs else (f, fs)) = (f1, fs)" and cut: "cut_path path f1 fs"
    using switch_file_cut [OF assms, of "day_text now" now] assms(1)
    by (cases "tm_year (lf_today f) \<noteq> tm_year now \<or> tm_yday (lf_today f) \<noteq> tm_yday now") auto
  show ?thesis using switch_file_cut [OF cut assms(2), of "second_text now" now] cut one by (simp add: file_open_def)
qed

lemma log_Write_cut:
  assumes "cut_path path (lg_file g) (lo_fs w)" and "CHR 0x00 \<notin> set path" and "lg_IsInit g"
  shows "\<exists>g' w'. log_Write now level s g w = (Ret (), g', w') \<and> cut_path path (lg_file g') (lo_fs w') \<and> lg_IsInit g' \<and> lo_fs w' = lo_fs w"
proof -
  obtain f where f: "file_open now (lg_file g) (lo_fs w) = (f, lo_fs w)" "cut_path path f (lo_fs w)"
    using file_open_cut [OF assms(1,2)] by blast
  then have "lf_stream f = None" by (simp add: cut_path_def)
  then show ?thesis using f assms(1,3) by (auto simp: log_Write_def Let_def)
qed

lemma log_run_cut:
  "cut_path path (lg_file g) (lo_fs w) \<Longrightarrow> CHR 0x00 \<notin> set path \<Longrightarrow> lg_IsInit g \<Longrightarrow>
   \<exists>g' w'. log_run ms g w = (Ret (), g', w') \<and> lo_fs w' = lo_fs w"
proof (induction ms arbitrary: g w)
  case (Cons m ms)
  obtain now level s where m: "m = (now, level, s)" by (cases m)
  obtain g1 w1 where one: "log_Write now level s g w = (Ret (), g1, w1)" "cut_path path (lg_file g1) (lo_fs w1)" "lg_IsInit g1" "lo_fs w1 = lo_fs w"
    using log_Write_cut [OF Cons.prems, of now level s] by blast
  then show ?case using Cons.IH [OF one(2) Cons.prems(2) one(3)] m by simp
qed simp

text \<open>A path that ends with a slash loses the log files: \<open>Init\<close> replaces the slash by a null character, which cuts every
  file name down to the directory, so that no file can be opened; \<open>Init\<close> and all \<open>Write\<close>s return normally all the same.\<close>

theorem trailing_slash_writes_nothing:
  assumes "CHR 0x00 \<notin> set path" and "path \<in> fs_dirs (lo_fs w)" and "0 < n" and "n < 2048"
  shows "\<exists>g. log_Init (path @ ''/'') pre n created new_logger (lo_fs w) = (Ret (), g, lo_fs w) \<and>
    (\<exists>g' w'. log_run ms g w = (Ret (), g', w') \<and> lo_fs w' = lo_fs w)"
proof -
  have whole: "c_str (path @ ''/'') = path @ ''/''" using assms(1) by (simp add: c_str_def takeWhile_append)
  let ?g = "snd (log_Init (path @ ''/'') pre n created new_logger (lo_fs w))"
  have init: "log_Init (path @ ''/'') pre n created new_logger (lo_fs w) = (Ret (), fst ?g, lo_fs w)"
    and cut: "cut_path path (lg_file (fst ?g)) (lo_fs w)" and "lg_IsInit (fst ?g)"
    using assms by (simp_all add: log_Init_def whole c_str_cut cut_path_def new_logger_def new_log_file_def Let_def)
  then show ?thesis using log_run_cut [OF cut assms(1), of ms] by blast
qed

theorem trailing_slash_writes_nothing_witness:
  "let now = \<lparr>tm_year = 124, tm_mon = 0, tm_mday = 5, tm_hour = 7, tm_min = 8, tm_sec = 9, tm_yday = 4\<rparr>;
       w = \<lparr>std_err = [], std_out = [], lo_fs = \<lparr>fs_files = Map.empty, fs_dirs = {''log''}\<rparr>\<rparr>
   in \<exists>g g' w'. log_Init ''log/'' ''a'' 5 False new_logger (lo_fs w) = (Ret (), g, lo_fs w) \<and>
        log_run [(now, LOG_LEVEL_ERR, ''lost'')] g w = (Ret (), g', w') \<and> lo_fs w' = lo_fs w"
  using trailing_slash_writes_nothing [of "''log''" "\<lparr>std_err = [], std_out = [], lo_fs = \<lparr>fs_files = Map.empty, fs_dirs = {''log''}\<rparr>\<rparr>" 5 "''a''" False
      "[(\<lparr>tm_year = 124, tm_mon = 0, tm_mday = 5, tm_hour = 7, tm_min = 8, tm_sec = 9, tm_yday = 4\<rparr>, LOG_LEVEL_ERR, ''lost'')]"]
  unfolding Let_def by auto

section \<open>Levels\<close>

lemma log_elements_append:
  "log_elements (a @ b) g = (case log_elements a g of (Ret _, g) \<Rightarrow> log_elements b g | r \<Rightarrow> r)"
proof (induction a arbitrary: g)
  case (Cons e a)
  obtain first attrs where e: "e = (first, attrs)" by (cases e)
  show ?case
  proof (cases "level_of first = LOG_LEVEL_MIN \<or> attrs = None")
    case False
    then obtain x where x: "attrs = Some x" by auto
    obtain r g1 where "SetLevelProperty (level_of first) (flags_of x) g = (r, g1)" by (cases "SetLevelProperty (level_of first) (flags_of x) g")
    then show ?thesis using Cons e x False by (cases r) simp_all
  qed (use Cons e in auto)
qed simp

lemma log_elements_other:
  "log_elements elmts g = (Ret (), g') \<Longrightarrow> level \<noteq> LOG_LEVEL_MIN \<Longrightarrow> level \<notin> level_of ` fst ` set elmts \<Longrightarrow>
   lg_Property g' level = lg_Property g level"
proof (induction elmts arbitrary: g)
  case (Cons e elmts)
  obtain first attrs where e: "e = (first, attrs)" by (cases e)
  show ?case
  proof (cases "level_of first = LOG_LEVEL_MIN")
    case False
    then obtain a g1 where a: "attrs = Some a" "SetLevelProperty (level_of first) (flags_of a) g = (Ret (), g1)" "log_elements elmts g1 = (Ret (), g')"
      using Cons.prems(1) e by (auto split: option.splits prod.splits outcome.splits)
    then have "lg_Property g1 level = lg_Property g level" using Cons.prems(3) e by (auto simp: SetLevelProperty_def split: if_splits)
    then show ?thesis using Cons.IH [OF a(3)] Cons.prems(2,3) by simp
  qed (use Cons e in auto)
qed simp

text \<open>A configuration that is read to its end sets the levels \<open>dev\<close>, \<open>inf\<close> and \<open>err\<close> as their last elements say; whatever
  it holds, warnings go to the console and to the file.\<close>

theorem configured_levels:
  assumes "log_ReadXml (Some (path, pre, n)) created elmts g fs = (Ret (), g', fs')"
  shows "lg_Property g' LOG_LEVEL_WRN = LOG_STDERR OR LOG_FILE \<and>
    (\<forall>before after first a. elmts = before @ (first, Some a) # after \<longrightarrow> level_of first \<noteq> LOG_LEVEL_MIN \<longrightarrow>
       first \<notin> fst ` set after \<longrightarrow> lg_Property g' (level_of first) = flags_of a)"
proof (intro conjI allI impI)
  obtain g1 where init: "log_Init path pre n created g fs = (Ret (), g1, fs')" and els: "log_elements elmts g1 = (Ret (), g')"
    using assms by (auto simp: log_ReadXml_def split: prod.splits outcome.splits)
  have "lg_Property g1 LOG_LEVEL_WRN = LOG_STDERR OR LOG_FILE"
    using init by (auto simp: log_Init_def Let_def split: if_splits)
  then show "lg_Property g' LOG_LEVEL_WRN = LOG_STDERR OR LOG_FILE"
    using log_elements_other [OF els, of LOG_LEVEL_WRN] by (auto simp: level_of_def split: if_splits)
  fix before after first a
  assume split: "elmts = before @ (first, Some a) # after" and level: "level_of first \<noteq> LOG_LEVEL_MIN" and last: "first \<notin> fst ` set after"
  obtain g2 g3 where "SetLevelProperty (level_of first) (flags_of a) g2 = (Ret (), g3)" and rest: "log_elements after g3 = (Ret (), g')"
    using els level unfolding split log_elements_append by (auto split: prod.splits outcome.splits)
  then have "lg_Property g3 (level_of first) = flags_of a" by (auto simp: SetLevelProperty_def split: if_splits)
  moreover have "level_of first \<notin> level_of ` fst ` set after"
    using level last by (auto simp: level_of_def split: if_splits)
  ultimately show "lg_Property g' (level_of first) = flags_of a" using log_elements_other [OF rest level] by simp
qed

theorem configured_levels_witness:
  "let g = fst (snd (log_ReadXml (Some (''log'', ''a'', 5)) True [(''wrn'', None), (''err'', Some (''no'', ''yes'', ''no''))] new_logger
      \<lparr>fs_files = Map.empty, fs_dirs = {}\<rparr>))
   in lg_Property g LOG_LEVEL_ERR = LOG_FILE \<and> lg_Property g LOG_LEVEL_WRN = LOG_STDERR OR LOG_FILE"
proof -
  let ?r = "log_ReadXml (Some (''log'', ''a'', 5)) True [(''wrn'', None), (''err'', Some (''no'', ''yes'', ''no''))] new_logger
      \<lparr>fs_files = Map.empty, fs_dirs = {}\<rparr>"
  have "?r = (Ret (), fst (snd ?r), snd (snd ?r))"
    by (simp add: log_ReadXml_def log_Init_def c_str_def Let_def level_of_def SetLevelProperty_def)
  note levels = configured_levels [OF this]
  show ?thesis
    using conjunct1 [OF levels] conjunct2 [OF levels, rule_format, of "[(''wrn'', None)]" "''err''" "(''no'', ''yes'', ''no'')" "[]"]
    unfolding Let_def by (simp add: flags_of_def level_of_def)
qed

end
