(* ===== verification/Thread_Pool.thy ===== *)
theory Thread_Pool
  imports Gamnet_Prelude
begin

text \<open>
  The thread pool of \<^verbatim>\<open>Gamnet/Library/ThreadPool.h\<close>: threads that take tasks from a queue under a mutex and wait on a
  condition variable. A step is what one thread does between two points where another thread can come in; \<open>stop_\<close> is
  written by the destructor without the mutex, so that a worker's test of it and its wait are steps of their own.
\<close>

section \<open>State and operations\<close>

datatype 't worker =
    Outside \<comment> \<open>wants the mutex\<close>
  | Holding \<comment> \<open>has the mutex, before the test of the loop\<close>
  | Deciding \<comment> \<open>has the mutex and found nothing to do, before \<open>wait\<close>\<close>
  | Waiting
  | Running 't
  | Returned

datatype shutdown = Alive | Stopped | Notified

record 't thread_pool =
  tp_tasks :: "'t list"
  tp_stop :: bool
  tp_workers :: "nat \<Rightarrow> 't worker"
  tp_phase :: shutdown
  tp_posted :: "'t list"
  tp_started :: "'t list"

text \<open>The last two record the tasks posted and started so far.\<close>

definition new_thread_pool :: "'t thread_pool" where
  "new_thread_pool = \<lparr>tp_tasks = [], tp_stop = False, tp_workers = (\<lambda>_. Outside), tp_phase = Alive, tp_posted = [], tp_started = []\<rparr>"

definition mutex_free :: "nat \<Rightarrow> 't thread_pool \<Rightarrow> bool" where
  "mutex_free n s \<longleftrightarrow> (\<forall>v\<in>set [0..<n]. tp_workers s v \<noteq> Holding \<and> tp_workers s v \<noteq> Deciding)"

definition put_worker :: "nat \<Rightarrow> 't worker \<Rightarrow> 't thread_pool \<Rightarrow> 't thread_pool" where
  "put_worker v x s = s\<lparr>tp_workers := (tp_workers s)(v := x)\<rparr>"

text \<open>The worker under the mutex: it waits, returns, or takes the first task.\<close>

definition worker_turn :: "nat \<Rightarrow> 't thread_pool \<Rightarrow> 't thread_pool" where
  "worker_turn v s =
     (if \<not> tp_stop s \<and> tp_tasks s = [] then put_worker v Deciding s
      else if tp_stop s then put_worker v Returned s
      else (let f = hd (tp_tasks s) in
            put_worker v (Running f) (s\<lparr>tp_tasks := tl (tp_tasks s), tp_started := tp_started s @ [f]\<rparr>)))"

definition notify :: "nat \<Rightarrow> 't thread_pool \<Rightarrow> 't thread_pool" where
  "notify v s = (if tp_workers s v = Waiting then put_worker v Outside s else s)"

text \<open>\<open>PostTask\<close>; \<open>v\<close> is the waiting thread \<open>notify_one\<close> wakes up.\<close>

definition PostTask :: "nat \<Rightarrow> 't \<Rightarrow> 't thread_pool \<Rightarrow> 't thread_pool" where
  "PostTask v t s = notify v (s\<lparr>tp_tasks := tp_tasks s @ [t], tp_posted := tp_posted s @ [t]\<rparr>)"

text \<open>The destructor; after it joins the threads.\<close>

definition tp_set_stop :: "'t thread_pool \<Rightarrow> 't thread_pool" where
  "tp_set_stop s = s\<lparr>tp_stop := True, tp_phase := Stopped\<rparr>"

definition tp_notify_all :: "'t thread_pool \<Rightarrow> 't thread_pool" where
  "tp_notify_all s = s\<lparr>tp_workers := (\<lambda>v. if tp_workers s v = Waiting then Outside else tp_workers s v), tp_phase := Notified\<rparr>"

definition tp_joined :: "nat \<Rightarrow> 't thread_pool \<Rightarrow> bool" where
  "tp_joined n s \<longleftrightarrow> tp_phase s = Notified \<and> (\<forall>v\<in>set [0..<n]. tp_workers s v = Returned)"

text \<open>\<open>spurious\<close>: whether a wait may end without a notification.\<close>

inductive tp_step :: "bool \<Rightarrow> nat \<Rightarrow> 't thread_pool \<Rightarrow> 't thread_pool \<Rightarrow> bool" for spurious n where
  locks: "v < n \<Longrightarrow> tp_workers s v = Outside \<Longrightarrow> mutex_free n s \<Longrightarrow> tp_step spurious n s (put_worker v Holding s)"
| turns: "v < n \<Longrightarrow> tp_workers s v = Holding \<Longrightarrow> tp_step spurious n s (worker_turn v s)"
| waits: "v < n \<Longrightarrow> tp_workers s v = Deciding \<Longrightarrow> tp_step spurious n s (put_worker v Waiting s)"
| wakes: "v < n \<Longrightarrow> tp_workers s v = Waiting \<Longrightarrow> spurious \<Longrightarrow> tp_step spurious n s (put_worker v Outside s)"
| finishes: "v < n \<Longrightarrow> tp_workers s v = Running t \<Longrightarrow> tp_step spurious n s (put_worker v Outside s)"
| posts: "mutex_free n s \<Longrightarrow> tp_phase s = Alive \<Longrightarrow> v < n \<Longrightarrow>
    tp_workers s v = Waiting \<or> (\<forall>u<n. tp_workers s u \<noteq> Waiting) \<Longrightarrow> tp_step spurious n s (PostTask v t s)"
| stops: "tp_phase s = Alive \<Longrightarrow> tp_step spurious n s (tp_set_stop s)"
| notifies: "tp_phase s = Stopped \<Longrightarrow> tp_step spurious n s (tp_notify_all s)"

section \<open>Invariant\<close>

definition awake :: "'t worker \<Rightarrow> bool" where
  "awake x \<longleftrightarrow> x = Outside \<or> x = Holding \<or> (\<exists>t. x = Running t)"

fun has_mutex :: "'t worker \<Rightarrow> bool" where
  "has_mutex Holding = True"
| "has_mutex Deciding = True"
| "has_mutex _ = False"

definition one_holder :: "nat \<Rightarrow> (nat \<Rightarrow> 't worker) \<Rightarrow> bool" where
  "one_holder n w \<longleftrightarrow> (\<forall>v<n. \<forall>u<n. v \<noteq> u \<longrightarrow> has_mutex (w v) \<longrightarrow> \<not> has_mutex (w u))"

lemma one_holder_set:
  assumes "one_holder n w" and "has_mutex x \<Longrightarrow> has_mutex (w v) \<or> (\<forall>u<n. \<not> has_mutex (w u))" and "v < n"
  shows "one_holder n (w(v := x))"
  unfolding one_holder_def
proof (intro allI impI)
  fix a b
  assume *: "a < n" "b < n" "a \<noteq> b" "has_mutex ((w(v := x)) a)"
  have apart: "has_mutex (w p) \<Longrightarrow> \<not> has_mutex (w q)" if "p < n" "q < n" "p \<noteq> q" for p q
    using assms(1) that unfolding one_holder_def by blast
  consider "a = v" | "b = v" | "a \<noteq> v" "b \<noteq> v" by blast
  then show "\<not> has_mutex ((w(v := x)) b)"
  proof cases
    case 1
    then show ?thesis using * assms(2) apart [of v b] by (cases "has_mutex (w v)") auto
  next
    case 2
    then show ?thesis using * assms(2) apart [of a v] by (cases "has_mutex x") auto
  next
    case 3
    then show ?thesis using * apart [of a b] by simp
  qed
qed

text \<open>While the pool lives: no thread has returned, somebody looks after the tasks, and a thread about to wait saw none.\<close>

definition attended :: "nat \<Rightarrow> 't thread_pool \<Rightarrow> bool" where
  "attended n s \<longleftrightarrow> (\<forall>v<n. tp_workers s v \<noteq> Returned) \<and> (tp_tasks s \<noteq> [] \<longrightarrow> (\<exists>v<n. awake (tp_workers s v)))"

definition tp_inv :: "nat \<Rightarrow> 't thread_pool \<Rightarrow> bool" where
  "tp_inv n s \<longleftrightarrow> tp_posted s = tp_started s @ tp_tasks s \<and> (tp_stop s \<longleftrightarrow> tp_phase s \<noteq> Alive) \<and>
     one_holder n (tp_workers s) \<and> (\<not> tp_stop s \<longrightarrow> attended n s) \<and>
     (\<forall>v<n. tp_workers s v = Deciding \<longrightarrow> tp_tasks s = [])"

lemma tp_inv_init: "tp_inv n new_thread_pool"
  by (simp add: tp_inv_def new_thread_pool_def one_holder_def attended_def)

lemma attended_set:
  assumes "attended n s" and "x \<noteq> Returned" and "awake x \<or> tp_tasks s = [] \<or> (awake (tp_workers s v) \<longrightarrow> awake x)" and "v < n"
  shows "attended n (put_worker v x s)"
  using assms unfolding attended_def put_worker_def by auto

lemma put_worker_simps [simp]:
  "tp_tasks (put_worker v x s) = tp_tasks s" "tp_posted (put_worker v x s) = tp_posted s" "tp_started (put_worker v x s) = tp_started s"
  "tp_stop (put_worker v x s) = tp_stop s" "tp_phase (put_worker v x s) = tp_phase s"
  "tp_workers (put_worker v x s) = (tp_workers s)(v := x)"
  by (simp_all add: put_worker_def)

lemma tp_inv_set:
  assumes "tp_inv n s" and "v < n" and "has_mutex x \<Longrightarrow> has_mutex (tp_workers s v) \<or> (\<forall>u<n. \<not> has_mutex (tp_workers s u))"
    and "x = Returned \<Longrightarrow> tp_stop s" and "\<not> tp_stop s \<Longrightarrow> awake x \<or> tp_tasks s = [] \<or> \<not> awake (tp_workers s v)"
    and "x = Deciding \<Longrightarrow> tp_tasks s = []"
  shows "tp_inv n (put_worker v x s)"
proof -
  have "attended n (put_worker v x s)" if "\<not> tp_stop s"
    using assms(1,4,5) that by (intro attended_set) (auto simp: tp_inv_def assms(2))
  moreover have "one_holder n ((tp_workers s)(v := x))" using assms(1-3) by (intro one_holder_set) (auto simp: tp_inv_def)
  ultimately show ?thesis using assms(1,6) by (auto simp: tp_inv_def)
qed

lemma mutex_freeD: "mutex_free n s \<Longrightarrow> v < n \<Longrightarrow> \<not> has_mutex (tp_workers s v)"
  by (cases "tp_workers s v") (auto simp: mutex_free_def)

lemma PostTask_attended:
  assumes "attended n s" and "mutex_free n s" and "v < n" and "tp_workers s v = Waiting \<or> (\<forall>u<n. tp_workers s u \<noteq> Waiting)"
  shows "attended n (PostTask v t s)"
proof -
  have "awake (tp_workers (PostTask v t s) v)"
    using assms mutex_freeD [OF assms(2,3)]
    by (cases "tp_workers s v") (auto simp: PostTask_def notify_def awake_def attended_def)
  then show ?thesis using assms(1,3) by (auto simp: attended_def PostTask_def notify_def)
qed

lemma tp_inv_step:
  assumes "tp_inv n s" and "tp_step spurious n s u"
  shows "tp_inv n u"
  using assms(2)
proof cases
  case (locks v)
  then show ?thesis using mutex_freeD [OF locks(4)] by (auto intro!: tp_inv_set [OF assms(1)] simp: awake_def)
next
  case (turns v)
  consider (none) "\<not> tp_stop s" "tp_tasks s = []" | (stop) "tp_stop s" | (task) t ts where "\<not> tp_stop s" "tp_tasks s = t # ts"
    by (cases "tp_tasks s") auto
  then show ?thesis
  proof cases
    case none
    then show ?thesis using turns by (auto simp: worker_turn_def intro!: tp_inv_set [OF assms(1)])
  next
    case stop
    then show ?thesis using turns by (auto simp: worker_turn_def intro!: tp_inv_set [OF assms(1)])
  next
    case task
    let ?s = "s\<lparr>tp_tasks := ts, tp_started := tp_started s @ [t]\<rparr>"
    have "tp_inv n ?s" using assms(1) task by (auto simp: tp_inv_def attended_def)
    moreover have "u = put_worker v (Running t) ?s" using turns(1) task by (simp add: worker_turn_def Let_def)
    ultimately show ?thesis using turns(2) by (auto intro!: tp_inv_set simp: awake_def)
  qed
next
  case (waits v)
  then have "\<not> awake (tp_workers s v)" by (simp add: awake_def)
  then show ?thesis using waits by (auto intro!: tp_inv_set [OF assms(1)])
next
  case (wakes v)
  then show ?thesis by (auto intro!: tp_inv_set [OF assms(1)] simp: awake_def)
next
  case (finishes v t)
  then show ?thesis by (auto intro!: tp_inv_set [OF assms(1)] simp: awake_def)
next
  case (posts v t)
  have alive: "\<not> tp_stop s" using posts(3) assms(1) by (simp add: tp_inv_def)
  have "one_holder n (tp_workers (PostTask v t s))"
    using assms(1) one_holder_set [of n "tp_workers s" Outside v] posts(4) by (simp add: tp_inv_def PostTask_def notify_def)
  moreover have "attended n (PostTask v t s)"
    using assms(1) alive by (intro PostTask_attended posts) (simp add: tp_inv_def)
  moreover have "tp_workers (PostTask v t s) x \<noteq> Deciding" if "x < n" for x
    using mutex_freeD [OF posts(2) that] by (auto simp: PostTask_def notify_def)
  moreover have "tp_posted (PostTask v t s) = tp_started (PostTask v t s) @ tp_tasks (PostTask v t s)"
    "tp_stop (PostTask v t s) = tp_stop s" "tp_phase (PostTask v t s) = tp_phase s"
    using assms(1) by (simp_all add: tp_inv_def PostTask_def notify_def)
  ultimately show ?thesis using assms(1) unfolding tp_inv_def posts(1) by auto
next
  case stops
  then show ?thesis using assms(1) by (auto simp: tp_inv_def tp_set_stop_def)
next
  case notifies
  have "one_holder n (tp_workers (tp_notify_all s))"
    using assms(1) by (auto simp: tp_inv_def one_holder_def tp_notify_all_def)
  then show ?thesis using assms(1) notifies by (auto simp: tp_inv_def tp_notify_all_def)
qed

interpretation thread_pool: invariant_system "\<lambda>s. s = new_thread_pool" "tp_step spurious n" "tp_inv n" for spurious n
  by unfold_locales (auto intro: tp_inv_init tp_inv_step)

section \<open>Properties\<close>



lemma waiting_for_ever:
  "(tp_step False n)\<^sup>*\<^sup>* s u \<Longrightarrow> tp_workers s v = Waiting \<Longrightarrow> tp_phase s = Notified \<Longrightarrow>
   tp_workers u v = Waiting \<and> tp_phase u = Notified"
proof (induction rule: rtranclp_induct)
  case (step u w)
  then have u: "tp_workers u v = Waiting" "tp_phase u = Notified" by simp_all
  from step.hyps(2) show ?case
    by cases (use u in \<open>auto simp: put_worker_def worker_turn_def Let_def split: if_splits\<close>)
qed simp

text \<open>A destructor that comes between a worker's test of \<open>stop_\<close> and its wait never returns, unless the wait ends
  without a notification: the worker sleeps through the only one.\<close>

theorem shutdown_can_hang:
  assumes "v < n" and "tp_workers s v = Deciding" and "tp_phase s = Alive"
  shows "\<exists>u. (tp_step False n)\<^sup>*\<^sup>* s u \<and> tp_phase u = Notified \<and> (\<forall>w. (tp_step False n)\<^sup>*\<^sup>* u w \<longrightarrow> \<not> tp_joined n w)"
proof -
  let ?s2 = "tp_notify_all (tp_set_stop s)"
  let ?u = "put_worker v Waiting ?s2"
  have s1: "tp_step False n s (tp_set_stop s)" using assms(3) by (rule tp_step.stops)
  have s2: "tp_step False n (tp_set_stop s) ?s2" by (rule tp_step.notifies) (simp add: tp_set_stop_def)
  have s3: "tp_step False n ?s2 ?u"
    by (rule tp_step.waits) (use assms in \<open>simp_all add: tp_notify_all_def tp_set_stop_def\<close>)
  have "(tp_step False n)\<^sup>*\<^sup>* s ?u"
    by (rule rtranclp.rtrancl_into_rtrancl [OF rtranclp.rtrancl_into_rtrancl [OF r_into_rtranclp [of "tp_step False n", OF s1] s2] s3])
  moreover have u: "tp_workers ?u v = Waiting" "tp_phase ?u = Notified" by (simp_all add: put_worker_def tp_notify_all_def)
  moreover have "\<not> tp_joined n w" if "(tp_step False n)\<^sup>*\<^sup>* ?u w" for w
    using waiting_for_ever [OF that u] assms(1) by (auto simp: tp_joined_def intro!: bexI [of _ v])
  ultimately show ?thesis by blast
qed

theorem shutdown_can_hang_witness:
  "\<exists>s :: nat thread_pool. (tp_step False 1)\<^sup>*\<^sup>* new_thread_pool s \<and> tp_phase s = Notified \<and>
    (\<forall>w. (tp_step False 1)\<^sup>*\<^sup>* s w \<longrightarrow> \<not> tp_joined 1 w)"
proof -
  let ?a = "put_worker 0 Holding (new_thread_pool :: nat thread_pool)"
  let ?b = "worker_turn 0 ?a"
  have s1: "tp_step False 1 new_thread_pool ?a" by (rule tp_step.locks) (simp_all add: new_thread_pool_def mutex_free_def)
  have s2: "tp_step False 1 ?a ?b" by (rule tp_step.turns) (simp_all add: put_worker_def)
  have r: "(tp_step False 1)\<^sup>*\<^sup>* new_thread_pool ?b"
    by (rule rtranclp.rtrancl_into_rtrancl [OF r_into_rtranclp [of "tp_step False 1", OF s1] s2])
  have "tp_workers ?b 0 = Deciding" "tp_phase ?b = Alive" by (simp_all add: worker_turn_def put_worker_def new_thread_pool_def)
  then obtain u where "(tp_step False 1)\<^sup>*\<^sup>* ?b u" "tp_phase u = Notified" "\<forall>w. (tp_step False 1)\<^sup>*\<^sup>* u w \<longrightarrow> \<not> tp_joined 1 w"
    using shutdown_can_hang [of 0 1 ?b] by auto
  then show ?thesis using rtranclp_trans [OF r] by blast
qed

end
