(* ===== verification/Weight_Random.thy ===== *)
theory Weight_Random
  imports Gamnet_Prelude
begin

text \<open>
  Weighted choice, \<open>WeightRandom\<close> of \<^verbatim>\<open>Gamnet/Library/Random.h\<close>: values with the running sums of their weights. The
  number drawn between 0 and the total weight is an argument; the exceptions of the standard library carry no code,
  here 0.
\<close>

section \<open>State and operations\<close>

record 'v weight_random =
  totalWeight :: u32
  valWeight :: "(u32 \<times> 'v) list"

definition MAX_WEIGHT_CONSTRAINT :: u32 where "MAX_WEIGHT_CONSTRAINT = 9999999"

definition new_weight_random :: "'v weight_random" where
  "new_weight_random = \<lparr>totalWeight = 0, valWeight = []\<rparr>"

definition SetWeight :: "'v \<Rightarrow> u32 \<Rightarrow> 'v weight_random \<Rightarrow> unit outcome \<times> 'v weight_random" where
  "SetWeight v weight w =
     (if 0 = weight then (Ret (), w)
      else
        let w = w\<lparr>totalWeight := totalWeight w + weight\<rparr> in
        if MAX_WEIGHT_CONSTRAINT < totalWeight w then (Throw 0, w)
        else (Ret (), w\<lparr>valWeight := valWeight w @ [(totalWeight w, v)]\<rparr>))"

fun pick :: "u32 \<Rightarrow> (u32 \<times> 'v) list \<Rightarrow> 'v option" where
  "pick r [] = None"
| "pick r ((c, v) # vs) = (if r < c then Some v else pick r vs)"

text \<open>\<open>Random\<close>; \<open>r\<close> is what \<open>Random::Range(0, totalWeight_ - 1)\<close> returned.\<close>

definition wr_Random :: "u32 \<Rightarrow> 'v weight_random \<Rightarrow> 'v outcome" where
  "wr_Random r w =
     (if valWeight w = [] then Throw 0
      else Ret (case pick r (valWeight w) of Some v \<Rightarrow> v | None \<Rightarrow> snd (last (valWeight w))))"

fun set_weights :: "('v \<times> u32) list \<Rightarrow> 'v weight_random \<Rightarrow> unit outcome \<times> 'v weight_random" where
  "set_weights [] w = (Ret (), w)"
| "set_weights ((v, weight) # vs) w = (case SetWeight v weight w of (Ret _, w) \<Rightarrow> set_weights vs w | r \<Rightarrow> r)"

section \<open>Sums of weights\<close>

definition weights :: "('v \<times> u32) list \<Rightarrow> nat" where
  "weights vs = sum_list (map (unat \<circ> snd) vs)"

text \<open>What the table is for: value \<open>v\<close> owns the numbers between the weights before it and those with it.\<close>

fun owner :: "nat \<Rightarrow> ('v \<times> u32) list \<Rightarrow> 'v option" where
  "owner r [] = None"
| "owner r ((v, weight) # vs) = (if r < unat weight then Some v else owner (r - unat weight) vs)"

lemma set_weights_ok:
  "unat (totalWeight w) + weights vs \<le> 9999999 \<Longrightarrow>
   \<exists>w'. set_weights vs w = (Ret (), w') \<and> unat (totalWeight w') = unat (totalWeight w) + weights vs \<and>
     (\<exists>t. valWeight w' = valWeight w @ t \<and> (\<forall>r. unat (totalWeight w) \<le> unat r \<longrightarrow> pick r t = owner (unat r - unat (totalWeight w)) vs))"
proof (induction vs arbitrary: w)
  case Nil
  then show ?case by (simp add: weights_def)
next
  case (Cons e vs)
  obtain v c where e: "e = (v, c)" by (cases e)
  have bound: "unat (totalWeight w) + unat c + weights vs \<le> 9999999" using Cons.prems e by (simp add: weights_def)
  show ?case
  proof (cases "c = 0")
    case True
    have "weights (e # vs) = weights vs" "\<And>r. owner r (e # vs) = owner r vs" using True e by (simp_all add: weights_def)
    then show ?thesis using Cons.IH [of w] bound True e by (simp add: SetWeight_def)
  next
    case False
    let ?w = "\<lparr>totalWeight = totalWeight w + c, valWeight = valWeight w @ [(totalWeight w + c, v)]\<rparr>"
    have total: "unat (totalWeight w + c) = unat (totalWeight w) + unat c"
      using bound by (subst unat_add_lem [THEN iffD1]) (simp_all add: unat_word_ariths)
    have "\<not> MAX_WEIGHT_CONSTRAINT < totalWeight w + c"
      using total bound by (simp add: word_less_nat_alt MAX_WEIGHT_CONSTRAINT_def)
    then have set: "SetWeight v c w = (Ret (), ?w)" using False by (simp add: SetWeight_def Let_def)
    obtain w' t where w': "set_weights vs ?w = (Ret (), w')" "unat (totalWeight w') = unat (totalWeight ?w) + weights vs"
        "valWeight w' = valWeight ?w @ t" "\<And>r. unat (totalWeight ?w) \<le> unat r \<Longrightarrow> pick r t = owner (unat r - unat (totalWeight ?w)) vs"
      using Cons.IH [of ?w] total bound by auto
    have "pick r ((totalWeight w + c, v) # t) = owner (unat r - unat (totalWeight w)) (e # vs)" if "unat (totalWeight w) \<le> unat r" for r
      using w'(4) [of r] total that e by (simp add: word_less_nat_alt) (auto simp: less_diff_conv2 le_diff_conv2 diff_diff_add)
    then show ?thesis using w'(1-3) total e set by (auto simp: weights_def)
  qed
qed

lemma owner_found: "r < weights vs \<Longrightarrow> \<exists>v. owner r vs = Some v"
  by (induction r vs rule: owner.induct) (auto simp: weights_def)

lemma owner_count: "card {r. r < weights vs \<and> owner r vs = Some v} = weights (filter (\<lambda>e. fst e = v) vs)"
proof (induction vs)
  case Nil
  then show ?case by (simp add: weights_def)
next
  case (Cons e vs)
  obtain u c where e: "e = (u, c)" by (cases e)
  let ?first = "{r. r < unat c \<and> u = v}" and ?rest = "(\<lambda>r. r + unat c) ` {r. r < weights vs \<and> owner r vs = Some v}"
  have total: "weights (e # vs) = unat c + weights vs" using e by (simp add: weights_def)
  have "{r. r < weights (e # vs) \<and> owner r (e # vs) = Some v} = ?first \<union> ?rest"
  proof (intro set_eqI iffI)
    fix r
    assume r: "r \<in> {r. r < weights (e # vs) \<and> owner r (e # vs) = Some v}"
    show "r \<in> ?first \<union> ?rest"
    proof (cases "r < unat c")
      case False
      then have "r - unat c \<in> {r. r < weights vs \<and> owner r vs = Some v}" using r e total by auto
      then have "r - unat c + unat c \<in> ?rest" by blast
      then show ?thesis using False by simp
    qed (use r e in auto)
  qed (use e total in auto)
  moreover have "card (?first \<union> ?rest) = card ?first + card ?rest"
    by (rule card_Un_disjoint) auto
  moreover have "card ?first = (if u = v then unat c else 0)" by auto
  moreover have "card ?rest = weights (filter (\<lambda>e. fst e = v) vs)"
    using Cons.IH by (subst card_image) (auto simp: inj_on_def)
  ultimately show ?case using e by (simp add: weights_def)
qed

section \<open>Properties\<close>

text \<open>With weights that add up to at most 9999999, and not to zero, every value is chosen for exactly as many of the
  numbers \<open>Range\<close> may draw as its weights add up to.\<close>

theorem weighted_choice:
  assumes "weights vs \<le> 9999999" and "weights vs \<noteq> 0"
  shows "\<exists>w. set_weights vs new_weight_random = (Ret (), w) \<and> unat (totalWeight w) = weights vs \<and>
    card {r. r < weights vs \<and> wr_Random (of_nat r) w = Ret v} = weights (filter (\<lambda>e. fst e = v) vs)"
proof -
  obtain w where w: "set_weights vs new_weight_random = (Ret (), w)" "unat (totalWeight w) = weights vs"
      "\<And>r. pick r (valWeight w) = owner (unat r) vs"
    using set_weights_ok [of new_weight_random vs] assms(1) by (auto simp: new_weight_random_def)
  have "wr_Random (of_nat r) w = Ret v \<longleftrightarrow> owner r vs = Some v" if lt: "r < weights vs" for r
  proof -
    have "unat (of_nat r :: u32) = r" using lt assms(1) by (simp add: unat_of_nat)
    then have p: "pick (of_nat r) (valWeight w) = owner r vs" using w(3) [of "of_nat r"] by simp
    moreover obtain u where "owner r vs = Some u" using owner_found [OF lt] by blast
    moreover from calculation have "valWeight w \<noteq> []" by (cases "valWeight w") auto
    ultimately show ?thesis by (simp add: wr_Random_def)
  qed
  then have "{r. r < weights vs \<and> wr_Random (of_nat r) w = Ret v} = {r. r < weights vs \<and> owner r vs = Some v}" by blast
  then show ?thesis using w(1,2) owner_count [of vs v] by auto
qed

theorem weighted_choice_witness:
  "\<exists>w. set_weights [(''a'', 1), (''b'', 3), (''a'', 2)] new_weight_random = (Ret (), w) \<and>
    card {r. r < 6 \<and> wr_Random (of_nat r) w = Ret ''a''} = 3"
  using weighted_choice [of "[(''a'', 1), (''b'', 3), (''a'', 2)]" "''a''"] by (auto simp: weights_def)

text \<open>A weight that is refused is added to the total all the same: the numbers drawn above the old total choose the last
  value, and every further weight is refused too.\<close>

theorem refused_weight_goes_to_last:
  assumes "set_weights vs new_weight_random = (Ret (), w)" and "weights vs \<le> 9999999" and "weights vs \<noteq> 0"
    and "9999999 < weights vs + unat c" and "weights vs + unat c < 2 ^ 32"
  shows "\<exists>w'. SetWeight v c w = (Throw 0, w') \<and> unat (totalWeight w') = weights vs + unat c \<and>
    (\<forall>r. weights vs \<le> unat r \<longrightarrow> wr_Random r w' = Ret (snd (last (valWeight w')))) \<and>
    (\<forall>u d. d \<noteq> 0 \<longrightarrow> weights vs + unat c + unat d < 2 ^ 32 \<longrightarrow> fst (SetWeight u d w') = Throw 0)"
proof -
  have w: "unat (totalWeight w) = weights vs" "\<And>r. pick r (valWeight w) = owner (unat r) vs"
    using set_weights_ok [of new_weight_random vs] assms(1,2) by (auto simp: new_weight_random_def)
  have "pick 0 (valWeight w) \<noteq> None" using w(2) [of 0] owner_found [of 0 vs] assms(3) by auto
  then have some: "valWeight w \<noteq> []" by (cases "valWeight w") auto
  let ?w = "w\<lparr>totalWeight := totalWeight w + c\<rparr>"
  have total: "unat (totalWeight w + c) = weights vs + unat c"
    using assms(5) w(1) by (subst unat_add_lem [THEN iffD1]) simp_all
  have over: "MAX_WEIGHT_CONSTRAINT < totalWeight w + c"
    using total assms(4) by (simp add: word_less_nat_alt MAX_WEIGHT_CONSTRAINT_def)
  have "c \<noteq> 0" using assms(2,4) by auto
  then have "SetWeight v c w = (Throw 0, ?w)" using over by (simp add: SetWeight_def Let_def)
  moreover have "wr_Random r ?w = Ret (snd (last (valWeight ?w)))" if "weights vs \<le> unat r" for r
  proof -
    have "owner k vs = None" if "weights vs \<le> k" for k using that by (induction k vs rule: owner.induct) (auto simp: weights_def)
    then have "pick r (valWeight w) = None" using w(2) [of r] that by simp
    then show ?thesis using some by (simp add: wr_Random_def)
  qed
  moreover have "fst (SetWeight u d ?w) = Throw 0" if "d \<noteq> 0" "weights vs + unat c + unat d < 2 ^ 32" for u d
  proof -
    have "unat (totalWeight w + c + d) = weights vs + unat c + unat d"
      using that(2) total by (subst unat_add_lem [THEN iffD1]) simp_all
    then have "MAX_WEIGHT_CONSTRAINT < totalWeight w + c + d"
      using assms(4) by (simp add: word_less_nat_alt MAX_WEIGHT_CONSTRAINT_def)
    then show ?thesis using that(1) by (simp add: SetWeight_def Let_def)
  qed
  ultimately show ?thesis using total by auto
qed

theorem refused_weight_goes_to_last_witness:
  "let w = snd (set_weights [(''a'', 1)] new_weight_random) in
   \<exists>w'. SetWeight ''b'' 9999999 w = (Throw 0, w') \<and> wr_Random 5 w' = Ret (snd (last (valWeight w')))"
proof -
  have "set_weights [(''a'', 1)] new_weight_random = (Ret (), snd (set_weights [(''a'', 1)] new_weight_random))"
    by (simp add: SetWeight_def new_weight_random_def Let_def MAX_WEIGHT_CONSTRAINT_def)
  from refused_weight_goes_to_last [OF this, of 9999999 "''b''"] show ?thesis
    unfolding Let_def by (auto simp: weights_def)
qed

end
