(* ===== verification/Multi_Lock.thy ===== *)
theory Multi_Lock
  imports Gamnet_Prelude
begin

text \<open>
  Locking several locks at once, \<^verbatim>\<open>Gamnet/Library/MultiLock.h\<close>. A lock is its address; threads lock what they are given in
  the order of a \<open>std::set\<close> of pointers, work, and unlock in the same order.
\<close>

section \<open>Threads\<close>

text \<open>The set built by the constructor: the addresses in rising order, each once.\<close>

definition setLocks :: "nat list \<Rightarrow> nat list" where
  "setLocks locks = sort (remdups locks)"

text \<open>The constructor's loop with the locks taken and those to come, the work, the destructor's loop.\<close>

datatype ml_thread = Locking "nat list" "nat list" | Inside "nat list" | Unlocking "nat list" | Finished

definition new_MultiLock :: "nat list \<Rightarrow> ml_thread" where
  "new_MultiLock locks = Locking [] (setLocks locks)"

fun owned :: "ml_thread \<Rightarrow> nat set" where
  "owned (Locking h t) = set h"
| "owned (Inside h) = set h"
| "owned (Unlocking h) = set h"
| "owned Finished = {}"

text \<open>The next step of a thread; \<open>free\<close> tells whether a lock is free. \<open>None\<close>: it waits or has finished.\<close>

fun ml_next :: "(nat \<Rightarrow> bool) \<Rightarrow> ml_thread \<Rightarrow> ml_thread option" where
  "ml_next free (Locking h (l # t)) = (if free l then Some (Locking (h @ [l]) t) else None)"
| "ml_next free (Locking h []) = Some (Inside h)"
| "ml_next free (Inside h) = Some (Unlocking h)"
| "ml_next free (Unlocking (l # h)) = Some (Unlocking h)"
| "ml_next free (Unlocking []) = Some Finished"
| "ml_next free Finished = None"

definition lock_free :: "ml_thread list \<Rightarrow> nat \<Rightarrow> bool" where
  "lock_free ths l \<longleftrightarrow> (\<forall>th\<in>set ths. l \<notin> owned th)"

definition ml_init :: "ml_thread list \<Rightarrow> bool" where
  "ml_init ths \<longleftrightarrow> (\<forall>th\<in>set ths. \<exists>locks. th = new_MultiLock locks)"

inductive ml_step :: "ml_thread list \<Rightarrow> ml_thread list \<Rightarrow> bool" where
  "i < length ths \<Longrightarrow> ml_next (lock_free ths) (ths ! i) = Some th \<Longrightarrow> ml_step ths (ths[i := th])"

section \<open>Invariant\<close>

fun rising :: "ml_thread \<Rightarrow> bool" where
  "rising (Locking h t) \<longleftrightarrow> sorted_wrt (<) (h @ t)"
| "rising (Inside h) \<longleftrightarrow> sorted_wrt (<) h"
| "rising (Unlocking h) \<longleftrightarrow> sorted_wrt (<) h"
| "rising Finished \<longleftrightarrow> True"

definition ml_inv :: "ml_thread list \<Rightarrow> bool" where
  "ml_inv ths \<longleftrightarrow> (\<forall>th\<in>set ths. rising th) \<and>
     (\<forall>i<length ths. \<forall>j<length ths. i \<noteq> j \<longrightarrow> owned (ths ! i) \<inter> owned (ths ! j) = {})"

lemma ml_inv_init: "ml_init ths \<Longrightarrow> ml_inv ths"
proof -
  assume init: "ml_init ths"
  have "rising (new_MultiLock locks)" for locks
    by (simp add: new_MultiLock_def setLocks_def strict_sorted_iff)
  then have "\<forall>th\<in>set ths. rising th \<and> owned th = {}" using init by (auto simp: ml_init_def new_MultiLock_def)
  then show ?thesis by (auto simp: ml_inv_def)
qed

lemma rising_next: "rising th \<Longrightarrow> ml_next free th = Some th' \<Longrightarrow> rising th'"
  by (cases "(free, th)" rule: ml_next.cases) (auto split: if_splits)

lemma owned_next: "ml_next free th = Some th' \<Longrightarrow> x \<in> owned th' \<Longrightarrow> x \<in> owned th \<or> free x"
  by (cases "(free, th)" rule: ml_next.cases) (auto split: if_splits)

lemma ml_inv_step:
  assumes "ml_inv ths" and "ml_step ths ths'"
  shows "ml_inv ths'"
  using assms(2)
proof cases
  case (1 i th)
  have ris: "\<forall>th\<in>set ths'. rising th"
  proof
    fix x
    assume "x \<in> set ths'"
    then have "x = th \<or> x \<in> set ths" using 1(1) set_update_subset_insert by fastforce
    moreover have "rising (ths ! i)" using assms(1) 1(2) by (simp add: ml_inv_def)
    ultimately show "rising x" using rising_next [OF _ 1(3)] assms(1) by (auto simp: ml_inv_def)
  qed
  have apart: "owned (ths ! p) \<inter> owned (ths ! q) = {}" if "p < length ths" "q < length ths" "p \<noteq> q" for p q
    using assms(1) that unfolding ml_inv_def by blast
  have new: "owned th \<inter> owned (ths ! q) = {}" if "q < length ths" "q \<noteq> i" for q
  proof -
    have "x \<notin> owned (ths ! q)" if "x \<in> owned th" for x
    proof (cases "x \<in> owned (ths ! i)")
      case True
      then show ?thesis using apart [of i q] 1(2) \<open>q < length ths\<close> \<open>q \<noteq> i\<close> by auto
    next
      case False
      then have "lock_free ths x" using owned_next [OF 1(3) that] by simp
      then show ?thesis using \<open>q < length ths\<close> by (auto simp: lock_free_def)
    qed
    then show ?thesis by blast
  qed
  have "owned (ths' ! p) \<inter> owned (ths' ! q) = {}" if "p < length ths'" "q < length ths'" "p \<noteq> q" for p q
    using that new [of p] new [of q] apart [of p q] unfolding 1(1) by (cases "p = i"; cases "q = i") (auto simp: Int_commute)
  then show ?thesis using ris by (simp add: ml_inv_def)
qed

interpretation multi_lock: invariant_system ml_init ml_step ml_inv
  by unfold_locales (auto intro: ml_inv_init ml_inv_step)

section \<open>No deadlock\<close>

fun next_lock :: "ml_thread \<Rightarrow> nat option" where
  "next_lock (Locking h (l # t)) = Some l"
| "next_lock _ = None"

lemma stuck_waits: "ml_next free th = None \<Longrightarrow> th \<noteq> Finished \<Longrightarrow> \<exists>l. next_lock th = Some l \<and> \<not> free l"
  by (cases "(free, th)" rule: ml_next.cases) (auto split: if_splits)

lemma owned_below: "rising th \<Longrightarrow> next_lock th = Some l \<Longrightarrow> x \<in> owned th \<Longrightarrow> x < l"
  by (cases th rule: next_lock.cases) (auto simp: sorted_wrt_append)

text \<open>As long as a thread has not finished one can go on, and no lock has two owners.\<close>

lemma locks_never_deadlock:
  assumes "ml_init ths" and "ml_step\<^sup>*\<^sup>* ths ths'" and "th \<in> set ths'" and "th \<noteq> Finished"
  shows "(\<exists>nx. ml_step ths' nx) \<and>
    (\<forall>i<length ths'. \<forall>j<length ths'. i \<noteq> j \<longrightarrow> owned (ths' ! i) \<inter> owned (ths' ! j) = {})"
proof -
  have inv: "ml_inv ths'" using assms(1,2) by (rule multi_lock.inv_reachable)
  have "\<exists>nx. ml_step ths' nx"
  proof (rule ccontr)
    assume stuck: "\<nexists>nx. ml_step ths' nx"
    have none: "ml_next (lock_free ths') x = None" if "x \<in> set ths'" for x
      using that stuck ml_step.intros by (metis in_set_conv_nth not_None_eq)
    let ?wanted = "{l. \<exists>x\<in>set ths'. next_lock x = Some l}"
    have fin: "finite ?wanted"
    proof (rule finite_surj)
      show "?wanted \<subseteq> (\<lambda>x. the (next_lock x)) ` set ths'" by force
    qed simp
    obtain l0 where "l0 \<in> ?wanted" using stuck_waits [OF none [OF assms(3)] assms(4)] assms(3) by blast
    then have max: "Max ?wanted \<in> ?wanted" using fin by (intro Max_in) auto
    then obtain x where x: "x \<in> set ths'" "next_lock x = Some (Max ?wanted)" by blast
    then have "x \<noteq> Finished" by auto
    then have "\<not> lock_free ths' (Max ?wanted)" using stuck_waits [OF none [OF x(1)]] x(2) by auto
    then obtain y where y: "y \<in> set ths'" "Max ?wanted \<in> owned y" by (auto simp: lock_free_def)
    then have "y \<noteq> Finished" by auto
    then obtain l where l: "next_lock y = Some l" using stuck_waits [OF none [OF y(1)]] by blast
    have "rising y" using inv y(1) by (simp add: ml_inv_def)
    then have "Max ?wanted < l" using owned_below l y(2) by blast
    moreover have "l \<le> Max ?wanted" using fin l y(1) by (intro Max_ge) auto
    ultimately show False by simp
  qed
  then show ?thesis using inv by (simp add: ml_inv_def)
qed

fun steps_left :: "ml_thread \<Rightarrow> nat" where
  "steps_left (Locking h t) = 3 + length h + 2 * length t"
| "steps_left (Inside h) = 2 + length h"
| "steps_left (Unlocking h) = 1 + length h"
| "steps_left Finished = 0"

definition all_left :: "ml_thread list \<Rightarrow> nat" where
  "all_left ths = sum_list (map steps_left ths)"

lemma ml_step_left: "ml_step ths ths' \<Longrightarrow> all_left ths = Suc (all_left ths')"
proof (induction rule: ml_step.induct)
  case (1 i ths th)
  have "steps_left (ths ! i) = Suc (steps_left th)"
    using 1(2) by (cases "(lock_free ths, ths ! i)" rule: ml_next.cases) (auto split: if_splits)
  moreover have "ths = take i ths @ ths ! i # drop (Suc i) ths" using 1(1) by (simp add: id_take_nth_drop)
  then have "all_left ths = all_left (take i ths @ ths ! i # drop (Suc i) ths)" by simp
  ultimately show ?case using 1(1) by (simp add: all_left_def upd_conv_take_nth_drop)
qed

lemma ml_steps_left: "(ml_step ^^ n) ths ths' \<Longrightarrow> all_left ths = n + all_left ths'"
  by (induction n arbitrary: ths') (auto dest: ml_step_left)

text \<open>C18: threads that each lock a set of locks never exclude each other for ever: no run is longer than the steps the threads
  have to make, every run can be continued until all have finished, and no lock ever has two owners.\<close>

theorem locks_all_finish:
  assumes "ml_init ths" and "(ml_step ^^ n) ths ths'"
  shows "n \<le> all_left ths \<and> (\<exists>fin. ml_step\<^sup>*\<^sup>* ths' fin \<and> (\<forall>th\<in>set fin. th = Finished)) \<and>
    (\<forall>i<length ths'. \<forall>j<length ths'. i \<noteq> j \<longrightarrow> owned (ths' ! i) \<inter> owned (ths' ! j) = {})"
proof -
  have run: "ml_step\<^sup>*\<^sup>* ths ths'" using assms(2) by (rule relpowp_imp_rtranclp)
  have "ml_step\<^sup>*\<^sup>* ths u \<Longrightarrow> \<exists>fin. ml_step\<^sup>*\<^sup>* u fin \<and> (\<forall>th\<in>set fin. th = Finished)" for u
  proof (induction "all_left u" arbitrary: u rule: less_induct)
    case less
    show ?case
    proof (cases "\<forall>th\<in>set u. th = Finished")
      case False
      then obtain nx where step: "ml_step u nx" using locks_never_deadlock [OF assms(1) less.prems] by blast
      then have "ml_step\<^sup>*\<^sup>* ths nx" using less.prems by simp
      then obtain fin where "ml_step\<^sup>*\<^sup>* nx fin" "\<forall>th\<in>set fin. th = Finished"
        using less.hyps [of "nx"] ml_step_left [OF step] by auto
      then show ?thesis using step by (meson converse_rtranclp_into_rtranclp)
    qed blast
  qed
  then show ?thesis using run ml_steps_left [OF assms(2)] multi_lock.inv_reachable [OF assms(1) run] by (auto simp: ml_inv_def)
qed

theorem locks_all_finish_witness:
  "let ths = [new_MultiLock [2, 1, 2], new_MultiLock [1, 3]] in
   ml_init ths \<and> (\<exists>fin. ml_step\<^sup>*\<^sup>* ths fin \<and> (\<forall>th\<in>set fin. th = Finished))"
proof -
  let ?ths = "[new_MultiLock [2, 1, 2], new_MultiLock [1, 3]]"
  have i: "ml_init ?ths" by (auto simp: ml_init_def)
  show ?thesis using i locks_all_finish [OF i, of 0 ?ths] by (simp add: Let_def)
qed

end
