(* ===== verification/Init_Once.thy ===== *)
theory Init_Once
  imports Std_Map "HOL-Library.List_Lexorder" "HOL-Library.Char_ord"
begin

text \<open>
  Initialisation functions, \<open>SingletonInitHelper\<close> of \<^verbatim>\<open>Gamnet/Library/Singleton.h\<close>. Functions are registered by name; one
  that needs another calls it by name first (\<^verbatim>\<open>GAMNET_CALL_INIT_HANDLER\<close>). A function is the list of the names it calls; what
  it does itself is recorded by its name.
\<close>

section \<open>State and operations\<close>

record init_helper =
  mapInitFuncInfos :: "(string, string list) std_map"
  setInitCompleted :: "string set"
  initialised :: "string list"

definition new_init_helper :: init_helper where
  "new_init_helper = \<lparr>mapInitFuncInfos = [], setInitCompleted = {}, initialised = []\<rparr>"

definition RegisterInitFunction :: "string \<Rightarrow> string list \<Rightarrow> init_helper \<Rightarrow> bool outcome \<times> init_helper" where
  "RegisterInitFunction name func h =
     (case std_insert name func (mapInitFuncInfos h) of
        (False, _) \<Rightarrow> (Throw 0, h)
      | (True, m) \<Rightarrow> (Ret True, h\<lparr>mapInitFuncInfos := m\<rparr>))"

text \<open>The calls of a function in their order; the first that throws ends it.\<close>

fun call_all :: "(string \<Rightarrow> init_helper \<Rightarrow> unit outcome \<times> init_helper) \<Rightarrow> string list \<Rightarrow> init_helper \<Rightarrow> unit outcome \<times> init_helper" where
  "call_all call [] h = (Ret (), h)"
| "call_all call (name # names) h = (case call name h of (Ret _, h) \<Rightarrow> call_all call names h | r \<Rightarrow> r)"

text \<open>\<open>CallInitFunc\<close>; every nested call finds one more name completed, so that the number of registered names bounds the
  depth. \<open>Undef\<close>: the depth was too small.\<close>

fun CallInitFunc :: "nat \<Rightarrow> string \<Rightarrow> init_helper \<Rightarrow> unit outcome \<times> init_helper" where
  "CallInitFunc 0 name h = (Undef, h)"
| "CallInitFunc (Suc depth) name h =
     (case std_find name (mapInitFuncInfos h) of
        None \<Rightarrow> (Throw 0, h)
      | Some func \<Rightarrow>
          if name \<in> setInitCompleted h then (Ret (), h)
          else
            (case call_all (CallInitFunc depth) func (h\<lparr>setInitCompleted := insert name (setInitCompleted h)\<rparr>) of
               (Ret _, h) \<Rightarrow> (Ret (), h\<lparr>initialised := initialised h @ [name]\<rparr>)
             | r \<Rightarrow> r))"

definition Init_all :: "nat \<Rightarrow> init_helper \<Rightarrow> unit outcome \<times> init_helper" where
  "Init_all depth h = call_all (CallInitFunc depth) (map fst (mapInitFuncInfos h)) h"

section \<open>One call\<close>

type_synonym init_functions = "(string, string list) std_map"

text \<open>Every function that is called is registered.\<close>

definition closed :: "init_functions \<Rightarrow> bool" where
  "closed m \<longleftrightarrow> (\<forall>(name, func)\<in>set m. set func \<subseteq> fst ` set m)"

definition fits :: "init_functions \<Rightarrow> init_helper \<Rightarrow> bool" where
  "fits m h \<longleftrightarrow> mapInitFuncInfos h = m \<and> setInitCompleted h \<subseteq> fst ` set m \<and>
     set (initialised h) \<subseteq> setInitCompleted h \<and> distinct (initialised h)"

text \<open>A call initialises functions that were not completed, and nothing else changes.\<close>

definition grows :: "init_helper \<Rightarrow> init_helper \<Rightarrow> bool" where
  "grows h h' \<longleftrightarrow> (\<exists>s. initialised h' = initialised h @ s \<and> setInitCompleted h' = setInitCompleted h \<union> set s \<and>
     set s \<inter> setInitCompleted h = {})"

text \<open>Functions whose calls go down a rank, each initialised behind those it calls.\<close>

definition ranked :: "(string \<Rightarrow> nat) \<Rightarrow> init_functions \<Rightarrow> bool" where
  "ranked rank m \<longleftrightarrow> (\<forall>(name, func)\<in>set m. \<forall>d\<in>set func. rank d < rank name)"

definition in_order :: "init_functions \<Rightarrow> string list \<Rightarrow> bool" where
  "in_order m l \<longleftrightarrow> (\<forall>i<length l. \<forall>func. std_find (l ! i) m = Some func \<longrightarrow> set func \<subseteq> set (take i l))"

definition above :: "(string \<Rightarrow> nat) \<Rightarrow> string \<Rightarrow> init_helper \<Rightarrow> bool" where
  "above rank name h \<longleftrightarrow> (\<forall>p\<in>setInitCompleted h - set (initialised h). rank name < rank p)"

definition todo :: "init_helper \<Rightarrow> nat" where
  "todo h = card (fst ` set (mapInitFuncInfos h) - setInitCompleted h)"

definition call_ok :: "init_functions \<Rightarrow> (string \<Rightarrow> nat) \<Rightarrow> string set \<Rightarrow> init_helper \<Rightarrow> unit outcome \<times> init_helper \<Rightarrow> bool" where
  "call_ok m rank names h r \<longleftrightarrow> (\<exists>h'. r = (Ret (), h') \<and> fits m h' \<and> grows h h' \<and> names \<subseteq> setInitCompleted h' \<and>
     (ranked rank m \<longrightarrow> in_order m (initialised h) \<longrightarrow> (\<forall>n\<in>names. above rank n h) \<longrightarrow>
        in_order m (initialised h') \<and> names \<subseteq> set (initialised h')))"

lemma grows_refl [simp]: "grows h h"
  by (simp add: grows_def)

lemma grows_trans: "grows h h' \<Longrightarrow> grows h' h'' \<Longrightarrow> grows h h''"
  by (auto simp: grows_def)

lemma grows_above: "grows h h' \<Longrightarrow> above rank n h' \<longleftrightarrow> above rank n h"
proof -
  assume "grows h h'"
  then have "setInitCompleted h' - set (initialised h') = setInitCompleted h - set (initialised h)" by (auto simp: grows_def)
  then show ?thesis by (simp add: above_def)
qed

lemma grows_todo:
  assumes "grows h h'" and "fits m h" and "fits m h'"
  shows "todo h' \<le> todo h"
  using assms by (auto simp: todo_def grows_def fits_def intro!: card_mono)

lemma in_order_snoc:
  assumes "in_order m l" and "std_find n m = Some func" and "set func \<subseteq> set l"
  shows "in_order m (l @ [n])"
  using assms by (auto simp: in_order_def nth_append less_Suc_eq)

lemma call_all_ok:
  assumes call: "\<And>h name. fits m h \<Longrightarrow> name \<in> fst ` set m \<Longrightarrow> todo h < d \<Longrightarrow> call_ok m rank {name} h (call name h)"
  shows "fits m h \<Longrightarrow> set names \<subseteq> fst ` set m \<Longrightarrow> todo h < d \<Longrightarrow> call_ok m rank (set names) h (call_all call names h)"
proof (induction names arbitrary: h)
  case Nil
  then show ?case by (simp add: call_ok_def)
next
  case (Cons n names)
  obtain h1 where one: "call n h = (Ret (), h1)" "fits m h1" "grows h h1" "n \<in> setInitCompleted h1"
      "ranked rank m \<Longrightarrow> in_order m (initialised h) \<Longrightarrow> above rank n h \<Longrightarrow> in_order m (initialised h1) \<and> n \<in> set (initialised h1)"
    using call [of h n] Cons.prems by (auto simp: call_ok_def)
  have "todo h1 < d" using grows_todo [OF one(3) Cons.prems(1) one(2)] Cons.prems(3) by simp
  then obtain h2 where two: "call_all call names h1 = (Ret (), h2)" "fits m h2" "grows h1 h2" "set names \<subseteq> setInitCompleted h2"
      "ranked rank m \<Longrightarrow> in_order m (initialised h1) \<Longrightarrow> \<forall>x\<in>set names. above rank x h1 \<Longrightarrow>
         in_order m (initialised h2) \<and> set names \<subseteq> set (initialised h2)"
    using Cons.IH [OF one(2)] Cons.prems(2) by (auto simp: call_ok_def)
  have "n \<in> setInitCompleted h2" "n \<in> set (initialised h1) \<Longrightarrow> n \<in> set (initialised h2)" using one(4) two(3) by (auto simp: grows_def)
  then show ?case using one two grows_trans [OF one(3) two(3)] grows_above [OF one(3)] unfolding call_ok_def by auto
qed

lemma CallInitFunc_ok:
  assumes "map_ok m" and "closed m"
  shows "fits m h \<Longrightarrow> name \<in> fst ` set m \<Longrightarrow> todo h < d \<Longrightarrow> call_ok m rank {name} h (CallInitFunc d name h)"
proof (induction d arbitrary: h name)
  case (Suc d)
  obtain func where func: "std_find name m = Some func" using Suc.prems(2) by (metis std_find_None not_None_eq)
  have m: "mapInitFuncInfos h = m" using Suc.prems(1) by (simp add: fits_def)
  show ?case
  proof (cases "name \<in> setInitCompleted h")
    case True
    have "above rank name h \<Longrightarrow> name \<in> set (initialised h)" using True by (auto simp: above_def)
    then show ?thesis using True Suc.prems(1) func m by (auto simp: call_ok_def)
  next
    case False
    let ?h = "h\<lparr>setInitCompleted := insert name (setInitCompleted h)\<rparr>"
    have fits: "fits m ?h" using Suc.prems(1,2) by (auto simp: fits_def)
    have "todo ?h < todo h"
      unfolding todo_def m by (intro psubset_card_mono) (use False Suc.prems(2) m in auto)
    then have "todo ?h < d" using Suc.prems(3) by simp
    moreover have calls: "set func \<subseteq> fst ` set m" using assms func by (auto simp: closed_def std_find_iff)
    ultimately have "call_ok m rank (set func) ?h (call_all (CallInitFunc d) func ?h)"
      using Suc.IH by (intro call_all_ok [where d = d, OF _ fits]) blast+
    then obtain h1 where h1: "call_all (CallInitFunc d) func ?h = (Ret (), h1)" "fits m h1" "grows ?h h1"
        "ranked rank m \<Longrightarrow> in_order m (initialised ?h) \<Longrightarrow> \<forall>n\<in>set func. above rank n ?h \<Longrightarrow>
           in_order m (initialised h1) \<and> set func \<subseteq> set (initialised h1)"
      unfolding call_ok_def by blast
    let ?h' = "h1\<lparr>initialised := initialised h1 @ [name]\<rparr>"
    have "CallInitFunc (Suc d) name h = (Ret (), ?h')" using False func m h1(1) by simp
    moreover obtain s where s: "initialised h1 = initialised h @ s" "setInitCompleted h1 = insert name (setInitCompleted h) \<union> set s"
        "set s \<inter> insert name (setInitCompleted h) = {}"
      using h1(3) by (auto simp: grows_def)
    have fits': "fits m ?h'" using h1(2) s False Suc.prems(1) by (auto simp: fits_def)
    moreover have "grows h ?h'" using s False by (auto simp: grows_def intro!: exI [of _ "s @ [name]"])
    moreover have "name \<in> setInitCompleted ?h'" using s by simp
    moreover have "in_order m (initialised ?h')" if "ranked rank m" "in_order m (initialised h)" "above rank name h"
    proof -
      have down: "\<forall>n\<in>set func. rank n < rank name" using that(1) func assms(1) by (auto simp: ranked_def std_find_iff)
      then have "\<forall>n\<in>set func. above rank n ?h" using that(3) by (auto simp: above_def intro: less_trans)
      then have "in_order m (initialised h1) \<and> set func \<subseteq> set (initialised h1)" using h1(4) that by simp
      then show ?thesis using in_order_snoc [OF _ func] by simp
    qed
    ultimately show ?thesis unfolding call_ok_def by auto
  qed
qed simp

section \<open>Properties\<close>

text \<open>C20: \<open>Init\<close> returns and runs every registered function exactly once, also when functions call each other in a circle; when
  they do not, each runs behind all functions it calls.\<close>

theorem init_runs_each_once:
  assumes "map_ok m" and "closed m" and "length m < depth"
  shows "\<exists>h. Init_all depth (new_init_helper\<lparr>mapInitFuncInfos := m\<rparr>) = (Ret (), h) \<and>
    distinct (initialised h) \<and> set (initialised h) = fst ` set m \<and> (ranked rank m \<longrightarrow> in_order m (initialised h))"
proof -
  let ?h = "new_init_helper\<lparr>mapInitFuncInfos := m\<rparr>"
  have fits: "fits m ?h" by (simp add: fits_def new_init_helper_def)
  have "todo ?h \<le> length m" unfolding todo_def new_init_helper_def by (simp add: card_image_le [THEN le_trans] card_length)
  then have "todo ?h < depth" using assms(3) by simp
  then have "call_ok m rank (set (map fst m)) ?h (call_all (CallInitFunc depth) (map fst m) ?h)"
    using CallInitFunc_ok [OF assms(1,2)] by (intro call_all_ok [where d = depth, OF _ fits]) auto
  then obtain h where h: "call_all (CallInitFunc depth) (map fst m) ?h = (Ret (), h)" "fits m h" "grows ?h h"
      "fst ` set m \<subseteq> setInitCompleted h"
      "ranked rank m \<Longrightarrow> in_order m (initialised ?h) \<Longrightarrow> \<forall>n\<in>set (map fst m). above rank n ?h \<Longrightarrow> in_order m (initialised h)"
    unfolding call_ok_def by auto
  have "set (initialised h) = setInitCompleted h" using h(3) by (auto simp: grows_def new_init_helper_def)
  then have "set (initialised h) = fst ` set m" using h(2,4) by (auto simp: fits_def)
  moreover have "ranked rank m \<Longrightarrow> in_order m (initialised h)"
    using h(5) by (simp add: in_order_def above_def new_init_helper_def)
  ultimately show ?thesis using h(1,2) by (auto simp: Init_all_def fits_def new_init_helper_def)
qed

theorem init_runs_each_once_witness:
  "let m = [(''a'', [''c'']), (''b'', []), (''c'', [''b''])] in
   \<exists>h. Init_all 4 (new_init_helper\<lparr>mapInitFuncInfos := m\<rparr>) = (Ret (), h) \<and> set (initialised h) = {''a'', ''b'', ''c''}"
  using init_runs_each_once [of "[(''a'', [''c'']), (''b'', []), (''c'', [''b''])]" 4 length]
  by (auto simp: Let_def map_ok_def closed_def)

text \<open>When a function calls an unknown one, \<open>Init\<close> throws, but the function counts as completed: calling it again returns
  without running it.\<close>

theorem failed_function_counts_as_completed:
  assumes "std_find name (mapInitFuncInfos h) = Some (missing # func)" and "std_find missing (mapInitFuncInfos h) = None"
    and "name \<notin> setInitCompleted h"
  shows "\<exists>h'. CallInitFunc (Suc (Suc d)) name h = (Throw 0, h') \<and> name \<notin> set (initialised h') - set (initialised h) \<and>
    CallInitFunc (Suc d) name h' = (Ret (), h')"
  using assms by simp

theorem failed_function_counts_as_completed_witness:
  "let h = new_init_helper\<lparr>mapInitFuncInfos := [(''a'', [''x''])]\<rparr> in
   \<exists>h'. CallInitFunc 2 ''a'' h = (Throw 0, h') \<and> CallInitFunc 1 ''a'' h' = (Ret (), h')"
  using failed_function_counts_as_completed [of "''a''" "new_init_helper\<lparr>mapInitFuncInfos := [(''a'', [''x''])]\<rparr>" "''x''" "[]" 0]
  by (auto simp: std_find_def new_init_helper_def numeral_2_eq_2)

end
