(* ===== verification/Deadline_Timer.thy ===== *)
theory Deadline_Timer
  imports Gamnet_Prelude
begin

text \<open>
  \<^verbatim>\<open>Gamnet/Library/Timer.h\<close> over the deadline timer of boost::asio, as that documents it: setting the expiry cancels the
  waits outstanding, a cancelled wait completes with an error, a wait whose deadline has passed completes without one,
  and a completion that was queued cannot be taken back. The functor of a timer is a value; running it is up to the
  program that owns the timer.
\<close>

section \<open>State and operations\<close>

text \<open>\<open>t_waits\<close> are the outstanding \<open>async_wait\<close>s, \<open>t_done\<close> the queued completions, \<open>True\<close> for one without error. Times
  are in milliseconds.\<close>

record 'f timer =
  t_entry :: "'f option"
  t_interval :: int
  t_expires :: int
  t_waits :: nat
  t_done :: "bool list"

definition new_timer :: "'f timer" where
  "new_timer = \<lparr>t_entry = None, t_interval = 0, t_expires = 0, t_waits = 0, t_done = []\<rparr>"

text \<open>\<open>deadline_timer::cancel\<close>, \<open>expires_at\<close> and \<open>async_wait\<close>.\<close>

definition cancel_waits :: "'f timer \<Rightarrow> 'f timer" where
  "cancel_waits t = t\<lparr>t_waits := 0, t_done := t_done t @ replicate (t_waits t) False\<rparr>"

definition set_expiry :: "int \<Rightarrow> 'f timer \<Rightarrow> 'f timer" where
  "set_expiry e t = (cancel_waits t)\<lparr>t_expires := e\<rparr>"

definition async_wait :: "'f timer \<Rightarrow> 'f timer" where
  "async_wait t = t\<lparr>t_waits := t_waits t + 1\<rparr>"

text \<open>The time has come.\<close>

definition elapse :: "int \<Rightarrow> 'f timer \<Rightarrow> 'f timer" where
  "elapse now t =
     (if t_expires t \<le> now then t\<lparr>t_waits := 0, t_done := t_done t @ replicate (t_waits t) True\<rparr> else t)"

definition SetTimer :: "int \<Rightarrow> 'f \<Rightarrow> int \<Rightarrow> 'f timer \<Rightarrow> 'f timer" where
  "SetTimer interval functor now t =
     async_wait (set_expiry (now + interval) (t\<lparr>t_interval := interval, t_entry := Some functor\<rparr>))"

definition Resume :: "'f timer \<Rightarrow> 'f timer" where
  "Resume t = async_wait (set_expiry (t_expires t + t_interval t) t)"

definition Cancel :: "'f timer \<Rightarrow> 'f timer" where
  "Cancel t = cancel_waits t"

text \<open>The functor to run, if any. A timer that was never set has no entry.\<close>

definition OnExpire :: "bool \<Rightarrow> 'f timer \<Rightarrow> 'f option outcome" where
  "OnExpire ok t =
     (if \<not> ok then Ret None else case t_entry t of None \<Rightarrow> Undef | Some functor \<Rightarrow> Ret (Some functor))"

section \<open>A periodic timer\<close>

text \<open>As the library uses it: the functor ends with \<open>Resume\<close>. \<open>pt_runs\<close> counts its runs.\<close>

record periodic =
  pt_now :: int
  pt_timer :: "unit timer"
  pt_runs :: nat

definition periodic_start :: "int \<Rightarrow> int \<Rightarrow> periodic" where
  "periodic_start interval now = \<lparr>pt_now = now, pt_timer = SetTimer interval () now new_timer, pt_runs = 0\<rparr>"

definition periodic_run :: "bool \<Rightarrow> periodic \<Rightarrow> periodic outcome" where
  "periodic_run ok s =
     bind_outcome (OnExpire ok (pt_timer s)) (\<lambda>functor.
       case functor of
         None \<Rightarrow> Ret s
       | Some _ \<Rightarrow> Ret (s\<lparr>pt_timer := Resume (pt_timer s), pt_runs := pt_runs s + 1\<rparr>))"

inductive periodic_step :: "periodic \<Rightarrow> periodic \<Rightarrow> bool" where
  passes: "0 \<le> d \<Longrightarrow> periodic_step s (s\<lparr>pt_now := pt_now s + d\<rparr>)"
| elapses: "periodic_step s (s\<lparr>pt_timer := elapse (pt_now s) (pt_timer s)\<rparr>)"
| expires: "t_done (pt_timer s) = ok # rest \<Longrightarrow> periodic_run ok (s\<lparr>pt_timer := (pt_timer s)\<lparr>t_done := rest\<rparr>\<rparr>) = Ret t \<Longrightarrow>
    periodic_step s t"

text \<open>There is one wait or one completion; the expiry is a multiple of the interval behind the start, however late the
  runs were.\<close>

definition periodic_inv :: "int \<Rightarrow> int \<Rightarrow> periodic \<Rightarrow> bool" where
  "periodic_inv interval start s \<longleftrightarrow>
     t_entry (pt_timer s) = Some () \<and> t_interval (pt_timer s) = interval \<and> 0 < interval \<and>
     t_expires (pt_timer s) = start + (int (pt_runs s) + 1) * interval \<and> start + int (pt_runs s) * interval \<le> pt_now s \<and>
     (t_waits (pt_timer s) = 1 \<and> t_done (pt_timer s) = [] \<or>
      t_waits (pt_timer s) = 0 \<and> t_done (pt_timer s) = [True] \<and> t_expires (pt_timer s) \<le> pt_now s)"

lemma periodic_inv_start: "0 < interval \<Longrightarrow> periodic_inv interval start (periodic_start interval start)"
  by (simp add: periodic_inv_def periodic_start_def SetTimer_def set_expiry_def cancel_waits_def async_wait_def new_timer_def)

lemma periodic_inv_step:
  assumes inv: "periodic_inv interval start s" and "periodic_step s t"
  shows "periodic_inv interval start t"
  using assms(2)
proof cases
  case (passes d)
  then show ?thesis using inv by (auto simp: periodic_inv_def)
next
  case elapses
  then show ?thesis using inv by (auto simp: periodic_inv_def elapse_def)
next
  case (expires ok rest)
  have "ok" "rest = []" "t_waits (pt_timer s) = 0" "t_expires (pt_timer s) \<le> pt_now s"
    using inv expires(1) by (auto simp: periodic_inv_def)
  moreover have "t = s\<lparr>pt_timer := Resume ((pt_timer s)\<lparr>t_done := []\<rparr>), pt_runs := pt_runs s + 1\<rparr>"
    using inv expires(2) \<open>ok\<close> \<open>rest = []\<close> by (simp add: periodic_inv_def periodic_run_def OnExpire_def)
  ultimately show ?thesis using inv
    by (simp add: periodic_inv_def Resume_def set_expiry_def cancel_waits_def async_wait_def distrib_right)
qed

interpretation periodic_timer: invariant_system
  "\<lambda>s. 0 < interval \<and> s = periodic_start interval start" periodic_step "periodic_inv interval start" for interval start
  by unfold_locales (auto intro: periodic_inv_start periodic_inv_step)

text \<open>C34: A functor that resumes its timer runs at multiples of the interval behind the start, without drift: whatever the
  delays, it has never run more often than intervals have passed, there is exactly one wait or one completion on the
  way, and whenever the wait is for a time still to come it has run exactly once for each interval that has passed.\<close>

theorem timer_keeps_period:
  assumes "0 < interval" and "periodic_step\<^sup>*\<^sup>* (periodic_start interval start) s"
  shows "int (pt_runs s) \<le> (pt_now s - start) div interval \<and>
    t_waits (pt_timer s) + length (t_done (pt_timer s)) = 1 \<and>
    (pt_now s < t_expires (pt_timer s) \<longrightarrow> int (pt_runs s) = (pt_now s - start) div interval)"
proof -
  have inv: "periodic_inv interval start s" by (rule periodic_timer.inv_reachable [OF _ assms(2)]) (use assms(1) in simp)
  then have "int (pt_runs s) * interval \<le> pt_now s - start" by (simp add: periodic_inv_def)
  then have le: "int (pt_runs s) \<le> (pt_now s - start) div interval"
    using assms(1) by (simp add: zdiv_mono1 [of "int (pt_runs s) * interval" "pt_now s - start" interval, simplified])
  moreover have "(pt_now s - start) div interval < int (pt_runs s) + 1" if "pt_now s < t_expires (pt_timer s)"
  proof -
    have "pt_now s - start < (int (pt_runs s) + 1) * interval" using that inv by (simp add: periodic_inv_def)
    then have "pt_now s - start \<le> int (pt_runs s) * interval + (interval - 1)" by (simp add: algebra_simps)
    then have "(pt_now s - start) div interval \<le> (int (pt_runs s) * interval + (interval - 1)) div interval"
      using assms(1) by (rule zdiv_mono1)
    also have "\<dots> = int (pt_runs s)" using assms(1) by (simp add: div_pos_pos_trivial)
    finally show ?thesis by simp
  qed
  ultimately show ?thesis using inv by (auto simp: periodic_inv_def)
qed

text \<open>Seven intervals late, the first of the missed runs.\<close>

theorem timer_keeps_period_witness:
  "\<exists>s. periodic_step\<^sup>*\<^sup>* (periodic_start 500 0) s \<and> pt_now s = 3500 \<and> pt_runs s = 1 \<and> int (pt_runs s) \<le> (pt_now s - 0) div 500"
proof -
  let ?a = "(periodic_start 500 0)\<lparr>pt_now := 3500\<rparr>"
  let ?b = "?a\<lparr>pt_timer := elapse 3500 (pt_timer ?a)\<rparr>"
  let ?c = "\<lparr>pt_now = 3500, pt_timer = \<lparr>t_entry = Some (), t_interval = 500, t_expires = 1000, t_waits = 1, t_done = []\<rparr>, pt_runs = 1\<rparr>"
  have "periodic_step (periodic_start 500 0) ?a"
    using periodic_step.passes [of 3500 "periodic_start 500 0"] by (simp add: periodic_start_def)
  moreover have "periodic_step ?a ?b" using periodic_step.elapses [of ?a] by simp
  moreover have "periodic_step ?b ?c"
    by (rule periodic_step.expires [of _ True "[]"])
      (simp_all add: periodic_start_def SetTimer_def elapse_def periodic_run_def OnExpire_def Resume_def set_expiry_def cancel_waits_def
        async_wait_def new_timer_def)
  ultimately have "periodic_step\<^sup>*\<^sup>* (periodic_start 500 0) ?c" by (meson rtranclp.rtrancl_into_rtrancl rtranclp.rtrancl_refl)
  then show ?thesis using timer_keeps_period [of 500 0 ?c] by (intro exI [of _ ?c]) simp
qed

end
