(* ===== verification/Link_Life.thy ===== *)
theory Link_Life
  imports Deadline_Timer
begin

text \<open>
  The life of one link, \<^verbatim>\<open>Gamnet/Network/Link.cpp\<close>: \<open>Connect\<close> with its timeout, the read loop and \<open>OnError\<close>. The
  handlers of a link run on its strand, one after another, in the order in which their operations completed; closing
  the socket ends the operations that are outstanding, but not the handlers already queued. Time is in milliseconds.
\<close>

section \<open>State\<close>

text \<open>A task on the strand: the completion of \<open>async_connect\<close>, with its error or with whether the calls on the connected
  socket succeed; the timeout; the completion of a read, with its error; and a call of \<open>OnError\<close> from elsewhere (a
  failed write, the sweep of idle links). The last part of a connection or a read is what the manager's \<open>OnConnect\<close> or
  \<open>OnRecvMsg\<close> does: nothing, or a call of \<open>OnError\<close> with a reason.\<close>

datatype life_task = Connected "int option" bool "int option" | Timed_Out | Received "int option" "int option" | Failed int

text \<open>What the link manager is told.\<close>

datatype life_event = Ev_Connect | Ev_Recv | Ev_Close int

record link_life =
  ll_open :: bool
  ll_session :: bool
  ll_manager :: bool
  ll_timer :: "unit timer"
  ll_connecting :: bool
  ll_reading :: bool
  ll_strand :: "life_task list"
  ll_events :: "life_event list"
  ll_stuck :: bool

text \<open>\<open>ETIMEDOUT\<close>, and the error of an operation whose socket was closed.\<close>

abbreviation ETIMEDOUT :: int where "ETIMEDOUT \<equiv> 110"
abbreviation ECANCELED :: int where "ECANCELED \<equiv> 125"

section \<open>Operations\<close>

text \<open>\<open>OnError\<close>, on the strand. \<open>detaches\<close> says whether the manager's \<open>OnClose\<close> detaches the session.\<close>

definition life_OnError :: "bool \<Rightarrow> int \<Rightarrow> link_life \<Rightarrow> link_life" where
  "life_OnError detaches reason l =
     (if \<not> ll_open l then l
      else
        let l = (if ll_manager l then l\<lparr>ll_events := ll_events l @ [Ev_Close reason], ll_session := ll_session l \<and> \<not> detaches\<rparr> else l)
        in l\<lparr>ll_manager := False, ll_open := False\<rparr>)"

text \<open>\<open>AsyncRead\<close>: on a closed socket the operation completes with an error, like one whose socket is closed later.\<close>

definition life_AsyncRead :: "link_life \<Rightarrow> link_life" where
  "life_AsyncRead l = l\<lparr>ll_reading := True\<rparr>"

text \<open>The handlers. The timeout and the connection end with a log line with the key of the session, without looking whether there is one; the
  read handler calls the manager, without looking whether there is one. \<open>set_option\<close> throws on a closed socket; the
  handler catches that and does nothing else.\<close>

definition manager_call :: "bool \<Rightarrow> life_event \<Rightarrow> int option \<Rightarrow> link_life \<Rightarrow> link_life" where
  "manager_call detaches ev closing l =
     (let l = l\<lparr>ll_events := ll_events l @ [ev]\<rparr>
      in case closing of None \<Rightarrow> l | Some reason \<Rightarrow> life_OnError detaches reason l)"

definition on_connected :: "bool \<Rightarrow> int option \<Rightarrow> bool \<Rightarrow> int option \<Rightarrow> link_life \<Rightarrow> link_life outcome" where
  "on_connected detaches ec options closing l =
     (let l = l\<lparr>ll_timer := Cancel (ll_timer l)\<rparr> in
      case ec of
        Some e \<Rightarrow> Ret (life_OnError detaches e l)
      | None \<Rightarrow>
          if \<not> ll_session l then Ret (life_OnError detaches NullPointerError l)
          else if \<not> options \<or> \<not> ll_open l then Ret (l\<lparr>ll_stuck := True\<rparr>)
          else
            let l = (if ll_manager l then manager_call detaches Ev_Connect closing l else l)
            in if \<not> ll_session l then Undef else Ret (life_AsyncRead l))"

definition on_timeout :: "bool \<Rightarrow> link_life \<Rightarrow> link_life outcome" where
  "on_timeout detaches l = (if \<not> ll_session l then Undef else Ret (life_OnError detaches ETIMEDOUT l))"

definition on_received :: "bool \<Rightarrow> int option \<Rightarrow> int option \<Rightarrow> link_life \<Rightarrow> link_life outcome" where
  "on_received detaches ec closing l =
     (case ec of
        Some e \<Rightarrow> Ret (life_OnError detaches e l)
      | None \<Rightarrow> if \<not> ll_manager l then Undef else Ret (life_AsyncRead (manager_call detaches Ev_Recv closing l)))"

fun life_run :: "bool \<Rightarrow> life_task \<Rightarrow> link_life \<Rightarrow> link_life outcome" where
  "life_run detaches (Connected ec options closing) l = on_connected detaches ec options closing l"
| "life_run detaches Timed_Out l = on_timeout detaches l"
| "life_run detaches (Received ec closing) l = on_received detaches ec closing l"
| "life_run detaches (Failed e) l = Ret (life_OnError detaches e l)"

text \<open>\<open>Connect\<close> on a link with a session and a manager; \<open>async_connect\<close> opens the socket. The name of the host is resolved
  first, which throws an exception that is not one of the library's.\<close>

datatype connect_call = Started link_life | LibraryException int | SystemException

definition life_Connect :: "string option \<Rightarrow> bool \<Rightarrow> int \<Rightarrow> int \<Rightarrow> link_life \<Rightarrow> connect_call" where
  "life_Connect host resolved timeout now l =
     (if host = None then LibraryException NullPointerError
      else if \<not> resolved then SystemException
      else
        let l = l\<lparr>ll_open := True, ll_connecting := True\<rparr>
        in Started (if 0 < timeout then l\<lparr>ll_timer := SetTimer (timeout * 1000) () now (ll_timer l)\<rparr> else l))"

definition attached_link :: link_life where
  "attached_link = \<lparr>ll_open = False, ll_session = True, ll_manager = True, ll_timer = new_timer, ll_connecting = False,
     ll_reading = False, ll_strand = [], ll_events = [], ll_stuck = False\<rparr>"

section \<open>Runs\<close>

text \<open>An operation on a closed socket completes with an error. The timer's functor posts to the strand.\<close>

inductive life_step :: "bool \<Rightarrow> link_life \<Rightarrow> link_life \<Rightarrow> bool" where
  connect_done: "ll_connecting l \<Longrightarrow> (ll_open l \<or> ec \<noteq> None) \<Longrightarrow>
    life_step D l (l\<lparr>ll_connecting := False, ll_strand := ll_strand l @ [Connected ec options closing]\<rparr>)"
| read_done: "ll_reading l \<Longrightarrow> (ll_open l \<or> ec \<noteq> None) \<Longrightarrow>
    life_step D l (l\<lparr>ll_reading := False, ll_strand := ll_strand l @ [Received ec closing]\<rparr>)"
| fails: "life_step D l (l\<lparr>ll_strand := ll_strand l @ [Failed e]\<rparr>)"
| timer: "life_step D l (l\<lparr>ll_timer := elapse now (ll_timer l)\<rparr>)"
| expired: "t_done (ll_timer l) = ok # rest \<Longrightarrow>
    OnExpire ok ((ll_timer l)\<lparr>t_done := rest\<rparr>) = Ret work \<Longrightarrow>
    life_step D l (l\<lparr>ll_timer := (ll_timer l)\<lparr>t_done := rest\<rparr>,
      ll_strand := ll_strand l @ (case work of None \<Rightarrow> [] | Some _ \<Rightarrow> [Timed_Out])\<rparr>)"
| runs: "ll_strand l = t # ts \<Longrightarrow> life_run D t (l\<lparr>ll_strand := ts\<rparr>) = Ret l' \<Longrightarrow> life_step D l l'"

definition crashes :: "bool \<Rightarrow> link_life \<Rightarrow> bool" where
  "crashes D l \<longleftrightarrow> (case ll_strand l of [] \<Rightarrow> False | t # ts \<Rightarrow> life_run D t (l\<lparr>ll_strand := ts\<rparr>) = Undef)"

text \<open>What the manager may be told: at most one connection, then data, then at most one close, and nothing behind it.\<close>

fun well_reported :: "bool \<Rightarrow> bool \<Rightarrow> life_event list \<Rightarrow> bool" where
  "well_reported connected closed [] = (\<not> closed)"
| "well_reported connected closed (Ev_Connect # es) = (\<not> connected \<and> well_reported True closed es)"
| "well_reported connected closed (Ev_Recv # es) = (connected \<and> well_reported connected closed es)"
| "well_reported connected closed (Ev_Close r # es) = (closed \<and> es = [])"

lemma well_reported_close: "well_reported c False es \<Longrightarrow> well_reported c True (es @ [Ev_Close r])"
  by (induction c False es rule: well_reported.induct) auto

lemma well_reported_connect: "well_reported c False es \<Longrightarrow> \<not> c \<Longrightarrow> Ev_Connect \<notin> set es \<Longrightarrow> well_reported c False (es @ [Ev_Connect])"
  by (induction c False es rule: well_reported.induct) auto

lemma well_reported_recv: "well_reported c False es \<Longrightarrow> c \<or> Ev_Connect \<in> set es \<Longrightarrow> well_reported c False (es @ [Ev_Recv])"
  by (induction c False es rule: well_reported.induct) auto

fun connect_task :: "life_task \<Rightarrow> bool" where
  "connect_task (Connected ec options closing) = True"
| "connect_task _ = False"

fun read_task :: "life_task \<Rightarrow> bool" where
  "read_task (Received ec closing) = True"
| "read_task _ = False"

text \<open>While the socket is open: exactly one of the connection attempt and the read loop is under way, or the link is stuck;
  a connection attempt with a timeout has its timer set, or its timeout queued.\<close>

definition connect_ops :: "link_life \<Rightarrow> nat" where
  "connect_ops l = (if ll_connecting l then 1 else 0) + length (filter connect_task (ll_strand l))"

definition read_ops :: "link_life \<Rightarrow> nat" where
  "read_ops l = (if ll_reading l then 1 else 0) + length (filter read_task (ll_strand l))"

definition timed :: "link_life \<Rightarrow> bool" where
  "timed l \<longleftrightarrow> 0 < t_waits (ll_timer l) \<or> True \<in> set (t_done (ll_timer l)) \<or> Timed_Out \<in> set (ll_strand l)"

definition told :: "bool \<Rightarrow> link_life \<Rightarrow> bool" where
  "told D l \<longleftrightarrow>
     well_reported False (\<not> ll_open l) (ll_events l) \<and> ll_manager l = ll_open l \<and> ll_session l = (ll_open l \<or> \<not> D) \<and>
     (t_entry (ll_timer l) = None \<longrightarrow>
       t_waits (ll_timer l) = 0 \<and> True \<notin> set (t_done (ll_timer l)) \<and> Timed_Out \<notin> set (ll_strand l))"

definition watched :: "int \<Rightarrow> link_life \<Rightarrow> bool" where
  "watched timeout l \<longleftrightarrow>
     (if Ev_Connect \<in> set (ll_events l) then connect_ops l = 0 else read_ops l = 0) \<and>
     connect_ops l + read_ops l \<le> 1 \<and> (\<not> ll_stuck l \<longrightarrow> connect_ops l + read_ops l = 1) \<and>
     (0 < timeout \<longrightarrow> ll_connecting l \<longrightarrow> timed l)"

definition life_inv :: "bool \<Rightarrow> int \<Rightarrow> link_life \<Rightarrow> bool" where
  "life_inv D timeout l \<longleftrightarrow> told D l \<and> (ll_open l \<longrightarrow> watched timeout l)"

lemma told_OnError: "told D l \<Longrightarrow> told D (life_OnError D r l)"
  by (auto simp: told_def life_OnError_def Let_def intro: well_reported_close)

lemma OnError_closed [simp]: "\<not> ll_open (life_OnError D r l)"
  by (simp add: life_OnError_def Let_def)

lemma life_inv_OnError: "told D l \<Longrightarrow> life_inv D timeout (life_OnError D r l)"
  by (simp add: life_inv_def told_OnError)

lemma told_pop: "told D l \<Longrightarrow> ll_strand l = t # ts \<Longrightarrow> told D (l\<lparr>ll_strand := ts\<rparr>)"
  by (auto simp: told_def)

lemma told_Cancel: "told D l \<Longrightarrow> told D (l\<lparr>ll_timer := Cancel (ll_timer l)\<rparr>)"
  by (auto simp: told_def Cancel_def cancel_waits_def)

lemma AsyncRead_simps [simp]:
  "told D (life_AsyncRead l) = told D l" "ll_open (life_AsyncRead l) = ll_open l"
  by (simp_all add: told_def life_AsyncRead_def)

lemma life_inv_run:
  assumes inv: "life_inv D timeout l" and strand: "ll_strand l = t # ts" and run: "life_run D t (l\<lparr>ll_strand := ts\<rparr>) = Ret l'"
  shows "life_inv D timeout l'"
proof -
  let ?l = "l\<lparr>ll_strand := ts\<rparr>"
  have told: "told D ?l" using told_pop [OF _ strand] inv by (simp add: life_inv_def)
  show ?thesis
  proof (cases t)
    case (Connected ec options closing)
    let ?k = "?l\<lparr>ll_timer := Cancel (ll_timer ?l)\<rparr>"
    have k: "told D ?k" by (rule told_Cancel [OF told])
    have run': "on_connected D ec options closing ?l = Ret l'" using run Connected by simp
    show ?thesis
    proof (cases "ec = None \<and> ll_session l \<and> options \<and> ll_open l")
      case False
      then consider e where "l' = life_OnError D e ?k" | "l' = ?k\<lparr>ll_stuck := True\<rparr>"
        using run' by (auto simp: on_connected_def Let_def split: option.splits if_splits)
      then show ?thesis
      proof cases
        case 1
        then show ?thesis using life_inv_OnError [OF k] by simp
      next
        case 2
        then have "told D l'" using k by (simp add: told_def)
        moreover have "watched timeout l'" if "ll_open l'"
        proof -
          have "watched timeout l" using inv that 2 by (simp add: life_inv_def)
          then show ?thesis using 2 strand Connected
            by (auto simp: watched_def connect_ops_def read_ops_def split: if_splits)
        qed
        ultimately show ?thesis by (simp add: life_inv_def)
      qed
    next
      case True
      then have w: "watched timeout l" and m: "ll_manager l" using inv by (simp_all add: life_inv_def told_def)
      from w have none: "Ev_Connect \<notin> set (ll_events l)" "read_ops l = 0" "connect_ops ?l = 0"
        using strand Connected by (auto simp: watched_def connect_ops_def read_ops_def split: if_splits)
      let ?c = "?k\<lparr>ll_events := ll_events l @ [Ev_Connect]\<rparr>"
      have c: "told D ?c" using k True none(1) by (auto simp: told_def intro: well_reported_connect)
      show ?thesis
      proof (cases closing)
        case None
        then have "l' = life_AsyncRead ?c" using run' True m by (simp add: on_connected_def manager_call_def)
        then show ?thesis using c none strand Connected
          by (simp add: life_inv_def watched_def connect_ops_def read_ops_def life_AsyncRead_def told_def split: if_splits)
      next
        case (Some r)
        then have "l' = life_AsyncRead (life_OnError D r ?c)"
          using run' True m by (simp add: on_connected_def manager_call_def Let_def split: if_splits)
        then show ?thesis using told_OnError [OF c] by (simp add: life_inv_def)
      qed
    qed
  next
    case Timed_Out
    then have "l' = life_OnError D ETIMEDOUT ?l" using run by (simp add: on_timeout_def split: if_splits)
    then show ?thesis using life_inv_OnError [OF told] by simp
  next
    case (Received ec closing)
    show ?thesis
    proof (cases ec)
      case (Some e)
      then have "l' = life_OnError D e ?l" using run Received by (simp add: on_received_def)
      then show ?thesis using life_inv_OnError [OF told] by simp
    next
      case None
      then have m: "ll_manager l" and l': "l' = life_AsyncRead (manager_call D Ev_Recv closing ?l)"
        using run Received by (simp_all add: on_received_def split: if_splits)
      then have op: "ll_open l" and w: "watched timeout l" using inv by (simp_all add: life_inv_def told_def)
      then have some: "Ev_Connect \<in> set (ll_events l)" "connect_ops l = 0" "read_ops ?l = 0"
        using strand Received by (auto simp: watched_def connect_ops_def read_ops_def split: if_splits)
      let ?c = "?l\<lparr>ll_events := ll_events l @ [Ev_Recv]\<rparr>"
      have c: "told D ?c" using told op some(1) by (auto simp: told_def intro: well_reported_recv)
      show ?thesis
      proof (cases closing)
        case None
        then show ?thesis using l' c some strand Received
          by (auto simp: life_inv_def watched_def connect_ops_def read_ops_def life_AsyncRead_def told_def manager_call_def split: if_splits)
      next
        case (Some r)
        then show ?thesis using l' told_OnError [OF c] by (simp add: life_inv_def manager_call_def)
      qed
    qed
  next
    case (Failed e)
    then show ?thesis using run life_inv_OnError [OF told] by auto
  qed
qed

text \<open>A completion moves its operation to the strand.\<close>

lemma queued:
  "ll_connecting l \<Longrightarrow> connect_ops (l\<lparr>ll_connecting := False, ll_strand := ll_strand l @ [Connected ec options closing]\<rparr>) = connect_ops l"
  "read_ops (l\<lparr>ll_connecting := c, ll_strand := ll_strand l @ [Connected ec options closing]\<rparr>) = read_ops l"
  "ll_reading l \<Longrightarrow> read_ops (l\<lparr>ll_reading := False, ll_strand := ll_strand l @ [Received ec closing]\<rparr>) = read_ops l"
  "connect_ops (l\<lparr>ll_reading := c, ll_strand := ll_strand l @ [Received ec closing]\<rparr>) = connect_ops l"
  by (simp_all add: connect_ops_def read_ops_def)

lemma unqueued:
  "t \<in> {Failed e, Timed_Out} \<Longrightarrow> connect_ops (l\<lparr>ll_timer := w, ll_strand := ll_strand l @ [t]\<rparr>) = connect_ops l"
  "t \<in> {Failed e, Timed_Out} \<Longrightarrow> read_ops (l\<lparr>ll_timer := w, ll_strand := ll_strand l @ [t]\<rparr>) = read_ops l"
  "connect_ops (l\<lparr>ll_timer := w\<rparr>) = connect_ops l" "read_ops (l\<lparr>ll_timer := w\<rparr>) = read_ops l"
  "connect_ops (l\<lparr>ll_strand := ll_strand l @ [Failed e]\<rparr>) = connect_ops l" "read_ops (l\<lparr>ll_strand := ll_strand l @ [Failed e]\<rparr>) = read_ops l"
  by (auto simp: connect_ops_def read_ops_def)

lemma life_inv_step:
  assumes inv: "life_inv D timeout l" and "life_step D l l'"
  shows "life_inv D timeout l'"
  using assms(2)
proof cases
  case (connect_done ec options closing)
  have "told D l'" using inv connect_done(1) by (simp add: life_inv_def told_def)
  moreover have "watched timeout l'" if "watched timeout l"
    using that connect_done(1, 2) unfolding watched_def connect_done(1) by (simp add: queued)
  ultimately show ?thesis using inv connect_done(1) by (simp add: life_inv_def)
next
  case (read_done ec closing)
  have "told D l'" using inv read_done(1) by (simp add: life_inv_def told_def)
  moreover have "watched timeout l'" if "watched timeout l"
    using that read_done(2) unfolding watched_def read_done(1) by (simp add: queued timed_def)
  ultimately show ?thesis using inv read_done(1) by (simp add: life_inv_def)
next
  case (fails e)
  have "told D l'" using inv fails by (simp add: life_inv_def told_def)
  moreover have "watched timeout l'" if "watched timeout l"
    using that unfolding watched_def fails by (simp add: unqueued timed_def)
  ultimately show ?thesis using inv fails by (simp add: life_inv_def)
next
  case (timer now)
  have "told D l'" using inv timer by (auto simp: life_inv_def told_def elapse_def)
  moreover have "timed l'" if "timed l" using that timer by (auto simp: timed_def elapse_def)
  then have "watched timeout l'" if "watched timeout l"
    using that timer by (auto simp: watched_def unqueued)
  ultimately show ?thesis using inv timer by (simp add: life_inv_def)
next
  case (expired ok rest work)
  show ?thesis
  proof (cases ok)
    case True
    then have l': "l' = l\<lparr>ll_timer := (ll_timer l)\<lparr>t_done := rest\<rparr>, ll_strand := ll_strand l @ [Timed_Out]\<rparr>" and entry: "t_entry (ll_timer l) \<noteq> None"
      using expired(3) by (cases "t_entry (ll_timer l)"; auto simp: expired(1) OnExpire_def)+
    have "told D l'" using inv l' entry by (simp add: life_inv_def told_def)
    moreover have "timed l'" using l' by (simp add: timed_def)
    then have "watched timeout l'" if "watched timeout l" using that l' by (auto simp: watched_def unqueued)
    ultimately show ?thesis using inv l' by (simp add: life_inv_def)
  next
    case False
    then have l': "l' = l\<lparr>ll_timer := (ll_timer l)\<lparr>t_done := rest\<rparr>\<rparr>" using expired(3) by (auto simp: expired(1) OnExpire_def)
    have "told D l'" using inv l' expired(2) False by (auto simp: life_inv_def told_def)
    moreover have "timed l'" if "timed l" using that l' expired(2) False by (auto simp: timed_def)
    then have "watched timeout l'" if "watched timeout l" using that l' by (auto simp: watched_def unqueued)
    ultimately show ?thesis using inv l' by (simp add: life_inv_def)
  qed
next
  case (runs t ts)
  then show ?thesis using life_inv_run [OF inv] by blast
qed

text \<open>A link that starts to connect.\<close>

lemma life_inv_Connect:
  "life_Connect host resolved timeout now attached_link = Started l \<Longrightarrow> life_inv D timeout l"
  by (auto simp: life_Connect_def attached_link_def life_inv_def told_def watched_def connect_ops_def read_ops_def timed_def SetTimer_def
      set_expiry_def cancel_waits_def async_wait_def new_timer_def Let_def split: if_splits)

interpretation link_life: invariant_system
  "\<lambda>l. \<exists>host resolved now. life_Connect host resolved timeout now attached_link = Started l" "life_step D" "life_inv D timeout"
  for D timeout
  by unfold_locales (auto intro: life_inv_Connect life_inv_step)


text \<open>When a handler of a link read_ops through a null pointer, on a reachable state.\<close>

theorem link_crashes_iff:
  assumes "life_Connect host resolved timeout now attached_link = Started s" and "(life_step D)\<^sup>*\<^sup>* s l" and "ll_strand l = t # ts"
  shows "crashes D l \<longleftrightarrow>
    (case t of
       Connected ec options closing \<Rightarrow> D \<and> ll_open l \<and> ec = None \<and> options \<and> closing \<noteq> None
     | Timed_Out \<Rightarrow> D \<and> \<not> ll_open l
     | Received ec closing \<Rightarrow> ec = None \<and> \<not> ll_open l
     | Failed e \<Rightarrow> False)"
proof -
  have "life_inv D timeout l" by (rule link_life.inv_reachable [OF _ assms(2)]) (use assms(1) in blast)
  then have "ll_manager l = ll_open l" "ll_session l = (ll_open l \<or> \<not> D)" by (simp_all add: life_inv_def told_def)
  then show ?thesis using assms(3)
    by (auto simp: crashes_def on_connected_def on_timeout_def on_received_def manager_call_def life_OnError_def Let_def
        split: life_task.splits option.splits if_splits)
qed

section \<open>Late handlers\<close>

text \<open>C35: A link whose connection is refused when its timeout is just due ends up with the timeout's handler at work after
  the session was detached; and a link that is closed while data it received is queued calls the manager it no longer
  has. Both are reachable from \<open>Connect\<close> and read through a null pointer.\<close>

theorem late_handlers_crash:
  "\<exists>s l k. life_Connect (Some host) True 30 0 attached_link = Started s \<and>
     (life_step True)\<^sup>*\<^sup>* s l \<and> hd (ll_strand l) = Timed_Out \<and> ll_events l = [Ev_Close 111] \<and> crashes True l \<and>
     (life_step D)\<^sup>*\<^sup>* s k \<and> hd (ll_strand k) = Received None None \<and> ll_events k = [Ev_Connect, Ev_Close e] \<and> crashes D k"
proof -
  note ops = attached_link_def life_OnError_def on_connected_def on_timeout_def on_received_def manager_call_def life_AsyncRead_def
    crashes_def SetTimer_def set_expiry_def cancel_waits_def async_wait_def new_timer_def elapse_def Cancel_def OnExpire_def
  let ?s = "attached_link\<lparr>ll_open := True, ll_connecting := True, ll_timer := SetTimer 30000 () 0 new_timer\<rparr>"
  have s: "life_Connect (Some host) True 30 0 attached_link = Started ?s"
    by (simp add: life_Connect_def attached_link_def)
  let ?a1 = "?s\<lparr>ll_connecting := False, ll_strand := [Connected (Some 111) False None]\<rparr>"
  let ?a2 = "?a1\<lparr>ll_timer := elapse 30000 (ll_timer ?a1)\<rparr>"
  let ?a3 = "?a2\<lparr>ll_timer := (ll_timer ?a2)\<lparr>t_done := []\<rparr>, ll_strand := [Connected (Some 111) False None, Timed_Out]\<rparr>"
  let ?a4 = "life_OnError True 111 (?a3\<lparr>ll_strand := [Timed_Out], ll_timer := Cancel (ll_timer ?a3)\<rparr>)"
  have "life_step True ?s ?a1" using life_step.connect_done [of ?s "Some 111" True False None] by (simp add: ops)
  moreover have "life_step True ?a1 ?a2" by (rule life_step.timer)
  moreover have "life_step True ?a2 ?a3"
    using life_step.expired [of ?a2 True "[]" "Some ()" True] by (simp add: ops)
  moreover have "life_step True ?a3 ?a4"
    by (rule life_step.runs [of _ "Connected (Some 111) False None" "[Timed_Out]"]) (simp_all add: ops)
  ultimately have a: "(life_step True)\<^sup>*\<^sup>* ?s ?a4" by (meson rtranclp.rtrancl_into_rtrancl rtranclp.rtrancl_refl)
  let ?b1 = "?s\<lparr>ll_connecting := False, ll_strand := [Connected None True None]\<rparr>"
  let ?b2 = "?b1\<lparr>ll_strand := [], ll_timer := Cancel (ll_timer ?b1), ll_events := [Ev_Connect], ll_reading := True\<rparr>"
  let ?b3 = "?b2\<lparr>ll_strand := [Failed e]\<rparr>"
  let ?b4 = "?b3\<lparr>ll_reading := False, ll_strand := [Failed e, Received None None]\<rparr>"
  let ?b5 = "life_OnError D e (?b4\<lparr>ll_strand := [Received None None]\<rparr>)"
  have "life_step D ?s ?b1" using life_step.connect_done [of ?s None D True None] by (simp add: ops)
  moreover have "life_step D ?b1 ?b2"
    by (rule life_step.runs [of _ "Connected None True None" "[]"]) (simp_all add: ops)
  moreover have "life_step D ?b2 ?b3" using life_step.fails [of D ?b2 e] by (simp add: ops)
  moreover have "life_step D ?b3 ?b4" using life_step.read_done [of ?b3 None D None] by (simp add: ops)
  moreover have "life_step D ?b4 ?b5"
    by (rule life_step.runs [of _ "Failed e" "[Received None None]"]) (simp_all add: ops)
  ultimately have b: "(life_step D)\<^sup>*\<^sup>* ?s ?b5" by (meson rtranclp.rtrancl_into_rtrancl rtranclp.rtrancl_refl)
  have "hd (ll_strand ?a4) = Timed_Out \<and> ll_events ?a4 = [Ev_Close 111] \<and> crashes True ?a4" by (simp add: ops)
  moreover have "hd (ll_strand ?b5) = Received None None \<and> ll_events ?b5 = [Ev_Connect, Ev_Close e] \<and> crashes D ?b5" by (simp add: ops)
  ultimately show ?thesis using s a b by blast
qed


end
