(* ===== verification/Load_Test.thy ===== *)
theory Load_Test
  imports Router_Server Tcp_Server
begin

text \<open>
  The load test client, \<^verbatim>\<open>Gamnet/Test/LinkManager.h\<close>, \<^verbatim>\<open>Session.cpp\<close> and \<^verbatim>\<open>Test.h\<close>. A manager holds named test cases,
  each a handler that sends and one that receives, and the order in which a session runs them: the first is sent when the
  session connects, and every frame that arrives is given to the handler of its message id, after which the next case of the
  order is sent. The sequence numbers of what is sent, the receive loop and the timer that starts sessions are modelled here.
\<close>

section \<open>Sessions and test cases\<close>

text \<open>What the link of a session is told: bytes to send, and \<open>OnError\<close>.\<close>

datatype test_event = TestSend bytes | TestError int

record 'w test_session =
  ts_seq :: u32
  test_seq :: int
  ts_recv_packet :: packet
  ts_session_token :: string
  ts_events :: "test_event list"
  ts_user :: 'w

text \<open>A handler is code of the test's author. It may throw, and keeps what it changed before.\<close>

type_synonym 'w send_handler = "'w test_session \<Rightarrow> unit outcome \<times> 'w test_session"
type_synonym 'w recv_handler = "packet \<Rightarrow> 'w test_session \<Rightarrow> unit outcome \<times> 'w test_session"

record 'w execute_info =
  ei_name :: string
  ei_count :: int
  ei_send :: "'w send_handler"
  ei_recv :: "'w recv_handler"

text \<open>The test cases are shared objects, named here by their position.\<close>

record 'w test_manager =
  tm_infos :: "'w execute_info list"
  execute_infos :: "string \<Rightarrow> nat option"
  execute_order :: "nat list"
  recv_handlers :: "u32 \<Rightarrow> 'w recv_handler option"

definition test_error :: "int \<Rightarrow> 'w test_session \<Rightarrow> 'w test_session" where
  "test_error code s = s\<lparr>ts_events := ts_events s @ [TestError code]\<rparr>"

definition test_AsyncSend :: "bytes \<Rightarrow> 'w test_session \<Rightarrow> 'w test_session" where
  "test_AsyncSend data s = s\<lparr>ts_events := ts_events s @ [TestSend data]\<rparr>"

section \<open>Registration\<close>

definition RegisterNtf :: "u32 \<Rightarrow> 'w recv_handler \<Rightarrow> 'w test_manager \<Rightarrow> 'w test_manager" where
  "RegisterNtf msg_id recv m = m\<lparr>recv_handlers := (recv_handlers m)(msg_id \<mapsto> recv)\<rparr>"

definition RegisterTest :: "string \<Rightarrow> u32 \<Rightarrow> 'w send_handler \<Rightarrow> 'w recv_handler \<Rightarrow> 'w test_manager \<Rightarrow> 'w test_manager" where
  "RegisterTest test_name ans_id send recv m =
     (let info = \<lparr>ei_name = test_name, ei_count = 0, ei_send = send, ei_recv = recv\<rparr>;
          m = m\<lparr>tm_infos := tm_infos m @ [info], execute_infos := (execute_infos m)(test_name \<mapsto> length (tm_infos m))\<rparr>
      in RegisterNtf ans_id recv m)"

definition SetTestSequence :: "string \<Rightarrow> 'w test_manager \<Rightarrow> 'w test_manager outcome" where
  "SetTestSequence test_name m =
     (case execute_infos m test_name of
        None \<Rightarrow> Throw 0
      | Some i \<Rightarrow> Ret (m\<lparr>execute_order := execute_order m @ [i]\<rparr>))"

definition empty_manager :: "'w test_manager" where
  "empty_manager = \<lparr>tm_infos = [], execute_infos = Map.empty, execute_order = [], recv_handlers = Map.empty\<rparr>"

text \<open>The constructor registers the connection as the first case.\<close>

definition new_test_manager :: "'w send_handler \<Rightarrow> 'w recv_handler \<Rightarrow> 'w test_manager outcome" where
  "new_test_manager Send_Connect Recv_Connect =
     SetTestSequence ''__connect__'' (RegisterTest ''__connect__'' MsgID_Connect Send_Connect Recv_Connect empty_manager)"

text \<open>\<open>ReadXml\<close>: the names of the elements \<open>message\<close> of the configuration, in their order.\<close>

fun ReadXml_sequence :: "(string \<times> string) list \<Rightarrow> 'w test_manager \<Rightarrow> 'w test_manager outcome" where
  "ReadXml_sequence [] m = Ret m"
| "ReadXml_sequence ((element, name) # elmts) m =
     (if element = ''message'' then bind_outcome (SetTestSequence name m) (ReadXml_sequence elmts)
      else ReadXml_sequence elmts m)"

section \<open>Sending\<close>

text \<open>Both \<open>Session::Send\<close> count a message, although \<open>Send_Connect_Req\<close> has counted it already. \<open>created\<close> is the packet
  that the pool hands out, \<open>None\<close> if it is exhausted, which only \<open>SendMsg\<close> tests.\<close>

definition test_Send :: "packet \<Rightarrow> 'w test_session \<Rightarrow> 'w test_session" where
  "test_Send p s = test_AsyncSend (buf_content p) (s\<lparr>ts_seq := ts_seq s + 1\<rparr>)"

definition test_Send_buf :: "bytes \<Rightarrow> 'w test_session \<Rightarrow> 'w test_session" where
  "test_Send_buf buf s = test_AsyncSend buf (s\<lparr>ts_seq := ts_seq s + 1\<rparr>)"

definition Send_Connect_Req :: "packet option \<Rightarrow> 'w send_handler" where
  "Send_Connect_Req created s =
     (let s = s\<lparr>ts_seq := ts_seq s + 1\<rparr>;
          header = \<lparr>hdr_length = of_nat HEADER_SIZE, hdr_msg_id = MsgID_Connect, hdr_msg_seq = ts_seq s\<rparr>
      in case created of
           None \<Rightarrow> (Undef, s)
         | Some p \<Rightarrow>
             (case pkt_Write header [] (pkt_Init p) of
                Ret (_, p) \<Rightarrow> (Ret (), test_Send p s)
              | Throw e \<Rightarrow> (Throw e, s)
              | Undef \<Rightarrow> (Undef, s)))"

definition test_SendMsg :: "packet option \<Rightarrow> u32 \<Rightarrow> nat \<Rightarrow> bytes \<Rightarrow> bool \<Rightarrow> 'w test_session \<Rightarrow> bool outcome \<times> 'w test_session" where
  "test_SendMsg created msg_id msg_size stored ok s =
     (case created of
        None \<Rightarrow> (Ret False, s)
      | Some p \<Rightarrow>
          (let s = s\<lparr>ts_seq := ts_seq s + 1\<rparr>
           in case pkt_Write_msg (ts_seq s) msg_size msg_id stored ok (pkt_Init p) of
                Ret (written_ok, p) \<Rightarrow> if written_ok then (Ret True, test_AsyncSend (buf_content p) s) else (Ret False, s)
              | Throw e \<Rightarrow> (Throw e, s)
              | Undef \<Rightarrow> (Undef, s)))"

section \<open>The answer to the connection\<close>

text \<open>The JSON library: \<open>None\<close> of \<open>json_parse\<close> is a text it does not parse; reading a member as a number or a text may
  throw.\<close>

record 'j json_reader =
  json_parse :: "bytes \<Rightarrow> 'j option"
  json_asInt :: "'j \<Rightarrow> string \<Rightarrow> int outcome"
  json_asString :: "'j \<Rightarrow> string \<Rightarrow> string outcome"

text \<open>The text starts behind the header and is as long as all that is in the packet, header included.\<close>

definition connect_text :: "packet \<Rightarrow> bytes outcome" where
  "connect_text p =
     (if bufSize p < readCursor p + HEADER_SIZE + buf_Size p then Undef
      else Ret (slice_of (readCursor p + HEADER_SIZE) (buf_Size p) (bdata p)))"

definition Recv_Connect_Ans :: "'j json_reader \<Rightarrow> 'w recv_handler" where
  "Recv_Connect_Ans env p s =
     (case bind_outcome (connect_text p) (\<lambda>json.
         case json_parse env json of
           None \<Rightarrow> Throw MessageFormatError
         | Some ans \<Rightarrow> bind_outcome (json_asInt env ans ''error_code'') (\<lambda>e.
             if e = 0 then bind_outcome (json_asString env ans ''session_token'') (\<lambda>token. Ret (Some token)) else Ret None)) of
        Ret None \<Rightarrow> (Ret (), s)
      | Ret (Some token) \<Rightarrow> (Ret (), s\<lparr>ts_session_token := token\<rparr>)
      | Throw e \<Rightarrow> (Throw e, s)
      | Undef \<Rightarrow> (Undef, s))"

section \<open>Receiving\<close>

definition executed :: "nat \<Rightarrow> 'w test_manager \<Rightarrow> 'w test_manager" where
  "executed i m = m\<lparr>tm_infos := (tm_infos m)[i := (tm_infos m ! i)\<lparr>ei_count := ei_count (tm_infos m ! i) + 1\<rparr>]\<rparr>"

text \<open>\<open>OnConnect\<close>. A position below 0 is outside the vector.\<close>

definition test_OnConnect :: "'w test_manager \<Rightarrow> 'w test_session \<Rightarrow> ('w test_manager \<times> 'w test_session) outcome" where
  "test_OnConnect m s =
     (if test_seq s < int (length (execute_order m)) then
        if test_seq s < 0 then Undef
        else
          (let i = execute_order m ! nat (test_seq s)
           in case ei_send (tm_infos m ! i) s of
                (Ret _, s) \<Rightarrow> Ret (executed i m, s)
              | (Throw e, s) \<Rightarrow> Throw e
              | (Undef, s) \<Rightarrow> Undef)
      else Ret (m, s))"

text \<open>The part of the loop behind the handlers: the frame is removed, and what is left moves to a new packet.\<close>

definition test_rx_rest ::
  "('w test_session \<Rightarrow> packet option) \<Rightarrow> 'w test_manager \<Rightarrow> 'w test_session \<Rightarrow> (bool option \<times> 'w test_manager \<times> 'w test_session) outcome" where
  "test_rx_rest create m s =
     (let s = s\<lparr>ts_recv_packet := buf_Remove (pkt_GetLength (ts_recv_packet s)) (ts_recv_packet s)\<rparr>
      in case create s of
           None \<Rightarrow> Ret (Some True, m, test_error EOVERFLOW s)
         | Some p \<Rightarrow>
             bind_outcome
               (if 0 < buf_Size (ts_recv_packet s)
                then buf_Append (buf_read (buf_Size (ts_recv_packet s)) (ts_recv_packet s)) (pkt_Init p) else Ret (pkt_Init p))
               (\<lambda>p. Ret (None, m, s\<lparr>ts_recv_packet := p\<rparr>)))"

text \<open>The next test case: past the last one the link is closed. Only what the sending handler throws is caught.\<close>

definition test_rx_next ::
  "('w test_session \<Rightarrow> packet option) \<Rightarrow> 'w test_manager \<Rightarrow> 'w test_session \<Rightarrow> (bool option \<times> 'w test_manager \<times> 'w test_session) outcome" where
  "test_rx_next create m s =
     (let s = s\<lparr>test_seq := test_seq s + 1\<rparr>
      in if test_seq s \<ge> int (length (execute_order m)) then Ret (Some True, m, test_error 0 s)
         else if test_seq s < 0 then Undef
         else
           (let i = execute_order m ! nat (test_seq s)
            in case ei_send (tm_infos m ! i) s of
                 (Throw e, s) \<Rightarrow> Ret (Some True, m, test_error 0 s)
               | (Undef, s) \<Rightarrow> Undef
               | (Ret _, s) \<Rightarrow> test_rx_rest create (executed i m) s))"

definition test_rx_step ::
  "('w test_session \<Rightarrow> packet option) \<Rightarrow> 'w test_manager \<Rightarrow> 'w test_session \<Rightarrow> (bool option \<times> 'w test_manager \<times> 'w test_session) outcome" where
  "test_rx_step create m s =
     (let p = ts_recv_packet s
      in if HEADER_SIZE \<le> buf_Size p then
           (let totalLength = pkt_GetLength p in
            if HEADER_SIZE > unat totalLength then Ret (Some True, m, test_error EOVERFLOW s)
            else if unat totalLength \<ge> buf_Capacity p then Ret (Some True, m, test_error EOVERFLOW s)
            else if unat totalLength > buf_Size p mod 2 ^ 16 then Ret (Some False, m, s)
            else case recv_handlers m (pkt_GetID p) of
                None \<Rightarrow> Ret (Some True, m, test_error 0 s)
              | Some handler \<Rightarrow>
                  (case handler p s of
                     (Throw e, s) \<Rightarrow> Throw e
                   | (Undef, s) \<Rightarrow> Undef
                   | (Ret _, s) \<Rightarrow> test_rx_next create m s))
         else Ret (Some False, m, s))"

text \<open>The loop, \<open>None\<close> when the fuel is used up: handlers own the packet and could refill it for ever.\<close>

fun test_rx_loop ::
  "nat \<Rightarrow> ('w test_session \<Rightarrow> packet option) \<Rightarrow> 'w test_manager \<Rightarrow> 'w test_session \<Rightarrow>
    (bool option \<times> 'w test_manager \<times> 'w test_session) outcome" where
  "test_rx_loop 0 create m s = Ret (None, m, s)"
| "test_rx_loop (Suc n) create m s =
     bind_outcome (test_rx_step create m s)
       (\<lambda>(ended, m, s). if ended = None then test_rx_loop n create m s else Ret (ended, m, s))"

definition test_OnRecvMsg ::
  "('w test_session \<Rightarrow> packet option) \<Rightarrow> bytes \<Rightarrow> 'w test_manager \<Rightarrow> 'w test_session \<Rightarrow>
    (bool option \<times> 'w test_manager \<times> 'w test_session) outcome" where
  "test_OnRecvMsg create buffer m s =
     bind_outcome (buf_Append buffer (ts_recv_packet s))
       (\<lambda>p. test_rx_loop (Suc (buf_Size p)) create m (s\<lparr>ts_recv_packet := p\<rparr>))"

text \<open>Reads until the link is closed by an error.\<close>

fun test_receive ::
  "('w test_session \<Rightarrow> packet option) \<Rightarrow> bytes list \<Rightarrow> 'w test_manager \<Rightarrow> 'w test_session \<Rightarrow>
    (bool option \<times> 'w test_manager \<times> 'w test_session) outcome" where
  "test_receive create [] m s = Ret (Some False, m, s)"
| "test_receive create (c # cs) m s =
     bind_outcome (test_OnRecvMsg create c m s)
       (\<lambda>(ended, m, s). if ended = Some False then test_receive create cs m s else Ret (ended, m, s))"

section \<open>Specification: the order as a script\<close>

text \<open>A handler that leaves the receive buffer and the position in the order alone.\<close>

definition steady :: "('w test_session \<Rightarrow> 'a \<times> 'w test_session) \<Rightarrow> bool" where
  "steady g \<longleftrightarrow> (\<forall>s p. g (s\<lparr>ts_recv_packet := p\<rparr>) = (fst (g s), (snd (g s))\<lparr>ts_recv_packet := p\<rparr>) \<and>
     test_seq (snd (g s)) = test_seq s)"

text \<open>What a frame does to a session: its handler, then the next sending handler of the order.\<close>

definition script_frame ::
  "(u32 \<Rightarrow> (bytes \<Rightarrow> 'w send_handler) option) \<Rightarrow> bytes \<Rightarrow> 'w test_manager \<Rightarrow> 'w test_session \<Rightarrow>
    (bool \<times> 'w test_manager \<times> 'w test_session) outcome" where
  "script_frame R f m s =
     (case R (frame_id f) of
        None \<Rightarrow> Ret (True, m, test_error 0 s)
      | Some h \<Rightarrow>
          (case h f s of
             (Throw e, s) \<Rightarrow> Throw e
           | (Undef, s) \<Rightarrow> Undef
           | (Ret _, s) \<Rightarrow>
               (let s = s\<lparr>test_seq := test_seq s + 1\<rparr>
                in if test_seq s \<ge> int (length (execute_order m)) then Ret (True, m, test_error 0 s)
                   else if test_seq s < 0 then Undef
                   else
                     (let i = execute_order m ! nat (test_seq s)
                      in case ei_send (tm_infos m ! i) s of
                           (Throw e, s) \<Rightarrow> Ret (True, m, test_error 0 s)
                         | (Undef, s) \<Rightarrow> Undef
                         | (Ret _, s) \<Rightarrow> Ret (False, executed i m, s)))))"

fun script ::
  "(u32 \<Rightarrow> (bytes \<Rightarrow> 'w send_handler) option) \<Rightarrow> bytes list \<Rightarrow> 'w test_manager \<Rightarrow> 'w test_session \<Rightarrow>
    (bool \<times> 'w test_manager \<times> 'w test_session) outcome" where
  "script R [] m s = Ret (False, m, s)"
| "script R (f # fs) m s =
     bind_outcome (script_frame R f m s) (\<lambda>(failed, m, s). if failed then Ret (True, m, s) else script R fs m s)"

text \<open>The handlers read the first frame of the packet only.\<close>

definition reads_frame :: "(bytes \<Rightarrow> 'w send_handler) \<Rightarrow> 'w recv_handler \<Rightarrow> bool" where
  "reads_frame f h \<longleftrightarrow> (\<forall>fr. steady (f fr)) \<and>
     (\<forall>p s fr r. pkt_ok p \<and> buf_aligned p \<and> next_frame (buf_content p) = Frame fr r \<longrightarrow> h p s = f fr s)"

definition scripted :: "(u32 \<Rightarrow> (bytes \<Rightarrow> 'w send_handler) option) \<Rightarrow> 'w test_manager \<Rightarrow> bool" where
  "scripted R m \<longleftrightarrow>
     (\<forall>i\<in>set (execute_order m). i < length (tm_infos m) \<and> steady (ei_send (tm_infos m ! i))) \<and>
     (\<forall>k. rel_option reads_frame (R k) (recv_handlers m k))"

definition strip :: "'w test_session \<Rightarrow> 'w test_session" where
  "strip s = s\<lparr>ts_recv_packet := new_packet\<rparr>"

lemma strip_simps [simp]:
  "test_seq (strip s) = test_seq s" "strip (s\<lparr>ts_recv_packet := p\<rparr>) = strip s" "strip (test_error e s) = test_error e (strip s)"
  "strip (s\<lparr>test_seq := k\<rparr>) = (strip s)\<lparr>test_seq := k\<rparr>"
  by (simp_all add: strip_def test_error_def)

lemma steady_strip:
  assumes "steady g"
  shows "g (strip s) = (fst (g s), strip (snd (g s)))" "ts_recv_packet (snd (g s)) = ts_recv_packet s"
proof -
  show "g (strip s) = (fst (g s), strip (snd (g s)))" using assms by (simp add: steady_def strip_def)
  have "g (s\<lparr>ts_recv_packet := ts_recv_packet s\<rparr>) = (fst (g s), (snd (g s))\<lparr>ts_recv_packet := ts_recv_packet s\<rparr>)"
    using assms unfolding steady_def by blast
  then have "snd (g s) = (snd (g s))\<lparr>ts_recv_packet := ts_recv_packet s\<rparr>" by (metis snd_conv test_session.surjective test_session.update_convs(3))
  then show "ts_recv_packet (snd (g s)) = ts_recv_packet s" by (metis test_session.select_convs(3) test_session.surjective test_session.update_convs(3))
qed

lemma scripted_executed: "scripted R m \<Longrightarrow> scripted R (executed i m)"
  by (cases "i < length (tm_infos m)") (auto simp: scripted_def executed_def nth_list_update)

section \<open>Refinement\<close>

lemma test_step_stops:
  assumes "carries (ts_recv_packet s) bs"
  shows "next_frame bs = Incomplete \<Longrightarrow> test_rx_step create m s = Ret (Some False, m, s)"
    and "next_frame bs = Malformed \<Longrightarrow> test_rx_step create m s = Ret (Some True, m, test_error EOVERFLOW s)"
  using carries_facts [OF assms]
  by (auto simp: test_rx_step_def next_frame_def Let_def Buffer_MAX_SIZE_def split: if_splits)

lemma test_rest_moves:
  assumes "carries (ts_recv_packet s) bs" "next_frame bs = Frame f r" "\<forall>s. \<exists>p. create s = Some p \<and> pkt_ok p"
  shows "\<exists>p'. test_rx_rest create m s = Ret (None, m, s\<lparr>ts_recv_packet := p'\<rparr>) \<and> carries p' r"
proof -
  note rest = carries_frame [OF assms(1,2)]
  let ?s = "s\<lparr>ts_recv_packet := buf_Remove (pkt_GetLength (ts_recv_packet s)) (ts_recv_packet s)\<rparr>"
  obtain p where p: "create ?s = Some p" "pkt_ok p" using assms(3) by blast
  show ?thesis
  proof (cases "r = []")
    case True
    have "carries (pkt_Init p) []" using carries_clear [OF p(2)] by (simp add: pkt_Init_def)
    then show ?thesis using p True rest by (auto simp: test_rx_rest_def Let_def)
  next
    case False
    obtain p' where "buf_Append r (pkt_Init p) = Ret p'" "carries p' r" using carries_moved [OF p(2) rest(6)] by blast
    then show ?thesis using p False rest by (auto simp: test_rx_rest_def Let_def)
  qed
qed

lemma scripted_handler:
  assumes "scripted R m" "pkt_ok p" "buf_aligned p" "next_frame (buf_content p) = Frame f r"
  shows "case recv_handlers m (frame_id f) of
      None \<Rightarrow> R (frame_id f) = None
    | Some handler \<Rightarrow> \<exists>h. R (frame_id f) = Some h \<and> steady (h f) \<and> handler p s = h f s"
proof -
  have "rel_option reads_frame (R (frame_id f)) (recv_handlers m (frame_id f))" using assms(1) by (simp add: scripted_def)
  then show ?thesis using assms(2-4) by cases (auto simp: reads_frame_def)
qed

lemma scripted_send:
  "scripted R m \<Longrightarrow> 0 \<le> k \<Longrightarrow> k < int (length (execute_order m)) \<Longrightarrow> steady (ei_send (tm_infos m ! (execute_order m ! nat k)))"
  by (auto simp: scripted_def)

text \<open>The results agree but for the packet, which holds what is left; \<open>tag\<close> is the result of a step or loop that found no error.\<close>

definition agrees ::
  "bool option \<Rightarrow> bytes \<Rightarrow> (bool option \<times> 'w test_manager \<times> 'w test_session) outcome \<Rightarrow> (bool \<times> 'w test_manager \<times> 'w test_session) outcome \<Rightarrow> bool" where
  "agrees tag r x y \<longleftrightarrow>
     (case y of
        Throw e \<Rightarrow> x = Throw e
      | Undef \<Rightarrow> x = Undef
      | Ret (True, m, s) \<Rightarrow> \<exists>s'. x = Ret (Some True, m, s') \<and> strip s' = s
      | Ret (False, m, s) \<Rightarrow> \<exists>s'. x = Ret (tag, m, s') \<and> strip s' = s \<and> carries (ts_recv_packet s') r)"

lemma test_step_frame:
  assumes c: "carries (ts_recv_packet s) bs" and fr: "next_frame bs = Frame f r"
    and ok: "scripted R m" and create: "\<forall>s. \<exists>p. create s = Some p \<and> pkt_ok p"
  shows "agrees None r (test_rx_step create m s) (script_frame R f m (strip s))"
proof -
  note facts = carries_facts [OF c] and rest = carries_frame [OF c fr] and nf = next_frame_Frame [OF fr]
  have p: "pkt_ok (ts_recv_packet s)" "buf_aligned (ts_recv_packet s)" "next_frame (buf_content (ts_recv_packet s)) = Frame f r"
    using c fr by (simp_all add: carries_def)
  have "length f \<le> length bs" using nf(1) by simp
  then have step: "test_rx_step create m s = (case recv_handlers m (frame_id f) of
       None \<Rightarrow> Ret (Some True, m, test_error 0 s)
     | Some handler \<Rightarrow>
         (case handler (ts_recv_packet s) s of
            (Throw e, s) \<Rightarrow> Throw e | (Undef, s) \<Rightarrow> Undef | (Ret _, s) \<Rightarrow> test_rx_next create m s))"
    using facts(1-3) nf(2,3) rest(1,2) frame_getters(2) [OF p]
    by (simp add: test_rx_step_def Let_def Buffer_MAX_SIZE_def)
  show ?thesis
  proof (cases "recv_handlers m (frame_id f)")
    case None
    then show ?thesis using scripted_handler [OF ok p, of s] step by (simp add: agrees_def script_frame_def)
  next
    case (Some handler)
    then obtain h where h: "R (frame_id f) = Some h" "steady (h f)" "handler (ts_recv_packet s) s = h f s"
      using scripted_handler [OF ok p, of s] by auto
    note hs = steady_strip [OF h(2), of s]
    obtain a s1 where s1: "h f s = (a, s1)" by (cases "h f s")
    then have strip1: "h f (strip s) = (a, strip s1)" and p1: "ts_recv_packet s1 = ts_recv_packet s" using hs by simp_all
    let ?s2 = "s1\<lparr>test_seq := test_seq s1 + 1\<rparr>"
    show ?thesis
    proof (cases a)
      case (Ret u)
      have step1: "test_rx_step create m s = test_rx_next create m s1" using step Some h(3) s1 Ret by simp
      consider "int (length (execute_order m)) \<le> test_seq ?s2" | "test_seq ?s2 < 0"
        | "0 \<le> test_seq ?s2" "test_seq ?s2 < int (length (execute_order m))" by linarith
      then show ?thesis
      proof cases
        case 3
        let ?i = "execute_order m ! nat (test_seq ?s2)"
        have st: "steady (ei_send (tm_infos m ! ?i))" using scripted_send [OF ok 3] .
        obtain b s3 where s3: "ei_send (tm_infos m ! ?i) ?s2 = (b, s3)" by (cases "ei_send (tm_infos m ! ?i) ?s2")
        then have strip3: "ei_send (tm_infos m ! ?i) (strip ?s2) = (b, strip s3)" and p3: "ts_recv_packet s3 = ts_recv_packet s"
          using steady_strip [OF st, of ?s2] p1 by simp_all
        obtain p' where p': "test_rx_rest create (executed ?i m) s3 = Ret (None, executed ?i m, s3\<lparr>ts_recv_packet := p'\<rparr>)" "carries p' r"
          using test_rest_moves [of s3 bs f r create "executed ?i m"] c fr create p3 by auto
        show ?thesis using step1 3 h(1) strip1 Ret s3 strip3 p'
          by (cases b) (simp_all add: agrees_def script_frame_def test_rx_next_def Let_def)
      qed (use step1 h(1) strip1 Ret in \<open>simp_all add: agrees_def script_frame_def test_rx_next_def Let_def\<close>)
    qed (use step Some h s1 strip1 in \<open>simp_all add: agrees_def script_frame_def\<close>)
  qed
qed

lemma script_frame_scripted: "script_frame R f m s = Ret (failed, m', s') \<Longrightarrow> scripted R m \<Longrightarrow> scripted R m'"
  by (auto simp: script_frame_def Let_def split: option.splits prod.splits outcome.splits if_splits intro: scripted_executed)

section \<open>Streams\<close>

text \<open>The script on a byte stream: its frames, and behind them a malformed length is reported.\<close>

definition script_stream ::
  "(u32 \<Rightarrow> (bytes \<Rightarrow> 'w send_handler) option) \<Rightarrow> bytes \<Rightarrow> 'w test_manager \<Rightarrow> 'w test_session \<Rightarrow>
    (bool \<times> 'w test_manager \<times> 'w test_session) outcome" where
  "script_stream R bs m s =
     bind_outcome (script R (frames_of bs) m s)
       (\<lambda>(failed, m, s). if failed then Ret (True, m, s)
          else if next_frame (unframed bs) = Malformed then Ret (True, m, test_error EOVERFLOW s) else Ret (False, m, s))"

lemma script_stream_rec:
  "script_stream R bs m s =
     (case next_frame bs of
        Incomplete \<Rightarrow> Ret (False, m, s)
      | Malformed \<Rightarrow> Ret (True, m, test_error EOVERFLOW s)
      | Frame f r \<Rightarrow> bind_outcome (script_frame R f m s)
          (\<lambda>(failed, m, s). if failed then Ret (True, m, s) else script_stream R r m s))"
proof (cases "next_frame bs")
  case (Frame f r)
  then have un: "unframed bs = unframed r" "frames_of bs = f # frames_of r"
    by (simp_all add: frames_of.simps [of bs] unframed.simps [of bs])
  show ?thesis unfolding script_stream_def un using Frame
    by (cases "script_frame R f m s") (simp_all split: prod.splits)
qed (simp_all add: script_stream_def frames_of.simps [of bs] unframed.simps [of bs])

lemma script_stream_append:
  "script_stream R (bs @ xs) m s =
     bind_outcome (script_stream R bs m s)
       (\<lambda>(failed, m, s). if failed then Ret (True, m, s) else script_stream R (unframed bs @ xs) m s)"
proof (induction bs arbitrary: m s rule: unframed.induct)
  case (1 bs)
  show ?case
  proof (cases "next_frame bs")
    case Incomplete
    then show ?thesis by (simp add: script_stream_rec [of R bs] unframed.simps [of bs])
  next
    case Malformed
    then show ?thesis using next_frame_more(2) [OF Malformed, of xs]
      by (simp add: script_stream_rec [of R bs] script_stream_rec [of R "bs @ xs"])
  next
    case (Frame f r)
    have un: "unframed bs = unframed r" using Frame by (simp add: unframed.simps [of bs])
    note more = next_frame_more(1) [OF Frame, of xs]
    show ?thesis
    proof (cases "script_frame R f m s")
      case (Ret x)
      obtain failed m' s' where x: "x = (failed, m', s')" by (cases x)
      show ?thesis unfolding un using 1 [OF Frame, of m' s'] Frame more Ret x
        by (simp add: script_stream_rec [of R bs] script_stream_rec [of R "bs @ xs"])
    qed (simp_all add: Frame more script_stream_rec [of R bs] script_stream_rec [of R "bs @ xs"])
  qed
qed

lemma script_stream_scripted: "script_stream R bs m s = Ret (failed, m', s') \<Longrightarrow> scripted R m \<Longrightarrow> scripted R m'"
proof (induction bs arbitrary: m s rule: unframed.induct)
  case (1 bs)
  show ?case
  proof (cases "next_frame bs")
    case (Frame f r)
    then obtain fl m1 s1 where f1: "script_frame R f m s = Ret (fl, m1, s1)"
      using "1.prems"(1) by (cases "script_frame R f m s") (auto simp: script_stream_rec [of R bs])
    have "scripted R m1" using script_frame_scripted [OF f1 "1.prems"(2)] .
    then show ?thesis using "1.IH" [OF Frame] "1.prems"(1) Frame f1 by (auto simp: script_stream_rec [of R bs] split: if_splits)
  qed (use 1 in \<open>auto simp: script_stream_rec [of R bs]\<close>)
qed

lemma test_loop_agrees:
  "carries (ts_recv_packet s) bs \<Longrightarrow> scripted R m \<Longrightarrow> \<forall>s. \<exists>p. create s = Some p \<and> pkt_ok p \<Longrightarrow> length bs < n \<Longrightarrow>
    agrees (Some False) (unframed bs) (test_rx_loop n create m s) (script_stream R bs m (strip s))"
proof (induction n arbitrary: bs m s)
  case (Suc n)
  show ?case
  proof (cases "next_frame bs")
    case Incomplete
    then show ?thesis using test_step_stops(1) [OF Suc.prems(1), of create m] Suc.prems(1)
      by (simp add: agrees_def script_stream_rec [of R bs] unframed.simps [of bs])
  next
    case Malformed
    then show ?thesis using test_step_stops(2) [OF Suc.prems(1), of create m]
      by (simp add: agrees_def script_stream_rec [of R bs])
  next
    case (Frame f r)
    note step = test_step_frame [OF Suc.prems(1) Frame Suc.prems(2,3)]
    have un: "unframed bs = unframed r" using Frame by (simp add: unframed.simps [of bs])
    show ?thesis
    proof (cases "script_frame R f m (strip s)")
      case (Ret x)
      obtain failed m' s' where x: "x = (failed, m', s')" by (cases x)
      show ?thesis
      proof (cases failed)
        case True
        then show ?thesis using step Ret x Frame by (auto simp: agrees_def script_stream_rec [of R bs])
      next
        case False
        then obtain s1 where s1: "test_rx_step create m s = Ret (None, m', s1)" "strip s1 = s'" "carries (ts_recv_packet s1) r"
          using step Ret x by (auto simp: agrees_def)
        have "scripted R m'" using script_frame_scripted Ret x Suc.prems(2) by blast
        moreover have "length r < n" using next_frame_Frame(4) [OF Frame] Suc.prems(4) by simp
        ultimately have "agrees (Some False) (unframed r) (test_rx_loop n create m' s1) (script_stream R r m' (strip s1))"
          using Suc.IH [OF s1(3) _ Suc.prems(3)] by blast
        then show ?thesis using s1 Ret x False Frame un by (simp add: script_stream_rec [of R bs])
      qed
    qed (use step Frame in \<open>simp_all add: agrees_def script_stream_rec [of R bs]\<close>)
  qed
qed simp

lemma test_OnRecvMsg_agrees:
  assumes "carries (ts_recv_packet s) bs" "scripted R m" "\<forall>s. \<exists>p. create s = Some p \<and> pkt_ok p"
    and "length bs + length c \<le> Buffer_MAX_SIZE"
  shows "agrees (Some False) (unframed (bs @ c)) (test_OnRecvMsg create c m s) (script_stream R (bs @ c) m (strip s))"
proof -
  obtain p where p: "buf_Append c (ts_recv_packet s) = Ret p" "carries p (bs @ c)" using carries_append [OF assms(1,4)] by blast
  let ?s = "s\<lparr>ts_recv_packet := p\<rparr>"
  have "length (bs @ c) < Suc (buf_Size p)" using carries_facts(1) [OF p(2)] by simp
  then have "agrees (Some False) (unframed (bs @ c)) (test_rx_loop (Suc (buf_Size p)) create m ?s) (script_stream R (bs @ c) m (strip ?s))"
    using test_loop_agrees [of ?s "bs @ c" R m create] p(2) assms(2,3) by (simp del: test_rx_loop.simps)
  then show ?thesis using p(1) by (simp add: test_OnRecvMsg_def del: test_rx_loop.simps)
qed

lemma test_receive_agrees:
  "carries (ts_recv_packet s) bs \<Longrightarrow> next_frame bs = Incomplete \<Longrightarrow> scripted R m \<Longrightarrow> \<forall>s. \<exists>p. create s = Some p \<and> pkt_ok p \<Longrightarrow>
    chunks_fit bs cs \<Longrightarrow>
    agrees (Some False) (unframed (bs @ concat cs)) (test_receive create cs m s) (script_stream R (bs @ concat cs) m (strip s))"
proof (induction cs arbitrary: bs m s)
  case Nil
  then show ?case by (simp add: agrees_def script_stream_rec [of R bs] unframed.simps [of bs])
next
  case (Cons c cs)
  have fit: "length bs + length c \<le> Buffer_MAX_SIZE" using Cons.prems(5) by simp
  note one = test_OnRecvMsg_agrees [OF Cons.prems(1,3,4) fit]
  have split: "script_stream R (bs @ concat (c # cs)) m (strip s) = bind_outcome (script_stream R (bs @ c) m (strip s))
      (\<lambda>(failed, m, s). if failed then Ret (True, m, s) else script_stream R (unframed (bs @ c) @ concat cs) m s)"
    using script_stream_append [of R "bs @ c" "concat cs"] by simp
  show ?case
  proof (cases "script_stream R (bs @ c) m (strip s)")
    case (Ret x)
    obtain failed m' s' where x: "x = (failed, m', s')" by (cases x)
    show ?thesis
    proof (cases failed)
      case True
      then show ?thesis using one Ret x split by (auto simp: agrees_def)
    next
      case False
      then obtain s1 where s1: "test_OnRecvMsg create c m s = Ret (Some False, m', s1)" "strip s1 = s'"
          "carries (ts_recv_packet s1) (unframed (bs @ c))"
        using one Ret x by (auto simp: agrees_def)
      have "next_frame (unframed (bs @ c)) \<noteq> Malformed"
        using Ret x False by (auto simp: script_stream_def split: if_splits elim!: bind_outcome_RetE)
      then have inc: "next_frame (unframed (bs @ c)) = Incomplete" "chunks_fit (unframed (bs @ c)) cs"
        using unframed_complete Cons.prems(5) by (cases "next_frame (unframed (bs @ c))"; auto)+
      have ok: "scripted R m'" using script_stream_scripted Ret x Cons.prems(3) by blast
      have "unframed (bs @ concat (c # cs)) = unframed (unframed (bs @ c) @ concat cs)"
        using unframed_append [of "bs @ c" "concat cs"] inc(1) by simp
      then show ?thesis using Cons.IH [OF s1(3) inc(1) ok Cons.prems(4) inc(2)] split Ret x False s1 by simp
    qed
  qed (use one split in \<open>simp_all add: agrees_def\<close>)
qed

section \<open>Properties\<close>

lemma agrees_result:
  assumes "agrees (Some False) r x y"
  shows "bind_outcome x (\<lambda>(ended, m, s). Ret (ended = Some True, m, strip s)) = y"
proof (cases y)
  case (Ret z)
  obtain failed m s where "z = (failed, m, s)" by (cases z)
  then show ?thesis using assms Ret by (cases failed) (auto simp: agrees_def)
qed (use assms in \<open>simp_all add: agrees_def\<close>)


text \<open>Messages that a client sends: the connection, and those of test cases.\<close>

datatype client_send = ConnectReq packet | ClientMsg packet u32 bytes

fun run_send :: "client_send \<Rightarrow> 'w test_session \<Rightarrow> 'w test_session" where
  "run_send (ConnectReq p) s = snd (Send_Connect_Req (Some p) s)"
| "run_send (ClientMsg p msg_id body) s = snd (test_SendMsg (Some p) msg_id (length body) body True s)"

fun send_fits :: "client_send \<Rightarrow> bool" where
  "send_fits (ConnectReq p) \<longleftrightarrow> pkt_ok p"
| "send_fits (ClientMsg p msg_id body) \<longleftrightarrow> pkt_ok p \<and> length body + HEADER_SIZE < Buffer_MAX_SIZE"

fun send_frame :: "u32 \<Rightarrow> client_send \<Rightarrow> bytes" where
  "send_frame n (ConnectReq p) = frame_header (of_nat HEADER_SIZE) (n + 1) MsgID_Connect"
| "send_frame n (ClientMsg p msg_id body) = frame_header (of_nat (length body + HEADER_SIZE)) (n + 1) msg_id @ body"

fun send_seq :: "u32 \<Rightarrow> client_send \<Rightarrow> u32" where
  "send_seq n (ConnectReq p) = n + 2"
| "send_seq n (ClientMsg p msg_id body) = n + 1"

fun send_frames :: "u32 \<Rightarrow> client_send list \<Rightarrow> bytes list" where
  "send_frames n [] = []"
| "send_frames n (x # xs) = send_frame n x # send_frames (send_seq n x) xs"

lemma run_send_eq:
  assumes "send_fits x"
  shows "run_send x s = s\<lparr>ts_seq := send_seq (ts_seq s) x, ts_events := ts_events s @ [TestSend (send_frame (ts_seq s) x)]\<rparr>"
proof (cases x)
  case (ConnectReq p)
  then have p: "pkt_ok (pkt_Init p)" using assms pkt_ok_Init by simp
  let ?h = "\<lparr>hdr_length = of_nat HEADER_SIZE, hdr_msg_id = MsgID_Connect, hdr_msg_seq = ts_seq s + 1\<rparr>"
  obtain p' where "pkt_Write ?h [] (pkt_Init p) = Ret (True, p')"
      "written (of_nat (length ([] :: bytes) + HEADER_SIZE)) (hdr_msg_seq ?h) (hdr_msg_id ?h) [] p'"
    using pkt_Write_fits [OF p, of "[]" ?h] by (auto simp: HEADER_SIZE_def Buffer_MAX_SIZE_def)
  then show ?thesis using ConnectReq
    by (simp add: Send_Connect_Req_def test_Send_def test_AsyncSend_def written_def Let_def add.assoc)
next
  case (ClientMsg p msg_id body)
  then have p: "pkt_ok (pkt_Init p)" "length body + HEADER_SIZE < Buffer_MAX_SIZE" using assms pkt_ok_Init by simp_all
  let ?h = "\<lparr>hdr_length = 0, hdr_msg_id = msg_id, hdr_msg_seq = ts_seq s + 1\<rparr>"
  obtain p' where "pkt_Write ?h body (pkt_Init p) = Ret (True, p')"
      "written (of_nat (length body + HEADER_SIZE)) (hdr_msg_seq ?h) (hdr_msg_id ?h) body p'"
    using pkt_Write_fits [OF p, of ?h] by blast
  then show ?thesis using ClientMsg pkt_Write_msg_eq_Write [OF refl, of "ts_seq s + 1" body msg_id "pkt_Init p" 0]
    by (simp add: test_SendMsg_def test_AsyncSend_def written_def Let_def)
qed

lemma run_sends_events:
  "\<forall>x\<in>set xs. send_fits x \<Longrightarrow>
    ts_events (fold run_send xs s) = ts_events s @ map TestSend (send_frames (ts_seq s) xs)"
  by (induction xs arbitrary: s) (simp_all add: run_send_eq)

lemma send_frame_frame:
  assumes "send_fits x"
  shows "next_frame (send_frame n x) = Frame (send_frame n x) []" "frame_seq (send_frame n x) = n + 1"
proof -
  obtain body i where x: "send_frame n x = frame_header (of_nat (length body + HEADER_SIZE)) (n + 1) i @ body"
      "length body + HEADER_SIZE < Buffer_MAX_SIZE"
  proof (cases x)
    case (ConnectReq p)
    then show ?thesis using that [of "[]" MsgID_Connect] by (simp add: HEADER_SIZE_def Buffer_MAX_SIZE_def)
  next
    case (ClientMsg p i body)
    then show ?thesis using assms that [of body i] by simp
  qed
  show "next_frame (send_frame n x) = Frame (send_frame n x) []" "frame_seq (send_frame n x) = n + 1"
    unfolding x(1) using header_frame [OF x(2), of "n + 1" i] by (simp_all add: header_parts)
qed

lemma send_frames_rising:
  "\<forall>x\<in>set xs. send_fits x \<Longrightarrow> unat n + 2 * length xs < 2 ^ 32 \<Longrightarrow>
    sorted_wrt (<) (n # map frame_seq (send_frames n xs)) \<and> (\<forall>f\<in>set (send_frames n xs). next_frame f = Frame f [])"
proof (induction xs arbitrary: n)
  case (Cons x xs)
  have fits: "send_fits x" and len: "unat n + 2 < 2 ^ 32" using Cons.prems by auto
  have one: "unat (n + 1) = unat n + 1" "unat (n + 2) = unat n + 2"
    using len by (simp_all add: unat_word_ariths(1))
  then have seq: "n < n + 1" "n + 1 \<le> send_seq n x" "unat (send_seq n x) \<le> unat n + 2"
    by (cases x; simp add: word_less_nat_alt word_le_nat_alt)+
  have ih: "sorted_wrt (<) (send_seq n x # map frame_seq (send_frames (send_seq n x) xs))"
      "\<forall>f\<in>set (send_frames (send_seq n x) xs). next_frame f = Frame f []"
    using Cons.IH [of "send_seq n x"] Cons.prems seq(3) by auto
  have "\<forall>k\<in>set (map frame_seq (send_frames (send_seq n x) xs)). n + 1 < k" using ih(1) seq(2) by fastforce
  then have "\<forall>k\<in>set (map frame_seq (send_frames (send_seq n x) xs)). n < k" using seq(1) by fastforce
  then show ?case using ih seq send_frame_frame [OF fits, of n] \<open>\<forall>k\<in>_. n + 1 < k\<close> by simp
qed simp

text \<open>Client and server agree. Whatever a test client sends from its connection on, connection requests, which use up two
  sequence numbers, and messages in any mixture, a server that opens a session for it handles every one of these messages,
  once and in the order sent, however the network cuts the bytes.\<close>

theorem client_messages_all_handled:
  assumes "\<forall>x\<in>set xs. send_fits x" and "ts_seq s = 0" and "ts_events s = []" and "2 * length xs < 2 ^ 32"
    and "frame_handler env handle" and "ts_events (fold run_send xs s) = map TestSend fs" and "concat cs = concat fs"
    and "chunks_fit [] cs"
  shows "\<exists>t. tcp_receive env cs w new_session = Ret (False, fold handle fs w, t)"
proof -
  have "map TestSend fs = map TestSend (send_frames 0 xs)" using run_sends_events [OF assms(1), of s] assms(2,3,6) by simp
  then have fs: "fs = send_frames 0 xs" by (simp add: inj_map_eq_map inj_on_def)
  have rise: "sorted_wrt (<) (0 # map frame_seq fs)" "\<forall>f\<in>set fs. next_frame f = Frame f []"
    using send_frames_rising [OF assms(1), of 0] assms(4) fs by simp_all
  have frames: "frames_of (concat fs) = fs" "unframed (concat fs) = []" using frames_of_concat [OF rise(2)] by simp_all
  have empty: "next_frame [] = Incomplete" by (simp add: next_frame_def HEADER_SIZE_def)
  obtain failed w' t rest where r: "tcp_receive env cs w new_session = Ret (failed, w', t)"
      "spec_stream handle (rx_error env) (concat fs) w 0 = (failed, w', ses_msg_seq t, rest)"
    using frame_handler.tcp_receive_refines [OF assms(5) new_session_ok(1), of cs w] assms(7,8) empty
    unfolding new_session_ok(2,3) by auto
  have "rest = []" using spec_stream_unframed [OF r(2)] frames(2) by simp
  then have "\<not> failed" using spec_stream_frames [OF r(2)] empty by simp
  moreover from this have "w' = fold handle fs w" using spec_stream_frames [OF r(2)] frames(1) rising_all [OF rise(1)] by simp
  ultimately show ?thesis using r(1) by simp
qed

text \<open>A test with the connection and one case: its message 7 is answered by a message 7.\<close>

definition demo_send :: "u32 list send_handler" where
  "demo_send s = (Ret (), s\<lparr>ts_user := ts_user s @ [100]\<rparr>)"

definition demo_recv :: "u32 list recv_handler" where
  "demo_recv p s = (Ret (), s\<lparr>ts_user := ts_user s @ [pkt_GetID p]\<rparr>)"

definition demo_read :: "bytes \<Rightarrow> u32 list send_handler" where
  "demo_read f s = (Ret (), s\<lparr>ts_user := ts_user s @ [frame_id f]\<rparr>)"

definition demo_manager :: "u32 list test_manager" where
  "demo_manager =
     \<lparr>tm_infos = [\<lparr>ei_name = ''__connect__'', ei_count = 1, ei_send = demo_send, ei_recv = demo_recv\<rparr>,
                  \<lparr>ei_name = ''echo'', ei_count = 0, ei_send = demo_send, ei_recv = demo_recv\<rparr>],
      execute_infos = [''__connect__'' \<mapsto> 0, ''echo'' \<mapsto> 1], execute_order = [0, 1],
      recv_handlers = [MsgID_Connect \<mapsto> demo_recv, 7 \<mapsto> demo_recv]\<rparr>"

lemma demo_registered:
  "bind_outcome (new_test_manager demo_send demo_recv)
     (\<lambda>m. SetTestSequence ''echo'' (RegisterTest ''echo'' 7 demo_send demo_recv m)) = Ret (demo_manager\<lparr>tm_infos := map (ei_count_update (\<lambda>_. 0)) (tm_infos demo_manager)\<rparr>)"
  by (simp add: new_test_manager_def SetTestSequence_def RegisterTest_def RegisterNtf_def empty_manager_def demo_manager_def fun_upd_twist)

definition demo_session :: "u32 list test_session" where
  "demo_session = \<lparr>ts_seq = 2, test_seq = 0, ts_recv_packet = new_packet, ts_session_token = [], ts_events = [], ts_user = []\<rparr>"

lemma demo_scripted: "scripted [MsgID_Connect \<mapsto> demo_read, 7 \<mapsto> demo_read] demo_manager"
proof -
  have "reads_frame demo_read demo_recv"
    by (auto simp: reads_frame_def steady_def demo_read_def demo_recv_def frame_getters)
  moreover have "steady demo_send" by (simp add: steady_def demo_send_def)
  ultimately show ?thesis by (auto simp: scripted_def demo_manager_def)
qed


lemma client_messages_all_handled_witness:
  "\<exists>t. tcp_receive log_env [frame_header 10 1 1 @ [11, 0, 3], [0, 0, 0, 7, 0, 0, 0, 9]] [] new_session = Ret (False, [(1, 1), (3, 7)], t)"
proof -
  let ?xs = "[ConnectReq new_packet, ClientMsg new_packet 7 [9]]"
  let ?fs = "send_frames 0 ?xs"
  let ?s = "demo_session\<lparr>ts_seq := 0\<rparr>"
  have fits: "\<forall>x\<in>set ?xs. send_fits x" by (simp add: HEADER_SIZE_def Buffer_MAX_SIZE_def)
  have s: "ts_seq ?s = 0" "ts_events ?s = []" by (simp_all add: demo_session_def)
  have h: "frame_header 10 1 1 = [10, 0, 1, 0, 0, 0, 1, 0, 0, 0]" "frame_header 11 3 7 = [11, 0, 3, 0, 0, 0, 7, 0, 0, 0]"
    by (simp_all add: frame_header_def put_word_def)
  note ev = h next_frame_def get_word_def HEADER_SIZE_def Buffer_MAX_SIZE_def unframed.simps frame_seq_def frame_id_def offsets
    slice_of_def MsgID_Connect_def
  have "\<exists>t. tcp_receive log_env [frame_header 10 1 1 @ [11, 0, 3], [0, 0, 0, 7, 0, 0, 0, 9]] [] new_session =
      Ret (False, fold log_frame ?fs [], t)"
    by (rule client_messages_all_handled [OF fits s _ frame_handler_log])
      (use run_sends_events [OF fits, of ?s] s in \<open>simp_all add: ev\<close>)
  then show ?thesis by (simp add: log_frame_def ev)
qed

end
