(* ===== verification/Load_Sessions.thy ===== *)
theory Load_Sessions
  imports Object_Pool
begin

text \<open>
  How the load test client starts its sessions, \<open>Init\<close> of \<^verbatim>\<open>Gamnet/Test/LinkManager.h\<close>: a timer posts tasks, each task
  connects a session on a link. No more sessions are started than asked for, but sessions that have ended are never given
  back, so that a test with more rounds than concurrent sessions does not finish.
\<close>

section \<open>Starting sessions\<close>

text \<open>
  \<open>Init\<close> sets a timer whose functor posts tasks to the thread pool; each task takes a link and a session from their pools and
  connects them. \<open>tr_loop\<close> is the counter of the functor's loop while it runs. A link and a session are used as long as a
  \<open>shared_ptr\<close> to them exists: \<open>tr_held\<close> are the links in the table of the manager or in a handler of the socket, \<open>tr_timer\<close>
  those captured by the functor of their own timer, which \<open>Cancel\<close> does not drop, and link and session name each other.
\<close>

record test_run =
  tr_count :: nat
  tr_tasks :: nat
  tr_armed :: bool
  tr_loop :: "nat option"
  tr_sessions :: "nat pool_sys"
  tr_session_of :: "nat \<Rightarrow> nat option"
  tr_link_of :: "nat \<Rightarrow> nat option"
  tr_held :: "nat set"
  tr_timer :: "nat set"

definition new_test_run :: "nat \<Rightarrow> test_run" where
  "new_test_run capacity =
     \<lparr>tr_count = 0, tr_tasks = 0, tr_armed = True, tr_loop = None, tr_sessions = \<lparr>pl = new_pool capacity, live = [], lost = 0\<rparr>,
      tr_session_of = Map.empty, tr_link_of = Map.empty, tr_held = {}, tr_timer = {}\<rparr>"

text \<open>\<open>Init\<close>: its checks, and the state in which it leaves the timer; the pool of sessions has its default capacity.\<close>

definition test_Init :: "int \<Rightarrow> nat \<Rightarrow> test_run outcome" where
  "test_Init interval session_count =
     (if interval = 0 \<or> session_count = 0 then Throw InvalidArgumentError else Ret (new_test_run 65535))"

definition sessions_used :: "test_run \<Rightarrow> nat" where
  "sessions_used s = pool_Capacity (pl (tr_sessions s)) - pool_Available (pl (tr_sessions s))"

text \<open>One pass of the functor's loop, and its end, which sets the timer again while the count is below \<open>N\<close>.\<close>

definition timer_end :: "nat \<Rightarrow> test_run \<Rightarrow> test_run" where
  "timer_end N s = s\<lparr>tr_loop := None, tr_armed := tr_count s < N\<rparr>"

definition timer_pass :: "nat \<Rightarrow> nat \<Rightarrow> test_run \<Rightarrow> test_run" where
  "timer_pass session_count N s =
     (case tr_loop s of
        None \<Rightarrow> s
      | Some i \<Rightarrow>
          if \<not> i < session_count then timer_end N s
          else if session_count \<le> sessions_used s then timer_end N s
          else
            (let s = s\<lparr>tr_tasks := tr_tasks s + 1, tr_count := tr_count s + 1\<rparr>
             in if tr_count s \<ge> N then timer_end N s else s\<lparr>tr_loop := Some (i + 1)\<rparr>))"

text \<open>A task with the link and the session object it gets; \<open>Link::Init\<close> and \<open>Session::Init\<close> drop their partners.\<close>

definition start_session :: "nat \<Rightarrow> nat \<Rightarrow> test_run \<Rightarrow> test_run" where
  "start_session l x s =
     (let s = s\<lparr>tr_tasks := tr_tasks s - 1, tr_held := insert l (tr_held s), tr_session_of := (tr_session_of s)(l := None)\<rparr>
      in case pool_Create (Made x) (pl (tr_sessions s)) of
           (Ret (Some y), p) \<Rightarrow>
             s\<lparr>tr_sessions := (tr_sessions s)\<lparr>pl := p, live := y # live (tr_sessions s)\<rparr>,
               tr_session_of := (tr_session_of s)(l \<mapsto> y), tr_link_of := (tr_link_of s)(y \<mapsto> l), tr_timer := insert l (tr_timer s)\<rparr>
         | (_, p) \<Rightarrow> s\<lparr>tr_sessions := (tr_sessions s)\<lparr>pl := p\<rparr>\<rparr>)"

text \<open>\<open>Link::OnError\<close>: \<open>OnClose\<close> calls that of \<open>Network::LinkManager\<close>, which knows nothing of sessions; the manager's table
  and the handlers of the socket drop the link.\<close>

definition close_link :: "nat \<Rightarrow> test_run \<Rightarrow> test_run" where
  "close_link l s = s\<lparr>tr_held := tr_held s - {l}\<rparr>"

definition release_session :: "nat \<Rightarrow> test_run \<Rightarrow> test_run" where
  "release_session x s = s\<lparr>tr_sessions := (tr_sessions s)\<lparr>pl := pool_Restitute (Some x) (pl (tr_sessions s)), live := remove1 x (live (tr_sessions s))\<rparr>\<rparr>"

inductive run_step :: "nat \<Rightarrow> nat \<Rightarrow> test_run \<Rightarrow> test_run \<Rightarrow> bool" for session_count N where
  fire: "tr_armed s \<Longrightarrow> tr_loop s = None \<Longrightarrow> run_step session_count N s (s\<lparr>tr_armed := False, tr_loop := Some 0\<rparr>)"
| pass: "tr_loop s \<noteq> None \<Longrightarrow> run_step session_count N s (timer_pass session_count N s)"
| task: "0 < tr_tasks s \<Longrightarrow> l \<notin> tr_held s \<union> tr_timer s \<Longrightarrow> \<forall>x. tr_link_of s x \<noteq> Some l \<Longrightarrow>
    x \<notin> set (lstObjectPtr (pl (tr_sessions s))) \<union> set (live (tr_sessions s)) \<Longrightarrow> run_step session_count N s (start_session l x s)"
| no_link: "0 < tr_tasks s \<Longrightarrow> run_step session_count N s (s\<lparr>tr_tasks := tr_tasks s - 1\<rparr>)"
| closed: "l \<in> tr_held s \<Longrightarrow> run_step session_count N s (close_link l s)"
| release: "x \<in> set (live (tr_sessions s)) \<Longrightarrow> \<forall>l. tr_session_of s l \<noteq> Some x \<Longrightarrow> run_step session_count N s (release_session x s)"

text \<open>Accounting: no more tasks than counted, and every session handed out hangs on a link that hangs on it.\<close>

definition run_inv :: "nat \<Rightarrow> nat \<Rightarrow> test_run \<Rightarrow> bool" where
  "run_inv capacity N s \<longleftrightarrow>
     pool_inv capacity (tr_sessions s) \<and> lost (tr_sessions s) = 0 \<and>
     (\<forall>x. x \<in> set (live (tr_sessions s)) \<longleftrightarrow> (\<exists>l. tr_session_of s l = Some x)) \<and>
     (\<forall>l x. tr_session_of s l = Some x \<longleftrightarrow> tr_link_of s x = Some l) \<and>
     tr_tasks s + length (live (tr_sessions s)) \<le> tr_count s \<and> tr_count s \<le> max 1 N \<and>
     (tr_armed s \<longrightarrow> tr_loop s = None) \<and> (\<forall>i. tr_loop s = Some i \<longrightarrow> i \<le> tr_count s) \<and>
     (tr_armed s \<or> tr_loop s \<noteq> None \<longleftrightarrow> tr_count s < max 1 N)"

lemma run_inv_init: "run_inv capacity N (new_test_run capacity)"
  by (simp add: run_inv_def new_test_run_def pool_inv_def new_pool_def)

lemma sessions_used_eq: "run_inv capacity N s \<Longrightarrow> capacity < 2 ^ 64 \<Longrightarrow> sessions_used s = length (live (tr_sessions s))"
  using pool_Available_eq [of capacity "tr_sessions s"]
  by (auto simp: run_inv_def sessions_used_def pool_Capacity_def pool_inv_def)

lemma run_inv_end: "run_inv capacity N s \<Longrightarrow> tr_loop s \<noteq> None \<Longrightarrow> 0 < tr_count s \<Longrightarrow> run_inv capacity N (timer_end N s)"
  by (auto simp: run_inv_def timer_end_def)

lemma run_inv_count:
  assumes "run_inv capacity N s" "tr_loop s = Some i"
  shows "run_inv capacity N (if N \<le> tr_count s + 1 then timer_end N (s\<lparr>tr_tasks := tr_tasks s + 1, tr_count := tr_count s + 1\<rparr>)
    else s\<lparr>tr_tasks := tr_tasks s + 1, tr_count := tr_count s + 1, tr_loop := Some (i + 1)\<rparr>)"
  using assms by (auto simp: run_inv_def timer_end_def)

lemma run_inv_pass:
  assumes inv: "run_inv capacity N s" and cap: "capacity < 2 ^ 64" and loop: "tr_loop s = Some i" and pos: "0 < session_count"
  shows "run_inv capacity N (timer_pass session_count N s)"
proof (cases "i < session_count \<and> \<not> session_count \<le> sessions_used s")
  case True
  then show ?thesis using run_inv_count [OF inv loop] loop by (simp add: timer_pass_def Let_def split: if_splits)
next
  case False
  have "i \<le> tr_count s" "length (live (tr_sessions s)) \<le> tr_count s" using inv loop by (auto simp: run_inv_def)
  then have "0 < tr_count s" using False sessions_used_eq [OF inv cap] pos by auto
  then have "run_inv capacity N (timer_end N s)" using run_inv_end [OF inv] loop by simp
  then show ?thesis using False loop by (auto simp: timer_pass_def)
qed

lemma pool_Create_returns: "\<exists>r p. pool_Create (Made x) q = (Ret r, p)"
  by (simp add: pool_Create.simps Let_def split: list.split)

lemma run_inv_task:
  assumes inv: "run_inv capacity N s" and "0 < tr_tasks s" and l: "\<forall>x. tr_link_of s x \<noteq> Some l"
    and x: "x \<notin> set (lstObjectPtr (pl (tr_sessions s))) \<union> set (live (tr_sessions s))"
  shows "run_inv capacity N (start_session l x s)"
proof -
  have none: "tr_session_of s l = None" using inv l unfolding run_inv_def by (metis not_None_eq)
  obtain r p where rp: "pool_Create (Made x) (pl (tr_sessions s)) = (Ret r, p)"
    using pool_Create_returns [of x "pl (tr_sessions s)"] by blast
  show ?thesis
  proof (cases r)
    case None
    then have "p = pl (tr_sessions s)" using rp by (simp add: pool_Create_Made_None)
    moreover have "(tr_session_of s)(l := None) = tr_session_of s" using none by (rule fun_upd_idem)
    ultimately have "start_session l x s = s\<lparr>tr_tasks := tr_tasks s - 1, tr_held := insert l (tr_held s)\<rparr>"
      using rp None by (simp add: start_session_def)
    moreover have "tr_tasks s - 1 + length (live (tr_sessions s)) \<le> tr_count s" using inv unfolding run_inv_def by linarith
    ultimately show ?thesis using inv by (simp add: run_inv_def)
  next
    case (Some y)
    let ?t = "(tr_sessions s)\<lparr>pl := p, live := y # live (tr_sessions s)\<rparr>"
    have "pool_step (tr_sessions s) ?t" using pool_step.create_ok [OF x, of y p] rp Some by simp
    then have pool: "pool_inv capacity ?t" using inv object_pool.inv_step by (auto simp: run_inv_def)
    then have y: "y \<notin> set (live (tr_sessions s))" by (simp add: pool_inv_def)
    have free: "tr_session_of s l' \<noteq> Some y" "tr_link_of s y = None" for l'
      using inv y unfolding run_inv_def by (blast, metis not_None_eq)
    have step: "start_session l x s = s\<lparr>tr_tasks := tr_tasks s - 1, tr_held := insert l (tr_held s), tr_sessions := ?t,
        tr_session_of := (tr_session_of s)(l \<mapsto> y), tr_link_of := (tr_link_of s)(y \<mapsto> l), tr_timer := insert l (tr_timer s)\<rparr>"
      using rp Some by (simp add: start_session_def Let_def)
    have "tr_session_of s l' = Some x' \<longleftrightarrow> tr_link_of s x' = Some l'"
      "x' \<in> set (live (tr_sessions s)) \<longleftrightarrow> (\<exists>l. tr_session_of s l = Some x')" for l' x' using inv by (simp_all add: run_inv_def)
    then show ?thesis using inv assms(2) pool none free l unfolding step run_inv_def by auto
  qed
qed

text \<open>A session handed out is used by its link for ever.\<close>

lemma run_inv_step:
  assumes "run_inv capacity N s" "run_step session_count N s t" "capacity < 2 ^ 64" "0 < session_count"
  shows "run_inv capacity N t"
  using assms(2)
proof cases
  case fire
  then show ?thesis using assms(1) by (auto simp: run_inv_def)
next
  case pass
  then show ?thesis using run_inv_pass [OF assms(1,3) _ assms(4)] by blast
next
  case (task l x)
  then show ?thesis using run_inv_task [OF assms(1)] by blast
next
  case no_link
  then show ?thesis using assms(1) by (auto simp: run_inv_def)
next
  case (closed l)
  then show ?thesis using assms(1) by (simp add: run_inv_def close_link_def)
next
  case (release x)
  then show ?thesis using assms(1) by (auto simp: run_inv_def)
qed

definition run_start :: "nat \<Rightarrow> test_run \<Rightarrow> bool" where
  "run_start capacity s \<longleftrightarrow> s = new_test_run capacity"

interpretation test_runs: invariant_system "run_start capacity" "\<lambda>s t. capacity < 2 ^ 64 \<and> 0 < session_count \<and> run_step session_count N s t"
    "run_inv capacity N" for capacity session_count N
  by unfold_locales (auto simp: run_start_def run_inv_init intro: run_inv_step)

lemma runs_inv:
  assumes "test_Init interval session_count = Ret s" "(run_step session_count N)\<^sup>*\<^sup>* s t"
  shows "run_inv 65535 N t" "0 < session_count"
proof -
  show pos: "0 < session_count" using assms(1) by (auto simp: test_Init_def split: if_splits)
  have s: "s = new_test_run 65535" using assms(1) by (auto simp: test_Init_def split: if_splits)
  have "(\<lambda>s t. (65535::nat) < 2 ^ 64 \<and> 0 < session_count \<and> run_step session_count N s t) = run_step session_count N"
    using pos by simp
  then show "run_inv 65535 N t" using test_runs.inv_reachable [of 65535 s session_count N t] assms(2) s by (simp add: run_start_def)
qed


lemma stalled_step:
  assumes inv: "run_inv capacity N s" "capacity < 2 ^ 64" and full: "session_count \<le> length (live (tr_sessions s))"
    and step: "run_step session_count N s t"
  shows "tr_count t = tr_count s \<and> session_count \<le> length (live (tr_sessions t))"
  using step
proof cases
  case fire
  then show ?thesis using full by simp
next
  case pass
  have "session_count \<le> sessions_used s" using full sessions_used_eq [OF inv] by simp
  then show ?thesis using pass full by (auto simp: timer_pass_def timer_end_def)
next
  case (task l x)
  obtain r p where "pool_Create (Made x) (pl (tr_sessions s)) = (r, p)" by (cases "pool_Create (Made x) (pl (tr_sessions s))")
  then show ?thesis using task full
    by (cases r; cases "case r of Ret y \<Rightarrow> y | _ \<Rightarrow> None") (auto simp: start_session_def Let_def split: option.split)
next
  case (release x)
  then show ?thesis using inv(1) by (auto simp: run_inv_def)
qed (use full in \<open>simp_all add: close_link_def\<close>)

text \<open>A run with one session at a time and two rounds: the timer posts one task, its session is started and has ended.\<close>

definition one_ended :: test_run where
  "one_ended = close_link 7 (start_session 7 1 ((new_test_run 65535)\<lparr>tr_tasks := 1, tr_count := 1\<rparr>))\<lparr>tr_armed := True\<rparr>"

lemma one_ended_eq:
  "one_ended = \<lparr>tr_count = 1, tr_tasks = 0, tr_armed = True, tr_loop = None,
     tr_sessions = \<lparr>pl = \<lparr>lstObjectPtr = [], cur_size = 1, max_size = 65535\<rparr>, live = [1], lost = 0\<rparr>,
     tr_session_of = [7 \<mapsto> 1], tr_link_of = [1 \<mapsto> 7], tr_held = {}, tr_timer = {7}\<rparr>"
  by (simp add: one_ended_def close_link_def start_session_def new_test_run_def new_pool_def pool_Create.simps Let_def)

lemma one_ended_reached: "(run_step 1 2)\<^sup>*\<^sup>* (new_test_run 65535) one_ended"
proof -
  let ?s0 = "new_test_run 65535"
  let ?s1 = "?s0\<lparr>tr_armed := False, tr_loop := Some 0\<rparr>"
  let ?s2 = "timer_pass 1 2 ?s1"
  let ?s3 = "timer_pass 1 2 ?s2"
  let ?s4 = "start_session 7 1 ?s3"
  have s3: "?s3 = ?s0\<lparr>tr_tasks := 1, tr_count := 1\<rparr>"
    by (simp add: timer_pass_def timer_end_def new_test_run_def Let_def sessions_used_def pool_Capacity_def pool_Available_def new_pool_def)
  have "run_step 1 2 ?s0 ?s1" by (rule run_step.fire) (simp_all add: new_test_run_def)
  moreover have "run_step 1 2 ?s1 ?s2" by (rule run_step.pass) simp
  moreover have "run_step 1 2 ?s2 ?s3"
    by (rule run_step.pass)
      (simp add: timer_pass_def new_test_run_def Let_def sessions_used_def pool_Capacity_def pool_Available_def new_pool_def)
  moreover have "run_step 1 2 ?s3 ?s4" unfolding s3 by (rule run_step.task) (simp_all add: new_test_run_def new_pool_def)
  ultimately have steps: "(run_step 1 2)\<^sup>*\<^sup>* ?s0 ?s4"
    by (intro rtranclp.rtrancl_into_rtrancl [OF rtranclp.rtrancl_into_rtrancl [OF rtranclp.rtrancl_into_rtrancl [OF r_into_rtranclp]]])
  have "7 \<in> tr_held ?s4"
    unfolding s3 by (simp add: start_session_def new_test_run_def new_pool_def pool_Create.simps Let_def)
  then have "run_step 1 2 ?s4 (close_link 7 ?s4)" by (rule run_step.closed)
  moreover have "close_link 7 ?s4 = one_ended"
    unfolding s3 one_ended_eq
    by (simp add: close_link_def start_session_def new_test_run_def new_pool_def pool_Create.simps Let_def)
  ultimately have "run_step 1 2 ?s4 one_ended" by simp
  with steps show ?thesis by (rule rtranclp.rtrancl_into_rtrancl)
qed



definition next_timer :: test_run where
  "next_timer = timer_pass 1 2 (one_ended\<lparr>tr_armed := False, tr_loop := Some 0\<rparr>)"


end
