(* ===== verification/Idl_Syntax.thy ===== *)
theory Idl_Syntax
  imports Gamnet_Prelude
begin

text \<open>
  The parse tree of the interface compiler, \<^verbatim>\<open>idlc/src/token.h\<close>: what the parser hands to the code generators.
  \<open>type_name\<close>, \<open>Type\<close> and \<open>m_bPrimitive\<close> are as the actions of \<^verbatim>\<open>parser.y\<close> set them. \<open>parse_stmts\<close> is
  \<open>Token::Parser::Parse\<close>, the order in which a generator visits the statements. Generated text is a list of lines.
\<close>

section \<open>Types\<close>

datatype primitive =
    P_boolean | P_byte | P_ubyte | P_int16 | P_int32 | P_int64 | P_uint16 | P_uint32 | P_uint64 | P_double | P_float

fun primitive_name :: "primitive \<Rightarrow> string" where
  "primitive_name P_boolean = ''boolean''"
| "primitive_name P_byte = ''byte''"
| "primitive_name P_ubyte = ''ubyte''"
| "primitive_name P_int16 = ''int16''"
| "primitive_name P_int32 = ''int32''"
| "primitive_name P_int64 = ''int64''"
| "primitive_name P_uint16 = ''uint16''"
| "primitive_name P_uint32 = ''uint32''"
| "primitive_name P_uint64 = ''uint64''"
| "primitive_name P_double = ''double''"
| "primitive_name P_float = ''float''"

definition all_primitives :: "primitive list" where
  "all_primitives = [P_boolean, P_byte, P_ubyte, P_int16, P_int32, P_int64, P_uint16, P_uint32, P_uint64, P_double, P_float]"

text \<open>The number of a static array is kept as the text of its token.\<close>

datatype var_type =
    PrimitiveType primitive
  | StringType
  | UserDefineType string
  | ListType var_type
  | ArrayType var_type
  | StaticArrayType var_type string
  | MapType var_type var_type

datatype token_type =
    TYPE_NULL | TYPE_VARNAME | TYPE_PRIMITIVE | TYPE_STRING | TYPE_USERDEFINE | TYPE_MAP | TYPE_ARRAY | TYPE_STATIC_ARRAY
  | TYPE_LIST | TYPE_VARDECL | TYPE_MESSAGE | TYPE_TYPEDEF | TYPE_STMTLIST | TYPE_ENUM | TYPE_ENUMELMT | TYPE_LITERALBLOCK

fun Type :: "var_type \<Rightarrow> token_type" where
  "Type (PrimitiveType _) = TYPE_PRIMITIVE"
| "Type StringType = TYPE_STRING"
| "Type (UserDefineType _) = TYPE_USERDEFINE"
| "Type (ListType _) = TYPE_LIST"
| "Type (ArrayType _) = TYPE_ARRAY"
| "Type (StaticArrayType _ _) = TYPE_STATIC_ARRAY"
| "Type (MapType _ _) = TYPE_MAP"

text \<open>\<open>GetName()\<close> of a type.\<close>

fun type_name :: "var_type \<Rightarrow> string" where
  "type_name (PrimitiveType p) = primitive_name p"
| "type_name StringType = ''string''"
| "type_name (UserDefineType n) = n"
| "type_name (ListType _) = ''list''"
| "type_name (ArrayType _) = ''array''"
| "type_name (StaticArrayType _ _) = ''static_array''"
| "type_name (MapType _ _) = ''map''"

definition m_bPrimitive :: "var_type \<Rightarrow> bool" where
  "m_bPrimitive elmt \<longleftrightarrow> Type elmt = TYPE_PRIMITIVE"

section \<open>Declarations and statements\<close>

text \<open>A list of declarations also holds its comments (\<open>Base\<close> nodes of type \<open>TYPE_NULL\<close>).\<close>

datatype var_decl = VarDecl (var_decl_type: var_type) (var_decl_name: string) | DeclComment

datatype enum_elmt = EnumElmt (elmt_name: string) (elmt_number: string) | ElmtComment

datatype stmt =
    LiteralBlock string string
  | Typedef var_type string
  | Message string string int "var_decl list"
  | Enum string "enum_elmt list"
  | Comment

text \<open>The members a generator visits: every declaration that is no comment.\<close>

definition members :: "var_decl list \<Rightarrow> (var_type \<times> string) list" where
  "members ds = concat (map (\<lambda>d. case d of VarDecl t x \<Rightarrow> [(t, x)] | DeclComment \<Rightarrow> []) ds)"

definition enum_members :: "enum_elmt list \<Rightarrow> (string \<times> string) list" where
  "enum_members es = concat (map (\<lambda>e. case e of EnumElmt n k \<Rightarrow> [(n, k)] | ElmtComment \<Rightarrow> []) es)"

lemma members_simps [simp]:
  "members [] = []" "members (VarDecl t x # ds) = (t, x) # members ds" "members (DeclComment # ds) = members ds"
  by (simp_all add: members_def)

lemma enum_members_simps [simp]:
  "enum_members [] = []" "enum_members (EnumElmt n k # es) = (n, k) # enum_members es"
  "enum_members (ElmtComment # es) = enum_members es"
  by (simp_all add: enum_members_def)

section \<open>Generated text\<close>

type_synonym code_lines = "string list"

text \<open>One line of output: \<open>std::cout << a << b << std::endl\<close>.\<close>

definition line :: "string list \<Rightarrow> code_lines" where
  "line parts = [concat parts]"

abbreviation TAB :: string where "TAB \<equiv> [CHR 0x09]"

text \<open>The virtual functions of a generator, one per kind of statement.\<close>

record generator =
  CompileLiteralBlock :: "string \<Rightarrow> string \<Rightarrow> code_lines"
  CompileTypedef :: "var_type \<Rightarrow> string \<Rightarrow> code_lines"
  CompileMessage :: "string \<Rightarrow> string \<Rightarrow> int \<Rightarrow> var_decl list \<Rightarrow> code_lines"
  CompileEnum :: "string \<Rightarrow> enum_elmt list \<Rightarrow> code_lines"

fun parse_stmt :: "generator \<Rightarrow> stmt \<Rightarrow> code_lines" where
  "parse_stmt g (LiteralBlock lang ctx) = CompileLiteralBlock g lang ctx"
| "parse_stmt g (Typedef t x) = CompileTypedef g t x"
| "parse_stmt g (Message n parent seq ds) = CompileMessage g n parent seq ds"
| "parse_stmt g (Enum n es) = CompileEnum g n es"
| "parse_stmt g Comment = []"

definition parse_stmts :: "generator \<Rightarrow> stmt list \<Rightarrow> code_lines" where
  "parse_stmts g stmts = concat (map (parse_stmt g) stmts)"

end
