(* ===== verification/Idl_Cpp.thy ===== *)
theory Idl_Cpp
  imports Idl_Syntax
begin

text \<open>
  The C++ generator, \<^verbatim>\<open>idlc/src/generate_rule_cpp.cpp\<close>: the text it writes for a parse tree, line by line. The symbol
  table holds the primitive types; the only entries added to it translate a name to itself and are no primitives, so
  that looking a name up is \<open>cpp_symbol\<close> throughout. Text that contains the two characters of a comment delimiter is
  split there.
\<close>

section \<open>Names and types\<close>

fun replace_first :: "char \<Rightarrow> char \<Rightarrow> string \<Rightarrow> string" where
  "replace_first a b [] = []"
| "replace_first a b (c # cs) = (if c = a then b # cs else c # replace_first a b cs)"

definition ReplaceSpecialChar :: "string \<Rightarrow> string" where
  "ReplaceSpecialChar ori = replace_first (CHR '']'') (CHR ''_'') (replace_first (CHR ''['') (CHR ''_'') ori)"

text \<open>Type name and initial value of a primitive.\<close>

fun cpp_primitive :: "primitive \<Rightarrow> string \<times> string" where
  "cpp_primitive P_boolean = (''bool'', ''false'')"
| "cpp_primitive P_byte = (''char'', [CHR 0x27, CHR 0x5C, CHR ''0'', CHR 0x27])"
| "cpp_primitive P_ubyte = (''unsigned char'', [CHR 0x27, CHR 0x5C, CHR ''0'', CHR 0x27])"
| "cpp_primitive P_int16 = (''int16_t'', ''0'')"
| "cpp_primitive P_int32 = (''int32_t'', ''0'')"
| "cpp_primitive P_int64 = (''int64_t'', ''0'')"
| "cpp_primitive P_uint16 = (''uint16_t'', ''0'')"
| "cpp_primitive P_uint32 = (''uint32_t'', ''0'')"
| "cpp_primitive P_uint64 = (''uint64_t'', ''0'')"
| "cpp_primitive P_double = (''double'', ''0.0'')"
| "cpp_primitive P_float = (''float'', ''0.0'')"

definition cpp_symbol :: "string \<Rightarrow> (string \<times> string) option" where
  "cpp_symbol name = map_of (map (\<lambda>p. (primitive_name p, cpp_primitive p)) all_primitives) name"

fun cpp_type :: "var_type \<Rightarrow> string" where
  "cpp_type (PrimitiveType p) = fst (cpp_primitive p)"
| "cpp_type StringType = ''std::string''"
| "cpp_type (MapType k e) = ''std::map<'' @ cpp_type k @ '', '' @ cpp_type e @ '' >''"
| "cpp_type (StaticArrayType e n) = cpp_type e"
| "cpp_type (ArrayType e) = ''std::vector<'' @ cpp_type e @ '' >''"
| "cpp_type (ListType e) = ''std::list<'' @ cpp_type e @ '' >''"
| "cpp_type (UserDefineType n) = (case cpp_symbol n of None \<Rightarrow> n | Some (t, _) \<Rightarrow> t)"

section \<open>Code for a variable\<close>

fun cpp_init :: "var_type \<Rightarrow> string \<Rightarrow> code_lines" where
  "cpp_init (PrimitiveType p) v = line [TAB, TAB, v, '' = '', snd (cpp_primitive p), '';'']"
| "cpp_init _ v = []"

definition cpp_store_count :: "string \<Rightarrow> string \<Rightarrow> code_lines" where
  "cpp_store_count v ind =
     line [ind, ''size_t '', v, ''_size = '', v, ''.size();''] @
     line [ind, ''std::memcpy('', ''*_buf_, &'', v, ''_size, sizeof(int32_t)); ('', ''*_buf_) += sizeof(int32_t);'']"

fun cpp_store :: "var_type \<Rightarrow> string \<Rightarrow> string \<Rightarrow> code_lines" where
  "cpp_store (UserDefineType n) v ind =
     line [ind, ''if(false == '', n, ''_Serializer::Store(_buf_, '', v, '')) { return false; }'']"
| "cpp_store (PrimitiveType p) v ind =
     (let c = cpp_type (PrimitiveType p)
      in line [ind, ''std::memcpy('', ''*_buf_, &'', v, '', sizeof('', c, '')); ('', ''*_buf_) += sizeof('', c, '');''])"
| "cpp_store StringType v ind =
     line [ind, ''size_t '', ReplaceSpecialChar v, ''_size = '', v, ''.length();''] @
     line [ind, ''std::memcpy('', ''*_buf_, &'', ReplaceSpecialChar v, ''_size, sizeof(int32_t)); ('', ''*_buf_) += sizeof(int32_t);''] @
     line [ind, ''std::memcpy('', ''*_buf_, '', v, ''.c_str(), '', v, ''.length()); ('', ''*_buf_) += '', v, ''.length();'']"
| "cpp_store (MapType k e) v ind =
     cpp_store_count v ind @
     line [ind, ''for(std::map<'', cpp_type k, '', '', cpp_type e, '' >::const_iterator '', v, ''_itr = '', v, ''.begin(); '', v,
       ''_itr != '', v, ''.end(); '', v, ''_itr++) {''] @
     line [ind, TAB, ''const '', cpp_type k, ''& '', v, ''_key = '', v, ''_itr->first;''] @
     line [ind, TAB, ''const '', cpp_type e, ''& '', v, ''_elmt = '', v, ''_itr->second;''] @
     cpp_store k (v @ ''_key'') (ind @ TAB) @
     cpp_store e (v @ ''_elmt'') (ind @ TAB) @
     line [ind, ''}'']"
| "cpp_store (ListType e) v ind =
     cpp_store_count v ind @
     line [ind, ''for(std::list<'', cpp_type e, '' >::const_iterator '', v, ''_itr = '', v, ''.begin(); '', v, ''_itr != '', v,
       ''.end(); '', v, ''_itr++)'', TAB, ''{''] @
     line [ind, TAB, ''const '', cpp_type e, ''& '', v, ''_elmt = *'', v, ''_itr;''] @
     cpp_store e (v @ ''_elmt'') (ind @ TAB) @
     line [ind, ''}'']"
| "cpp_store (ArrayType e) v ind =
     cpp_store_count v ind @
     line [ind, ''for(std::vector<'', cpp_type e, '' >::const_iterator '', v, ''_itr = '', v, ''.begin(); '', v, ''_itr != '', v,
       ''.end(); '', v, ''_itr++)'', TAB, ''{''] @
     line [ind, TAB, ''const '', cpp_type e, ''& '', v, ''_elmt = *'', v, ''_itr;''] @
     cpp_store e (v @ ''_elmt'') (ind @ TAB) @
     line [ind, ''}'']"
| "cpp_store (StaticArrayType e cnt) v ind =
     (if m_bPrimitive e
      then line [ind, ''std::memcpy('', ''*_buf_, '', v, '', sizeof('', cpp_type e, '') * '', cnt, ''); '',
        ''('', ''*_buf_) += '', ''sizeof('', cpp_type e, '') * '', cnt, '';'']
      else line [ind, ''for(int32_t i=0; i<'', cnt, ''; i++) {''] @
        cpp_store e (v @ ''[i]'') (ind @ TAB) @
        line [ind, ''}''])"

definition cpp_load_count :: "string \<Rightarrow> string \<Rightarrow> code_lines" where
  "cpp_load_count v ind =
     line [ind, ''if(sizeof(int32_t) > nSize) { return false; }''] @
     line [ind, ''uint32_t '', v, ''_length = 0; std::memcpy(&'', v, ''_length, *_buf_, sizeof(uint32_t)); ('',
       ''*_buf_) += sizeof(uint32_t); nSize -= sizeof(uint32_t);'']"

fun cpp_load :: "var_type \<Rightarrow> string \<Rightarrow> string \<Rightarrow> code_lines" where
  "cpp_load (UserDefineType n) v ind =
     line [ind, ''if(false == '', n, ''_Serializer::Load('', v, '', _buf_, nSize)) { return false; }'']"
| "cpp_load (PrimitiveType p) v ind =
     (let c = cpp_type (PrimitiveType p)
      in line [ind, ''if(sizeof('', c, '') > nSize) { return false; }'', TAB, ''std::memcpy(&'', v, '', *_buf_, sizeof('', c, ''));'',
        TAB, ''('', ''*_buf_) += sizeof('', c, ''); nSize -= sizeof('', c, '');''])"
| "cpp_load StringType v ind =
     cpp_load_count v ind @
     line [ind, ''if(nSize < '', v, ''_length) { return false; }''] @
     line [ind, v, ''.assign((char*'', '')*_buf_, '', v, ''_length); ('', ''*_buf_) += '', v, ''_length; nSize -= '', v, ''_length;'']"
| "cpp_load (MapType k e) v ind =
     cpp_load_count v ind @
     line [ind, ''for(uint32_t i=0; i<'', v, ''_length; i++) {''] @
     line [ind, TAB, cpp_type k, '' '', v, ''_key;''] @
     cpp_load k (v @ ''_key'') (ind @ TAB) @
     line [ind, TAB, cpp_type e, '' '', v, ''_val;''] @
     cpp_load e (v @ ''_val'') (ind @ TAB) @
     line [ind, TAB, v, ''.insert(std::make_pair('', v, ''_key, '', v, ''_val));''] @
     line [ind, ''}'']"
| "cpp_load (ListType e) v ind =
     cpp_load_count v ind @
     line [ind, ''for(uint32_t i=0; i<'', v, ''_length; i++) {''] @
     line [ind, TAB, cpp_type e, '' '', v, ''_val;''] @
     cpp_load e (v @ ''_val'') (ind @ TAB) @
     line [ind, TAB, v, ''.push_back('', v, ''_val);''] @
     line [ind, ''}'']"
| "cpp_load (ArrayType e) v ind =
     cpp_load_count v ind @
     line [ind, ''for(uint32_t i=0; i<'', v, ''_length; i++) {''] @
     line [ind, TAB, cpp_type e, '' '', v, ''_val;''] @
     cpp_load e (v @ ''_val'') (ind @ TAB) @
     line [ind, TAB, v, ''.push_back('', v, ''_val);''] @
     line [ind, ''}'']"
| "cpp_load (StaticArrayType e cnt) v ind =
     (if m_bPrimitive e
      then (let c = cpp_type (StaticArrayType e cnt)
        in line [ind, ''std::memcpy('', v, '', *_buf_, sizeof('', c, '') * '', cnt, ''); '',
          ''('', ''*_buf_) += sizeof('', c, '') * '', cnt, ''; nSize -= sizeof('', c, '') * '', cnt, '';''])
      else line [ind, ''for(int32_t i=0; i<'', cnt, ''; i++) {''] @
        line [ind, TAB, cpp_type e, '' '', v, ''_val;''] @
        cpp_load e (v @ ''_val'') (ind @ TAB) @
        line [ind, TAB, v, ''[i] = '', v, ''_val;''] @
        line [ind, ''}''])"

text \<open>The reference to the key or element is left out when the table knows its type as a primitive. For lists and
  arrays the code casts to \<open>MapType\<close> and reads the member at the same place, the element type.\<close>

definition declares_reference :: "var_type \<Rightarrow> bool" where
  "declares_reference t \<longleftrightarrow> cpp_symbol (type_name t) = None"

fun cpp_size :: "var_type \<Rightarrow> string \<Rightarrow> string \<Rightarrow> code_lines" where
  "cpp_size (UserDefineType n) v ind = line [ind, ''nSize += '', n, ''_Serializer::Size('', v, '');'']"
| "cpp_size (PrimitiveType p) v ind = line [ind, ''nSize += sizeof('', cpp_type (PrimitiveType p), '');'']"
| "cpp_size StringType v ind = line [ind, ''nSize += sizeof(uint32_t); nSize += '', v, ''.length();'']"
| "cpp_size (MapType k e) v ind =
     line [ind, ''nSize += sizeof(uint32_t);''] @
     line [ind, ''for(std::map<'', cpp_type k, '', '', cpp_type e, '' >::const_iterator '', v, ''_itr = '', v, ''.begin(); '', v,
       ''_itr != '', v, ''.end(); '', v, ''_itr++) {''] @
     (if declares_reference k then line [ind, TAB, ''const '', cpp_type k, ''& '', v, ''_key = '', v, ''_itr->first;''] else []) @
     line [ind, TAB, ''const '', cpp_type e, ''& '', v, ''_elmt = '', v, ''_itr->second;''] @
     cpp_size k (v @ ''_key'') (ind @ TAB) @
     cpp_size e (v @ ''_elmt'') (ind @ TAB) @
     line [ind, ''}'']"
| "cpp_size (ListType e) v ind =
     line [ind, ''nSize += sizeof(int32_t);''] @
     line [ind, ''for(std::list<'', cpp_type e, '' >::const_iterator '', v, ''_itr = '', v, ''.begin(); '', v, ''_itr != '', v,
       ''.end(); '', v, ''_itr++)'', TAB, ''{''] @
     (if declares_reference e then line [ind, TAB, ''const '', cpp_type e, ''& '', v, ''_elmt = *'', v, ''_itr;''] else []) @
     cpp_size e (v @ ''_elmt'') (ind @ TAB) @
     line [ind, ''}'']"
| "cpp_size (ArrayType e) v ind =
     line [ind, ''nSize += sizeof(int32_t);''] @
     line [ind, ''for(std::vector<'', cpp_type e, '' >::const_iterator '', v, ''_itr = '', v, ''.begin(); '', v, ''_itr != '', v,
       ''.end(); '', v, ''_itr++)'', TAB, ''{''] @
     (if declares_reference e then line [ind, TAB, ''const '', cpp_type e, ''& '', v, ''_elmt = *'', v, ''_itr;''] else []) @
     cpp_size e (v @ ''_elmt'') (ind @ TAB) @
     line [ind, ''}'']"
| "cpp_size (StaticArrayType e cnt) v ind =
     (if m_bPrimitive e
      then line [ind, ''nSize += sizeof('', cpp_type e, '') * '', cnt, '';'']
      else line [ind, ''for(int32_t i=0; i<'', cnt, ''; i++) {''] @
        cpp_size e (v @ ''[i]'') (ind @ TAB) @
        line [ind, ''}''])"

section \<open>Messages\<close>

definition for_members :: "(var_type \<Rightarrow> string \<Rightarrow> code_lines) \<Rightarrow> var_decl list \<Rightarrow> code_lines" where
  "for_members f ds = concat (map (\<lambda>(t, x). f t x) (members ds))"

abbreviation TABS :: string where "TABS \<equiv> [CHR 0x09, CHR 0x09]"

definition cpp_member :: "var_type \<Rightarrow> string \<Rightarrow> code_lines" where
  "cpp_member t x =
     line [TAB, cpp_type t, TAB, x, (case t of StaticArrayType e cnt \<Rightarrow> ''['' @ cnt @ '']'' | _ \<Rightarrow> []), '';'']"

definition cpp_constructors :: "string \<Rightarrow> string \<Rightarrow> var_decl list \<Rightarrow> code_lines" where
  "cpp_constructors n parent ds =
     line [TAB, n, ''()'', (if parent \<noteq> [] then '' : '' @ parent @ ''()'' else []), TAB, ''{''] @
     for_members cpp_init ds @
     line [TAB, ''}''] @
     (if parent \<noteq> []
      then line [TAB, n, ''(const '', parent, ''& base)'', '' : '', parent, ''(base)'', TAB, ''{''] @
        for_members cpp_init ds @
        line [TAB, ''}'']
      else [])"

definition cpp_Size :: "string \<Rightarrow> var_decl list \<Rightarrow> code_lines" where
  "cpp_Size parent ds =
     line [TAB, ''size_t Size() const {''] @
     line [TABS, ''size_t nSize = 0;''] @
     (if parent \<noteq> [] then line [TABS, ''nSize += '', parent, ''::Size();''] else []) @
     for_members (\<lambda>t x. cpp_size t x TABS) ds @
     line [TABS, ''return nSize;''] @
     line [TAB, ''}'']"

definition cpp_Store :: "string \<Rightarrow> var_decl list \<Rightarrow> code_lines" where
  "cpp_Store parent ds =
     line [TAB, ''bool Store(std::vector<char>& _buf_) const {''] @
     line [TABS, ''size_t nSize = Size();''] @
     line ['' '', TABS, ''if(0 == nSize) { return true; }''] @
     line [TABS, ''if(nSize > _buf_.size()) { ''] @
     line [TABS, TAB, ''_buf_.resize(nSize);''] @
     line [TABS, ''}''] @
     line [TABS, ''char* pBuf = &(_buf_[0]);''] @
     line [TABS, ''if(false == Store(&pBuf)) return false;''] @
     line [TABS, ''return true;''] @
     line [TAB, ''}''] @
     line [TAB, ''bool Store(char** _buf_) const {''] @
     (if parent \<noteq> [] then line [TABS, ''if(false == '', parent, ''::Store(_buf_)) return false;''] else []) @
     for_members (\<lambda>t x. cpp_store t x TABS) ds @
     line [TABS, ''return true;''] @
     line [TAB, ''}'']"

definition cpp_Load :: "string \<Rightarrow> var_decl list \<Rightarrow> code_lines" where
  "cpp_Load parent ds =
     line [TAB, ''bool Load(const std::vector<char>& _buf_) {''] @
     line [TABS, ''size_t nSize = _buf_.size();''] @
     line ['' '', TABS, ''if(0 == nSize) { return true; }''] @
     line [TABS, ''const char* pBuf = &(_buf_[0]);''] @
     line [TABS, ''if(false == Load(&pBuf, nSize)) return false;''] @
     line [TABS, ''return true;''] @
     line [TAB, ''}''] @
     line [TAB, ''bool Load(const char** _buf_, size_t& nSize) {''] @
     (if parent \<noteq> [] then line [TABS, ''if(false == '', parent, ''::Load(_buf_, nSize)) return false;''] else []) @
     for_members (\<lambda>t x. cpp_load t x TABS) ds @
     line [TABS, ''return true;''] @
     line [TAB, ''}'']"

definition cpp_CompileMessage :: "string \<Rightarrow> string \<Rightarrow> int \<Rightarrow> var_decl list \<Rightarrow> code_lines" where
  "cpp_CompileMessage n parent seq ds =
     line [''struct '', n, (if parent \<noteq> [] then '' : public '' @ parent else []), '' {''] @
     (if seq > 0 then line [TAB, ''enum { MSG_ID = '', dec_int seq, '' }; ''] else []) @
     for_members cpp_member ds @
     cpp_constructors n parent ds @
     cpp_Size parent ds @
     cpp_Store parent ds @
     cpp_Load parent ds @
     line [''}; //'', n] @
     line [''struct '', n, ''_Serializer {''] @
     line [TAB, ''static bool Store(char** _buf_, const '', n, ''& obj) { return obj.Store(_buf_); }''] @
     line [TAB, ''static bool Load('', n, ''& obj, const char** _buf_, size_t& nSize) { return obj.Load(_buf_, nSize); }''] @
     line [TAB, ''static size_t Size(const '', n, ''& obj) { return obj.Size(); }''] @
     line [''};'']"

section \<open>Enumerations and type definitions\<close>

text \<open>The default is the first name that is not empty.\<close>

definition enum_default :: "(string \<times> string) list \<Rightarrow> string" where
  "enum_default es = (case filter (\<lambda>(n, _). n \<noteq> []) es of [] \<Rightarrow> [] | (n, _) # _ \<Rightarrow> n)"

definition cpp_comparison :: "string \<Rightarrow> string \<Rightarrow> code_lines" where
  "cpp_comparison n opr =
     line [TAB, ''bool operator '', opr, '' (const '', n, ''& obj) { return type '', opr, '' obj.type; }''] @
     line [TAB, ''bool operator '', opr, '' ('', n, ''::TYPE type) { return this->type '', opr, '' type; }''] @
     line [TAB, ''bool operator '', opr, '' (int value) { return this->type '', opr, '' value; }'']"

definition cpp_CompileEnum :: "string \<Rightarrow> enum_elmt list \<Rightarrow> code_lines" where
  "cpp_CompileEnum n es =
     line [''struct '', n, '' {''] @
     line [TAB, ''enum TYPE {''] @
     concat (map (\<lambda>(en, num). line [TABS, TAB, en, (if num \<noteq> [] then '' = '' @ num else []), '','']) (enum_members es)) @
     line [TAB, ''};''] @
     line [TAB, ''TYPE type;''] @
     line [TAB, n, ''() : type('', enum_default (enum_members es), '') {}''] @
     line [TAB, n, ''(int obj) : type((TYPE)obj) {} ''] @
     line [TAB, n, ''(TYPE obj) : type(obj) {}''] @
     line [TAB, ''operator TYPE() const { return type; }''] @
     line [TAB, ''operator int() const { return (int)type; }''] @
     line [TAB, n, ''& operator = (const TYPE& type) { this->type = type; return *this; }''] @
     concat (map (cpp_comparison n) [''=='', ''!='', ''<'', ''>'', ''<='', ''>='']) @
     line [''}; // '', n] @
     line [''struct '', n, ''_Serializer {''] @
     line [TAB, ''static bool Store(char** _buf_, const '', n, ''& obj) { ''] @
     line [TABS, ''('', ''*('', n, ''::TYPE*'', '')('', ''*_buf_)) = obj.type;'', TAB, ''('', ''*_buf_) += sizeof('', n, ''::TYPE);''] @
     line [TABS, ''return true;''] @
     line [TAB, ''}''] @
     line [TAB, ''static bool Load('', n, ''& obj, const char** _buf_, size_t& nSize) { ''] @
     line [TABS, ''if(sizeof('', n, ''::TYPE) > nSize) { return false; }'', TABS, ''std::memcpy(&obj.type, *_buf_, sizeof('', n, ''::TYPE));'',
       TABS, ''('', ''*_buf_) += sizeof('', n, ''::TYPE); nSize -= sizeof('', n, ''::TYPE);''] @
     line [TABS, ''return true;''] @
     line [TAB, ''}''] @
     line [TAB, ''static size_t Size(const '', n, ''& obj) { return sizeof('', n, ''::TYPE); }''] @
     line [''};'']"

definition cpp_CompileTypedef :: "var_type \<Rightarrow> string \<Rightarrow> code_lines" where
  "cpp_CompileTypedef t x =
     line [''typedef '', cpp_type t, '' '', x, '';''] @
     line [''struct '', x, ''_Serializer {''] @
     line [TAB, ''static bool Store(char** _buf_, const '', x, ''& obj) { ''] @
     cpp_store t ''obj'' TABS @
     line [TAB, ''return true;''] @
     line [TAB, ''}''] @
     line [TAB, ''static bool Load('', x, ''& obj, const char** _buf_, size_t& nSize) { ''] @
     cpp_load t ''obj'' TABS @
     line [TABS, ''return true;''] @
     line [TAB, ''}''] @
     line [TAB, ''static size_t Size(const '', x, ''& obj) { ''] @
     line [TABS, ''int32_t nSize = 0;''] @
     cpp_size t ''obj'' TABS @
     line [TABS, ''return nSize;''] @
     line [TAB, ''}''] @
     line [''};'']"

definition cpp_CompileLiteralBlock :: "string \<Rightarrow> string \<Rightarrow> code_lines" where
  "cpp_CompileLiteralBlock lang ctx = (if lang = ''.cpp'' then line [ctx] else [])"

definition GenerateRuleCpp :: generator where
  "GenerateRuleCpp = \<lparr>CompileLiteralBlock = cpp_CompileLiteralBlock, CompileTypedef = cpp_CompileTypedef,
     CompileMessage = cpp_CompileMessage, CompileEnum = cpp_CompileEnum\<rparr>"

definition cpp_CompileStmtList :: "string \<Rightarrow> stmt list \<Rightarrow> code_lines" where
  "cpp_CompileStmtList file stmts =
     line [''#ifndef __'', file, ''_H__''] @
     line [''#define __'', file, ''_H__''] @
     line [''#include <string>''] @
     line [''#include <list>''] @
     line [''#include <vector>''] @
     line [''#include <map>''] @
     line [''#include <cstring>''] @
     line [''#include <stdint.h>''] @
     parse_stmts GenerateRuleCpp stmts @
     line [''#endif // __'', file, ''_H__'']"

end
