(* ===== verification/Idl_Wire.thy ===== *)
theory Idl_Wire
  imports Idl_Cpp
begin

text \<open>
  What the code written by the C++ generator does. \<open>run_size\<close>, \<open>run_store\<close> and \<open>run_load\<close> follow \<open>cpp_size\<close>,
  \<open>cpp_store\<close> and \<open>cpp_load\<close> of \<open>Idl_Cpp\<close> line by line, on the variables the lines name: the members of the object and
  the local variables the lines declare, which hide members of the same name. \<open>wire\<close> is the format they are meant to
  produce, a function of the value alone.
\<close>

section \<open>Values and frames\<close>

text \<open>A primitive or enumeration is its memory. A map is listed in the order of its keys. An object has the object of
  its base class and its members.\<close>

datatype val =
    VPrim bytes
  | VString bytes
  | VSeq "val list"
  | VMap "(val \<times> val) list"
  | VArray "val list"
  | VObject "val option" "(string \<times> val) list"

text \<open>Local variables, and members (or parameters).\<close>

type_synonym frame = "(string \<Rightarrow> val option) \<times> (string \<Rightarrow> val option)"

definition get :: "string \<Rightarrow> frame \<Rightarrow> val option" where
  "get x f = (case fst f x of None \<Rightarrow> snd f x | Some v \<Rightarrow> Some v)"

definition put :: "string \<Rightarrow> val \<Rightarrow> frame \<Rightarrow> frame" where
  "put x v f = (if fst f x \<noteq> None then ((fst f)(x \<mapsto> v), snd f) else (fst f, (snd f)(x \<mapsto> v)))"

definition declare_local :: "string \<Rightarrow> val \<Rightarrow> frame \<Rightarrow> frame" where
  "declare_local x v f = ((fst f)(x \<mapsto> v), snd f)"

text \<open>A load ends with the rest of the input, returns false, reads behind the input, or is not well typed (the code does
  not compile).\<close>

datatype 'a load_result = Loaded 'a bytes | Refused | Overread | IllTyped

fun bind_load :: "'a load_result \<Rightarrow> ('a \<Rightarrow> bytes \<Rightarrow> 'b load_result) \<Rightarrow> 'b load_result" where
  "bind_load (Loaded x bs) k = k x bs"
| "bind_load Refused k = Refused"
| "bind_load Overread k = Overread"
| "bind_load IllTyped k = IllTyped"

text \<open>A type with a name: its default object, and the three functions of its \<^verbatim>\<open>_Serializer\<close>. \<open>u_ok\<close> are the values
  it can have.\<close>

record user =
  u_ok :: "val \<Rightarrow> bool"
  u_fresh :: val
  u_size :: "val \<Rightarrow> nat option"
  u_store :: "val \<Rightarrow> bytes option"
  u_load :: "val \<Rightarrow> bytes \<Rightarrow> val load_result"

type_synonym users = "string \<Rightarrow> user option"

text \<open>\<open>sizeof\<close> of the C++ type of a primitive, and the value of a number token in C++.\<close>

fun prim_sizeof :: "primitive \<Rightarrow> nat" where
  "prim_sizeof P_boolean = 1"
| "prim_sizeof P_byte = 1"
| "prim_sizeof P_ubyte = 1"
| "prim_sizeof P_int16 = 2"
| "prim_sizeof P_int32 = 4"
| "prim_sizeof P_int64 = 8"
| "prim_sizeof P_uint16 = 2"
| "prim_sizeof P_uint32 = 4"
| "prim_sizeof P_uint64 = 8"
| "prim_sizeof P_double = 8"
| "prim_sizeof P_float = 4"

definition digit_value :: "char \<Rightarrow> nat" where
  "digit_value c = (let k = of_char c in if k \<le> 57 then k - 48 else if k \<le> 70 then k - 55 else k - 87)"

definition number_value :: "nat \<Rightarrow> string \<Rightarrow> nat" where
  "number_value base s = foldl (\<lambda>n c. n * base + digit_value c) 0 s"

definition c_number :: "string \<Rightarrow> nat" where
  "c_number s =
     (if take 2 s = ''0x'' then number_value 16 (drop 2 s)
      else if take 1 s = ''0'' then number_value 8 s else number_value 10 s)"

section \<open>Running the generated code\<close>

fun traverse :: "('a \<Rightarrow> 'b option) \<Rightarrow> 'a list \<Rightarrow> 'b list option" where
  "traverse f [] = Some []"
| "traverse f (x # xs) = (case f x of None \<Rightarrow> None | Some y \<Rightarrow> map_option (\<lambda>ys. y # ys) (traverse f xs))"

fun run_size :: "users \<Rightarrow> var_type \<Rightarrow> string \<Rightarrow> frame \<Rightarrow> nat option" where
  "run_size us (UserDefineType n) v f =
     (case (us n, get v f) of (Some u, Some x) \<Rightarrow> u_size u x | _ \<Rightarrow> None)"
| "run_size us (PrimitiveType p) v f = Some (prim_sizeof p)"
| "run_size us StringType v f = (case get v f of Some (VString s) \<Rightarrow> Some (4 + length s) | _ \<Rightarrow> None)"
| "run_size us (MapType k e) v f =
     (case get v f of
        Some (VMap m) \<Rightarrow>
          map_option (\<lambda>ns. 4 + sum_list ns)
            (traverse (\<lambda>(key, elmt).
              let f = (if declares_reference k then declare_local (v @ ''_key'') key f else f);
                  f = declare_local (v @ ''_elmt'') elmt f
              in case (run_size us k (v @ ''_key'') f, run_size us e (v @ ''_elmt'') f) of
                   (Some a, Some b) \<Rightarrow> Some (a + b) | _ \<Rightarrow> None) m)
      | _ \<Rightarrow> None)"
| "run_size us (ListType e) v f =
     (case get v f of
        Some (VSeq xs) \<Rightarrow>
          map_option (\<lambda>ns. 4 + sum_list ns)
            (traverse (\<lambda>elmt. run_size us e (v @ ''_elmt'')
              (if declares_reference e then declare_local (v @ ''_elmt'') elmt f else f)) xs)
      | _ \<Rightarrow> None)"
| "run_size us (ArrayType e) v f =
     (case get v f of
        Some (VSeq xs) \<Rightarrow>
          map_option (\<lambda>ns. 4 + sum_list ns)
            (traverse (\<lambda>elmt. run_size us e (v @ ''_elmt'')
              (if declares_reference e then declare_local (v @ ''_elmt'') elmt f else f)) xs)
      | _ \<Rightarrow> None)"
| "run_size us (StaticArrayType e cnt) v f =
     (case e of
        PrimitiveType p \<Rightarrow> Some (prim_sizeof p * c_number cnt)
      | _ \<Rightarrow>
          (case get v f of
             Some (VArray xs) \<Rightarrow>
               map_option sum_list (traverse (\<lambda>x. run_size us e (v @ ''[i]'') (declare_local (v @ ''[i]'') x f)) xs)
           | _ \<Rightarrow> None))"

text \<open>The local variable that counts characters or elements is a \<open>size_t\<close>; its first four bytes are written.\<close>

definition declare_size :: "string \<Rightarrow> nat \<Rightarrow> frame \<Rightarrow> frame" where
  "declare_size x n f = declare_local x (VPrim (le_bytes 8 n)) f"

definition stored_count :: "nat \<Rightarrow> bytes" where
  "stored_count n = take 4 (le_bytes 8 n)"

fun prim_memory :: "val \<Rightarrow> bytes" where
  "prim_memory (VPrim bs) = bs"
| "prim_memory _ = []"

fun run_store :: "users \<Rightarrow> var_type \<Rightarrow> string \<Rightarrow> frame \<Rightarrow> (frame \<times> bytes) option" where
  "run_store us (UserDefineType n) v f =
     (case (us n, get v f) of (Some u, Some x) \<Rightarrow> map_option (\<lambda>bs. (f, bs)) (u_store u x) | _ \<Rightarrow> None)"
| "run_store us (PrimitiveType p) v f =
     (case get v f of
        Some (VPrim bs) \<Rightarrow> if prim_sizeof p \<le> length bs then Some (f, take (prim_sizeof p) bs) else None
      | _ \<Rightarrow> None)"
| "run_store us StringType v f =
     (case get v f of
        Some (VString s) \<Rightarrow> Some (declare_size (ReplaceSpecialChar v @ ''_size'') (length s) f, stored_count (length s) @ s)
      | _ \<Rightarrow> None)"
| "run_store us (MapType k e) v f =
     (case get v f of
        Some (VMap m) \<Rightarrow>
          (let f = declare_size (v @ ''_size'') (length m) f
           in map_option (\<lambda>bss. (f, stored_count (length m) @ concat bss))
             (traverse (\<lambda>(key, elmt).
               let f = declare_local (v @ ''_elmt'') elmt (declare_local (v @ ''_key'') key f)
               in case run_store us k (v @ ''_key'') f of
                    None \<Rightarrow> None
                  | Some (f, a) \<Rightarrow> map_option (\<lambda>(f, b). a @ b) (run_store us e (v @ ''_elmt'') f)) m))
      | _ \<Rightarrow> None)"
| "run_store us (ListType e) v f =
     (case get v f of
        Some (VSeq xs) \<Rightarrow>
          (let f = declare_size (v @ ''_size'') (length xs) f
           in map_option (\<lambda>bss. (f, stored_count (length xs) @ concat bss))
             (traverse (\<lambda>elmt. map_option snd (run_store us e (v @ ''_elmt'') (declare_local (v @ ''_elmt'') elmt f))) xs))
      | _ \<Rightarrow> None)"
| "run_store us (ArrayType e) v f =
     (case get v f of
        Some (VSeq xs) \<Rightarrow>
          (let f = declare_size (v @ ''_size'') (length xs) f
           in map_option (\<lambda>bss. (f, stored_count (length xs) @ concat bss))
             (traverse (\<lambda>elmt. map_option snd (run_store us e (v @ ''_elmt'') (declare_local (v @ ''_elmt'') elmt f))) xs))
      | _ \<Rightarrow> None)"
| "run_store us (StaticArrayType e cnt) v f =
     (case get v f of
        Some (VArray xs) \<Rightarrow>
          (case e of
             PrimitiveType p \<Rightarrow>
               (let mem = concat (map prim_memory xs); n = prim_sizeof p * c_number cnt
                in if n \<le> length mem then Some (f, take n mem) else None)
           | _ \<Rightarrow>
               map_option (\<lambda>bss. (f, concat bss))
                 (traverse (\<lambda>x. map_option snd (run_store us e (v @ ''[i]'') (declare_local (v @ ''[i]'') x f))) xs))
      | _ \<Rightarrow> None)"

text \<open>A declared variable of a type, before it is loaded. Primitives are uninitialised: what they hold is overwritten
  before it is read.\<close>

fun fresh_val :: "users \<Rightarrow> var_type \<Rightarrow> val" where
  "fresh_val us (PrimitiveType p) = VPrim (replicate (prim_sizeof p) 0)"
| "fresh_val us StringType = VString []"
| "fresh_val us (UserDefineType n) = (case us n of None \<Rightarrow> VPrim [] | Some u \<Rightarrow> u_fresh u)"
| "fresh_val us (ListType e) = VSeq []"
| "fresh_val us (ArrayType e) = VSeq []"
| "fresh_val us (MapType k e) = VMap []"
| "fresh_val us (StaticArrayType e cnt) = VArray (replicate (c_number cnt) (fresh_val us e))"

text \<open>\<open>std::map::insert\<close>, with \<open>operator<\<close> of the keys.\<close>

fun map_insert :: "(val \<Rightarrow> val \<Rightarrow> bool) \<Rightarrow> val \<Rightarrow> val \<Rightarrow> (val \<times> val) list \<Rightarrow> (val \<times> val) list" where
  "map_insert lt k e [] = [(k, e)]"
| "map_insert lt k e ((k', e') # m) =
     (if lt k k' then (k, e) # (k', e') # m
      else if lt k' k then (k', e') # map_insert lt k e m
      else (k', e') # m)"

text \<open>The loop \<open>for(i = 0; i < n; i++)\<close>.\<close>

fun load_loop :: "nat \<Rightarrow> nat \<Rightarrow> (nat \<Rightarrow> 's \<Rightarrow> bytes \<Rightarrow> 's load_result) \<Rightarrow> 's \<Rightarrow> bytes \<Rightarrow> 's load_result" where
  "load_loop i 0 body s bs = Loaded s bs"
| "load_loop i (Suc n) body s bs = bind_load (body i s bs) (load_loop (i + 1) n body)"

text \<open>The lines of \<open>cpp_load_count\<close>: the count, in a new local variable.\<close>

definition load_count :: "string \<Rightarrow> frame \<Rightarrow> bytes \<Rightarrow> (nat \<times> frame) load_result" where
  "load_count v f bs =
     (if length bs < 4 then Refused
      else Loaded (le_val (take 4 bs), declare_local (v @ ''_length'') (VPrim (take 4 bs)) f) (drop 4 bs))"

text \<open>The memory of an array of primitives.\<close>

definition raw_array :: "nat \<Rightarrow> nat \<Rightarrow> bytes \<Rightarrow> val" where
  "raw_array size_of cnt bs = VArray (map (\<lambda>i. VPrim (take size_of (drop (i * size_of) bs))) [0..<cnt])"

fun run_load :: "users \<Rightarrow> (val \<Rightarrow> val \<Rightarrow> bool) \<Rightarrow> var_type \<Rightarrow> string \<Rightarrow> frame \<Rightarrow> bytes \<Rightarrow> frame load_result" where
  "run_load us lt (UserDefineType n) v f bs =
     (case (us n, get v f) of
        (Some u, Some x) \<Rightarrow> bind_load (u_load u x bs) (\<lambda>x bs. Loaded (put v x f) bs)
      | _ \<Rightarrow> IllTyped)"
| "run_load us lt (PrimitiveType p) v f bs =
     (let n = prim_sizeof p in
      if length bs < n then Refused
      else case get v f of
        Some (VPrim old) \<Rightarrow>
          if n \<le> length old then Loaded (put v (VPrim (take n bs @ drop n old)) f) (drop n bs) else IllTyped
      | _ \<Rightarrow> IllTyped)"
| "run_load us lt StringType v f bs =
     bind_load (load_count v f bs) (\<lambda>(n, f) bs.
       if length bs < n then Refused
       else case get v f of
         Some (VString _) \<Rightarrow> Loaded (put v (VString (take n bs)) f) (drop n bs)
       | _ \<Rightarrow> IllTyped)"
| "run_load us lt (MapType k e) v f bs =
     bind_load (load_count v f bs) (\<lambda>(n, f) bs.
       load_loop 0 n (\<lambda>i f bs.
         bind_load (run_load us lt k (v @ ''_key'') (declare_local (v @ ''_key'') (fresh_val us k) f) bs) (\<lambda>f1 bs.
         bind_load (run_load us lt e (v @ ''_val'') (declare_local (v @ ''_val'') (fresh_val us e) f1) bs) (\<lambda>f2 bs.
         case (get v f, get (v @ ''_key'') f2, get (v @ ''_val'') f2) of
           (Some (VMap m), Some key, Some elmt) \<Rightarrow> Loaded (put v (VMap (map_insert lt key elmt m)) f) bs
         | _ \<Rightarrow> IllTyped))) f bs)"
| "run_load us lt (ListType e) v f bs =
     bind_load (load_count v f bs) (\<lambda>(n, f) bs.
       load_loop 0 n (\<lambda>i f bs.
         bind_load (run_load us lt e (v @ ''_val'') (declare_local (v @ ''_val'') (fresh_val us e) f) bs) (\<lambda>f1 bs.
         case (get v f, get (v @ ''_val'') f1) of
           (Some (VSeq xs), Some x) \<Rightarrow> Loaded (put v (VSeq (xs @ [x])) f) bs
         | _ \<Rightarrow> IllTyped)) f bs)"
| "run_load us lt (ArrayType e) v f bs =
     bind_load (load_count v f bs) (\<lambda>(n, f) bs.
       load_loop 0 n (\<lambda>i f bs.
         bind_load (run_load us lt e (v @ ''_val'') (declare_local (v @ ''_val'') (fresh_val us e) f) bs) (\<lambda>f1 bs.
         case (get v f, get (v @ ''_val'') f1) of
           (Some (VSeq xs), Some x) \<Rightarrow> Loaded (put v (VSeq (xs @ [x])) f) bs
         | _ \<Rightarrow> IllTyped)) f bs)"
| "run_load us lt (StaticArrayType e cnt) v f bs =
     (case e of
        PrimitiveType p \<Rightarrow>
          (let n = prim_sizeof p * c_number cnt
           in if length bs < n then Overread
              else Loaded (put v (raw_array (prim_sizeof p) (c_number cnt) bs) f) (drop n bs))
      | _ \<Rightarrow>
          load_loop 0 (c_number cnt) (\<lambda>i f bs.
            bind_load (run_load us lt e (v @ ''_val'') (declare_local (v @ ''_val'') (fresh_val us e) f) bs) (\<lambda>f1 bs.
            case (get v f, get (v @ ''_val'') f1) of
              (Some (VArray xs), Some x) \<Rightarrow> if i < length xs then Loaded (put v (VArray (xs[i := x])) f) bs else IllTyped
            | _ \<Rightarrow> IllTyped)) f bs)"

section \<open>Named types\<close>

text \<open>An enumeration has the size of an \<open>int\<close>; its default is the first name.\<close>

definition enum_user :: "(string \<times> string) list \<Rightarrow> user" where
  "enum_user es =
     \<lparr>u_ok = (\<lambda>v. case v of VPrim bs \<Rightarrow> length bs = 4 | _ \<Rightarrow> False),
      u_fresh = VPrim (le_bytes 4 (case es of [] \<Rightarrow> 0 | (_, num) # _ \<Rightarrow> c_number num)),
      u_size = (\<lambda>v. Some 4),
      u_store = (\<lambda>v. case v of VPrim bs \<Rightarrow> if length bs = 4 then Some bs else None | _ \<Rightarrow> None),
      u_load = (\<lambda>v bs. if length bs < 4 then Refused else Loaded (VPrim (take 4 bs)) (drop 4 bs))\<rparr>"

fun val_ok :: "users \<Rightarrow> (val \<Rightarrow> val \<Rightarrow> bool) \<Rightarrow> var_type \<Rightarrow> val \<Rightarrow> bool" where
  "val_ok us lt (PrimitiveType p) v = (case v of VPrim bs \<Rightarrow> length bs = prim_sizeof p | _ \<Rightarrow> False)"
| "val_ok us lt StringType v = (case v of VString s \<Rightarrow> length s < 2 ^ 32 | _ \<Rightarrow> False)"
| "val_ok us lt (UserDefineType n) v = (case us n of None \<Rightarrow> False | Some u \<Rightarrow> u_ok u v)"
| "val_ok us lt (ListType e) v = (case v of VSeq xs \<Rightarrow> length xs < 2 ^ 32 \<and> list_all (val_ok us lt e) xs | _ \<Rightarrow> False)"
| "val_ok us lt (ArrayType e) v = (case v of VSeq xs \<Rightarrow> length xs < 2 ^ 32 \<and> list_all (val_ok us lt e) xs | _ \<Rightarrow> False)"
| "val_ok us lt (MapType k e) v =
     (case v of
        VMap m \<Rightarrow> length m < 2 ^ 32 \<and> list_all (\<lambda>(a, b). val_ok us lt k a \<and> val_ok us lt e b) m
          \<and> sorted_wrt (\<lambda>a b. lt a b \<and> \<not> lt b a) (map fst m)
      | _ \<Rightarrow> False)"
| "val_ok us lt (StaticArrayType e cnt) v =
     (case v of VArray xs \<Rightarrow> length xs = c_number cnt \<and> list_all (val_ok us lt e) xs | _ \<Rightarrow> False)"

definition param_frame :: "val \<Rightarrow> frame" where
  "param_frame v = (Map.empty, [''obj'' \<mapsto> v])"

definition typedef_user :: "users \<Rightarrow> (val \<Rightarrow> val \<Rightarrow> bool) \<Rightarrow> var_type \<Rightarrow> user" where
  "typedef_user us lt t =
     \<lparr>u_ok = val_ok us lt t,
      u_fresh = fresh_val us t,
      u_size = (\<lambda>v. run_size us t ''obj'' (param_frame v)),
      u_store = (\<lambda>v. map_option snd (run_store us t ''obj'' (param_frame v))),
      u_load = (\<lambda>v bs. bind_load (run_load us lt t ''obj'' (param_frame v) bs)
        (\<lambda>f bs. case get ''obj'' f of Some v \<Rightarrow> Loaded v bs | None \<Rightarrow> IllTyped))\<rparr>"

text \<open>The members of a message, in order; a local variable stays declared for the members that follow.\<close>

fun store_members :: "users \<Rightarrow> (var_type \<times> string) list \<Rightarrow> frame \<Rightarrow> bytes option" where
  "store_members us [] f = Some []"
| "store_members us ((t, x) # ms) f =
     (case run_store us t x f of None \<Rightarrow> None | Some (f, b) \<Rightarrow> map_option (\<lambda>bs. b @ bs) (store_members us ms f))"

fun load_members :: "users \<Rightarrow> (val \<Rightarrow> val \<Rightarrow> bool) \<Rightarrow> (var_type \<times> string) list \<Rightarrow> frame \<Rightarrow> bytes \<Rightarrow> frame load_result" where
  "load_members us lt [] f bs = Loaded f bs"
| "load_members us lt ((t, x) # ms) f bs = bind_load (run_load us lt t x f bs) (load_members us lt ms)"

definition size_members :: "users \<Rightarrow> (var_type \<times> string) list \<Rightarrow> frame \<Rightarrow> nat option" where
  "size_members us ms f = map_option sum_list (traverse (\<lambda>(t, x). run_size us t x f) ms)"

definition member_frame :: "(string \<times> val) list \<Rightarrow> frame" where
  "member_frame fs = (Map.empty, map_of fs)"

text \<open>The base class comes first. \<open>base\<close> is its serializer, if there is one.\<close>

definition message_ok :: "users \<Rightarrow> (val \<Rightarrow> val \<Rightarrow> bool) \<Rightarrow> user option \<Rightarrow> (var_type \<times> string) list \<Rightarrow> val \<Rightarrow> bool" where
  "message_ok us lt base ms v =
     (case v of
        VObject b fs \<Rightarrow>
          (case (base, b) of (None, None) \<Rightarrow> True | (Some u, Some b) \<Rightarrow> u_ok u b | _ \<Rightarrow> False)
          \<and> map fst fs = map snd ms \<and> list_all (\<lambda>((t, x), v). val_ok us lt t v) (zip ms (map snd fs))
      | _ \<Rightarrow> False)"

definition message_size :: "users \<Rightarrow> user option \<Rightarrow> (var_type \<times> string) list \<Rightarrow> val \<Rightarrow> nat option" where
  "message_size us base ms v =
     (case v of
        VObject b fs \<Rightarrow>
          (case (case (base, b) of (None, _) \<Rightarrow> Some 0 | (Some u, Some b) \<Rightarrow> u_size u b | _ \<Rightarrow> None, size_members us ms (member_frame fs)) of
             (Some a, Some n) \<Rightarrow> Some (a + n) | _ \<Rightarrow> None)
      | _ \<Rightarrow> None)"

definition message_store :: "users \<Rightarrow> user option \<Rightarrow> (var_type \<times> string) list \<Rightarrow> val \<Rightarrow> bytes option" where
  "message_store us base ms v =
     (case v of
        VObject b fs \<Rightarrow>
          (case (case (base, b) of (None, _) \<Rightarrow> Some [] | (Some u, Some b) \<Rightarrow> u_store u b | _ \<Rightarrow> None, store_members us ms (member_frame fs)) of
             (Some a, Some n) \<Rightarrow> Some (a @ n) | _ \<Rightarrow> None)
      | _ \<Rightarrow> None)"

definition message_load ::
  "users \<Rightarrow> (val \<Rightarrow> val \<Rightarrow> bool) \<Rightarrow> user option \<Rightarrow> (var_type \<times> string) list \<Rightarrow> val \<Rightarrow> bytes \<Rightarrow> val load_result" where
  "message_load us lt base ms v bs =
     (case v of
        VObject b fs \<Rightarrow>
          bind_load
            (case (base, b) of
               (None, _) \<Rightarrow> Loaded b bs
             | (Some u, Some b) \<Rightarrow> bind_load (u_load u b bs) (\<lambda>b bs. Loaded (Some b) bs)
             | _ \<Rightarrow> IllTyped)
            (\<lambda>b bs. bind_load (load_members us lt ms (member_frame fs) bs) (\<lambda>f bs.
               Loaded (VObject b (map (\<lambda>(x, _). (x, the (snd f x))) fs)) bs))
      | _ \<Rightarrow> IllTyped)"

definition message_user :: "users \<Rightarrow> (val \<Rightarrow> val \<Rightarrow> bool) \<Rightarrow> user option \<Rightarrow> (var_type \<times> string) list \<Rightarrow> user" where
  "message_user us lt base ms =
     \<lparr>u_ok = message_ok us lt base ms,
      u_fresh = VObject (map_option u_fresh base) (map (\<lambda>(t, x). (x, fresh_val us t)) ms),
      u_size = message_size us base ms,
      u_store = message_store us base ms,
      u_load = message_load us lt base ms\<rparr>"

text \<open>The named types a parse tree declares, in the order of its statements.\<close>

fun declare_stmt :: "(val \<Rightarrow> val \<Rightarrow> bool) \<Rightarrow> stmt \<Rightarrow> users \<Rightarrow> users" where
  "declare_stmt lt (Typedef t x) us = us(x \<mapsto> typedef_user us lt t)"
| "declare_stmt lt (Message n parent seq ds) us =
     us(n \<mapsto> message_user us lt (if parent = [] then None else us parent) (members ds))"
| "declare_stmt lt (Enum n es) us = us(n \<mapsto> enum_user (enum_members es))"
| "declare_stmt lt _ us = us"

definition unit_users :: "(val \<Rightarrow> val \<Rightarrow> bool) \<Rightarrow> stmt list \<Rightarrow> users" where
  "unit_users lt stmts = fold (declare_stmt lt) stmts Map.empty"

section \<open>The wire format\<close>

fun wire :: "users \<Rightarrow> var_type \<Rightarrow> val \<Rightarrow> bytes" where
  "wire us (UserDefineType n) v = the (u_store (the (us n)) v)"
| "wire us (PrimitiveType p) (VPrim bs) = bs"
| "wire us StringType (VString s) = le_bytes 4 (length s) @ s"
| "wire us (ListType e) (VSeq xs) = le_bytes 4 (length xs) @ concat (map (wire us e) xs)"
| "wire us (ArrayType e) (VSeq xs) = le_bytes 4 (length xs) @ concat (map (wire us e) xs)"
| "wire us (MapType k e) (VMap m) = le_bytes 4 (length m) @ concat (map (\<lambda>(a, b). wire us k a @ wire us e b) m)"
| "wire us (StaticArrayType e cnt) (VArray xs) = concat (map (wire us e) xs)"
| "wire us _ _ = []"

text \<open>What a named type promises of a value: it is stored, its size is the size of what is stored, and a fresh object
  loads it back.\<close>

definition serializes :: "user \<Rightarrow> val \<Rightarrow> bool" where
  "serializes u v \<longleftrightarrow> (\<exists>b. u_store u v = Some b \<and> u_size u v = Some (length b) \<and>
     (\<forall>rest. u_load u (u_fresh u) (b @ rest) = Loaded v rest))"

definition users_ok :: "users \<Rightarrow> bool" where
  "users_ok us \<longleftrightarrow> (\<forall>n u v. us n = Some u \<longrightarrow> u_ok u v \<longrightarrow> serializes u v)"

text \<open>The types whose code compiles: static arrays only as members, of primitives, strings or named types. The names of
  primitives are keywords.\<close>

fun elmt_type :: "users \<Rightarrow> var_type \<Rightarrow> bool" where
  "elmt_type us (PrimitiveType p) = True"
| "elmt_type us StringType = True"
| "elmt_type us (UserDefineType n) = (us n \<noteq> None \<and> cpp_symbol n = None)"
| "elmt_type us (ListType e) = elmt_type us e"
| "elmt_type us (ArrayType e) = elmt_type us e"
| "elmt_type us (MapType k e) = (elmt_type us k \<and> elmt_type us e)"
| "elmt_type us (StaticArrayType e cnt) = False"

fun simple_type :: "var_type \<Rightarrow> bool" where
  "simple_type (PrimitiveType p) = True"
| "simple_type StringType = True"
| "simple_type (UserDefineType n) = True"
| "simple_type _ = False"

fun member_type :: "users \<Rightarrow> var_type \<Rightarrow> bool" where
  "member_type us (StaticArrayType e cnt) = (simple_type e \<and> elmt_type us e)"
| "member_type us t = elmt_type us t"

end
