(* ===== verification/Idl_Wire_Correct.thy ===== *)
theory Idl_Wire_Correct
  imports Idl_Wire
begin

text \<open>
  The code of the C++ generator stores the wire format, counts its bytes exactly and loads it back: first for a variable
  of any type that compiles, by induction on the type, then for the members of a message and for every named type of a
  parse tree. The conditions are stated as predicates on the tree: \<open>stmt_ok\<close> asks that no member has the name of a
  local variable that the code declares for another one.
\<close>

section \<open>Frames and loops\<close>

lemma get_declare [simp]: "get y (declare_local x v f) = (if y = x then Some v else get y f)"
  by (simp add: get_def declare_local_def cong: option.case_cong)

lemma get_put [simp]: "get y (put x v f) = (if y = x then Some v else get y f)"
  by (auto simp: get_def put_def cong: option.case_cong)

lemma get_declare_size [simp]: "get y (declare_size x n f) = (if y = x then Some (VPrim (le_bytes 8 n)) else get y f)"
  by (simp add: declare_size_def)

declare le_bytes_numeral [simp del]

lemma traverse_map: "(\<And>x. x \<in> set xs \<Longrightarrow> f x = Some (g x)) \<Longrightarrow> traverse f xs = Some (map g xs)"
  by (induction xs) auto

lemma stored_count [simp]: "stored_count n = le_bytes 4 n"
  by (simp add: stored_count_def le_bytes_numeral)

lemma load_count_stored [simp]:
  "n < 2 ^ 32 \<Longrightarrow> load_count v f (le_bytes 4 n @ rest) = Loaded (n, declare_local (v @ ''_length'') (VPrim (le_bytes 4 n)) f) rest"
  by (simp add: load_count_def)

lemma suffix_neq: "length a = length b \<Longrightarrow> a \<noteq> b \<Longrightarrow> xs @ a \<noteq> ys @ b"
  by simp

lemma load_loop_list:
  assumes "\<And>f done e todo rest. whole = done @ e # todo \<Longrightarrow> I f done \<Longrightarrow>
      \<exists>f'. body (length done) f (w e @ rest) = Loaded f' rest \<and> I f' (done @ [e])"
  shows "whole = done @ xs \<Longrightarrow> I f done \<Longrightarrow>
    \<exists>f'. load_loop (length done) (length xs) body f (concat (map w xs) @ rest) = Loaded f' rest \<and> I f' whole"
proof (induction xs arbitrary: "done" f)
  case (Cons e xs)
  obtain f1 where "body (length done) f (w e @ (concat (map w xs) @ rest)) = Loaded f1 (concat (map w xs) @ rest)"
    and "I f1 (done @ [e])"
    using assms [OF Cons.prems, of "concat (map w xs) @ rest"] by blast
  moreover obtain f' where "load_loop (length (done @ [e])) (length xs) body f1 (concat (map w xs) @ rest) = Loaded f' rest" "I f' whole"
    using Cons.IH [of "done @ [e]" f1] Cons.prems(1) calculation(2) by auto
  ultimately show ?case by auto
qed simp

section \<open>A variable\<close>

lemma primitive_elmt:
  assumes "elmt_type us t" and "\<not> declares_reference t"
  obtains p where "t = PrimitiveType p"
  using assms by (cases t) (auto simp: declares_reference_def cpp_symbol_def all_primitives_def)

lemma users_ok_serializes: "users_ok us \<Longrightarrow> us n = Some u \<Longrightarrow> u_ok u v \<Longrightarrow> serializes u v"
  by (simp add: users_ok_def)

text \<open>The element reference that \<open>Size\<close> leaves out for primitives is not needed there.\<close>

lemma run_size_reference:
  assumes "elmt_type us t" and "val_ok us lt t v"
    and "\<And>f. get y f = Some v \<Longrightarrow> run_size us t y f = Some (length (wire us t v))"
  shows "run_size us t y (if declares_reference t then declare_local y v f else f) = Some (length (wire us t v))"
proof (cases "declares_reference t")
  case True
  then show ?thesis using assms(3) [of "declare_local y v f"] by simp
next
  case False
  obtain p where "t = PrimitiveType p" using assms(1) False by (rule primitive_elmt)
  then show ?thesis using assms(2) by (auto split: val.splits)
qed

lemma run_size_elmt:
  "users_ok us \<Longrightarrow> elmt_type us t \<Longrightarrow> val_ok us lt t v \<Longrightarrow> get x f = Some v \<Longrightarrow> run_size us t x f = Some (length (wire us t v))"
proof (induction t arbitrary: x f v)
  case (PrimitiveType p)
  then show ?case by (auto split: val.splits)
next
  case StringType
  then show ?case by (auto split: val.splits)
next
  case (UserDefineType n)
  then show ?case by (auto simp: serializes_def split: option.splits dest!: users_ok_serializes)
next
  case (ListType e)
  from ListType.prems obtain xs where v: "v = VSeq xs" and xs: "\<And>y. y \<in> set xs \<Longrightarrow> val_ok us lt e y"
    by (auto simp: list_all_iff split: val.splits)
  have ok: "elmt_type us e" using ListType.prems by simp
  have "traverse (\<lambda>elmt. run_size us e (x @ ''_elmt'')
      (if declares_reference e then declare_local (x @ ''_elmt'') elmt f else f)) xs = Some (map (\<lambda>y. length (wire us e y)) xs)"
    by (intro traverse_map run_size_reference) (use ListType ok xs in auto)
  then show ?case using ListType.prems v by (simp add: length_concat comp_def)
next
  case (ArrayType e)
  from ArrayType.prems obtain xs where v: "v = VSeq xs" and xs: "\<And>y. y \<in> set xs \<Longrightarrow> val_ok us lt e y"
    by (auto simp: list_all_iff split: val.splits)
  have ok: "elmt_type us e" using ArrayType.prems by simp
  have "traverse (\<lambda>elmt. run_size us e (x @ ''_elmt'')
      (if declares_reference e then declare_local (x @ ''_elmt'') elmt f else f)) xs = Some (map (\<lambda>y. length (wire us e y)) xs)"
    by (intro traverse_map run_size_reference) (use ArrayType ok xs in auto)
  then show ?case using ArrayType.prems v by (simp add: length_concat comp_def)
next
  case (MapType k e)
  from MapType.prems obtain m where v: "v = VMap m"
      and m: "\<And>a b. (a, b) \<in> set m \<Longrightarrow> val_ok us lt k a \<and> val_ok us lt e b"
    by (auto simp: list_all_iff split: val.splits)
  have ok: "elmt_type us k" "elmt_type us e" using MapType.prems by simp_all
  have "traverse (\<lambda>(key, elmt).
      let f = (if declares_reference k then declare_local (x @ ''_key'') key f else f);
          f = declare_local (x @ ''_elmt'') elmt f
      in case (run_size us k (x @ ''_key'') f, run_size us e (x @ ''_elmt'') f) of
           (Some a, Some b) \<Rightarrow> Some (a + b) | _ \<Rightarrow> None) m
    = Some (map (\<lambda>(a, b). length (wire us k a) + length (wire us e b)) m)"
  proof (intro traverse_map)
    fix y assume y: "y \<in> set m"
    obtain a b where ab: "y = (a, b)" by (cases y)
    let ?f = "declare_local (x @ ''_elmt'') b (if declares_reference k then declare_local (x @ ''_key'') a f else f)"
    have "run_size us k (x @ ''_key'') ?f = Some (length (wire us k a))"
    proof (cases "declares_reference k")
      case True
      then show ?thesis using MapType.IH(1) [OF MapType.prems(1) ok(1), of a "x @ ''_key''" ?f] m y ab by simp
    next
      case False
      obtain p where "k = PrimitiveType p" using ok(1) False by (rule primitive_elmt)
      moreover have "val_ok us lt k a" using m y ab by blast
      ultimately show ?thesis by (cases a) simp_all
    qed
    moreover have "run_size us e (x @ ''_elmt'') ?f = Some (length (wire us e b))"
      using MapType.IH(2) [OF MapType.prems(1) ok(2), of b "x @ ''_elmt''" ?f] m y ab by simp
    ultimately show "(case y of (key, elmt) \<Rightarrow>
      let f = (if declares_reference k then declare_local (x @ ''_key'') key f else f);
          f = declare_local (x @ ''_elmt'') elmt f
      in case (run_size us k (x @ ''_key'') f, run_size us e (x @ ''_elmt'') f) of
           (Some a, Some b) \<Rightarrow> Some (a + b) | _ \<Rightarrow> None) =
      Some (case y of (a, b) \<Rightarrow> length (wire us k a) + length (wire us e b))" using ab by simp
  qed
  then show ?case using MapType.prems v by (simp add: length_concat comp_def split_def)
qed simp

text \<open>The names of the local variables that the code for \<open>x\<close> leaves declared.\<close>

definition declared_names :: "string \<Rightarrow> string set" where
  "declared_names x = {x @ ''_size'', ReplaceSpecialChar x @ ''_size'', x @ ''_length''}"

definition keeps :: "string set \<Rightarrow> frame \<Rightarrow> frame \<Rightarrow> bool" where
  "keeps A f f' \<longleftrightarrow> (\<forall>y. y \<notin> A \<longrightarrow> get y f' = get y f)"

lemma keeps_refl [simp]: "keeps A f f"
  by (simp add: keeps_def)

lemma keeps_get: "keeps A f f' \<Longrightarrow> y \<notin> A \<Longrightarrow> get y f' = get y f"
  by (simp add: keeps_def)

lemma keeps_trans: "keeps A f f' \<Longrightarrow> keeps B f' f'' \<Longrightarrow> keeps (A \<union> B) f f''"
  by (simp add: keeps_def)

lemma keeps_mono: "keeps A f f' \<Longrightarrow> A \<subseteq> B \<Longrightarrow> keeps B f f'"
  by (auto simp: keeps_def)

lemma length_ReplaceSpecialChar [simp]: "length (ReplaceSpecialChar x) = length x"
proof -
  have "length (replace_first a b cs) = length cs" for a b cs by (induction cs) auto
  then show ?thesis by (simp add: ReplaceSpecialChar_def)
qed

lemma not_declared [simp]:
  "x @ ''_elmt'' \<notin> declared_names y" "x @ ''_key'' \<notin> declared_names y" "x @ ''_val'' \<notin> declared_names y"
  by (auto simp: declared_names_def dest!: arg_cong [of _ _ last])

lemma not_declared_self [simp]: "x \<notin> declared_names (x @ z)" "x \<notin> declared_names x"
  by (auto simp: declared_names_def dest!: arg_cong [of _ _ length])

lemma run_store_elmt:
  "users_ok us \<Longrightarrow> elmt_type us t \<Longrightarrow> val_ok us lt t v \<Longrightarrow> get x f = Some v \<Longrightarrow>
   \<exists>f'. run_store us t x f = Some (f', wire us t v) \<and> keeps (declared_names x) f f'"
proof (induction t arbitrary: x f v)
  case (PrimitiveType p)
  then show ?case by (cases v) (auto simp del: split_paired_Ex)
next
  case StringType
  then show ?case by (cases v) (auto simp: keeps_def declared_names_def simp del: split_paired_Ex)
next
  case (UserDefineType n)
  then show ?case
    by (auto simp: serializes_def split: option.splits dest!: users_ok_serializes simp del: split_paired_Ex)
next
  case (ListType e)
  from ListType.prems obtain xs where v: "v = VSeq xs" and xs: "\<And>y. y \<in> set xs \<Longrightarrow> val_ok us lt e y"
    by (auto simp: list_all_iff split: val.splits)
  have ok: "elmt_type us e" using ListType.prems by simp
  have "traverse (\<lambda>elmt. map_option snd (run_store us e (x @ ''_elmt'') (declare_local (x @ ''_elmt'') elmt g))) xs
      = Some (map (wire us e) xs)" for g
  proof (rule traverse_map)
    fix y assume "y \<in> set xs"
    with ListType.IH [OF ListType.prems(1) ok, of y "x @ ''_elmt''" "declare_local (x @ ''_elmt'') y g"] xs
    show "map_option snd (run_store us e (x @ ''_elmt'') (declare_local (x @ ''_elmt'') y g)) = Some (wire us e y)" by auto
  qed
  then show ?case using ListType.prems v by (auto simp: Let_def keeps_def declared_names_def)
next
  case (ArrayType e)
  from ArrayType.prems obtain xs where v: "v = VSeq xs" and xs: "\<And>y. y \<in> set xs \<Longrightarrow> val_ok us lt e y"
    by (auto simp: list_all_iff split: val.splits)
  have ok: "elmt_type us e" using ArrayType.prems by simp
  have "traverse (\<lambda>elmt. map_option snd (run_store us e (x @ ''_elmt'') (declare_local (x @ ''_elmt'') elmt g))) xs
      = Some (map (wire us e) xs)" for g
  proof (rule traverse_map)
    fix y assume "y \<in> set xs"
    with ArrayType.IH [OF ArrayType.prems(1) ok, of y "x @ ''_elmt''" "declare_local (x @ ''_elmt'') y g"] xs
    show "map_option snd (run_store us e (x @ ''_elmt'') (declare_local (x @ ''_elmt'') y g)) = Some (wire us e y)" by auto
  qed
  then show ?case using ArrayType.prems v by (auto simp: Let_def keeps_def declared_names_def)
next
  case (MapType k e)
  from MapType.prems obtain m where v: "v = VMap m"
      and m: "\<And>a b. (a, b) \<in> set m \<Longrightarrow> val_ok us lt k a \<and> val_ok us lt e b"
    by (auto simp: list_all_iff split: val.splits)
  have ok: "elmt_type us k" "elmt_type us e" using MapType.prems by simp_all
  have "traverse (\<lambda>(key, elmt).
      let f = declare_local (x @ ''_elmt'') elmt (declare_local (x @ ''_key'') key g)
      in case run_store us k (x @ ''_key'') f of
           None \<Rightarrow> None
         | Some (f, a) \<Rightarrow> map_option (\<lambda>(f, b). a @ b) (run_store us e (x @ ''_elmt'') f)) m
    = Some (map (\<lambda>(a, b). wire us k a @ wire us e b) m)" for g
  proof (rule traverse_map)
    fix y assume y: "y \<in> set m"
    obtain a b where ab: "y = (a, b)" by (cases y)
    let ?f = "declare_local (x @ ''_elmt'') b (declare_local (x @ ''_key'') a g)"
    obtain f1 where f1: "run_store us k (x @ ''_key'') ?f = Some (f1, wire us k a)" "keeps (declared_names (x @ ''_key'')) ?f f1"
      using MapType.IH(1) [OF MapType.prems(1) ok(1), of a "x @ ''_key''" ?f] m y ab by auto
    have "get (x @ ''_elmt'') f1 = Some b" using keeps_get [OF f1(2), of "x @ ''_elmt''"] by simp
    then obtain f2 where "run_store us e (x @ ''_elmt'') f1 = Some (f2, wire us e b)"
      using MapType.IH(2) [OF MapType.prems(1) ok(2), of b "x @ ''_elmt''" f1] m y ab by auto
    with f1(1) show "(case y of (key, elmt) \<Rightarrow>
      let f = declare_local (x @ ''_elmt'') elmt (declare_local (x @ ''_key'') key g)
      in case run_store us k (x @ ''_key'') f of
           None \<Rightarrow> None
         | Some (f, a) \<Rightarrow> map_option (\<lambda>(f, b). a @ b) (run_store us e (x @ ''_elmt'') f)) =
      Some (case y of (a, b) \<Rightarrow> wire us k a @ wire us e b)" using ab by simp
  qed
  then show ?case using MapType.prems v by (auto simp: Let_def keeps_def declared_names_def)
qed simp

text \<open>Inserting the entries of a sorted map in order builds it up.\<close>

lemma map_insert_last:
  "\<forall>(a, b)\<in>set m. lt a k \<and> \<not> lt k a \<Longrightarrow> map_insert lt k e m = m @ [(k, e)]"
  by (induction m) auto

definition loading :: "string \<Rightarrow> frame \<Rightarrow> ('a \<Rightarrow> val) \<Rightarrow> frame \<Rightarrow> 'a \<Rightarrow> bool" where
  "loading x f C f' xs \<longleftrightarrow> get x f' = Some (C xs) \<and> keeps {x} f f'"

lemma loading_put: "loading x f C f' xs \<Longrightarrow> loading x f C (put x (C ys) f') ys"
  by (simp add: loading_def keeps_def)

lemma fresh_get: "get x (declare_local x v f) = Some v"
  by simp

text \<open>The loop that appends elements.\<close>

definition seq_body :: "users \<Rightarrow> (val \<Rightarrow> val \<Rightarrow> bool) \<Rightarrow> var_type \<Rightarrow> string \<Rightarrow> nat \<Rightarrow> frame \<Rightarrow> bytes \<Rightarrow> frame load_result" where
  "seq_body us lt e x i f bs =
     bind_load (run_load us lt e (x @ ''_val'') (declare_local (x @ ''_val'') (fresh_val us e) f) bs) (\<lambda>f1 bs.
       case (get x f, get (x @ ''_val'') f1) of
         (Some (VSeq xs), Some y) \<Rightarrow> Loaded (put x (VSeq (xs @ [y])) f) bs
       | _ \<Rightarrow> IllTyped)"

lemma load_seq:
  assumes elmt: "\<And>y g rest. y \<in> set xs \<Longrightarrow> get (x @ ''_val'') g = Some (fresh_val us e) \<Longrightarrow>
      \<exists>f'. run_load us lt e (x @ ''_val'') g (wire us e y @ rest) = Loaded f' rest \<and> get (x @ ''_val'') f' = Some y"
    and "get x f = Some (VSeq old)"
  shows "\<exists>f'. load_loop 0 (length xs) (seq_body us lt e x) f (concat (map (wire us e) xs) @ rest) = Loaded f' rest
    \<and> get x f' = Some (VSeq (old @ xs)) \<and> keeps {x} f f'"
proof -
  let ?I = "\<lambda>f' done. loading x f (\<lambda>ys. VSeq (old @ ys)) f' done"
  have "\<exists>f'. load_loop (length ([] :: val list)) (length xs) (seq_body us lt e x) f (concat (map (wire us e) xs) @ rest) = Loaded f' rest \<and> ?I f' xs"
  proof (rule load_loop_list [where whole = xs and I = ?I])
    fix f1 "done" y todo rest
    assume split: "xs = done @ y # todo" and inv: "?I f1 done"
    obtain f2 where "run_load us lt e (x @ ''_val'') (declare_local (x @ ''_val'') (fresh_val us e) f1) (wire us e y @ rest) = Loaded f2 rest"
      "get (x @ ''_val'') f2 = Some y"
      using elmt [OF _ fresh_get, of y f1 rest] split by auto
    then have "seq_body us lt e x (length done) f1 (wire us e y @ rest) = Loaded (put x (VSeq (old @ done @ [y])) f1) rest"
      using inv by (simp add: seq_body_def loading_def)
    then show "\<exists>f'. seq_body us lt e x (length done) f1 (wire us e y @ rest) = Loaded f' rest \<and> ?I f' (done @ [y])"
      using loading_put [OF inv, of "done @ [y]"] by blast
  qed (use assms(2) in \<open>simp_all add: loading_def\<close>)
  then show ?thesis by (simp add: loading_def)
qed

text \<open>The loop that inserts entries.\<close>

definition map_body :: "users \<Rightarrow> (val \<Rightarrow> val \<Rightarrow> bool) \<Rightarrow> var_type \<Rightarrow> var_type \<Rightarrow> string \<Rightarrow> nat \<Rightarrow> frame \<Rightarrow> bytes \<Rightarrow> frame load_result" where
  "map_body us lt k e x i f bs =
     bind_load (run_load us lt k (x @ ''_key'') (declare_local (x @ ''_key'') (fresh_val us k) f) bs) (\<lambda>f1 bs.
     bind_load (run_load us lt e (x @ ''_val'') (declare_local (x @ ''_val'') (fresh_val us e) f1) bs) (\<lambda>f2 bs.
     case (get x f, get (x @ ''_key'') f2, get (x @ ''_val'') f2) of
       (Some (VMap m), Some key, Some elmt) \<Rightarrow> Loaded (put x (VMap (map_insert lt key elmt m)) f) bs
     | _ \<Rightarrow> IllTyped))"

lemma load_map:
  assumes key: "\<And>a b g rest. (a, b) \<in> set m \<Longrightarrow> get (x @ ''_key'') g = Some (fresh_val us k) \<Longrightarrow>
      \<exists>f'. run_load us lt k (x @ ''_key'') g (wire us k a @ rest) = Loaded f' rest \<and> get (x @ ''_key'') f' = Some a"
    and elmt: "\<And>a b g rest. (a, b) \<in> set m \<Longrightarrow> get (x @ ''_val'') g = Some (fresh_val us e) \<Longrightarrow>
      \<exists>f'. run_load us lt e (x @ ''_val'') g (wire us e b @ rest) = Loaded f' rest \<and> get (x @ ''_val'') f' = Some b
        \<and> get (x @ ''_key'') f' = get (x @ ''_key'') g"
    and sorted: "sorted_wrt (\<lambda>a b. lt a b \<and> \<not> lt b a) (map fst m)" and "get x f = Some (VMap [])"
  shows "\<exists>f'. load_loop 0 (length m) (map_body us lt k e x) f (concat (map (\<lambda>(a, b). wire us k a @ wire us e b) m) @ rest) = Loaded f' rest
    \<and> get x f' = Some (VMap m) \<and> keeps {x} f f'"
proof -
  let ?I = "loading x f VMap" and ?w = "\<lambda>(a, b). wire us k a @ wire us e b"
  have "\<exists>f'. load_loop (length ([] :: (val \<times> val) list)) (length m) (map_body us lt k e x) f (concat (map ?w m) @ rest) = Loaded f' rest \<and> ?I f' m"
  proof (rule load_loop_list [where whole = m and I = ?I])
    fix f1 "done" y todo rest
    assume split: "m = done @ y # todo" and inv: "?I f1 done"
    obtain a b where ab: "y = (a, b)" by (cases y)
    then have mem: "(a, b) \<in> set m" using split by simp
    obtain f2 where f2: "run_load us lt k (x @ ''_key'') (declare_local (x @ ''_key'') (fresh_val us k) f1) (wire us k a @ (wire us e b @ rest))
        = Loaded f2 (wire us e b @ rest)" "get (x @ ''_key'') f2 = Some a"
      using key [OF mem fresh_get] by blast
    obtain f3 where f3: "run_load us lt e (x @ ''_val'') (declare_local (x @ ''_val'') (fresh_val us e) f2) (wire us e b @ rest) = Loaded f3 rest"
        "get (x @ ''_val'') f3 = Some b" "get (x @ ''_key'') f3 = Some a"
      using elmt [OF mem fresh_get, of f2 rest] f2(2) by auto
    have "\<forall>(a', b')\<in>set done. lt a' a \<and> \<not> lt a a'"
      using sorted split ab by (auto simp: sorted_wrt_append)
    then have "map_body us lt k e x (length done) f1 (?w y @ rest) = Loaded (put x (VMap (done @ [y])) f1) rest"
      using inv f2 f3 ab by (simp add: map_body_def loading_def map_insert_last)
    then show "\<exists>f'. map_body us lt k e x (length done) f1 (?w y @ rest) = Loaded f' rest \<and> ?I f' (done @ [y])"
      using loading_put [OF inv, of "done @ [y]"] by blast
  qed (use assms(4) in \<open>simp_all add: loading_def\<close>)
  then show ?thesis by (simp add: loading_def)
qed

lemma run_load_seq:
  "run_load us lt (ListType e) x f bs = bind_load (load_count x f bs) (\<lambda>(n, f) bs. load_loop 0 n (seq_body us lt e x) f bs)"
  "run_load us lt (ArrayType e) x f bs = bind_load (load_count x f bs) (\<lambda>(n, f) bs. load_loop 0 n (seq_body us lt e x) f bs)"
  unfolding seq_body_def [abs_def] by simp_all

lemma run_load_map:
  "run_load us lt (MapType k e) x f bs = bind_load (load_count x f bs) (\<lambda>(n, f) bs. load_loop 0 n (map_body us lt k e x) f bs)"
  unfolding map_body_def [abs_def] by simp

lemma keeps_loaded: "keeps {x} (declare_local (x @ ''_length'') w f) f' \<Longrightarrow> keeps (insert x (declared_names x)) f f'"
  by (auto simp: keeps_def declared_names_def)

lemma run_load_elmt:
  "users_ok us \<Longrightarrow> elmt_type us t \<Longrightarrow> val_ok us lt t v \<Longrightarrow> get x f = Some (fresh_val us t) \<Longrightarrow>
   \<exists>f'. run_load us lt t x f (wire us t v @ rest) = Loaded f' rest \<and> get x f' = Some v \<and> keeps (insert x (declared_names x)) f f'"
proof (induction t arbitrary: x f v rest)
  case (PrimitiveType p)
  then show ?case by (cases v) (auto simp: keeps_def simp del: split_paired_Ex)
next
  case StringType
  then show ?case by (cases v) (auto simp: keeps_def declared_names_def simp del: split_paired_Ex)
next
  case (UserDefineType n)
  then obtain u where u: "us n = Some u" "serializes u v" by (auto split: option.splits dest: users_ok_serializes)
  then show ?case using UserDefineType.prems(4) by (auto simp: serializes_def keeps_def simp del: split_paired_Ex)
next
  case (ListType e)
  from ListType.prems obtain xs where v: "v = VSeq xs" and len: "length xs < 2 ^ 32" and xs: "\<And>y. y \<in> set xs \<Longrightarrow> val_ok us lt e y"
    by (auto simp: list_all_iff split: val.splits)
  have ok: "elmt_type us e" using ListType.prems by simp
  let ?f = "declare_local (x @ ''_length'') (VPrim (le_bytes 4 (length xs))) f"
  have "\<exists>f'. load_loop 0 (length xs) (seq_body us lt e x) ?f (concat (map (wire us e) xs) @ rest) = Loaded f' rest
      \<and> get x f' = Some (VSeq ([] @ xs)) \<and> keeps {x} ?f f'"
  proof (rule load_seq)
    fix y g rest
    assume "y \<in> set xs" and "get (x @ ''_val'') g = Some (fresh_val us e)"
    then show "\<exists>f'. run_load us lt e (x @ ''_val'') g (wire us e y @ rest) = Loaded f' rest \<and> get (x @ ''_val'') f' = Some y"
      using ListType.IH [OF ListType.prems(1) ok xs] by blast
  qed (use ListType.prems in simp)
  then show ?case using v len by (auto simp: run_load_seq dest: keeps_loaded simp del: run_load.simps split_paired_Ex)
next
  case (ArrayType e)
  from ArrayType.prems obtain xs where v: "v = VSeq xs" and len: "length xs < 2 ^ 32" and xs: "\<And>y. y \<in> set xs \<Longrightarrow> val_ok us lt e y"
    by (auto simp: list_all_iff split: val.splits)
  have ok: "elmt_type us e" using ArrayType.prems by simp
  let ?f = "declare_local (x @ ''_length'') (VPrim (le_bytes 4 (length xs))) f"
  have "\<exists>f'. load_loop 0 (length xs) (seq_body us lt e x) ?f (concat (map (wire us e) xs) @ rest) = Loaded f' rest
      \<and> get x f' = Some (VSeq ([] @ xs)) \<and> keeps {x} ?f f'"
  proof (rule load_seq)
    fix y g rest
    assume "y \<in> set xs" and "get (x @ ''_val'') g = Some (fresh_val us e)"
    then show "\<exists>f'. run_load us lt e (x @ ''_val'') g (wire us e y @ rest) = Loaded f' rest \<and> get (x @ ''_val'') f' = Some y"
      using ArrayType.IH [OF ArrayType.prems(1) ok xs] by blast
  qed (use ArrayType.prems in simp)
  then show ?case using v len by (auto simp: run_load_seq dest: keeps_loaded simp del: run_load.simps split_paired_Ex)
next
  case (MapType k e)
  from MapType.prems obtain m where v: "v = VMap m" and len: "length m < 2 ^ 32"
      and m: "\<And>a b. (a, b) \<in> set m \<Longrightarrow> val_ok us lt k a \<and> val_ok us lt e b"
      and sorted: "sorted_wrt (\<lambda>a b. lt a b \<and> \<not> lt b a) (map fst m)"
    by (auto simp: list_all_iff split: val.splits)
  have ok: "elmt_type us k" "elmt_type us e" using MapType.prems by simp_all
  let ?f = "declare_local (x @ ''_length'') (VPrim (le_bytes 4 (length m))) f"
  have "\<exists>f'. load_loop 0 (length m) (map_body us lt k e x) ?f (concat (map (\<lambda>(a, b). wire us k a @ wire us e b) m) @ rest) = Loaded f' rest
      \<and> get x f' = Some (VMap m) \<and> keeps {x} ?f f'"
  proof (rule load_map)
    fix a b g rest
    assume "(a, b) \<in> set m"
    note ab = m [OF this]
    show "\<exists>f'. run_load us lt k (x @ ''_key'') g (wire us k a @ rest) = Loaded f' rest \<and> get (x @ ''_key'') f' = Some a"
      if "get (x @ ''_key'') g = Some (fresh_val us k)"
      using MapType.IH(1) [OF MapType.prems(1) ok(1) _ that] ab by blast
    show "\<exists>f'. run_load us lt e (x @ ''_val'') g (wire us e b @ rest) = Loaded f' rest \<and> get (x @ ''_val'') f' = Some b
        \<and> get (x @ ''_key'') f' = get (x @ ''_key'') g"
      if fresh: "get (x @ ''_val'') g = Some (fresh_val us e)"
    proof -
      have new: "x @ ''_key'' \<notin> insert (x @ ''_val'') (declared_names (x @ ''_val''))" by simp
      obtain f' where f': "run_load us lt e (x @ ''_val'') g (wire us e b @ rest) = Loaded f' rest" "get (x @ ''_val'') f' = Some b"
        and keep: "keeps (insert (x @ ''_val'') (declared_names (x @ ''_val''))) g f'"
        using MapType.IH(2) [OF MapType.prems(1) ok(2) _ fresh] ab by blast
      show ?thesis using f' keeps_get [OF keep new] by blast
    qed
  qed (use sorted MapType.prems in simp_all)
  then show ?case using v len by (auto simp: run_load_map dest: keeps_loaded simp del: run_load.simps split_paired_Ex)
qed simp

section \<open>A member\<close>

lemma primitive_val:
  "val_ok us lt (PrimitiveType p) x \<Longrightarrow>
   prim_memory x = wire us (PrimitiveType p) x \<and> length (wire us (PrimitiveType p) x) = prim_sizeof p \<and> VPrim (wire us (PrimitiveType p) x) = x"
  by (cases x) simp_all

lemma static_primitive:
  assumes "\<forall>x\<in>set xs. val_ok us lt (PrimitiveType p) x"
  shows "map prim_memory xs = map (wire us (PrimitiveType p)) xs" and "length (concat (map (wire us (PrimitiveType p)) xs)) = prim_sizeof p * length xs"
proof -
  have "\<forall>x\<in>set xs. prim_memory x = wire us (PrimitiveType p) x \<and> length (wire us (PrimitiveType p) x) = prim_sizeof p"
    using assms primitive_val by blast
  then show "map prim_memory xs = map (wire us (PrimitiveType p)) xs"
    and "length (concat (map (wire us (PrimitiveType p)) xs)) = prim_sizeof p * length xs"
    by (auto, induction xs) auto
qed

lemma raw_array_concat:
  assumes "\<forall>x\<in>set xs. length x = n"
  shows "raw_array n (length xs) (concat xs @ rest) = VArray (map VPrim xs)"
proof -
  have "take n (drop (i * n) (concat xs @ rest)) = xs ! i" if "i < length xs" for i
    using assms that
  proof (induction xs arbitrary: i)
    case (Cons x xs)
    then show ?case by (cases i) (auto simp: add.commute)
  qed simp
  then show ?thesis by (auto simp: raw_array_def intro: nth_equalityI)
qed

lemma run_size_member:
  assumes "users_ok us" and "member_type us t" and "val_ok us lt t v" and "get x f = Some v"
  shows "run_size us t x f = Some (length (wire us t v))"
proof (cases "\<exists>e cnt. t = StaticArrayType e cnt")
  case False
  then have "elmt_type us t" using assms(2) by (cases t) auto
  then show ?thesis using assms run_size_elmt by blast
next
  case True
  then obtain e cnt where t: "t = StaticArrayType e cnt" by blast
  then obtain xs where v: "v = VArray xs" "length xs = c_number cnt" and xs: "\<forall>y\<in>set xs. val_ok us lt e y"
    using assms(3) by (auto simp: list_all_iff split: val.splits)
  have e: "elmt_type us e" using t assms(2) by simp
  show ?thesis
  proof (cases "\<exists>p. e = PrimitiveType p")
    case True
    then obtain p where p: "e = PrimitiveType p" by blast
    with static_primitive(2) [of xs us lt p] xs t v show ?thesis by simp
  next
    case False
    have "traverse (\<lambda>y. run_size us e (x @ ''[i]'') (declare_local (x @ ''[i]'') y f)) xs = Some (map (\<lambda>y. length (wire us e y)) xs)"
      using xs by (intro traverse_map run_size_elmt [OF assms(1) e]) auto
    then show ?thesis using t v False assms(4) by (auto simp: length_concat comp_def split: var_type.splits)
  qed
qed

lemma run_store_member:
  assumes "users_ok us" and "member_type us t" and "val_ok us lt t v" and "get x f = Some v"
  shows "\<exists>f'. run_store us t x f = Some (f', wire us t v) \<and> keeps (declared_names x) f f'"
proof (cases "\<exists>e cnt. t = StaticArrayType e cnt")
  case False
  then have "elmt_type us t" using assms(2) by (cases t) auto
  then show ?thesis using assms run_store_elmt by blast
next
  case True
  then obtain e cnt where t: "t = StaticArrayType e cnt" by blast
  then obtain xs where v: "v = VArray xs" "length xs = c_number cnt" and xs: "\<forall>y\<in>set xs. val_ok us lt e y"
    using assms(3) by (auto simp: list_all_iff split: val.splits)
  have e: "elmt_type us e" using t assms(2) by simp
  have "run_store us t x f = Some (f, wire us t v)"
  proof (cases "\<exists>p. e = PrimitiveType p")
    case True
    then obtain p where p: "e = PrimitiveType p" by blast
    note mem = static_primitive [OF xs [unfolded p]]
    have "concat (map prim_memory xs) = concat (map (wire us (PrimitiveType p)) xs)" using mem(1) by (rule arg_cong)
    then show ?thesis using t v p mem(2) assms(4) by (simp add: Let_def)
  next
    case False
    have "traverse (\<lambda>y. map_option snd (run_store us e (x @ ''[i]'') (declare_local (x @ ''[i]'') y f))) xs = Some (map (wire us e) xs)"
    proof (rule traverse_map)
      fix y assume "y \<in> set xs"
      then obtain f' where "run_store us e (x @ ''[i]'') (declare_local (x @ ''[i]'') y f) = Some (f', wire us e y)"
        using run_store_elmt [OF assms(1) e _ fresh_get, of lt y "x @ ''[i]''" f] xs by blast
      then show "map_option snd (run_store us e (x @ ''[i]'') (declare_local (x @ ''[i]'') y f)) = Some (wire us e y)" by simp
    qed
    then show ?thesis using t v False assms(4) by (auto split: var_type.splits)
  qed
  then show ?thesis by (intro exI [of _ f]) simp
qed

definition static_body :: "users \<Rightarrow> (val \<Rightarrow> val \<Rightarrow> bool) \<Rightarrow> var_type \<Rightarrow> string \<Rightarrow> nat \<Rightarrow> frame \<Rightarrow> bytes \<Rightarrow> frame load_result" where
  "static_body us lt e x i f bs =
     bind_load (run_load us lt e (x @ ''_val'') (declare_local (x @ ''_val'') (fresh_val us e) f) bs) (\<lambda>f1 bs.
       case (get x f, get (x @ ''_val'') f1) of
         (Some (VArray xs), Some y) \<Rightarrow> if i < length xs then Loaded (put x (VArray (xs[i := y])) f) bs else IllTyped
       | _ \<Rightarrow> IllTyped)"

lemma run_load_static:
  assumes "\<And>p. e \<noteq> PrimitiveType p"
  shows "run_load us lt (StaticArrayType e cnt) x f bs = load_loop 0 (c_number cnt) (static_body us lt e x) f bs"
  using assms unfolding static_body_def [abs_def] by (cases e) auto

lemma load_static:
  assumes elmt: "\<And>y g rest. y \<in> set xs \<Longrightarrow> get (x @ ''_val'') g = Some (fresh_val us e) \<Longrightarrow>
      \<exists>f'. run_load us lt e (x @ ''_val'') g (wire us e y @ rest) = Loaded f' rest \<and> get (x @ ''_val'') f' = Some y"
    and "get x f = Some (VArray (replicate (length xs) d))"
  shows "\<exists>f'. load_loop 0 (length xs) (static_body us lt e x) f (concat (map (wire us e) xs) @ rest) = Loaded f' rest
    \<and> get x f' = Some (VArray xs) \<and> keeps {x} f f'"
proof -
  let ?C = "\<lambda>ys. VArray (ys @ replicate (length xs - length ys) d)"
  let ?I = "loading x f ?C"
  have "\<exists>f'. load_loop (length ([] :: val list)) (length xs) (static_body us lt e x) f (concat (map (wire us e) xs) @ rest) = Loaded f' rest \<and> ?I f' xs"
  proof (rule load_loop_list [where whole = xs and I = ?I])
    fix f1 "done" y todo rest
    assume split: "xs = done @ y # todo" and inv: "?I f1 done"
    obtain f2 where "run_load us lt e (x @ ''_val'') (declare_local (x @ ''_val'') (fresh_val us e) f1) (wire us e y @ rest) = Loaded f2 rest"
      "get (x @ ''_val'') f2 = Some y"
      using elmt [OF _ fresh_get, of y f1 rest] split by auto
    then have "static_body us lt e x (length done) f1 (wire us e y @ rest) = Loaded (put x (?C (done @ [y])) f1) rest"
      using inv split by (simp add: static_body_def loading_def list_update_append)
    then show "\<exists>f'. static_body us lt e x (length done) f1 (wire us e y @ rest) = Loaded f' rest \<and> ?I f' (done @ [y])"
      using loading_put [OF inv, of "done @ [y]"] by blast
  qed (use assms(2) in \<open>simp_all add: loading_def\<close>)
  then show ?thesis by (simp add: loading_def)
qed

lemma run_load_member:
  assumes "users_ok us" and "member_type us t" and "val_ok us lt t v" and "get x f = Some (fresh_val us t)"
  shows "\<exists>f'. run_load us lt t x f (wire us t v @ rest) = Loaded f' rest \<and> get x f' = Some v \<and> keeps (insert x (declared_names x)) f f'"
proof (cases "\<exists>e cnt. t = StaticArrayType e cnt")
  case False
  then have "elmt_type us t" using assms(2) by (cases t) auto
  then show ?thesis using assms run_load_elmt by blast
next
  case True
  then obtain e cnt where t: "t = StaticArrayType e cnt" by blast
  then obtain xs where v: "v = VArray xs" "length xs = c_number cnt" and xs: "\<forall>y\<in>set xs. val_ok us lt e y"
    using assms(3) by (auto simp: list_all_iff split: val.splits)
  have e: "elmt_type us e" using t assms(2) by simp
  have "\<exists>f'. run_load us lt t x f (wire us t v @ rest) = Loaded f' rest \<and> get x f' = Some v \<and> keeps {x} f f'"
  proof (cases "\<exists>p. e = PrimitiveType p")
    case True
    then obtain p where p: "e = PrimitiveType p" by blast
    let ?w = "map (wire us (PrimitiveType p)) xs"
    have "\<forall>y\<in>set xs. VPrim (wire us (PrimitiveType p) y) = y \<and> length (wire us (PrimitiveType p) y) = prim_sizeof p"
      using xs p primitive_val by blast
    then have "raw_array (prim_sizeof p) (length ?w) (concat ?w @ rest) = VArray xs"
      by (subst raw_array_concat) (auto simp: map_idI)
    moreover have "length (concat ?w) = prim_sizeof p * c_number cnt" using static_primitive(2) xs p v(2) by metis
    ultimately show ?thesis using t p v by (auto simp: Let_def keeps_def simp del: split_paired_Ex)
  next
    case False
    have "\<exists>f'. load_loop 0 (length xs) (static_body us lt e x) f (concat (map (wire us e) xs) @ rest) = Loaded f' rest
        \<and> get x f' = Some (VArray xs) \<and> keeps {x} f f'"
    proof (rule load_static [where d = "fresh_val us e"])
      fix y g rest
      assume "y \<in> set xs" and "get (x @ ''_val'') g = Some (fresh_val us e)"
      then show "\<exists>f'. run_load us lt e (x @ ''_val'') g (wire us e y @ rest) = Loaded f' rest \<and> get (x @ ''_val'') f' = Some y"
        using run_load_elmt [OF assms(1) e] xs by blast
    qed (use assms(4) t v in simp)
    then show ?thesis using t v False run_load_static [of e us lt cnt x] by simp
  qed
  then show ?thesis using keeps_mono [of "{x}"] by blast
qed

text \<open>Loading declares no other local variables.\<close>

lemma load_loop_keeps:
  assumes "\<And>i s bs s' r. body i s bs = Loaded s' r \<Longrightarrow> P s \<Longrightarrow> P s'"
  shows "load_loop i n body s bs = Loaded s' r \<Longrightarrow> P s \<Longrightarrow> P s'"
proof (induction n arbitrary: i s bs)
  case (Suc n)
  from Suc.prems(1) obtain s1 r1 where "body i s bs = Loaded s1 r1" "load_loop (i + 1) n body s1 r1 = Loaded s' r"
    by (cases "body i s bs") auto
  with Suc assms show ?case by blast
qed simp

lemma bind_loadE:
  assumes "bind_load r k = Loaded y bs"
  obtains x b where "r = Loaded x b" "k x b = Loaded y bs"
  using assms by (cases r) auto

definition locals_of :: "frame \<Rightarrow> string set" where
  "locals_of f = dom (fst f)"

lemma locals_put [simp]: "locals_of (put x v f) = locals_of f"
  by (auto simp: put_def locals_of_def)

lemma locals_declare [simp]: "locals_of (declare_local x v f) = insert x (locals_of f)"
  by (simp add: declare_local_def locals_of_def)

lemma seq_body_locals: "seq_body us lt e x i f bs = Loaded f' r \<Longrightarrow> locals_of f' = locals_of f"
  unfolding seq_body_def by (elim bind_loadE) (auto split: option.split_asm val.split_asm)

lemma map_body_locals: "map_body us lt k e x i f bs = Loaded f' r \<Longrightarrow> locals_of f' = locals_of f"
  unfolding map_body_def by (elim bind_loadE) (auto split: option.split_asm val.split_asm)

lemma static_body_locals: "static_body us lt e x i f bs = Loaded f' r \<Longrightarrow> locals_of f' = locals_of f"
  unfolding static_body_def by (elim bind_loadE) (auto split: option.split_asm val.split_asm if_split_asm)

lemma load_loop_locals:
  assumes "\<And>i f bs f' r. body i f bs = Loaded f' r \<Longrightarrow> locals_of f' = locals_of f"
    and "load_loop i n body f bs = Loaded f' r"
  shows "locals_of f' = locals_of f"
  by (rule load_loop_keeps [of body "\<lambda>g. locals_of g = locals_of f", OF _ assms(2)]) (use assms(1) in simp_all)

lemma load_count_locals: "load_count x f bs = Loaded (n, f') r \<Longrightarrow> locals_of f' = insert (x @ ''_length'') (locals_of f)"
  by (simp add: load_count_def split: if_split_asm) (metis locals_declare)

lemma load_counted_locals:
  assumes "bind_load (load_count x f bs) (\<lambda>(n, f) bs. load_loop 0 n body f bs) = Loaded f' r"
    and "\<And>i f bs f' r. body i f bs = Loaded f' r \<Longrightarrow> locals_of f' = locals_of f"
  shows "locals_of f' \<subseteq> locals_of f \<union> declared_names x"
proof -
  from assms(1) obtain n f1 b where "load_count x f bs = Loaded (n, f1) b" and loop: "load_loop 0 n body f1 b = Loaded f' r"
    by (elim bind_loadE) auto
  then have "locals_of f1 = insert (x @ ''_length'') (locals_of f)" by (simp add: load_count_locals)
  moreover have "locals_of f' = locals_of f1" by (rule load_loop_locals [OF assms(2) loop])
  ultimately show ?thesis by (auto simp: declared_names_def)
qed

lemma run_load_locals:
  assumes "run_load us lt t x f bs = Loaded f' r"
  shows "locals_of f' \<subseteq> locals_of f \<union> declared_names x"
proof (cases t)
  case (PrimitiveType p)
  with assms show ?thesis by (auto simp: Let_def split: if_split_asm option.split_asm val.split_asm)
next
  case StringType
  with assms obtain n f1 b where "load_count x f bs = Loaded (n, f1) b"
      and f': "(if length b < n then Refused else case get x f1 of Some (VString _) \<Rightarrow> Loaded (put x (VString (take n b)) f1) (drop n b)
        | _ \<Rightarrow> IllTyped) = Loaded f' r"
    by (auto elim!: bind_loadE)
  then have "locals_of f1 = insert (x @ ''_length'') (locals_of f)" by (simp add: load_count_locals)
  moreover have "locals_of f' = locals_of f1" using f' by (auto split: if_split_asm option.split_asm val.split_asm)
  ultimately show ?thesis by (auto simp: declared_names_def)
next
  case (UserDefineType n)
  with assms show ?thesis by (auto elim!: bind_loadE split: option.split_asm)
next
  case (ListType e)
  show ?thesis by (rule load_counted_locals [OF assms [unfolded ListType run_load_seq] seq_body_locals])
next
  case (ArrayType e)
  show ?thesis by (rule load_counted_locals [OF assms [unfolded ArrayType run_load_seq] seq_body_locals])
next
  case (MapType k e)
  show ?thesis by (rule load_counted_locals [OF assms [unfolded MapType run_load_map] map_body_locals])
next
  case (StaticArrayType e cnt)
  show ?thesis
  proof (cases "\<exists>p. e = PrimitiveType p")
    case True
    with assms StaticArrayType show ?thesis by (auto simp: Let_def split: if_split_asm)
  next
    case False
    with assms StaticArrayType have loop: "load_loop 0 (c_number cnt) (static_body us lt e x) f bs = Loaded f' r"
      using run_load_static [of e us lt cnt x f bs] by simp
    have "locals_of f' = locals_of f" by (rule load_loop_locals [OF static_body_locals loop])
    then show ?thesis by simp
  qed
qed

section \<open>Messages\<close>

definition no_capture :: "string set \<Rightarrow> bool" where
  "no_capture A \<longleftrightarrow> (\<forall>x\<in>A. \<forall>y\<in>A. y \<notin> declared_names x)"

type_synonym member_value = "(var_type \<times> string) \<times> val"

abbreviation names_of :: "member_value list \<Rightarrow> string set" where
  "names_of mvs \<equiv> snd ` fst ` set mvs"

definition wires :: "users \<Rightarrow> member_value list \<Rightarrow> bytes" where
  "wires us mvs = concat (map (\<lambda>((t, x), v). wire us t v) mvs)"

definition members_typed :: "users \<Rightarrow> (val \<Rightarrow> val \<Rightarrow> bool) \<Rightarrow> member_value list \<Rightarrow> bool" where
  "members_typed us lt mvs \<longleftrightarrow> (\<forall>((t, x), v)\<in>set mvs. member_type us t \<and> val_ok us lt t v)"

lemma size_members_typed:
  assumes "users_ok us" and "members_typed us lt mvs" and "\<forall>((t, x), v)\<in>set mvs. get x f = Some v"
  shows "size_members us (map fst mvs) f = Some (length (wires us mvs))"
proof -
  have "traverse (\<lambda>(t, x). run_size us t x f) (map fst mvs) = Some (map (\<lambda>((t, x), v). length (wire us t v)) mvs)"
    using assms(2, 3)
  proof (induction mvs)
    case (Cons y mvs)
    then show ?case using run_size_member [OF assms(1)] by (auto simp: members_typed_def split: prod.splits)
  qed simp
  then show ?thesis by (simp add: size_members_def wires_def length_concat comp_def split_def)
qed

lemma store_members_typed:
  assumes "users_ok us"
  shows "members_typed us lt mvs \<Longrightarrow> no_capture (names_of mvs) \<Longrightarrow> (\<forall>((t, x), v)\<in>set mvs. get x f = Some v) \<Longrightarrow>
    store_members us (map fst mvs) f = Some (wires us mvs)"
proof (induction mvs arbitrary: f)
  case (Cons y mvs)
  obtain t x v where y: "y = ((t, x), v)" by (metis surj_pair)
  obtain f' where f': "run_store us t x f = Some (f', wire us t v)" and keep: "keeps (declared_names x) f f'"
    using run_store_member [OF assms, of t lt v x f] Cons.prems y by (auto simp: members_typed_def)
  have "\<forall>((t, z), w)\<in>set mvs. get z f' = Some w"
  proof (clarify)
    fix t' z w assume m: "((t', z), w) \<in> set mvs"
    then have "z \<notin> declared_names x" using Cons.prems(2) y by (force simp: no_capture_def)
    then show "get z f' = Some w" using keeps_get [OF keep] Cons.prems(3) m by force
  qed
  then have "store_members us (map fst mvs) f' = Some (wires us mvs)"
    using Cons.prems by (intro Cons.IH) (auto simp: members_typed_def no_capture_def)
  then show ?case using f' y by (simp add: wires_def)
qed (simp add: wires_def)

lemma load_members_typed:
  assumes "users_ok us"
  shows "members_typed us lt mvs \<Longrightarrow> no_capture (names_of mvs) \<Longrightarrow> distinct (map (snd \<circ> fst) mvs) \<Longrightarrow>
    (\<forall>((t, x), v)\<in>set mvs. get x f = Some (fresh_val us t)) \<Longrightarrow>
    \<exists>f'. load_members us lt (map fst mvs) f (wires us mvs @ rest) = Loaded f' rest
      \<and> (\<forall>((t, x), v)\<in>set mvs. get x f' = Some v)
      \<and> keeps (names_of mvs \<union> \<Union> (declared_names ` names_of mvs)) f f'
      \<and> locals_of f' \<subseteq> locals_of f \<union> \<Union> (declared_names ` names_of mvs)"
proof (induction mvs arbitrary: f)
  case (Cons y mvs)
  obtain t x v where y: "y = ((t, x), v)" by (metis surj_pair)
  let ?A = "names_of mvs" and ?r = "wires us mvs @ rest"
  obtain f1 where f1: "run_load us lt t x f (wire us t v @ ?r) = Loaded f1 ?r" "get x f1 = Some v"
      and keep1: "keeps (insert x (declared_names x)) f f1"
    using run_load_member [OF assms, of t lt v x f ?r] Cons.prems y by (auto simp: members_typed_def)
  have new: "x \<notin> ?A" using Cons.prems(3) y by (simp add: image_image)
  have fresh: "\<forall>((t, z), w)\<in>set mvs. get z f1 = Some (fresh_val us t)"
  proof (clarify)
    fix t' z w assume m: "((t', z), w) \<in> set mvs"
    have z: "z \<in> ?A" using m by force
    then have "z \<noteq> x" using new by blast
    moreover have "z \<notin> declared_names x" using Cons.prems(2) z y by (auto simp: no_capture_def)
    ultimately have "z \<notin> insert x (declared_names x)" by simp
    then show "get z f1 = Some (fresh_val us t')" using keeps_get [OF keep1] Cons.prems(4) m by force
  qed
  obtain f' where f': "load_members us lt (map fst mvs) f1 ?r = Loaded f' rest" "\<forall>((t, x), v)\<in>set mvs. get x f' = Some v"
      and keep2: "keeps (?A \<union> \<Union> (declared_names ` ?A)) f1 f'"
      and loc2: "locals_of f' \<subseteq> locals_of f1 \<union> \<Union> (declared_names ` ?A)"
    using Cons.IH [of f1] Cons.prems fresh by (auto simp: members_typed_def no_capture_def)
  have "x \<notin> ?A \<union> \<Union> (declared_names ` ?A)"
    using new Cons.prems(2) y by (auto simp: no_capture_def)
  then have "get x f' = Some v" using keeps_get [OF keep2] f1(2) by simp
  moreover have "keeps (insert x (declared_names x) \<union> (?A \<union> \<Union> (declared_names ` ?A))) f f'"
    by (rule keeps_trans [OF keep1 keep2])
  moreover have "locals_of f' \<subseteq> locals_of f \<union> declared_names x \<union> \<Union> (declared_names ` ?A)"
    using run_load_locals [OF f1(1)] loc2 by blast
  ultimately show ?case using f1(1) f' y
    by (auto simp: wires_def elim!: keeps_mono intro!: exI [of _ f'] simp del: split_paired_Ex)
qed (simp add: wires_def)

text \<open>The members of an object with their values.\<close>

lemma message_members:
  assumes types: "\<forall>(t, x)\<in>set ms. member_type us t" and dist: "distinct (map snd ms)" and ok: "message_ok us lt base ms (VObject b fs)"
  shows "map fst (zip ms (map snd fs)) = ms" and "members_typed us lt (zip ms (map snd fs))"
    and "fs = map (\<lambda>((t, x), w). (x, w)) (zip ms (map snd fs))"
    and "\<forall>((t, x), w)\<in>set (zip ms (map snd fs)). get x (member_frame fs) = Some w"
proof -
  let ?mvs = "zip ms (map snd fs)"
  have names: "map fst fs = map snd ms" using ok by (simp add: message_ok_def)
  then have len: "length fs = length ms" by (metis length_map)
  then show fst_mvs: "map fst ?mvs = ms" by simp
  show "members_typed us lt ?mvs"
    using ok types by (auto simp: message_ok_def members_typed_def list_all_iff dest: set_zip_leftD)
  show fs: "fs = map (\<lambda>((t, x), w). (x, w)) ?mvs"
  proof (rule nth_equalityI)
    fix i assume i: "i < length fs"
    then have "fst (fs ! i) = snd (ms ! i)" using arg_cong [OF names, of "\<lambda>l. l ! i"] len by simp
    then show "fs ! i = map (\<lambda>((t, x), w). (x, w)) ?mvs ! i" using i len by (simp add: split_def prod_eq_iff)
  qed (simp add: len)
  have "map_of fs x = Some w" if "((t, x), w) \<in> set ?mvs" for t x w
  proof -
    have "(x, w) \<in> set fs" by (subst fs) (use that in force)
    then show ?thesis using dist names by (metis map_of_is_SomeI)
  qed
  then show "\<forall>((t, x), w)\<in>set ?mvs. get x (member_frame fs) = Some w"
    by (auto simp: get_def member_frame_def)
qed

lemma message_serializes:
  assumes "users_ok us" and base: "\<And>u b. base = Some u \<Longrightarrow> u_ok u b \<Longrightarrow> serializes u b"
    and types: "\<forall>(t, x)\<in>set ms. member_type us t" and "distinct (map snd ms)" and "no_capture (snd ` set ms)"
    and "message_ok us lt base ms v"
  shows "serializes (message_user us lt base ms) v"
proof -
  obtain b fs where v: "v = VObject b fs" using assms(6) by (cases v) (simp_all add: message_ok_def)
  define mvs where "mvs = zip ms (map snd fs)"
  note members = message_members [OF types assms(4) assms(6) [unfolded v], folded mvs_def]
  have fst_mvs: "map fst mvs = ms" and typed: "members_typed us lt mvs" and fs: "fs = map (\<lambda>((t, x), w). (x, w)) mvs"
    and frame: "\<forall>((t, x), w)\<in>set mvs. get x (member_frame fs) = Some w" by (fact members)+
  have xs: "map (snd \<circ> fst) mvs = map snd ms" unfolding fst_mvs [symmetric] by simp
  have set_names: "names_of mvs = snd ` set ms" using fst_mvs by (metis list.set_map)
  have dist: "distinct (map (snd \<circ> fst) mvs)" using assms(4) xs by simp
  have captures: "no_capture (names_of mvs)" using assms(5) set_names by simp
  have store: "store_members us ms (member_frame fs) = Some (wires us mvs)"
    using store_members_typed [OF assms(1) typed captures frame] fst_mvs by simp
  have size: "size_members us ms (member_frame fs) = Some (length (wires us mvs))"
    using size_members_typed [OF assms(1) typed frame] fst_mvs by simp
  let ?fresh = "map (\<lambda>(t, x). (x, fresh_val us t)) ms"
  have fresh: "map_of ?fresh x = Some (fresh_val us t)" if "(t, x) \<in> set ms" for t x
  proof (rule map_of_is_SomeI)
    have "map fst ?fresh = map snd ms" by (simp add: split_def)
    then show "distinct (map fst ?fresh)" using assms(4) by (simp only:)
    show "(x, fresh_val us t) \<in> set ?fresh" using that by force
  qed
  have fresh_frame: "\<forall>((t, x), w)\<in>set mvs. get x (member_frame ?fresh) = Some (fresh_val us t)"
  proof (clarify)
    fix t x w assume "((t, x), w) \<in> set mvs"
    then have "(t, x) \<in> set (map fst mvs)" by force
    then show "get x (member_frame ?fresh) = Some (fresh_val us t)" using fresh fst_mvs by (simp add: get_def member_frame_def)
  qed
  have load: "bind_load (load_members us lt ms (member_frame ?fresh) (wires us mvs @ rest))
      (\<lambda>f bs. Loaded (VObject b' (map (\<lambda>(x, _). (x, the (snd f x))) ?fresh)) bs) = Loaded (VObject b' fs) rest" for b' rest
  proof -
    obtain f' where f': "load_members us lt ms (member_frame ?fresh) (wires us mvs @ rest) = Loaded f' rest"
      and vals': "\<forall>((t, x), w)\<in>set mvs. get x f' = Some w"
      and locals: "locals_of f' \<subseteq> locals_of (member_frame ?fresh) \<union> \<Union> (declared_names ` names_of mvs)"
      using load_members_typed [OF assms(1) typed captures dist fresh_frame, of rest] fst_mvs by auto
    have "the (snd f' x) = w" if m: "((t, x), w) \<in> set mvs" for t x w
    proof -
      have "x \<in> names_of mvs" using m by force
      then have "x \<notin> \<Union> (declared_names ` names_of mvs)" using captures unfolding no_capture_def by blast
      moreover have "locals_of (member_frame ?fresh) = {}" by (simp add: locals_of_def member_frame_def)
      ultimately have "x \<notin> locals_of f'" using locals by blast
      then have "fst f' x = None" by (simp add: locals_of_def domIff)
      moreover have "get x f' = Some w" using vals' m by force
      ultimately show ?thesis by (simp add: get_def)
    qed
    then have "map (\<lambda>(x, _). (x, the (snd f' x))) ?fresh = fs"
      unfolding fs fst_mvs [symmetric] by (auto simp: split_def)
    then show ?thesis using f' by simp
  qed
  show ?thesis
  proof (cases base)
    case None
    with assms(6) v have "b = None" by (auto simp: message_ok_def split: option.splits)
    with None v store size load show ?thesis
      by (simp add: serializes_def message_user_def message_store_def message_size_def message_load_def)
  next
    case (Some u)
    with assms(6) v obtain b0 where b0: "b = Some b0" "u_ok u b0" by (auto simp: message_ok_def split: option.splits)
    then obtain c where c: "u_store u b0 = Some c" "u_size u b0 = Some (length c)" "\<And>rest. u_load u (u_fresh u) (c @ rest) = Loaded b0 rest"
      using base [OF Some b0(2)] by (auto simp: serializes_def)
    show ?thesis
      using Some v store size load [of _ "Some b0"] b0 c
      by (simp add: serializes_def message_user_def message_store_def message_size_def message_load_def)
  qed
qed

section \<open>Parse trees\<close>

text \<open>No member has the name of a parameter or of the loop variable of the functions written for it, and the enumerators
  fit an \<open>int\<close>.\<close>

definition parameter_names :: "string list" where
  "parameter_names = [''_buf_'', ''nSize'', ''i'']"

fun stmt_ok :: "users \<Rightarrow> stmt \<Rightarrow> bool" where
  "stmt_ok us (Typedef t x) = elmt_type us t"
| "stmt_ok us (Message n parent seq ds) =
     ((parent = [] \<or> us parent \<noteq> None) \<and> (\<forall>(t, x)\<in>set (members ds). member_type us t) \<and>
      distinct (map snd (members ds)) \<and> no_capture (snd ` set (members ds)) \<and>
      (\<forall>x\<in>set parameter_names. x \<notin> snd ` set (members ds)))"
| "stmt_ok us (Enum n es) = (\<forall>(x, k)\<in>set (enum_members es). c_number k + length es < 2 ^ 31)"
| "stmt_ok us _ = True"

fun stmts_ok :: "(val \<Rightarrow> val \<Rightarrow> bool) \<Rightarrow> users \<Rightarrow> stmt list \<Rightarrow> bool" where
  "stmts_ok lt us [] = True"
| "stmts_ok lt us (s # ss) = (stmt_ok us s \<and> stmts_ok lt (declare_stmt lt s us) ss)"

lemma enum_serializes: "u_ok (enum_user es) v \<Longrightarrow> serializes (enum_user es) v"
  by (cases v) (simp_all add: enum_user_def serializes_def)

lemma typedef_serializes:
  assumes "users_ok us" and "elmt_type us t" and "val_ok us lt t v"
  shows "serializes (typedef_user us lt t) v"
proof -
  have obj: "get ''obj'' (param_frame w) = Some w" for w by (simp add: get_def param_frame_def)
  obtain f' where "run_store us t ''obj'' (param_frame v) = Some (f', wire us t v)"
    using run_store_elmt [OF assms obj] by blast
  moreover have "run_size us t ''obj'' (param_frame v) = Some (length (wire us t v))"
    by (rule run_size_elmt [OF assms obj])
  moreover have "u_load (typedef_user us lt t) (fresh_val us t) (wire us t v @ rest) = Loaded v rest" for rest
  proof -
    obtain f' where "run_load us lt t ''obj'' (param_frame (fresh_val us t)) (wire us t v @ rest) = Loaded f' rest" "get ''obj'' f' = Some v"
      using run_load_elmt [OF assms obj] by blast
    then show ?thesis by (simp add: typedef_user_def)
  qed
  ultimately show ?thesis by (auto simp: serializes_def typedef_user_def)
qed

lemma users_ok_declare: "users_ok us \<Longrightarrow> stmt_ok us s \<Longrightarrow> users_ok (declare_stmt lt s us)"
proof (cases s)
  case (Message n parent seq ds)
  assume us: "users_ok us" and ok: "stmt_ok us s"
  define base where "base = (if parent = [] then None else us parent)"
  have types: "\<forall>(t, x)\<in>set (members ds). member_type us t" and dist: "distinct (map snd (members ds))"
    and captures: "no_capture (snd ` set (members ds))" using ok Message by auto
  have parent: "serializes u b" if "base = Some u" "u_ok u b" for u b
    using us that by (auto simp: base_def users_ok_def split: if_splits)
  have "serializes (message_user us lt base (members ds)) v" if "u_ok (message_user us lt base (members ds)) v" for v
    using that by (intro message_serializes [OF us parent types dist captures]) (simp_all add: message_user_def)
  then show ?thesis using us Message by (simp add: users_ok_def flip: base_def)
next
  case (Typedef t x)
  assume us: "users_ok us" and ok: "stmt_ok us s"
  have "serializes (typedef_user us lt t) v" if "u_ok (typedef_user us lt t) v" for v
    using that us ok Typedef by (intro typedef_serializes) (simp_all add: typedef_user_def)
  then show ?thesis using us Typedef by (simp add: users_ok_def)
next
  case (Enum n es)
  assume "users_ok us"
  then show ?thesis using Enum enum_serializes by (simp add: users_ok_def)
qed simp_all

lemma users_ok_fold: "stmts_ok lt us ss \<Longrightarrow> users_ok us \<Longrightarrow> users_ok (fold (declare_stmt lt) ss us)"
  by (induction ss arbitrary: us) (simp_all add: users_ok_declare)

lemma unit_users_ok: "stmts_ok lt Map.empty stmts \<Longrightarrow> users_ok (unit_users lt stmts)"
  unfolding unit_users_def by (rule users_ok_fold) (simp_all add: users_ok_def)


text \<open>A map of lists in a typedef, a base class, an enumeration and a static array.\<close>

definition demo_unit :: "stmt list" where
  "demo_unit =
    [Enum ''Rank'' [EnumElmt ''LOW'' ''1'', EnumElmt ''HIGH'' ''0x10''],
     Typedef (MapType (PrimitiveType P_uint16) (ListType StringType)) ''Names'',
     Message ''Base'' [] 0 [VarDecl (UserDefineType ''Rank'') ''rank''],
     Message ''Player'' ''Base'' 7 [VarDecl (UserDefineType ''Names'') ''names'', DeclComment,
       VarDecl (StaticArrayType (PrimitiveType P_byte) ''3'') ''tag'']]"

definition demo_less :: "val \<Rightarrow> val \<Rightarrow> bool" where
  "demo_less a b \<longleftrightarrow> le_val (prim_memory a) < le_val (prim_memory b)"

definition demo_player :: val where
  "demo_player = VObject (Some (VObject None [(''rank'', VPrim [16, 0, 0, 0])]))
     [(''names'', VMap [(VPrim [1, 0], VSeq [VString [65], VString []]), (VPrim [0, 1], VSeq [])]),
      (''tag'', VArray [VPrim [1], VPrim [2], VPrim [3]])]"

lemma demo_unit_ok: "stmts_ok demo_less Map.empty demo_unit"
  by (simp add: demo_unit_def no_capture_def declared_names_def parameter_names_def c_number_def number_value_def digit_value_def
      cpp_symbol_def all_primitives_def ReplaceSpecialChar_def)

lemma demo_player_ok: "unit_users demo_less demo_unit ''Player'' = Some u \<Longrightarrow> u_ok u demo_player"
  by (auto simp: demo_unit_def unit_users_def demo_player_def message_user_def message_ok_def enum_user_def typedef_user_def
      demo_less_def c_number_def number_value_def digit_value_def)


text \<open>A string member \<open>a\<close> makes the code declare \<open>a_size\<close>: a member of that name is never written, its place is taken
  by the length.\<close>

definition captured_unit :: "stmt list" where
  "captured_unit = [Message ''Captured'' [] 1 [VarDecl StringType ''a'', VarDecl (PrimitiveType P_uint32) ''a_size'']]"

text \<open>A member named after the local variable of another member is lost: what is stored does not depend on it.\<close>

theorem captured_member_not_stored:
  "\<exists>u. unit_users lt captured_unit ''Captured'' = Some u \<and> \<not> stmts_ok lt Map.empty captured_unit \<and>
     u_store u (VObject None [(''a'', VString s), (''a_size'', VPrim bs)]) = Some (le_bytes 4 (length s) @ s @ le_bytes 4 (length s))"
proof -
  have "\<not> stmts_ok lt Map.empty captured_unit"
    by (simp add: captured_unit_def no_capture_def declared_names_def)
  moreover have "store_members us [(StringType, ''a''), (PrimitiveType P_uint32, ''a_size'')]
      (member_frame [(''a'', VString s), (''a_size'', VPrim bs)]) = Some (le_bytes 4 (length s) @ s @ le_bytes 4 (length s))" for us
    by (simp add: member_frame_def get_def declare_size_def declare_local_def ReplaceSpecialChar_def) (simp add: stored_count_def le_bytes_numeral)
  ultimately show ?thesis
    by (simp add: unit_users_def captured_unit_def message_user_def message_store_def)
qed

text \<open>Loading into an object whose list is not empty appends to it.\<close>

theorem load_appends_to_list:
  assumes "users_ok us" and "elmt_type us e" and "length xs < 2 ^ 32" and "\<forall>y\<in>set xs. val_ok us lt e y" and "get x f = Some (VSeq old)"
  shows "\<exists>f'. run_load us lt (ListType e) x f (wire us (ListType e) (VSeq xs) @ rest) = Loaded f' rest \<and> get x f' = Some (VSeq (old @ xs))"
proof -
  let ?f = "declare_local (x @ ''_length'') (VPrim (le_bytes 4 (length xs))) f"
  have "\<exists>f'. load_loop 0 (length xs) (seq_body us lt e x) ?f (concat (map (wire us e) xs) @ rest) = Loaded f' rest
      \<and> get x f' = Some (VSeq (old @ xs)) \<and> keeps {x} ?f f'"
  proof (rule load_seq)
    fix y g rest
    assume "y \<in> set xs" and "get (x @ ''_val'') g = Some (fresh_val us e)"
    then show "\<exists>f'. run_load us lt e (x @ ''_val'') g (wire us e y @ rest) = Loaded f' rest \<and> get (x @ ''_val'') f' = Some y"
      using run_load_elmt [OF assms(1, 2)] assms(4) by blast
  qed (use assms(5) in simp)
  then show ?thesis using assms(3) by (auto simp: run_load_seq simp del: run_load.simps split_paired_Ex)
qed

theorem load_appends_to_list_witness:
  "\<exists>f'. run_load Map.empty demo_less (ListType (PrimitiveType P_byte)) ''xs'' (member_frame [(''xs'', VSeq [VPrim [1]])])
      (wire Map.empty (ListType (PrimitiveType P_byte)) (VSeq [VPrim [2]]) @ []) = Loaded f' [] \<and>
    get ''xs'' f' = Some (VSeq ([VPrim [1]] @ [VPrim [2]]))"
  by (rule load_appends_to_list) (simp_all add: users_ok_def get_def member_frame_def)

text \<open>The elements of a static array of primitives are read without looking at how many bytes are left.\<close>

theorem static_array_reads_past_input:
  assumes "length bs < prim_sizeof p * c_number cnt"
  shows "run_load us lt (StaticArrayType (PrimitiveType p) cnt) x f bs = Overread"
  using assms by (simp add: Let_def)

theorem static_array_reads_past_input_witness:
  "run_load Map.empty demo_less (StaticArrayType (PrimitiveType P_uint32) ''3'') ''ids'' (member_frame []) [1, 0, 0, 0] = Overread"
  by (rule static_array_reads_past_input) (simp add: c_number_def number_value_def digit_value_def)

end
