(* ===== verification/Idl_Load_Safe.thy ===== *)
theory Idl_Load_Safe
  imports Idl_Wire_Correct "HOL-Library.Sublist"
begin

text \<open>
  What the code of the C++ generator does with bytes it did not store itself: whatever arrives, \<open>Load\<close> either returns
  false or gives a value of the declared type and a rest of the input; it reads behind the input only in the code of a
  static array of primitives. By induction on the type, then for the members of a message and for every named type of a
  parse tree.
\<close>

section \<open>Safe results\<close>

text \<open>A load from \<open>bs\<close> is safe if what it gives satisfies \<open>P\<close> and it leaves an end of the input. \<open>raw\<close> says whether it
  may read behind the input.\<close>

fun load_safe :: "bool \<Rightarrow> ('a \<Rightarrow> bool) \<Rightarrow> bytes \<Rightarrow> 'a load_result \<Rightarrow> bool" where
  "load_safe raw P bs (Loaded x rest) = (P x \<and> suffix rest bs)"
| "load_safe raw P bs Refused = True"
| "load_safe raw P bs Overread = raw"
| "load_safe raw P bs IllTyped = False"

lemma load_safe_bind:
  assumes "load_safe raw P bs r" and "\<And>x rest. P x \<Longrightarrow> load_safe raw Q rest (k x rest)"
  shows "load_safe raw Q bs (bind_load r k)"
proof (cases r)
  case (Loaded x rest)
  then have "load_safe raw Q rest (k x rest)" and "suffix rest bs" using assms by simp_all
  then show ?thesis using Loaded by (cases "k x rest") (auto intro: suffix_order.trans)
qed (use assms(1) in auto)

lemma load_safe_mono: "load_safe raw P bs r \<Longrightarrow> (\<And>x. P x \<Longrightarrow> Q x) \<Longrightarrow> load_safe raw Q bs r"
  by (cases r) auto

lemma load_safe_raw: "load_safe False P bs r \<Longrightarrow> load_safe raw P bs r"
  by (cases r) auto

lemma load_safe_loop:
  assumes "\<And>j s rest. j < i + n \<Longrightarrow> I j s \<Longrightarrow> load_safe raw (I (j + 1)) rest (body j s rest)"
  shows "I i s \<Longrightarrow> load_safe raw (I (i + n)) bs (load_loop i n body s bs)"
  using assms
proof (induction n arbitrary: i s bs)
  case (Suc n)
  have "load_safe raw (I (i + 1)) bs (body i s bs)" using Suc.prems by simp
  moreover have "load_safe raw (I (i + Suc n)) rest (load_loop (i + 1) n body s' rest)" if "I (i + 1) s'" for s' rest
    using Suc.IH [OF that, of rest] Suc.prems(2) by simp
  ultimately show ?case by (simp add: load_safe_bind)
qed simp

lemma load_safe_count:
  "load_safe raw (\<lambda>(n, f'). n < 2 ^ 32 \<and> f' = declare_local (x @ ''_length'') (VPrim (le_bytes 4 n)) f) bs (load_count x f bs)"
proof (cases "length bs < 4")
  case False
  then have len: "length (take 4 bs) = 4" by simp
  then show ?thesis
    using le_val_less [of "take 4 bs"] le_bytes_le_val [of "take 4 bs"] by (simp add: load_count_def suffix_drop)
qed (simp add: load_count_def)

section \<open>A variable\<close>

text \<open>What is asked of the comparison of keys: a strict order. Inserting keeps a map sorted.\<close>

lemma map_insert_keys: "set (map_insert lt k e m) \<subseteq> insert (k, e) (set m)"
  by (induction m) (auto split: if_split_asm)

lemma map_insert_length: "length (map_insert lt k e m) \<le> Suc (length m)"
  by (induction m) auto

lemma map_insert_sorted:
  assumes "transp lt" and "asymp lt" and "sorted_wrt (\<lambda>a b. lt a b \<and> \<not> lt b a) (map fst m)"
  shows "sorted_wrt (\<lambda>a b. lt a b \<and> \<not> lt b a) (map fst (map_insert lt k e m))"
  using assms(3)
proof (induction m)
  case (Cons y m)
  have asym: "lt a b \<Longrightarrow> \<not> lt b a" for a b using assms(2) by (auto dest: asympD)
  have trans: "lt a b \<Longrightarrow> lt b c \<Longrightarrow> lt a c" for a b c using assms(1) by (rule transpD)
  obtain k' e' where y: "y = (k', e')" by (cases y)
  have above: "lt k' a \<and> \<not> lt a k'" if "a \<in> fst ` set m" for a using Cons.prems y that by auto
  have sorted: "sorted_wrt (\<lambda>a b. lt a b \<and> \<not> lt b a) (map fst m)" using Cons.prems y by simp
  consider "lt k k'" | "\<not> lt k k'" "lt k' k" | "\<not> lt k k'" "\<not> lt k' k" by blast
  then show ?case
  proof cases
    case 1
    have "lt k a \<and> \<not> lt a k" if "a \<in> fst ` set m" for a using trans [OF 1] asym above [OF that] by blast
    then show ?thesis using Cons.prems y 1 asym by auto
  next
    case 2
    have "lt k' a \<and> \<not> lt a k'" if "a \<in> fst ` set (map_insert lt k e m)" for a
    proof -
      have "a = k \<or> a \<in> fst ` set m" using map_insert_keys [of lt k e m] that by force
      then show ?thesis using above asym [OF 2(2)] 2(2) by blast
    qed
    then show ?thesis using Cons.IH [OF sorted] y 2 by auto
  next
    case 3
    then show ?thesis using Cons.prems y by simp
  qed
qed simp

definition users_safe :: "bool \<Rightarrow> users \<Rightarrow> bool" where
  "users_safe raw us \<longleftrightarrow> (\<forall>n u bs. us n = Some u \<longrightarrow> load_safe raw (u_ok u) bs (u_load u (u_fresh u) bs))"

text \<open>The variable holds a value of its type, and no variable but it and the locals of its code has changed.\<close>

definition loads_to :: "(val \<Rightarrow> bool) \<Rightarrow> string \<Rightarrow> frame \<Rightarrow> frame \<Rightarrow> bool" where
  "loads_to P x f f' \<longleftrightarrow> (\<exists>v. get x f' = Some v \<and> P v) \<and> keeps (insert x (declared_names x)) f f'"

text \<open>The loops change only the variable itself.\<close>

definition holds :: "(val \<Rightarrow> bool) \<Rightarrow> string \<Rightarrow> frame \<Rightarrow> frame \<Rightarrow> bool" where
  "holds P x f f' \<longleftrightarrow> (\<exists>v. get x f' = Some v \<and> P v) \<and> keeps {x} f f'"

lemma holds_put: "holds P x f f' \<Longrightarrow> Q v \<Longrightarrow> holds Q x f (put x v f')"
  by (simp add: holds_def keeps_def)

lemma holds_loads_to:
  "holds P x (declare_local (x @ ''_length'') w f) f' \<Longrightarrow> (\<And>v. P v \<Longrightarrow> Q v) \<Longrightarrow> loads_to Q x f f'"
  by (auto simp: holds_def loads_to_def dest: keeps_loaded)

lemma loads_to_get: "loads_to P x f f' \<Longrightarrow> y \<noteq> x \<Longrightarrow> y \<notin> declared_names x \<Longrightarrow> get y f' = get y f"
  unfolding loads_to_def using keeps_get by blast

text \<open>A loop whose count was read first.\<close>

lemma load_safe_counted:
  assumes "\<And>n g i s rest. n < 2 ^ 32 \<Longrightarrow> i < n \<Longrightarrow> holds (P i) x g s \<Longrightarrow>
      load_safe raw (holds (P (i + 1)) x g) rest (body i s rest)"
    and "get x f = Some v" and "P 0 v" and "\<And>n v. n < 2 ^ 32 \<Longrightarrow> P n v \<Longrightarrow> Q v"
  shows "load_safe raw (loads_to Q x f) bs (bind_load (load_count x f bs) (\<lambda>(n, f) bs. load_loop 0 n body f bs))"
proof (rule load_safe_bind [OF load_safe_count])
  fix p rest
  let ?g = "\<lambda>n. declare_local (x @ ''_length'') (VPrim (le_bytes 4 n)) f"
  assume "case p of (n, f') \<Rightarrow> n < 2 ^ 32 \<and> f' = ?g n"
  then obtain n where n: "n < 2 ^ 32" and p: "p = (n, ?g n)" by (cases p) auto
  have "load_safe raw (holds (P (0 + n)) x (?g n)) rest (load_loop 0 n body (?g n) rest)"
  proof (rule load_safe_loop)
    show "holds (P 0) x (?g n) (?g n)" using assms(2, 3) by (simp add: holds_def)
  qed (use assms(1) n in simp)
  then have "load_safe raw (loads_to Q x f) rest (load_loop 0 n body (?g n) rest)"
    by (rule load_safe_mono) (use assms(4) [OF n] in \<open>auto elim: holds_loads_to\<close>)
  then show "load_safe raw (loads_to Q x f) rest ((case p of (n, f) \<Rightarrow> \<lambda>bs. load_loop 0 n body f bs) rest)"
    using p by simp
qed

lemma load_safe_seq:
  assumes "\<And>g bs. get (x @ ''_val'') g = Some (fresh_val us e) \<Longrightarrow>
      load_safe raw (loads_to (val_ok us lt e) (x @ ''_val'') g) bs (run_load us lt e (x @ ''_val'') g bs)"
    and "get x f = Some (VSeq [])"
  shows "load_safe raw (loads_to (\<lambda>v. \<exists>xs. v = VSeq xs \<and> length xs < 2 ^ 32 \<and> list_all (val_ok us lt e) xs) x f) bs
    (bind_load (load_count x f bs) (\<lambda>(n, f) bs. load_loop 0 n (seq_body us lt e x) f bs))"
proof (rule load_safe_counted [where P = "\<lambda>i v. \<exists>xs. v = VSeq xs \<and> length xs = i \<and> list_all (val_ok us lt e) xs"])
  fix n i :: nat and g s rest
  assume inv: "holds (\<lambda>v. \<exists>xs. v = VSeq xs \<and> length xs = i \<and> list_all (val_ok us lt e) xs) x g s"
  then obtain xs where xs: "get x s = Some (VSeq xs)" "length xs = i" "list_all (val_ok us lt e) xs" by (auto simp: holds_def)
  show "load_safe raw (holds (\<lambda>v. \<exists>xs. v = VSeq xs \<and> length xs = i + 1 \<and> list_all (val_ok us lt e) xs) x g) rest
      (seq_body us lt e x i s rest)"
    unfolding seq_body_def
    by (rule load_safe_bind [OF assms(1) [OF fresh_get]]) (use xs holds_put [OF inv] in \<open>auto simp: loads_to_def\<close>)
qed (use assms(2) in auto)

lemma load_safe_map:
  assumes key: "\<And>g bs. get (x @ ''_key'') g = Some (fresh_val us k) \<Longrightarrow>
      load_safe raw (loads_to (val_ok us lt k) (x @ ''_key'') g) bs (run_load us lt k (x @ ''_key'') g bs)"
    and elmt: "\<And>g bs. get (x @ ''_val'') g = Some (fresh_val us e) \<Longrightarrow>
      load_safe raw (loads_to (val_ok us lt e) (x @ ''_val'') g) bs (run_load us lt e (x @ ''_val'') g bs)"
    and order: "transp lt" "asymp lt" and "get x f = Some (VMap [])"
  shows "load_safe raw (loads_to (val_ok us lt (MapType k e)) x f) bs
    (bind_load (load_count x f bs) (\<lambda>(n, f) bs. load_loop 0 n (map_body us lt k e x) f bs))"
proof (rule load_safe_counted [where P = "\<lambda>i v. \<exists>m. v = VMap m \<and> length m \<le> i \<and> val_ok us lt (MapType k e) v"])
  fix n i :: nat and g s rest
  assume n: "n < 2 ^ 32" "i < n" and inv: "holds (\<lambda>v. \<exists>m. v = VMap m \<and> length m \<le> i \<and> val_ok us lt (MapType k e) v) x g s"
  then obtain m where m: "get x s = Some (VMap m)" "length m \<le> i" "val_ok us lt (MapType k e) (VMap m)" by (auto simp: holds_def)
  have new: "val_ok us lt (MapType k e) (VMap (map_insert lt a b m))" "length (map_insert lt a b m) \<le> i + 1"
    if "val_ok us lt k a" "val_ok us lt e b" for a b
  proof -
    show len: "length (map_insert lt a b m) \<le> i + 1" using map_insert_length [of lt a b m] m(2) by simp
    have "list_all (\<lambda>(a, b). val_ok us lt k a \<and> val_ok us lt e b) (map_insert lt a b m)"
      using map_insert_keys [of lt a b m] m(3) that by (fastforce simp: list_all_iff)
    then show "val_ok us lt (MapType k e) (VMap (map_insert lt a b m))"
      using map_insert_sorted [OF order, of m a b] m(3) len n by simp
  qed
  have "load_safe raw (holds (\<lambda>v. \<exists>m. v = VMap m \<and> length m \<le> i + 1 \<and> val_ok us lt (MapType k e) v) x g) r1
      (bind_load (run_load us lt e (x @ ''_val'') (declare_local (x @ ''_val'') (fresh_val us e) f1) r1) (\<lambda>f2 bs.
        case (get x s, get (x @ ''_key'') f2, get (x @ ''_val'') f2) of
          (Some (VMap m), Some key, Some elmt) \<Rightarrow> Loaded (put x (VMap (map_insert lt key elmt m)) s) bs
        | _ \<Rightarrow> IllTyped))"
    if f1: "loads_to (val_ok us lt k) (x @ ''_key'') (declare_local (x @ ''_key'') (fresh_val us k) s) f1" for f1 r1
  proof (rule load_safe_bind [OF elmt [OF fresh_get]])
    fix f2 r2
    assume f2: "loads_to (val_ok us lt e) (x @ ''_val'') (declare_local (x @ ''_val'') (fresh_val us e) f1) f2"
    obtain a where a: "get (x @ ''_key'') f1 = Some a" "val_ok us lt k a" using f1 by (auto simp: loads_to_def)
    obtain b where b: "get (x @ ''_val'') f2 = Some b" "val_ok us lt e b" using f2 by (auto simp: loads_to_def)
    have "get (x @ ''_key'') f2 = Some a" using loads_to_get [OF f2, of "x @ ''_key''"] a by simp
    then show "load_safe raw (holds (\<lambda>v. \<exists>m. v = VMap m \<and> length m \<le> i + 1 \<and> val_ok us lt (MapType k e) v) x g) r2
      (case (get x s, get (x @ ''_key'') f2, get (x @ ''_val'') f2) of
          (Some (VMap m), Some key, Some elmt) \<Rightarrow> Loaded (put x (VMap (map_insert lt key elmt m)) s) r2
        | _ \<Rightarrow> IllTyped)"
      using m(1) b(1) new [OF a(2) b(2)] holds_put [OF inv, of "\<lambda>v. \<exists>m. v = VMap m \<and> length m \<le> i + 1 \<and> val_ok us lt (MapType k e) v"]
      by auto
  qed
  then show "load_safe raw (holds (\<lambda>v. \<exists>m. v = VMap m \<and> length m \<le> i + 1 \<and> val_ok us lt (MapType k e) v) x g) rest
      (map_body us lt k e x i s rest)"
    unfolding map_body_def by (rule load_safe_bind [OF key [OF fresh_get]])
qed (use assms(5) in auto)

lemma load_safe_elmt:
  "users_safe raw us \<Longrightarrow> transp lt \<Longrightarrow> asymp lt \<Longrightarrow> elmt_type us t \<Longrightarrow> get x f = Some (fresh_val us t) \<Longrightarrow>
   load_safe raw (loads_to (val_ok us lt t) x f) bs (run_load us lt t x f bs)"
proof (induction t arbitrary: x f bs)
  case (PrimitiveType p)
  then show ?case by (simp add: Let_def loads_to_def keeps_def suffix_drop)
next
  case StringType
  have "load_safe raw (loads_to (val_ok us lt StringType) x f) bs
      (bind_load (load_count x f bs) (\<lambda>(n, f) bs. if length bs < n then Refused
        else case get x f of Some (VString _) \<Rightarrow> Loaded (put x (VString (take n bs)) f) (drop n bs) | _ \<Rightarrow> IllTyped))"
    by (rule load_safe_bind [OF load_safe_count])
      (use StringType in \<open>auto simp: loads_to_def keeps_def declared_names_def suffix_drop\<close>)
  then show ?case by (simp only: run_load.simps)
next
  case (UserDefineType n)
  then obtain u where u: "us n = Some u" by auto
  then have "load_safe raw (u_ok u) bs (u_load u (u_fresh u) bs)" using UserDefineType by (simp add: users_safe_def)
  then have "load_safe raw (loads_to (u_ok u) x f) bs
      (bind_load (u_load u (u_fresh u) bs) (\<lambda>w bs. Loaded (put x w f) bs))"
    by (rule load_safe_bind) (use u in \<open>simp add: loads_to_def keeps_def\<close>)
  then show ?case using u UserDefineType by simp
next
  case (ListType e)
  have "load_safe raw (loads_to (\<lambda>v. \<exists>xs. v = VSeq xs \<and> length xs < 2 ^ 32 \<and> list_all (val_ok us lt e) xs) x f) bs
      (run_load us lt (ListType e) x f bs)"
    unfolding run_load_seq by (rule load_safe_seq) (use ListType in simp_all)
  then show ?case by (rule load_safe_mono) (auto simp: loads_to_def)
next
  case (ArrayType e)
  have "load_safe raw (loads_to (\<lambda>v. \<exists>xs. v = VSeq xs \<and> length xs < 2 ^ 32 \<and> list_all (val_ok us lt e) xs) x f) bs
      (run_load us lt (ArrayType e) x f bs)"
    unfolding run_load_seq by (rule load_safe_seq) (use ArrayType in simp_all)
  then show ?case by (rule load_safe_mono) (auto simp: loads_to_def)
next
  case (MapType k e)
  show ?case unfolding run_load_map by (rule load_safe_map) (use MapType in simp_all)
qed simp


section \<open>Members\<close>

text \<open>A static array of primitives is copied without looking at how many bytes are left.\<close>

fun raw_member :: "var_type \<Rightarrow> bool" where
  "raw_member (StaticArrayType (PrimitiveType p) cnt) = True"
| "raw_member _ = False"

lemma load_safe_static:
  assumes elmt: "\<And>g bs. get (x @ ''_val'') g = Some (fresh_val us e) \<Longrightarrow>
      load_safe raw (loads_to (val_ok us lt e) (x @ ''_val'') g) bs (run_load us lt e (x @ ''_val'') g bs)"
    and "get x f = Some (VArray xs)" and "length xs = c"
  shows "load_safe raw (holds (\<lambda>v. \<exists>xs. v = VArray xs \<and> length xs = c \<and> list_all (val_ok us lt e) xs) x f) bs
    (load_loop 0 c (static_body us lt e x) f bs)"
proof -
  let ?P = "\<lambda>i v. \<exists>xs. v = VArray xs \<and> length xs = c \<and> (\<forall>j<i. val_ok us lt e (xs ! j))"
  have "load_safe raw (holds (?P (0 + c)) x f) bs (load_loop 0 c (static_body us lt e x) f bs)"
  proof (rule load_safe_loop)
    fix i g rest
    assume i: "i < 0 + c" and inv: "holds (?P i) x f g"
    then obtain ys where ys: "get x g = Some (VArray ys)" "length ys = c" "\<forall>j<i. val_ok us lt e (ys ! j)" by (auto simp: holds_def)
    have "?P (i + 1) (VArray (ys[i := y]))" if "val_ok us lt e y" for y
      using ys i that by (auto simp: nth_list_update less_Suc_eq)
    then show "load_safe raw (holds (?P (i + 1)) x f) rest (static_body us lt e x i g rest)"
      unfolding static_body_def
      by (intro load_safe_bind [OF elmt [OF fresh_get]]) (use ys i holds_put [OF inv, of "?P (i + 1)"] in \<open>auto simp: loads_to_def\<close>)
  qed (use assms(2, 3) in \<open>simp add: holds_def\<close>)
  then show ?thesis by (rule load_safe_mono) (auto simp: holds_def list_all_length)
qed

lemma holds_loads: "holds P x f f' \<Longrightarrow> loads_to P x f f'"
  using keeps_mono [of "{x}" f f' "insert x (declared_names x)"] by (simp add: holds_def loads_to_def)

lemma load_safe_member:
  assumes "users_safe raw us" and "transp lt" and "asymp lt" and "member_type us t" and "get x f = Some (fresh_val us t)"
    and "raw_member t \<Longrightarrow> raw"
  shows "load_safe raw (loads_to (val_ok us lt t) x f) bs (run_load us lt t x f bs)"
proof (cases "\<exists>e cnt. t = StaticArrayType e cnt")
  case False
  then have "elmt_type us t" using assms(4) by (cases t) auto
  then show ?thesis using assms load_safe_elmt by blast
next
  case True
  then obtain e cnt where t: "t = StaticArrayType e cnt" by blast
  have e: "elmt_type us e" using t assms(4) by simp
  show ?thesis
  proof (cases "\<exists>p. e = PrimitiveType p")
    case True
    then obtain p where p: "e = PrimitiveType p" by blast
    have "length (take (prim_sizeof p) (drop (i * prim_sizeof p) bs)) = prim_sizeof p"
      if "prim_sizeof p * c_number cnt \<le> length bs" "i < c_number cnt" for i
    proof -
      have "(i + 1) * prim_sizeof p \<le> c_number cnt * prim_sizeof p" using that(2) by (intro mult_le_mono1) simp
      then show ?thesis using that(1) by (simp add: mult.commute)
    qed
    then show ?thesis using t p assms(6)
      by (auto simp: Let_def loads_to_def keeps_def suffix_drop raw_array_def list_all_iff)
  next
    case False
    have "load_safe raw (holds (\<lambda>v. \<exists>xs. v = VArray xs \<and> length xs = c_number cnt \<and> list_all (val_ok us lt e) xs) x f) bs
        (load_loop 0 (c_number cnt) (static_body us lt e x) f bs)"
      by (rule load_safe_static [OF load_safe_elmt [OF assms(1-3) e]]) (use assms(5) t in auto)
    then have "load_safe raw (loads_to (val_ok us lt t) x f) bs (load_loop 0 (c_number cnt) (static_body us lt e x) f bs)"
      by (rule load_safe_mono) (use t in \<open>auto simp: holds_def intro!: holds_loads\<close>)
    then show ?thesis using t False run_load_static [of e us lt cnt x f bs] by simp
  qed
qed

lemma load_safe_conj:
  "load_safe raw P bs r \<Longrightarrow> (\<And>x rest. r = Loaded x rest \<Longrightarrow> Q x) \<Longrightarrow> load_safe raw (\<lambda>x. P x \<and> Q x) bs r"
  by (cases r) auto

text \<open>The members of a message, loaded into a new object.\<close>

definition all_loaded :: "users \<Rightarrow> (val \<Rightarrow> val \<Rightarrow> bool) \<Rightarrow> (var_type \<times> string) list \<Rightarrow> frame \<Rightarrow> frame \<Rightarrow> bool" where
  "all_loaded us lt ms f f' \<longleftrightarrow>
     (\<forall>(t, x)\<in>set ms. \<exists>v. get x f' = Some v \<and> val_ok us lt t v)
     \<and> keeps (snd ` set ms \<union> \<Union> (declared_names ` snd ` set ms)) f f'
     \<and> locals_of f' \<subseteq> locals_of f \<union> \<Union> (declared_names ` snd ` set ms)"

lemma load_safe_members:
  assumes "users_safe raw us" and "transp lt" and "asymp lt"
  shows "\<forall>(t, x)\<in>set ms. member_type us t \<and> (raw_member t \<longrightarrow> raw) \<and> get x f = Some (fresh_val us t) \<Longrightarrow>
    distinct (map snd ms) \<Longrightarrow> no_capture (snd ` set ms) \<Longrightarrow>
    load_safe raw (all_loaded us lt ms f) bs (load_members us lt ms f bs)"
proof (induction ms arbitrary: f bs)
  case (Cons m ms)
  obtain t x where m: "m = (t, x)" by (cases m)
  let ?A = "snd ` set ms"
  have first: "load_safe raw (\<lambda>f1. loads_to (val_ok us lt t) x f f1 \<and> locals_of f1 \<subseteq> locals_of f \<union> declared_names x) bs
      (run_load us lt t x f bs)"
    using Cons.prems m by (intro load_safe_conj load_safe_member [OF assms] run_load_locals) auto
  have "load_safe raw (all_loaded us lt (m # ms) f) rest (load_members us lt ms f1 rest)"
    if f1: "loads_to (val_ok us lt t) x f f1" "locals_of f1 \<subseteq> locals_of f \<union> declared_names x" for f1 rest
  proof -
    have other: "z \<noteq> x \<and> z \<notin> declared_names x" if "z \<in> ?A" for z
      using Cons.prems(2, 3) m that by (auto simp: no_capture_def)
    have "\<forall>(t, z)\<in>set ms. member_type us t \<and> (raw_member t \<longrightarrow> raw) \<and> get z f1 = Some (fresh_val us t)"
    proof (clarify)
      fix t' z assume z: "(t', z) \<in> set ms"
      then have "z \<in> ?A" by force
      then have "get z f1 = get z f" using loads_to_get [OF f1(1)] other by blast
      then show "member_type us t' \<and> (raw_member t' \<longrightarrow> raw) \<and> get z f1 = Some (fresh_val us t')"
        using Cons.prems(1) z by auto
    qed
    then have "load_safe raw (all_loaded us lt ms f1) rest (load_members us lt ms f1 rest)"
      using Cons.prems m by (intro Cons.IH) (auto simp: no_capture_def)
    then show ?thesis
    proof (rule load_safe_mono)
      fix f' assume f': "all_loaded us lt ms f1 f'"
      then have keep: "keeps (?A \<union> \<Union> (declared_names ` ?A)) f1 f'" by (simp add: all_loaded_def)
      have "x \<notin> ?A \<union> \<Union> (declared_names ` ?A)" using Cons.prems(2, 3) m by (auto simp: no_capture_def)
      then have "get x f' = get x f1" by (rule keeps_get [OF keep])
      moreover have "keeps (insert x (declared_names x) \<union> (?A \<union> \<Union> (declared_names ` ?A))) f f'"
        using f1(1) by (intro keeps_trans [OF _ keep]) (simp add: loads_to_def)
      then have "keeps (snd ` set (m # ms) \<union> \<Union> (declared_names ` snd ` set (m # ms))) f f'"
        by (rule keeps_mono) (use m in auto)
      ultimately show "all_loaded us lt (m # ms) f f'"
        using f' f1 m by (auto simp: all_loaded_def loads_to_def)
    qed
  qed
  then show ?case using first m by (auto intro: load_safe_bind)
qed (simp add: all_loaded_def)

section \<open>Messages and parse trees\<close>

lemma message_load_safe:
  assumes "users_safe raw us" and "transp lt" and "asymp lt"
    and base: "\<And>u bs. base = Some u \<Longrightarrow> load_safe raw (u_ok u) bs (u_load u (u_fresh u) bs)"
    and types: "\<forall>(t, x)\<in>set ms. member_type us t \<and> (raw_member t \<longrightarrow> raw)" and dist: "distinct (map snd ms)" and captures: "no_capture (snd ` set ms)"
  shows "load_safe raw (u_ok (message_user us lt base ms)) bs
    (u_load (message_user us lt base ms) (u_fresh (message_user us lt base ms)) bs)"
proof -
  let ?fresh = "map (\<lambda>(t, x). (x, fresh_val us t)) ms"
  let ?f = "member_frame ?fresh"
  have names: "map fst ?fresh = map snd ms" by (simp add: split_def)
  have fresh: "get x ?f = Some (fresh_val us t)" if "(t, x) \<in> set ms" for t x
  proof -
    have "map_of ?fresh x = Some (fresh_val us t)"
      by (rule map_of_is_SomeI) (use dist names that in \<open>simp_all only:\<close>, force)
    then show ?thesis by (simp add: get_def member_frame_def)
  qed
  have rest: "load_safe raw (u_ok (message_user us lt base ms)) r
      (bind_load (load_members us lt ms ?f r) (\<lambda>f bs. Loaded (VObject b (map (\<lambda>(x, _). (x, the (snd f x))) ?fresh)) bs))"
    if b: "case (base, b) of (None, None) \<Rightarrow> True | (Some u, Some b) \<Rightarrow> u_ok u b | _ \<Rightarrow> False" for b r
  proof (rule load_safe_bind)
    show "load_safe raw (all_loaded us lt ms ?f) r (load_members us lt ms ?f r)"
      by (rule load_safe_members [OF assms(1-3)]) (use types dist captures fresh in auto)
    fix f' r' assume f': "all_loaded us lt ms ?f f'"
    have "val_ok us lt t (the (snd f' x))" if m: "(t, x) \<in> set ms" for t x
    proof -
      obtain v where v: "get x f' = Some v" "val_ok us lt t v" using f' m by (auto simp: all_loaded_def)
      have "x \<in> snd ` set ms" using m by force
      then have "x \<notin> \<Union> (declared_names ` snd ` set ms)" using captures unfolding no_capture_def by blast
      then have "x \<notin> locals_of f'" using f' by (auto simp: all_loaded_def locals_of_def member_frame_def)
      then have "snd f' x = Some v" using v(1) by (simp add: get_def locals_of_def domIff)
      then show ?thesis using v(2) by simp
    qed
    moreover have "zip ms (map (\<lambda>(t, x). the (snd f' x)) ms) = map (\<lambda>(t, x). ((t, x), the (snd f' x))) ms"
      by (induction ms) auto
    ultimately have "message_ok us lt base ms (VObject b (map (\<lambda>(x, _). (x, the (snd f' x))) ?fresh))"
      using b by (auto simp: message_ok_def split_def comp_def list_all_iff split: option.splits)
    then show "load_safe raw (u_ok (message_user us lt base ms)) r' (Loaded (VObject b (map (\<lambda>(x, _). (x, the (snd f' x))) ?fresh)) r')"
      by (simp add: message_user_def)
  qed
  show ?thesis
  proof (cases base)
    case None
    then show ?thesis using rest [of None bs] by (simp add: message_user_def message_load_def)
  next
    case (Some u)
    have "load_safe raw (u_ok (message_user us lt base ms)) bs (bind_load (u_load u (u_fresh u) bs) (\<lambda>b0 r.
        bind_load (load_members us lt ms ?f r) (\<lambda>f bs. Loaded (VObject (Some b0) (map (\<lambda>(x, _). (x, the (snd f x))) ?fresh)) bs)))"
      by (rule load_safe_bind [OF base [OF Some]]) (rule rest, use Some in simp)
    moreover have "bind_load (bind_load r (\<lambda>b bs. Loaded (Some b) bs)) k = bind_load r (\<lambda>b. k (Some b))"
      for r :: "val load_result" and k :: "val option \<Rightarrow> bytes \<Rightarrow> val load_result" by (cases r) auto
    ultimately show ?thesis using Some by (simp add: message_user_def message_load_def)
  qed
qed

fun raw_stmt :: "stmt \<Rightarrow> bool" where
  "raw_stmt (Message n parent seq ds) = list_ex (\<lambda>(t, x). raw_member t) (members ds)"
| "raw_stmt _ = False"

lemma typedef_load_safe:
  assumes "users_safe raw us" and "transp lt" and "asymp lt" and "elmt_type us t"
  shows "load_safe raw (u_ok (typedef_user us lt t)) bs (u_load (typedef_user us lt t) (u_fresh (typedef_user us lt t)) bs)"
proof -
  have "get ''obj'' (param_frame (fresh_val us t)) = Some (fresh_val us t)" by (simp add: get_def param_frame_def)
  note load = load_safe_elmt [OF assms this, of bs]
  have "load_safe raw (val_ok us lt t) bs (bind_load (run_load us lt t ''obj'' (param_frame (fresh_val us t)) bs)
      (\<lambda>f bs. case get ''obj'' f of Some v \<Rightarrow> Loaded v bs | None \<Rightarrow> IllTyped))"
    by (rule load_safe_bind [OF load]) (auto simp: loads_to_def)
  then show ?thesis by (simp add: typedef_user_def)
qed

lemma enum_load_safe: "load_safe raw (u_ok (enum_user es)) bs (u_load (enum_user es) (u_fresh (enum_user es)) bs)"
  by (simp add: enum_user_def suffix_drop)

lemma users_safe_declare:
  assumes us: "users_safe raw us" and order: "transp lt" "asymp lt" and ok: "stmt_ok us s" and raw: "raw_stmt s \<Longrightarrow> raw"
  shows "users_safe raw (declare_stmt lt s us)"
proof (cases s)
  case (Message n parent seq ds)
  define base where "base = (if parent = [] then None else us parent)"
  have parent: "load_safe raw (u_ok u) bs (u_load u (u_fresh u) bs)" if "base = Some u" for u bs
    using us that by (auto simp: base_def users_safe_def split: if_splits)
  have "load_safe raw (u_ok (message_user us lt base (members ds))) bs
      (u_load (message_user us lt base (members ds)) (u_fresh (message_user us lt base (members ds))) bs)" for bs
    by (rule message_load_safe [OF us order parent]) (use ok raw Message in \<open>auto simp: list_ex_iff\<close>)
  then show ?thesis using us Message by (simp add: users_safe_def flip: base_def)
next
  case (Typedef t x)
  then show ?thesis using us ok typedef_load_safe [OF us order] by (simp add: users_safe_def)
next
  case (Enum n es)
  then show ?thesis using us enum_load_safe by (simp add: users_safe_def)
qed (use us in simp_all)

lemma users_safe_fold:
  "stmts_ok lt us ss \<Longrightarrow> users_safe raw us \<Longrightarrow> transp lt \<Longrightarrow> asymp lt \<Longrightarrow> (list_ex raw_stmt ss \<Longrightarrow> raw) \<Longrightarrow>
   users_safe raw (fold (declare_stmt lt) ss us)"
  by (induction ss arbitrary: us) (simp_all add: users_safe_declare)

text \<open>C4: For every interface file whose code compiles, whatever bytes arrive, \<open>Load\<close> into a new object of any declared
  type either returns false or gives a value of that type and leaves an end of the input. It never goes wrong, and it
  reads behind the input only if a message has a static array of primitives.\<close>

theorem load_is_type_safe:
  assumes "stmts_ok lt Map.empty stmts" and "transp lt" and "asymp lt" and "unit_users lt stmts n = Some u"
  shows "case u_load u (u_fresh u) bs of
      Loaded v rest \<Rightarrow> u_ok u v \<and> suffix rest bs
    | Refused \<Rightarrow> True
    | Overread \<Rightarrow> list_ex raw_stmt stmts
    | IllTyped \<Rightarrow> False"
proof -
  have "users_safe (list_ex raw_stmt stmts) (unit_users lt stmts)"
    unfolding unit_users_def by (rule users_safe_fold [OF assms(1) _ assms(2, 3)]) (simp_all add: users_safe_def)
  then have "load_safe (list_ex raw_stmt stmts) (u_ok u) bs (u_load u (u_fresh u) bs)"
    using assms(4) by (simp add: users_safe_def)
  then show ?thesis by (cases "u_load u (u_fresh u) bs") auto
qed

text \<open>Bytes nobody stored: a map that names a key twice, and no bytes for the array.\<close>

theorem load_is_type_safe_witness:
  "\<exists>u. unit_users demo_less demo_unit ''Names'' = Some u \<and>
    (case u_load u (u_fresh u) [2, 0, 0, 0, 5, 0, 0, 0, 0, 0, 5, 0, 0, 0, 0, 0, 9] of
      Loaded v rest \<Rightarrow> u_ok u v \<and> suffix rest [2, 0, 0, 0, 5, 0, 0, 0, 0, 0, 5, 0, 0, 0, 0, 0, 9]
    | Refused \<Rightarrow> True
    | Overread \<Rightarrow> list_ex raw_stmt demo_unit
    | IllTyped \<Rightarrow> False)"
proof -
  obtain u where u: "unit_users demo_less demo_unit ''Names'' = Some u" by (simp add: demo_unit_def unit_users_def)
  have "transp demo_less" and "asymp demo_less" by (auto simp: demo_less_def transp_def asymp_on_def)
  then show ?thesis using u load_is_type_safe [OF demo_unit_ok _ _ u] by blast
qed

end
