(* ===== verification/Idl_CSharp.thy ===== *)
theory Idl_CSharp
  imports Idl_Syntax
begin

text \<open>
  The C# generator, \<^verbatim>\<open>idlc/src/generate_rule_csharp.cpp\<close>: the text it writes for a parse tree. It visits the type
  definitions before everything else, as they become \<open>using\<close> directives, and writes their serializers at the end.
\<close>

section \<open>Names and types\<close>

text \<open>Type name and initial value of a primitive.\<close>

fun cs_primitive :: "primitive \<Rightarrow> string \<times> string" where
  "cs_primitive P_boolean = (''bool'', ''false'')"
| "cs_primitive P_byte = (''sbyte'', ''0'')"
| "cs_primitive P_ubyte = (''byte'', ''0'')"
| "cs_primitive P_int16 = (''short'', ''0'')"
| "cs_primitive P_int32 = (''int'', ''0'')"
| "cs_primitive P_int64 = (''long'', ''0'')"
| "cs_primitive P_uint16 = (''ushort'', ''0'')"
| "cs_primitive P_uint32 = (''uint'', ''0'')"
| "cs_primitive P_uint64 = (''ulong'', ''0'')"
| "cs_primitive P_double = (''double'', ''0.0'')"
| "cs_primitive P_float = (''float'', ''0.0f'')"

text \<open>The table holds the primitives; a name that is looked up and not found is entered as itself.\<close>

definition cs_symbol :: "string \<Rightarrow> string" where
  "cs_symbol name =
     (case map_of (map (\<lambda>p. (primitive_name p, cs_primitive p)) all_primitives) name of
        None \<Rightarrow> name | Some (t, _) \<Rightarrow> t)"

fun cs_type :: "var_type \<Rightarrow> string" where
  "cs_type (PrimitiveType p) = fst (cs_primitive p)"
| "cs_type StringType = ''string''"
| "cs_type (MapType k e) = ''Dictionary<'' @ cs_type k @ '', '' @ cs_type e @ '' >''"
| "cs_type (StaticArrayType e n) = cs_type e @ ''[]''"
| "cs_type (ArrayType e) = ''List<'' @ cs_type e @ '' >''"
| "cs_type (ListType e) = ''List<'' @ cs_type e @ '' >''"
| "cs_type (UserDefineType n) = cs_symbol n"

fun cs_init :: "var_type \<Rightarrow> string" where
  "cs_init (PrimitiveType p) = snd (cs_primitive p)"
| "cs_init StringType = [CHR 0x22, CHR 0x22]"
| "cs_init (StaticArrayType e n) = ''new '' @ cs_type e @ ''['' @ n @ '']''"
| "cs_init t = ''new '' @ cs_type t @ ''()''"

section \<open>Code for a variable\<close>

definition cs_foreach :: "string \<Rightarrow> string \<Rightarrow> string \<Rightarrow> code_lines" where
  "cs_foreach et v ind =
     line [ind, ''foreach(var '', v, ''_itr in '', v, '') { ''] @
     line [ind, TAB, et, '' '', v, ''_elmt = '', v, ''_itr;'']"

definition cs_foreach_pair :: "string \<Rightarrow> string \<Rightarrow> string \<Rightarrow> string \<Rightarrow> code_lines" where
  "cs_foreach_pair kt et v ind =
     line [ind, ''foreach(var '', v, ''_itr in '', v, '') {''] @
     line [ind, TAB, kt, '' '', v, ''_key = '', v, ''_itr.Key;''] @
     line [ind, TAB, et, '' '', v, ''_elmt = '', v, ''_itr.Value;'']"

definition cs_for_count :: "string \<Rightarrow> string \<Rightarrow> string \<Rightarrow> code_lines" where
  "cs_for_count cnt v ind = line [ind, ''for(int '', v, ''_itr=0; '', v, ''_itr<'', cnt, ''; '', v, ''_itr++) {'']"

definition cs_store_count :: "string \<Rightarrow> string \<Rightarrow> code_lines" where
  "cs_store_count v ind = line [ind, ''_buf_.Write(BitConverter.GetBytes('', v, ''.Count), 0, sizeof(int));'']"

fun cs_store :: "var_type \<Rightarrow> string \<Rightarrow> string \<Rightarrow> code_lines" where
  "cs_store (UserDefineType n) v ind =
     line [ind, ''if(false == '', n, ''_Serializer.Store(_buf_, '', v, '')) { return false; }'']"
| "cs_store (PrimitiveType p) v ind =
     line [ind, ''_buf_.Write(BitConverter.GetBytes('', v, ''), 0, sizeof('', cs_type (PrimitiveType p), ''));'']"
| "cs_store StringType v ind =
     line [ind, ''if(null != '', v, '') {''] @
     line [ind, TAB, ''int '', v, ''_length = Encoding.UTF8.GetByteCount('', v, '');''] @
     line [ind, TAB, ''_buf_.Write(BitConverter.GetBytes('', v, ''_length), 0, sizeof(int));''] @
     line [ind, TAB, ''_buf_.Write(Encoding.UTF8.GetBytes('', v, ''), 0, '', v, ''_length);''] @
     line [ind, ''}''] @
     line [ind, ''else {''] @
     line [ind, TAB, ''_buf_.Write(BitConverter.GetBytes(0), 0, sizeof(int));''] @
     line [ind, ''}'']"
| "cs_store (MapType k e) v ind =
     cs_store_count v ind @ cs_foreach_pair (cs_type k) (cs_type e) v ind @
     cs_store k (v @ ''_key'') (ind @ TAB) @
     cs_store e (v @ ''_elmt'') (ind @ TAB) @
     line [ind, ''}'']"
| "cs_store (ListType e) v ind =
     cs_store_count v ind @ cs_foreach (cs_type e) v ind @ cs_store e (v @ ''_elmt'') (ind @ TAB) @ line [ind, ''}'']"
| "cs_store (ArrayType e) v ind =
     cs_store_count v ind @ cs_foreach (cs_type e) v ind @ cs_store e (v @ ''_elmt'') (ind @ TAB) @ line [ind, ''}'']"
| "cs_store (StaticArrayType e cnt) v ind =
     cs_for_count cnt v ind @ cs_store e (v @ ''['' @ v @ ''_itr]'') (ind @ TAB) @ line [ind, ''}'']"

text \<open>How a primitive is read.\<close>

definition cs_read :: "primitive \<Rightarrow> string \<Rightarrow> string \<Rightarrow> code_lines" where
  "cs_read p v ind =
     (if p = P_byte \<or> p = P_ubyte
      then line [ind, v, '' = ('', cs_type (PrimitiveType p), '')_buf_.GetBuffer()[_buf_.Position];''] else []) @
     (case p of
        P_boolean \<Rightarrow> line [ind, v, '' = BitConverter.ToBoolean(_buf_.GetBuffer(), (int)_buf_.Position);'']
      | P_int16 \<Rightarrow> line [ind, v, '' = BitConverter.ToInt16(_buf_.GetBuffer(), (int)_buf_.Position);'']
      | P_int32 \<Rightarrow> line [ind, v, '' = BitConverter.ToInt32(_buf_.GetBuffer(), (int)_buf_.Position);'']
      | P_int64 \<Rightarrow> line [ind, v, '' = BitConverter.ToInt64(_buf_.GetBuffer(), (int)_buf_.Position);'']
      | P_uint16 \<Rightarrow> line [ind, v, '' = BitConverter.ToUInt16(_buf_.GetBuffer(), (int)_buf_.Position);'']
      | P_uint32 \<Rightarrow> line [ind, v, '' = BitConverter.ToUInt32(_buf_.GetBuffer(), (int)_buf_.Position);'']
      | P_uint64 \<Rightarrow> line [ind, v, '' = BitConverter.ToUInt64(_buf_.GetBuffer(), (int)_buf_.Position);'']
      | P_double \<Rightarrow> line [ind, v, '' = BitConverter.ToDouble(_buf_.GetBuffer(), (int)_buf_.Position);'']
      | P_float \<Rightarrow> line [ind, v, '' = BitConverter.ToSingle(_buf_.GetBuffer(), (int)_buf_.Position);'']
      | _ \<Rightarrow> [])"

definition cs_load_count :: "string \<Rightarrow> string \<Rightarrow> code_lines" where
  "cs_load_count v ind =
     line [ind, ''if(sizeof(int) > _buf_.Length - _buf_.Position) { return false; }''] @
     line [ind, ''int '', v, ''_length = BitConverter.ToInt32(_buf_.GetBuffer(), (int)_buf_.Position);''] @
     line [ind, ''_buf_.Position += sizeof(int);'']"

fun cs_load :: "var_type \<Rightarrow> string \<Rightarrow> string \<Rightarrow> code_lines" where
  "cs_load (UserDefineType n) v ind =
     line [ind, ''if(false == '', n, ''_Serializer.Load(ref '', v, '', _buf_)) { return false; }'']"
| "cs_load (PrimitiveType p) v ind =
     line [ind, ''if(sizeof('', cs_type (PrimitiveType p), '') > _buf_.Length - _buf_.Position) { return false; }''] @
     cs_read p v ind @
     line [ind, ''_buf_.Position += sizeof('', cs_type (PrimitiveType p), '');'']"
| "cs_load StringType v ind =
     cs_load_count v ind @
     line [ind, ''if('', v, ''_length > _buf_.Length - _buf_.Position) { return false; }''] @
     line [ind, ''byte[] '', v, ''_buf = new byte['', v, ''_length];''] @
     line [ind, ''Array.Copy(_buf_.GetBuffer(), (int)_buf_.Position, '', v, ''_buf, 0, '', v, ''_length);''] @
     line [ind, v, '' = System.Text.Encoding.UTF8.GetString('', v, ''_buf);''] @
     line [ind, ''_buf_.Position += '', v, ''_length;'']"
| "cs_load (MapType k e) v ind =
     cs_load_count v ind @
     cs_for_count (v @ ''_length'') v ind @
     line [ind, TAB, cs_type k, '' '', v, ''_key = '', cs_init k, '';''] @
     line [ind, TAB, cs_type e, '' '', v, ''_elmt = '', cs_init e, '';''] @
     cs_load k (v @ ''_key'') (ind @ TAB) @
     cs_load e (v @ ''_elmt'') (ind @ TAB) @
     line [ind, TAB, v, ''['', v, ''_key] = '', v, ''_elmt;''] @
     line [ind, ''}'']"
| "cs_load (ListType e) v ind =
     cs_load_count v ind @
     cs_for_count (v @ ''_length'') v ind @
     line [ind, TAB, cs_type e, '' '', v, ''_val = '', cs_init e, '';''] @
     cs_load e (v @ ''_val'') (ind @ TAB) @
     line [ind, TAB, v, ''.Add('', v, ''_val);''] @
     line [ind, ''}'']"
| "cs_load (ArrayType e) v ind =
     cs_load_count v ind @
     cs_for_count (v @ ''_length'') v ind @
     line [ind, TAB, cs_type e, '' '', v, ''_val = '', cs_init e, '';''] @
     cs_load e (v @ ''_val'') (ind @ TAB) @
     line [ind, TAB, v, ''.Add('', v, ''_val);''] @
     line [ind, ''}'']"
| "cs_load (StaticArrayType e cnt) v ind =
     cs_for_count cnt v ind @
     line [ind, TAB, cs_type e, '' '', v, ''_val = '', cs_init e, '';''] @
     cs_load e (v @ ''_val'') (ind @ TAB) @
     line [ind, TAB, v, ''['', v, ''_itr] = '', v, ''_val;''] @
     line [ind, ''}'']"

fun cs_size :: "var_type \<Rightarrow> string \<Rightarrow> string \<Rightarrow> code_lines" where
  "cs_size (UserDefineType n) v ind = line [ind, ''nSize += '', n, ''_Serializer.Size('', v, '');'']"
| "cs_size (PrimitiveType p) v ind = line [ind, ''nSize += sizeof('', cs_type (PrimitiveType p), '');'']"
| "cs_size StringType v ind =
     line [ind, ''nSize += sizeof(int); ''] @
     line [ind, ''if(null != '', v, '') { nSize += Encoding.UTF8.GetByteCount('', v, ''); }'']"
| "cs_size (MapType k e) v ind =
     line [ind, ''nSize += sizeof(int);''] @
     cs_foreach_pair (cs_type k) (cs_type e) v ind @
     cs_size k (v @ ''_key'') (ind @ TAB) @
     cs_size e (v @ ''_elmt'') (ind @ TAB) @
     line [ind, ''}'']"
| "cs_size (ListType e) v ind =
     line [ind, ''nSize += sizeof(int);''] @
     cs_foreach (cs_type e) v ind @ cs_size e (v @ ''_elmt'') (ind @ TAB) @ line [ind, ''}'']"
| "cs_size (ArrayType e) v ind =
     line [ind, ''nSize += sizeof(int);''] @
     cs_foreach (cs_type e) v ind @ cs_size e (v @ ''_elmt'') (ind @ TAB) @ line [ind, ''}'']"
| "cs_size (StaticArrayType e cnt) v ind =
     (if m_bPrimitive e
      then line [ind, ''nSize += sizeof('', cs_type e, '') * '', cnt, '';'']
      else cs_for_count cnt v ind @ cs_size e (v @ ''['' @ v @ ''_itr]'') (ind @ TAB) @ line [ind, ''}''])"

section \<open>Messages, enumerations and type definitions\<close>

abbreviation TABS2 :: string where "TABS2 \<equiv> [CHR 0x09, CHR 0x09]"
abbreviation TABS3 :: string where "TABS3 \<equiv> [CHR 0x09, CHR 0x09, CHR 0x09]"

definition cs_for_members :: "(var_type \<Rightarrow> string \<Rightarrow> code_lines) \<Rightarrow> var_decl list \<Rightarrow> code_lines" where
  "cs_for_members f ds = concat (map (\<lambda>(t, x). f t x) (members ds))"

text \<open>A function body between \<open>try\<close> and \<open>catch\<close>.\<close>

definition cs_catch :: "string \<Rightarrow> string \<Rightarrow> string \<Rightarrow> code_lines" where
  "cs_catch ret close result =
     line [TABS2, ''} catch(System.Exception) {''] @
     line [TABS3, ''return '', ret, '';''] @
     line [TABS2, close] @
     line [TABS2, ''return '', result, '';'']"

definition cs_member :: "var_type \<Rightarrow> string \<Rightarrow> code_lines" where
  "cs_member t x = line [TAB, ''public '', cs_type t, TAB, x, '' = '', cs_init t, '';'']"

definition cs_construct :: "var_type \<Rightarrow> string \<Rightarrow> code_lines" where
  "cs_construct t x =
     (case t of
        StaticArrayType e cnt \<Rightarrow>
          line [TABS2, ''for(int i=0;i<'', cnt, ''; i++) { '', x, ''[i] = new '', cs_type e, ''();'', '' }'']
      | _ \<Rightarrow> [])"

definition cs_Size :: "string \<Rightarrow> var_decl list \<Rightarrow> code_lines" where
  "cs_Size parent ds =
     line [TAB, ''public int Size() {''] @
     line [TABS2, ''int nSize = 0;''] @
     line [TABS2, ''try {''] @
     (if parent \<noteq> [] then line [TABS3, ''nSize = base.Size();''] else []) @
     cs_for_members (\<lambda>t x. cs_size t x TABS3) ds @
     cs_catch ''-1'' ''}'' ''nSize'' @
     line [TAB, ''}'']"

definition cs_Store :: "string \<Rightarrow> var_decl list \<Rightarrow> code_lines" where
  "cs_Store parent ds =
     line [TAB, ''public bool Store(MemoryStream _buf_) {''] @
     line [TABS2, ''try {''] @
     (if parent \<noteq> [] then line [TABS3, ''base.Store(_buf_);''] else []) @
     cs_for_members (\<lambda>t x. cs_store t x TABS3) ds @
     cs_catch ''false'' ''}'' ''true'' @
     line [TAB, ''}'']"

definition cs_Load :: "string \<Rightarrow> var_decl list \<Rightarrow> code_lines" where
  "cs_Load parent ds =
     line [TAB, ''public bool Load(MemoryStream _buf_) {''] @
     line [TABS2, ''try {''] @
     (if parent \<noteq> [] then line [TABS3, ''if(false == base.Load(_buf_)) return false;''] else []) @
     cs_for_members (\<lambda>t x. cs_load t x TABS3) ds @
     cs_catch ''false'' ''}'' ''true'' @
     line [TAB, ''}'']"

definition cs_CompileMessage :: "string \<Rightarrow> string \<Rightarrow> int \<Rightarrow> var_decl list \<Rightarrow> code_lines" where
  "cs_CompileMessage n parent seq ds =
     line [''public class '', n, (if parent \<noteq> [] then '' : '' @ parent else []), '' {''] @
     (if seq > 0 then line [TAB, ''public const int MSG_ID = '', dec_int seq, '';''] else []) @
     cs_for_members cs_member ds @
     line [TAB, ''public '', n, ''() {''] @
     cs_for_members cs_construct ds @
     line [TAB, ''}''] @
     cs_Size parent ds @
     cs_Store parent ds @
     cs_Load parent ds @
     line [''};''] @
     line [''public struct '', n, ''_Serializer {''] @
     line [TAB, ''public static bool Store(MemoryStream _buf_, '', n, '' obj) { return obj.Store(_buf_); }''] @
     line [TAB, ''public static bool Load(ref '', n, '' obj, MemoryStream _buf_) { return obj.Load(_buf_); }''] @
     line [TAB, ''public static int Size('', n, '' obj) { return obj.Size(); }''] @
     line [''};'']"

definition cs_enum_catch :: "string \<Rightarrow> code_lines" where
  "cs_enum_catch head =
     line [TABS2, ''}''] @
     line [TABS2, head] @
     line [TABS3, ''return false;''] @
     line [TABS2, ''}''] @
     line [TABS2, ''return true;''] @
     line [TAB, ''}'']"

definition cs_CompileEnum :: "string \<Rightarrow> enum_elmt list \<Rightarrow> code_lines" where
  "cs_CompileEnum n es =
     line [''public enum '', n, '' {''] @
     concat (map (\<lambda>(en, num). line [TAB, en, (if num \<noteq> [] then '' = '' @ num else []), '','']) (enum_members es)) @
     line [''}; // '', n] @
     line [''public struct '', n, ''_Serializer {''] @
     line [TAB, ''public static bool Store(System.IO.MemoryStream _buf_, '', n, '' obj) { ''] @
     line [TABS2, ''try {''] @
     line [TABS3, ''_buf_.Write(System.BitConverter.GetBytes((int)obj), 0, sizeof('', n, ''));''] @
     cs_enum_catch ''catch(System.Exception) {'' @
     line [TAB, ''public static bool Load(ref '', n, '' obj, MemoryStream _buf_) { ''] @
     line [TABS2, ''try {''] @
     line [TABS3, ''obj = ('', n, '')System.BitConverter.ToInt32(_buf_.ToArray(), (int)_buf_.Position);''] @
     line [TABS3, ''_buf_.Position += sizeof('', n, '');''] @
     cs_enum_catch ''catch(System.Exception) { '' @
     line [TAB, ''public static System.Int32 Size('', n, '' obj) { return sizeof('', n, ''); }''] @
     line [''};'']"

definition cs_CompileTypedef :: "var_type \<Rightarrow> string \<Rightarrow> code_lines" where
  "cs_CompileTypedef t x = line [''using '', x, '' = '', cs_type t, '';'']"

definition cs_typedef_serializer :: "var_type \<Rightarrow> string \<Rightarrow> code_lines" where
  "cs_typedef_serializer t x =
     line [''public struct '', x, ''_Serializer {''] @
     line [TAB, ''public static bool Store(MemoryStream _buf_, '', x, '' obj) { ''] @
     line [TABS2, ''try {''] @
     cs_store t ''obj'' TABS3 @
     cs_catch ''false'' ''};'' ''true'' @
     line [TAB, ''}''] @
     line [TAB, ''public static bool Load(ref '', x, '' obj, MemoryStream _buf_) { ''] @
     line [TABS2, ''try {''] @
     cs_load t ''obj'' TABS2 @
     cs_catch ''false'' ''};'' ''true'' @
     line [TAB, ''}''] @
     line [TAB, ''public static int Size('', x, '' obj) { ''] @
     line [TABS2, ''int nSize = 0;''] @
     line [TABS2, ''try {''] @
     cs_size t ''obj'' TABS2 @
     cs_catch ''-1'' ''};'' ''nSize'' @
     line [TAB, ''}''] @
     line [''};'']"

definition cs_CompileLiteralBlock :: "string \<Rightarrow> string \<Rightarrow> code_lines" where
  "cs_CompileLiteralBlock lang ctx = (if lang = ''.cs'' then line [ctx] else [])"

text \<open>The second pass visits everything but the type definitions.\<close>

definition GenerateRuleCSharp :: generator where
  "GenerateRuleCSharp = \<lparr>CompileLiteralBlock = cs_CompileLiteralBlock, CompileTypedef = (\<lambda>t x. []),
     CompileMessage = cs_CompileMessage, CompileEnum = cs_CompileEnum\<rparr>"

definition typedefs :: "stmt list \<Rightarrow> (var_type \<times> string) list" where
  "typedefs stmts = concat (map (\<lambda>s. case s of Typedef t x \<Rightarrow> [(t, x)] | _ \<Rightarrow> []) stmts)"

definition cs_Parse :: "stmt list \<Rightarrow> code_lines" where
  "cs_Parse stmts = concat (map (\<lambda>(t, x). cs_CompileTypedef t x) (typedefs stmts)) @ parse_stmts GenerateRuleCSharp stmts"

definition cs_CompileStmtList :: "string \<Rightarrow> stmt list \<Rightarrow> code_lines" where
  "cs_CompileStmtList file stmts =
     line [''using System;''] @
     line [''using System.Collections.Generic;''] @
     line [''using System.Text;''] @
     line [''using System.IO;''] @
     line [''namespace '', file, ''{''] @
     cs_Parse stmts @
     concat (map (\<lambda>(t, x). cs_typedef_serializer t x) (typedefs stmts)) @
     line [''}'']"

section \<open>A checked-in file\<close>

text \<open>The example \<^verbatim>\<open>example/idl/data.idl\<close>, and lines 127 to 201 of the \<^verbatim>\<open>data.cs\<close> made from it.\<close>

definition data_unit :: "stmt list" where
  "data_unit =
    [Enum ''ErrorCode'' [EnumElmt ''Success'' ''0'', EnumElmt ''MessageFormatError'' ''1000'', EnumElmt ''MessageSeqOmmitError'' ''1001'',
       EnumElmt ''InvalidUserError'' ''2000'', EnumElmt ''InvalidAccessTokenError'' ''2001'', EnumElmt ''DuplicateConnectionError'' ''3000'',
       EnumElmt ''ReconnectTimeoutError'' ''4000'', EnumElmt ''ResponseTimeoutError'' ''4001'', EnumElmt ''AlreadyLoginSessionError'' ''5000''],
     Enum ''ItemType'' [EnumElmt ''Invalid'' [], EnumElmt ''Weapon'' [], EnumElmt ''Armor'' [], EnumElmt ''Potion'' []],
     Message ''ItemData'' [] (-1) [VarDecl StringType ''item_id'', VarDecl (UserDefineType ''ItemType'') ''item_type'', VarDecl (PrimitiveType P_uint32) ''item_seq''],
     Message ''UserData'' [] (-1) [VarDecl StringType ''user_id'', VarDecl (PrimitiveType P_uint32) ''user_seq'', VarDecl (ListType (UserDefineType ''ItemData'')) ''items'']]"

definition data_cs_UserData :: code_lines where
  "data_cs_UserData =
    [''public class UserData {'',
     TAB @ ''public string'' @ TAB @ ''user_id = '' @ [CHR 0x22] @ [CHR 0x22] @ '';'',
     TAB @ ''public uint'' @ TAB @ ''user_seq = 0;'',
     TAB @ ''public List<ItemData >'' @ TAB @ ''items = new List<ItemData >();'',
     TAB @ ''public UserData() {'',
     TAB @ ''}'',
     TAB @ ''public int Size() {'',
     TABS2 @ ''int nSize = 0;'',
     TABS2 @ ''try {'',
     TABS3 @ ''nSize += sizeof(int); '',
     TABS3 @ ''if(null != user_id) { nSize += Encoding.UTF8.GetByteCount(user_id); }'',
     TABS3 @ ''nSize += sizeof(uint);'',
     TABS3 @ ''nSize += sizeof(int);'',
     TABS3 @ ''foreach(var items_itr in items) { '',
     TABS3 @ TAB @ ''ItemData items_elmt = items_itr;'',
     TABS3 @ TAB @ ''nSize += ItemData_Serializer.Size(items_elmt);'',
     TABS3 @ ''}'',
     TABS2 @ ''} catch(System.Exception) {'',
     TABS3 @ ''return -1;'',
     TABS2 @ ''}'',
     TABS2 @ ''return nSize;'',
     TAB @ ''}'',
     TAB @ ''public bool Store(MemoryStream _buf_) {'',
     TABS2 @ ''try {'',
     TABS3 @ ''if(null != user_id) {'',
     TABS3 @ TAB @ ''int user_id_length = Encoding.UTF8.GetByteCount(user_id);'',
     TABS3 @ TAB @ ''_buf_.Write(BitConverter.GetBytes(user_id_length), 0, sizeof(int));'',
     TABS3 @ TAB @ ''_buf_.Write(Encoding.UTF8.GetBytes(user_id), 0, user_id_length);'',
     TABS3 @ ''}'',
     TABS3 @ ''else {'',
     TABS3 @ TAB @ ''_buf_.Write(BitConverter.GetBytes(0), 0, sizeof(int));'',
     TABS3 @ ''}'',
     TABS3 @ ''_buf_.Write(BitConverter.GetBytes(user_seq), 0, sizeof(uint));'',
     TABS3 @ ''_buf_.Write(BitConverter.GetBytes(items.Count), 0, sizeof(int));'',
     TABS3 @ ''foreach(var items_itr in items) { '',
     TABS3 @ TAB @ ''ItemData items_elmt = items_itr;'',
     TABS3 @ TAB @ ''if(false == ItemData_Serializer.Store(_buf_, items_elmt)) { return false; }'',
     TABS3 @ ''}'',
     TABS2 @ ''} catch(System.Exception) {'',
     TABS3 @ ''return false;'',
     TABS2 @ ''}'',
     TABS2 @ ''return true;'',
     TAB @ ''}'',
     TAB @ ''public bool Load(MemoryStream _buf_) {'',
     TABS2 @ ''try {'',
     TABS3 @ ''if(sizeof(int) > _buf_.Length - _buf_.Position) { return false; }'',
     TABS3 @ ''int user_id_length = BitConverter.ToInt32(_buf_.GetBuffer(), (int)_buf_.Position);'',
     TABS3 @ ''_buf_.Position += sizeof(int);'',
     TABS3 @ ''if(user_id_length > _buf_.Length - _buf_.Position) { return false; }'',
     TABS3 @ ''byte[] user_id_buf = new byte[user_id_length];'',
     TABS3 @ ''Array.Copy(_buf_.GetBuffer(), (int)_buf_.Position, user_id_buf, 0, user_id_length);'',
     TABS3 @ ''user_id = System.Text.Encoding.UTF8.GetString(user_id_buf);'',
     TABS3 @ ''_buf_.Position += user_id_length;'',
     TABS3 @ ''if(sizeof(uint) > _buf_.Length - _buf_.Position) { return false; }'',
     TABS3 @ ''user_seq = BitConverter.ToUInt32(_buf_.GetBuffer(), (int)_buf_.Position);'',
     TABS3 @ ''_buf_.Position += sizeof(uint);'',
     TABS3 @ ''if(sizeof(int) > _buf_.Length - _buf_.Position) { return false; }'',
     TABS3 @ ''int items_length = BitConverter.ToInt32(_buf_.GetBuffer(), (int)_buf_.Position);'',
     TABS3 @ ''_buf_.Position += sizeof(int);'',
     TABS3 @ ''for(int items_itr=0; items_itr<items_length; items_itr++) {'',
     TABS3 @ TAB @ ''ItemData items_val = new ItemData();'',
     TABS3 @ TAB @ ''if(false == ItemData_Serializer.Load(ref items_val, _buf_)) { return false; }'',
     TABS3 @ TAB @ ''items.Add(items_val);'',
     TABS3 @ ''}'',
     TABS2 @ ''} catch(System.Exception) {'',
     TABS3 @ ''return false;'',
     TABS2 @ ''}'',
     TABS2 @ ''return true;'',
     TAB @ ''}'',
     ''};'',
     ''public struct UserData_Serializer {'',
     TAB @ ''public static bool Store(MemoryStream _buf_, UserData obj) { return obj.Store(_buf_); }'',
     TAB @ ''public static bool Load(ref UserData obj, MemoryStream _buf_) { return obj.Load(_buf_); }'',
     TAB @ ''public static int Size(UserData obj) { return obj.Size(); }'',
     ''};'']"

lemma item_symbol: "cs_symbol ''ItemData'' = ''ItemData''"
  by (simp add: cs_symbol_def all_primitives_def)

text \<open>For the message \<open>UserData\<close>, with a list of objects, the C# generator writes the checked-in text of its class and
  its serializer, line by line.\<close>

theorem csharp_text_is_generated:
  "parse_stmt GenerateRuleCSharp (data_unit ! 3) = data_cs_UserData"
  by (simp add: data_unit_def GenerateRuleCSharp_def cs_CompileMessage_def cs_Size_def cs_Store_def cs_Load_def cs_load_count_def
      cs_store_count_def cs_foreach_def cs_for_count_def cs_catch_def cs_member_def cs_construct_def cs_for_members_def cs_read_def
      line_def item_symbol data_cs_UserData_def)

end
