(* ===== verification/Idl_CSharp_Wire.thy ===== *)
theory Idl_CSharp_Wire
  imports Idl_Wire_Correct Idl_CSharp
begin

text \<open>
  What the code written by the C# generator does, and that it and the generated C++ understand each other.
  \<open>cs_run_size\<close>, \<open>cs_run_store\<close> and \<open>cs_run_load\<close> follow \<open>cs_size\<close>, \<open>cs_store\<close> and \<open>cs_load\<close> of \<open>Idl_CSharp\<close>, with the
  exceptions and the wrap-around of C#. \<open>same\<close> says that a C# value and a C++ value are the same value of a type; what
  one side stores the other loads, and the places where the two differ on other bytes are listed at the end.
\<close>

section \<open>Values\<close>

text \<open>A primitive is its memory, a string its UTF-16 units, a dictionary is listed in the order in which it enumerates. An
  object has the object of its base class and its members in the order of their declarations. No variable that the code
  declares has the name of a member here, so that a variable stands for its value.\<close>

datatype cs_val =
    CNull
  | CPrim bytes
  | CString "u16 list"
  | CList "cs_val list"
  | CDict "(cs_val \<times> cs_val) list"
  | CArray "cs_val list"
  | CObject "cs_val option" "(string \<times> cs_val) list"

text \<open>\<open>System.Text.Encoding.UTF8\<close>.\<close>

record encoding =
  GetBytes :: "u16 list \<Rightarrow> bytes"
  GetString :: "bytes \<Rightarrow> u16 list"

text \<open>A type with a name. The size is an \<open>int\<close>, which wraps; it is \<open>None\<close> when an exception leaves \<open>Size\<close>. A store is
  what was written before it ended, and whether it returned true; an exception ends it like a false.\<close>

type_synonym store_result = "bytes \<times> bool"

record cs_user =
  cs_u_fresh :: cs_val
  cs_u_size :: "cs_val \<Rightarrow> u32 option"
  cs_u_store :: "cs_val \<Rightarrow> store_result"
  cs_u_load :: "cs_val \<Rightarrow> bytes \<Rightarrow> cs_val load_result"

type_synonym cs_users = "string \<Rightarrow> cs_user option"

text \<open>The value of a number token in C#: a leading zero means nothing.\<close>

definition cs_number :: "string \<Rightarrow> nat" where
  "cs_number s = (if take 2 s = ''0x'' then number_value 16 (drop 2 s) else number_value 10 s)"

fun cs_fresh_val :: "cs_users \<Rightarrow> var_type \<Rightarrow> cs_val" where
  "cs_fresh_val us (PrimitiveType p) = CPrim (replicate (prim_sizeof p) 0)"
| "cs_fresh_val us StringType = CString []"
| "cs_fresh_val us (UserDefineType n) = (case us n of None \<Rightarrow> CNull | Some u \<Rightarrow> cs_u_fresh u)"
| "cs_fresh_val us (ListType e) = CList []"
| "cs_fresh_val us (ArrayType e) = CList []"
| "cs_fresh_val us (MapType k e) = CDict []"
| "cs_fresh_val us (StaticArrayType e cnt) = CArray (replicate (cs_number cnt) (cs_fresh_val us e))"

section \<open>Running the generated code\<close>

text \<open>The element of an array; an index out of range is an exception.\<close>

definition element :: "cs_val list \<Rightarrow> nat \<Rightarrow> cs_val option" where
  "element xs i = (if i < length xs then Some (xs ! i) else None)"

fun cs_run_size :: "encoding \<Rightarrow> cs_users \<Rightarrow> var_type \<Rightarrow> cs_val \<Rightarrow> u32 option" where
  "cs_run_size enc us (UserDefineType n) v = (case us n of None \<Rightarrow> None | Some u \<Rightarrow> cs_u_size u v)"
| "cs_run_size enc us (PrimitiveType p) v = Some (of_nat (prim_sizeof p))"
| "cs_run_size enc us StringType v =
     (case v of CNull \<Rightarrow> Some 4 | CString s \<Rightarrow> Some (4 + of_nat (length (GetBytes enc s))) | _ \<Rightarrow> None)"
| "cs_run_size enc us (MapType k e) v =
     (case v of
        CDict m \<Rightarrow> map_option (\<lambda>ns. 4 + sum_list ns)
          (traverse (\<lambda>(key, elmt). case (cs_run_size enc us k key, cs_run_size enc us e elmt) of
             (Some a, Some b) \<Rightarrow> Some (a + b) | _ \<Rightarrow> None) m)
      | _ \<Rightarrow> None)"
| "cs_run_size enc us (ListType e) v =
     (case v of CList xs \<Rightarrow> map_option (\<lambda>ns. 4 + sum_list ns) (traverse (cs_run_size enc us e) xs) | _ \<Rightarrow> None)"
| "cs_run_size enc us (ArrayType e) v =
     (case v of CList xs \<Rightarrow> map_option (\<lambda>ns. 4 + sum_list ns) (traverse (cs_run_size enc us e) xs) | _ \<Rightarrow> None)"
| "cs_run_size enc us (StaticArrayType e cnt) v =
     (case e of
        PrimitiveType p \<Rightarrow> Some (of_nat (prim_sizeof p) * of_nat (cs_number cnt))
      | _ \<Rightarrow>
          (case v of
             CArray xs \<Rightarrow> map_option sum_list
               (traverse (\<lambda>i. case element xs i of None \<Rightarrow> None | Some x \<Rightarrow> cs_run_size enc us e x) [0..<cs_number cnt])
           | _ \<Rightarrow> None))"

text \<open>One write after another.\<close>

definition then_store :: "store_result \<Rightarrow> store_result \<Rightarrow> store_result" where
  "then_store a b = (if snd a then (fst a @ fst b, snd b) else a)"

definition store_all :: "store_result list \<Rightarrow> store_result" where
  "store_all rs = foldr then_store rs ([], True)"

definition write_bytes :: "bytes \<Rightarrow> store_result" where
  "write_bytes bs = (bs, True)"

abbreviation raise_exception :: store_result where
  "raise_exception \<equiv> ([], False)"

fun cs_run_store :: "encoding \<Rightarrow> cs_users \<Rightarrow> var_type \<Rightarrow> cs_val \<Rightarrow> store_result" where
  "cs_run_store enc us (UserDefineType n) v = (case us n of None \<Rightarrow> raise_exception | Some u \<Rightarrow> cs_u_store u v)"
| "cs_run_store enc us (PrimitiveType p) v =
     (case v of CPrim bs \<Rightarrow> write_bytes (take (prim_sizeof p) bs) | _ \<Rightarrow> raise_exception)"
| "cs_run_store enc us StringType v =
     (case v of
        CNull \<Rightarrow> write_bytes (le_bytes 4 0)
      | CString s \<Rightarrow> then_store (write_bytes (le_bytes 4 (length (GetBytes enc s)))) (write_bytes (GetBytes enc s))
      | _ \<Rightarrow> raise_exception)"
| "cs_run_store enc us (MapType k e) v =
     (case v of
        CDict m \<Rightarrow> then_store (write_bytes (le_bytes 4 (length m)))
          (store_all (map (\<lambda>(key, elmt). then_store (cs_run_store enc us k key) (cs_run_store enc us e elmt)) m))
      | _ \<Rightarrow> raise_exception)"
| "cs_run_store enc us (ListType e) v =
     (case v of
        CList xs \<Rightarrow> then_store (write_bytes (le_bytes 4 (length xs))) (store_all (map (cs_run_store enc us e) xs))
      | _ \<Rightarrow> raise_exception)"
| "cs_run_store enc us (ArrayType e) v =
     (case v of
        CList xs \<Rightarrow> then_store (write_bytes (le_bytes 4 (length xs))) (store_all (map (cs_run_store enc us e) xs))
      | _ \<Rightarrow> raise_exception)"
| "cs_run_store enc us (StaticArrayType e cnt) v =
     (case v of
        CArray xs \<Rightarrow> store_all (map (\<lambda>i. case element xs i of None \<Rightarrow> raise_exception | Some x \<Rightarrow> cs_run_store enc us e x)
          [0..<cs_number cnt])
      | _ \<Rightarrow> raise_exception)"

text \<open>A boolean is true if its byte is not zero.\<close>

definition read_primitive :: "primitive \<Rightarrow> bytes \<Rightarrow> cs_val" where
  "read_primitive p bs = CPrim (if p = P_boolean then (if bs = [0] then [0] else [1]) else bs)"

text \<open>The lines of \<open>cs_load_count\<close>. The count is signed.\<close>

definition read_count :: "bytes \<Rightarrow> int load_result" where
  "read_count bs =
     (if length bs < 4 then Refused else Loaded (sint (of_nat (le_val (take 4 bs)) :: u32)) (drop 4 bs))"

text \<open>\<open>d[key] = elmt\<close>; \<open>eq\<close> is the equality of keys.\<close>

fun dict_set :: "(cs_val \<Rightarrow> cs_val \<Rightarrow> bool) \<Rightarrow> cs_val \<Rightarrow> cs_val \<Rightarrow> (cs_val \<times> cs_val) list \<Rightarrow> (cs_val \<times> cs_val) list" where
  "dict_set eq k e [] = [(k, e)]"
| "dict_set eq k e ((k', e') # m) = (if eq k' k then (k', e) # m else (k', e') # dict_set eq k e m)"

text \<open>An exception in \<open>Load\<close> makes it return false. A loop with a negative bound makes no turn.\<close>

fun cs_run_load ::
  "encoding \<Rightarrow> (cs_val \<Rightarrow> cs_val \<Rightarrow> bool) \<Rightarrow> cs_users \<Rightarrow> var_type \<Rightarrow> cs_val \<Rightarrow> bytes \<Rightarrow> cs_val load_result" where
  "cs_run_load enc eq us (UserDefineType n) v bs = (case us n of None \<Rightarrow> IllTyped | Some u \<Rightarrow> cs_u_load u v bs)"
| "cs_run_load enc eq us (PrimitiveType p) v bs =
     (let n = prim_sizeof p in if length bs < n then Refused else Loaded (read_primitive p (take n bs)) (drop n bs))"
| "cs_run_load enc eq us StringType v bs =
     bind_load (read_count bs) (\<lambda>n bs.
       if n > int (length bs) \<or> n < 0 then Refused
       else Loaded (CString (GetString enc (take (nat n) bs))) (drop (nat n) bs))"
| "cs_run_load enc eq us (MapType k e) v bs =
     bind_load (read_count bs) (\<lambda>n bs.
       load_loop 0 (nat n) (\<lambda>i v bs.
         bind_load (cs_run_load enc eq us k (cs_fresh_val us k) bs) (\<lambda>key bs.
         bind_load (cs_run_load enc eq us e (cs_fresh_val us e) bs) (\<lambda>elmt bs.
         case v of CDict m \<Rightarrow> Loaded (CDict (dict_set eq key elmt m)) bs | _ \<Rightarrow> Refused))) v bs)"
| "cs_run_load enc eq us (ListType e) v bs =
     bind_load (read_count bs) (\<lambda>n bs.
       load_loop 0 (nat n) (\<lambda>i v bs.
         bind_load (cs_run_load enc eq us e (cs_fresh_val us e) bs) (\<lambda>x bs.
         case v of CList xs \<Rightarrow> Loaded (CList (xs @ [x])) bs | _ \<Rightarrow> Refused)) v bs)"
| "cs_run_load enc eq us (ArrayType e) v bs =
     bind_load (read_count bs) (\<lambda>n bs.
       load_loop 0 (nat n) (\<lambda>i v bs.
         bind_load (cs_run_load enc eq us e (cs_fresh_val us e) bs) (\<lambda>x bs.
         case v of CList xs \<Rightarrow> Loaded (CList (xs @ [x])) bs | _ \<Rightarrow> Refused)) v bs)"
| "cs_run_load enc eq us (StaticArrayType e cnt) v bs =
     load_loop 0 (cs_number cnt) (\<lambda>i v bs.
       bind_load (cs_run_load enc eq us e (cs_fresh_val us e) bs) (\<lambda>x bs.
       case v of CArray xs \<Rightarrow> if i < length xs then Loaded (CArray (xs[i := x])) bs else Refused | _ \<Rightarrow> Refused)) v bs"

section \<open>Named types\<close>

text \<open>An enumeration starts as 0, whatever its first name is. Its \<open>Load\<close> has no check; reading behind the end of the array
  is an exception.\<close>

definition cs_enum_user :: cs_user where
  "cs_enum_user =
     \<lparr>cs_u_fresh = CPrim (le_bytes 4 0),
      cs_u_size = (\<lambda>v. Some 4),
      cs_u_store = (\<lambda>v. case v of CPrim bs \<Rightarrow> write_bytes bs | _ \<Rightarrow> raise_exception),
      cs_u_load = (\<lambda>v bs. if length bs < 4 then Refused else Loaded (CPrim (take 4 bs)) (drop 4 bs))\<rparr>"

definition size_or_minus_1 :: "u32 option \<Rightarrow> u32" where
  "size_or_minus_1 r = (case r of None \<Rightarrow> - 1 | Some n \<Rightarrow> n)"

definition cs_typedef_user :: "encoding \<Rightarrow> (cs_val \<Rightarrow> cs_val \<Rightarrow> bool) \<Rightarrow> cs_users \<Rightarrow> var_type \<Rightarrow> cs_user" where
  "cs_typedef_user enc eq us t =
     \<lparr>cs_u_fresh = cs_fresh_val us t,
      cs_u_size = (\<lambda>v. Some (size_or_minus_1 (cs_run_size enc us t v))),
      cs_u_store = cs_run_store enc us t,
      cs_u_load = cs_run_load enc eq us t\<rparr>"

text \<open>The members of an object, in order.\<close>

fun cs_size_members :: "encoding \<Rightarrow> cs_users \<Rightarrow> (var_type \<times> string) list \<Rightarrow> (string \<times> cs_val) list \<Rightarrow> u32 option" where
  "cs_size_members enc us ((t, x) # ms) ((y, v) # fs) =
     (case (cs_run_size enc us t v, cs_size_members enc us ms fs) of (Some a, Some b) \<Rightarrow> Some (a + b) | _ \<Rightarrow> None)"
| "cs_size_members enc us _ _ = Some 0"

fun cs_store_members :: "encoding \<Rightarrow> cs_users \<Rightarrow> (var_type \<times> string) list \<Rightarrow> (string \<times> cs_val) list \<Rightarrow> store_result" where
  "cs_store_members enc us ((t, x) # ms) ((y, v) # fs) =
     then_store (cs_run_store enc us t v) (cs_store_members enc us ms fs)"
| "cs_store_members enc us _ _ = ([], True)"

fun cs_load_members ::
  "encoding \<Rightarrow> (cs_val \<Rightarrow> cs_val \<Rightarrow> bool) \<Rightarrow> cs_users \<Rightarrow> (var_type \<times> string) list \<Rightarrow> (string \<times> cs_val) list \<Rightarrow> bytes \<Rightarrow>
   (string \<times> cs_val) list load_result" where
  "cs_load_members enc eq us ((t, x) # ms) ((y, v) # fs) bs =
     bind_load (cs_run_load enc eq us t v bs) (\<lambda>v bs.
     bind_load (cs_load_members enc eq us ms fs bs) (\<lambda>fs bs. Loaded ((y, v) # fs) bs))"
| "cs_load_members enc eq us _ fs bs = Loaded fs bs"

text \<open>A call on a null object raises its exception in the serializer, outside the \<open>try\<close> of the object's function. What
  \<open>base.Store\<close> returns is not looked at.\<close>

definition cs_message_size ::
  "encoding \<Rightarrow> cs_users \<Rightarrow> cs_user option \<Rightarrow> (var_type \<times> string) list \<Rightarrow> cs_val \<Rightarrow> u32 option" where
  "cs_message_size enc us base ms v =
     (case v of
        CObject b fs \<Rightarrow> Some (size_or_minus_1
          (case (case (base, b) of (None, _) \<Rightarrow> Some 0 | (Some u, Some b) \<Rightarrow> cs_u_size u b | _ \<Rightarrow> None, cs_size_members enc us ms fs) of
             (Some a, Some n) \<Rightarrow> Some (a + n) | _ \<Rightarrow> None))
      | _ \<Rightarrow> None)"

definition cs_message_store ::
  "encoding \<Rightarrow> cs_users \<Rightarrow> cs_user option \<Rightarrow> (var_type \<times> string) list \<Rightarrow> cs_val \<Rightarrow> store_result" where
  "cs_message_store enc us base ms v =
     (case v of
        CObject b fs \<Rightarrow>
          then_store (case (base, b) of (Some u, Some b) \<Rightarrow> (fst (cs_u_store u b), True) | _ \<Rightarrow> ([], True))
            (cs_store_members enc us ms fs)
      | _ \<Rightarrow> raise_exception)"

definition cs_message_load ::
  "encoding \<Rightarrow> (cs_val \<Rightarrow> cs_val \<Rightarrow> bool) \<Rightarrow> cs_users \<Rightarrow> cs_user option \<Rightarrow> (var_type \<times> string) list \<Rightarrow> cs_val \<Rightarrow> bytes \<Rightarrow>
   cs_val load_result" where
  "cs_message_load enc eq us base ms v bs =
     (case v of
        CObject b fs \<Rightarrow>
          bind_load
            (case (base, b) of
               (Some u, Some b) \<Rightarrow> bind_load (cs_u_load u b bs) (\<lambda>b bs. Loaded (Some b) bs)
             | _ \<Rightarrow> Loaded b bs)
            (\<lambda>b bs. bind_load (cs_load_members enc eq us ms fs bs) (\<lambda>fs bs. Loaded (CObject b fs) bs))
      | _ \<Rightarrow> Refused)"

definition cs_message_user ::
  "encoding \<Rightarrow> (cs_val \<Rightarrow> cs_val \<Rightarrow> bool) \<Rightarrow> cs_users \<Rightarrow> cs_user option \<Rightarrow> (var_type \<times> string) list \<Rightarrow> cs_user" where
  "cs_message_user enc eq us base ms =
     \<lparr>cs_u_fresh = CObject (map_option cs_u_fresh base) (map (\<lambda>(t, x). (x, cs_fresh_val us t)) ms),
      cs_u_size = cs_message_size enc us base ms,
      cs_u_store = cs_message_store enc us base ms,
      cs_u_load = cs_message_load enc eq us base ms\<rparr>"

fun cs_declare_stmt :: "encoding \<Rightarrow> (cs_val \<Rightarrow> cs_val \<Rightarrow> bool) \<Rightarrow> stmt \<Rightarrow> cs_users \<Rightarrow> cs_users" where
  "cs_declare_stmt enc eq (Typedef t x) us = us(x \<mapsto> cs_typedef_user enc eq us t)"
| "cs_declare_stmt enc eq (Message n parent seq ds) us =
     us(n \<mapsto> cs_message_user enc eq us (if parent = [] then None else us parent) (members ds))"
| "cs_declare_stmt enc eq (Enum n es) us = us(n \<mapsto> cs_enum_user)"
| "cs_declare_stmt enc eq _ us = us"

definition cs_unit_users :: "encoding \<Rightarrow> (cs_val \<Rightarrow> cs_val \<Rightarrow> bool) \<Rightarrow> stmt list \<Rightarrow> cs_users" where
  "cs_unit_users enc eq stmts = fold (cs_declare_stmt enc eq) stmts Map.empty"


section \<open>The same value\<close>

text \<open>\<open>R\<close> of a named type says which objects are the same value. Strings are text that UTF-8 can carry, and no two keys of
  a dictionary are equal; it enumerates in the order of the C++ map.\<close>

type_synonym relations = "string \<Rightarrow> (cs_val \<Rightarrow> val \<Rightarrow> bool) option"

primrec same :: "encoding \<Rightarrow> (cs_val \<Rightarrow> cs_val \<Rightarrow> bool) \<Rightarrow> relations \<Rightarrow> var_type \<Rightarrow> cs_val \<Rightarrow> val \<Rightarrow> bool" where
  "same enc eq rs (PrimitiveType p) =
     (\<lambda>c v. \<exists>bs. c = CPrim bs \<and> v = VPrim bs \<and> (p = P_boolean \<longrightarrow> bs = [0] \<or> bs = [1]))"
| "same enc eq rs StringType = (\<lambda>c v. \<exists>s. c = CString s \<and> v = VString (GetBytes enc s) \<and> GetString enc (GetBytes enc s) = s
     \<and> length (GetBytes enc s) < 2 ^ 31)"
| "same enc eq rs (UserDefineType n) = (case rs n of None \<Rightarrow> (\<lambda>c v. False) | Some R \<Rightarrow> R)"
| "same enc eq rs (ListType e) =
     (\<lambda>c v. \<exists>xs ys. c = CList xs \<and> v = VSeq ys \<and> list_all2 (same enc eq rs e) xs ys \<and> length ys < 2 ^ 31)"
| "same enc eq rs (ArrayType e) =
     (\<lambda>c v. \<exists>xs ys. c = CList xs \<and> v = VSeq ys \<and> list_all2 (same enc eq rs e) xs ys \<and> length ys < 2 ^ 31)"
| "same enc eq rs (MapType k e) =
     (\<lambda>c v. \<exists>m m'. c = CDict m \<and> v = VMap m' \<and> length m' < 2 ^ 31 \<and> sorted_wrt (\<lambda>a b. \<not> eq a b) (map fst m)
       \<and> list_all2 (\<lambda>(a, b) (a', b'). same enc eq rs k a a' \<and> same enc eq rs e b b') m m')"
| "same enc eq rs (StaticArrayType e cnt) =
     (\<lambda>c v. \<exists>xs ys. c = CArray xs \<and> v = VArray ys \<and> list_all2 (same enc eq rs e) xs ys \<and> length xs = cs_number cnt)"

text \<open>What a named type promises for two values that are the same: both sides store the same bytes and count them alike,
  and a new C# object loads them.\<close>

definition interchange :: "user \<Rightarrow> cs_user \<Rightarrow> cs_val \<Rightarrow> val \<Rightarrow> bool" where
  "interchange u cu c v \<longleftrightarrow> (\<exists>b. u_store u v = Some b \<and> cs_u_store cu c = (b, True) \<and> cs_u_size cu c = Some (of_nat (length b)) \<and>
     (\<forall>rest. cs_u_load cu (cs_u_fresh cu) (b @ rest) = Loaded c rest))"

definition agree :: "users \<Rightarrow> cs_users \<Rightarrow> relations \<Rightarrow> bool" where
  "agree us cus rs \<longleftrightarrow> (\<forall>n u. us n = Some u \<longrightarrow> (\<exists>cu. cus n = Some cu) \<and> (\<exists>R. rs n = Some R)) \<and>
     (\<forall>n u cu R c v. us n = Some u \<longrightarrow> cus n = Some cu \<longrightarrow> rs n = Some R \<longrightarrow> u_ok u v \<longrightarrow> R c v \<longrightarrow> interchange u cu c v)"

lemma agreeE:
  assumes "agree us cus rs" and "us n = Some u" and "rs n = Some R" and "u_ok u v" and "R c v"
  obtains cu b where "cus n = Some cu" "u_store u v = Some b" "cs_u_store cu c = (b, True)"
    "cs_u_size cu c = Some (of_nat (length b))" "\<And>rest. cs_u_load cu (cs_u_fresh cu) (b @ rest) = Loaded c rest"
  using assms unfolding agree_def interchange_def by metis

section \<open>A variable\<close>

declare le_bytes_numeral [simp del]

lemma store_all_ok: "store_all (map (\<lambda>x. (f x, True)) xs) = (concat (map f xs), True)"
  by (induction xs) (simp_all add: store_all_def then_store_def)

lemma store_all_related:
  assumes "list_all2 R xs ys" and "\<And>x y. R x y \<Longrightarrow> y \<in> set ys \<Longrightarrow> f x = (w y, True)"
  shows "store_all (map f xs) = (concat (map w ys), True)"
  using assms by (induction rule: list_all2_induct) (simp_all add: store_all_def then_store_def)

lemma traverse_related:
  assumes "list_all2 R xs ys" and "\<And>x y. R x y \<Longrightarrow> y \<in> set ys \<Longrightarrow> f x = Some (g y)"
  shows "traverse f xs = Some (map g ys)"
  using assms by (induction rule: list_all2_induct) simp_all

lemma sum_list_of_nat: "sum_list (map (\<lambda>y. of_nat (f y)) ys) = of_nat (sum_list (map f ys))"
  by (induction ys) simp_all

lemma length_concat_map: "length (concat (map f ys)) = sum_list (map (\<lambda>y. length (f y)) ys)"
  by (simp add: length_concat comp_def)

lemma cs_store_elmt:
  "agree us cus rs \<Longrightarrow> elmt_type us t \<Longrightarrow> val_ok us lt t v \<Longrightarrow> same enc eq rs t c v \<Longrightarrow>
   cs_run_store enc cus t c = (wire us t v, True)"
proof (induction t arbitrary: c v)
  case (PrimitiveType p)
  then show ?case by (auto simp: write_bytes_def)
next
  case StringType
  then show ?case by (auto simp: write_bytes_def then_store_def)
next
  case (UserDefineType n)
  then obtain u R where "us n = Some u" "rs n = Some R" "u_ok u v" "R c v" by (auto split: option.splits)
  then show ?case using agreeE [OF UserDefineType.prems(1)] by fastforce
next
  case (ListType e)
  then obtain xs ys where c: "c = CList xs" "v = VSeq ys" and rel: "list_all2 (same enc eq rs e) xs ys" by auto
  have "store_all (map (cs_run_store enc cus e) xs) = (concat (map (wire us e) ys), True)"
    by (rule store_all_related [OF rel]) (use ListType c in \<open>auto simp: list_all_iff\<close>)
  then show ?case using c list_all2_lengthD [OF rel] by (simp add: then_store_def write_bytes_def)
next
  case (ArrayType e)
  then obtain xs ys where c: "c = CList xs" "v = VSeq ys" and rel: "list_all2 (same enc eq rs e) xs ys" by auto
  have "store_all (map (cs_run_store enc cus e) xs) = (concat (map (wire us e) ys), True)"
    by (rule store_all_related [OF rel]) (use ArrayType c in \<open>auto simp: list_all_iff\<close>)
  then show ?case using c list_all2_lengthD [OF rel] by (simp add: then_store_def write_bytes_def)
next
  case (MapType k e)
  then obtain m m' where c: "c = CDict m" "v = VMap m'"
    and rel: "list_all2 (\<lambda>(a, b) (a', b'). same enc eq rs k a a' \<and> same enc eq rs e b b') m m'" by auto
  have "store_all (map (\<lambda>(key, elmt). then_store (cs_run_store enc cus k key) (cs_run_store enc cus e elmt)) m)
      = (concat (map (\<lambda>(a, b). wire us k a @ wire us e b) m'), True)"
    by (rule store_all_related [OF rel]) (use MapType c in \<open>auto simp: list_all_iff then_store_def\<close>)
  then show ?case using c list_all2_lengthD [OF rel] by (simp add: then_store_def write_bytes_def)
qed simp

lemma cs_size_elmt:
  "agree us cus rs \<Longrightarrow> elmt_type us t \<Longrightarrow> val_ok us lt t v \<Longrightarrow> same enc eq rs t c v \<Longrightarrow>
   cs_run_size enc cus t c = Some (of_nat (length (wire us t v)))"
proof (induction t arbitrary: c v)
  case (PrimitiveType p)
  then show ?case by auto
next
  case StringType
  then show ?case by auto
next
  case (UserDefineType n)
  then obtain u R where "us n = Some u" "rs n = Some R" "u_ok u v" "R c v" by (auto split: option.splits)
  then show ?case using agreeE [OF UserDefineType.prems(1)] by fastforce
next
  case (ListType e)
  then obtain xs ys where c: "c = CList xs" "v = VSeq ys" and rel: "list_all2 (same enc eq rs e) xs ys" by auto
  have "traverse (cs_run_size enc cus e) xs = Some (map (\<lambda>y. of_nat (length (wire us e y))) ys)"
    by (rule traverse_related [OF rel]) (use ListType c in \<open>auto simp: list_all_iff\<close>)
  then show ?case using c by (simp add: sum_list_of_nat length_concat_map)
next
  case (ArrayType e)
  then obtain xs ys where c: "c = CList xs" "v = VSeq ys" and rel: "list_all2 (same enc eq rs e) xs ys" by auto
  have "traverse (cs_run_size enc cus e) xs = Some (map (\<lambda>y. of_nat (length (wire us e y))) ys)"
    by (rule traverse_related [OF rel]) (use ArrayType c in \<open>auto simp: list_all_iff\<close>)
  then show ?case using c by (simp add: sum_list_of_nat length_concat_map)
next
  case (MapType k e)
  then obtain m m' where c: "c = CDict m" "v = VMap m'"
    and rel: "list_all2 (\<lambda>(a, b) (a', b'). same enc eq rs k a a' \<and> same enc eq rs e b b') m m'" by auto
  have "traverse (\<lambda>(key, elmt). case (cs_run_size enc cus k key, cs_run_size enc cus e elmt) of
      (Some a, Some b) \<Rightarrow> Some (a + b) | _ \<Rightarrow> None) m
    = Some (map (\<lambda>y. of_nat (length (case y of (a, b) \<Rightarrow> wire us k a @ wire us e b))) m')"
    by (rule traverse_related [OF rel]) (use MapType c in \<open>auto simp: list_all_iff\<close>)
  then show ?case using c by (simp add: sum_list_of_nat length_concat_map)
qed simp

text \<open>The loops, over the elements of both sides.\<close>

lemma read_count_stored:
  assumes "n < 2 ^ 31"
  shows "read_count (le_bytes 4 n @ rest) = Loaded (int n) rest"
proof -
  have "sint (of_nat n :: u32) = signed_take_bit 31 (int n)" by (simp add: signed_of_nat)
  also have "\<dots> = int n" using assms by (simp add: signed_take_bit_int_eq_self)
  finally show ?thesis using assms by (simp add: read_count_def)
qed

definition list_body :: "(bytes \<Rightarrow> cs_val load_result) \<Rightarrow> nat \<Rightarrow> cs_val \<Rightarrow> bytes \<Rightarrow> cs_val load_result" where
  "list_body load i v bs =
     bind_load (load bs) (\<lambda>x bs. case v of CList xs \<Rightarrow> Loaded (CList (xs @ [x])) bs | _ \<Rightarrow> Refused)"

lemma cs_load_list:
  assumes "list_all2 R xs ys" and "\<And>x y rest. R x y \<Longrightarrow> y \<in> set ys \<Longrightarrow> load (w y @ rest) = Loaded x rest"
  shows "load_loop i (length ys) (list_body load) (CList old) (concat (map w ys) @ rest) = Loaded (CList (old @ xs)) rest"
  using assms by (induction arbitrary: i old rule: list_all2_induct) (simp_all add: list_body_def)

definition dict_body ::
  "(cs_val \<Rightarrow> cs_val \<Rightarrow> bool) \<Rightarrow> (bytes \<Rightarrow> cs_val load_result) \<Rightarrow> (bytes \<Rightarrow> cs_val load_result) \<Rightarrow>
   nat \<Rightarrow> cs_val \<Rightarrow> bytes \<Rightarrow> cs_val load_result" where
  "dict_body eq load_key load_elmt i v bs =
     bind_load (load_key bs) (\<lambda>key bs. bind_load (load_elmt bs) (\<lambda>elmt bs.
       case v of CDict m \<Rightarrow> Loaded (CDict (dict_set eq key elmt m)) bs | _ \<Rightarrow> Refused))"

lemma dict_set_new: "\<forall>a\<in>fst ` set m. \<not> eq a k \<Longrightarrow> dict_set eq k e m = m @ [(k, e)]"
  by (induction m) auto

lemma cs_load_dict:
  assumes "list_all2 R m m'"
    and "\<And>a b a' b' rest. R (a, b) (a', b') \<Longrightarrow> (a', b') \<in> set m' \<Longrightarrow> load_key (wk a' @ rest) = Loaded a rest \<and> load_elmt (we b' @ rest) = Loaded b rest"
    and "sorted_wrt (\<lambda>a b. \<not> eq a b) (map fst (old @ m))"
  shows "load_loop i (length m') (dict_body eq load_key load_elmt) (CDict old) (concat (map (\<lambda>(a, b). wk a @ we b) m') @ rest)
    = Loaded (CDict (old @ m)) rest"
  using assms
proof (induction arbitrary: i old rule: list_all2_induct)
  case (Cons x xs y ys)
  obtain a b a' b' where xy: "x = (a, b)" "y = (a', b')" by (metis surj_pair)
  have "\<forall>k\<in>fst ` set old. \<not> eq k a" using Cons.prems(2) xy by (auto simp: sorted_wrt_append)
  then have "dict_set eq a b old = old @ [x]" using xy dict_set_new by simp
  then show ?case using Cons.IH [of "old @ [x]" "i + 1"] Cons.prems Cons.hyps(1) xy by (simp add: dict_body_def)
qed simp

definition array_body :: "(bytes \<Rightarrow> cs_val load_result) \<Rightarrow> nat \<Rightarrow> cs_val \<Rightarrow> bytes \<Rightarrow> cs_val load_result" where
  "array_body load i v bs =
     bind_load (load bs) (\<lambda>x bs.
       case v of CArray xs \<Rightarrow> if i < length xs then Loaded (CArray (xs[i := x])) bs else Refused | _ \<Rightarrow> Refused)"

lemma cs_load_array:
  assumes "list_all2 R xs ys" and "\<And>x y rest. R x y \<Longrightarrow> y \<in> set ys \<Longrightarrow> load (w y @ rest) = Loaded x rest"
    and "length old = length ys"
  shows "load_loop (length ds) (length ys) (array_body load) (CArray (ds @ old)) (concat (map w ys) @ rest) = Loaded (CArray (ds @ xs)) rest"
  using assms
proof (induction arbitrary: ds old rule: list_all2_induct)
  case (Cons x xs y ys)
  then obtain z old' where old: "old = z # old'" by (cases old) auto
  have "load_loop (length (ds @ [x])) (length ys) (array_body load) (CArray ((ds @ [x]) @ old')) (concat (map w ys) @ rest)
      = Loaded (CArray ((ds @ [x]) @ xs)) rest"
    using Cons old by (intro Cons.IH) auto
  moreover have "array_body load (length ds) (CArray (ds @ old)) (w y @ concat (map w ys) @ rest) = Loaded (CArray (ds @ x # old')) (concat (map w ys) @ rest)"
    using Cons.prems Cons.hyps(1) old by (simp add: array_body_def)
  ultimately show ?case by simp
qed simp

lemma cs_run_load_loops:
  "cs_run_load enc eq us (ListType e) v bs = bind_load (read_count bs) (\<lambda>n bs. load_loop 0 (nat n)
     (list_body (cs_run_load enc eq us e (cs_fresh_val us e))) v bs)"
  "cs_run_load enc eq us (ArrayType e) v bs = bind_load (read_count bs) (\<lambda>n bs. load_loop 0 (nat n)
     (list_body (cs_run_load enc eq us e (cs_fresh_val us e))) v bs)"
  "cs_run_load enc eq us (MapType k e) v bs = bind_load (read_count bs) (\<lambda>n bs. load_loop 0 (nat n)
     (dict_body eq (cs_run_load enc eq us k (cs_fresh_val us k)) (cs_run_load enc eq us e (cs_fresh_val us e))) v bs)"
  "cs_run_load enc eq us (StaticArrayType e cnt) v bs = load_loop 0 (cs_number cnt)
     (array_body (cs_run_load enc eq us e (cs_fresh_val us e))) v bs"
  unfolding list_body_def [abs_def] dict_body_def [abs_def] array_body_def [abs_def] by simp_all

lemma cs_load_elmt:
  "agree us cus rs \<Longrightarrow> elmt_type us t \<Longrightarrow> val_ok us lt t v \<Longrightarrow> same enc eq rs t c v \<Longrightarrow>
   cs_run_load enc eq cus t (cs_fresh_val cus t) (wire us t v @ rest) = Loaded c rest"
proof (induction t arbitrary: c v rest)
  case (PrimitiveType p)
  then show ?case by (auto simp: Let_def read_primitive_def)
next
  case StringType
  then show ?case by (auto simp: read_count_stored)
next
  case (UserDefineType n)
  then obtain u R where "us n = Some u" "rs n = Some R" "u_ok u v" "R c v" by (auto split: option.splits)
  then show ?case using agreeE [OF UserDefineType.prems(1)] by fastforce
next
  case (ListType e)
  then obtain xs ys where c: "c = CList xs" "v = VSeq ys" "length ys < 2 ^ 31" and rel: "list_all2 (same enc eq rs e) xs ys" by auto
  have "load_loop 0 (length ys) (list_body (cs_run_load enc eq cus e (cs_fresh_val cus e))) (CList []) (concat (map (wire us e) ys) @ rest)
      = Loaded (CList ([] @ xs)) rest"
    by (rule cs_load_list [OF rel]) (use ListType c in \<open>auto simp: list_all_iff\<close>)
  then show ?case using c by (simp add: cs_run_load_loops read_count_stored del: cs_run_load.simps)
next
  case (ArrayType e)
  then obtain xs ys where c: "c = CList xs" "v = VSeq ys" "length ys < 2 ^ 31" and rel: "list_all2 (same enc eq rs e) xs ys" by auto
  have "load_loop 0 (length ys) (list_body (cs_run_load enc eq cus e (cs_fresh_val cus e))) (CList []) (concat (map (wire us e) ys) @ rest)
      = Loaded (CList ([] @ xs)) rest"
    by (rule cs_load_list [OF rel]) (use ArrayType c in \<open>auto simp: list_all_iff\<close>)
  then show ?case using c by (simp add: cs_run_load_loops read_count_stored del: cs_run_load.simps)
next
  case (MapType k e)
  then obtain m m' where c: "c = CDict m" "v = VMap m'" "length m' < 2 ^ 31" and keys: "sorted_wrt (\<lambda>a b. \<not> eq a b) (map fst ([] @ m))"
    and rel: "list_all2 (\<lambda>(a, b) (a', b'). same enc eq rs k a a' \<and> same enc eq rs e b b') m m'" by auto
  have "load_loop 0 (length m') (dict_body eq (cs_run_load enc eq cus k (cs_fresh_val cus k)) (cs_run_load enc eq cus e (cs_fresh_val cus e)))
      (CDict []) (concat (map (\<lambda>(a, b). wire us k a @ wire us e b) m') @ rest) = Loaded (CDict ([] @ m)) rest"
    by (rule cs_load_dict [OF rel _ keys]) (use MapType c in \<open>auto simp: list_all_iff\<close>)
  then show ?case using c by (simp add: cs_run_load_loops read_count_stored del: cs_run_load.simps)
qed simp

section \<open>Members and messages\<close>

text \<open>In C# the elements of a static array are primitives or named types, and both languages must read its length alike.\<close>

fun cs_member_type :: "var_type \<Rightarrow> bool" where
  "cs_member_type (StaticArrayType e cnt) = (e \<noteq> StringType \<and> cs_number cnt = c_number cnt)"
| "cs_member_type t = True"

lemma map_element: "map (\<lambda>i. case element xs i of None \<Rightarrow> d | Some x \<Rightarrow> f x) [0..<length xs] = map f xs"
  by (rule nth_equalityI) (simp_all add: element_def)

lemma traverse_cong: "(\<And>x. x \<in> set xs \<Longrightarrow> f x = g x) \<Longrightarrow> traverse f xs = traverse g xs"
proof (induction xs)
  case (Cons x xs)
  then have "f x = g x" and "traverse f xs = traverse g xs" by simp_all
  then show ?case by (simp only: traverse.simps)
qed simp

lemma traverse_comp: "traverse f (map h xs) = traverse (\<lambda>x. f (h x)) xs"
proof (induction xs)
  case (Cons x xs)
  then show ?case by (simp only: traverse.simps list.map)
qed simp

lemma traverse_element:
  "traverse (\<lambda>i. case element xs i of None \<Rightarrow> None | Some x \<Rightarrow> f x) [0..<length xs] = traverse f xs"
proof -
  have "traverse (\<lambda>i. case element xs i of None \<Rightarrow> None | Some x \<Rightarrow> f x) [0..<length xs] = traverse (\<lambda>i. f (xs ! i)) [0..<length xs]"
    by (rule traverse_cong) (simp add: element_def)
  also have "\<dots> = traverse f xs" using traverse_comp [of f "\<lambda>i. xs ! i" "[0..<length xs]"] by (simp only: map_nth)
  finally show ?thesis .
qed

lemma cs_member_values:
  assumes "agree us cus rs" and "member_type us t" and "cs_member_type t" and "val_ok us lt t v" and "same enc eq rs t c v"
  shows "cs_run_store enc cus t c = (wire us t v, True)"
    and "cs_run_size enc cus t c = Some (of_nat (length (wire us t v)))"
    and "cs_run_load enc eq cus t (cs_fresh_val cus t) (wire us t v @ rest) = Loaded c rest"
proof -
  have "cs_run_store enc cus t c = (wire us t v, True) \<and> cs_run_size enc cus t c = Some (of_nat (length (wire us t v)))
    \<and> cs_run_load enc eq cus t (cs_fresh_val cus t) (wire us t v @ rest) = Loaded c rest"
  proof (cases "\<exists>e cnt. t = StaticArrayType e cnt")
    case False
    then have "elmt_type us t" using assms(2) by (cases t) auto
    then show ?thesis
      using cs_store_elmt [OF assms(1) _ assms(4, 5)] cs_size_elmt [OF assms(1) _ assms(4, 5)] cs_load_elmt [OF assms(1) _ assms(4, 5)]
      by blast
  next
    case True
    then obtain e cnt where t: "t = StaticArrayType e cnt" by blast
    have e: "elmt_type us e" and cnt: "c_number cnt = cs_number cnt" using t assms(2, 3) by simp_all
    obtain xs ys where c: "c = CArray xs" "v = VArray ys" and len: "length xs = cs_number cnt" "length ys = cs_number cnt"
      and rel: "list_all2 (same enc eq rs e) xs ys" and ok: "\<And>y. y \<in> set ys \<Longrightarrow> val_ok us lt e y"
      using assms(4, 5) t cnt by (auto simp: list_all_iff)
    have "store_all (map (cs_run_store enc cus e) xs) = (concat (map (wire us e) ys), True)"
      by (rule store_all_related [OF rel]) (rule cs_store_elmt [OF assms(1) e ok])
    then have store: "cs_run_store enc cus t c = (wire us t v, True)"
      using t c map_element [of raise_exception "cs_run_store enc cus e" xs] len by simp
    have sizes: "traverse (cs_run_size enc cus e) xs = Some (map (\<lambda>y. of_nat (length (wire us e y))) ys)"
      by (rule traverse_related [OF rel]) (rule cs_size_elmt [OF assms(1) e ok])
    have size: "cs_run_size enc cus t c = Some (of_nat (length (wire us t v)))"
    proof (cases "\<exists>p. e = PrimitiveType p")
      case True
      then obtain p where p: "e = PrimitiveType p" by blast
      have "length (concat (map (wire us e) ys)) = prim_sizeof p * length ys"
        using static_primitive(2) [of ys us lt p] ok p by simp
      then show ?thesis using t p c len by simp
    next
      case False
      then have "cs_run_size enc cus t c = map_option sum_list
          (traverse (\<lambda>i. case element xs i of None \<Rightarrow> None | Some x \<Rightarrow> cs_run_size enc cus e x) [0..<length xs])"
        unfolding t c len(1) using False by (simp split: var_type.split)
      then show ?thesis
        using t c unfolding traverse_element sizes by (simp add: sum_list_of_nat length_concat_map)
    qed
    have "load_loop (length ([] :: cs_val list)) (length ys) (array_body (cs_run_load enc eq cus e (cs_fresh_val cus e)))
        (CArray ([] @ replicate (cs_number cnt) (cs_fresh_val cus e))) (concat (map (wire us e) ys) @ rest) = Loaded (CArray ([] @ xs)) rest"
      by (rule cs_load_array [OF rel]) (use cs_load_elmt [OF assms(1) e ok] len in auto)
    then have "cs_run_load enc eq cus t (cs_fresh_val cus t) (wire us t v @ rest) = Loaded c rest"
      using t c len by (simp add: cs_run_load_loops del: cs_run_load.simps)
    then show ?thesis using store size by blast
  qed
  then show "cs_run_store enc cus t c = (wire us t v, True)" "cs_run_size enc cus t c = Some (of_nat (length (wire us t v)))"
    "cs_run_load enc eq cus t (cs_fresh_val cus t) (wire us t v @ rest) = Loaded c rest" by blast+
qed


fun same_members ::
  "encoding \<Rightarrow> (cs_val \<Rightarrow> cs_val \<Rightarrow> bool) \<Rightarrow> relations \<Rightarrow> (var_type \<times> string) list \<Rightarrow> (string \<times> cs_val) list \<Rightarrow> (string \<times> val) list \<Rightarrow> bool" where
  "same_members enc eq rs [] [] [] = True"
| "same_members enc eq rs ((t, x) # ms) ((y, c) # fs) ((z, v) # gs) =
     (y = x \<and> z = x \<and> same enc eq rs t c v \<and> same_members enc eq rs ms fs gs)"
| "same_members enc eq rs _ _ _ = False"

definition same_message ::
  "encoding \<Rightarrow> (cs_val \<Rightarrow> cs_val \<Rightarrow> bool) \<Rightarrow> relations \<Rightarrow> (cs_val \<Rightarrow> val \<Rightarrow> bool) option \<Rightarrow> (var_type \<times> string) list \<Rightarrow>
   cs_val \<Rightarrow> val \<Rightarrow> bool" where
  "same_message enc eq rs base ms c v \<longleftrightarrow>
     (\<exists>cb fs b gs. c = CObject cb fs \<and> v = VObject b gs \<and> same_members enc eq rs ms fs gs \<and>
       (case base of None \<Rightarrow> cb = None \<and> b = None | Some R \<Rightarrow> (\<exists>cb' b'. cb = Some cb' \<and> b = Some b' \<and> R cb' b')))"

lemma cs_members:
  "agree us cus rs \<Longrightarrow> same_members enc eq rs ms fs gs \<Longrightarrow> \<forall>(t, x)\<in>set ms. member_type us t \<and> cs_member_type t \<Longrightarrow>
    list_all (\<lambda>((t, x), v). val_ok us lt t v) (zip ms (map snd gs)) \<Longrightarrow>
    cs_store_members enc cus ms fs = (wires us (zip ms (map snd gs)), True) \<and>
    cs_size_members enc cus ms fs = Some (of_nat (length (wires us (zip ms (map snd gs))))) \<and>
    cs_load_members enc eq cus ms (map (\<lambda>(t, x). (x, cs_fresh_val cus t)) ms) (wires us (zip ms (map snd gs)) @ rest) = Loaded fs rest"
proof (induction enc eq rs ms fs gs arbitrary: rest rule: same_members.induct)
  case (2 enc eq rs t x ms y c fs z v gs)
  then have c: "same enc eq rs t c v" "val_ok us lt t v" "member_type us t" "cs_member_type t" by auto
  note first = cs_member_values [OF "2.prems"(1) c(3, 4, 2, 1)]
  have "cs_store_members enc cus ms fs = (wires us (zip ms (map snd gs)), True) \<and>
    cs_size_members enc cus ms fs = Some (of_nat (length (wires us (zip ms (map snd gs))))) \<and>
    cs_load_members enc eq cus ms (map (\<lambda>(t, x). (x, cs_fresh_val cus t)) ms) (wires us (zip ms (map snd gs)) @ rest) = Loaded fs rest"
    by (rule "2.IH") (use "2.prems" in auto)
  then show ?case using first "2.prems"(2) by (simp add: wires_def then_store_def)
qed (simp_all add: wires_def)

text \<open>The C++ side of a message: the bytes of its base class, then those of its members.\<close>

lemma message_store_wires:
  assumes "users_ok us" and types: "\<forall>(t, x)\<in>set ms. member_type us t" and dist: "distinct (map snd ms)"
    and captures: "no_capture (snd ` set ms)" and ok: "message_ok us lt base ms (VObject b gs)"
  shows "store_members us ms (member_frame gs) = Some (wires us (zip ms (map snd gs)))"
proof -
  note members = message_members [OF types dist ok]
  have "no_capture (names_of (zip ms (map snd gs)))" using captures members(1) by (metis list.set_map)
  then show ?thesis using store_members_typed [OF assms(1) members(2) _ members(4)] members(1) by simp
qed

lemma message_interchange:
  assumes "users_ok us" and "agree us cus rs"
    and types: "\<forall>(t, x)\<in>set ms. member_type us t" "\<forall>(t, x)\<in>set ms. cs_member_type t" and dist: "distinct (map snd ms)"
    and captures: "no_capture (snd ` set ms)"
    and base: "\<And>u. base = Some u \<Longrightarrow> \<exists>cu R. cbase = Some cu \<and> rbase = Some R \<and> (\<forall>c v. u_ok u v \<longrightarrow> R c v \<longrightarrow> interchange u cu c v)"
      "base = None \<Longrightarrow> cbase = None \<and> rbase = None"
    and ok: "message_ok us lt base ms v" and same: "same_message enc eq rs rbase ms c v"
  shows "interchange (message_user us lt base ms) (cs_message_user enc eq cus cbase ms) c v"
proof -
  obtain cb fs b gs where c: "c = CObject cb fs" "v = VObject b gs" and rel: "same_members enc eq rs ms fs gs"
    and parents: "case rbase of None \<Rightarrow> cb = None \<and> b = None | Some R \<Rightarrow> (\<exists>cb' b'. cb = Some cb' \<and> b = Some b' \<and> R cb' b')"
    using same by (auto simp: same_message_def)
  let ?w = "wires us (zip ms (map snd gs))"
  have store: "store_members us ms (member_frame gs) = Some ?w"
    by (rule message_store_wires [OF assms(1) types(1) dist captures ok [unfolded c]])
  have typed: "list_all (\<lambda>((t, x), v). val_ok us lt t v) (zip ms (map snd gs))" using ok c by (simp add: message_ok_def)
  have both: "\<forall>(t, x)\<in>set ms. member_type us t \<and> cs_member_type t" using types by auto
  note members = cs_members [OF assms(2) rel both typed]
  show ?thesis
  proof (cases base)
    case None
    with base(2) parents have none: "cbase = None" "cb = None" "b = None" by auto
    show ?thesis using None none c store members
      by (simp add: interchange_def message_user_def message_store_def cs_message_user_def cs_message_store_def cs_message_size_def
          cs_message_load_def size_or_minus_1_def then_store_def)
  next
    case (Some u)
    obtain cu R where cu: "cbase = Some cu" "rbase = Some R" and ex: "\<And>c v. u_ok u v \<Longrightarrow> R c v \<Longrightarrow> interchange u cu c v"
      using base(1) [OF Some] by blast
    obtain cb' b' where b: "cb = Some cb'" "b = Some b'" "R cb' b'" using parents cu by auto
    have "u_ok u b'" using ok Some c b by (simp add: message_ok_def)
    then obtain bs where bs: "u_store u b' = Some bs" "cs_u_store cu cb' = (bs, True)" "cs_u_size cu cb' = Some (of_nat (length bs))"
      "\<And>rest. cs_u_load cu (cs_u_fresh cu) (bs @ rest) = Loaded cb' rest"
      using ex [OF _ b(3)] by (auto simp: interchange_def)
    show ?thesis using Some cu b bs c store members
      by (simp add: interchange_def message_user_def message_store_def cs_message_user_def cs_message_store_def cs_message_size_def
          cs_message_load_def size_or_minus_1_def then_store_def)
  qed
qed

section \<open>Parse trees\<close>

definition same_enum :: "cs_val \<Rightarrow> val \<Rightarrow> bool" where
  "same_enum c v \<longleftrightarrow> (\<exists>bs. c = CPrim bs \<and> v = VPrim bs)"

fun same_stmt :: "encoding \<Rightarrow> (cs_val \<Rightarrow> cs_val \<Rightarrow> bool) \<Rightarrow> stmt \<Rightarrow> relations \<Rightarrow> relations" where
  "same_stmt enc eq (Typedef t x) rs = rs(x \<mapsto> same enc eq rs t)"
| "same_stmt enc eq (Message n parent seq ds) rs =
     rs(n \<mapsto> same_message enc eq rs (if parent = [] then None else rs parent) (members ds))"
| "same_stmt enc eq (Enum n es) rs = rs(n \<mapsto> same_enum)"
| "same_stmt enc eq _ rs = rs"

definition unit_same :: "encoding \<Rightarrow> (cs_val \<Rightarrow> cs_val \<Rightarrow> bool) \<Rightarrow> stmt list \<Rightarrow> relations" where
  "unit_same enc eq stmts = fold (same_stmt enc eq) stmts Map.empty"

fun cs_stmt_ok :: "stmt \<Rightarrow> bool" where
  "cs_stmt_ok (Message n parent seq ds) = list_all (\<lambda>(t, x). cs_member_type t) (members ds)"
| "cs_stmt_ok _ = True"

lemma agree_update:
  assumes "agree us cus rs" and "\<And>c v. u_ok u v \<Longrightarrow> R c v \<Longrightarrow> interchange u cu c v"
  shows "agree (us(n \<mapsto> u)) (cus(n \<mapsto> cu)) (rs(n \<mapsto> R))"
  using assms unfolding agree_def by (auto split: if_splits)

lemma agree_declare:
  assumes us: "users_ok us" and agree: "agree us cus rs" and dom: "dom cus = dom us" "dom rs = dom us"
    and ok: "stmt_ok us s" "cs_stmt_ok s"
  shows "agree (declare_stmt lt s us) (cs_declare_stmt enc eq s cus) (same_stmt enc eq s rs)"
proof (cases s)
  case (Message n parent seq ds)
  let ?p = "\<lambda>m. if parent = [] then None else m parent"
  have parents: "\<exists>cu R. ?p cus = Some cu \<and> ?p rs = Some R \<and> (\<forall>c v. u_ok u v \<longrightarrow> R c v \<longrightarrow> interchange u cu c v)"
    if "?p us = Some u" for u
    using agree that unfolding agree_def by (cases "parent = []") (simp_all, blast)
  have none: "?p us = None \<Longrightarrow> ?p cus = None \<and> ?p rs = None" using dom by (auto split: if_splits)
  have "interchange (message_user us lt (?p us) (members ds)) (cs_message_user enc eq cus (?p cus) (members ds)) c v"
    if "u_ok (message_user us lt (?p us) (members ds)) v" "same_message enc eq rs (?p rs) (members ds) c v" for c v
    by (rule message_interchange [OF us agree _ _ _ _ parents none _ that(2)])
      (use ok Message that(1) in \<open>auto simp: message_user_def list_all_iff\<close>)
  then show ?thesis using Message agree_update [OF agree] by simp
next
  case (Typedef t x)
  have "interchange (typedef_user us lt t) (cs_typedef_user enc eq cus t) c v"
    if "u_ok (typedef_user us lt t) v" "same enc eq rs t c v" for c v
  proof -
    have t: "elmt_type us t" "val_ok us lt t v" using ok(1) Typedef that(1) by (simp_all add: typedef_user_def)
    have "get ''obj'' (param_frame v) = Some v" by (simp add: get_def param_frame_def)
    then obtain f' where "run_store us t ''obj'' (param_frame v) = Some (f', wire us t v)"
      using run_store_elmt [OF us t] by blast
    then show ?thesis
      using cs_store_elmt [OF agree t that(2)] cs_size_elmt [OF agree t that(2)] cs_load_elmt [OF agree t that(2)]
      by (simp add: interchange_def typedef_user_def cs_typedef_user_def size_or_minus_1_def)
  qed
  then show ?thesis using Typedef agree_update [OF agree] by simp
next
  case (Enum n es)
  have "interchange (enum_user m) cs_enum_user c v" if "u_ok (enum_user m) v" "same_enum c v" for c v m
    using that by (auto simp: interchange_def enum_user_def cs_enum_user_def same_enum_def write_bytes_def)
  then show ?thesis using Enum agree_update [OF agree] by simp
qed (use agree in simp_all)

lemma dom_declare:
  "dom (declare_stmt lt s us) = dom us \<union> dom (declare_stmt lt s Map.empty)"
  "dom (cs_declare_stmt enc eq s cus) = dom cus \<union> dom (declare_stmt lt s Map.empty)"
  "dom (same_stmt enc eq s rs) = dom rs \<union> dom (declare_stmt lt s Map.empty)"
  by (cases s; auto)+

lemma agree_fold:
  "stmts_ok lt us ss \<Longrightarrow> list_all cs_stmt_ok ss \<Longrightarrow> users_ok us \<Longrightarrow> agree us cus rs \<Longrightarrow> dom cus = dom us \<Longrightarrow> dom rs = dom us \<Longrightarrow>
   agree (fold (declare_stmt lt) ss us) (fold (cs_declare_stmt enc eq) ss cus) (fold (same_stmt enc eq) ss rs)"
proof (induction ss arbitrary: us cus rs)
  case (Cons s ss)
  have "agree (declare_stmt lt s us) (cs_declare_stmt enc eq s cus) (same_stmt enc eq s rs)"
    by (rule agree_declare) (use Cons.prems in simp_all)
  moreover have "users_ok (declare_stmt lt s us)" by (rule users_ok_declare) (use Cons.prems in simp_all)
  moreover have "dom (cs_declare_stmt enc eq s cus) = dom (declare_stmt lt s us)" "dom (same_stmt enc eq s rs) = dom (declare_stmt lt s us)"
    using dom_declare [where s = s and lt = lt] Cons.prems by metis+
  ultimately show ?case using Cons.IH [of "declare_stmt lt s us" "cs_declare_stmt enc eq s cus" "same_stmt enc eq s rs"] Cons.prems by simp
qed simp

lemma unit_agree:
  assumes "stmts_ok lt Map.empty stmts" and "list_all cs_stmt_ok stmts"
  shows "agree (unit_users lt stmts) (cs_unit_users enc eq stmts) (unit_same enc eq stmts)"
  unfolding unit_users_def cs_unit_users_def unit_same_def
  by (rule agree_fold [OF assms]) (simp_all add: users_ok_def agree_def)



text \<open>Characters of the first 256 code points, one byte each.\<close>

definition latin :: encoding where
  "latin = \<lparr>GetBytes = map ucast, GetString = map ucast\<rparr>"

definition cs_demo_player :: cs_val where
  "cs_demo_player = CObject (Some (CObject None [(''rank'', CPrim [16, 0, 0, 0])]))
     [(''names'', CDict [(CPrim [1, 0], CList [CString [65], CString []]), (CPrim [0, 1], CList [])]),
      (''tag'', CArray [CPrim [1], CPrim [2], CPrim [3]])]"


section \<open>Where the two differ\<close>

text \<open>A number with a leading zero is octal in C++ and decimal in C#.\<close>

lemma octal_lengths_differ: "c_number ''010'' = 8 \<and> cs_number ''010'' = 10"
  by (simp add: c_number_def cs_number_def number_value_def digit_value_def)

text \<open>The count of a list is unsigned in C++ and signed in C#. When its highest bit is set, the C# code accepts the bytes and
  leaves the list as it was, for any element type; the C++ code tries to read the elements, and returns false when not
  even the first one is there.\<close>

theorem count_sign_differs:
  assumes "2 ^ 31 \<le> n" and "n < 2 ^ 32" and "length rest < prim_sizeof p"
  shows "cs_run_load enc eq cus (ListType e) c (le_bytes 4 n @ rest) = Loaded c rest \<and>
    run_load us lt (ListType (PrimitiveType p)) x f (le_bytes 4 n @ rest) = Refused"
proof -
  have "(int n + 2 ^ 31) mod 2 ^ 32 = ((int n - 2 ^ 31) + 2 ^ 32) mod 2 ^ 32" by (simp add: add.commute)
  also have "\<dots> = int n - 2 ^ 31" using assms by (simp only: mod_add_self2) (simp add: mod_pos_pos_trivial)
  finally have "(int n + 2147483648) mod 4294967296 = int n - 2147483648" by simp
  then have "sint (of_nat n :: u32) < 0"
    using assms by (simp add: signed_of_nat signed_take_bit_eq_take_bit_shift take_bit_eq_mod)
  moreover have "read_count (le_bytes 4 n @ rest) = Loaded (sint (of_nat n :: u32)) rest"
    using assms by (simp add: read_count_def)
  ultimately have "cs_run_load enc eq cus (ListType e) c (le_bytes 4 n @ rest) = Loaded c rest" by simp
  moreover obtain m where "n = Suc m" using assms by (cases n) auto
  then have "run_load us lt (ListType (PrimitiveType p)) x f (le_bytes 4 n @ rest) = Refused"
    using assms by (simp add: Let_def)
  ultimately show ?thesis by blast
qed

theorem count_sign_differs_witness:
  "cs_run_load latin (=) Map.empty (ListType (PrimitiveType P_ubyte)) (CList []) (le_bytes 4 2147483648 @ []) = Loaded (CList []) [] \<and>
   run_load Map.empty demo_less (ListType (PrimitiveType P_ubyte)) ''xs'' (member_frame [(''xs'', VSeq [])]) (le_bytes 4 2147483648 @ []) = Refused"
  by (rule count_sign_differs) simp_all

text \<open>Of two entries with one key, C++ keeps the first and C# the second.\<close>

definition table_unit :: "stmt list" where
  "table_unit = [Typedef (MapType (PrimitiveType P_ubyte) (PrimitiveType P_ubyte)) ''Table'']"

lemma load_loop_2: "load_loop i 2 body s bs = bind_load (body i s bs) (load_loop (i + 1) (Suc 0) body)"
  by (simp add: numeral_2_eq_2)

lemma duplicate_keys_differ:
  "\<exists>u cu. unit_users demo_less table_unit ''Table'' = Some u \<and> cs_unit_users enc (=) table_unit ''Table'' = Some cu \<and>
     u_load u (u_fresh u) (le_bytes 4 2 @ [k, a, k, b]) = Loaded (VMap [(VPrim [k], VPrim [a])]) [] \<and>
     cs_u_load cu (cs_u_fresh cu) (le_bytes 4 2 @ [k, a, k, b]) = Loaded (CDict [(CPrim [k], CPrim [b])]) []"
  by (simp add: table_unit_def unit_users_def cs_unit_users_def typedef_user_def cs_typedef_user_def get_def declare_local_def put_def
      param_frame_def demo_less_def read_primitive_def Let_def load_loop_2 read_count_stored)

text \<open>A derived class does not look at what \<open>base.Store\<close> returns.\<close>

definition derived_unit :: "stmt list" where
  "derived_unit = [Message ''Base'' [] 0 [VarDecl (ListType (PrimitiveType P_ubyte)) ''xs''],
     Message ''Derived'' ''Base'' 1 [VarDecl (PrimitiveType P_ubyte) ''y'']]"

lemma base_failure_ignored:
  "\<exists>base derived. cs_unit_users enc eq derived_unit ''Base'' = Some base \<and> cs_unit_users enc eq derived_unit ''Derived'' = Some derived \<and>
     cs_u_store base (CObject None [(''xs'', CNull)]) = ([], False) \<and>
     cs_u_store derived (CObject (Some (CObject None [(''xs'', CNull)])) [(''y'', CPrim [7])]) = ([7], True)"
  by (simp add: derived_unit_def cs_unit_users_def cs_message_user_def cs_message_store_def then_store_def write_bytes_def)

end
