(* ===== verification/Idl_Scanner.thy ===== *)
theory Idl_Scanner
  imports Idl_Syntax
begin

text \<open>
  The scanner of the interface compiler, \<^verbatim>\<open>idlc/src/lexer.l\<close>: its rules, of which the one with the longest match wins and
  among those the first, and its start conditions for comments and literal blocks. What no rule matches is printed.
  Texts have no null characters.
\<close>

section \<open>Tokens\<close>

datatype tok =
    VARNAME string | INTEGER string | LITERAL string | LANGUAGE string
  | MESSAGE | STRUCT | TYPEDEF | ENUM | COMMENT
  | OPEN_BRACE | CLOSE_BRACE | OPEN_BRACKET | CLOSE_BRACKET | LESS | MORE | EQUAL | COLON | SEMI_COLON | COMMA
  | OPEN_PARENTHESIS | CLOSE_PARENTHESIS
  | PRIMITIVE primitive \<comment> \<open>\<open>BOOLEAN\<close>, \<open>BYTE\<close>, \<dots>, \<open>FLOAT\<close>\<close>
  | STRING | ARRAY | LIST | MAP

text \<open>The text that comes with a token, \<open>yylval.str\<close>.\<close>

definition text_in :: "tok \<Rightarrow> string" where
  "text_in t = (case t of VARNAME x \<Rightarrow> x | INTEGER x \<Rightarrow> x | LITERAL x \<Rightarrow> x | LANGUAGE x \<Rightarrow> x | _ \<Rightarrow> [])"

section \<open>Patterns\<close>

text \<open>A pattern gives the length of its longest match at the start of a text, 0 for none.\<close>

definition text_of :: "string \<Rightarrow> string \<Rightarrow> nat" where
  "text_of p s = (if take (length p) s = p then length p else 0)"

definition code :: "char \<Rightarrow> nat" where
  "code c = of_char c"

definition is_hex :: "char \<Rightarrow> bool" where
  "is_hex c \<longleftrightarrow> is_digit c \<or> (65 \<le> code c \<and> code c \<le> 70) \<or> (97 \<le> code c \<and> code c \<le> 102)"

definition starts_name :: "char \<Rightarrow> bool" where
  "starts_name c \<longleftrightarrow> (65 \<le> code c \<and> code c \<le> 90) \<or> (97 \<le> code c \<and> code c \<le> 122) \<or> code c = 95"

definition in_name :: "char \<Rightarrow> bool" where
  "in_name c \<longleftrightarrow> starts_name c \<or> is_digit c"

definition varname :: "string \<Rightarrow> nat" where
  "varname s = (case s of [] \<Rightarrow> 0 | c # r \<Rightarrow> if starts_name c then Suc (length (takeWhile in_name r)) else 0)"

definition integer :: "string \<Rightarrow> nat" where
  "integer s = max (length (takeWhile is_digit s))
     (if take 2 s = ''0x'' then 2 + length (takeWhile is_hex (drop 2 s)) else 0)"

definition newline :: char where "newline = CHR 0x0A"

definition line_comment :: "string \<Rightarrow> nat" where
  "line_comment s = (if take 2 s = ''//'' then 2 + length (takeWhile (\<lambda>c. c \<noteq> newline) (drop 2 s)) else 0)"

text \<open>The pattern \<open>whitespace\<close> is quoted: it is the text of a character class, not the class.\<close>

definition whitespace :: string where
  "whitespace = [CHR ''['', CHR '' '', CHR 0x09, CHR 0x0A, CHR 0x0D, CHR '']'']"

function white :: "string \<Rightarrow> nat" where
  "white s = (if take 6 s = whitespace then 6 + white (drop 6 s) else 0)"
  by pat_completeness auto
termination
proof (relation "measure length")
  fix s :: string
  assume "take 6 s = whitespace"
  then have "length (take 6 s) = 6" by (simp add: whitespace_def)
  then show "(drop 6 s, s) \<in> measure length" by auto
qed auto

declare white.simps [simp del]

section \<open>Rules\<close>

datatype scan_action = Return tok | BeginComment | BeginLiteral | Nothing | Print

definition key_words :: "(string \<times> tok) list" where
  "key_words =
     [(''message'', MESSAGE), (''struct'', STRUCT), (''enum'', ENUM), (''boolean'', PRIMITIVE P_boolean),
      (''ubyte'', PRIMITIVE P_ubyte), (''byte'', PRIMITIVE P_byte), (''int16'', PRIMITIVE P_int16),
      (''int32'', PRIMITIVE P_int32), (''int64'', PRIMITIVE P_int64), (''uint16'', PRIMITIVE P_uint16),
      (''uint32'', PRIMITIVE P_uint32), (''uint64'', PRIMITIVE P_uint64), (''double'', PRIMITIVE P_double),
      (''float'', PRIMITIVE P_float), (''string'', STRING), (''map'', MAP), (''array'', ARRAY), (''list'', LIST),
      (''typedef'', TYPEDEF)]"

definition marks :: "(string \<times> tok) list" where
  "marks =
     [(''{'', OPEN_BRACE), (''}'', CLOSE_BRACE), (''['', OPEN_BRACKET), ('']'', CLOSE_BRACKET), (''('', OPEN_PARENTHESIS),
      ('')'', CLOSE_PARENTHESIS), ('';'', SEMI_COLON), ('':'', COLON), ('','', COMMA), (''<'', LESS), (''>'', MORE),
      (''='', EQUAL)]"

definition languages :: "string list" where
  "languages = [''.cpp'', ''.py'', ''.java'', ''.cs'']"

text \<open>The rules of the start condition \<open>INITIAL\<close> in their order, applied to a text: length and action.\<close>

definition initial_rules :: "string \<Rightarrow> (nat \<times> scan_action) list" where
  "initial_rules s =
     [(text_of ''/*'' s, BeginComment), (line_comment s, Return COMMENT), (text_of ''%%'' s, BeginLiteral)] @
     map (\<lambda>l. (text_of l s, Return (LANGUAGE l))) languages @
     map (\<lambda>(p, t). (text_of p s, Return t)) key_words @
     map (\<lambda>(p, t). (text_of p s, Return t)) marks @
     [(integer s, Return (INTEGER (take (integer s) s))), (varname s, Return (VARNAME (take (varname s) s))),
      (white s, Nothing), (text_of [newline] s, Nothing), (1, Print)]"

fun longest :: "(nat \<times> 'a) list \<Rightarrow> nat \<times> 'a" where
  "longest [] = undefined"
| "longest [r] = r"
| "longest (r # rs) = (let q = longest rs in if fst q \<le> fst r then r else q)"

section \<open>The scanner\<close>

datatype start_condition = INITIAL | STATE_COMMENT | STATE_LITERAL string

text \<open>What the scanner produces: tokens and the characters it prints.\<close>

datatype scanned = Tok tok | Printed char

fun perform :: "scan_action \<Rightarrow> char \<Rightarrow> scanned list \<times> start_condition" where
  "perform (Return t) c = ([Tok t], INITIAL)"
| "perform BeginComment c = ([], STATE_COMMENT)"
| "perform BeginLiteral c = ([], STATE_LITERAL [])"
| "perform Nothing c = ([], INITIAL)"
| "perform Print c = ([Printed c], INITIAL)"

lemma longest_ge: "r \<in> set rs \<Longrightarrow> fst r \<le> fst (longest rs)"
  by (induction rs rule: longest.induct) (auto simp: Let_def)

lemma longest_pos: "0 < fst (longest (initial_rules s))"
  using longest_ge [of "(1, Print)" "initial_rules s"] by (auto simp: initial_rules_def)

function (sequential) yylex_all :: "start_condition \<Rightarrow> string \<Rightarrow> scanned list" where
  "yylex_all st [] = []"
| "yylex_all INITIAL (c # s) =
     (let (n, act) = longest (initial_rules (c # s)); (out, st) = perform act c in out @ yylex_all st (drop n (c # s)))"
| "yylex_all STATE_COMMENT (c # s) =
     (if take 2 (c # s) = ''*/'' then Tok COMMENT # yylex_all INITIAL (drop 1 s) else yylex_all STATE_COMMENT s)"
| "yylex_all (STATE_LITERAL g_sBuf) (c # s) =
     (if take 2 (c # s) = ''%%'' then Tok (LITERAL g_sBuf) # yylex_all INITIAL (drop 1 s)
      else yylex_all (STATE_LITERAL (g_sBuf @ [c])) s)"
  by pat_completeness auto
termination
proof (relation "measure (\<lambda>(st, s). length s)", goal_cases)
  case (2 c s x n act y out st)
  then have "0 < n" using longest_pos [of "c # s"] by (metis fst_conv)
  then show ?case by (cases n) auto
qed auto

definition tokens :: "scanned list \<Rightarrow> tok list" where
  "tokens out = concat (map (\<lambda>x. case x of Tok t \<Rightarrow> [t] | Printed _ \<Rightarrow> []) out)"

definition printed :: "scanned list \<Rightarrow> string" where
  "printed out = concat (map (\<lambda>x. case x of Tok _ \<Rightarrow> [] | Printed c \<Rightarrow> [c]) out)"

definition scan :: "string \<Rightarrow> tok list" where
  "scan text = tokens (yylex_all INITIAL text)"

end
