(* ===== verification/Idl_Grammar.thy ===== *)
theory Idl_Grammar
  imports Idl_Scanner "HOL-Library.Monad_Syntax"
begin

text \<open>
  The grammar of the interface compiler, \<^verbatim>\<open>idlc/src/parser.y\<close>: one rule for each production with its action. A parser
  that runs, \<open>p_unit\<close>, accepts exactly the texts of the grammar and builds their trees, which are therefore unique.
\<close>

section \<open>Productions\<close>

inductive g_var_type :: "tok list \<Rightarrow> var_type \<Rightarrow> bool" where
  g_primitive: "g_var_type [PRIMITIVE p] (PrimitiveType p)"
| g_string: "g_var_type [STRING] StringType"
| g_array: "g_var_type ts t \<Longrightarrow> g_var_type ([ARRAY, LESS] @ ts @ [MORE]) (ArrayType t)"
| g_static: "g_var_type ts t \<Longrightarrow> g_var_type ([ARRAY, LESS] @ ts @ [COMMA, INTEGER n, MORE]) (StaticArrayType t n)"
| g_list_type: "g_var_type ts t \<Longrightarrow> g_var_type ([LIST, LESS] @ ts @ [MORE]) (ListType t)"
| g_map: "g_var_type ks k \<Longrightarrow> g_var_type ts t \<Longrightarrow> g_var_type ([MAP, LESS] @ ks @ [COMMA] @ ts @ [MORE]) (MapType k t)"
| g_user_define: "g_var_type [VARNAME n] (UserDefineType n)"

inductive g_var_decl :: "tok list \<Rightarrow> var_decl \<Rightarrow> bool" where
  "g_var_type ts t \<Longrightarrow> g_var_decl (ts @ [VARNAME x, SEMI_COLON]) (VarDecl t x)"
| "g_var_decl [COMMENT] DeclComment"

inductive g_enum_decl :: "tok list \<Rightarrow> enum_elmt \<Rightarrow> bool" where
  "g_enum_decl [VARNAME x, EQUAL, INTEGER k] (EnumElmt x k)"
| "g_enum_decl [VARNAME x, EQUAL, INTEGER k, COMMA] (EnumElmt x k)"
| "g_enum_decl [VARNAME x] (EnumElmt x [])"
| "g_enum_decl [VARNAME x, COMMA] (EnumElmt x [])"
| "g_enum_decl [COMMENT] ElmtComment"

text \<open>\<open>var_decl_list\<close>, \<open>enum_decl_list\<close> and \<open>stmt_list\<close>.\<close>

inductive g_list :: "(tok list \<Rightarrow> 'a \<Rightarrow> bool) \<Rightarrow> tok list \<Rightarrow> 'a list \<Rightarrow> bool" for g where
  first: "g ts x \<Longrightarrow> g_list g ts [x]"
| further: "g_list g us xs \<Longrightarrow> g ts x \<Longrightarrow> g_list g (us @ ts) (xs @ [x])"

text \<open>The node of a message; \<open>atoi\<close> of a number beyond \<open>int\<close> is undefined.\<close>

definition message_node :: "string \<Rightarrow> string \<Rightarrow> string \<Rightarrow> var_decl list \<Rightarrow> stmt outcome" where
  "message_node x b k ds = (if atoi k < 2 ^ 31 then Ret (Message x b (atoi k) ds) else Undef)"

text \<open>The node of a type definition; that of a comment is read as a declaration by every generator, which is undefined.\<close>

fun typedef_node :: "var_decl \<Rightarrow> stmt outcome" where
  "typedef_node (VarDecl t x) = Ret (Typedef t x)"
| "typedef_node DeclComment = Undef"

text \<open>The list between braces; there is a production without it.\<close>

inductive g_body :: "(tok list \<Rightarrow> 'a \<Rightarrow> bool) \<Rightarrow> tok list \<Rightarrow> 'a list \<Rightarrow> bool" for g where
  "g_body g [OPEN_BRACE, CLOSE_BRACE, SEMI_COLON] []"
| "g_list g ts xs \<Longrightarrow> g_body g ([OPEN_BRACE] @ ts @ [CLOSE_BRACE, SEMI_COLON]) xs"

inductive g_stmt :: "tok list \<Rightarrow> stmt outcome \<Rightarrow> bool" where
  g_message: "g_body g_var_decl ts ds \<Longrightarrow> g_stmt ([MESSAGE, VARNAME x, COLON, INTEGER k] @ ts) (message_node x [] k ds)"
| g_message_base: "g_body g_var_decl ts ds \<Longrightarrow>
    g_stmt ([MESSAGE, VARNAME x, OPEN_PARENTHESIS, VARNAME b, CLOSE_PARENTHESIS, COLON, INTEGER k] @ ts) (message_node x b k ds)"
| g_struct: "g_body g_var_decl ts ds \<Longrightarrow> g_stmt ([STRUCT, VARNAME x] @ ts) (Ret (Message x [] (-1) ds))"
| g_struct_base: "g_body g_var_decl ts ds \<Longrightarrow>
    g_stmt ([STRUCT, VARNAME x, OPEN_PARENTHESIS, VARNAME b, CLOSE_PARENTHESIS] @ ts) (Ret (Message x b (-1) ds))"
| g_typedef: "g_var_decl ts d \<Longrightarrow> g_stmt (TYPEDEF # ts) (typedef_node d)"
| g_enum: "g_body g_enum_decl ts es \<Longrightarrow> g_stmt ([ENUM, VARNAME x] @ ts) (Ret (Enum x es))"
| g_literal: "g_stmt [LANGUAGE l, LITERAL s] (Ret (LiteralBlock l s))"
| g_comment: "g_stmt [COMMENT] (Ret Comment)"

abbreviation g_stmt_list :: "tok list \<Rightarrow> stmt outcome list \<Rightarrow> bool" where
  "g_stmt_list \<equiv> g_list g_stmt"

section \<open>A parser that runs\<close>

text \<open>One token, by its kind; the text of a name or number comes with it.\<close>

definition expect :: "tok \<Rightarrow> tok list \<Rightarrow> tok list option" where
  "expect t ts = (case ts of [] \<Rightarrow> None | u # r \<Rightarrow> if u = t then Some r else None)"

definition expect_text :: "(string \<Rightarrow> tok) \<Rightarrow> tok list \<Rightarrow> (string \<times> tok list) option" where
  "expect_text k ts = (case ts of [] \<Rightarrow> None | u # r \<Rightarrow> if u = k (text_in u) then Some (text_in u, r) else None)"

fun base_type :: "tok \<Rightarrow> var_type option" where
  "base_type (PRIMITIVE p) = Some (PrimitiveType p)"
| "base_type STRING = Some StringType"
| "base_type (VARNAME x) = Some (UserDefineType x)"
| "base_type _ = None"

fun p_var_type :: "nat \<Rightarrow> tok list \<Rightarrow> (var_type \<times> tok list) option" where
  "p_var_type 0 ts = None"
| "p_var_type (Suc n) ts =
     (case ts of
        [] \<Rightarrow> None
      | t # r \<Rightarrow>
          if t = ARRAY then do {
            r \<leftarrow> expect LESS r;
            (e, r) \<leftarrow> p_var_type n r;
            (case expect MORE r of
               Some r \<Rightarrow> Some (ArrayType e, r)
             | None \<Rightarrow> do {
                 r \<leftarrow> expect COMMA r;
                 (k, r) \<leftarrow> expect_text INTEGER r;
                 r \<leftarrow> expect MORE r;
                 Some (StaticArrayType e k, r) }) }
          else if t = LIST then do {
            r \<leftarrow> expect LESS r;
            (e, r) \<leftarrow> p_var_type n r;
            r \<leftarrow> expect MORE r;
            Some (ListType e, r) }
          else if t = MAP then do {
            r \<leftarrow> expect LESS r;
            (k, r) \<leftarrow> p_var_type n r;
            r \<leftarrow> expect COMMA r;
            (e, r) \<leftarrow> p_var_type n r;
            r \<leftarrow> expect MORE r;
            Some (MapType k e, r) }
          else map_option (\<lambda>b. (b, r)) (base_type t))"

definition p_var_decl :: "tok list \<Rightarrow> (var_decl \<times> tok list) option" where
  "p_var_decl ts =
     (case expect COMMENT ts of
        Some r \<Rightarrow> Some (DeclComment, r)
      | None \<Rightarrow> do {
          (t, r) \<leftarrow> p_var_type (length ts) ts;
          (x, r) \<leftarrow> expect_text VARNAME r;
          r \<leftarrow> expect SEMI_COLON r;
          Some (VarDecl t x, r) })"

definition p_comma :: "tok list \<Rightarrow> tok list" where
  "p_comma ts = (case expect COMMA ts of Some r \<Rightarrow> r | None \<Rightarrow> ts)"

definition p_enum_decl :: "tok list \<Rightarrow> (enum_elmt \<times> tok list) option" where
  "p_enum_decl ts =
     (case expect COMMENT ts of
        Some r \<Rightarrow> Some (ElmtComment, r)
      | None \<Rightarrow> do {
          (x, r) \<leftarrow> expect_text VARNAME ts;
          (case expect EQUAL r of
             Some r \<Rightarrow> do { (k, r) \<leftarrow> expect_text INTEGER r; Some (EnumElmt x k, p_comma r) }
           | None \<Rightarrow> Some (EnumElmt x [], p_comma r)) })"

fun p_items :: "nat \<Rightarrow> (tok list \<Rightarrow> ('a \<times> tok list) option) \<Rightarrow> tok list \<Rightarrow> ('a list \<times> tok list) option" where
  "p_items 0 p ts = None"
| "p_items (Suc n) p ts =
     (case expect CLOSE_BRACE ts of
        Some r \<Rightarrow> map_option (\<lambda>r. ([], r)) (expect SEMI_COLON r)
      | None \<Rightarrow> do { (x, r) \<leftarrow> p ts; (xs, r) \<leftarrow> p_items n p r; Some (x # xs, r) })"

definition p_body :: "(tok list \<Rightarrow> ('a \<times> tok list) option) \<Rightarrow> tok list \<Rightarrow> ('a list \<times> tok list) option" where
  "p_body p ts = do { r \<leftarrow> expect OPEN_BRACE ts; p_items (length ts) p r }"

text \<open>The name of the base in parentheses.\<close>

definition p_base :: "tok list \<Rightarrow> (string \<times> tok list) option" where
  "p_base ts =
     (case expect OPEN_PARENTHESIS ts of
        None \<Rightarrow> Some ([], ts)
      | Some r \<Rightarrow> do { (b, r) \<leftarrow> expect_text VARNAME r; r \<leftarrow> expect CLOSE_PARENTHESIS r; Some (b, r) })"

definition p_message :: "tok list \<Rightarrow> (stmt outcome \<times> tok list) option" where
  "p_message ts = do {
     r \<leftarrow> expect MESSAGE ts;
     (x, r) \<leftarrow> expect_text VARNAME r;
     (b, r) \<leftarrow> p_base r;
     r \<leftarrow> expect COLON r;
     (k, r) \<leftarrow> expect_text INTEGER r;
     (ds, r) \<leftarrow> p_body p_var_decl r;
     Some (message_node x b k ds, r) }"

definition p_struct :: "tok list \<Rightarrow> (stmt outcome \<times> tok list) option" where
  "p_struct ts = do {
     r \<leftarrow> expect STRUCT ts;
     (x, r) \<leftarrow> expect_text VARNAME r;
     (b, r) \<leftarrow> p_base r;
     (ds, r) \<leftarrow> p_body p_var_decl r;
     Some (Ret (Message x b (-1) ds), r) }"

definition p_typedef :: "tok list \<Rightarrow> (stmt outcome \<times> tok list) option" where
  "p_typedef ts = do { r \<leftarrow> expect TYPEDEF ts; (d, r) \<leftarrow> p_var_decl r; Some (typedef_node d, r) }"

definition p_enum :: "tok list \<Rightarrow> (stmt outcome \<times> tok list) option" where
  "p_enum ts = do {
     r \<leftarrow> expect ENUM ts;
     (x, r) \<leftarrow> expect_text VARNAME r;
     (es, r) \<leftarrow> p_body p_enum_decl r;
     Some (Ret (Enum x es), r) }"

definition p_literal :: "tok list \<Rightarrow> (stmt outcome \<times> tok list) option" where
  "p_literal ts = do {
     (l, r) \<leftarrow> expect_text LANGUAGE ts;
     (s, r) \<leftarrow> expect_text LITERAL r;
     Some (Ret (LiteralBlock l s), r) }"

definition p_comment :: "tok list \<Rightarrow> (stmt outcome \<times> tok list) option" where
  "p_comment ts = do { r \<leftarrow> expect COMMENT ts; Some (Ret Comment, r) }"

definition or_else :: "'a option \<Rightarrow> 'a option \<Rightarrow> 'a option" where
  "or_else a b = (case a of None \<Rightarrow> b | Some x \<Rightarrow> Some x)"

definition p_stmt :: "tok list \<Rightarrow> (stmt outcome \<times> tok list) option" where
  "p_stmt ts = foldr (\<lambda>p. or_else (p ts)) [p_message, p_struct, p_typedef, p_enum, p_literal] (p_comment ts)"

fun p_stmts :: "nat \<Rightarrow> tok list \<Rightarrow> stmt outcome list option" where
  "p_stmts 0 ts = None"
| "p_stmts (Suc n) ts = do { (s, r) \<leftarrow> p_stmt ts; if r = [] then Some [s] else map_option ((#) s) (p_stmts n r) }"

definition p_unit :: "tok list \<Rightarrow> stmt outcome list option" where
  "p_unit ts = p_stmts (length ts) ts"

section \<open>The parser accepts the grammar\<close>

lemma expect_iff [simp]: "expect t ts = Some r \<longleftrightarrow> ts = t # r"
  by (cases ts) (auto simp: expect_def)

lemma expect_same [simp]: "expect t (t # r) = Some r"
  by simp

lemma expect_other [simp]: "u \<noteq> t \<Longrightarrow> expect t (u # r) = None" "expect t [] = None"
  by (simp_all add: expect_def)

lemma text_in_simps [simp]:
  "text_in (VARNAME x) = x" "text_in (INTEGER x) = x" "text_in (LITERAL x) = x" "text_in (LANGUAGE x) = x"
  by (simp_all add: text_in_def)

lemma expect_text_iff [simp]:
  "expect_text VARNAME ts = Some (x, r) \<longleftrightarrow> ts = VARNAME x # r"
  "expect_text INTEGER ts = Some (x, r) \<longleftrightarrow> ts = INTEGER x # r"
  "expect_text LITERAL ts = Some (x, r) \<longleftrightarrow> ts = LITERAL x # r"
  "expect_text LANGUAGE ts = Some (x, r) \<longleftrightarrow> ts = LANGUAGE x # r"
  by (cases ts; auto simp: expect_text_def)+

lemma expect_text_same [simp]:
  "expect_text VARNAME (VARNAME x # r) = Some (x, r)" "expect_text INTEGER (INTEGER x # r) = Some (x, r)"
  "expect_text LITERAL (LITERAL x # r) = Some (x, r)" "expect_text LANGUAGE (LANGUAGE x # r) = Some (x, r)"
  by simp_all

lemma expect_text_other [simp]:
  "(\<And>x. u \<noteq> VARNAME x) \<Longrightarrow> expect_text VARNAME (u # r) = None"
  "(\<And>x. u \<noteq> LANGUAGE x) \<Longrightarrow> expect_text LANGUAGE (u # r) = None"
  by (simp_all add: expect_text_def)

lemma base_type_iff: "base_type t = Some b \<longleftrightarrow>
    (\<exists>p. t = PRIMITIVE p \<and> b = PrimitiveType p) \<or> (t = STRING \<and> b = StringType) \<or> (\<exists>x. t = VARNAME x \<and> b = UserDefineType x)"
  by (cases t) auto

lemma g_var_type_start: "g_var_type ts t \<Longrightarrow> ts \<noteq> [] \<and> hd ts \<notin> {CLOSE_BRACE, COMMA, EQUAL, COMMENT}"
  by (induction rule: g_var_type.induct) auto

lemma p_var_type_complete: "g_var_type ts t \<Longrightarrow> length ts \<le> n \<Longrightarrow> p_var_type n (ts @ r) = Some (t, r)"
proof (induction arbitrary: n r rule: g_var_type.induct)
  case (g_map ks k ts t)
  obtain m where m: "n = Suc m" using g_map.prems by (cases n) auto
  have "p_var_type m (ks @ COMMA # ts @ MORE # r) = Some (k, COMMA # ts @ MORE # r)"
    "p_var_type m (ts @ MORE # r) = Some (t, MORE # r)"
    using g_map.IH g_map.prems m by simp_all
  then show ?case by (simp add: m)
next
  case (g_array ts t)
  then show ?case by (cases n) simp_all
next
  case (g_static ts t k)
  then show ?case by (cases n) simp_all
next
  case (g_list_type ts t)
  then show ?case by (cases n) simp_all
next
  case (g_primitive p)
  then show ?case by (cases n) simp_all
next
  case g_string
  then show ?case by (cases n) simp_all
next
  case (g_user_define x)
  then show ?case by (cases n) simp_all
qed

lemma p_var_type_sound: "p_var_type n ts = Some (t, r) \<Longrightarrow> \<exists>us. ts = us @ r \<and> g_var_type us t"
proof (induction n arbitrary: ts t r)
  case (Suc n)
  obtain u q where ts: "ts = u # q" using Suc.prems by (cases ts) auto
  consider "u = ARRAY" | "u = LIST" | "u = MAP" | "u \<notin> {ARRAY, LIST, MAP}" by blast
  then show ?case
  proof cases
    case 1
    then obtain v e w where v: "q = LESS # v" "p_var_type n v = Some (e, w)"
        "(w = MORE # r \<and> t = ArrayType e) \<or> (\<exists>k. w = COMMA # INTEGER k # MORE # r \<and> t = StaticArrayType e k)"
      using Suc.prems ts by (auto simp: bind_eq_Some_conv split: option.splits)
    obtain us where us: "v = us @ w" "g_var_type us e" using Suc.IH [OF v(2)] by blast
    from v(3) show ?thesis
    proof (elim disjE exE conjE)
      assume "w = MORE # r" "t = ArrayType e"
      then show ?thesis using us v(1) ts 1 by (intro exI [of _ "[ARRAY, LESS] @ us @ [MORE]"]) (simp add: g_array [simplified])
    next
      fix k
      assume "w = COMMA # INTEGER k # MORE # r" "t = StaticArrayType e k"
      then show ?thesis using us v(1) ts 1
        by (intro exI [of _ "[ARRAY, LESS] @ us @ [COMMA, INTEGER k, MORE]"]) (simp add: g_static [simplified])
    qed
  next
    case 2
    then obtain v e where v: "q = LESS # v" "p_var_type n v = Some (e, MORE # r)" "t = ListType e"
      using Suc.prems ts by (auto simp: bind_eq_Some_conv)
    obtain us where "v = us @ MORE # r" "g_var_type us e" using Suc.IH [OF v(2)] by blast
    then show ?thesis using v ts 2 by (intro exI [of _ "[LIST, LESS] @ us @ [MORE]"]) (simp add: g_list_type [simplified])
  next
    case 3
    then obtain v k w e where v: "q = LESS # v" "p_var_type n v = Some (k, COMMA # w)" "p_var_type n w = Some (e, MORE # r)"
        "t = MapType k e"
      using Suc.prems ts by (auto simp: bind_eq_Some_conv)
    obtain ks where "v = ks @ COMMA # w" "g_var_type ks k" using Suc.IH [OF v(2)] by blast
    moreover obtain us where "w = us @ MORE # r" "g_var_type us e" using Suc.IH [OF v(3)] by blast
    ultimately show ?thesis using v ts 3
      by (intro exI [of _ "[MAP, LESS] @ ks @ [COMMA] @ us @ [MORE]"]) (simp add: g_map [simplified])
  next
    case 4
    then have "base_type u = Some t" "r = q" using Suc.prems ts by auto
    then have "g_var_type [u] t" by (auto simp: base_type_iff intro: g_var_type.intros)
    then show ?thesis using ts \<open>r = q\<close> by (intro exI [of _ "[u]"]) simp
  qed
qed simp

declare p_var_type.simps [simp del]

lemma g_var_decl_start: "g_var_decl ts d \<Longrightarrow> ts \<noteq> [] \<and> hd ts \<notin> {CLOSE_BRACE, COMMA, EQUAL}"
  by (induction rule: g_var_decl.induct) (auto dest: g_var_type_start simp: hd_append)

lemma p_var_decl_complete: "g_var_decl ts d \<Longrightarrow> p_var_decl (ts @ r) = Some (d, r)"
proof (induction rule: g_var_decl.induct)
  case (1 ts t x)
  then obtain u us where us: "ts = u # us" "u \<noteq> COMMENT" using g_var_type_start by (cases ts) auto
  have "p_var_type (length (ts @ [VARNAME x, SEMI_COLON] @ r)) (ts @ VARNAME x # SEMI_COLON # r) = Some (t, VARNAME x # SEMI_COLON # r)"
    using p_var_type_complete [OF 1] by simp
  then show ?case using us by (simp add: p_var_decl_def)
qed (simp add: p_var_decl_def)

lemma p_var_decl_sound:
  assumes "p_var_decl ts = Some (d, r)"
  shows "\<exists>us. ts = us @ r \<and> g_var_decl us d"
proof (cases "expect COMMENT ts")
  case None
  then obtain t x where t: "p_var_type (length ts) ts = Some (t, VARNAME x # SEMI_COLON # r)" "d = VarDecl t x"
    using assms by (auto simp: p_var_decl_def bind_eq_Some_conv)
  obtain us where "ts = us @ VARNAME x # SEMI_COLON # r" "g_var_type us t" using p_var_type_sound [OF t(1)] by blast
  then show ?thesis using t(2) g_var_decl.intros(1) [of us t x] by (intro exI [of _ "us @ [VARNAME x, SEMI_COLON]"]) simp
next
  case (Some q)
  then show ?thesis using assms g_var_decl.intros(2) by (intro exI [of _ "[COMMENT]"]) (simp add: p_var_decl_def)
qed

lemma g_enum_decl_start: "g_enum_decl ts d \<Longrightarrow> ts \<noteq> [] \<and> hd ts \<notin> {CLOSE_BRACE, COMMA, EQUAL}"
  by (induction rule: g_enum_decl.induct) auto

lemma expect_none: "expect t ts = None \<longleftrightarrow> take 1 ts \<noteq> [t]"
  by (cases ts) (auto simp: expect_def)

lemma p_enum_decl_complete:
  "g_enum_decl ts d \<Longrightarrow> expect COMMA r = None \<Longrightarrow> expect EQUAL r = None \<Longrightarrow> p_enum_decl (ts @ r) = Some (d, r)"
  by (induction rule: g_enum_decl.induct) (simp_all add: p_enum_decl_def p_comma_def)

lemma p_enum_decl_sound:
  assumes "p_enum_decl ts = Some (d, r)"
  shows "\<exists>us. ts = us @ r \<and> g_enum_decl us d"
proof (cases "expect COMMENT ts")
  case None
  have comma: "q = r \<or> q = COMMA # r" if "p_comma q = r" for q using that by (auto simp: p_comma_def split: option.splits)
  obtain x q where "ts = VARNAME x # q" "(\<exists>k w. q = EQUAL # INTEGER k # w \<and> p_comma w = r \<and> d = EnumElmt x k) \<or>
      (p_comma q = r \<and> d = EnumElmt x [])"
    using assms None by (auto simp: p_enum_decl_def bind_eq_Some_conv split: option.splits)
  then consider k where "ts = [VARNAME x, EQUAL, INTEGER k] @ r" "d = EnumElmt x k"
    | k where "ts = [VARNAME x, EQUAL, INTEGER k, COMMA] @ r" "d = EnumElmt x k"
    | "ts = [VARNAME x] @ r" "d = EnumElmt x []" | "ts = [VARNAME x, COMMA] @ r" "d = EnumElmt x []"
    using comma by fastforce
  then show ?thesis by cases (blast intro: g_enum_decl.intros)+
next
  case (Some q)
  then show ?thesis using assms g_enum_decl.intros(5) by (intro exI [of _ "[COMMENT]"]) (simp add: p_enum_decl_def)
qed

lemma g_list_items: "g_list g ts xs \<longleftrightarrow> (\<exists>tss. tss \<noteq> [] \<and> ts = concat tss \<and> list_all2 g tss xs)"
proof
  assume "g_list g ts xs"
  then show "\<exists>tss. tss \<noteq> [] \<and> ts = concat tss \<and> list_all2 g tss xs"
  proof (induction rule: g_list.induct)
    case (first ts x)
    then show ?case by (intro exI [of _ "[ts]"]) simp
  next
    case (further us xs ts x)
    then obtain tss where "tss \<noteq> []" "us = concat tss" "list_all2 g tss xs" by blast
    then show ?case using further.hyps(2) by (intro exI [of _ "tss @ [ts]"]) (simp add: list_all2_appendI)
  qed
next
  have "tss \<noteq> [] \<Longrightarrow> list_all2 g tss xs \<Longrightarrow> g_list g (concat tss) xs" for tss xs
  proof (induction tss arbitrary: xs rule: rev_induct)
    case (snoc ts tss)
    then obtain ys x where xs: "xs = ys @ [x]" "list_all2 g tss ys" "g ts x"
      by (auto simp: list_all2_append1 list_all2_Cons1)
    show ?case
    proof (cases "tss = []")
      case True
      then show ?thesis using xs by (simp add: g_list.first)
    next
      case False
      then show ?thesis using snoc.IH [OF False xs(2)] xs by (simp add: g_list.further)
    qed
  qed simp
  then show "\<exists>tss. tss \<noteq> [] \<and> ts = concat tss \<and> list_all2 g tss xs \<Longrightarrow> g_list g ts xs" by blast
qed

text \<open>What the parser of a list needs of the parser of its items.\<close>

definition item_parser :: "(tok list \<Rightarrow> 'a \<Rightarrow> bool) \<Rightarrow> (tok list \<Rightarrow> ('a \<times> tok list) option) \<Rightarrow> bool" where
  "item_parser g p \<longleftrightarrow>
     (\<forall>ts x. g ts x \<longrightarrow> ts \<noteq> [] \<and> hd ts \<notin> {CLOSE_BRACE, COMMA, EQUAL}) \<and>
     (\<forall>ts x r. g ts x \<longrightarrow> expect COMMA r = None \<longrightarrow> expect EQUAL r = None \<longrightarrow> p (ts @ r) = Some (x, r)) \<and>
     (\<forall>ts x r. p ts = Some (x, r) \<longrightarrow> (\<exists>us. ts = us @ r \<and> g us x))"

lemma item_parser_start: "item_parser g p \<Longrightarrow> g ts x \<Longrightarrow> ts \<noteq> [] \<and> hd ts \<notin> {CLOSE_BRACE, COMMA, EQUAL}"
  unfolding item_parser_def by blast

lemma expect_start:
  assumes "item_parser g p" "g ts x"
  shows "expect CLOSE_BRACE (ts @ r) = None \<and> expect COMMA (ts @ r) = None \<and> expect EQUAL (ts @ r) = None"
  using item_parser_start [OF assms] by (cases ts) auto

lemma p_items_complete:
  assumes "item_parser g p"
  shows "list_all2 g tss xs \<Longrightarrow> length tss < n \<Longrightarrow> p_items n p (concat tss @ CLOSE_BRACE # SEMI_COLON # r) = Some (xs, r)"
proof (induction tss arbitrary: xs n)
  case Nil
  then show ?case by (cases n) simp_all
next
  case (Cons ts tss)
  obtain x ys where xs: "xs = x # ys" "g ts x" "list_all2 g tss ys" using Cons.prems(1) by (auto simp: list_all2_Cons1)
  obtain m where m: "n = Suc m" using Cons.prems(2) by (cases n) auto
  let ?r = "concat tss @ CLOSE_BRACE # SEMI_COLON # r"
  have "expect COMMA ?r = None \<and> expect EQUAL ?r = None"
  proof (cases tss)
    case (Cons us uss)
    then obtain y where "g us y" using xs(3) by (auto simp: list_all2_Cons1)
    then show ?thesis using expect_start [OF assms] Cons by simp
  qed simp
  then have "p (ts @ ?r) = Some (x, ?r)" using assms xs(2) unfolding item_parser_def by blast
  moreover have "p_items m p ?r = Some (ys, r)" using Cons.IH [OF xs(3)] Cons.prems(2) m by simp
  moreover have "expect CLOSE_BRACE (ts @ ?r) = None" using expect_start [OF assms xs(2)] by blast
  ultimately show ?case using m xs(1) by simp
qed

lemma p_items_sound:
  assumes "item_parser g p"
  shows "p_items n p ts = Some (xs, r) \<Longrightarrow> \<exists>tss. ts = concat tss @ CLOSE_BRACE # SEMI_COLON # r \<and> list_all2 g tss xs"
proof (induction n arbitrary: ts xs)
  case (Suc n)
  show ?case
  proof (cases "expect CLOSE_BRACE ts")
    case (Some q)
    then have "ts = CLOSE_BRACE # SEMI_COLON # r" "xs = []" using Suc.prems by auto
    then show ?thesis by (intro exI [of _ "[]"]) simp
  next
    case None
    then obtain x q ys where q: "p ts = Some (x, q)" "p_items n p q = Some (ys, r)" "xs = x # ys"
      using Suc.prems by (auto simp: bind_eq_Some_conv)
    obtain us where us: "ts = us @ q" "g us x" using assms q(1) unfolding item_parser_def by blast
    obtain tss where "q = concat tss @ CLOSE_BRACE # SEMI_COLON # r" "list_all2 g tss ys" using Suc.IH [OF q(2)] by blast
    then show ?thesis using us q(3) by (intro exI [of _ "us # tss"]) simp
  qed
qed simp

lemma concat_items_length:
  assumes "item_parser g p"
  shows "list_all2 g tss xs \<Longrightarrow> length tss \<le> length (concat tss)"
proof (induction tss arbitrary: xs)
  case (Cons ts tss)
  obtain x ys where xs: "g ts x" "list_all2 g tss ys" using Cons.prems by (auto simp: list_all2_Cons1)
  have "1 \<le> length ts" using item_parser_start [OF assms xs(1)] by (cases ts) auto
  then show ?case using Cons.IH [OF xs(2)] by simp
qed simp

lemma p_body_iff:
  assumes "item_parser g p"
  shows "p_body p ts = Some (xs, r) \<longleftrightarrow> (\<exists>us. ts = us @ r \<and> g_body g us xs)"
proof
  assume "p_body p ts = Some (xs, r)"
  then obtain q where q: "ts = OPEN_BRACE # q" "p_items (length ts) p q = Some (xs, r)"
    by (auto simp: p_body_def bind_eq_Some_conv)
  obtain tss where tss: "q = concat tss @ CLOSE_BRACE # SEMI_COLON # r" "list_all2 g tss xs"
    using p_items_sound [OF assms q(2)] by blast
  have "g_body g ([OPEN_BRACE] @ concat tss @ [CLOSE_BRACE, SEMI_COLON]) xs"
  proof (cases "tss = []")
    case True
    then show ?thesis using tss(2) g_body.intros(1) by simp
  next
    case False
    then show ?thesis using tss(2) g_list_items g_body.intros(2) by blast
  qed
  then show "\<exists>us. ts = us @ r \<and> g_body g us xs" using q(1) tss(1)
    by (intro exI [of _ "[OPEN_BRACE] @ concat tss @ [CLOSE_BRACE, SEMI_COLON]"]) simp
next
  assume "\<exists>us. ts = us @ r \<and> g_body g us xs"
  then obtain us where us: "ts = us @ r" "g_body g us xs" by blast
  obtain tss where tss: "us = [OPEN_BRACE] @ concat tss @ [CLOSE_BRACE, SEMI_COLON]" "list_all2 g tss xs"
    using us(2)
  proof cases
    case 1
    then show ?thesis using that [of "[]"] by simp
  next
    case (2 vs)
    then show ?thesis using that by (auto simp: g_list_items)
  qed
  have "length tss < length ts" using concat_items_length [OF assms tss(2)] us(1) tss(1) by simp
  then show "p_body p ts = Some (xs, r)"
    using p_items_complete [OF assms tss(2), of "length ts" r] us(1) tss(1) by (simp add: p_body_def)
qed

lemma p_var_decl_items: "item_parser g_var_decl p_var_decl"
  unfolding item_parser_def using g_var_decl_start p_var_decl_complete p_var_decl_sound by blast

lemma p_enum_decl_items: "item_parser g_enum_decl p_enum_decl"
  unfolding item_parser_def using g_enum_decl_start p_enum_decl_complete p_enum_decl_sound by blast

lemmas body_iff [simp] = p_body_iff [OF p_var_decl_items] p_body_iff [OF p_enum_decl_items]

lemma body_complete [simp]:
  "g_body g_var_decl us ds \<Longrightarrow> p_body p_var_decl (us @ r) = Some (ds, r)"
  "g_body g_enum_decl us es \<Longrightarrow> p_body p_enum_decl (us @ r) = Some (es, r)"
  by auto

section \<open>Statements\<close>

lemma g_body_start: "g_body g us xs \<Longrightarrow> \<exists>vs. us = OPEN_BRACE # vs"
  by (auto elim: g_body.cases)

lemma p_base_body: "g_body g us xs \<Longrightarrow> p_base (us @ r) = Some ([], us @ r)"
  by (auto simp: p_base_def dest: g_body_start)

lemma p_base_name: "p_base (OPEN_PARENTHESIS # VARNAME b # CLOSE_PARENTHESIS # r) = Some (b, r)"
  by (simp add: p_base_def)

lemma p_base_colon: "p_base (COLON # r) = Some ([], COLON # r)"
  by (simp add: p_base_def)

lemma p_base_iff: "p_base ts = Some (b, r) \<longleftrightarrow>
    ts = OPEN_PARENTHESIS # VARNAME b # CLOSE_PARENTHESIS # r \<or> (expect OPEN_PARENTHESIS ts = None \<and> b = [] \<and> r = ts)"
  by (auto simp: p_base_def bind_eq_Some_conv split: option.splits)

lemma p_stmt_complete: "g_stmt ts s \<Longrightarrow> p_stmt (ts @ r) = Some (s, r)"
proof (induction rule: g_stmt.induct)
  case (g_typedef ts d)
  then have "p_var_decl (ts @ r) = Some (d, r)" by (rule p_var_decl_complete)
  then show ?case by (simp add: p_stmt_def or_else_def p_message_def p_struct_def p_typedef_def)
qed (simp_all add: p_stmt_def or_else_def p_message_def p_struct_def p_typedef_def p_enum_def p_literal_def p_comment_def
      p_base_body p_base_name p_base_colon)

lemma p_message_sound:
  assumes "p_message ts = Some (s, r)"
  shows "\<exists>us. ts = us @ r \<and> g_stmt us s"
proof -
  obtain x q b k us ds where q: "ts = MESSAGE # VARNAME x # q" "p_base q = Some (b, COLON # INTEGER k # us @ r)"
      "g_body g_var_decl us ds" "s = message_node x b k ds"
    using assms by (auto simp: p_message_def bind_eq_Some_conv)
  show ?thesis
  proof (cases "expect OPEN_PARENTHESIS q")
    case None
    then show ?thesis using q g_message [OF q(3), of x k]
      by (intro exI [of _ "[MESSAGE, VARNAME x, COLON, INTEGER k] @ us"]) (auto simp: p_base_iff)
  next
    case (Some w)
    then show ?thesis using q g_message_base [OF q(3), of x b k]
      by (intro exI [of _ "[MESSAGE, VARNAME x, OPEN_PARENTHESIS, VARNAME b, CLOSE_PARENTHESIS, COLON, INTEGER k] @ us"])
        (auto simp: p_base_iff)
  qed
qed

lemma p_struct_sound:
  assumes "p_struct ts = Some (s, r)"
  shows "\<exists>us. ts = us @ r \<and> g_stmt us s"
proof -
  obtain x q b us ds where q: "ts = STRUCT # VARNAME x # q" "p_base q = Some (b, us @ r)"
      "g_body g_var_decl us ds" "s = Ret (Message x b (-1) ds)"
    using assms by (auto simp: p_struct_def bind_eq_Some_conv)
  show ?thesis
  proof (cases "expect OPEN_PARENTHESIS q")
    case None
    then show ?thesis using q g_struct [OF q(3), of x]
      by (intro exI [of _ "[STRUCT, VARNAME x] @ us"]) (auto simp: p_base_iff)
  next
    case (Some w)
    then show ?thesis using q g_struct_base [OF q(3), of x b]
      by (intro exI [of _ "[STRUCT, VARNAME x, OPEN_PARENTHESIS, VARNAME b, CLOSE_PARENTHESIS] @ us"]) (auto simp: p_base_iff)
  qed
qed

lemma p_typedef_sound: "p_typedef ts = Some (s, r) \<Longrightarrow> \<exists>us. ts = us @ r \<and> g_stmt us s"
  using p_var_decl_sound g_typedef by (fastforce simp: p_typedef_def bind_eq_Some_conv)

lemma p_enum_sound:
  assumes "p_enum ts = Some (s, r)"
  shows "\<exists>us. ts = us @ r \<and> g_stmt us s"
proof -
  obtain x us es where "ts = [ENUM, VARNAME x] @ us @ r" "g_body g_enum_decl us es" "s = Ret (Enum x es)"
    using assms by (auto simp: p_enum_def bind_eq_Some_conv)
  then show ?thesis using g_enum by fastforce
qed

lemma p_literal_sound: "p_literal ts = Some (s, r) \<Longrightarrow> \<exists>us. ts = us @ r \<and> g_stmt us s"
  using g_literal by (fastforce simp: p_literal_def bind_eq_Some_conv)

lemma p_comment_sound: "p_comment ts = Some (s, r) \<Longrightarrow> \<exists>us. ts = us @ r \<and> g_stmt us s"
  using g_comment by (fastforce simp: p_comment_def bind_eq_Some_conv)

lemma or_else_iff: "or_else a b = Some x \<longleftrightarrow> a = Some x \<or> (a = None \<and> b = Some x)"
  by (simp add: or_else_def split: option.splits)

lemma p_stmt_sound: "p_stmt ts = Some (s, r) \<Longrightarrow> \<exists>us. ts = us @ r \<and> g_stmt us s"
  using p_message_sound p_struct_sound p_typedef_sound p_enum_sound p_literal_sound p_comment_sound
  by (simp add: p_stmt_def or_else_iff) blast

lemma g_stmt_nonempty: "g_stmt ts s \<Longrightarrow> 1 \<le> length ts"
  by (induction rule: g_stmt.induct) auto

lemma p_stmts_complete:
  "list_all2 g_stmt tss ss \<Longrightarrow> tss \<noteq> [] \<Longrightarrow> length tss \<le> n \<Longrightarrow> p_stmts n (concat tss) = Some ss"
proof (induction tss arbitrary: ss n)
  case (Cons ts tss)
  obtain s qs where ss: "ss = s # qs" "g_stmt ts s" "list_all2 g_stmt tss qs" using Cons.prems(1) by (auto simp: list_all2_Cons1)
  obtain m where m: "n = Suc m" using Cons.prems(3) by (cases n) auto
  have stmt: "p_stmt (ts @ concat tss) = Some (s, concat tss)" using p_stmt_complete [OF ss(2)] .
  show ?case
  proof (cases tss)
    case Nil
    then show ?thesis using stmt m ss by simp
  next
    case (Cons us uss)
    then have "concat tss \<noteq> []" using ss(3) g_stmt_nonempty by (fastforce simp: list_all2_Cons1)
    moreover have "p_stmts m (concat tss) = Some qs" using Cons.IH [OF ss(3)] Cons Cons.prems(3) m by simp
    ultimately show ?thesis using stmt m ss(1) by (simp del: concat_eq_Nil_conv)
  qed
qed simp

lemma p_stmts_sound: "p_stmts n ts = Some ss \<Longrightarrow> \<exists>tss. tss \<noteq> [] \<and> ts = concat tss \<and> list_all2 g_stmt tss ss"
proof (induction n arbitrary: ts ss)
  case (Suc n)
  then obtain s r where s: "p_stmt ts = Some (s, r)" by (auto simp: bind_eq_Some_conv)
  obtain us where us: "ts = us @ r" "g_stmt us s" using p_stmt_sound [OF s] by blast
  show ?case
  proof (cases "r = []")
    case True
    then have "ss = [s]" using Suc.prems s by simp
    then show ?thesis using True us by (intro exI [of _ "[us]"]) simp
  next
    case False
    then obtain qs where qs: "p_stmts n r = Some qs" "ss = s # qs" using Suc.prems s by auto
    obtain tss where "r = concat tss" "list_all2 g_stmt tss qs" using Suc.IH [OF qs(1)] by blast
    then show ?thesis using us qs(2) by (intro exI [of _ "us # tss"]) simp
  qed
qed simp

lemma concat_nonempty_length: "\<forall>ts\<in>set tss. 1 \<le> length ts \<Longrightarrow> length tss \<le> length (concat tss)"
  by (induction tss) auto

text \<open>C30: The productions of the grammar are unambiguous and decidable: a sequence of tokens is a list of statements of the
  grammar, with the tree its actions build, exactly if the parser that runs accepts it with that tree. So no text has two
  trees, whatever the bison tables choose, and every text that is no interface file is refused.\<close>

theorem p_unit_iff_grammar: "p_unit ts = Some ss \<longleftrightarrow> g_stmt_list ts ss"
proof
  assume "p_unit ts = Some ss"
  then show "g_stmt_list ts ss" using p_stmts_sound unfolding p_unit_def g_list_items by blast
next
  assume "g_stmt_list ts ss"
  then obtain tss where tss: "tss \<noteq> []" "ts = concat tss" "list_all2 g_stmt tss ss" unfolding g_list_items by blast
  have "\<forall>us\<in>set tss. 1 \<le> length us" using tss(3) g_stmt_nonempty by (metis in_set_conv_nth list_all2_conv_all_nth)
  then have "length tss \<le> length ts" using concat_nonempty_length tss(2) by blast
  then show "p_unit ts = Some ss" using p_stmts_complete [OF tss(3,1)] tss(2) by (simp add: p_unit_def)
qed

section \<open>Oddities\<close>

text \<open>The pattern for white space is quoted, so that blanks match no rule and are printed.\<close>

theorem blanks_are_printed: "printed (yylex_all INITIAL ''struct A {};'') = ''  ''"
  by code_simp

text \<open>A hexadecimal number is one token, but \<open>atoi\<close> stops at its \<open>x\<close>: the message gets the number 0.\<close>

theorem hexadecimal_message_number_lost:
  "p_unit (scan ''message A:0x1F{};'') = Some [Ret (Message ''A'' [] 0 [])]"
  by code_simp

text \<open>A type definition of a comment is accepted, and its node is read as a declaration.\<close>

theorem typedef_of_comment: "p_unit (scan ''typedef/**/'') = Some [Undef]"
  by code_simp

end
