(* ===== verification/Idl_Spelling.thy ===== *)
theory Idl_Spelling
  imports Idl_Scanner
begin

text \<open>
  Every token has a spelling, and the scanner of \<^verbatim>\<open>idlc/src/lexer.l\<close> reads a text of spellings separated by blanks or
  line ends as those tokens: the longest match is never longer than a spelling, and no rule that comes earlier takes it.
\<close>

section \<open>Longest match\<close>

lemma longest_append:
  assumes "as \<noteq> []" "bs \<noteq> []"
  shows "longest (as @ bs) = (if fst (longest bs) \<le> fst (longest as) then longest as else longest bs)"
  using assms(1)
proof (induction as rule: longest.induct)
  case (2 r)
  then show ?case using assms(2) by (cases bs) (auto simp: Let_def)
next
  case (3 r q rs)
  then show ?case by (auto simp: Let_def)
qed simp

lemma longest_le: "rs \<noteq> [] \<Longrightarrow> \<forall>r\<in>set rs. fst r \<le> n \<Longrightarrow> fst (longest rs) \<le> n"
  by (induction rs rule: longest.induct) (auto simp: Let_def)

lemma longest_in: "rs \<noteq> [] \<Longrightarrow> longest rs \<in> set rs"
  by (induction rs rule: longest.induct) (auto simp: Let_def)

lemma longest_unique:
  assumes "r \<in> set rs" "\<forall>q\<in>set rs. q = r \<or> fst q < fst r"
  shows "longest rs = r"
  using assms longest_in [of rs] longest_ge [of r rs] by fastforce

lemma longest_first:
  assumes "as = [] \<or> fst (longest as) < fst r" "bs = [] \<or> fst (longest bs) \<le> fst r"
  shows "longest (as @ r # bs) = r"
proof -
  have "longest (r # bs) = r" using assms(2) by (cases bs) (auto simp: Let_def)
  then show ?thesis using assms(1) longest_append [of as "r # bs"] by (cases "as = []") auto
qed

section \<open>Matches in front of a separator\<close>

definition separator :: "char \<Rightarrow> bool" where
  "separator c \<longleftrightarrow> c \<in> {CHR '' '', CHR 0x09, CHR 0x0A, CHR 0x0D}"

text \<open>The rules for one text each.\<close>

definition texts :: "(string \<times> scan_action) list" where
  "texts = map (\<lambda>l. (l, Return (LANGUAGE l))) languages @ map (\<lambda>(p, t). (p, Return t)) (key_words @ marks)"

definition other_rules :: "string \<Rightarrow> (nat \<times> scan_action) list" where
  "other_rules s =
     [(integer s, Return (INTEGER (take (integer s) s))), (varname s, Return (VARNAME (take (varname s) s))),
      (white s, Nothing), (text_of [newline] s, Nothing), (1, Print)]"

lemma initial_rules_split:
  "initial_rules s = [(text_of ''/*'' s, BeginComment), (line_comment s, Return COMMENT), (text_of ''%%'' s, BeginLiteral)] @
     map (\<lambda>(p, a). (text_of p s, a)) texts @ other_rules s"
  by (simp add: initial_rules_def texts_def other_rules_def split_def comp_def)

lemma texts_distinct: "distinct (map fst texts)"
  by code_simp

lemma texts_plain: "\<forall>(p, a)\<in>set texts. p \<noteq> [] \<and> list_all (\<lambda>c. \<not> separator c) p"
  by code_simp

lemma prefix_separated:
  assumes "list_all (\<lambda>c. \<not> separator c) p" "separator c" "take (length p) (w @ c # r) = p"
  shows "length p \<le> length w \<and> take (length p) w = p"
proof -
  have "length p \<le> length w"
  proof (rule ccontr)
    assume le: "\<not> length p \<le> length w"
    have "p ! length w = take (length p) (w @ c # r) ! length w" using assms(3) by simp
    also have "\<dots> = c" using le by (simp del: take_append)
    finally show False using assms(1,2) le by (auto simp: list_all_length)
  qed
  then show ?thesis using assms(3) by simp
qed

lemma text_of_separated:
  assumes "list_all (\<lambda>c. \<not> separator c) p" "separator c"
  shows "text_of p (w @ c # r) \<le> length w" and "p \<noteq> w \<Longrightarrow> w \<noteq> [] \<Longrightarrow> text_of p (w @ c # r) < length w"
proof -
  have "text_of p (w @ c # r) = (if take (length p) w = p \<and> length p \<le> length w then length p else 0)"
    using prefix_separated [OF assms, of w r] by (fastforce simp: text_of_def)
  moreover have "length p < length w" if "take (length p) w = p" "length p \<le> length w" "p \<noteq> w"
    using that by (metis le_less take_all_iff)
  ultimately show "text_of p (w @ c # r) \<le> length w" "p \<noteq> w \<Longrightarrow> w \<noteq> [] \<Longrightarrow> text_of p (w @ c # r) < length w"
    by (auto split: if_splits)
qed

lemma separator_outside: "separator c \<Longrightarrow> \<not> in_name c \<and> \<not> is_digit c \<and> \<not> is_hex c \<and> c \<noteq> CHR ''x''"
  by (auto simp: separator_def in_name_def starts_name_def is_hex_def is_digit_def code_def)

lemma takeWhile_separated: "\<not> P c \<Longrightarrow> length (takeWhile P (w @ c # r)) \<le> length w"
  by (induction w) auto

lemma varname_separated: "separator c \<Longrightarrow> varname (w @ c # r) \<le> length w"
  using takeWhile_separated [of in_name c] separator_outside [of c]
  by (cases w) (auto simp: varname_def in_name_def)

lemma integer_separated:
  assumes "separator c"
  shows "integer (w @ c # r) \<le> length w"
proof -
  have hex: "2 + length (takeWhile is_hex (drop 2 (w @ c # r))) \<le> length w" if x: "take 2 (w @ c # r) = ''0x''"
  proof (cases w)
    case Nil
    then show ?thesis using x assms by (auto simp: separator_def)
  next
    case (Cons a v)
    then show ?thesis using x assms separator_outside [OF assms] takeWhile_separated [of is_hex c] by (cases v) auto
  qed
  then show ?thesis using takeWhile_separated [of is_digit c w r] separator_outside [OF assms] by (auto simp: integer_def)
qed

definition plain_start :: "string \<Rightarrow> bool" where
  "plain_start w \<longleftrightarrow> w \<noteq> [] \<and> hd w \<notin> {CHR ''/'', CHR ''%'', CHR ''['', newline}"

lemma other_separated:
  assumes "separator c" "plain_start w"
  shows "line_comment (w @ c # r) = 0" "text_of ''/*'' (w @ c # r) = 0" "text_of ''%%'' (w @ c # r) = 0"
    "white (w @ c # r) = 0" "text_of [newline] (w @ c # r) = 0"
proof -
  obtain x v where w: "w = x # v" "x \<notin> {CHR ''/'', CHR ''%'', CHR ''['', newline}"
    using assms(2) by (cases w) (auto simp: plain_start_def)
  show "line_comment (w @ c # r) = 0" "text_of ''/*'' (w @ c # r) = 0" "text_of ''%%'' (w @ c # r) = 0"
    "white (w @ c # r) = 0" "text_of [newline] (w @ c # r) = 0"
    using w by (simp_all add: line_comment_def text_of_def white.simps [of "x # v @ c # r"] whitespace_def)
qed

text \<open>The match at a spelling: a text rule with that text, else the number or name rule that covers it.\<close>

lemma texts_rule:
  assumes "separator c" "w \<noteq> []" "(p, a) \<in> set texts" "p \<noteq> w"
  shows "text_of p (w @ c # r) < length w"
  using text_of_separated(2) [OF _ assms(1,4,2)] texts_plain assms(3) by blast

lemma other_rules_le:
  assumes "separator c" "plain_start w"
  shows "fst (longest (other_rules (w @ c # r))) \<le> length w"
proof -
  have "1 \<le> length w" using assms(2) by (cases w) (auto simp: plain_start_def)
  then show ?thesis
    using varname_separated [OF assms(1), of w r] integer_separated [OF assms(1), of w r] other_separated(4,5) [OF assms, of r]
    by (intro longest_le) (simp_all add: other_rules_def del: length_append)
qed

definition first_rules :: "string \<Rightarrow> (nat \<times> scan_action) list" where
  "first_rules s = [(text_of ''/*'' s, BeginComment), (line_comment s, Return COMMENT), (text_of ''%%'' s, BeginLiteral)] @
     map (\<lambda>(p, a). (text_of p s, a)) texts"

lemma first_rules_cases:
  assumes "separator c" "plain_start w" "q \<in> set (first_rules (w @ c # r))"
  shows "fst q < length w \<or> (\<exists>a. (w, a) \<in> set texts \<and> q = (length w, a))"
proof -
  have w: "w \<noteq> []" "0 < length w" using assms(2) by (simp_all add: plain_start_def)
  from assms(3) consider "fst q = 0" | p a where "(p, a) \<in> set texts" "q = (text_of p (w @ c # r), a)"
    unfolding first_rules_def using other_separated(1-3) [OF assms(1,2), of r] by auto
  then show ?thesis
  proof cases
    case (2 p a)
    then show ?thesis using texts_rule [OF assms(1) w(1) 2(1)] by (cases "p = w") (auto simp: text_of_def)
  qed (use w in simp)
qed

lemma rules_split: "initial_rules s = first_rules s @ other_rules s"
  by (simp add: initial_rules_split first_rules_def)

lemma longest_text:
  assumes "separator c" "plain_start w" "(w, a) \<in> set texts"
  shows "longest (initial_rules (w @ c # r)) = (length w, a)"
proof -
  let ?s = "w @ c # r"
  have "(length w, a) \<in> set (first_rules ?s)" using assms(3) by (force simp: first_rules_def text_of_def)
  moreover have "q = (length w, a) \<or> fst q < length w" if "q \<in> set (first_rules ?s)" for q
    using first_rules_cases [OF assms(1,2) that] assms(3) texts_distinct by (metis eq_key_imp_eq_value)
  ultimately have first: "longest (first_rules ?s) = (length w, a)" by (intro longest_unique) auto
  have "first_rules ?s \<noteq> []" "other_rules ?s \<noteq> []" by (simp_all add: first_rules_def other_rules_def)
  then have "longest (first_rules ?s @ other_rules ?s) = longest (first_rules ?s)"
    using longest_append [of "first_rules ?s" "other_rules ?s"] first other_rules_le [OF assms(1,2), of r] by simp
  then show ?thesis using first by (simp add: rules_split)
qed

lemma longest_no_text:
  assumes "separator c" "plain_start w" "w \<notin> fst ` set texts"
    and "other_rules (w @ c # r) = os @ (length w, a) # rs" and "\<forall>q\<in>set os. fst q < length w"
  shows "longest (initial_rules (w @ c # r)) = (length w, a)"
proof -
  let ?s = "w @ c # r"
  have "\<forall>q\<in>set (first_rules ?s @ os). fst q < length w"
    using first_rules_cases [OF assms(1,2)] assms(3,5) by force
  moreover have "first_rules ?s @ os \<noteq> []" by (simp add: first_rules_def)
  ultimately have "fst (longest (first_rules ?s @ os)) < length w" using longest_in by blast
  moreover have "rs = [] \<or> fst (longest rs) \<le> length w"
  proof (cases "rs = []")
    case False
    have "set rs \<subseteq> set (other_rules ?s)" using assms(4) by auto
    then have "fst (longest rs) \<le> fst (longest (other_rules ?s))" using longest_in [OF False] longest_ge by blast
    then show ?thesis using other_rules_le [OF assms(1,2), of r] by simp
  qed simp
  ultimately have "longest ((first_rules ?s @ os) @ (length w, a) # rs) = (length w, a)" by (intro longest_first) auto
  then show ?thesis using assms(4) by (simp add: rules_split)
qed

section \<open>Spellings\<close>

text \<open>What stands between percent signs must not hold the mark that ends it.\<close>

fun literal_ok :: "string \<Rightarrow> bool" where
  "literal_ok [] \<longleftrightarrow> True"
| "literal_ok (c # s) \<longleftrightarrow> take 2 (c # s @ ''%'') \<noteq> ''%%'' \<and> literal_ok s"

definition name_ok :: "string \<Rightarrow> bool" where
  "name_ok x \<longleftrightarrow> x \<noteq> [] \<and> starts_name (hd x) \<and> list_all in_name (tl x) \<and> x \<notin> fst ` set key_words"

definition number_ok :: "string \<Rightarrow> bool" where
  "number_ok k \<longleftrightarrow> k \<noteq> [] \<and> (list_all is_digit k \<or> (take 2 k = ''0x'' \<and> list_all is_hex (drop 2 k)))"

fun token_ok :: "tok \<Rightarrow> bool" where
  "token_ok (VARNAME x) \<longleftrightarrow> name_ok x"
| "token_ok (INTEGER k) \<longleftrightarrow> number_ok k"
| "token_ok (LITERAL s) \<longleftrightarrow> literal_ok s"
| "token_ok (LANGUAGE l) \<longleftrightarrow> l \<in> set languages"
| "token_ok OPEN_BRACKET \<longleftrightarrow> False"
| "token_ok t \<longleftrightarrow> True"

fun spelling :: "tok \<Rightarrow> string" where
  "spelling (VARNAME x) = x"
| "spelling (INTEGER k) = k"
| "spelling (LITERAL s) = ''%%'' @ s @ ''%%''"
| "spelling (LANGUAGE l) = l"
| "spelling COMMENT = ''/**/''"
| "spelling t = the (map_of (map (\<lambda>(p, t). (t, p)) (key_words @ marks)) t)"

lemma plain_code: "plain_start w \<longleftrightarrow> w \<noteq> [] \<and> hd w \<notin> {CHR ''/'', CHR ''%'', CHR ''['', newline}"
  by (simp add: plain_start_def)

lemma scan_step:
  assumes "longest (initial_rules (w @ c # r)) = (length w, Return t)" "w \<noteq> []"
  shows "yylex_all INITIAL (w @ c # r) = Tok t # yylex_all INITIAL (c # r)"
proof -
  obtain x v where w: "w = x # v" using assms(2) by (cases w) auto
  then show ?thesis using assms(1) by simp
qed

lemma text_names: "fst ` set texts = set languages \<union> fst ` set key_words \<union> fst ` set marks"
  by (auto simp: texts_def image_iff split_def) force+

lemma starts_of_texts:
  "p \<in> set languages \<Longrightarrow> \<not> starts_name (hd p) \<and> \<not> is_digit (hd p)"
  "p \<in> fst ` set marks \<Longrightarrow> \<not> starts_name (hd p) \<and> \<not> is_digit (hd p)"
  "p \<in> fst ` set key_words \<Longrightarrow> \<not> is_digit (hd p)"
  by (auto simp: languages_def marks_def key_words_def starts_name_def is_digit_def code_def)

lemma scan_name:
  assumes "name_ok x" "separator c"
  shows "longest (initial_rules (x @ c # r)) = (length x, Return (VARNAME x))"
proof (rule longest_no_text [OF assms(2)])
  obtain a v where x: "x = a # v" "starts_name a" "list_all in_name v" using assms(1) by (cases x) (auto simp: name_ok_def)
  have "takeWhile in_name (v @ c # r) = v" using x(3) separator_outside [OF assms(2)]
    by (induction v) auto
  then have len: "varname (x @ c # r) = length x" using x by (simp add: varname_def)
  have a: "\<not> is_digit a" "a \<noteq> CHR ''0''" "a \<noteq> CHR ''/''" "a \<noteq> CHR ''%''" "a \<noteq> CHR ''[''" "a \<noteq> newline"
    using x(2) by (auto simp: starts_name_def is_digit_def code_def newline_def)
  then show "plain_start x" using x by (simp add: plain_start_def)
  have "integer (x @ c # r) = 0" using a x by (simp add: integer_def)
  then show "other_rules (x @ c # r) = [(0, Return (INTEGER []))] @ (length x, Return (VARNAME x)) #
      [(white (x @ c # r), Nothing), (text_of [newline] (x @ c # r), Nothing), (1, Print)]"
    using len by (simp add: other_rules_def)
  show "\<forall>q\<in>set [(0, Return (INTEGER []))]. fst q < length x" using x by simp
  have "starts_name (hd x)" using x by simp
  then show "x \<notin> fst ` set texts" using starts_of_texts(1,2) assms(1) unfolding text_names name_ok_def by blast
qed

lemma scan_number:
  assumes "number_ok k" "separator c"
  shows "longest (initial_rules (k @ c # r)) = (length k, Return (INTEGER k))"
proof (rule longest_no_text [OF assms(2), where os = "[]"])
  obtain a v where k: "k = a # v" "is_digit a" using assms(1) by (cases k) (auto simp: number_ok_def is_digit_def code_def)
  have digits: "length (takeWhile is_digit (k @ c # r)) = length k" if "list_all is_digit k"
    using that separator_outside [OF assms(2)] by (induction k) auto
  have hex: "length (takeWhile is_hex (v @ c # r)) = length v" if "list_all is_hex v" for v
    using that separator_outside [OF assms(2)] by (induction v) auto
  have "length k \<le> integer (k @ c # r)"
    using assms(1) unfolding number_ok_def
  proof (elim conjE disjE)
    assume "take 2 k = ''0x''" "list_all is_hex (drop 2 k)"
    then obtain v where "k = ''0x'' @ v" "list_all is_hex v" by (metis append_take_drop_id)
    then show ?thesis using hex [of v] by (simp add: integer_def)
  qed (simp add: digits integer_def)
  then have len: "integer (k @ c # r) = length k" using integer_separated [OF assms(2), of k r] by simp
  have a: "\<not> starts_name a" "a \<noteq> CHR ''/''" "a \<noteq> CHR ''%''" "a \<noteq> CHR ''[''" "a \<noteq> newline"
    using k(2) by (auto simp: starts_name_def is_digit_def code_def newline_def)
  then show "plain_start k" using k by (simp add: plain_start_def)
  show "other_rules (k @ c # r) = [] @ (length k, Return (INTEGER k)) # tl (other_rules (k @ c # r))"
    using len by (simp add: other_rules_def)
  have "is_digit (hd k)" using k by simp
  then show "k \<notin> fst ` set texts" using starts_of_texts unfolding text_names by blast
qed simp

lemma scan_text:
  assumes "(w, Return t) \<in> set texts" "t \<noteq> OPEN_BRACKET" "separator c"
  shows "yylex_all INITIAL (w @ c # r) = Tok t # yylex_all INITIAL (c # r)" "w \<noteq> []"
proof -
  have "\<forall>(p, a)\<in>set texts. a = Return OPEN_BRACKET \<or> plain_start p" by code_simp
  then have plain: "plain_start w" using assms(1,2) by blast
  then show "w \<noteq> []" by (simp add: plain_start_def)
  then show "yylex_all INITIAL (w @ c # r) = Tok t # yylex_all INITIAL (c # r)"
    using scan_step [OF longest_text [OF assms(3) plain assms(1)]] by blast
qed

lemma white_none: "take 6 s \<noteq> whitespace \<Longrightarrow> white s = 0"
  by (simp add: white.simps)

lemmas rules_at = initial_rules_def text_of_def line_comment_def integer_def varname_def white_none whitespace_def languages_def key_words_def
  marks_def newline_def starts_name_def is_digit_def code_def

lemma longest_comment: "longest (initial_rules (''/*'' @ s)) = (2, BeginComment)"
  by (simp add: rules_at)

lemma longest_literal: "longest (initial_rules (''%%'' @ s)) = (2, BeginLiteral)"
  by (simp add: rules_at)

lemma longest_separator:
  "longest (initial_rules (CHR '' '' # s)) = (1, Print)" "longest (initial_rules (CHR 0x09 # s)) = (1, Print)"
  "longest (initial_rules (CHR 0x0D # s)) = (1, Print)" "longest (initial_rules (CHR 0x0A # s)) = (1, Nothing)"
  by (simp_all add: rules_at)

lemma scan_comment: "yylex_all INITIAL (''/**/'' @ s) = Tok COMMENT # yylex_all INITIAL s"
  using longest_comment [of "''*/'' @ s"] by simp

lemma scan_literal_state: "literal_ok s \<Longrightarrow> yylex_all (STATE_LITERAL b) (s @ ''%%'' @ r) = Tok (LITERAL (b @ s)) # yylex_all INITIAL r"
proof (induction s arbitrary: b)
  case (Cons c s)
  then show ?case by (cases s) auto
qed simp

lemma scan_separator:
  assumes "separator c"
  shows "tokens (yylex_all INITIAL (c # r)) = tokens (yylex_all INITIAL r)"
  using assms by (auto simp: separator_def longest_separator tokens_def)

lemma plain_spelling:
  assumes "token_ok t" "\<nexists>x. t = VARNAME x \<or> t = INTEGER x \<or> t = LITERAL x" "t \<noteq> COMMENT"
  shows "(spelling t, Return t) \<in> set texts"
proof (cases t)
  case (PRIMITIVE p)
  then show ?thesis by (cases p) (simp_all add: texts_def key_words_def marks_def)
qed (use assms in \<open>simp_all add: texts_def key_words_def marks_def\<close>)

lemma scan_token:
  assumes "token_ok t" "separator c"
  shows "yylex_all INITIAL (spelling t @ c # r) = Tok t # yylex_all INITIAL (c # r)"
proof (cases "\<exists>x. t = VARNAME x \<or> t = INTEGER x \<or> t = LITERAL x")
  case True
  then obtain x where "t = VARNAME x \<or> t = INTEGER x \<or> t = LITERAL x" by blast
  then consider "t = VARNAME x" | "t = INTEGER x" | "t = LITERAL x" by blast
  then show ?thesis
  proof cases
    case 1
    then show ?thesis using assms scan_step [OF scan_name] by (simp add: name_ok_def)
  next
    case 2
    then show ?thesis using assms scan_step [OF scan_number] by (simp add: number_ok_def)
  next
    case 3
    then show ?thesis using assms scan_literal_state [of x "[]" "c # r"] longest_literal [of "x @ ''%%'' @ c # r"] by simp
  qed
next
  case False
  then show ?thesis
  proof (cases "t = COMMENT")
    case True
    then show ?thesis using scan_comment [of "c # r"] by simp
  next
    case f: False
    have "t \<noteq> OPEN_BRACKET" using assms(1) by auto
    then show ?thesis using scan_text(1) [OF plain_spelling [OF assms(1) False f] _ assms(2)] by blast
  qed
qed

definition show_tokens :: "(tok \<times> char) list \<Rightarrow> string" where
  "show_tokens ts = concat (map (\<lambda>(t, c). spelling t @ [c]) ts)"

text \<open>So every sequence of such tokens can be written down and is read back.\<close>

lemma scan_tokens_text:
  "\<forall>(t, c)\<in>set ts. token_ok t \<and> separator c \<Longrightarrow> scan (show_tokens ts) = map fst ts"
proof (induction ts)
  case (Cons tc ts)
  obtain t c where tc: "tc = (t, c)" by (cases tc)
  then have ok: "token_ok t" "separator c" using Cons.prems by auto
  have "yylex_all INITIAL (show_tokens (tc # ts)) = Tok t # yylex_all INITIAL (c # show_tokens ts)"
    using scan_token [OF ok] tc by (simp add: show_tokens_def)
  then have "scan (show_tokens (tc # ts)) = t # scan (show_tokens ts)"
    using scan_separator [OF ok(2)] by (simp add: scan_def tokens_def)
  then show ?case using Cons tc by simp
qed (simp add: scan_def show_tokens_def tokens_def)

end
