(* ===== verification/Idl_Router.thy ===== *)
theory Idl_Router
  imports Router_Messages Idl_Wire_Correct
begin

text \<open>
  The interface file of the router, \<^verbatim>\<open>Gamnet/Network/Router/MsgRouter.idl\<close>, through the interface compiler: the text
  the C++ generator writes for it is the text of the checked-in \<^verbatim>\<open>MsgRouter.h\<close>, and the code the generator writes does
  on every input what the functions of \<open>Router_Messages\<close> do.
\<close>

section \<open>The interface file\<close>

text \<open>Without its literal blocks, which hold the name space and the order on addresses.\<close>

definition router_unit :: "stmt list" where
  "router_unit =
    [Enum ''ROUTER_CAST_TYPE'' [EnumElmt ''UNI_CAST'' [], EnumElmt ''MULTI_CAST'' [], EnumElmt ''ANY_CAST'' [], EnumElmt ''MAX'' []],
     Message ''Address'' [] (-1) [VarDecl StringType ''service_name'', VarDecl (UserDefineType ''ROUTER_CAST_TYPE'') ''cast_type'',
       VarDecl (PrimitiveType P_uint32) ''id'', VarDecl (PrimitiveType P_uint64) ''msg_seq''],
     Message ''MsgRouter_SetAddress_Req'' [] 1 [VarDecl (UserDefineType ''Address'') ''local_address''],
     Message ''MsgRouter_SetAddress_Ans'' [] 2 [VarDecl (PrimitiveType P_int32) ''error_code'', VarDecl (UserDefineType ''Address'') ''remote_address''],
     Message ''MsgRouter_SetAddress_Ntf'' [] 3 [],
     Message ''MsgRouter_SendMsg_Ntf'' [] 4 [VarDecl (PrimitiveType P_uint32) ''msg_seq'', VarDecl StringType ''buffer''],
     Message ''MsgRouter_HeartBeat_Ntf'' [] 5 []]"

text \<open>The named types of the file. It has no map, so that no order of keys is used.\<close>

definition router_users :: users where
  "router_users = unit_users (\<lambda>_ _. False) router_unit"

lemma router_users_ok: "stmts_ok (\<lambda>_ _. False) Map.empty router_unit"
  by (simp add: router_unit_def no_capture_def declared_names_def parameter_names_def c_number_def number_value_def
      cpp_symbol_def all_primitives_def ReplaceSpecialChar_def)

section \<open>Generated code and model\<close>

text \<open>A generated type that a model describes: \<open>emb\<close> shows a value of the model to the generated code. Whatever bytes
  come, loading a new object does what the model's \<open>load\<close> does, false included.\<close>

locale generated_type =
  fixes u :: user and emb :: "'m \<Rightarrow> val" and sz :: "'m \<Rightarrow> nat" and store :: "'m \<Rightarrow> bytes"
    and load :: "bytes \<Rightarrow> ('m \<times> bytes) option"
  assumes size_emb: "u_size u (emb m) = Some (sz m)"
    and store_emb: "u_store u (emb m) = Some (store m)"
    and load_fresh: "u_load u (u_fresh u) bs = (case load bs of None \<Rightarrow> Refused | Some (m, r) \<Rightarrow> Loaded (emb m) r)"
begin

lemma never_overreads: "u_load u (u_fresh u) bs \<noteq> Overread"
  by (simp add: load_fresh split: option.split)

lemma load_member:
  "us n = Some u \<Longrightarrow> get x f = Some (u_fresh u) \<Longrightarrow> run_load us lt (UserDefineType n) x f bs =
    (case load bs of None \<Rightarrow> Refused | Some (m, r) \<Rightarrow> Loaded (put x (emb m) f) r)"
  by (simp add: load_fresh split: option.split)

end

definition cast_val :: "cast_type \<Rightarrow> val" where
  "cast_val c = VPrim (put_word c)"

definition address_val :: "address \<Rightarrow> val" where
  "address_val a = VObject None
     [(''service_name'', VString (service_name a)), (''cast_type'', cast_val (cast_type a)),
      (''id'', VPrim (put_word (addr_id a))), (''msg_seq'', VPrim (put_word (addr_msg_seq a)))]"

definition setaddress_req_val :: "setaddress_req \<Rightarrow> val" where
  "setaddress_req_val m = VObject None [(''local_address'', address_val (local_address m))]"

definition setaddress_ans_val :: "setaddress_ans \<Rightarrow> val" where
  "setaddress_ans_val m = VObject None
     [(''error_code'', VPrim (put_word (ans_error_code m))), (''remote_address'', address_val (ans_remote_address m))]"

definition no_member_val :: "unit \<Rightarrow> val" where
  "no_member_val m = VObject None []"

definition sendmsg_ntf_val :: "sendmsg_ntf \<Rightarrow> val" where
  "sendmsg_ntf_val m = VObject None
     [(''msg_seq'', VPrim (put_word (ntf_msg_seq m))), (''buffer'', VString (ntf_buffer m))]"

text \<open>The declared types, one by one.\<close>

definition cast_user :: user where
  "cast_user = enum_user [(''UNI_CAST'', []), (''MULTI_CAST'', []), (''ANY_CAST'', []), (''MAX'', [])]"

abbreviation message_of :: "users \<Rightarrow> (var_type \<times> string) list \<Rightarrow> user" where
  "message_of us ms \<equiv> message_user us (\<lambda>_ _. False) None ms"

definition cast_users :: users where "cast_users = [''ROUTER_CAST_TYPE'' \<mapsto> cast_user]"

definition address_user :: user where
  "address_user = message_of cast_users
     [(StringType, ''service_name''), (UserDefineType ''ROUTER_CAST_TYPE'', ''cast_type''),
      (PrimitiveType P_uint32, ''id''), (PrimitiveType P_uint64, ''msg_seq'')]"

declare le_bytes_numeral [simp del]

lemma put_get_word: "LENGTH('a::len) = 8 * length bs \<Longrightarrow> put_word (get_word bs :: 'a word) = bs"
proof -
  assume len: "LENGTH('a) = 8 * length bs"
  have "le_val bs < 2 ^ LENGTH('a)" using le_val_less [of bs] len by (simp add: power_mult)
  then have "unat (get_word bs :: 'a word) = le_val bs" by (simp add: get_word_def unat_of_nat take_bit_nat_eq_self)
  then show ?thesis using len by (simp add: put_word_def)
qed

text \<open>Loading one member, in terms of the field functions of the model.\<close>

lemma load_primitive_member:
  assumes "get x f = Some (VPrim old)" and "length old = prim_sizeof p" and "LENGTH('a::len) = 8 * prim_sizeof p"
  shows "run_load us lt (PrimitiveType p) x f bs =
    (case (load_word bs :: ('a word \<times> bytes) option) of None \<Rightarrow> Refused | Some (w, r) \<Rightarrow> Loaded (put x (VPrim (put_word w)) f) r)"
  using assms by (auto simp: load_word_def Let_def put_get_word)

lemma load_string_member:
  assumes "get x f = Some (VString old)"
  shows "run_load us lt StringType x f bs =
    (case load_string bs of None \<Rightarrow> Refused
     | Some (s, r) \<Rightarrow> Loaded (put x (VString s) (declare_local (x @ ''_length'') (VPrim (take 4 bs)) f)) r)"
proof (cases "length bs < 4")
  case False
  then have "unat (get_word (take 4 bs) :: u32) = le_val (take 4 bs)"
    using le_val_less [of "take 4 bs"] by (simp add: get_word_def unat_of_nat)
  with False assms show ?thesis by (simp add: load_string_def load_word_def load_count_def)
qed (simp add: load_string_def load_word_def load_count_def)

interpretation cast_type: generated_type cast_user cast_val ROUTER_CAST_TYPE_Size ROUTER_CAST_TYPE_Store ROUTER_CAST_TYPE_Load
proof unfold_locales
  fix c :: cast_type and bs :: bytes
  show "u_size cast_user (cast_val c) = Some (ROUTER_CAST_TYPE_Size c)"
    by (simp add: cast_user_def enum_user_def ROUTER_CAST_TYPE_Size_def)
  show "u_store cast_user (cast_val c) = Some (ROUTER_CAST_TYPE_Store c)"
    by (simp add: cast_user_def enum_user_def cast_val_def ROUTER_CAST_TYPE_Store_def store_word_def)
  show "u_load cast_user (u_fresh cast_user) bs =
      (case ROUTER_CAST_TYPE_Load bs of None \<Rightarrow> Refused | Some (c, r) \<Rightarrow> Loaded (cast_val c) r)"
    by (simp add: cast_user_def enum_user_def ROUTER_CAST_TYPE_Load_def load_word_def cast_val_def put_get_word)
qed

lemma load_fields:
  "get x f = Some (VPrim old) \<Longrightarrow> length old = 4 \<Longrightarrow> run_load us lt (PrimitiveType P_int32) x f bs =
    (case (load_word bs :: (u32 \<times> bytes) option) of None \<Rightarrow> Refused | Some (w, r) \<Rightarrow> Loaded (put x (VPrim (put_word w)) f) r)"
  "get x f = Some (VPrim old) \<Longrightarrow> length old = 4 \<Longrightarrow> run_load us lt (PrimitiveType P_uint32) x f bs =
    (case (load_word bs :: (u32 \<times> bytes) option) of None \<Rightarrow> Refused | Some (w, r) \<Rightarrow> Loaded (put x (VPrim (put_word w)) f) r)"
  "get x f = Some (VPrim old) \<Longrightarrow> length old = 8 \<Longrightarrow> run_load us lt (PrimitiveType P_uint64) x f bs =
    (case (load_word bs :: (u64 \<times> bytes) option) of None \<Rightarrow> Refused | Some (w, r) \<Rightarrow> Loaded (put x (VPrim (put_word w)) f) r)"
  by (rule load_primitive_member; simp)+

lemma get_member_frame [simp]: "get x (member_frame fs) = map_of fs x"
  by (simp add: get_def member_frame_def)

lemma member_after [simp]:
  "snd (put x v f) y = (if y = x \<and> fst f x = None then Some v else snd f y)"
  "snd (declare_local x v f) y = snd f y" "snd (member_frame fs) y = map_of fs y"
  "fst (put x v f) y = (if y = x \<and> fst f x \<noteq> None then Some v else fst f y)"
  "fst (declare_local x v f) y = (if y = x then Some v else fst f y)" "fst (member_frame fs) y = None"
  by (simp_all add: put_def declare_local_def member_frame_def)

lemmas message_simps = message_user_def message_size_def message_store_def message_load_def size_members_def

interpretation address_type: generated_type address_user address_val Address_Size Address_Store Address_Load
proof unfold_locales
  fix a :: address and bs :: bytes
  have cast: "cast_users ''ROUTER_CAST_TYPE'' = Some cast_user" by (simp add: cast_users_def)
  show "u_size address_user (address_val a) = Some (Address_Size a)"
    by (simp add: address_user_def message_simps address_val_def cast cast_type.size_emb Address_Size_def)
  show "u_store address_user (address_val a) = Some (Address_Store a)"
    by (simp add: address_user_def message_simps address_val_def cast cast_type.store_emb Address_Store_def
        store_word_def store_string_def ReplaceSpecialChar_def)
  show "u_load address_user (u_fresh address_user) bs =
      (case Address_Load bs of None \<Rightarrow> Refused | Some (a, r) \<Rightarrow> Loaded (address_val a) r)"
    by (simp add: address_user_def message_simps address_val_def cast Address_Load_def cast_type.load_member load_fields load_string_member
        split: option.split del: run_load.simps)
qed

definition address_users :: users where "address_users = cast_users(''Address'' \<mapsto> address_user)"

text \<open>Each message is compiled with the types before it.\<close>

definition setaddress_req_user :: user where
  "setaddress_req_user = message_of address_users [(UserDefineType ''Address'', ''local_address'')]"

definition setaddress_req_users :: users where
  "setaddress_req_users = address_users(''MsgRouter_SetAddress_Req'' \<mapsto> setaddress_req_user)"

definition setaddress_ans_user :: user where
  "setaddress_ans_user = message_of setaddress_req_users
     [(PrimitiveType P_int32, ''error_code''), (UserDefineType ''Address'', ''remote_address'')]"

definition setaddress_ans_users :: users where
  "setaddress_ans_users = setaddress_req_users(''MsgRouter_SetAddress_Ans'' \<mapsto> setaddress_ans_user)"

definition setaddress_ntf_user :: user where
  "setaddress_ntf_user = message_of setaddress_ans_users []"

definition setaddress_ntf_users :: users where
  "setaddress_ntf_users = setaddress_ans_users(''MsgRouter_SetAddress_Ntf'' \<mapsto> setaddress_ntf_user)"

definition sendmsg_ntf_user :: user where
  "sendmsg_ntf_user = message_of setaddress_ntf_users [(PrimitiveType P_uint32, ''msg_seq''), (StringType, ''buffer'')]"

definition sendmsg_ntf_users :: users where
  "sendmsg_ntf_users = setaddress_ntf_users(''MsgRouter_SendMsg_Ntf'' \<mapsto> sendmsg_ntf_user)"

definition heartbeat_ntf_user :: user where
  "heartbeat_ntf_user = message_of sendmsg_ntf_users []"

lemma address_known [simp]:
  "address_users ''Address'' = Some address_user" "setaddress_req_users ''Address'' = Some address_user"
  by (simp_all add: address_users_def setaddress_req_users_def)

interpretation setaddress_req_type: generated_type setaddress_req_user setaddress_req_val
  SetAddress_Req_Size SetAddress_Req_Store SetAddress_Req_Load
  by unfold_locales
    (simp_all add: setaddress_req_user_def message_simps setaddress_req_val_def SetAddress_Req_Size_def SetAddress_Req_Store_def
      SetAddress_Req_Load_def address_type.size_emb address_type.store_emb address_type.load_fresh split: option.split)

interpretation setaddress_ans_type: generated_type setaddress_ans_user setaddress_ans_val
  SetAddress_Ans_Size SetAddress_Ans_Store SetAddress_Ans_Load
proof unfold_locales
  fix m :: setaddress_ans and bs :: bytes
  show "u_size setaddress_ans_user (setaddress_ans_val m) = Some (SetAddress_Ans_Size m)"
    by (simp add: setaddress_ans_user_def message_simps setaddress_ans_val_def SetAddress_Ans_Size_def address_type.size_emb)
  show "u_store setaddress_ans_user (setaddress_ans_val m) = Some (SetAddress_Ans_Store m)"
    by (simp add: setaddress_ans_user_def message_simps setaddress_ans_val_def SetAddress_Ans_Store_def store_word_def address_type.store_emb)
  show "u_load setaddress_ans_user (u_fresh setaddress_ans_user) bs =
      (case SetAddress_Ans_Load bs of None \<Rightarrow> Refused | Some (m, r) \<Rightarrow> Loaded (setaddress_ans_val m) r)"
    by (simp add: setaddress_ans_user_def message_simps setaddress_ans_val_def SetAddress_Ans_Load_def address_type.load_member load_fields
        split: option.split del: run_load.simps)
qed

interpretation setaddress_ntf_type: generated_type setaddress_ntf_user no_member_val
  SetAddress_Ntf_Size SetAddress_Ntf_Store SetAddress_Ntf_Load
  by unfold_locales
    (simp_all add: setaddress_ntf_user_def message_simps no_member_val_def SetAddress_Ntf_Size_def SetAddress_Ntf_Store_def SetAddress_Ntf_Load_def)

interpretation heartbeat_ntf_type: generated_type heartbeat_ntf_user no_member_val
  HeartBeat_Ntf_Size HeartBeat_Ntf_Store HeartBeat_Ntf_Load
  by unfold_locales
    (simp_all add: heartbeat_ntf_user_def message_simps no_member_val_def HeartBeat_Ntf_Size_def HeartBeat_Ntf_Store_def HeartBeat_Ntf_Load_def)

interpretation sendmsg_ntf_type: generated_type sendmsg_ntf_user sendmsg_ntf_val
  SendMsg_Ntf_Size SendMsg_Ntf_Store SendMsg_Ntf_Load
proof unfold_locales
  fix m :: sendmsg_ntf and bs :: bytes
  show "u_size sendmsg_ntf_user (sendmsg_ntf_val m) = Some (SendMsg_Ntf_Size m)"
    by (simp add: sendmsg_ntf_user_def message_simps sendmsg_ntf_val_def SendMsg_Ntf_Size_def)
  show "u_store sendmsg_ntf_user (sendmsg_ntf_val m) = Some (SendMsg_Ntf_Store m)"
    by (simp add: sendmsg_ntf_user_def message_simps sendmsg_ntf_val_def SendMsg_Ntf_Store_def store_word_def store_string_def ReplaceSpecialChar_def)
  show "u_load sendmsg_ntf_user (u_fresh sendmsg_ntf_user) bs =
      (case SendMsg_Ntf_Load bs of None \<Rightarrow> Refused | Some (m, r) \<Rightarrow> Loaded (sendmsg_ntf_val m) r)"
    by (simp add: sendmsg_ntf_user_def message_simps sendmsg_ntf_val_def SendMsg_Ntf_Load_def load_fields load_string_member
        split: option.split del: run_load.simps)
qed

lemma router_users_eq: "router_users = sendmsg_ntf_users(''MsgRouter_HeartBeat_Ntf'' \<mapsto> heartbeat_ntf_user)"
  by (simp add: router_users_def unit_users_def router_unit_def cast_user_def cast_users_def address_user_def address_users_def
      setaddress_req_user_def setaddress_req_users_def setaddress_ans_user_def setaddress_ans_users_def
      setaddress_ntf_user_def setaddress_ntf_users_def sendmsg_ntf_user_def sendmsg_ntf_users_def heartbeat_ntf_user_def)

lemma router_types:
  "router_users ''Address'' = Some address_user" "router_users ''MsgRouter_SetAddress_Req'' = Some setaddress_req_user"
  "router_users ''MsgRouter_SetAddress_Ans'' = Some setaddress_ans_user" "router_users ''MsgRouter_SetAddress_Ntf'' = Some setaddress_ntf_user"
  "router_users ''MsgRouter_SendMsg_Ntf'' = Some sendmsg_ntf_user" "router_users ''MsgRouter_HeartBeat_Ntf'' = Some heartbeat_ntf_user"
  by (simp_all add: router_users_eq sendmsg_ntf_users_def setaddress_ntf_users_def setaddress_ans_users_def setaddress_req_users_def address_users_def)

text \<open>The named type \<open>n\<close> of an interface file behaves as the model says: sizes, bytes stored, and the outcome of loading
  any input into a new object.\<close>

definition generated_as :: "users \<Rightarrow> string \<Rightarrow> ('m \<Rightarrow> val) \<Rightarrow> ('m \<Rightarrow> nat) \<Rightarrow> ('m \<Rightarrow> bytes) \<Rightarrow> (bytes \<Rightarrow> ('m \<times> bytes) option) \<Rightarrow> bool" where
  "generated_as us n emb sz store load \<longleftrightarrow>
     (case us n of
        None \<Rightarrow> False
      | Some u \<Rightarrow> (\<forall>m. u_size u (emb m) = Some (sz m) \<and> u_store u (emb m) = Some (store m)) \<and>
          (\<forall>bs. u_load u (u_fresh u) bs = (case load bs of None \<Rightarrow> Refused | Some (m, r) \<Rightarrow> Loaded (emb m) r)))"

lemma generated_asI: "generated_type u emb sz store load \<Longrightarrow> us n = Some u \<Longrightarrow> generated_as us n emb sz store load"
  by (simp add: generated_as_def generated_type_def)

text \<open>C24: the C++ that the interface compiler writes for the router's interface file and the functions of the checked-in
  header agree on every message and on every input: the size, the bytes stored, what is loaded and what is refused.\<close>

theorem router_header_is_generated:
  "generated_as router_users ''Address'' address_val Address_Size Address_Store Address_Load \<and>
   generated_as router_users ''MsgRouter_SetAddress_Req'' setaddress_req_val SetAddress_Req_Size SetAddress_Req_Store SetAddress_Req_Load \<and>
   generated_as router_users ''MsgRouter_SetAddress_Ans'' setaddress_ans_val SetAddress_Ans_Size SetAddress_Ans_Store SetAddress_Ans_Load \<and>
   generated_as router_users ''MsgRouter_SetAddress_Ntf'' no_member_val SetAddress_Ntf_Size SetAddress_Ntf_Store SetAddress_Ntf_Load \<and>
   generated_as router_users ''MsgRouter_SendMsg_Ntf'' sendmsg_ntf_val SendMsg_Ntf_Size SendMsg_Ntf_Store SendMsg_Ntf_Load \<and>
   generated_as router_users ''MsgRouter_HeartBeat_Ntf'' no_member_val HeartBeat_Ntf_Size HeartBeat_Ntf_Store HeartBeat_Ntf_Load"
  by (intro conjI address_type.generated_type_axioms [THEN generated_asI] setaddress_req_type.generated_type_axioms [THEN generated_asI]
      setaddress_ans_type.generated_type_axioms [THEN generated_asI] setaddress_ntf_type.generated_type_axioms [THEN generated_asI]
      sendmsg_ntf_type.generated_type_axioms [THEN generated_asI] heartbeat_ntf_type.generated_type_axioms [THEN generated_asI] router_types)

section \<open>Generated text\<close>

text \<open>Lines 56 to 114 of \<^verbatim>\<open>MsgRouter.h\<close>.\<close>

definition MsgRouter_h_Address :: "code_lines" where
  "MsgRouter_h_Address =
    [''struct Address {'',
     TAB @ ''std::string'' @ TAB @ ''service_name;'',
     TAB @ ''ROUTER_CAST_TYPE'' @ TAB @ ''cast_type;'',
     TAB @ ''uint32_t'' @ TAB @ ''id;'',
     TAB @ ''uint64_t'' @ TAB @ ''msg_seq;'',
     TAB @ ''Address()'' @ TAB @ ''{'',
     TABS @ ''id = 0;'',
     TABS @ ''msg_seq = 0;'',
     TAB @ ''}'',
     TAB @ ''size_t Size() const {'',
     TABS @ ''size_t nSize = 0;'',
     TABS @ ''nSize += sizeof(uint32_t); nSize += service_name.length();'',
     TABS @ ''nSize += ROUTER_CAST_TYPE_Serializer::Size(cast_type);'',
     TABS @ ''nSize += sizeof(uint32_t);'',
     TABS @ ''nSize += sizeof(uint64_t);'',
     TABS @ ''return nSize;'',
     TAB @ ''}'',
     TAB @ ''bool Store(std::vector<char>& _buf_) const {'',
     TABS @ ''size_t nSize = Size();'',
     '' '' @ TABS @ ''if(0 == nSize) { return true; }'',
     TABS @ ''if(nSize > _buf_.size()) { '',
     TABS @ TAB @ ''_buf_.resize(nSize);'',
     TABS @ ''}'',
     TABS @ ''char* pBuf = &(_buf_[0]);'',
     TABS @ ''if(false == Store(&pBuf)) return false;'',
     TABS @ ''return true;'',
     TAB @ ''}'',
     TAB @ ''bool Store(char** _buf_) const {'',
     TABS @ ''size_t service_name_size = service_name.length();'',
     TABS @ ''std::memcpy('' @ ''*_buf_, &service_name_size, sizeof(int32_t)); ('' @ ''*_buf_) += sizeof(int32_t);'',
     TABS @ ''std::memcpy('' @ ''*_buf_, service_name.c_str(), service_name.length()); ('' @ ''*_buf_) += service_name.length();'',
     TABS @ ''if(false == ROUTER_CAST_TYPE_Serializer::Store(_buf_, cast_type)) { return false; }'',
     TABS @ ''std::memcpy('' @ ''*_buf_, &id, sizeof(uint32_t)); ('' @ ''*_buf_) += sizeof(uint32_t);'',
     TABS @ ''std::memcpy('' @ ''*_buf_, &msg_seq, sizeof(uint64_t)); ('' @ ''*_buf_) += sizeof(uint64_t);'',
     TABS @ ''return true;'',
     TAB @ ''}'',
     TAB @ ''bool Load(const std::vector<char>& _buf_) {'',
     TABS @ ''size_t nSize = _buf_.size();'',
     '' '' @ TABS @ ''if(0 == nSize) { return true; }'',
     TABS @ ''const char* pBuf = &(_buf_[0]);'',
     TABS @ ''if(false == Load(&pBuf, nSize)) return false;'',
     TABS @ ''return true;'',
     TAB @ ''}'',
     TAB @ ''bool Load(const char** _buf_, size_t& nSize) {'',
     TABS @ ''if(sizeof(int32_t) > nSize) { return false; }'',
     TABS @ ''uint32_t service_name_length = 0; std::memcpy(&service_name_length, *_buf_, sizeof(uint32_t)); ('' @ ''*_buf_) += sizeof(uint32_t); nSize -= sizeof(uint32_t);'',
     TABS @ ''if(nSize < service_name_length) { return false; }'',
     TABS @ ''service_name.assign((char*'' @ '')*_buf_, service_name_length); ('' @ ''*_buf_) += service_name_length; nSize -= service_name_length;'',
     TABS @ ''if(false == ROUTER_CAST_TYPE_Serializer::Load(cast_type, _buf_, nSize)) { return false; }'',
     TABS @ ''if(sizeof(uint32_t) > nSize) { return false; }'' @ TAB @ ''std::memcpy(&id, *_buf_, sizeof(uint32_t));'' @ TAB @ ''('' @ ''*_buf_) += sizeof(uint32_t); nSize -= sizeof(uint32_t);'',
     TABS @ ''if(sizeof(uint64_t) > nSize) { return false; }'' @ TAB @ ''std::memcpy(&msg_seq, *_buf_, sizeof(uint64_t));'' @ TAB @ ''('' @ ''*_buf_) += sizeof(uint64_t); nSize -= sizeof(uint64_t);'',
     TABS @ ''return true;'',
     TAB @ ''}'',
     ''}; //Address'',
     ''struct Address_Serializer {'',
     TAB @ ''static bool Store(char** _buf_, const Address& obj) { return obj.Store(_buf_); }'',
     TAB @ ''static bool Load(Address& obj, const char** _buf_, size_t& nSize) { return obj.Load(_buf_, nSize); }'',
     TAB @ ''static size_t Size(const Address& obj) { return obj.Size(); }'',
     ''};'']"

lemma cast_type_symbol [simp]: "cpp_symbol ''ROUTER_CAST_TYPE'' = None"
  by (simp add: cpp_symbol_def all_primitives_def)

text \<open>For the message \<open>Address\<close> the C++ generator writes the checked-in text of its struct and its serializer, line by
  line.\<close>

theorem address_text_is_generated:
  "parse_stmt GenerateRuleCpp (router_unit ! 1) = MsgRouter_h_Address"
  by (simp add: router_unit_def GenerateRuleCpp_def cpp_CompileMessage_def cpp_constructors_def cpp_Size_def cpp_Store_def cpp_Load_def
      cpp_load_count_def cpp_member_def for_members_def line_def ReplaceSpecialChar_def MsgRouter_h_Address_def)

end
