(* ===== verification/Idl_Python.thy ===== *)
theory Idl_Python
  imports Idl_Wire
begin

text \<open>
  The Python generator, \<^verbatim>\<open>idlc/src/generate_rule_python.cpp\<close>: the text it writes for a parse tree. Unlike the other two
  it writes the number of every enumerator itself; \<open>python_enum_numbers\<close> compares them with the numbers the C++ compiler
  gives to the same enumeration.
\<close>

section \<open>Names and values\<close>

text \<open>Initial value, \<open>struct\<close> format and size of a primitive.\<close>

abbreviation QUOTE :: string where "QUOTE \<equiv> [CHR 0x27]"

fun py_primitive :: "primitive \<Rightarrow> string \<times> string \<times> string" where
  "py_primitive P_boolean = (''False'', ''b'', ''1'')"
| "py_primitive P_byte = (QUOTE @ [CHR 0x5C, CHR ''0''] @ QUOTE, ''c'', ''1'')"
| "py_primitive P_ubyte = (QUOTE @ [CHR 0x5C, CHR ''0''] @ QUOTE, ''c'', ''1'')"
| "py_primitive P_int16 = (''0'', ''h'', ''2'')"
| "py_primitive P_int32 = (''0'', ''i'', ''4'')"
| "py_primitive P_int64 = (''0'', ''q'', ''8'')"
| "py_primitive P_uint16 = (''0'', ''H'', ''2'')"
| "py_primitive P_uint32 = (''0'', ''I'', ''4'')"
| "py_primitive P_uint64 = (''0'', ''Q'', ''8'')"
| "py_primitive P_double = (''0.0'', ''d'', ''8'')"
| "py_primitive P_float = (''0.0'', ''f'', ''4'')"

definition py_fmt :: "primitive \<Rightarrow> string" where "py_fmt p = fst (snd (py_primitive p))"

definition py_sizeof :: "primitive \<Rightarrow> string" where "py_sizeof p = snd (snd (py_primitive p))"

fun GenerateInitCode :: "var_type \<Rightarrow> string" where
  "GenerateInitCode (StaticArrayType e n) = ''['' @ GenerateInitCode e @ ''] * '' @ n"
| "GenerateInitCode (ArrayType e) = ''[]''"
| "GenerateInitCode (ListType e) = ''[]''"
| "GenerateInitCode (MapType k e) = ''{}''"
| "GenerateInitCode (PrimitiveType p) = fst (py_primitive p)"
| "GenerateInitCode StringType = QUOTE @ QUOTE"
| "GenerateInitCode (UserDefineType n) = n @ ''Init()''"

definition GenerateIndent :: "nat \<Rightarrow> string" where
  "GenerateIndent n = replicate n (CHR 0x09)"

text \<open>The names of the loop variables at a depth.\<close>

definition py_key :: "nat \<Rightarrow> string" where "py_key n = ''k'' @ dec_int (int n)"

definition py_val :: "nat \<Rightarrow> string" where "py_val n = ''v'' @ dec_int (int n)"

section \<open>Code for a variable\<close>

definition py_pack :: "string \<Rightarrow> string \<Rightarrow> string" where
  "py_pack fmt x = ''data += struct.pack('' @ QUOTE @ fmt @ QUOTE @ '', '' @ x @ '')''"

definition py_unpack :: "primitive \<Rightarrow> string \<Rightarrow> string" where
  "py_unpack p x =
     x @ '' = struct.unpack('' @ QUOTE @ py_fmt p @ QUOTE @ '', buf[0:'' @ py_sizeof p @ ''])[0]; buf = buf['' @ py_sizeof p @ '':]''"

fun py_store :: "nat \<Rightarrow> var_type \<Rightarrow> string \<Rightarrow> string \<Rightarrow> code_lines" where
  "py_store n (PrimitiveType t) p v = line [GenerateIndent n, py_pack (py_fmt t) (p @ v)]"
| "py_store n StringType p v =
     line [GenerateIndent n, py_pack (py_fmt P_int32) (''len('' @ p @ v @ '')'')] @
     line [GenerateIndent n, ''fmt = str(len('', p, v, '')) + '', QUOTE, ''s'', QUOTE] @
     line [GenerateIndent n, ''data += struct.pack(fmt, '', p, v, '')'']"
| "py_store n (MapType k e) p v =
     line [GenerateIndent n, py_pack (py_fmt P_int32) (''len('' @ p @ v @ '')'')] @
     line [GenerateIndent n, ''for '', py_key n, '', '', py_val n, '' in '', p, v, ''.iteritems() : ''] @
     py_store (n + 1) k [] (py_key n) @
     py_store (n + 1) e [] (py_val n)"
| "py_store n (ListType e) p v =
     line [GenerateIndent n, py_pack (py_fmt P_int32) (''len('' @ p @ v @ '')'')] @
     line [GenerateIndent n, ''for '', py_val n, '' in '', p, v, '' :''] @
     py_store (n + 1) e [] (py_val n)"
| "py_store n (ArrayType e) p v =
     line [GenerateIndent n, py_pack (py_fmt P_int32) (''len('' @ p @ v @ '')'')] @
     line [GenerateIndent n, ''for '', py_val n, '' in '', p, v, '' :''] @
     py_store (n + 1) e [] (py_val n)"
| "py_store n (StaticArrayType e cnt) p v =
     line [GenerateIndent n, p, v, '' = list('', p, v, '') + ['', GenerateInitCode e, ''] * ('', cnt, '' - len('', p, v, ''))''] @
     line [GenerateIndent n, ''for '', py_key n, '' in range(0, '', cnt, '') :''] @
     py_store (n + 1) e ''self.'' (v @ ''['' @ py_key n @ '']'')"
| "py_store n (UserDefineType t) p v = line [GenerateIndent n, ''data += '', t, ''Store('', p, v, '')'']"

fun py_load :: "nat \<Rightarrow> var_type \<Rightarrow> string \<Rightarrow> string \<Rightarrow> code_lines" where
  "py_load n (PrimitiveType t) p v = line [GenerateIndent n, py_unpack t (p @ v)]"
| "py_load n StringType p v =
     line [GenerateIndent n, py_unpack P_int32 ''str_length''] @
     line [GenerateIndent n, p, v, '' = buf[0:str_length]; buf = buf[str_length:]'']"
| "py_load n (MapType k e) p v =
     line [GenerateIndent n, py_unpack P_int32 ''elmt_count''] @
     line [GenerateIndent n, ''for i  in range(elmt_count) :''] @
     py_load (n + 1) k [] (py_key n) @
     py_load (n + 1) e [] (py_val n) @
     line [GenerateIndent n, TAB, p, v, ''['', py_key n, ''] = '', py_val n]"
| "py_load n (ListType e) p v =
     line [GenerateIndent n, py_unpack P_int32 ''elmt_count''] @
     line [GenerateIndent n, v, '' = []''] @
     line [GenerateIndent n, ''for i in range(elmt_count) :''] @
     py_load (n + 1) e [] (py_val n) @
     line [GenerateIndent n, TAB, p, v, ''.append('', py_val n, '')'']"
| "py_load n (ArrayType e) p v =
     line [GenerateIndent n, py_unpack P_int32 ''elmt_count''] @
     line [GenerateIndent n, v, '' = []''] @
     line [GenerateIndent n, ''for i in range(elmt_count) :''] @
     py_load (n + 1) e [] (py_val n) @
     line [GenerateIndent n, TAB, p, v, ''.append('', py_val n, '')'']"
| "py_load n (StaticArrayType e cnt) p v =
     line [GenerateIndent n, p, v, '' = []''] @
     line [GenerateIndent n, ''for i in range(0, '', cnt, '') :''] @
     py_load (n + 1) e [] (py_val n) @
     line [GenerateIndent n, TAB, p, v, ''.append('', py_val n, '')'']"
| "py_load n (UserDefineType t) p v = line [GenerateIndent n, ''['', p, v, '', buf] = '', t, ''Load(buf)'']"

section \<open>Messages, enumerations and type definitions\<close>

abbreviation TT :: string where "TT \<equiv> [CHR 0x09, CHR 0x09]"

definition py_for_members :: "(var_type \<Rightarrow> string \<Rightarrow> code_lines) \<Rightarrow> var_decl list \<Rightarrow> code_lines" where
  "py_for_members f ds = concat (map (\<lambda>(t, x). f t x) (members ds))"

definition py_init :: "string \<Rightarrow> var_decl list \<Rightarrow> code_lines" where
  "py_init parent ds =
     line [TAB, ''def __init__(self) :''] @
     (if parent \<noteq> [] then line [TT, parent, ''.__init__(self)''] else []) @
     py_for_members (\<lambda>t x. line [TT, ''self.'', x, '' = '', GenerateInitCode t, TT, TAB, ''# '', type_name t]) ds @
     (if members ds = [] then line [TT, ''pass''] else [])"

definition py_Store :: "string \<Rightarrow> var_decl list \<Rightarrow> code_lines" where
  "py_Store parent ds =
     line [TAB, ''def Store(self) :''] @
     line [TT, ''data = '', QUOTE, QUOTE] @
     (if parent \<noteq> [] then line [TT, ''data += '', parent, ''.Store(self)''] else []) @
     py_for_members (\<lambda>t x. py_store 2 t ''self.'' x) ds @
     line [TT, ''return data'']"

definition py_Load :: "string \<Rightarrow> var_decl list \<Rightarrow> code_lines" where
  "py_Load parent ds =
     line [TAB, ''def Load(self, buf) :''] @
     (if parent \<noteq> [] then line [TT, ''buf = '', parent, ''.Load(self, buf)''] else []) @
     py_for_members (\<lambda>t x. py_load 2 t ''self.'' x) ds @
     line [TT, ''return buf'']"

definition py_CompileMessage :: "string \<Rightarrow> string \<Rightarrow> int \<Rightarrow> var_decl list \<Rightarrow> code_lines" where
  "py_CompileMessage n parent seq ds =
     line [''class '', n, '' '', (if parent \<noteq> [] then ''('' @ parent @ '') '' else []), '':''] @
     (if seq > 0 then line [TAB, ''MSG_ID = '', dec_int seq] else []) @
     py_init parent ds @
     py_Store parent ds @
     py_Load parent ds @
     line [''def '', n, ''Init() :''] @
     line [TAB, ''return '', n, ''()''] @
     line [''def '', n, ''Store(o) :''] @
     line [TAB, ''return o.Store()''] @
     line [''def '', n, ''Load(buf) :''] @
     line [TAB, ''val = '', n, ''()''] @
     line [TAB, ''buf = val.Load(buf)''] @
     line [TAB, ''return [val, buf]'']"

text \<open>The number of an enumerator: hexadecimal if the token has an \<open>0x\<close>, otherwise read by \<open>atoi\<close>, as decimal; without
  a token, one more than the last. Numbers that fit an \<open>int\<close>.\<close>

definition has_0x :: "string \<Rightarrow> bool" where
  "has_0x s = list_ex (\<lambda>i. take 2 (drop i s) = ''0x'') [0..<length s]"

definition py_number :: "string \<Rightarrow> int" where
  "py_number s = (if has_0x s then int (number_value 16 (drop 2 s)) else int (number_value 10 s))"

fun py_enum_numbers :: "int \<Rightarrow> (string \<times> string) list \<Rightarrow> (string \<times> int) list" where
  "py_enum_numbers nMaxNumber [] = []"
| "py_enum_numbers nMaxNumber ((en, num) # es) =
     (let nMaxNumber = (if num \<noteq> [] then py_number num else nMaxNumber + 1)
      in (en, nMaxNumber) # py_enum_numbers nMaxNumber es)"

definition py_CompileEnum :: "string \<Rightarrow> enum_elmt list \<Rightarrow> code_lines" where
  "py_CompileEnum n es =
     line [''class '', n, '' :''] @
     concat (map (\<lambda>(en, num). line [TAB, en, '' = '', dec_int num]) (py_enum_numbers (-1) (enum_members es))) @
     (if es = [] then line [TAB, ''pass''] else []) @
     line [''def '', n, ''Init() : ''] @
     line [TAB, ''return 0''] @
     line [''def '', n, ''Store(e) :''] @
     line [TAB, ''data = '', QUOTE, QUOTE] @
     line [TAB, py_pack (py_fmt P_int32) ''e''] @
     line [TAB, ''return data''] @
     line [''def '', n, ''Load(buf) :''] @
     line [TAB, py_unpack P_int32 ''val''] @
     line [TAB, ''return [val, buf]'']"

definition py_CompileTypedef :: "var_type \<Rightarrow> string \<Rightarrow> code_lines" where
  "py_CompileTypedef t x =
     line [''def '', x, ''Init() :''] @
     line [TAB, ''return '', GenerateInitCode t] @
     line [''def '', x, ''Store(val) :''] @
     line [TAB, ''data = '', QUOTE, QUOTE] @
     py_store 1 t [] ''val'' @
     line [TAB, ''return data''] @
     line [''def '', x, ''Load(buf) :''] @
     py_load 1 t [] ''val'' @
     line [TAB, ''return [val, buf]'']"

definition py_CompileLiteralBlock :: "string \<Rightarrow> string \<Rightarrow> code_lines" where
  "py_CompileLiteralBlock lang ctx = (if lang = ''.py'' then line [ctx] else [])"

definition GenerateRulePython :: generator where
  "GenerateRulePython = \<lparr>CompileLiteralBlock = py_CompileLiteralBlock, CompileTypedef = py_CompileTypedef,
     CompileMessage = py_CompileMessage, CompileEnum = py_CompileEnum\<rparr>"

definition py_CompileStmtList :: "stmt list \<Rightarrow> code_lines" where
  "py_CompileStmtList stmts = line [''import struct''] @ parse_stmts GenerateRulePython stmts"

section \<open>Numbers of enumerators\<close>

text \<open>What the scanner accepts as a number, and what C++ makes of an enumeration: \<open>c_number\<close> reads a token that starts with
  zero as octal.\<close>

definition integer_token :: "string \<Rightarrow> bool" where
  "integer_token s \<longleftrightarrow> list_all (\<lambda>c. c \<in> set ''0123456789'') s \<or>
     (take 2 s = ''0x'' \<and> list_all (\<lambda>c. c \<in> set ''0123456789abcdefABCDEF'') (drop 2 s))"

definition leading_zero :: "string \<Rightarrow> bool" where
  "leading_zero s \<longleftrightarrow> take 1 s = ''0'' \<and> 1 < length s \<and> take 2 s \<noteq> ''0x''"

fun cpp_enum_numbers :: "int \<Rightarrow> (string \<times> string) list \<Rightarrow> (string \<times> int) list" where
  "cpp_enum_numbers prev [] = []"
| "cpp_enum_numbers prev ((en, num) # es) =
     (let v = (if num \<noteq> [] then int (c_number num) else prev + 1) in (en, v) # cpp_enum_numbers v es)"

lemma decimal_no_0x: "list_all (\<lambda>c. c \<in> set ''0123456789'') s \<Longrightarrow> \<not> has_0x s"
proof
  assume dec: "list_all (\<lambda>c. c \<in> set ''0123456789'') s" and "has_0x s"
  then obtain i where "take 2 (drop i s) = ''0x''" unfolding has_0x_def list_ex_iff by blast
  then have "CHR ''x'' \<in> set (take 2 (drop i s))" by simp
  then have "CHR ''x'' \<in> set s" using set_take_subset [of 2 "drop i s"] set_drop_subset [of i s] by (meson subsetD)
  then have "CHR ''x'' \<in> set ''0123456789''" using dec unfolding list_all_iff by blast
  then show False by simp
qed

lemma hex_has_0x: "take 2 s = ''0x'' \<Longrightarrow> has_0x s"
  unfolding has_0x_def list_ex_iff by (rule bexI [of _ 0]; cases s; simp)

lemma token_number:
  assumes "integer_token s" and "\<not> leading_zero s"
  shows "py_number s = int (c_number s)"
proof (cases "take 2 s = ''0x''")
  case True
  then show ?thesis by (simp add: py_number_def c_number_def hex_has_0x)
next
  case False
  with assms have "\<not> has_0x s" by (auto simp: integer_token_def decimal_no_0x)
  moreover have "s = ''0''" if "take 1 s = ''0''" using that assms(2) False by (cases s) (auto simp: leading_zero_def)
  ultimately show ?thesis using False by (auto simp: py_number_def c_number_def number_value_def digit_value_def)
qed

text \<open>If no number of an enumeration is written with a leading zero, the Python constants are the values the C++
  compiler gives to the same enumerators.\<close>

theorem python_enum_numbers:
  assumes "\<forall>(en, num)\<in>set es. integer_token num \<and> \<not> leading_zero num"
  shows "py_enum_numbers (-1) es = cpp_enum_numbers (-1) es"
proof -
  have "py_enum_numbers n es = cpp_enum_numbers n es" for n
    using assms by (induction es arbitrary: n) (auto simp: Let_def token_number)
  then show ?thesis .
qed

theorem python_enum_numbers_witness:
  "py_enum_numbers (-1) [(''A'', ''1000''), (''B'', []), (''C'', ''0x1f'')] =
   cpp_enum_numbers (-1) [(''A'', ''1000''), (''B'', []), (''C'', ''0x1f'')]"
  by (rule python_enum_numbers) (simp add: integer_token_def leading_zero_def)

text \<open>A leading zero makes a difference: ten in Python, eight in C++.\<close>

lemma octal_enumerator_differs:
  "py_enum_numbers (-1) [(''A'', ''010'')] = [(''A'', 10)] \<and> cpp_enum_numbers (-1) [(''A'', ''010'')] = [(''A'', 8)]"
  by (simp add: py_number_def decimal_no_0x c_number_def number_value_def digit_value_def)

end
