(* ===== verification/Idl_Driver.thy ===== *)
theory Idl_Driver
  imports Idl_Router Idl_CSharp Idl_Python
begin

text \<open>
  The driver of the interface compiler, \<^verbatim>\<open>idlc/src/main.cpp\<close> and \<^verbatim>\<open>idlc/src/compiler.cpp\<close>: command line, name of the
  output file, choice of the generator. The parser that bison generated is the parameter \<open>parse\<close> (\<open>MakeParseTree\<close>), the
  files that can be opened for writing are \<open>can_open\<close>.
\<close>

section \<open>Strings\<close>

text \<open>\<open>std::string::find\<close> of a text that is not empty, and \<open>rfind\<close> of a character, plus one: \<open>npos + 1\<close> is zero.\<close>

fun find_text :: "string \<Rightarrow> string \<Rightarrow> nat option" where
  "find_text pat [] = None"
| "find_text pat (c # cs) = (if take (length pat) (c # cs) = pat then Some 0 else map_option Suc (find_text pat cs))"

fun after_last :: "char \<Rightarrow> string \<Rightarrow> nat" where
  "after_last c [] = 0"
| "after_last c (x # xs) = (let n = after_last c xs in if n \<noteq> 0 then n + 1 else if x = c then 1 else 0)"

lemma after_last_pos [simp]: "0 < after_last c xs \<longleftrightarrow> c \<in> set xs"
  by (induction xs) (auto simp: Let_def)

lemma after_last_zero [simp]: "after_last c xs = 0 \<longleftrightarrow> c \<notin> set xs"
  using after_last_pos [of c xs] by linarith

lemma after_last_le: "after_last c xs \<le> length xs"
  by (induction xs) (auto simp: Let_def)

lemma after_last_append: "after_last c (xs @ ys) = (if c \<in> set ys then length xs + after_last c ys else after_last c xs)"
  by (induction xs) (auto simp: Let_def)

section \<open>Compiler\<close>

text \<open>\<open>Crash\<close>: the null pointer \<open>pParser\<close> is used.\<close>

datatype compiled = Failed | Written string code_lines | Crash

definition start_of_name :: "string \<Rightarrow> nat" where
  "start_of_name file = max (after_last (CHR 0x5C) file) (after_last (CHR ''/'') file)"

definition Compile :: "(string \<Rightarrow> stmt list option) \<Rightarrow> (string \<Rightarrow> bool) \<Rightarrow> string \<Rightarrow> string \<Rightarrow> compiled" where
  "Compile parse can_open file lang =
     (let start = start_of_name file; dot = after_last (CHR ''.'') file
      in if dot = 0 then Failed
      else
        let path = take start file;
            name = (if dot - 1 < start then drop start file else take (dot - 1 - start) (drop start file));
            out = (if lang = ''py'' then path @ name @ ''.py''
                   else if lang = ''cpp'' then path @ name @ ''.h''
                   else if lang = ''cs'' then path @ name @ ''.cs'' else [])
        in case parse file of
             None \<Rightarrow> Failed
           | Some root \<Rightarrow>
               if name \<noteq> [] \<and> \<not> can_open out then Failed
               else if lang = ''py'' then Written out (py_CompileStmtList root)
               else if lang = ''cpp'' then Written out (cpp_CompileStmtList name root)
               else if lang = ''cs'' then Written out (cs_CompileStmtList name root)
               else Crash)"

section \<open>Command line\<close>

text \<open>\<open>GetOption\<close>: the result, and the global variables \<open>sFileName\<close> and \<open>sLanguage\<close> it leaves.\<close>

fun option_loop :: "string list \<Rightarrow> string \<Rightarrow> bool \<times> string \<times> string" where
  "option_loop [] lang = (False, [], lang)"
| "option_loop (arg # args) lang =
     (if lang \<noteq> [] then (find_text ''.idl'' arg \<noteq> None, arg, lang)
      else case find_text ''-l'' arg of
          None \<Rightarrow> option_loop args lang
        | Some i \<Rightarrow>
            (let lang = drop (i + 2) arg in
             if lang = [] then (case args of [] \<Rightarrow> (False, [], []) | next_arg # args \<Rightarrow> option_loop args next_arg)
             else option_loop args lang))"

definition GetOption :: "string list \<Rightarrow> bool \<times> string \<times> string" where
  "GetOption argv = (if 3 > length argv then (False, [], []) else option_loop (tl argv) [])"

text \<open>The usage is shown when \<open>GetOption\<close> fails; then the compiler runs all the same.\<close>

definition idlc_main :: "(string \<Rightarrow> stmt list option) \<Rightarrow> (string \<Rightarrow> bool) \<Rightarrow> string list \<Rightarrow> bool \<times> compiled" where
  "idlc_main parse can_open argv =
     (let (ok, file, lang) = GetOption argv in (\<not> ok, Compile parse can_open file lang))"

section \<open>Properties\<close>

definition generated_file :: "string \<Rightarrow> string \<Rightarrow> stmt list \<Rightarrow> string \<times> code_lines" where
  "generated_file lang name stmts =
     (if lang = ''py'' then (name @ ''.py'', py_CompileStmtList stmts)
      else if lang = ''cs'' then (name @ ''.cs'', cs_CompileStmtList name stmts)
      else (name @ ''.h'', cpp_CompileStmtList name stmts))"

definition plain_name :: "string \<Rightarrow> bool" where
  "plain_name name \<longleftrightarrow> set name \<inter> {CHR ''/'', CHR 0x5C, CHR ''.''} = {}"

lemma find_text_append: "pat \<noteq> [] \<Longrightarrow> find_text pat (xs @ pat) \<noteq> None"
  by (induction xs) (auto simp: neq_Nil_conv)

lemma start_of_file:
  assumes "plain_name name" and "dir = [] \<or> last dir = CHR ''/''"
  shows "start_of_name (dir @ name @ ''.idl'') = length dir"
proof (cases "dir = []")
  case True
  with assms show ?thesis by (simp add: start_of_name_def plain_name_def)
next
  case False
  then obtain d where dir: "dir = d @ ''/''" using assms(2) by (metis append_butlast_last_id)
  have "after_last (CHR 0x5C) (dir @ name @ ''.idl'') = after_last (CHR 0x5C) dir"
    using assms(1) by (simp add: after_last_append plain_name_def)
  moreover have "after_last (CHR ''/'') (dir @ name @ ''.idl'') = length dir"
    using assms(1) by (simp add: dir after_last_append plain_name_def)
  ultimately show ?thesis using after_last_le [of "CHR 0x5C" dir] by (simp add: start_of_name_def)
qed

lemma dot_of_file:
  "plain_name name \<Longrightarrow> after_last (CHR ''.'') (dir @ name @ ''.idl'') = length dir + length name + 1"
  by (simp add: after_last_append)

lemma idlc_main_plain:
  assumes "plain_name name" and "name \<noteq> []" and "dir = [] \<or> last dir = CHR ''/''" and "lang \<in> {''py'', ''cpp'', ''cs''}"
  shows "idlc_main parse can_open [prog, ''-l'', lang, dir @ name @ ''.idl''] =
    (False, case parse (dir @ name @ ''.idl'') of
       None \<Rightarrow> Failed
     | Some stmts \<Rightarrow>
         (let (out, text) = generated_file lang name stmts in if can_open (dir @ out) then Written (dir @ out) text else Failed))"
proof -
  let ?file = "dir @ name @ ''.idl''"
  have "find_text ''.idl'' ?file \<noteq> None" using find_text_append [of "''.idl''" "dir @ name"] by simp
  then have opt: "GetOption [prog, ''-l'', lang, ?file] = (True, ?file, lang)"
    using assms(4) by (auto simp: GetOption_def)
  have "Compile parse can_open ?file lang = (case parse ?file of None \<Rightarrow> Failed
      | Some stmts \<Rightarrow> (let (out, text) = generated_file lang name stmts in if can_open (dir @ out) then Written (dir @ out) text else Failed))"
    using assms(2, 4)
    by (auto simp: Compile_def start_of_file [OF assms(1, 3)] dot_of_file [OF assms(1)] generated_file_def split: option.split)
  with opt show ?thesis by (simp add: idlc_main_def)
qed

text \<open>For an interface file in any directory, \<open>idlc -l\<close> with one of the three languages writes exactly the text of
  that language's generator to a file of the same name beside it; if the file does not parse or the output cannot be opened
  nothing is written.\<close>

theorem idlc_writes_beside_input:
  assumes "plain_name name" and "name \<noteq> []" and "dir = [] \<or> last dir = CHR ''/''" and "lang \<in> {''py'', ''cpp'', ''cs''}"
  shows "idlc_main parse can_open [prog, ''-l'', lang, dir @ name @ ''.idl''] =
    (False, case parse (dir @ name @ ''.idl'') of
       None \<Rightarrow> Failed
     | Some stmts \<Rightarrow>
         (let (out, text) = generated_file lang name stmts in if can_open (dir @ out) then Written (dir @ out) text else Failed))"
  by (rule idlc_main_plain [OF assms])

theorem idlc_writes_beside_input_witness:
  "idlc_main (\<lambda>_. Some []) (\<lambda>_. True) [''idlc'', ''-l'', ''py'', ''src/a.idl''] = (False, Written ''src/a.py'' [''import struct''])"
  using idlc_writes_beside_input [of "''a''" "''src/''" "''py''" "\<lambda>_. Some []" "\<lambda>_. True" "''idlc''"]
  by (simp add: plain_name_def generated_file_def py_CompileStmtList_def parse_stmts_def line_def)

text \<open>A file that is no interface file is refused by the command line, which shows the usage, and then compiled all the
  same.\<close>

theorem refused_file_is_compiled:
  assumes "find_text ''.idl'' file = None" and "lang \<noteq> []"
  shows "idlc_main parse can_open [prog, ''-l'', lang, file] = (True, Compile parse can_open file lang)"
  using assms by (simp add: idlc_main_def GetOption_def)

theorem refused_file_is_compiled_witness:
  "idlc_main (\<lambda>_. Some []) (\<lambda>_. True) [''idlc'', ''-l'', ''py'', ''a.txt''] = (True, Written ''a.py'' [''import struct''])"
  by (subst refused_file_is_compiled)
    (simp_all add: Compile_def start_of_name_def py_CompileStmtList_def parse_stmts_def line_def)

end
