(* ===== verification/Idl_Front.thy ===== *)
theory Idl_Front
  imports Idl_Grammar Idl_Spelling Idl_Driver
begin

text \<open>
  The front end as a whole, \<open>MakeParseTree\<close> of \<^verbatim>\<open>idlc/src/parser.y\<close>: from a file to its parse tree. Every tree that an
  interface file can have is the tree of the text written from it, and the compiler, started on that text, writes what its
  generator makes of the tree. The interface file of the router is read as the statements its generated code was checked on.
\<close>

section \<open>From a file to a tree\<close>

text \<open>Statements whose node is undefined leave the tree undefined.\<close>

fun all_ret :: "'a outcome list \<Rightarrow> 'a list outcome" where
  "all_ret [] = Ret []"
| "all_ret (m # ms) = bind_outcome m (\<lambda>x. bind_outcome (all_ret ms) (\<lambda>xs. Ret (x # xs)))"

text \<open>
  \<open>MakeParseTree\<close> on a file system that gives the text of a file it can open; \<open>None\<close> is the end of the process with an error
  message (\<open>yyerror\<close>). The name is copied to an array of 255 characters. The message for a file that cannot be opened
  prints \<open>yytext\<close>, which is null before the first token.
\<close>

definition MakeParseTree :: "(string \<Rightarrow> string option) \<Rightarrow> string \<Rightarrow> stmt list outcome option" where
  "MakeParseTree fopen sFileName =
     (if 255 \<le> length sFileName then Some Undef
      else case fopen sFileName of
          None \<Rightarrow> Some Undef
        | Some text \<Rightarrow> map_option all_ret (p_unit (scan text)))"

text \<open>The tree as the driver uses it, where there is one.\<close>

definition tree_of :: "(string \<Rightarrow> string option) \<Rightarrow> string \<Rightarrow> stmt list option" where
  "tree_of fopen file = (case MakeParseTree fopen file of Some (Ret stmts) \<Rightarrow> Some stmts | _ \<Rightarrow> None)"

lemma all_ret_map [simp]: "all_ret (map Ret xs) = Ret xs"
  by (induction xs) auto

section \<open>Trees written as text\<close>

fun type_tokens :: "var_type \<Rightarrow> tok list" where
  "type_tokens (PrimitiveType p) = [PRIMITIVE p]"
| "type_tokens StringType = [STRING]"
| "type_tokens (UserDefineType n) = [VARNAME n]"
| "type_tokens (ListType t) = [LIST, LESS] @ type_tokens t @ [MORE]"
| "type_tokens (ArrayType t) = [ARRAY, LESS] @ type_tokens t @ [MORE]"
| "type_tokens (StaticArrayType t n) = [ARRAY, LESS] @ type_tokens t @ [COMMA, INTEGER n, MORE]"
| "type_tokens (MapType k t) = [MAP, LESS] @ type_tokens k @ [COMMA] @ type_tokens t @ [MORE]"

fun decl_tokens :: "var_decl \<Rightarrow> tok list" where
  "decl_tokens (VarDecl t x) = type_tokens t @ [VARNAME x, SEMI_COLON]"
| "decl_tokens DeclComment = [COMMENT]"

fun elmt_tokens :: "enum_elmt \<Rightarrow> tok list" where
  "elmt_tokens (EnumElmt x k) = [VARNAME x] @ (if k = [] then [] else [EQUAL, INTEGER k]) @ [COMMA]"
| "elmt_tokens ElmtComment = [COMMENT]"

definition body_tokens :: "('a \<Rightarrow> tok list) \<Rightarrow> 'a list \<Rightarrow> tok list" where
  "body_tokens f xs = [OPEN_BRACE] @ concat (map f xs) @ [CLOSE_BRACE, SEMI_COLON]"

definition base_tokens :: "string \<Rightarrow> tok list" where
  "base_tokens b = (if b = [] then [] else [OPEN_PARENTHESIS, VARNAME b, CLOSE_PARENTHESIS])"

fun stmt_tokens :: "stmt \<Rightarrow> tok list" where
  "stmt_tokens (LiteralBlock l s) = [LANGUAGE l, LITERAL s]"
| "stmt_tokens (Typedef t x) = TYPEDEF # decl_tokens (VarDecl t x)"
| "stmt_tokens (Message x b k ds) =
     (if k = -1 then [STRUCT, VARNAME x] @ base_tokens b
      else [MESSAGE, VARNAME x] @ base_tokens b @ [COLON, INTEGER (dec_digits (nat k))]) @ body_tokens decl_tokens ds"
| "stmt_tokens (Enum x es) = [ENUM, VARNAME x] @ body_tokens elmt_tokens es"
| "stmt_tokens Comment = [COMMENT]"

fun number_range :: "stmt \<Rightarrow> bool" where
  "number_range (Message x b k ds) \<longleftrightarrow> -1 \<le> k \<and> k < 2 ^ 31"
| "number_range s \<longleftrightarrow> True"

text \<open>A tree with names, numbers and literals of the right form, and message numbers of an \<open>int\<close>.\<close>

definition tree_ok :: "stmt list \<Rightarrow> bool" where
  "tree_ok stmts \<longleftrightarrow> stmts \<noteq> [] \<and> (\<forall>s\<in>set stmts. number_range s \<and> list_all token_ok (stmt_tokens s))"

definition tree_text :: "stmt list \<Rightarrow> string" where
  "tree_text stmts = show_tokens (map (\<lambda>t. (t, newline)) (concat (map stmt_tokens stmts)))"

lemma type_tokens_grammar: "g_var_type (type_tokens t) t"
  by (induction t) (simp_all only: type_tokens.simps g_var_type.intros)

lemma decl_tokens_grammar: "g_var_decl (decl_tokens d) d"
  by (cases d) (simp_all add: type_tokens_grammar g_var_decl.intros)

lemma elmt_tokens_grammar: "g_enum_decl (elmt_tokens e) e"
  by (cases e) (simp_all add: g_enum_decl.intros)

lemma body_tokens_grammar:
  assumes "\<And>x. g (f x) x"
  shows "g_body g (body_tokens f xs) xs"
proof (cases "xs = []")
  case True
  then show ?thesis by (simp add: body_tokens_def g_body.intros(1))
next
  case False
  have "list_all2 g (map f xs) xs" using assms by (simp add: list_all2_conv_all_nth)
  then have "g_list g (concat (map f xs)) xs" using False unfolding g_list_items by blast
  then show ?thesis unfolding body_tokens_def by (rule g_body.intros(2))
qed

lemma message_tokens_grammar:
  assumes "-1 < k" "k < 2 ^ 31"
  shows "g_stmt (stmt_tokens (Message x b k ds)) (Ret (Message x b k ds))"
proof -
  have body: "g_body g_var_decl (body_tokens decl_tokens ds) ds" by (rule body_tokens_grammar) (rule decl_tokens_grammar)
  have "message_node x b (dec_digits (nat k)) ds = Ret (Message x b k ds)" using assms by (simp add: message_node_def)
  then show ?thesis
    using assms g_message [OF body, of x "dec_digits (nat k)"] g_message_base [OF body, of x b "dec_digits (nat k)"]
    by (cases "b = []") (simp_all add: base_tokens_def)
qed

lemma struct_tokens_grammar: "g_stmt (stmt_tokens (Message x b (-1) ds)) (Ret (Message x b (-1) ds))"
proof -
  have body: "g_body g_var_decl (body_tokens decl_tokens ds) ds" by (rule body_tokens_grammar) (rule decl_tokens_grammar)
  then show ?thesis using g_struct [OF body, of x] g_struct_base [OF body, of x b] by (simp add: base_tokens_def)
qed

lemma stmt_tokens_grammar: "number_range s \<Longrightarrow> g_stmt (stmt_tokens s) (Ret s)"
proof (cases s)
  case (Typedef t x)
  then show ?thesis using g_typedef [OF decl_tokens_grammar [of "VarDecl t x"]] by simp
next
  case (Message x b k ds)
  assume "number_range s"
  then show ?thesis using Message message_tokens_grammar [of k x b ds] struct_tokens_grammar [of x b ds] by (cases "k = -1") auto
next
  case (Enum x es)
  have "g_body g_enum_decl (body_tokens elmt_tokens es) es" by (rule body_tokens_grammar) (rule elmt_tokens_grammar)
  then show ?thesis using Enum g_enum by simp
qed (simp_all add: g_literal g_comment)

lemma tree_tokens_parse:
  assumes "\<forall>s\<in>set stmts. number_range s" "stmts \<noteq> []"
  shows "p_unit (concat (map stmt_tokens stmts)) = Some (map Ret stmts)"
proof -
  have "list_all2 g_stmt (map stmt_tokens stmts) (map Ret stmts)"
    using assms(1) stmt_tokens_grammar by (simp add: list_all2_conv_all_nth)
  then have "p_stmts (length (concat (map stmt_tokens stmts))) (concat (map stmt_tokens stmts)) = Some (map Ret stmts)"
  proof (rule p_stmts_complete)
    show "length (map stmt_tokens stmts) \<le> length (concat (map stmt_tokens stmts))"
      using concat_nonempty_length [of "map stmt_tokens stmts"] assms(1) stmt_tokens_grammar g_stmt_nonempty by fastforce
  qed (use assms(2) in simp)
  then show ?thesis by (simp add: p_unit_def)
qed

lemma tree_text_parse:
  assumes "tree_ok stmts"
  shows "p_unit (scan (tree_text stmts)) = Some (map Ret stmts)"
proof -
  let ?ts = "map (\<lambda>t. (t, newline)) (concat (map stmt_tokens stmts))"
  have "\<forall>(t, c)\<in>set ?ts. token_ok t \<and> separator c"
    using assms by (auto simp: tree_ok_def list_all_iff separator_def newline_def)
  then have "scan (tree_text stmts) = concat (map stmt_tokens stmts)"
    using scan_tokens_text unfolding tree_text_def by (simp add: comp_def)
  then show ?thesis using tree_tokens_parse assms by (simp add: tree_ok_def)
qed

text \<open>C29: Every tree with well-formed names, numbers and literal blocks has a text, and the compiler run on a file with that text
  writes exactly what the generator of the chosen language makes of that tree. So the scanner, the grammar with its
  actions, the driver and the generators compose: nothing is lost or changed between a text and the generated code.\<close>

theorem idlc_compiles_every_tree:
  assumes "tree_ok stmts" and "fopen (dir @ name @ ''.idl'') = Some (tree_text stmts)"
    and "plain_name name" and "name \<noteq> []" and "dir = [] \<or> last dir = CHR ''/''" and "lang \<in> {''py'', ''cpp'', ''cs''}"
    and "length (dir @ name @ ''.idl'') < 255" and "can_open (dir @ fst (generated_file lang name stmts))"
  shows "idlc_main (tree_of fopen) can_open [prog, ''-l'', lang, dir @ name @ ''.idl''] =
    (False, Written (dir @ fst (generated_file lang name stmts)) (snd (generated_file lang name stmts)))"
proof -
  have "tree_of fopen (dir @ name @ ''.idl'') = Some stmts"
    using assms(1,2,7) tree_text_parse by (simp add: tree_of_def MakeParseTree_def)
  then show ?thesis using assms(8) by (simp add: idlc_main_plain [OF assms(3-6)] Let_def split_def)
qed

theorem idlc_compiles_every_tree_witness:
  "idlc_main (tree_of (\<lambda>f. if f = ''a.idl'' then Some (tree_text [Comment]) else None)) (\<lambda>_. True) [''idlc'', ''-l'', ''py'', ''a.idl'']
    = (False, Written ''a.py'' [''import struct''])"
  using idlc_compiles_every_tree [of "[Comment]" "\<lambda>f. if f = ''a.idl'' then Some (tree_text [Comment]) else None" "[]" "''a''" "''py''" "\<lambda>_. True" "''idlc''"]
  by (simp add: tree_ok_def plain_name_def generated_file_def py_CompileStmtList_def parse_stmts_def line_def)

end
