(* ===== verification/Idl_Texts.thy ===== *)
theory Idl_Texts
  imports Idl_Front Idl_Router Idl_CSharp
begin

text \<open>
  The interface file of the router, \<^verbatim>\<open>Gamnet/Network/Router/MsgRouter.idl\<close>, and that of the example,
  \<^verbatim>\<open>example/idl/data.idl\<close>, line by line, and what the front end of the compiler reads from them: the statements on which the
  generated code was checked.
\<close>

section \<open>Texts\<close>

definition namespace_lines :: "string list" where
  "namespace_lines =
    [''namespace Gamnet { namespace Network { namespace Router {'']"

definition address_lines :: "string list" where
  "address_lines =
    [''enum ROUTER_CAST_TYPE'', ''{'', TAB @ ''UNI_CAST,'', TAB @ ''MULTI_CAST,'', TAB @ ''ANY_CAST,'', TAB @ ''MAX'' @ TAB,
     ''};'', [], ''struct Address'', ''{'', TAB @ ''string service_name;'', TAB @ ''ROUTER_CAST_TYPE cast_type;'',
     TAB @ ''uint32 id;'', TAB @ ''uint64 msg_seq;'', ''};'', '' '']"

definition operator_lines :: "string list" where
  "operator_lines =
    [''inline bool operator < (const Address& lhs, const Address& rhs)'', ''{'', TAB @ ''if(lhs.id < rhs.id)'', TAB @ ''{'',
     TAB @ TAB @ ''return true;'', TAB @ ''}'', TAB @ ''else if(lhs.id == rhs.id)'', TAB @ ''{'' @ TAB,
     TAB @ TAB @ ''if(lhs.service_name < rhs.service_name)'', TAB @ TAB @ ''{'', TAB @ TAB @ TAB @ ''return true;'',
     TAB @ TAB @ ''}'', TAB @ TAB @ ''else if(lhs.service_name == rhs.service_name)'', TAB @ TAB @ ''{'',
     TAB @ TAB @ TAB @ ''if((int)lhs.cast_type < (int)rhs.cast_type)'', TAB @ TAB @ TAB @ ''{'',
     TAB @ TAB @ TAB @ TAB @ ''return true;'', TAB @ TAB @ TAB @ ''}'', TAB @ TAB @ ''}'', TAB @ ''}'',
     TAB @ ''return false;'', ''}'', ''inline bool operator == (const Address& lhs, const Address& rhs)'', ''{'',
     TAB @ ''if(lhs.service_name != rhs.service_name || (int)lhs.cast_type != (int)rhs.cast_type || lhs.id != rhs.id)'',
     TAB @ ''{'', TAB @ TAB @ ''return false;'', TAB @ ''}'' @ TAB, TAB @ ''return true;'', ''}'',
     ''inline bool operator != (const Address& lhs, const Address& rhs)'', ''{'',
     TAB @ ''if(lhs.service_name != rhs.service_name || (int)lhs.cast_type != (int)rhs.cast_type || lhs.id != rhs.id)'',
     TAB @ ''{'', TAB @ TAB @ ''return true;'', TAB @ ''}'' @ TAB, TAB @ ''return false;'', ''}'']"

definition message_lines :: "string list" where
  "message_lines =
    [[], ''message MsgRouter_SetAddress_Req : '' @ TAB @ ''00001'', ''{'', TAB @ ''Address local_address;'', ''};'', [],
     ''message MsgRouter_SetAddress_Ans : '' @ TAB @ ''00002'', ''{'', TAB @ ''int32 error_code;'',
     TAB @ ''Address remote_address; '', ''};'', [], ''message MsgRouter_SetAddress_Ntf : '' @ TAB @ ''00003'', ''{'',
     ''};'', [], ''message MsgRouter_SendMsg_Ntf : '' @ TAB @ ''00004'', ''{'', TAB @ ''uint32 msg_seq;'',
     TAB @ ''string buffer;'', ''};'', [], ''message MsgRouter_HeartBeat_Ntf :'' @ TAB @ ''00005'', ''{'', ''};'']"

definition MsgRouter_idl :: "string list" where
  "MsgRouter_idl =
     [''.cpp %%''] @ namespace_lines @ [''%%''] @ address_lines @ [''.cpp %%''] @ operator_lines @ [''%%''] @ message_lines @
     [''.cpp %%''] @ [''}}}''] @ [''%%'']"

definition data_idl :: "string list" where
  "data_idl =
    [''enum ErrorCode {'', TAB @ ''Success = 0,'', TAB @ ''MessageFormatError = 1000,'',
     TAB @ ''MessageSeqOmmitError = 1001,'', TAB @ ''InvalidUserError = 2000,'', TAB @ ''InvalidAccessTokenError = 2001,'',
     TAB @ ''DuplicateConnectionError = 3000,'', TAB @ ''ReconnectTimeoutError = 4000,'',
     TAB @ ''ResponseTimeoutError = 4001,'', TAB @ ''AlreadyLoginSessionError = 5000'', ''};'', [], ''enum ItemType {'',
     TAB @ ''Invalid,'', TAB @ ''Weapon,'', TAB @ ''Armor,'', TAB @ ''Potion'', ''};'', [], ''struct ItemData {'',
     TAB @ ''string item_id;'', TAB @ ''ItemType item_type;'', TAB @ ''uint32 item_seq;'', ''};'', [],
     ''struct UserData {'', TAB @ ''string user_id;'', TAB @ ''uint32 user_seq;'', TAB @ ''list<ItemData> items;'', ''};'',
     []]"

definition file_text :: "string list \<Rightarrow> string" where
  "file_text ls = concat (map (\<lambda>l. l @ [newline]) ls)"

lemma file_text_simps: "file_text [] = []" "file_text (l # ls) = l @ newline # file_text ls" "file_text (ls @ ms) = file_text ls @ file_text ms"
  by (simp_all add: file_text_def)

section \<open>Tokens of a line\<close>

text \<open>\<open>reads l ts\<close>: whatever follows, the line \<open>l\<close> is read as the tokens \<open>ts\<close>.\<close>

definition reads :: "string \<Rightarrow> tok list \<Rightarrow> bool" where
  "reads l ts \<longleftrightarrow> (\<forall>r. tokens (yylex_all INITIAL (l @ newline # r)) = ts @ tokens (yylex_all INITIAL r))"

lemma tokens_simps: "tokens [] = []" "tokens (Tok t # xs) = t # tokens xs" "tokens (Printed c # xs) = tokens xs"
  by (simp_all add: tokens_def)

lemmas line_simps = reads_def rules_at in_name_def is_hex_def tokens_simps

lemma line_reads1:
  "reads (''enum ROUTER_CAST_TYPE'') [ENUM, VARNAME ''ROUTER_CAST_TYPE'']"
  "reads (''{'') [OPEN_BRACE]"
  "reads (TAB @ ''UNI_CAST,'') [VARNAME ''UNI_CAST'', COMMA]"
  "reads (TAB @ ''MULTI_CAST,'') [VARNAME ''MULTI_CAST'', COMMA]"
  "reads (TAB @ ''ANY_CAST,'') [VARNAME ''ANY_CAST'', COMMA]"
  "reads (TAB @ ''MAX'' @ TAB) [VARNAME ''MAX'']"
  "reads (''};'') [CLOSE_BRACE, SEMI_COLON]"
  "reads ([]) []"
  by (simp_all add: line_simps)

lemma line_reads2:
  "reads (''struct Address'') [STRUCT, VARNAME ''Address'']"
  "reads (TAB @ ''string service_name;'') [STRING, VARNAME ''service_name'', SEMI_COLON]"
  "reads (TAB @ ''ROUTER_CAST_TYPE cast_type;'') [VARNAME ''ROUTER_CAST_TYPE'', VARNAME ''cast_type'', SEMI_COLON]"
  "reads (TAB @ ''uint32 id;'') [PRIMITIVE P_uint32, VARNAME ''id'', SEMI_COLON]"
  "reads (TAB @ ''uint64 msg_seq;'') [PRIMITIVE P_uint64, VARNAME ''msg_seq'', SEMI_COLON]"
  "reads ('' '') []"
  "reads (''message MsgRouter_SetAddress_Req : '' @ TAB @ ''00001'') [MESSAGE, VARNAME ''MsgRouter_SetAddress_Req'', COLON, INTEGER ''00001'']"
  "reads (TAB @ ''Address local_address;'') [VARNAME ''Address'', VARNAME ''local_address'', SEMI_COLON]"
  by (simp_all add: line_simps)

lemma line_reads3:
  "reads (''message MsgRouter_SetAddress_Ans : '' @ TAB @ ''00002'') [MESSAGE, VARNAME ''MsgRouter_SetAddress_Ans'', COLON, INTEGER ''00002'']"
  "reads (TAB @ ''int32 error_code;'') [PRIMITIVE P_int32, VARNAME ''error_code'', SEMI_COLON]"
  "reads (TAB @ ''Address remote_address; '') [VARNAME ''Address'', VARNAME ''remote_address'', SEMI_COLON]"
  "reads (''message MsgRouter_SetAddress_Ntf : '' @ TAB @ ''00003'') [MESSAGE, VARNAME ''MsgRouter_SetAddress_Ntf'', COLON, INTEGER ''00003'']"
  "reads (''message MsgRouter_SendMsg_Ntf : '' @ TAB @ ''00004'') [MESSAGE, VARNAME ''MsgRouter_SendMsg_Ntf'', COLON, INTEGER ''00004'']"
  "reads (TAB @ ''uint32 msg_seq;'') [PRIMITIVE P_uint32, VARNAME ''msg_seq'', SEMI_COLON]"
  "reads (TAB @ ''string buffer;'') [STRING, VARNAME ''buffer'', SEMI_COLON]"
  "reads (''message MsgRouter_HeartBeat_Ntf :'' @ TAB @ ''00005'') [MESSAGE, VARNAME ''MsgRouter_HeartBeat_Ntf'', COLON, INTEGER ''00005'']"
  by (simp_all add: line_simps)

lemma line_reads4:
  "reads (''enum ErrorCode {'') [ENUM, VARNAME ''ErrorCode'', OPEN_BRACE]"
  "reads (TAB @ ''Success = 0,'') [VARNAME ''Success'', EQUAL, INTEGER ''0'', COMMA]"
  "reads (TAB @ ''MessageFormatError = 1000,'') [VARNAME ''MessageFormatError'', EQUAL, INTEGER ''1000'', COMMA]"
  "reads (TAB @ ''MessageSeqOmmitError = 1001,'') [VARNAME ''MessageSeqOmmitError'', EQUAL, INTEGER ''1001'', COMMA]"
  "reads (TAB @ ''InvalidUserError = 2000,'') [VARNAME ''InvalidUserError'', EQUAL, INTEGER ''2000'', COMMA]"
  "reads (TAB @ ''InvalidAccessTokenError = 2001,'') [VARNAME ''InvalidAccessTokenError'', EQUAL, INTEGER ''2001'', COMMA]"
  "reads (TAB @ ''DuplicateConnectionError = 3000,'') [VARNAME ''DuplicateConnectionError'', EQUAL, INTEGER ''3000'', COMMA]"
  "reads (TAB @ ''ReconnectTimeoutError = 4000,'') [VARNAME ''ReconnectTimeoutError'', EQUAL, INTEGER ''4000'', COMMA]"
  by (simp_all add: line_simps)

lemma line_reads5:
  "reads (TAB @ ''ResponseTimeoutError = 4001,'') [VARNAME ''ResponseTimeoutError'', EQUAL, INTEGER ''4001'', COMMA]"
  "reads (TAB @ ''AlreadyLoginSessionError = 5000'') [VARNAME ''AlreadyLoginSessionError'', EQUAL, INTEGER ''5000'']"
  "reads (''enum ItemType {'') [ENUM, VARNAME ''ItemType'', OPEN_BRACE]"
  "reads (TAB @ ''Invalid,'') [VARNAME ''Invalid'', COMMA]"
  "reads (TAB @ ''Weapon,'') [VARNAME ''Weapon'', COMMA]"
  "reads (TAB @ ''Armor,'') [VARNAME ''Armor'', COMMA]"
  "reads (TAB @ ''Potion'') [VARNAME ''Potion'']"
  "reads (''struct ItemData {'') [STRUCT, VARNAME ''ItemData'', OPEN_BRACE]"
  by (simp_all add: line_simps)

lemma line_reads6:
  "reads (TAB @ ''string item_id;'') [STRING, VARNAME ''item_id'', SEMI_COLON]"
  "reads (TAB @ ''ItemType item_type;'') [VARNAME ''ItemType'', VARNAME ''item_type'', SEMI_COLON]"
  "reads (TAB @ ''uint32 item_seq;'') [PRIMITIVE P_uint32, VARNAME ''item_seq'', SEMI_COLON]"
  "reads (''struct UserData {'') [STRUCT, VARNAME ''UserData'', OPEN_BRACE]"
  "reads (TAB @ ''string user_id;'') [STRING, VARNAME ''user_id'', SEMI_COLON]"
  "reads (TAB @ ''uint32 user_seq;'') [PRIMITIVE P_uint32, VARNAME ''user_seq'', SEMI_COLON]"
  "reads (TAB @ ''list<ItemData> items;'') [LIST, LESS, VARNAME ''ItemData'', MORE, VARNAME ''items'', SEMI_COLON]"
  by (simp_all add: line_simps)

lemmas line_reads = line_reads1 line_reads2 line_reads3 line_reads4 line_reads5 line_reads6

lemma lines_read:
  "list_all2 reads ls tss \<Longrightarrow> tokens (yylex_all INITIAL (file_text ls @ r)) = concat tss @ tokens (yylex_all INITIAL r)"
  by (induction rule: list_all2_induct) (simp_all add: file_text_simps reads_def)

lemma literal_line: "tokens (yylex_all INITIAL (''.cpp %%'' @ newline # r)) = LANGUAGE ''.cpp'' # tokens (yylex_all (STATE_LITERAL []) (newline # r))"
  by (simp add: rules_at in_name_def is_hex_def tokens_simps)

lemma literal_plain: "CHR ''%'' \<notin> set s \<Longrightarrow> literal_ok s"
  by (induction s) auto

lemma literal_block:
  assumes "CHR ''%'' \<notin> set (file_text ls)"
  shows "tokens (yylex_all INITIAL (file_text ([''.cpp %%''] @ ls @ [''%%'']) @ r)) =
    [LANGUAGE ''.cpp'', LITERAL (newline # file_text ls)] @ tokens (yylex_all INITIAL r)"
proof -
  have "literal_ok (newline # file_text ls)" using assms by (intro literal_plain) (simp add: newline_def)
  then have "tokens (yylex_all (STATE_LITERAL []) (newline # file_text ls @ ''%%'' @ newline # r)) =
      LITERAL (newline # file_text ls) # tokens (yylex_all INITIAL r)"
    using scan_literal_state [of "newline # file_text ls" "[]" "newline # r"] scan_separator [of newline r]
    by (simp add: tokens_simps separator_def newline_def)
  then show ?thesis using literal_line [of "file_text ls @ ''%%'' @ newline # r"] by (simp add: file_text_simps)
qed

lemma literals_plain: "CHR ''%'' \<notin> set (file_text namespace_lines)" "CHR ''%'' \<notin> set (file_text operator_lines)"
    "CHR ''%'' \<notin> set (file_text [''}}}''])"
  by (simp_all add: file_text_def namespace_lines_def operator_lines_def newline_def)

section \<open>Tokens of the files\<close>

definition address_tokens :: "tok list list" where
  "address_tokens =
     [[ENUM, VARNAME ''ROUTER_CAST_TYPE''], [OPEN_BRACE], [VARNAME ''UNI_CAST'', COMMA], [VARNAME ''MULTI_CAST'', COMMA],
      [VARNAME ''ANY_CAST'', COMMA], [VARNAME ''MAX''], [CLOSE_BRACE, SEMI_COLON], [], [STRUCT, VARNAME ''Address''],
      [OPEN_BRACE], [STRING, VARNAME ''service_name'', SEMI_COLON],
      [VARNAME ''ROUTER_CAST_TYPE'', VARNAME ''cast_type'', SEMI_COLON], [PRIMITIVE P_uint32, VARNAME ''id'', SEMI_COLON],
      [PRIMITIVE P_uint64, VARNAME ''msg_seq'', SEMI_COLON], [CLOSE_BRACE, SEMI_COLON], []]"

definition message_tokens :: "tok list list" where
  "message_tokens =
     [[], [MESSAGE, VARNAME ''MsgRouter_SetAddress_Req'', COLON, INTEGER ''00001''], [OPEN_BRACE],
      [VARNAME ''Address'', VARNAME ''local_address'', SEMI_COLON], [CLOSE_BRACE, SEMI_COLON], [],
      [MESSAGE, VARNAME ''MsgRouter_SetAddress_Ans'', COLON, INTEGER ''00002''], [OPEN_BRACE],
      [PRIMITIVE P_int32, VARNAME ''error_code'', SEMI_COLON],
      [VARNAME ''Address'', VARNAME ''remote_address'', SEMI_COLON], [CLOSE_BRACE, SEMI_COLON], [],
      [MESSAGE, VARNAME ''MsgRouter_SetAddress_Ntf'', COLON, INTEGER ''00003''], [OPEN_BRACE], [CLOSE_BRACE, SEMI_COLON],
      [], [MESSAGE, VARNAME ''MsgRouter_SendMsg_Ntf'', COLON, INTEGER ''00004''], [OPEN_BRACE],
      [PRIMITIVE P_uint32, VARNAME ''msg_seq'', SEMI_COLON], [STRING, VARNAME ''buffer'', SEMI_COLON],
      [CLOSE_BRACE, SEMI_COLON], [], [MESSAGE, VARNAME ''MsgRouter_HeartBeat_Ntf'', COLON, INTEGER ''00005''], [OPEN_BRACE],
      [CLOSE_BRACE, SEMI_COLON]]"

definition data_tokens :: "tok list list" where
  "data_tokens =
     [[ENUM, VARNAME ''ErrorCode'', OPEN_BRACE], [VARNAME ''Success'', EQUAL, INTEGER ''0'', COMMA],
      [VARNAME ''MessageFormatError'', EQUAL, INTEGER ''1000'', COMMA],
      [VARNAME ''MessageSeqOmmitError'', EQUAL, INTEGER ''1001'', COMMA],
      [VARNAME ''InvalidUserError'', EQUAL, INTEGER ''2000'', COMMA],
      [VARNAME ''InvalidAccessTokenError'', EQUAL, INTEGER ''2001'', COMMA],
      [VARNAME ''DuplicateConnectionError'', EQUAL, INTEGER ''3000'', COMMA],
      [VARNAME ''ReconnectTimeoutError'', EQUAL, INTEGER ''4000'', COMMA],
      [VARNAME ''ResponseTimeoutError'', EQUAL, INTEGER ''4001'', COMMA],
      [VARNAME ''AlreadyLoginSessionError'', EQUAL, INTEGER ''5000''], [CLOSE_BRACE, SEMI_COLON], [],
      [ENUM, VARNAME ''ItemType'', OPEN_BRACE], [VARNAME ''Invalid'', COMMA], [VARNAME ''Weapon'', COMMA],
      [VARNAME ''Armor'', COMMA], [VARNAME ''Potion''], [CLOSE_BRACE, SEMI_COLON], [],
      [STRUCT, VARNAME ''ItemData'', OPEN_BRACE], [STRING, VARNAME ''item_id'', SEMI_COLON],
      [VARNAME ''ItemType'', VARNAME ''item_type'', SEMI_COLON], [PRIMITIVE P_uint32, VARNAME ''item_seq'', SEMI_COLON],
      [CLOSE_BRACE, SEMI_COLON], [], [STRUCT, VARNAME ''UserData'', OPEN_BRACE], [STRING, VARNAME ''user_id'', SEMI_COLON],
      [PRIMITIVE P_uint32, VARNAME ''user_seq'', SEMI_COLON],
      [LIST, LESS, VARNAME ''ItemData'', MORE, VARNAME ''items'', SEMI_COLON], [CLOSE_BRACE, SEMI_COLON], []]"

lemma files_read:
  "list_all2 reads address_lines address_tokens" "list_all2 reads message_lines message_tokens" "list_all2 reads data_idl data_tokens"
  unfolding address_lines_def address_tokens_def message_lines_def message_tokens_def data_idl_def data_tokens_def
  by (simp_all only: list_all2_Cons list_all2_Nil line_reads simp_thms)

definition router_literals :: "stmt list" where
  "router_literals = map (\<lambda>ls. LiteralBlock ''.cpp'' (newline # file_text ls)) [namespace_lines, operator_lines, [''}}}'']]"

lemma MsgRouter_scanned:
  "scan (file_text MsgRouter_idl) =
     [LANGUAGE ''.cpp'', LITERAL (newline # file_text namespace_lines)] @ concat address_tokens @
     [LANGUAGE ''.cpp'', LITERAL (newline # file_text operator_lines)] @ concat message_tokens @
     [LANGUAGE ''.cpp'', LITERAL (newline # file_text [''}}}''])]"
proof -
  have eq: "file_text MsgRouter_idl = file_text ([''.cpp %%''] @ namespace_lines @ [''%%'']) @ file_text address_lines @
      file_text ([''.cpp %%''] @ operator_lines @ [''%%'']) @ file_text message_lines @ file_text ([''.cpp %%''] @ [''}}}''] @ [''%%'']) @ []"
    by (simp only: MsgRouter_idl_def file_text_simps(3) append_assoc append_Nil2)
  show ?thesis
    unfolding scan_def eq literal_block [OF literals_plain(1)] literal_block [OF literals_plain(2)]
      literal_block [OF literals_plain(3)] lines_read [OF files_read(1)] lines_read [OF files_read(2)]
    by (simp add: tokens_simps)
qed

lemma data_scanned: "scan (file_text data_idl) = concat data_tokens"
  using lines_read [OF files_read(3), of "[]"] by (simp add: scan_def tokens_simps)

lemma MsgRouter_parsed:
  "p_unit (scan (file_text MsgRouter_idl)) = Some (map Ret (
     [router_literals ! 0] @ take 2 router_unit @ [router_literals ! 1] @ drop 2 router_unit @ [router_literals ! 2]))"
proof -
  let ?ts = "\<lambda>a b c. [LANGUAGE ''.cpp'', LITERAL a] @ concat address_tokens @ [LANGUAGE ''.cpp'', LITERAL b] @ concat message_tokens @
     [LANGUAGE ''.cpp'', LITERAL c]"
  have "p_unit (?ts a b c) = Some (map Ret ([LiteralBlock ''.cpp'' a] @ take 2 router_unit @ [LiteralBlock ''.cpp'' b] @
      drop 2 router_unit @ [LiteralBlock ''.cpp'' c]))" for a b c
    by code_simp
  then show ?thesis unfolding MsgRouter_scanned by (simp add: router_literals_def)
qed

lemma data_parsed: "p_unit (scan (file_text data_idl)) = Some (map Ret data_unit)"
  unfolding data_scanned by code_simp

section \<open>Generated files\<close>

text \<open>A text that holds the lines \<open>ls\<close> in one piece.\<close>

definition holds_lines :: "code_lines \<Rightarrow> code_lines \<Rightarrow> bool" where
  "holds_lines ls text \<longleftrightarrow> (\<exists>pre post. text = pre @ ls @ post)"

lemma holds_lines_append: "holds_lines ls b \<Longrightarrow> holds_lines ls (a @ b @ c)"
  unfolding holds_lines_def by (metis append_assoc)

lemma holds_parse_stmt: "s \<in> set stmts \<Longrightarrow> holds_lines (parse_stmt g s) (parse_stmts g stmts)"
  by (auto simp: holds_lines_def parse_stmts_def dest!: split_list) blast

lemma cs_file_holds: "s \<in> set stmts \<Longrightarrow> holds_lines (parse_stmt GenerateRuleCSharp s) (cs_CompileStmtList file stmts)"
  unfolding cs_CompileStmtList_def cs_Parse_def
  using holds_lines_append [OF holds_parse_stmt, of s stmts] by (metis append_assoc)

lemma cpp_file_holds: "s \<in> set stmts \<Longrightarrow> holds_lines (parse_stmt GenerateRuleCpp s) (cpp_CompileStmtList file stmts)"
  unfolding cpp_CompileStmtList_def
  using holds_lines_append [OF holds_parse_stmt, of s stmts] by (metis append_assoc)

lemma parsed_tree:
  "p_unit (scan text) = Some (map Ret stmts) \<Longrightarrow> fopen file = Some text \<Longrightarrow> length file < 255 \<Longrightarrow> tree_of fopen file = Some stmts"
  by (simp add: tree_of_def MakeParseTree_def)

definition router_tree :: "stmt list" where
  "router_tree = [router_literals ! 0] @ take 2 router_unit @ [router_literals ! 1] @ drop 2 router_unit @ [router_literals ! 2]"

text \<open>C28: From checked-in text to checked-in text. Run on the example \<^verbatim>\<open>data.idl\<close> the compiler writes \<^verbatim>\<open>data.cs\<close>, which
  holds, line by line, the repository's class \<open>UserData\<close> with its serializer; run on the interface file of the router it
  writes \<^verbatim>\<open>MsgRouter.h\<close>, which holds the repository's struct \<open>Address\<close> with its serializer, whatever the other files are.
\<close>
theorem idlc_reproduces_checked_in_code:
  assumes "fopen ''data.idl'' = Some (file_text data_idl)" and "fopen ''MsgRouter.idl'' = Some (file_text MsgRouter_idl)"
    and "can_open ''data.cs''" and "can_open ''MsgRouter.h''"
  shows "\<exists>data_cs MsgRouter_h.
      idlc_main (tree_of fopen) can_open [prog, ''-l'', ''cs'', ''data.idl''] = (False, Written ''data.cs'' data_cs) \<and>
      holds_lines data_cs_UserData data_cs \<and>
      idlc_main (tree_of fopen) can_open [prog, ''-l'', ''cpp'', ''MsgRouter.idl''] = (False, Written ''MsgRouter.h'' MsgRouter_h) \<and>
      holds_lines MsgRouter_h_Address MsgRouter_h"
proof -
  have tree: "tree_of fopen ''data.idl'' = Some data_unit" "tree_of fopen ''MsgRouter.idl'' = Some router_tree"
    using parsed_tree [OF data_parsed, of fopen "''data.idl''"] parsed_tree [OF MsgRouter_parsed, of fopen "''MsgRouter.idl''"] assms(1,2) by (simp_all add: router_tree_def)
  have "idlc_main (tree_of fopen) can_open [prog, ''-l'', ''cs'', ''data.idl''] =
      (False, Written ''data.cs'' (cs_CompileStmtList ''data'' data_unit))"
    using idlc_main_plain [of "''data''" "[]" "''cs''" "tree_of fopen" can_open prog] tree assms(3)
    by (simp add: plain_name_def generated_file_def)
  moreover have "idlc_main (tree_of fopen) can_open [prog, ''-l'', ''cpp'', ''MsgRouter.idl''] =
      (False, Written ''MsgRouter.h'' (cpp_CompileStmtList ''MsgRouter'' router_tree))"
    using idlc_main_plain [of "''MsgRouter''" "[]" "''cpp''" "tree_of fopen" can_open prog] tree assms(4)
    by (simp add: plain_name_def generated_file_def)
  moreover have "holds_lines data_cs_UserData (cs_CompileStmtList ''data'' data_unit)"
  proof -
    have "data_unit ! 3 \<in> set data_unit" by (simp add: data_unit_def)
    then show ?thesis using cs_file_holds csharp_text_is_generated by metis
  qed
  moreover have "router_unit ! 1 \<in> set router_tree" by (simp add: router_tree_def router_unit_def)
  then have "holds_lines MsgRouter_h_Address (cpp_CompileStmtList ''MsgRouter'' router_tree)"
    using cpp_file_holds address_text_is_generated by metis
  ultimately show ?thesis by blast
qed

theorem idlc_reproduces_checked_in_code_witness:
  "\<exists>data_cs MsgRouter_h.
      idlc_main (tree_of (\<lambda>f. if f = ''data.idl'' then Some (file_text data_idl) else Some (file_text MsgRouter_idl))) (\<lambda>_. True)
        [''idlc'', ''-l'', ''cs'', ''data.idl''] = (False, Written ''data.cs'' data_cs) \<and>
      holds_lines data_cs_UserData data_cs \<and>
      idlc_main (tree_of (\<lambda>f. if f = ''data.idl'' then Some (file_text data_idl) else Some (file_text MsgRouter_idl))) (\<lambda>_. True)
        [''idlc'', ''-l'', ''cpp'', ''MsgRouter.idl''] = (False, Written ''MsgRouter.h'' MsgRouter_h) \<and>
      holds_lines MsgRouter_h_Address MsgRouter_h"
  by (rule idlc_reproduces_checked_in_code) simp_all

end
