(* ===== verification/Example_Messages.thy ===== *)
theory Example_Messages
  imports Router_Messages
begin

text \<open>
  The protocol of the example, \<^verbatim>\<open>example/idl/data.h\<close> and \<^verbatim>\<open>example/idl/message.h\<close>: two enumerations, the data of a
  user with the list of items, and the messages between client and server, each with \<open>Size\<close>, \<open>Store\<close> and \<open>Load\<close>.
  Conventions as in \<open>Router_Messages\<close>. \<open>Load\<close> of a list appends to the list of the object it fills, and a
  member of class type is loaded into the member as it was, so \<open>Load\<close> of an object with a list takes the object. The
  elements of the list are loaded one by one, as many as the number in front says; the number is not compared
  with the bytes there are.
\<close>

section \<open>Enumerations\<close>

text \<open>\<open>ErrorCode\<close> and \<open>ItemType\<close>: the 32 bits of the enumeration.\<close>

type_synonym ex_error = u32

definition Ex_Success :: ex_error where "Ex_Success = 0"
definition Ex_MessageFormatError :: ex_error where "Ex_MessageFormatError = 1000"
definition Ex_MessageSeqOmmitError :: ex_error where "Ex_MessageSeqOmmitError = 1001"
definition Ex_InvalidUserError :: ex_error where "Ex_InvalidUserError = 2000"
definition Ex_DuplicateConnectionError :: ex_error where "Ex_DuplicateConnectionError = 3000"
definition Ex_AlreadyLoginSessionError :: ex_error where "Ex_AlreadyLoginSessionError = 5000"

definition ErrorCode_Store :: "ex_error \<Rightarrow> bytes" where
  "ErrorCode_Store e = store_word e"

definition ErrorCode_Load :: "bytes \<Rightarrow> (ex_error \<times> bytes) option" where
  "ErrorCode_Load bs = load_word bs"

definition ErrorCode_Size :: "ex_error \<Rightarrow> nat" where
  "ErrorCode_Size e = 4"

type_synonym item_type = u32

definition Item_Invalid :: item_type where "Item_Invalid = 0"

definition ItemType_Store :: "item_type \<Rightarrow> bytes" where
  "ItemType_Store t = store_word t"

definition ItemType_Load :: "bytes \<Rightarrow> (item_type \<times> bytes) option" where
  "ItemType_Load bs = load_word bs"

definition ItemType_Size :: "item_type \<Rightarrow> nat" where
  "ItemType_Size t = 4"

interpretation codec_error: stream_codec "\<lambda>_. True" ErrorCode_Size ErrorCode_Store ErrorCode_Load
  by unfold_locales
    (simp_all add: ErrorCode_Size_def ErrorCode_Store_def ErrorCode_Load_def codec_u32.length_store codec_u32.load_store
      load_word_extend)

interpretation codec_item_type: stream_codec "\<lambda>_. True" ItemType_Size ItemType_Store ItemType_Load
  by unfold_locales
    (simp_all add: ItemType_Size_def ItemType_Store_def ItemType_Load_def codec_u32.length_store codec_u32.load_store
      load_word_extend)

section \<open>Items\<close>

record item_data =
  item_id :: bytes
  item_type :: item_type
  item_seq :: u32

definition new_ItemData :: item_data where
  "new_ItemData = \<lparr>item_id = [], item_type = Item_Invalid, item_seq = 0\<rparr>"

definition ItemData_Size :: "item_data \<Rightarrow> nat" where
  "ItemData_Size x = 4 + length (item_id x) + ItemType_Size (item_type x) + 4"

definition ItemData_Store :: "item_data \<Rightarrow> bytes" where
  "ItemData_Store x = store_string (item_id x) @ ItemType_Store (item_type x) @ store_word (item_seq x)"

definition ItemData_Load :: "bytes \<Rightarrow> (item_data \<times> bytes) option" where
  "ItemData_Load bs =
     (case load_string bs of None \<Rightarrow> None | Some (i, bs) \<Rightarrow>
      (case ItemType_Load bs of None \<Rightarrow> None | Some (t, bs) \<Rightarrow>
       (case load_word bs of None \<Rightarrow> None | Some (q, bs) \<Rightarrow>
         Some (\<lparr>item_id = i, item_type = t, item_seq = q\<rparr>, bs))))"

definition ItemData_valid :: "item_data \<Rightarrow> bool" where
  "ItemData_valid x \<longleftrightarrow> length (item_id x) < 2 ^ 32"

lemmas example_codecs = field_codecs codec_error.load_store codec_error.length_store codec_item_type.load_store
  codec_item_type.length_store

lemmas example_extends = field_extends codec_error.load_extend codec_item_type.load_extend

interpretation codec_item: stream_codec ItemData_valid ItemData_Size ItemData_Store ItemData_Load
proof unfold_locales
  fix bs m r ys
  assume "ItemData_Load bs = Some (m, r)"
  then show "ItemData_Load (bs @ ys) = Some (m, r @ ys)"
    by (clarsimp simp: ItemData_Load_def case_load_eq_Some) (simp add: example_extends case_load_eq_Some)
qed (simp_all add: ItemData_Size_def ItemData_Store_def ItemData_Load_def ItemData_valid_def example_codecs)

section \<open>Users\<close>

record user_data =
  user_id :: bytes
  user_seq :: u32
  user_items :: "item_data list"

definition new_UserData :: user_data where
  "new_UserData = \<lparr>user_id = [], user_seq = 0, user_items = []\<rparr>"

text \<open>The loop over the list.\<close>

definition UserData_Size :: "user_data \<Rightarrow> nat" where
  "UserData_Size u = 4 + length (user_id u) + 4 + fold (\<lambda>x n. n + ItemData_Size x) (user_items u) 4"

definition UserData_Store :: "user_data \<Rightarrow> bytes" where
  "UserData_Store u = store_string (user_id u) @ store_word (user_seq u) @ le_bytes 4 (length (user_items u)) @
     concat (map ItemData_Store (user_items u))"

fun load_items :: "nat \<Rightarrow> item_data list \<Rightarrow> bytes \<Rightarrow> (item_data list \<times> bytes) option" where
  "load_items 0 xs bs = Some (xs, bs)"
| "load_items (Suc n) xs bs =
     (case ItemData_Load bs of None \<Rightarrow> None | Some (x, bs) \<Rightarrow> load_items n (xs @ [x]) bs)"

definition UserData_Load :: "user_data \<Rightarrow> bytes \<Rightarrow> (user_data \<times> bytes) option" where
  "UserData_Load u bs =
     (case load_string bs of None \<Rightarrow> None | Some (i, bs) \<Rightarrow>
      (case load_word bs of None \<Rightarrow> None | Some (q, bs) \<Rightarrow>
       (case (load_word bs :: (u32 \<times> bytes) option) of None \<Rightarrow> None | Some (n, bs) \<Rightarrow>
        (case load_items (unat n) (user_items u) bs of None \<Rightarrow> None | Some (xs, bs) \<Rightarrow>
          Some (\<lparr>user_id = i, user_seq = q, user_items = xs\<rparr>, bs)))))"

definition UserData_valid :: "user_data \<Rightarrow> bool" where
  "UserData_valid u \<longleftrightarrow> length (user_id u) < 2 ^ 32 \<and> length (user_items u) < 2 ^ 32 \<and> list_all ItemData_valid (user_items u)"

lemma load_items_store:
  "list_all ItemData_valid ys \<Longrightarrow> load_items (length ys) xs (concat (map ItemData_Store ys) @ rest) = Some (xs @ ys, rest)"
  by (induction ys arbitrary: xs) (simp_all add: codec_item.load_store)

lemma load_items_extend: "load_items n xs bs = Some (ys, r) \<Longrightarrow> load_items n xs (bs @ cs) = Some (ys, r @ cs)"
  by (induction n xs bs rule: load_items.induct) (auto simp: codec_item.load_extend split: option.splits)

lemma fold_sizes: "fold (\<lambda>x n. n + ItemData_Size x) xs k = k + length (concat (map ItemData_Store xs))"
  by (induction xs arbitrary: k) (simp_all add: codec_item.length_store)

lemma UserData_Size_eq: "UserData_Size u = 12 + length (user_id u) + sum_list (map ItemData_Size (user_items u))"
proof -
  have "fold (\<lambda>x n. n + ItemData_Size x) xs k = k + sum_list (map ItemData_Size xs)" for xs k
    by (induction xs arbitrary: k) simp_all
  then show ?thesis by (simp add: UserData_Size_def)
qed

lemma count_word: "n < 2 ^ 32 \<Longrightarrow> le_bytes 4 n = store_word (of_nat n :: u32)"
  by (simp add: store_word_def put_word_def unat_of_nat_u32 del: le_bytes_numeral)

text \<open>Loading what was stored adds the stored items behind those the object had.\<close>

lemma UserData_Load_store:
  assumes "UserData_valid u"
  shows "UserData_Load v (UserData_Store u @ rest) = Some (u\<lparr>user_items := user_items v @ user_items u\<rparr>, rest)"
proof -
  have "unat (of_nat (length (user_items u)) :: u32) = length (user_items u)"
    using assms by (simp add: UserData_valid_def unat_of_nat_u32)
  then show ?thesis using assms
    by (simp add: UserData_Load_def UserData_Store_def UserData_valid_def example_codecs count_word load_items_store
        del: le_bytes_numeral)
qed

interpretation codec_user: stream_codec UserData_valid UserData_Size UserData_Store "UserData_Load new_UserData"
proof unfold_locales
  fix u
  show "length (UserData_Store u) = UserData_Size u"
    by (simp add: UserData_Store_def UserData_Size_def fold_sizes example_codecs)
next
  fix u rest
  assume "UserData_valid u"
  then show "UserData_Load new_UserData (UserData_Store u @ rest) = Some (u, rest)"
    by (simp add: UserData_Load_store new_UserData_def)
next
  fix bs m r ys
  assume "UserData_Load new_UserData bs = Some (m, r)"
  then show "UserData_Load new_UserData (bs @ ys) = Some (m, r @ ys)"
    by (clarsimp simp: UserData_Load_def case_load_eq_Some) (simp add: example_extends load_items_extend case_load_eq_Some)
qed

section \<open>Messages\<close>

definition Login_Req_MSG_ID :: u32 where "Login_Req_MSG_ID = 10000001"
definition Login_Ans_MSG_ID :: u32 where "Login_Ans_MSG_ID = 10000001"
definition Kickout_Ntf_MSG_ID :: u32 where "Kickout_Ntf_MSG_ID = 10000003"
definition Cli_HeartBeat_MSG_ID :: u32 where "Cli_HeartBeat_MSG_ID = 10000004"
definition Svr_HeartBeat_MSG_ID :: u32 where "Svr_HeartBeat_MSG_ID = 10000004"

record login_req =
  req_user_id :: bytes

definition Login_Req_Size :: "login_req \<Rightarrow> nat" where
  "Login_Req_Size m = 4 + length (req_user_id m)"

definition Login_Req_Store :: "login_req \<Rightarrow> bytes" where
  "Login_Req_Store m = store_string (req_user_id m)"

definition Login_Req_Load :: "bytes \<Rightarrow> (login_req \<times> bytes) option" where
  "Login_Req_Load bs = (case load_string bs of None \<Rightarrow> None | Some (i, bs) \<Rightarrow> Some (\<lparr>req_user_id = i\<rparr>, bs))"

record login_ans =
  login_error_code :: ex_error
  login_user_data :: user_data

definition new_Login_Ans :: login_ans where
  "new_Login_Ans = \<lparr>login_error_code = Ex_Success, login_user_data = new_UserData\<rparr>"

definition Login_Ans_Size :: "login_ans \<Rightarrow> nat" where
  "Login_Ans_Size m = ErrorCode_Size (login_error_code m) + UserData_Size (login_user_data m)"

definition Login_Ans_Store :: "login_ans \<Rightarrow> bytes" where
  "Login_Ans_Store m = ErrorCode_Store (login_error_code m) @ UserData_Store (login_user_data m)"

definition Login_Ans_Load :: "login_ans \<Rightarrow> bytes \<Rightarrow> (login_ans \<times> bytes) option" where
  "Login_Ans_Load m bs =
     (case ErrorCode_Load bs of None \<Rightarrow> None | Some (e, bs) \<Rightarrow>
      (case UserData_Load (login_user_data m) bs of None \<Rightarrow> None | Some (u, bs) \<Rightarrow>
        Some (\<lparr>login_error_code = e, login_user_data = u\<rparr>, bs)))"

record kickout_ntf =
  kick_error_code :: ex_error

definition Kickout_Ntf_Size :: "kickout_ntf \<Rightarrow> nat" where
  "Kickout_Ntf_Size m = ErrorCode_Size (kick_error_code m)"

definition Kickout_Ntf_Store :: "kickout_ntf \<Rightarrow> bytes" where
  "Kickout_Ntf_Store m = ErrorCode_Store (kick_error_code m)"

definition Kickout_Ntf_Load :: "bytes \<Rightarrow> (kickout_ntf \<times> bytes) option" where
  "Kickout_Ntf_Load bs = (case ErrorCode_Load bs of None \<Rightarrow> None | Some (e, bs) \<Rightarrow> Some (\<lparr>kick_error_code = e\<rparr>, bs))"

text \<open>The two heartbeat messages are the same but for their names.\<close>

record heartbeat_ntf =
  beat_msg_seq :: u32

definition Cli_HeartBeat_Size :: "heartbeat_ntf \<Rightarrow> nat" where
  "Cli_HeartBeat_Size m = 4"

definition Cli_HeartBeat_Store :: "heartbeat_ntf \<Rightarrow> bytes" where
  "Cli_HeartBeat_Store m = store_word (beat_msg_seq m)"

definition Cli_HeartBeat_Load :: "bytes \<Rightarrow> (heartbeat_ntf \<times> bytes) option" where
  "Cli_HeartBeat_Load bs = (case load_word bs of None \<Rightarrow> None | Some (q, bs) \<Rightarrow> Some (\<lparr>beat_msg_seq = q\<rparr>, bs))"

definition Svr_HeartBeat_Size :: "heartbeat_ntf \<Rightarrow> nat" where
  "Svr_HeartBeat_Size m = 4"

definition Svr_HeartBeat_Store :: "heartbeat_ntf \<Rightarrow> bytes" where
  "Svr_HeartBeat_Store m = store_word (beat_msg_seq m)"

definition Svr_HeartBeat_Load :: "bytes \<Rightarrow> (heartbeat_ntf \<times> bytes) option" where
  "Svr_HeartBeat_Load bs = (case load_word bs of None \<Rightarrow> None | Some (q, bs) \<Rightarrow> Some (\<lparr>beat_msg_seq = q\<rparr>, bs))"

interpretation codec_login_req: stream_codec "\<lambda>m. length (req_user_id m) < 2 ^ 32" Login_Req_Size Login_Req_Store Login_Req_Load
  by unfold_locales
    (auto simp: Login_Req_Size_def Login_Req_Store_def Login_Req_Load_def example_codecs case_load_eq_Some codec_string.load_extend)

interpretation codec_login_ans: stream_codec "\<lambda>m. UserData_valid (login_user_data m)"
  Login_Ans_Size Login_Ans_Store "Login_Ans_Load new_Login_Ans"
proof unfold_locales
  fix bs m r ys
  assume "Login_Ans_Load new_Login_Ans bs = Some (m, r)"
  then show "Login_Ans_Load new_Login_Ans (bs @ ys) = Some (m, r @ ys)"
    by (auto simp: Login_Ans_Load_def new_Login_Ans_def case_load_eq_Some codec_error.load_extend codec_user.load_extend)
qed (simp_all add: Login_Ans_Size_def Login_Ans_Store_def Login_Ans_Load_def new_Login_Ans_def example_codecs
      codec_user.length_store codec_user.load_store)

interpretation codec_kickout: stream_codec "\<lambda>_. True" Kickout_Ntf_Size Kickout_Ntf_Store Kickout_Ntf_Load
  by unfold_locales
    (auto simp: Kickout_Ntf_Size_def Kickout_Ntf_Store_def Kickout_Ntf_Load_def example_codecs case_load_eq_Some codec_error.load_extend)

interpretation codec_cli_heartbeat: stream_codec "\<lambda>_. True" Cli_HeartBeat_Size Cli_HeartBeat_Store Cli_HeartBeat_Load
  by unfold_locales
    (auto simp: Cli_HeartBeat_Size_def Cli_HeartBeat_Store_def Cli_HeartBeat_Load_def example_codecs case_load_eq_Some load_word_extend)

interpretation codec_svr_heartbeat: stream_codec "\<lambda>_. True" Svr_HeartBeat_Size Svr_HeartBeat_Store Svr_HeartBeat_Load
  by unfold_locales
    (auto simp: Svr_HeartBeat_Size_def Svr_HeartBeat_Store_def Svr_HeartBeat_Load_def example_codecs case_load_eq_Some load_word_extend)

section \<open>Bounds\<close>

text \<open>An item takes twelve bytes or more, so a false number of items cannot make the loop long.\<close>

lemma load_word_length: "load_word bs = Some (w :: 'a::len word, r) \<Longrightarrow> length bs = LENGTH('a) div 8 + length r"
  by (auto simp: load_word_def Let_def split: if_splits)

lemma load_string_length: "load_string bs = Some (s, r) \<Longrightarrow> length bs = 4 + length s + length r"
  by (auto simp: load_string_def dest!: load_word_length split: option.splits if_splits)

lemma ItemData_Load_length: "ItemData_Load bs = Some (x, r) \<Longrightarrow> length bs = ItemData_Size x + length r"
  by (auto simp: ItemData_Load_def ItemType_Load_def ItemData_Size_def ItemType_Size_def case_load_eq_Some
      dest!: load_word_length load_string_length)

fun items_tried :: "nat \<Rightarrow> bytes \<Rightarrow> nat" where
  "items_tried 0 bs = 0"
| "items_tried (Suc n) bs = (case ItemData_Load bs of None \<Rightarrow> 1 | Some (x, bs) \<Rightarrow> Suc (items_tried n bs))"

lemma items_tried_bound: "12 * items_tried n bs \<le> length bs + 12"
proof (induction n bs rule: items_tried.induct)
  case (2 n bs)
  show ?case
  proof (cases "ItemData_Load bs")
    case (Some xr)
    then obtain x r where x: "ItemData_Load bs = Some (x, r)" by (cases xr) auto
    then show ?thesis using 2 [OF x refl] ItemData_Load_length [OF x] by (simp add: ItemData_Size_def ItemType_Size_def)
  qed simp
qed simp

lemma load_items_length:
  "load_items n xs bs = Some (ys, r) \<Longrightarrow>
     \<exists>zs. ys = xs @ zs \<and> length zs = n \<and> length bs = sum_list (map ItemData_Size zs) + length r"
proof (induction n xs bs rule: load_items.induct)
  case (2 n xs bs)
  from 2(2) obtain x bs' where x: "ItemData_Load bs = Some (x, bs')" "load_items n (xs @ [x]) bs' = Some (ys, r)"
    by (auto split: option.splits)
  from 2(1) [OF x(1) refl x(2)] obtain zs where
    "ys = (xs @ [x]) @ zs" "length zs = n" "length bs' = sum_list (map ItemData_Size zs) + length r" by blast
  then show ?case using ItemData_Load_length [OF x(1)] by (intro exI [of _ "x # zs"]) simp
qed simp

section \<open>Properties\<close>

text \<open>C39: Loading the data of a user reads a list of items that is bounded by the bytes received, whatever number is in front of
  it: at most one element more than a twelfth of the bytes is tried, a load that succeeds accounts for every byte
  it consumes, and the loaded items come behind those the object already had, so that only a fresh object is
  given exactly what was stored.\<close>

theorem user_data_load_bounded:
  "12 * items_tried n bs \<le> length bs + 12 \<and>
   (UserData_Load v bs = Some (u, r) \<longrightarrow> (\<exists>zs. user_items u = user_items v @ zs \<and>
      length bs = UserData_Size (u\<lparr>user_items := zs\<rparr>) + length r \<and> 12 * length zs \<le> length bs)) \<and>
   (UserData_valid u \<longrightarrow> UserData_Load v (UserData_Store u @ r) = Some (u\<lparr>user_items := user_items v @ user_items u\<rparr>, r))"
proof (intro conjI impI)
  assume "UserData_Load v bs = Some (u, r)"
  then obtain i q n b1 b2 b3 xs where l: "load_string bs = Some (i, b1)" "load_word b1 = Some (q, b2)"
    "load_word b2 = Some (n :: u32, b3)" "load_items (unat n) (user_items v) b3 = Some (xs, r)"
    and u: "u = \<lparr>user_id = i, user_seq = q, user_items = xs\<rparr>"
    by (auto simp: UserData_Load_def case_load_eq_Some)
  from load_items_length [OF l(4)] obtain zs where zs: "xs = user_items v @ zs"
    "length b3 = sum_list (map ItemData_Size zs) + length r" by blast
  have "12 * length ws \<le> sum_list (map ItemData_Size ws)" for ws
    by (induction ws) (simp_all add: ItemData_Size_def ItemType_Size_def)
  from this [of zs] show "\<exists>zs. user_items u = user_items v @ zs \<and>
      length bs = UserData_Size (u\<lparr>user_items := zs\<rparr>) + length r \<and> 12 * length zs \<le> length bs"
    using zs u load_string_length [OF l(1)] load_word_length [OF l(2)] load_word_length [OF l(3)]
    by (intro exI [of _ zs]) (simp add: UserData_Size_eq)
qed (simp_all add: items_tried_bound UserData_Load_store)

lemma user_data_load_bounded_witness:
  "UserData_Load new_UserData (UserData_Store \<lparr>user_id = [65], user_seq = 7, user_items = [new_ItemData]\<rparr> @ [1]) =
     Some (\<lparr>user_id = [65], user_seq = 7, user_items = [new_ItemData]\<rparr>, [1])"
proof -
  let ?u = "\<lparr>user_id = [65], user_seq = 7, user_items = [new_ItemData]\<rparr>"
  have "UserData_valid ?u" by (simp add: UserData_valid_def ItemData_valid_def new_ItemData_def)
  then show ?thesis using user_data_load_bounded [of 0 "[]" new_UserData ?u "[1]"] by (simp add: new_UserData_def)
qed

end
