(* ===== verification/Idl_Example.thy ===== *)
theory Idl_Example
  imports Idl_Router Idl_CSharp Example_Messages
begin

text \<open>
  The interface files of the example, \<^verbatim>\<open>example/idl/data.idl\<close> and \<^verbatim>\<open>message.idl\<close>, through the interface compiler: the code
  the C++ generator writes for them does on every input what the functions of \<open>Example_Messages\<close> do.
\<close>

section \<open>The interface files\<close>

text \<open>\<^verbatim>\<open>message.idl\<close> without its literal blocks, which include the code made from \<^verbatim>\<open>data.idl\<close>; that file is \<open>data_unit\<close>.\<close>

definition message_unit :: "stmt list" where
  "message_unit =
    [Message ''MsgCliSvr_Login_Req'' [] 10000001 [VarDecl StringType ''user_id''],
     Message ''MsgSvrCli_Login_Ans'' [] 10000001 [VarDecl (UserDefineType ''ErrorCode'') ''error_code'', VarDecl (UserDefineType ''UserData'') ''user_data''],
     Message ''MsgSvrCli_Kickout_Ntf'' [] 10000003 [VarDecl (UserDefineType ''ErrorCode'') ''error_code''],
     Message ''MsgCliSvr_HeartBeat_Ntf'' [] 10000004 [VarDecl (PrimitiveType P_uint32) ''msg_seq''],
     Message ''MsgSvrCli_HeartBeat_Ntf'' [] 10000004 [VarDecl (PrimitiveType P_uint32) ''msg_seq'']]"

definition example_users :: users where
  "example_users = unit_users (\<lambda>_ _. False) (data_unit @ message_unit)"

lemma example_users_ok: "stmts_ok (\<lambda>_ _. False) Map.empty (data_unit @ message_unit)"
  by (simp add: data_unit_def message_unit_def no_capture_def declared_names_def parameter_names_def c_number_def number_value_def
      cpp_symbol_def all_primitives_def ReplaceSpecialChar_def digit_value_def)

section \<open>Values\<close>

definition word_val :: "u32 \<Rightarrow> val" where
  "word_val c = VPrim (put_word c)"

definition item_val :: "item_data \<Rightarrow> val" where
  "item_val x = VObject None
     [(''item_id'', VString (item_id x)), (''item_type'', word_val (item_type x)), (''item_seq'', word_val (item_seq x))]"

definition user_val :: "user_data \<Rightarrow> val" where
  "user_val u = VObject None
     [(''user_id'', VString (user_id u)), (''user_seq'', word_val (user_seq u)), (''items'', VSeq (map item_val (user_items u)))]"

definition login_req_val :: "login_req \<Rightarrow> val" where
  "login_req_val m = VObject None [(''user_id'', VString (req_user_id m))]"

definition login_ans_val :: "login_ans \<Rightarrow> val" where
  "login_ans_val m = VObject None [(''error_code'', word_val (login_error_code m)), (''user_data'', user_val (login_user_data m))]"

definition kickout_val :: "kickout_ntf \<Rightarrow> val" where
  "kickout_val m = VObject None [(''error_code'', word_val (kick_error_code m))]"

definition heartbeat_val :: "heartbeat_ntf \<Rightarrow> val" where
  "heartbeat_val m = VObject None [(''msg_seq'', word_val (beat_msg_seq m))]"

section \<open>The declared types\<close>

definition error_user :: user where
  "error_user = enum_user [(''Success'', ''0''), (''MessageFormatError'', ''1000''), (''MessageSeqOmmitError'', ''1001''),
     (''InvalidUserError'', ''2000''), (''InvalidAccessTokenError'', ''2001''), (''DuplicateConnectionError'', ''3000''),
     (''ReconnectTimeoutError'', ''4000''), (''ResponseTimeoutError'', ''4001''), (''AlreadyLoginSessionError'', ''5000'')]"

definition item_type_user :: user where
  "item_type_user = enum_user [(''Invalid'', []), (''Weapon'', []), (''Armor'', []), (''Potion'', [])]"

definition enum_users :: users where
  "enum_users = [''ErrorCode'' \<mapsto> error_user, ''ItemType'' \<mapsto> item_type_user]"

definition item_user :: user where
  "item_user = message_of enum_users
     [(StringType, ''item_id''), (UserDefineType ''ItemType'', ''item_type''), (PrimitiveType P_uint32, ''item_seq'')]"

definition item_users :: users where "item_users = enum_users(''ItemData'' \<mapsto> item_user)"

definition user_user :: user where
  "user_user = message_of item_users
     [(StringType, ''user_id''), (PrimitiveType P_uint32, ''user_seq''), (ListType (UserDefineType ''ItemData''), ''items'')]"

definition user_users :: users where "user_users = item_users(''UserData'' \<mapsto> user_user)"

definition login_req_user :: user where
  "login_req_user = message_of user_users [(StringType, ''user_id'')]"

definition login_req_users :: users where "login_req_users = user_users(''MsgCliSvr_Login_Req'' \<mapsto> login_req_user)"

definition login_ans_user :: user where
  "login_ans_user = message_of login_req_users [(UserDefineType ''ErrorCode'', ''error_code''), (UserDefineType ''UserData'', ''user_data'')]"

definition login_ans_users :: users where "login_ans_users = login_req_users(''MsgSvrCli_Login_Ans'' \<mapsto> login_ans_user)"

definition kickout_user :: user where
  "kickout_user = message_of login_ans_users [(UserDefineType ''ErrorCode'', ''error_code'')]"

definition kickout_users :: users where "kickout_users = login_ans_users(''MsgSvrCli_Kickout_Ntf'' \<mapsto> kickout_user)"

definition cli_heartbeat_user :: user where
  "cli_heartbeat_user = message_of kickout_users [(PrimitiveType P_uint32, ''msg_seq'')]"

definition cli_heartbeat_users :: users where
  "cli_heartbeat_users = kickout_users(''MsgCliSvr_HeartBeat_Ntf'' \<mapsto> cli_heartbeat_user)"

definition svr_heartbeat_user :: user where
  "svr_heartbeat_user = message_of cli_heartbeat_users [(PrimitiveType P_uint32, ''msg_seq'')]"

lemma known_types [simp]:
  "enum_users ''ErrorCode'' = Some error_user" "enum_users ''ItemType'' = Some item_type_user"
  "item_users ''ItemData'' = Some item_user" "login_req_users ''ErrorCode'' = Some error_user"
  "login_req_users ''UserData'' = Some user_user" "login_ans_users ''ErrorCode'' = Some error_user"
  by (simp_all add: enum_users_def item_users_def user_users_def login_req_users_def login_ans_users_def)

section \<open>Generated code and model\<close>

declare le_bytes_numeral [simp del]

interpretation error_gen: generated_type error_user word_val ErrorCode_Size ErrorCode_Store ErrorCode_Load
  by unfold_locales
    (simp_all add: error_user_def enum_user_def word_val_def ErrorCode_Size_def ErrorCode_Store_def ErrorCode_Load_def
      store_word_def load_word_def put_get_word)

interpretation item_type_gen: generated_type item_type_user word_val ItemType_Size ItemType_Store ItemType_Load
  by unfold_locales
    (simp_all add: item_type_user_def enum_user_def word_val_def ItemType_Size_def ItemType_Store_def ItemType_Load_def
      store_word_def load_word_def put_get_word)

interpretation item_gen: generated_type item_user item_val ItemData_Size ItemData_Store ItemData_Load
proof unfold_locales
  fix x :: item_data and bs :: bytes
  show "u_size item_user (item_val x) = Some (ItemData_Size x)"
    by (simp add: item_user_def message_simps item_val_def item_type_gen.size_emb ItemData_Size_def)
  show "u_store item_user (item_val x) = Some (ItemData_Store x)"
    by (simp add: item_user_def message_simps item_val_def item_type_gen.store_emb ItemData_Store_def store_word_def store_string_def
        word_val_def [of "item_seq x"] ReplaceSpecialChar_def)
  show "u_load item_user (u_fresh item_user) bs =
      (case ItemData_Load bs of None \<Rightarrow> Refused | Some (x, r) \<Rightarrow> Loaded (item_val x) r)"
    by (simp add: item_user_def message_simps item_val_def ItemData_Load_def item_type_gen.load_member load_fields load_string_member
        word_val_def [of "_ :: u32"] split: option.split del: run_load.simps)
qed

text \<open>The loop over the items, with \<open>items_val\<close> as the local variable for one of them.\<close>

lemma put_get [simp]: "get v f = Some x \<Longrightarrow> put v x f = f"
  by (cases f) (auto simp: get_def put_def fun_upd_idem split: option.splits)

lemma put_put [simp]: "put v x (put v y f) = put v x f"
  by (simp add: put_def)

lemma load_items_loop:
  assumes "get v f = Some (VSeq (map item_val xs))"
  shows "load_loop i k (\<lambda>i f bs.
        bind_load (run_load item_users lt (UserDefineType ''ItemData'') (v @ ''_val'')
          (declare_local (v @ ''_val'') (fresh_val item_users (UserDefineType ''ItemData'')) f) bs) (\<lambda>f1 bs.
        case (get v f, get (v @ ''_val'') f1) of
          (Some (VSeq xs), Some x) \<Rightarrow> Loaded (put v (VSeq (xs @ [x])) f) bs
        | _ \<Rightarrow> IllTyped)) f bs =
    (case load_items k xs bs of None \<Rightarrow> Refused | Some (ys, r) \<Rightarrow> Loaded (put v (VSeq (map item_val ys)) f) r)"
  using assms
proof (induction k arbitrary: i f xs bs)
  case (Suc k)
  note m = item_gen.load_member [of item_users "''ItemData''"]
  show ?case
  proof (cases "ItemData_Load bs")
    case None
    then show ?thesis by (simp add: m del: run_load.simps)
  next
    case (Some xr)
    then obtain x r where x: "ItemData_Load bs = Some (x, r)" by (cases xr) auto
    show ?thesis using Suc.prems Suc.IH [of "put v (VSeq (map item_val (xs @ [x]))) f" "xs @ [x]"]
      by (simp add: m x del: run_load.simps split: option.split)
  qed
qed simp

lemma load_items_member:
  assumes "get v f = Some (VSeq (map item_val xs))"
  shows "run_load item_users lt (ListType (UserDefineType ''ItemData'')) v f bs =
    (case (load_word bs :: (u32 \<times> bytes) option) of None \<Rightarrow> Refused | Some (n, r) \<Rightarrow>
      (case load_items (unat n) xs r of None \<Rightarrow> Refused
       | Some (ys, r) \<Rightarrow> Loaded (put v (VSeq (map item_val ys)) (declare_local (v @ ''_length'') (VPrim (take 4 bs)) f)) r))"
proof (cases "length bs < 4")
  case False
  let ?f = "declare_local (v @ ''_length'') (VPrim (take 4 bs)) f"
  have "unat (get_word (take 4 bs) :: u32) = le_val (take 4 bs)"
    using le_val_less [of "take 4 bs"] False by (simp add: get_word_def unat_of_nat)
  moreover have "get v ?f = Some (VSeq (map item_val xs))" using assms by simp
  note load_items_loop [OF this, of 0 "le_val (take 4 bs)" lt "drop 4 bs"]
  ultimately show ?thesis using False by (simp add: load_count_def load_word_def)
qed (simp add: load_word_def load_count_def)

lemma declares_item [simp]: "declares_reference (UserDefineType ''ItemData'')"
  by (simp add: declares_reference_def cpp_symbol_def all_primitives_def)

lemma traverse_items [simp]:
  "traverse (u_size item_user) (map item_val xs) = Some (map ItemData_Size xs)"
  "traverse (u_store item_user) (map item_val xs) = Some (map ItemData_Store xs)"
  by (induction xs) (simp_all add: item_gen.size_emb item_gen.store_emb)

lemma map_snd_Pair [simp]: "map_option snd (map_option (Pair x) y) = y"
  by (cases y) simp_all

interpretation user_gen: generated_type user_user user_val UserData_Size UserData_Store "UserData_Load new_UserData"
proof unfold_locales
  fix u :: user_data and bs :: bytes
  show "u_size user_user (user_val u) = Some (UserData_Size u)"
    by (simp add: user_user_def message_simps user_val_def UserData_Size_eq word_val_def)
  show "u_store user_user (user_val u) = Some (UserData_Store u)"
    by (simp add: user_user_def message_simps user_val_def UserData_Store_def word_val_def Let_def store_word_def
        store_string_def ReplaceSpecialChar_def)
  show "u_load user_user (u_fresh user_user) bs =
      (case UserData_Load new_UserData bs of None \<Rightarrow> Refused | Some (u, r) \<Rightarrow> Loaded (user_val u) r)"
    by (simp add: user_user_def message_simps user_val_def UserData_Load_def new_UserData_def load_fields load_string_member
        load_items_member [where xs = "[]"] word_val_def split: option.split del: run_load.simps)
qed

interpretation login_req_gen: generated_type login_req_user login_req_val Login_Req_Size Login_Req_Store Login_Req_Load
proof unfold_locales
  fix m :: login_req and bs :: bytes
  show "u_size login_req_user (login_req_val m) = Some (Login_Req_Size m)"
    by (simp add: login_req_user_def message_simps login_req_val_def Login_Req_Size_def)
  show "u_store login_req_user (login_req_val m) = Some (Login_Req_Store m)"
    by (simp add: login_req_user_def message_simps login_req_val_def Login_Req_Store_def store_string_def ReplaceSpecialChar_def)
  show "u_load login_req_user (u_fresh login_req_user) bs =
      (case Login_Req_Load bs of None \<Rightarrow> Refused | Some (m, r) \<Rightarrow> Loaded (login_req_val m) r)"
    by (simp add: login_req_user_def message_simps login_req_val_def Login_Req_Load_def load_string_member split: option.split
        del: run_load.simps)
qed

interpretation login_ans_gen: generated_type login_ans_user login_ans_val Login_Ans_Size Login_Ans_Store "Login_Ans_Load new_Login_Ans"
proof unfold_locales
  fix m :: login_ans and bs :: bytes
  show "u_size login_ans_user (login_ans_val m) = Some (Login_Ans_Size m)"
    by (simp add: login_ans_user_def message_simps login_ans_val_def Login_Ans_Size_def error_gen.size_emb user_gen.size_emb)
  show "u_store login_ans_user (login_ans_val m) = Some (Login_Ans_Store m)"
    by (simp add: login_ans_user_def message_simps login_ans_val_def Login_Ans_Store_def error_gen.store_emb user_gen.store_emb)
  show "u_load login_ans_user (u_fresh login_ans_user) bs =
      (case Login_Ans_Load new_Login_Ans bs of None \<Rightarrow> Refused | Some (m, r) \<Rightarrow> Loaded (login_ans_val m) r)"
    by (simp add: login_ans_user_def message_simps login_ans_val_def Login_Ans_Load_def new_Login_Ans_def error_gen.load_member
        user_gen.load_member split: option.split del: run_load.simps)
qed

interpretation kickout_gen: generated_type kickout_user kickout_val Kickout_Ntf_Size Kickout_Ntf_Store Kickout_Ntf_Load
proof unfold_locales
  fix m :: kickout_ntf and bs :: bytes
  show "u_size kickout_user (kickout_val m) = Some (Kickout_Ntf_Size m)"
    by (simp add: kickout_user_def message_simps kickout_val_def Kickout_Ntf_Size_def error_gen.size_emb)
  show "u_store kickout_user (kickout_val m) = Some (Kickout_Ntf_Store m)"
    by (simp add: kickout_user_def message_simps kickout_val_def Kickout_Ntf_Store_def error_gen.store_emb)
  show "u_load kickout_user (u_fresh kickout_user) bs =
      (case Kickout_Ntf_Load bs of None \<Rightarrow> Refused | Some (m, r) \<Rightarrow> Loaded (kickout_val m) r)"
    by (simp add: kickout_user_def message_simps kickout_val_def Kickout_Ntf_Load_def error_gen.load_member split: option.split
        del: run_load.simps)
qed

text \<open>The two heartbeat messages differ in the types compiled before them, which they do not use.\<close>

lemma heartbeat_message:
  "generated_type (message_of us [(PrimitiveType P_uint32, ''msg_seq'')]) heartbeat_val Cli_HeartBeat_Size Cli_HeartBeat_Store Cli_HeartBeat_Load"
proof unfold_locales
  fix m :: heartbeat_ntf and bs :: bytes
  let ?u = "message_of us [(PrimitiveType P_uint32, ''msg_seq'')]"
  show "u_size ?u (heartbeat_val m) = Some (Cli_HeartBeat_Size m)"
    by (simp add: message_simps heartbeat_val_def Cli_HeartBeat_Size_def)
  show "u_store ?u (heartbeat_val m) = Some (Cli_HeartBeat_Store m)"
    by (simp add: message_simps heartbeat_val_def word_val_def Cli_HeartBeat_Store_def store_word_def)
  show "u_load ?u (u_fresh ?u) bs = (case Cli_HeartBeat_Load bs of None \<Rightarrow> Refused | Some (m, r) \<Rightarrow> Loaded (heartbeat_val m) r)"
    by (simp add: message_simps heartbeat_val_def word_val_def Cli_HeartBeat_Load_def load_fields split: option.split del: run_load.simps)
qed

interpretation cli_heartbeat_gen: generated_type cli_heartbeat_user heartbeat_val Cli_HeartBeat_Size Cli_HeartBeat_Store Cli_HeartBeat_Load
  unfolding cli_heartbeat_user_def by (rule heartbeat_message)

lemma svr_heartbeat_same: "Svr_HeartBeat_Size = Cli_HeartBeat_Size" "Svr_HeartBeat_Store = Cli_HeartBeat_Store" "Svr_HeartBeat_Load = Cli_HeartBeat_Load"
  by (simp_all add: fun_eq_iff Svr_HeartBeat_Size_def Svr_HeartBeat_Store_def Svr_HeartBeat_Load_def Cli_HeartBeat_Size_def
      Cli_HeartBeat_Store_def Cli_HeartBeat_Load_def)

interpretation svr_heartbeat_gen: generated_type svr_heartbeat_user heartbeat_val Svr_HeartBeat_Size Svr_HeartBeat_Store Svr_HeartBeat_Load
  unfolding svr_heartbeat_user_def svr_heartbeat_same by (rule heartbeat_message)

lemma example_users_eq: "example_users = cli_heartbeat_users(''MsgSvrCli_HeartBeat_Ntf'' \<mapsto> svr_heartbeat_user)"
  by (simp add: example_users_def unit_users_def data_unit_def message_unit_def error_user_def item_type_user_def enum_users_def item_user_def
      item_users_def user_user_def user_users_def login_req_user_def login_req_users_def login_ans_user_def login_ans_users_def
      kickout_user_def kickout_users_def cli_heartbeat_user_def cli_heartbeat_users_def svr_heartbeat_user_def)

lemma example_types:
  "example_users ''ErrorCode'' = Some error_user" "example_users ''ItemType'' = Some item_type_user"
  "example_users ''ItemData'' = Some item_user" "example_users ''UserData'' = Some user_user"
  "example_users ''MsgCliSvr_Login_Req'' = Some login_req_user" "example_users ''MsgSvrCli_Login_Ans'' = Some login_ans_user"
  "example_users ''MsgSvrCli_Kickout_Ntf'' = Some kickout_user" "example_users ''MsgCliSvr_HeartBeat_Ntf'' = Some cli_heartbeat_user"
  "example_users ''MsgSvrCli_HeartBeat_Ntf'' = Some svr_heartbeat_user"
  by (simp_all add: example_users_eq enum_users_def item_users_def user_users_def login_req_users_def login_ans_users_def
      kickout_users_def cli_heartbeat_users_def)

text \<open>C40: The C++ that the interface compiler writes for the interface files of the example and the functions of the checked-in
  headers agree on every type and on every input: the size, the bytes stored, what a new object loads and what it refuses.\<close>

theorem example_headers_are_generated:
  "generated_as example_users ''ErrorCode'' word_val ErrorCode_Size ErrorCode_Store ErrorCode_Load \<and>
   generated_as example_users ''ItemType'' word_val ItemType_Size ItemType_Store ItemType_Load \<and>
   generated_as example_users ''ItemData'' item_val ItemData_Size ItemData_Store ItemData_Load \<and>
   generated_as example_users ''UserData'' user_val UserData_Size UserData_Store (UserData_Load new_UserData) \<and>
   generated_as example_users ''MsgCliSvr_Login_Req'' login_req_val Login_Req_Size Login_Req_Store Login_Req_Load \<and>
   generated_as example_users ''MsgSvrCli_Login_Ans'' login_ans_val Login_Ans_Size Login_Ans_Store (Login_Ans_Load new_Login_Ans) \<and>
   generated_as example_users ''MsgSvrCli_Kickout_Ntf'' kickout_val Kickout_Ntf_Size Kickout_Ntf_Store Kickout_Ntf_Load \<and>
   generated_as example_users ''MsgCliSvr_HeartBeat_Ntf'' heartbeat_val Cli_HeartBeat_Size Cli_HeartBeat_Store Cli_HeartBeat_Load \<and>
   generated_as example_users ''MsgSvrCli_HeartBeat_Ntf'' heartbeat_val Svr_HeartBeat_Size Svr_HeartBeat_Store Svr_HeartBeat_Load"
  by (intro conjI error_gen.generated_type_axioms [THEN generated_asI] item_type_gen.generated_type_axioms [THEN generated_asI]
      item_gen.generated_type_axioms [THEN generated_asI] user_gen.generated_type_axioms [THEN generated_asI]
      login_req_gen.generated_type_axioms [THEN generated_asI] login_ans_gen.generated_type_axioms [THEN generated_asI]
      kickout_gen.generated_type_axioms [THEN generated_asI] cli_heartbeat_gen.generated_type_axioms [THEN generated_asI]
      svr_heartbeat_gen.generated_type_axioms [THEN generated_asI] example_types)

end
