(* ===== verification/Example_Server.thy ===== *)
theory Example_Server
  imports Example_Messages Tcp_Messages
begin

text \<open>
  The server of the example, \<^verbatim>\<open>example/server\<close>: its session class, the table of users in \<open>Manager_Session\<close>, the handlers
  of login and heartbeat, and the test handlers of the login. The calls of the library are there with what they do to
  this state: \<open>SendMsg\<close>, \<open>AttachSession\<close>, and as steps the accepting, connecting, reconnecting, closing and expiry of
  sessions (\<open>Tcp_Server\<close>). Session objects, links and users are numbers and byte strings; a handler runs to its end
  before another starts. What \<open>Random::Range\<close> returned and the packets that the pool handed out are in \<open>login_env\<close>.
\<close>

section \<open>State\<close>

record ex_session =
  ex_user :: user_data
  ex_ack :: u32
  ex_msg_seq :: u32
  ex_link :: "nat option"

text \<open>\<open>ex_table\<close> is \<open>Manager_Session::sessions\<close>; \<open>ex_cached\<close> tells which sessions the session table of the library holds,
  \<open>ex_posted\<close> the links whose detachment waits for their strand, \<open>ex_out\<close> what was sent on which link.\<close>

record ex_server =
  ex_ses :: "nat \<Rightarrow> ex_session"
  ex_table :: "bytes \<Rightarrow> nat option"
  ex_attached :: "nat \<Rightarrow> nat option"
  ex_cached :: "nat \<Rightarrow> bool"
  ex_posted :: "nat list"
  ex_out :: "(nat \<times> bytes) list"

definition new_ex_session :: ex_session where
  "new_ex_session = \<lparr>ex_user = new_UserData, ex_ack = 0, ex_msg_seq = 0, ex_link = None\<rparr>"

definition new_ex_server :: ex_server where
  "new_ex_server = \<lparr>ex_ses = (\<lambda>_. new_ex_session), ex_table = Map.empty, ex_attached = Map.empty, ex_cached = (\<lambda>_. False),
     ex_posted = [], ex_out = []\<rparr>"

definition ex_set :: "nat \<Rightarrow> (ex_session \<Rightarrow> ex_session) \<Rightarrow> ex_server \<Rightarrow> ex_server" where
  "ex_set s f m = m\<lparr>ex_ses := (ex_ses m)(s := f (ex_ses m s))\<rparr>"

lemma ex_set_simps [simp]:
  "ex_ses (ex_set s f m) = (ex_ses m)(s := f (ex_ses m s))" "ex_table (ex_set s f m) = ex_table m"
  "ex_attached (ex_set s f m) = ex_attached m" "ex_cached (ex_set s f m) = ex_cached m"
  "ex_posted (ex_set s f m) = ex_posted m" "ex_out (ex_set s f m) = ex_out m"
  by (simp_all add: ex_set_def)

section \<open>The library\<close>

definition ex_detach :: "nat \<Rightarrow> ex_server \<Rightarrow> ex_server" where
  "ex_detach l m =
     (case ex_attached m l of
        None \<Rightarrow> m
      | Some s \<Rightarrow> (ex_set s (\<lambda>x. x\<lparr>ex_link := None\<rparr>) m)\<lparr>ex_attached := (ex_attached m)(l := None)\<rparr>)"

definition ex_attach :: "nat \<Rightarrow> nat \<Rightarrow> ex_server \<Rightarrow> ex_server" where
  "ex_attach l s m =
     (let m = ex_detach l m
      in (ex_set s (\<lambda>x. x\<lparr>ex_link := Some l\<rparr>) m)\<lparr>ex_attached := (ex_attached m)(l := Some s)\<rparr>)"

text \<open>\<open>AttachSession(NULL)\<close> on the link of another session: at once if its strand is free, later otherwise.\<close>

definition ex_AttachNull :: "bool \<Rightarrow> nat \<Rightarrow> ex_server \<Rightarrow> ex_server" where
  "ex_AttachNull free l m = (if free then ex_detach l m else m\<lparr>ex_posted := ex_posted m @ [l]\<rparr>)"

text \<open>\<open>Tcp::SendMsg\<close> with the packet the pool handed out, if any.\<close>

definition ex_SendMsg :: "packet option \<Rightarrow> nat \<Rightarrow> u32 \<Rightarrow> nat \<Rightarrow> bytes \<Rightarrow> ex_server \<Rightarrow> ex_server outcome" where
  "ex_SendMsg created s msg_id msg_size stored m =
     (case created of
        None \<Rightarrow> Ret m
      | Some p \<Rightarrow> bind_outcome (pkt_Write_msg (ex_msg_seq (ex_ses m s)) msg_size msg_id stored True p)
          (\<lambda>(written, q). Ret (case ex_link (ex_ses m s) of
             Some l \<Rightarrow> if written then m\<lparr>ex_out := ex_out m @ [(l, buf_content q)]\<rparr> else m
           | None \<Rightarrow> m)))"

section \<open>Session and Manager_Session\<close>

definition ex_OnCreate :: "nat \<Rightarrow> ex_server \<Rightarrow> ex_server" where
  "ex_OnCreate s m = ex_set s (\<lambda>x. x\<lparr>ex_user := (ex_user x)\<lparr>user_id := [], user_seq := 0\<rparr>, ex_ack := 0\<rparr>) m"

definition Manager_Add :: "bytes \<Rightarrow> nat \<Rightarrow> ex_server \<Rightarrow> nat option \<times> ex_server" where
  "Manager_Add uid s m = (ex_table m uid, m\<lparr>ex_table := (ex_table m)(uid \<mapsto> s)\<rparr>)"

definition Manager_Remove :: "bytes \<Rightarrow> ex_server \<Rightarrow> ex_server" where
  "Manager_Remove uid m = m\<lparr>ex_table := (ex_table m)(uid := None)\<rparr>"

definition ex_OnClose :: "nat \<Rightarrow> ex_server \<Rightarrow> ex_server" where
  "ex_OnClose s m =
     (if user_id (ex_user (ex_ses m s)) = [] then m else Manager_Remove (user_id (ex_user (ex_ses m s))) m)"

section \<open>Login\<close>

record login_env =
  le_kick :: "packet option"
  le_ans :: "packet option"
  le_free :: bool
  le_user_seq :: u32
  le_item_seqs :: "u32 list"

text \<open>The items of a new user, one for every number drawn.\<close>

definition ex_items :: "u32 list \<Rightarrow> item_data list" where
  "ex_items qs = map (\<lambda>(i, q). \<lparr>item_id = string_bytes (''item_id_'' @ dec_digits i), item_type = Item_Invalid, item_seq = q\<rparr>)
     (enumerate 0 qs)"

definition kick_session :: "packet option \<Rightarrow> nat \<Rightarrow> ex_error \<Rightarrow> ex_server \<Rightarrow> ex_server outcome" where
  "kick_session created s e m = ex_SendMsg created s Kickout_Ntf_MSG_ID (Kickout_Ntf_Size \<lparr>kick_error_code = e\<rparr>)
     (Kickout_Ntf_Store \<lparr>kick_error_code = e\<rparr>) m"

definition send_login_ans :: "packet option \<Rightarrow> nat \<Rightarrow> login_ans \<Rightarrow> ex_server \<Rightarrow> ex_server outcome" where
  "send_login_ans created s ans m = ex_SendMsg created s Login_Ans_MSG_ID (Login_Ans_Size ans) (Login_Ans_Store ans) m"

definition kick_duplicate :: "login_env \<Rightarrow> nat \<Rightarrow> ex_server \<Rightarrow> ex_server outcome" where
  "kick_duplicate env other m =
     bind_outcome (kick_session (le_kick env) other Ex_DuplicateConnectionError m)
       (\<lambda>m. Ret (case ex_link (ex_ses m other) of None \<Rightarrow> m | Some l \<Rightarrow> ex_AttachNull (le_free env) l m))"

definition login_data :: "login_env \<Rightarrow> bytes \<Rightarrow> user_data \<Rightarrow> user_data" where
  "login_data env uid u =
     \<lparr>user_id = uid, user_seq = le_user_seq env, user_items = user_items u @ ex_items (le_item_seqs env)\<rparr>"

definition Login_Recv_Req :: "login_env \<Rightarrow> nat \<Rightarrow> packet \<Rightarrow> ex_server \<Rightarrow> ex_server outcome" where
  "Login_Recv_Req env s p m =
     bind_outcome (pkt_Read Login_Req_Load p) (\<lambda>req.
       case req of
         None \<Rightarrow> send_login_ans (le_ans env) s (new_Login_Ans\<lparr>login_error_code := Ex_MessageFormatError\<rparr>) m
       | Some req \<Rightarrow>
           if user_seq (ex_user (ex_ses m s)) \<noteq> 0
           then send_login_ans (le_ans env) s (new_Login_Ans\<lparr>login_error_code := Ex_AlreadyLoginSessionError\<rparr>) m
           else let (other, m) = Manager_Add (req_user_id req) s m
             in bind_outcome (case other of None \<Rightarrow> Ret m | Some o' \<Rightarrow> kick_duplicate env o' m) (\<lambda>m.
                  let u = login_data env (req_user_id req) (ex_user (ex_ses m s));
                      m = ex_set s (\<lambda>x. x\<lparr>ex_user := u\<rparr>) m
                  in send_login_ans (le_ans env) s \<lparr>login_error_code = Ex_Success, login_user_data = u\<rparr> m))"

section \<open>Heartbeat\<close>

definition HeartBeat_Recv_Ntf :: "packet option \<Rightarrow> nat \<Rightarrow> packet \<Rightarrow> ex_server \<Rightarrow> ex_server outcome" where
  "HeartBeat_Recv_Ntf created s p m =
     bind_outcome (pkt_Read Cli_HeartBeat_Load p) (\<lambda>ntf.
       case ntf of
         None \<Rightarrow> kick_session created s Ex_MessageFormatError m
       | Some ntf \<Rightarrow>
           if user_seq (ex_user (ex_ses m s)) = 0 then kick_session created s Ex_InvalidUserError m
           else if beat_msg_seq ntf - ex_ack (ex_ses m s) \<noteq> 1 then kick_session created s Ex_MessageSeqOmmitError m
           else Ret (ex_set s (\<lambda>x. x\<lparr>ex_ack := beat_msg_seq ntf\<rparr>) m))"

section \<open>The test client\<close>

definition Test_Login_Req :: "nat \<Rightarrow> login_req" where
  "Test_Login_Req rnd = \<lparr>req_user_id = string_bytes (''user_id_'' @ dec_digits rnd)\<rparr>"

definition Test_Login_Ans :: "packet \<Rightarrow> user_data \<Rightarrow> user_data outcome" where
  "Test_Login_Ans p u =
     bind_outcome (pkt_Read (Login_Ans_Load new_Login_Ans) p)
       (\<lambda>ans. Ret (case ans of None \<Rightarrow> u | Some ans \<Rightarrow> login_user_data ans))"

section \<open>Steps\<close>

text \<open>The pool hands out only session objects to which nothing refers. \<open>OnClose\<close> of a link reaches the session attached
  to it. Reconnecting takes a cached session from its link, if any, to the link of the request.\<close>

definition ex_unused :: "nat \<Rightarrow> ex_server \<Rightarrow> bool" where
  "ex_unused s m \<longleftrightarrow> s \<notin> ran (ex_table m) \<and> s \<notin> ran (ex_attached m) \<and> \<not> ex_cached m s"

definition ex_accept :: "nat \<Rightarrow> nat \<Rightarrow> ex_server \<Rightarrow> ex_server" where
  "ex_accept l s m = ex_attach l s (ex_set s (\<lambda>x. x\<lparr>ex_msg_seq := 0\<rparr>) (ex_OnCreate s (ex_set s (\<lambda>x. x\<lparr>ex_link := None\<rparr>) m)))"

definition ex_close :: "nat \<Rightarrow> ex_server \<Rightarrow> ex_server" where
  "ex_close l m = (case ex_attached m l of None \<Rightarrow> m | Some s \<Rightarrow> ex_detach l (ex_OnClose s m))"

definition ex_reconnect :: "bool \<Rightarrow> nat \<Rightarrow> nat \<Rightarrow> ex_server \<Rightarrow> ex_server" where
  "ex_reconnect free l s m =
     ex_attach l s (case ex_link (ex_ses m s) of None \<Rightarrow> m | Some l' \<Rightarrow> ex_AttachNull free l' m)"

definition drawn :: "login_env \<Rightarrow> bool" where
  "drawn env \<longleftrightarrow> le_user_seq env \<in> {1..99999} \<and> length (le_item_seqs env) \<in> {1..10}"

inductive ex_step :: "ex_server \<Rightarrow> ex_server \<Rightarrow> bool" where
  step_accept: "ex_unused s m \<Longrightarrow> ex_attached m l = None \<Longrightarrow> ex_step m (ex_accept l s m)"
| step_connect: "ex_attached m l = Some s \<Longrightarrow> ex_step m (m\<lparr>ex_cached := (ex_cached m)(s := True)\<rparr>)"
| step_login: "ex_attached m l = Some s \<Longrightarrow> drawn env \<Longrightarrow> Login_Recv_Req env s p m = Ret m' \<Longrightarrow> ex_step m m'"
| step_heartbeat: "ex_attached m l = Some s \<Longrightarrow> HeartBeat_Recv_Ntf created s p m = Ret m' \<Longrightarrow> ex_step m m'"
| step_received: "ex_attached m l = Some s \<Longrightarrow> ex_step m (ex_set s (\<lambda>x. x\<lparr>ex_msg_seq := q\<rparr>) m)"
| step_reconnect: "ex_attached m l = Some t \<Longrightarrow> ex_cached m s \<Longrightarrow> ex_step m (ex_reconnect free l s m)"
| step_close: "ex_attached m l = Some s \<Longrightarrow> ex_step m (ex_close l m)"
| step_posted: "ex_posted m = l # ls \<Longrightarrow> ex_step m (ex_detach l (m\<lparr>ex_posted := ls\<rparr>))"
| step_expire: "ex_link (ex_ses m s) = None \<Longrightarrow> ex_step m (m\<lparr>ex_cached := (ex_cached m)(s := False)\<rparr>)"

section \<open>What the library leaves alone\<close>

definition ex_same :: "ex_server \<Rightarrow> ex_server \<Rightarrow> bool" where
  "ex_same m m' \<longleftrightarrow> ex_table m' = ex_table m \<and>
     (\<forall>s. ex_user (ex_ses m' s) = ex_user (ex_ses m s) \<and> ex_ack (ex_ses m' s) = ex_ack (ex_ses m s))"

lemma ex_same_refl [simp]: "ex_same m m"
  by (simp add: ex_same_def)

lemma ex_same_trans: "ex_same a b \<Longrightarrow> ex_same b c \<Longrightarrow> ex_same a c"
  by (simp add: ex_same_def)

lemma detach_same [simp]: "ex_same m (ex_detach l m)"
  by (simp add: ex_same_def ex_detach_def split: option.split)

lemma AttachNull_same [simp]: "ex_same m (ex_AttachNull free l m)"
  using detach_same [of m l] by (simp add: ex_same_def ex_AttachNull_def)

lemma attach_same [simp]: "ex_same m (ex_attach l s m)"
  using detach_same [of m l] by (simp add: ex_same_def ex_attach_def Let_def)

lemma reconnect_same [simp]: "ex_same m (ex_reconnect free l s m)"
proof -
  have "ex_same m (case ex_link (ex_ses m s) of None \<Rightarrow> m | Some l' \<Rightarrow> ex_AttachNull free l' m)" by (simp split: option.split)
  then show ?thesis unfolding ex_reconnect_def by (rule ex_same_trans) simp
qed

lemma SendMsg_same: "ex_SendMsg created s i n xs m = Ret m' \<Longrightarrow> ex_same m m'"
  by (auto simp: ex_SendMsg_def ex_same_def split: option.splits elim!: bind_outcome_RetE)

lemma kick_same: "kick_session created s e m = Ret m' \<Longrightarrow> ex_same m m'"
  by (simp add: kick_session_def SendMsg_same)

lemma ans_same: "send_login_ans created s ans m = Ret m' \<Longrightarrow> ex_same m m'"
  by (simp add: send_login_ans_def SendMsg_same)

lemma duplicate_same: "kick_duplicate env other m = Ret m' \<Longrightarrow> ex_same m m'"
  unfolding kick_duplicate_def
  by (elim bind_outcome_RetE) (auto dest!: kick_same split: option.splits elim: ex_same_trans)

text \<open>A login is refused, and changes no user and not the table, or it is done.\<close>

lemma Login_refused:
  assumes "Login_Recv_Req env s p m = Ret m'"
    and "pkt_Read Login_Req_Load p = Ret None \<or> user_seq (ex_user (ex_ses m s)) \<noteq> 0"
  shows "ex_same m m'"
  using assms(1)
proof (unfold Login_Recv_Req_def, elim bind_outcome_RetE)
  fix r
  assume "pkt_Read Login_Req_Load p = Ret r"
  moreover from this assms(1) have "Login_Recv_Req env s p m = Ret m'" by simp
  ultimately show ?thesis using assms(2) ans_same by (auto simp: Login_Recv_Req_def split: option.splits)
qed

lemma Login_done:
  assumes "Login_Recv_Req env s p m = Ret m'"
    and "pkt_Read Login_Req_Load p = Ret (Some req)" and "user_seq (ex_user (ex_ses m s)) = 0"
  shows "ex_table m' = (ex_table m)(req_user_id req \<mapsto> s)"
    and "ex_user (ex_ses m' s) = login_data env (req_user_id req) (ex_user (ex_ses m s))"
    and "t \<noteq> s \<Longrightarrow> ex_user (ex_ses m' t) = ex_user (ex_ses m t)"
proof -
  let ?m1 = "m\<lparr>ex_table := (ex_table m)(req_user_id req \<mapsto> s)\<rparr>"
  from assms obtain m2 where
    m2: "(case ex_table m (req_user_id req) of None \<Rightarrow> Ret ?m1 | Some o' \<Rightarrow> kick_duplicate env o' ?m1) = Ret m2"
    and m': "(let u = login_data env (req_user_id req) (ex_user (ex_ses m2 s)); m = ex_set s (\<lambda>x. x\<lparr>ex_user := u\<rparr>) m2
       in send_login_ans (le_ans env) s \<lparr>login_error_code = Ex_Success, login_user_data = u\<rparr> m) = Ret m'"
    by (auto simp: Login_Recv_Req_def Manager_Add_def elim!: bind_outcome_RetE)
  have "ex_same ?m1 m2" using m2 duplicate_same by (auto split: option.splits)
  moreover have "ex_same (ex_set s (\<lambda>x. x\<lparr>ex_user := login_data env (req_user_id req) (ex_user (ex_ses m2 s))\<rparr>) m2) m'"
    using m' ans_same by (simp add: Let_def)
  ultimately show "ex_table m' = (ex_table m)(req_user_id req \<mapsto> s)"
    and "ex_user (ex_ses m' s) = login_data env (req_user_id req) (ex_user (ex_ses m s))"
    and "t \<noteq> s \<Longrightarrow> ex_user (ex_ses m' t) = ex_user (ex_ses m t)"
    by (simp_all add: ex_same_def)
qed

lemma Login_cases:
  assumes "Login_Recv_Req env s p m = Ret m'"
  obtains (refused) "ex_same m m'"
  | (login) req where "pkt_Read Login_Req_Load p = Ret (Some req)" "user_seq (ex_user (ex_ses m s)) = 0"
proof -
  from assms obtain r where r: "pkt_Read Login_Req_Load p = Ret r"
    unfolding Login_Recv_Req_def by (rule bind_outcome_RetE)
  show thesis
  proof (cases r)
    case None
    then show ?thesis using Login_refused [OF assms] r refused by blast
  next
    case (Some req)
    then show ?thesis using Login_refused [OF assms] r refused login by blast
  qed
qed

lemma HeartBeat_changes:
  assumes "HeartBeat_Recv_Ntf created s p m = Ret m'"
  shows "ex_table m' = ex_table m \<and> (\<forall>t. ex_user (ex_ses m' t) = ex_user (ex_ses m t))"
proof -
  from assms obtain r where r: "pkt_Read Cli_HeartBeat_Load p = Ret r"
    unfolding HeartBeat_Recv_Ntf_def by (rule bind_outcome_RetE)
  show ?thesis using assms r
    by (auto simp: HeartBeat_Recv_Ntf_def ex_same_def dest!: kick_same split: option.splits if_splits)
qed

section \<open>Invariant of the table of users\<close>

definition ex_inv :: "ex_server \<Rightarrow> bool" where
  "ex_inv m \<longleftrightarrow> (\<forall>u s. ex_table m u = Some s \<longrightarrow> user_id (ex_user (ex_ses m s)) = u \<and> user_seq (ex_user (ex_ses m s)) \<noteq> 0)"

lemma ex_inv_same: "ex_same m m' \<Longrightarrow> ex_inv m \<Longrightarrow> ex_inv m'"
  by (simp add: ex_same_def ex_inv_def)

lemma ex_inv_login:
  assumes "ex_inv m" and "drawn env" and "Login_Recv_Req env s p m = Ret m'"
  shows "ex_inv m'"
  using assms(3)
proof (cases rule: Login_cases)
  case refused
  then show ?thesis by (rule ex_inv_same [OF _ assms(1)])
next
  case (login req)
  note d = Login_done [OF assms(3) login]
  have s: "le_user_seq env \<noteq> 0" using assms(2) by (auto simp: drawn_def)
  show ?thesis unfolding ex_inv_def
  proof (intro allI impI)
    fix u t
    assume "ex_table m' u = Some t"
    then have t: "(if u = req_user_id req then Some s else ex_table m u) = Some t" by (simp add: d(1))
    consider "u = req_user_id req" "t = s" | "ex_table m u = Some t" by (cases "u = req_user_id req") (use t in simp_all)
    then show "user_id (ex_user (ex_ses m' t)) = u \<and> user_seq (ex_user (ex_ses m' t)) \<noteq> 0"
    proof cases
      case 1
      then show ?thesis using d(2) s by (simp add: login_data_def)
    next
      case 2
      then have u: "user_id (ex_user (ex_ses m t)) = u \<and> user_seq (ex_user (ex_ses m t)) \<noteq> 0"
        using assms(1) by (simp add: ex_inv_def)
      then have "t \<noteq> s" using login(2) by auto
      then show ?thesis using d(3) u by simp
    qed
  qed
qed

lemma ex_inv_OnCreate: "ex_inv m \<Longrightarrow> s \<notin> ran (ex_table m) \<Longrightarrow> ex_inv (ex_OnCreate s m)"
  by (auto simp: ex_inv_def ex_OnCreate_def ran_def)

lemma ex_inv_OnClose: "ex_inv m \<Longrightarrow> ex_inv (ex_OnClose s m)"
  by (simp add: ex_inv_def ex_OnClose_def Manager_Remove_def)

lemma ex_inv_accept:
  assumes "ex_inv m" and "ex_unused s m"
  shows "ex_inv (ex_accept l s m)"
proof -
  let ?m0 = "ex_set s (\<lambda>x. x\<lparr>ex_link := None\<rparr>) m"
  have "ex_inv ?m0" using assms(1) by (simp add: ex_inv_def)
  moreover have "s \<notin> ran (ex_table ?m0)" using assms(2) by (simp add: ex_unused_def)
  ultimately have "ex_inv (ex_OnCreate s ?m0)" by (rule ex_inv_OnCreate)
  then have "ex_inv (ex_set s (\<lambda>x. x\<lparr>ex_msg_seq := 0\<rparr>) (ex_OnCreate s ?m0))" by (simp add: ex_inv_def)
  then show ?thesis unfolding ex_accept_def by (rule ex_inv_same [OF attach_same])
qed

interpretation example: invariant_system "\<lambda>m. m = new_ex_server" ex_step ex_inv
proof unfold_locales
  show "m = new_ex_server \<Longrightarrow> ex_inv m" for m by (simp add: ex_inv_def new_ex_server_def)
next
  fix m m'
  assume "ex_inv m" and "ex_step m m'"
  from this(2,1) show "ex_inv m'"
  proof cases
    case (step_heartbeat l s created p)
    then show "ex_inv m \<Longrightarrow> ex_inv m'" using HeartBeat_changes by (simp add: ex_inv_def)
  next
    case (step_close l s)
    then show "ex_inv m \<Longrightarrow> ex_inv m'" using ex_inv_same [OF detach_same ex_inv_OnClose] by (simp add: ex_close_def)
  next
    case (step_posted l ls)
    have "ex_inv m \<Longrightarrow> ex_inv (m\<lparr>ex_posted := ls\<rparr>)" by (simp add: ex_inv_def)
    then show "ex_inv m \<Longrightarrow> ex_inv m'" unfolding step_posted(1) using ex_inv_same [OF detach_same] by blast
  next
    case (step_received l s q)
    then show "ex_inv m \<Longrightarrow> ex_inv m'" by (simp add: ex_inv_def)
  next
    case (step_connect l s)
    then show "ex_inv m \<Longrightarrow> ex_inv m'" by (simp add: ex_inv_def)
  next
    case (step_expire s)
    then show "ex_inv m \<Longrightarrow> ex_inv m'" by (simp add: ex_inv_def)
  qed (auto simp: ex_inv_accept intro: ex_inv_login ex_inv_same [OF reconnect_same])
qed

section \<open>Sending\<close>

lemma SendMsg_fits:
  assumes "pkt_ok q" and "length xs = n" and "n + HEADER_SIZE < Buffer_MAX_SIZE" and "ex_link (ex_ses m s) = Some l"
  shows "ex_SendMsg (Some q) s i n xs m =
    Ret (m\<lparr>ex_out := ex_out m @ [(l, frame_header (of_nat (n + HEADER_SIZE)) (ex_msg_seq (ex_ses m s)) i @ xs)]\<rparr>)"
proof -
  let ?h = "\<lparr>hdr_length = 0, hdr_msg_id = i, hdr_msg_seq = ex_msg_seq (ex_ses m s)\<rparr>"
  from assms(3) have "length xs + HEADER_SIZE < Buffer_MAX_SIZE" by (simp add: assms(2))
  from pkt_Write_fits [OF assms(1) this, of ?h] obtain q' where w: "pkt_Write ?h xs q = Ret (True, q')"
    "written (of_nat (length xs + HEADER_SIZE)) (hdr_msg_seq ?h) (hdr_msg_id ?h) xs q'" by blast
  from w(2) have "buf_content q' = frame_header (of_nat (n + HEADER_SIZE)) (ex_msg_seq (ex_ses m s)) i @ xs"
    by (simp add: written_def assms(2))
  moreover have "pkt_Write_msg (ex_msg_seq (ex_ses m s)) n i xs True q = Ret (True, q')"
    unfolding pkt_Write_msg_eq_Write [OF assms(2), of _ i q 0] by (rule w(1))
  ultimately show ?thesis unfolding ex_SendMsg_def by (simp add: assms(4))
qed

lemma SendMsg_overruns:
  assumes "pkt_ok q" and "length xs = n" and "2 ^ 16 \<le> n + HEADER_SIZE" and "n + HEADER_SIZE < 2 ^ 16 + 60000"
  shows "ex_SendMsg (Some q) s i n xs m = Undef"
proof -
  have "(n + HEADER_SIZE) mod 2 ^ 16 \<noteq> Buffer_MAX_SIZE"
  proof -
    have "(n + HEADER_SIZE) mod 2 ^ 16 = n + HEADER_SIZE - 2 ^ 16"
      using assms(3,4) by (simp add: le_mod_geq)
    then show ?thesis using assms(4) by (simp add: Buffer_MAX_SIZE_def)
  qed
  moreover have "Buffer_MAX_SIZE \<le> length xs + HEADER_SIZE" using assms(2,3) by (simp add: Buffer_MAX_SIZE_def)
  ultimately have "pkt_Write_msg (ex_msg_seq (ex_ses m s)) n i xs True q = Undef"
    unfolding pkt_Write_msg_eq_Write [OF assms(2), of _ i q 0] using pkt_Write_too_large [OF assms(1)] assms(2) by simp
  then show ?thesis by (simp add: ex_SendMsg_def)
qed

text \<open>Whatever can be sent can be read back: data that fits a packet is in the range of its length fields.\<close>

lemma UserData_fits_valid:
  assumes "UserData_Size u < 2 ^ 32"
  shows "UserData_valid u"
proof -
  have l: "length xs \<le> sum_list (map ItemData_Size xs)" for xs
    by (induction xs) (simp_all add: ItemData_Size_def)
  have "ItemData_Size x < 2 ^ 32 \<Longrightarrow> ItemData_valid x" for x by (simp add: ItemData_valid_def ItemData_Size_def)
  moreover have "x \<in> set xs \<Longrightarrow> ItemData_Size x \<le> sum_list (map ItemData_Size xs)" for x xs
    by (intro member_le_sum_list) simp_all
  ultimately have "list_all ItemData_valid (user_items u)"
    using assms unfolding list_all_iff UserData_Size_eq
    by (metis add.commute add_leD1 le_trans linorder_not_less trans_le_add1)
  then show ?thesis using assms l [of "user_items u"] by (simp add: UserData_valid_def UserData_Size_eq)
qed

lemma dec_digits_small: "n < 10 \<Longrightarrow> length (dec_digits n) = 1"
  by (simp add: dec_digits.simps)

lemma ex_items_size: "length qs \<le> 10 \<Longrightarrow> sum_list (map ItemData_Size (ex_items qs)) = 21 * length qs"
proof -
  have "n + length qs \<le> 10 \<Longrightarrow> sum_list (map ItemData_Size (map (\<lambda>(i, q). \<lparr>item_id = string_bytes (''item_id_'' @ dec_digits i),
      item_type = Item_Invalid, item_seq = q\<rparr>) (enumerate n qs))) = 21 * length qs" for n
    by (induction qs arbitrary: n) (simp_all add: ItemData_Size_def ItemType_Size_def string_bytes_def dec_digits_small)
  from this [of 0] show "length qs \<le> 10 \<Longrightarrow> ?thesis" by (simp add: ex_items_def)
qed

text \<open>A packet that asks for a login, and one with a heartbeat.\<close>

lemma login_packet: "length uid < 1000 \<Longrightarrow> \<exists>p. pkt_Read Login_Req_Load p = Ret (Some \<lparr>req_user_id = uid\<rparr>)"
  using codec_login_req.packet_roundtrip [of "\<lparr>req_user_id = uid\<rparr>" new_packet 0 0]
  by (auto simp: Login_Req_Size_def HEADER_SIZE_def Buffer_MAX_SIZE_def)

lemma heartbeat_packet: "\<exists>p. pkt_Read Cli_HeartBeat_Load p = Ret (Some \<lparr>beat_msg_seq = n\<rparr>)"
  using codec_cli_heartbeat.packet_roundtrip [where m = "\<lparr>beat_msg_seq = n\<rparr>" and p = new_packet]
  by (auto simp: Cli_HeartBeat_Size_def HEADER_SIZE_def Buffer_MAX_SIZE_def)

section \<open>Properties\<close>


text \<open>A login without packets for its answers.\<close>

definition mute_env :: login_env where
  "mute_env = \<lparr>le_kick = None, le_ans = None, le_free = True, le_user_seq = 7, le_item_seqs = [8]\<rparr>"

lemma mute_login:
  assumes "pkt_Read Login_Req_Load p = Ret (Some req)" and "user_seq (ex_user (ex_ses m s)) = 0" and "ex_table m (req_user_id req) = None"
  shows "Login_Recv_Req mute_env s p m = Ret (ex_set s (\<lambda>x. x\<lparr>ex_user := login_data mute_env (req_user_id req) (ex_user x)\<rparr>)
    (m\<lparr>ex_table := (ex_table m)(req_user_id req \<mapsto> s)\<rparr>))"
  using assms by (simp add: Login_Recv_Req_def Manager_Add_def mute_env_def send_login_ans_def ex_SendMsg_def Let_def ex_set_def)

lemma mute_drawn: "drawn mute_env"
  by (simp add: drawn_def mute_env_def)

lemmas ex_state = new_ex_server_def new_ex_session_def new_UserData_def ex_accept_def ex_OnCreate_def ex_attach_def
  ex_detach_def ex_close_def ex_OnClose_def Manager_Remove_def ex_reconnect_def ex_AttachNull_def Let_def

text \<open>The state when user \<open>A\<close> has logged in on session 1.\<close>

definition logged_in :: ex_server where
  "logged_in = (let m = ex_accept 1 1 new_ex_server; m = m\<lparr>ex_cached := (ex_cached m)(1 := True)\<rparr>
     in ex_set 1 (\<lambda>x. x\<lparr>ex_user := login_data mute_env [65] (ex_user x)\<rparr>) (m\<lparr>ex_table := (ex_table m)([65] \<mapsto> 1)\<rparr>))"

lemma logged_in_reachable: "ex_step\<^sup>*\<^sup>* new_ex_server logged_in"
proof -
  let ?m1 = "ex_accept 1 1 new_ex_server"
  let ?m2 = "?m1\<lparr>ex_cached := (ex_cached ?m1)(1 := True)\<rparr>"
  obtain p where p: "pkt_Read Login_Req_Load p = Ret (Some \<lparr>req_user_id = [65]\<rparr>)" using login_packet [of "[65]"] by auto
  have "ex_step new_ex_server ?m1" by (rule step_accept) (simp_all add: ex_unused_def new_ex_server_def)
  moreover have "ex_step ?m1 ?m2" by (rule step_connect [where l = 1]) (simp add: ex_state)
  moreover have "Login_Recv_Req mute_env 1 p ?m2 = Ret logged_in"
    by (subst mute_login [OF p]) (simp_all add: logged_in_def ex_state)
  then have "ex_step ?m2 logged_in" using mute_drawn by (intro step_login [where l = 1]) (simp_all add: ex_state)
  ultimately show ?thesis by (blast intro: rtranclp.rtrancl_into_rtrancl)
qed




text \<open>C38: A login whose name is long overruns the packet of the answer. The answer repeats the name and adds at least one item, so
  that names of 65489 to 65521 bytes fit the request, but the 16 bits of the length of the answer wrap: the check of the
  capacity passes and the body is written past the end of the packet.\<close>

theorem long_name_overruns_answer:
  assumes "pkt_Read Login_Req_Load p = Ret (Some req)" and "user_seq (ex_user (ex_ses m s)) = 0"
    and "ex_table m (req_user_id req) = None" and "user_items (ex_user (ex_ses m s)) = []" and "drawn env"
    and "le_ans env = Some q" and "pkt_ok q" and "65489 \<le> length (req_user_id req)" and "length (req_user_id req) < 65521"
  shows "Login_Req_Size req + HEADER_SIZE < Buffer_MAX_SIZE \<and> Login_Recv_Req env s p m = Undef"
proof
  show "Login_Req_Size req + HEADER_SIZE < Buffer_MAX_SIZE"
    using assms(9) by (simp add: Login_Req_Size_def HEADER_SIZE_def Buffer_MAX_SIZE_def)
  let ?u = "login_data env (req_user_id req) (ex_user (ex_ses m s))"
  let ?ans = "\<lparr>login_error_code = Ex_Success, login_user_data = ?u\<rparr>"
  let ?m = "ex_set s (\<lambda>x. x\<lparr>ex_user := ?u\<rparr>) (m\<lparr>ex_table := (ex_table m)(req_user_id req \<mapsto> s)\<rparr>)"
  have k: "1 \<le> length (le_item_seqs env)" "length (le_item_seqs env) \<le> 10" using assms(5) by (auto simp: drawn_def)
  have size: "Login_Ans_Size ?ans = 16 + length (req_user_id req) + 21 * length (le_item_seqs env)"
    by (simp add: Login_Ans_Size_def ErrorCode_Size_def UserData_Size_eq login_data_def assms(4) ex_items_size [OF k(2)])
  have big: "2 ^ 16 \<le> Login_Ans_Size ?ans + HEADER_SIZE" "Login_Ans_Size ?ans + HEADER_SIZE < 2 ^ 16 + 60000"
    unfolding size HEADER_SIZE_def using k assms(8,9) by simp_all
  show "Login_Recv_Req env s p m = Undef"
    using SendMsg_overruns [OF assms(7) codec_login_ans.length_store [of ?ans] big, of s Login_Ans_MSG_ID ?m]
    by (simp add: Login_Recv_Req_def Manager_Add_def Let_def send_login_ans_def assms(1-3,6))
qed

lemma long_name_overruns_answer_witness:
  "\<exists>p. Login_Recv_Req (mute_env\<lparr>le_ans := Some new_packet\<rparr>) 1 p (ex_accept 1 1 new_ex_server) = Undef"
proof -
  let ?req = "\<lparr>req_user_id = replicate 65500 65\<rparr>"
  let ?env = "mute_env\<lparr>le_ans := Some new_packet\<rparr>"
  let ?m = "ex_accept 1 1 new_ex_server"
  have "Login_Req_Size ?req + HEADER_SIZE < Buffer_MAX_SIZE" "length (req_user_id ?req) < 2 ^ 32"
    by (simp_all add: Login_Req_Size_def HEADER_SIZE_def Buffer_MAX_SIZE_def)
  from codec_login_req.packet_roundtrip [OF this(2) pkt_ok_new this(1)] obtain p where
    p: "pkt_Read Login_Req_Load p = Ret (Some ?req)" by blast
  have m: "user_seq (ex_user (ex_ses ?m 1)) = 0" "ex_table ?m (req_user_id ?req) = None"
    "user_items (ex_user (ex_ses ?m 1)) = []" "drawn ?env" "le_ans ?env = Some new_packet"
    "pkt_ok new_packet" "65489 \<le> length (req_user_id ?req)" "length (req_user_id ?req) < 65521"
    by (simp_all add: ex_state drawn_def mute_env_def)
  from long_name_overruns_answer [OF p m] show ?thesis by blast
qed

text \<open>A session object that the pool hands out again keeps the items of its former user, because \<open>OnCreate\<close> clears the
  name and the number only: the next user to log in on it is given them in front of the new ones.\<close>

theorem former_items_given_away:
  assumes "ex_unused s m" and "pkt_Read Login_Req_Load p = Ret (Some req)"
    and "Login_Recv_Req env s p (ex_accept l s m) = Ret m'"
  shows "user_id (ex_user (ex_ses m' s)) = req_user_id req \<and>
    user_items (ex_user (ex_ses m' s)) = user_items (ex_user (ex_ses m s)) @ ex_items (le_item_seqs env)"
proof -
  have a: "ex_user (ex_ses (ex_accept l s m) s) = (ex_user (ex_ses m s))\<lparr>user_id := [], user_seq := 0\<rparr>"
    using attach_same [of _ l s] by (simp add: ex_accept_def ex_OnCreate_def ex_same_def)
  from Login_done(2) [OF assms(3,2)] show ?thesis by (simp add: a login_data_def)
qed

text \<open>The state when session 1 was closed, forgotten, and accepted again.\<close>

definition accepted_again :: ex_server where
  "accepted_again = (let m = ex_close 1 logged_in in m\<lparr>ex_cached := (ex_cached m)(1 := False)\<rparr>)"

lemma former_items_given_away_witness:
  "ex_unused 1 accepted_again \<and> (\<exists>p m'. Login_Recv_Req mute_env 1 p (ex_accept 3 1 accepted_again) = Ret m' \<and>
     user_id (ex_user (ex_ses m' 1)) = [66] \<and> user_items (ex_user (ex_ses m' 1)) = ex_items [8] @ ex_items [8])"
proof -
  obtain p where p: "pkt_Read Login_Req_Load p = Ret (Some \<lparr>req_user_id = [66]\<rparr>)" using login_packet [of "[66]"] by auto
  let ?m = "ex_accept 3 1 accepted_again"
  have u: "ex_unused 1 accepted_again" by (auto simp: ex_unused_def accepted_again_def logged_in_def ex_state login_data_def ran_def)
  have m: "user_seq (ex_user (ex_ses ?m 1)) = 0" "ex_table ?m (req_user_id \<lparr>req_user_id = [66]\<rparr>) = None"
    "user_items (ex_user (ex_ses accepted_again 1)) = ex_items [8]"
    by (simp_all add: accepted_again_def logged_in_def ex_state login_data_def mute_env_def)
  obtain m' where r: "Login_Recv_Req mute_env 1 p ?m = Ret m'" using mute_login [OF p m(1,2)] by blast
  have "user_id (ex_user (ex_ses m' 1)) = [66] \<and> user_items (ex_user (ex_ses m' 1)) = ex_items [8] @ ex_items [8]"
    using former_items_given_away [OF u p r] m(3) by (simp add: mute_env_def del: One_nat_def)
  then show ?thesis using u r by blast
qed

text \<open>The state when user \<open>A\<close> lost the link, came back by a reconnect on link 2, and somebody else logged in as \<open>A\<close> on link 3.\<close>

definition lost_link :: ex_server where
  "lost_link = ex_close 1 logged_in"

definition back_on_link2 :: ex_server where
  "back_on_link2 = ex_reconnect True 2 1 (ex_accept 2 2 lost_link)"

definition two_users_A :: ex_server where
  "two_users_A = (let m = ex_accept 3 3 back_on_link2
     in ex_set 3 (\<lambda>x. x\<lparr>ex_user := login_data mute_env [65] (ex_user x)\<rparr>) (m\<lparr>ex_table := (ex_table m)([65] \<mapsto> 3)\<rparr>))"

lemma accept_simps:
  assumes "ex_attached m l = None"
  shows "ex_attached (ex_accept l s m) = (ex_attached m)(l \<mapsto> s)" "ex_table (ex_accept l s m) = ex_table m"
    "ex_cached (ex_accept l s m) = ex_cached m" "ex_posted (ex_accept l s m) = ex_posted m"
    "ex_ses (ex_accept l s m) = (ex_ses m)(s := \<lparr>ex_user = (ex_user (ex_ses m s))\<lparr>user_id := [], user_seq := 0\<rparr>,
       ex_ack = 0, ex_msg_seq = 0, ex_link = Some l\<rparr>)"
  using assms by (simp_all add: ex_accept_def ex_OnCreate_def ex_attach_def ex_detach_def Let_def) (cases "ex_ses m s", simp)

lemma close_simps:
  assumes "ex_attached m l = Some s"
  shows "ex_attached (ex_close l m) = (ex_attached m)(l := None)" "ex_cached (ex_close l m) = ex_cached m"
    "ex_posted (ex_close l m) = ex_posted m" "ex_ses (ex_close l m) = (ex_ses m)(s := (ex_ses m s)\<lparr>ex_link := None\<rparr>)"
    "user_id (ex_user (ex_ses m s)) \<noteq> [] \<Longrightarrow> ex_table (ex_close l m) = (ex_table m)(user_id (ex_user (ex_ses m s)) := None)"
  using assms by (simp_all add: ex_close_def ex_OnClose_def Manager_Remove_def ex_detach_def)

lemma reconnect_simps:
  assumes "ex_attached m l = Some t" and "ex_link (ex_ses m s) = None" and "s \<noteq> t"
  shows "ex_attached (ex_reconnect free l s m) = (ex_attached m)(l \<mapsto> s)" "ex_cached (ex_reconnect free l s m) = ex_cached m"
    "ex_posted (ex_reconnect free l s m) = ex_posted m" "ex_table (ex_reconnect free l s m) = ex_table m"
    "ex_ses (ex_reconnect free l s m) =
      (ex_ses m)(t := (ex_ses m t)\<lparr>ex_link := None\<rparr>, s := (ex_ses m s)\<lparr>ex_link := Some l\<rparr>)"
  using assms by (simp_all add: ex_reconnect_def ex_attach_def ex_detach_def Let_def)

lemma logged_in_state:
  "ex_attached logged_in = [1 \<mapsto> 1]" "ex_cached logged_in = (\<lambda>_. False)(1 := True)" "ex_posted logged_in = []"
  "ex_table logged_in = [[65] \<mapsto> 1]"
  "ex_ses logged_in = (\<lambda>_. new_ex_session)(1 := \<lparr>ex_user = login_data mute_env [65] new_UserData, ex_ack = 0, ex_msg_seq = 0,
     ex_link = Some 1\<rparr>)"
  by (simp_all add: logged_in_def Let_def accept_simps new_ex_server_def fun_eq_iff)
    (simp add: new_ex_session_def new_UserData_def login_data_def)

lemma lost_link_state:
  "ex_attached lost_link = Map.empty" "ex_cached lost_link = (\<lambda>_. False)(1 := True)" "ex_posted lost_link = []"
  "ex_table lost_link = Map.empty"
  "ex_ses lost_link = (\<lambda>_. new_ex_session)(1 := \<lparr>ex_user = login_data mute_env [65] new_UserData, ex_ack = 0, ex_msg_seq = 0,
     ex_link = None\<rparr>)"
  using close_simps [of logged_in 1 1] by (simp_all add: lost_link_def logged_in_state login_data_def fun_eq_iff)

lemma back_on_link2_state:
  "ex_attached back_on_link2 = [2 \<mapsto> 1]" "ex_cached back_on_link2 = (\<lambda>_. False)(1 := True)" "ex_posted back_on_link2 = []"
  "ex_table back_on_link2 = Map.empty"
  "ex_ses back_on_link2 = (\<lambda>_. new_ex_session)(1 := \<lparr>ex_user = login_data mute_env [65] new_UserData, ex_ack = 0, ex_msg_seq = 0,
     ex_link = Some 2\<rparr>)"
proof -
  have n: "ex_attached lost_link 2 = None" by (simp add: lost_link_state)
  let ?m = "ex_accept 2 2 lost_link"
  have "ex_attached ?m 2 = Some 2" "ex_link (ex_ses ?m 1) = None" "(1 :: nat) \<noteq> 2"
    by (simp_all add: accept_simps [OF n] lost_link_state)
  note r = reconnect_simps [OF this, of True, folded back_on_link2_def] accept_simps [OF n] lost_link_state
  show "ex_attached back_on_link2 = [2 \<mapsto> 1]" "ex_cached back_on_link2 = (\<lambda>_. False)(1 := True)" "ex_posted back_on_link2 = []"
    "ex_table back_on_link2 = Map.empty" by (simp_all add: r)
  show "ex_ses back_on_link2 = (\<lambda>_. new_ex_session)(1 := \<lparr>ex_user = login_data mute_env [65] new_UserData, ex_ack = 0,
     ex_msg_seq = 0, ex_link = Some 2\<rparr>)"
    unfolding r by (simp add: fun_eq_iff new_ex_session_def new_UserData_def)
qed

lemma back_on_link2_reachable: "ex_step\<^sup>*\<^sup>* new_ex_server back_on_link2"
proof -
  have "ex_step logged_in lost_link" unfolding lost_link_def by (rule step_close [where s = 1]) (simp add: logged_in_state)
  moreover have "ex_step lost_link (ex_accept 2 2 lost_link)"
    by (rule step_accept) (simp_all add: ex_unused_def lost_link_state)
  moreover have "ex_step (ex_accept 2 2 lost_link) back_on_link2" unfolding back_on_link2_def
    by (rule step_reconnect [where t = 2]) (simp_all add: accept_simps lost_link_state)
  ultimately show ?thesis using logged_in_reachable by (blast intro: rtranclp.rtrancl_into_rtrancl)
qed

lemma two_users_A_reachable: "ex_step\<^sup>*\<^sup>* new_ex_server two_users_A"
proof -
  let ?m = "ex_accept 3 3 back_on_link2"
  obtain p where p: "pkt_Read Login_Req_Load p = Ret (Some \<lparr>req_user_id = [65]\<rparr>)" using login_packet [of "[65]"] by auto
  have "ex_step back_on_link2 ?m" by (rule step_accept) (simp_all add: ex_unused_def back_on_link2_state ran_def)
  moreover have m: "user_seq (ex_user (ex_ses ?m 3)) = 0" "ex_table ?m (req_user_id \<lparr>req_user_id = [65]\<rparr>) = None"
    "ex_attached ?m 3 = Some 3"
    by (simp_all add: accept_simps back_on_link2_state)
  have "ex_step ?m two_users_A"
    by (rule step_login [OF m(3) mute_drawn, of p])
      (subst mute_login [OF p m(1,2)], simp add: two_users_A_def Let_def)
  ultimately show ?thesis using back_on_link2_reachable by (blast intro: rtranclp.rtrancl_into_rtrancl)
qed

text \<open>One user can be logged in twice without being noticed: closing a link takes the user off the table, a reconnect brings
  the session back logged in but not listed, and a second login under the name finds nobody to throw out. There is
  such a run to a state in which two sessions with links are logged in under one name and nothing is pending.\<close>

theorem reconnected_user_not_listed:
  "\<exists>m. ex_step\<^sup>*\<^sup>* new_ex_server m \<and> ex_posted m = [] \<and>
     (\<exists>l1 l2 s1 s2 u. s1 \<noteq> s2 \<and> ex_attached m l1 = Some s1 \<and> ex_attached m l2 = Some s2 \<and>
        user_id (ex_user (ex_ses m s1)) = u \<and> user_id (ex_user (ex_ses m s2)) = u \<and>
        user_seq (ex_user (ex_ses m s1)) \<noteq> 0 \<and> user_seq (ex_user (ex_ses m s2)) \<noteq> 0)"
proof (intro exI conjI)
  show "ex_step\<^sup>*\<^sup>* new_ex_server two_users_A" by (rule two_users_A_reachable)
  show "(1 :: nat) \<noteq> 3" by simp
  show "ex_posted two_users_A = []" "ex_attached two_users_A 2 = Some 1" "ex_attached two_users_A 3 = Some 3"
    "user_id (ex_user (ex_ses two_users_A 1)) = [65]" "user_id (ex_user (ex_ses two_users_A 3)) = [65]"
    "user_seq (ex_user (ex_ses two_users_A 1)) \<noteq> 0" "user_seq (ex_user (ex_ses two_users_A 3)) \<noteq> 0"
    by (simp_all add: two_users_A_def Let_def accept_simps back_on_link2_state login_data_def mute_env_def)
qed

section \<open>Heartbeats\<close>

fun run_beats :: "packet option \<Rightarrow> nat \<Rightarrow> packet list \<Rightarrow> ex_server \<Rightarrow> ex_server outcome" where
  "run_beats created s [] m = Ret m"
| "run_beats created s (p # ps) m = bind_outcome (HeartBeat_Recv_Ntf created s p m) (run_beats created s ps)"

text \<open>How many numbers of a list follow on the one accepted before.\<close>

fun accepted :: "u32 \<Rightarrow> u32 list \<Rightarrow> nat" where
  "accepted a [] = 0"
| "accepted a (n # ns) = (if n = a + 1 then Suc (accepted n ns) else accepted a ns)"

lemma accepted_le: "accepted a ns \<le> length ns"
  by (induction a ns rule: accepted.induct) auto

text \<open>The heartbeats of a user are counted without gaps: on a session that is logged in, the acknowledged number grows by one
  for each heartbeat that carries the next number, modulo 2 to the 32, and every other heartbeat changes nothing but
  is answered with one message that reports the gap; the link stays as it is.\<close>

theorem heartbeats_counted:
  assumes "list_all2 (\<lambda>p n. pkt_Read Cli_HeartBeat_Load p = Ret (Some \<lparr>beat_msg_seq = n\<rparr>)) ps ns"
    and "user_seq (ex_user (ex_ses m s)) \<noteq> 0" and "ex_link (ex_ses m s) = Some l" and "pkt_ok q"
  shows "run_beats (Some q) s ps m = Ret ((ex_set s (\<lambda>x. x\<lparr>ex_ack := ex_ack x + of_nat (accepted (ex_ack x) ns)\<rparr>) m)
    \<lparr>ex_out := ex_out m @ replicate (length ns - accepted (ex_ack (ex_ses m s)) ns)
       (l, frame_header 14 (ex_msg_seq (ex_ses m s)) Kickout_Ntf_MSG_ID @ put_word Ex_MessageSeqOmmitError)\<rparr>)"
  using assms
proof (induction arbitrary: m rule: list_all2_induct)
  case Nil
  then show ?case by (simp add: ex_set_def)
next
  case (Cons p ps n ns)
  let ?a = "ex_ack (ex_ses m s)"
  show ?case
  proof (cases "n = ?a + 1")
    case True
    let ?m = "ex_set s (\<lambda>x. x\<lparr>ex_ack := n\<rparr>) m"
    have "HeartBeat_Recv_Ntf (Some q) s p m = Ret ?m"
      using Cons.hyps(1) Cons.prems True by (simp add: HeartBeat_Recv_Ntf_def)
    moreover have "user_seq (ex_user (ex_ses ?m s)) \<noteq> 0" "ex_link (ex_ses ?m s) = Some l" using Cons.prems by simp_all
    note Cons.IH [OF this \<open>pkt_ok q\<close>]
    ultimately show ?thesis using True by (simp add: ex_set_def ac_simps)
  next
    case False
    let ?x = "(l, frame_header 14 (ex_msg_seq (ex_ses m s)) Kickout_Ntf_MSG_ID @ put_word Ex_MessageSeqOmmitError)"
    let ?m = "m\<lparr>ex_out := ex_out m @ [?x]\<rparr>"
    have k: "Kickout_Ntf_Size \<lparr>kick_error_code = e\<rparr> = 4" "Kickout_Ntf_Store \<lparr>kick_error_code = e\<rparr> = put_word e" for e
      by (simp_all add: Kickout_Ntf_Size_def Kickout_Ntf_Store_def ErrorCode_Size_def ErrorCode_Store_def store_word_def)
    have "length (put_word Ex_MessageSeqOmmitError) = 4" "4 + HEADER_SIZE < Buffer_MAX_SIZE"
      by (simp_all add: put_word_def HEADER_SIZE_def Buffer_MAX_SIZE_def)
    from SendMsg_fits [OF \<open>pkt_ok q\<close> this Cons.prems(2)]
    have "kick_session (Some q) s Ex_MessageSeqOmmitError m = Ret ?m"
      by (simp add: kick_session_def k HEADER_SIZE_def)
    moreover have "n - ?a \<noteq> 1" using False by (auto simp: algebra_simps)
    ultimately have "HeartBeat_Recv_Ntf (Some q) s p m = Ret ?m"
      using Cons.hyps(1) Cons.prems by (simp add: HeartBeat_Recv_Ntf_def)
    moreover have "user_seq (ex_user (ex_ses ?m s)) \<noteq> 0" "ex_link (ex_ses ?m s) = Some l" using Cons.prems by simp_all
    note Cons.IH [OF this \<open>pkt_ok q\<close>]
    ultimately show ?thesis using False accepted_le [of ?a ns]
      by (simp add: ex_set_def Suc_diff_le replicate_app_Cons_same)
  qed
qed

lemma heartbeats_counted_witness:
  "\<exists>p1 p2 p3 m'. run_beats (Some new_packet) 1 [p1, p2, p3] logged_in = Ret m' \<and> ex_ack (ex_ses m' 1) = 2 \<and> length (ex_out m') = 1"
proof -
  have "\<exists>p. pkt_Read Cli_HeartBeat_Load p = Ret (Some \<lparr>beat_msg_seq = n\<rparr>)" for n by (rule heartbeat_packet)
  then obtain P where p: "\<And>n. pkt_Read Cli_HeartBeat_Load (P n) = Ret (Some \<lparr>beat_msg_seq = n\<rparr>)" by metis
  have m: "user_seq (ex_user (ex_ses logged_in 1)) \<noteq> 0" "ex_link (ex_ses logged_in 1) = Some 1"
    "ex_ack (ex_ses logged_in 1) = 0" "ex_out logged_in = []"
    by (simp_all add: logged_in_state login_data_def mute_env_def) (simp add: logged_in_def ex_state)
  have "list_all2 (\<lambda>p n. pkt_Read Cli_HeartBeat_Load p = Ret (Some \<lparr>beat_msg_seq = n\<rparr>)) [P 1, P 3, P 2] [1, 3, 2]"
    by (simp add: p)
  note r = heartbeats_counted [OF this m(1,2) pkt_ok_new]
  show ?thesis by (intro exI conjI, rule r) (simp_all add: m(3,4) del: One_nat_def)
qed

end
