(* ===== verification/Spec2Isabelle.thy ===== *)
theory Spec2Isabelle
  imports Object_Pool Router_Messages MD5_Correctness Base64 Tcp_Messages Link_Queue Link_Manager Tcp_Server Router_Server
    Http_Server Http_Client Connection_Pool Redis_Client Mysql_Result Log_Writer Thread_Pool Weight_Random Multi_Lock
    Init_Once Link_Life Load_Test Load_Sessions Idl_Load_Safe Idl_CSharp_Wire Idl_Texts Idl_Driver
    Idl_Example Example_Server
begin

text \<open>
  Gamnet is a C++ game-server library: TCP and HTTP servers on boost::asio strands, sessions that survive their
  connection, routed messages between servers, database connections, and the utilities below them; its interface
  compiler \<^verbatim>\<open>idlc\<close> writes the message classes the servers exchange. The theories model the program's own logic, bottom
  up:

  \<^item> \<open>Gamnet_Prelude\<close>: outcomes of fallible code (\<open>Ret\<close>, \<open>Throw\<close> a code, \<open>Undef\<close> for behaviour that C++ leaves
    undefined), byte strings, integers in memory, error codes, and the locales \<open>invariant_system\<close> and \<open>codec\<close>.
  \<^item> \<open>Object_Pool\<close> (\<^verbatim>\<open>Library/Pool.h\<close>), \<open>Byte_Buffer\<close> (\<^verbatim>\<open>Library/Buffer\<close>), \<open>Std_Map\<close> (\<open>std::map\<close> as the code
    uses it), \<open>MD5_Digest\<close> and \<open>MD5_Correctness\<close> (\<^verbatim>\<open>Library/MD5\<close>), \<open>Base64\<close> (\<^verbatim>\<open>Library/Base64\<close>).
  \<^item> \<open>Tcp_Packet\<close> (\<^verbatim>\<open>Network/Tcp/Packet\<close>) frames a body with its length, sequence number and id over a buffer;
    \<open>Router_Messages\<close> (\<^verbatim>\<open>Network/Router/MsgRouter.h\<close>) are the messages the interface compiler generated.
  \<^item> \<open>Deadline_Timer\<close> (\<^verbatim>\<open>Library/Timer.h\<close>): one wait after another, and a periodic timer; \<open>Link_Life\<close>
    (\<^verbatim>\<open>Network/Link.cpp\<close>): connecting with a timeout, the read loop and closing, as handlers that queue on a strand.
  \<^item> \<open>Link_Queue\<close> (\<^verbatim>\<open>Network/Link.cpp\<close>): the send queue of a link; \<open>Link_Manager\<close> (\<^verbatim>\<open>Network/LinkManager.cpp\<close>):
    accepting, the table of links and the idle sweep; \<open>Session_Table\<close> (\<^verbatim>\<open>Network/Session.cpp\<close>): session keys, the
    table of sessions and its timer, and the sessions that wait for a routed answer.
  \<^item> \<open>Tcp_Framing\<close> (\<open>OnRecvMsg\<close> of \<^verbatim>\<open>Network/Tcp/LinkManager.h\<close>) cuts a byte stream into frames; \<open>Handler_Dispatch\<close>
    (\<^verbatim>\<open>HandlerContainer\<close>, \<^verbatim>\<open>HandlerFactory.h\<close>, \<^verbatim>\<open>Tcp/Dispatcher.h\<close>) finds the handler of a frame; \<open>Tcp_Messages\<close>
    composes the two; \<open>Tcp_Server\<close> is the whole TCP server: links, sessions and their strands, connecting,
    reconnecting with a token, heartbeats.
  \<^item> \<open>Router_Caster\<close> (\<^verbatim>\<open>Network/Router/RouterCaster\<close>): the uni-, multi- and any-cast routing tables; \<open>Router_Server\<close>
    (the rest of \<^verbatim>\<open>Network/Router\<close>): the links between servers, the address exchange and the routed messages.
  \<^item> \<open>Http_Server\<close> and \<open>Http_Client\<close> (\<^verbatim>\<open>Network/Http\<close>).
  \<^item> \<open>Connection_Pool\<close> (\<^verbatim>\<open>Database/ConnectionPool.h\<close>, one \<open>Object_Pool\<close> for each database, and \<^verbatim>\<open>MySQL/Transaction\<close>),
    \<open>Redis_Client\<close> (\<^verbatim>\<open>Database/Redis\<close>: from the socket's segments to the result set) and \<open>Mysql_Result\<close>
    (\<^verbatim>\<open>Database/MySQL\<close>: queries, iterators and columns over the client library).
  \<^item> \<open>Log_Writer\<close> (\<^verbatim>\<open>Log\<close>), \<open>Thread_Pool\<close>, \<open>Multi_Lock\<close>, \<open>Weight_Random\<close> and \<open>Init_Once\<close> (\<^verbatim>\<open>Library/ThreadPool.h\<close>,
    \<^verbatim>\<open>MultiLock.h\<close>, \<^verbatim>\<open>Random.h\<close>, \<^verbatim>\<open>Singleton.h\<close>).
  \<^item> \<open>Load_Test\<close> and \<open>Load_Sessions\<close> (\<^verbatim>\<open>Test\<close>): the load test client, one session with its script of messages, answers
    and link, and the timer, tasks and pool that start many of them.
  \<^item> The front end of the interface compiler: \<open>Idl_Scanner\<close> are the rules and start conditions of \<^verbatim>\<open>idlc/src/lexer.l\<close>,
    \<open>Idl_Grammar\<close> the grammar of \<^verbatim>\<open>parser.y\<close> with its actions, as a relation and as a parser that computes it;
    \<open>Idl_Spelling\<close> writes a tree as text, \<open>Idl_Front\<close> proves that scanner and parser read it back, and \<open>Idl_Texts\<close> runs
    the whole compiler on the checked-in interface files. \<open>Idl_Syntax\<close> is the parse tree (\<^verbatim>\<open>token.h\<close>) and \<open>Idl_Driver\<close> the
    command line (\<^verbatim>\<open>main.cpp\<close>, \<^verbatim>\<open>compiler.cpp\<close>).
  \<^item> Its generators: \<open>Idl_Cpp\<close>, \<open>Idl_CSharp\<close> and \<open>Idl_Python\<close> are the texts they write, line by line. \<open>Idl_Wire\<close> is what
    the generated C++ does, its \<open>Size\<close>, \<open>Store\<close> and \<open>Load\<close> run on values; \<open>Idl_Wire_Correct\<close> proves it correct for every
    parse tree that compiles and \<open>Idl_Load_Safe\<close> says what it does with any other bytes. \<open>Idl_CSharp_Wire\<close> is what the
    generated C# does, and that the two languages understand each other. \<open>Idl_Router\<close> connects the generator with the
    checked-in \<^verbatim>\<open>MsgRouter.h\<close>, both its text and what it does, and \<open>Idl_Example\<close> with the headers of the example.
  \<^item> The example: \<open>Example_Messages\<close> are the messages of \<^verbatim>\<open>example/idl\<close>, \<open>Example_Server\<close> is the server of
    \<^verbatim>\<open>example/server\<close>, its table of users with the handlers of login and heartbeat, over the steps of the library.

  How the model relates to the code. A class is a record of its members and each member function a definition on
  that record; objects that are shared by pointer (links, sessions, packets) live in a store indexed by their
  number. A task that is posted to a strand is either run at once or kept in a list and run by a later step, so the
  interleavings the code allows are sequences of steps. Exceptions are \<open>Throw\<close> with the error code, and the theorems
  say where they can leave a function. Code that is not in the repository is a parameter: the operating system's
  socket results, JSON parsing and printing, the curl library, the MySQL client library (with what its manual says as
  the hypothesis \<open>documented\<close>), the clock, the allocation of fresh objects, the order of the keys of a map, and in C# the
  encoding of strings and the equality of keys.

  What the lemmas show. The locales state what a client relies on, and are interpreted on the code's models:
  \<open>byte_queue\<close> (a buffer is a queue of bytes), \<open>codec\<close> and \<open>stream_codec\<close> (every generated message),
  \<open>frame_handler\<close> (what the receive loop needs of a dispatcher), \<open>one_shot_table\<close> (handlers and waiting sessions are
  delivered once), \<open>generated_type\<close> (a hand-written codec that agrees with the code generated for a type) and
  \<open>invariant_system\<close> (pool, database connections, timer, link, send queue, link manager, session tables, TCP server, routing
  tables, thread pool, locks, load test, example: an invariant of all reachable states). The properties C1 to C40 rest on their lemmas: refinements of the
  receive paths by a specification on byte streams that knows no buffers, of Base64 and MD5 by the RFC definitions,
  state invariants over all runs, round trips, type safety on arbitrary input, agreement of the generated languages,
  and the exact error behaviour, including the places where the code does not do what it means to do.

  Bounds and fuel. Machine integers have their width (\<open>u16\<close>, \<open>u32\<close>, \<open>u64\<close>). The receive loops of the servers take
  as fuel one more than the bytes in the packet; every turn of the loop that continues removes at least one header
  from it, so the fuel is enough, which is part of the properties. The loops of the byte-level code are proved to end;
  the redirection loop of the HTTP client is a partial function, where \<open>None\<close> is a call that never returns.

  The recursions over parse trees and replies take as fuel what bounds their depth, and the theorems show that it is
  enough; the loop over a stored result set takes two turns more than it has rows.

  Not modelled: the vendored JSON library; the tables that flex and bison made of the scanner and the grammar; code that
  only calls other libraries (opening database connections, sockets, curl initialisation, number conversions by boost,
  atomics); the start-up and the run loop, which only call the parts above; the Python programs that use the generated
  classes; and of the example its start-up and its status page, which only prints JSON.
\<close>

end
